(* ===== verification/NL_Prelude.thy ===== *)
theory NL_Prelude
  imports Main "HOL-Library.Word"
begin

text \<open>
  Shared vocabulary of the development: the machine types of the C and C++ sources, the
  faults a call can end with, reads and writes of little-endian memory as the host
  performs them with \<open>memcpy\<close>, decimal and hexadecimal formatting, and the generic lemmas
  on words, lists and results that the component theories share.
\<close>

unbundle bit_operations_syntax

section \<open>Machine types\<close>

type_synonym byte = "8 word"
type_synonym u16 = "16 word"
type_synonym u32 = "32 word"
type_synonym u64 = "64 word"
type_synonym wxString = string

named_theorems mem_simps \<open>reads from and writes to byte memory\<close>
named_theorems flow_splits \<open>case splits of the result types\<close>

section \<open>Results and faults\<close>

text \<open>
  \<open>BadPacketVersion\<close> and \<open>ClientTimeout\<close> are the exception classes of packets.h;
  \<open>SystemError\<close> is the exception the throwing overloads of asio raise. The other three are
  undefined behaviour the model makes visible: an access outside the accessed object, a
  dereferenced null pointer, and a container changed while it is iterated over.
\<close>

datatype fault =
    BadPacketVersion nat
  | ClientTimeout wxString
  | SystemError
  | OutOfBounds
  | NullPointer
  | IteratorInvalidated

type_synonym 'a result = "fault + 'a"

definition rbind :: "'a result \<Rightarrow> ('a \<Rightarrow> 'b result) \<Rightarrow> 'b result" where
  "rbind r f = (case r of Inl e \<Rightarrow> Inl e | Inr a \<Rightarrow> f a)"

lemma rbind_simps [simp]:
  "rbind (Inl e) f = Inl e"
  "rbind (Inr a) f = f a"
  by (simp_all add: rbind_def)

lemma rbind_Inr_iff: "rbind r f = Inr b \<longleftrightarrow> (\<exists>a. r = Inr a \<and> f a = Inr b)"
  by (cases r) auto

lemma rbind_Inl_iff: "rbind r f = Inl e \<longleftrightarrow> r = Inl e \<or> (\<exists>a. r = Inr a \<and> f a = Inl e)"
  by (cases r) auto

lemma rbind_cong [fundef_cong]:
  "r = r' \<Longrightarrow> (\<And>a. r' = Inr a \<Longrightarrow> f a = g a) \<Longrightarrow> rbind r f = rbind r' g"
  by (cases r') auto

lemmas result_splits = sum.splits option.splits prod.splits if_splits

section \<open>The environment\<close>

text \<open>
  What the code calls and the repository does not contain: whether \<open>malloc\<close> of a given
  size succeeds, what the target computes for \<open>1 << c\<close> when the count \<open>c\<close> is outside the
  width of \<open>int\<close> (undefined in C++, so whatever the machine gives), and whether asio can
  resolve the address and send the datagram (\<open>False\<close> is the thrown \<open>system_error\<close>).
\<close>

record env =
  env_malloc :: "nat \<Rightarrow> bool"
  env_shl :: "int \<Rightarrow> u32"
  env_send :: "wxString \<Rightarrow> int \<Rightarrow> byte list \<Rightarrow> bool"

text \<open>The C expression \<open>1 << c\<close> on a 32-bit \<open>int\<close>.\<close>

definition c_shl1 :: "env \<Rightarrow> int \<Rightarrow> u32" where
  "c_shl1 env c = (if 0 \<le> c \<and> c < 32 then push_bit (nat c) 1 else env_shl env c)"

text \<open>
  The instance the witnesses run on. The shift is undefined in C++, so a compiler may do
  anything with it; the shift instructions of the client's targets (\<open>SHL\<close> of x86, \<open>LSLV\<close> on a
  W register of 64-bit ARM) use the count modulo 32. \<open>shl_masks\<close> names that behaviour.
\<close>

definition shl_masks :: "env \<Rightarrow> bool" where
  "shl_masks env \<longleftrightarrow> (\<forall>c. env_shl env c = push_bit (nat (c mod 32)) 1)"

definition env_x86 :: env where
  "env_x86 = \<lparr>env_malloc = (\<lambda>_. True), env_shl = (\<lambda>c. push_bit (nat (c mod 32)) 1),
     env_send = (\<lambda>_ _ _. True)\<rparr>"

lemma env_x86_simps [simp]:
  "env_malloc env_x86 n" "env_shl env_x86 c = push_bit (nat (c mod 32)) 1" "env_send env_x86 a p d"
  by (simp_all add: env_x86_def)

lemma shl_masks_x86 [simp]: "shl_masks env_x86"
  by (simp add: shl_masks_def env_x86_def)

section \<open>Byte memory\<close>

text \<open>
  \<open>memcpy\<close> of an integer reads it in the host's byte order; the client runs on
  little-endian hosts. A read that leaves the buffer is \<open>OutOfBounds\<close>.
\<close>

definition le16 :: "byte \<Rightarrow> byte \<Rightarrow> u16" where
  "le16 b0 b1 = ucast b0 OR push_bit 8 (ucast b1)"

definition le32 :: "byte \<Rightarrow> byte \<Rightarrow> byte \<Rightarrow> byte \<Rightarrow> u32" where
  "le32 b0 b1 b2 b3 =
     ucast b0 OR push_bit 8 (ucast b1) OR push_bit 16 (ucast b2) OR push_bit 24 (ucast b3)"

definition st16 :: "u16 \<Rightarrow> byte list" where
  "st16 w = [ucast w, ucast (drop_bit 8 w)]"

definition st32 :: "u32 \<Rightarrow> byte list" where
  "st32 w = [ucast w, ucast (drop_bit 8 w), ucast (drop_bit 16 w), ucast (drop_bit 24 w)]"

definition rd8 :: "byte list \<Rightarrow> nat \<Rightarrow> byte result" where
  "rd8 bs n = (if n < length bs then Inr (bs ! n) else Inl OutOfBounds)"

definition rd16 :: "byte list \<Rightarrow> nat \<Rightarrow> u16 result" where
  "rd16 bs n =
     (if n + 2 \<le> length bs then Inr (le16 (bs ! n) (bs ! (n + 1))) else Inl OutOfBounds)"

definition rd32 :: "byte list \<Rightarrow> nat \<Rightarrow> u32 result" where
  "rd32 bs n =
     (if n + 4 \<le> length bs
      then Inr (le32 (bs ! n) (bs ! (n + 1)) (bs ! (n + 2)) (bs ! (n + 3)))
      else Inl OutOfBounds)"

definition rdn :: "byte list \<Rightarrow> nat \<Rightarrow> nat \<Rightarrow> byte list result" where
  "rdn bs n k = (if n + k \<le> length bs then Inr (take k (drop n bs)) else Inl OutOfBounds)"

text \<open>\<open>!strncmp(bytes, hdr, strlen(hdr))\<close>: stops at the first difference.\<close>

fun strneq :: "byte list \<Rightarrow> byte list \<Rightarrow> bool result" where
  "strneq bs [] = Inr True"
| "strneq [] (h # hs) = Inl OutOfBounds"
| "strneq (b # bs) (h # hs) = (if b = h then strneq bs hs else Inr False)"

lemma strneq_True_iff: "strneq bs hs = Inr True \<longleftrightarrow> take (length hs) bs = hs"
  by (induction bs hs rule: strneq.induct) auto

lemma strneq_append [simp]: "strneq (hs @ bs) hs = Inr True"
  by (simp add: strneq_True_iff)

lemma strneq_total: "length hs \<le> length bs \<Longrightarrow> \<exists>b. strneq bs hs = Inr b"
  by (induction bs hs rule: strneq.induct) auto

lemma length_st [simp]: "length (st16 w) = 2" "length (st32 v) = 4"
  by (simp_all add: st16_def st32_def)

lemma le16_st16 [simp]: "le16 (ucast w) (ucast (drop_bit 8 w)) = w"
  by (rule bit_word_eqI) (auto simp: le16_def bit_simps)

lemma le32_st32 [simp]:
  "le32 (ucast w) (ucast (drop_bit 8 w)) (ucast (drop_bit 16 w)) (ucast (drop_bit 24 w)) = w"
proof (rule bit_word_eqI)
  fix n assume n: "n < LENGTH(32)"
  consider "n < 8" | "8 \<le> n \<and> n < 16" | "16 \<le> n \<and> n < 24" | "24 \<le> n" by linarith
  then show "bit (le32 (ucast w) (ucast (drop_bit 8 w)) (ucast (drop_bit 16 w))
      (ucast (drop_bit 24 w))) n = bit w n"
    using n by cases (auto simp: le32_def bit_simps)
qed

lemma rd8_append: "rd8 (xs @ b # ys) (length xs) = Inr b"
  by (simp add: rd8_def)

lemma rd16_append: "rd16 (xs @ st16 w @ ys) (length xs) = Inr w"
  by (simp add: rd16_def st16_def nth_append)

lemma rd32_append: "rd32 (xs @ st32 w @ ys) (length xs) = Inr w"
  by (simp add: rd32_def st32_def nth_append)

text \<open>A read inside the buffer succeeds; the codecs only ever fail for lack of bytes.\<close>

lemma rd_ok [mem_simps]:
  "n < length bs \<Longrightarrow> rd8 bs n = Inr (bs ! n)"
  "n + 2 \<le> length bs \<Longrightarrow> rd16 bs n = Inr (le16 (bs ! n) (bs ! (n + 1)))"
  "n + 4 \<le> length bs \<Longrightarrow>
     rd32 bs n = Inr (le32 (bs ! n) (bs ! (n + 1)) (bs ! (n + 2)) (bs ! (n + 3)))"
  "n + k \<le> length bs \<Longrightarrow> rdn bs n k = Inr (take k (drop n bs))"
  by (simp_all add: rd8_def rd16_def rd32_def rdn_def)

lemma rd_Inr_iff:
  "rd8 bs n = Inr b \<longleftrightarrow> n < length bs \<and> b = bs ! n"
  "rd16 bs n = Inr v \<longleftrightarrow> n + 2 \<le> length bs \<and> v = le16 (bs ! n) (bs ! (n + 1))"
  "rd32 bs n = Inr w \<longleftrightarrow>
     n + 4 \<le> length bs \<and> w = le32 (bs ! n) (bs ! (n + 1)) (bs ! (n + 2)) (bs ! (n + 3))"
  "rdn bs n k = Inr ds \<longleftrightarrow> n + k \<le> length bs \<and> ds = take k (drop n bs)"
  by (auto simp: rd8_def rd16_def rd32_def rdn_def)

lemma rdn_append: "rdn (xs @ zs @ ys) (length xs) (length zs) = Inr zs"
  by (simp add: rdn_def)

section \<open>Text\<close>

text \<open>
  A \<open>wxString\<close> is a HOL string. The protocol's strings are ASCII, where wxWidgets'
  conversions from and to \<open>char*\<close> keep every byte; in what is received other bytes are taken one
  to one. \<open>wxString(const char*)\<close> stops at the first NUL. Where the code copies a string that
  need not be ASCII into a buffer of its own, the conversion is a parameter (\<open>wx_mb_str\<close>).
\<close>

definition str_bytes :: "wxString \<Rightarrow> byte list" where
  "str_bytes s = map of_char s"

definition bytes_str :: "byte list \<Rightarrow> wxString" where
  "bytes_str bs = map (\<lambda>b. char_of (unat b)) bs"

definition c_string :: "byte list \<Rightarrow> byte list" where
  "c_string bs = takeWhile (\<lambda>b. b \<noteq> 0) bs"

lemma length_str_bytes [simp]: "length (str_bytes s) = length s"
  by (simp add: str_bytes_def)

lemma length_bytes_str [simp]: "length (bytes_str bs) = length bs"
  by (simp add: bytes_str_def)

lemma of_char_less_256: "of_char c < (256 :: nat)"
  using of_char_mod_256 [of c, where 'a = nat] mod_less_divisor [of 256 "of_char c :: nat"] by linarith

lemma unat_of_char [simp]: "unat (of_char c :: byte) = of_char c"
proof -
  have "unat (word_of_nat (of_char c) :: byte) = of_char c"
    by (simp add: unat_of_nat of_char_less_256)
  then show ?thesis by (simp only: of_nat_of_char)
qed

lemma bytes_str_str_bytes [simp]: "bytes_str (str_bytes s) = s"
  by (simp add: bytes_str_def str_bytes_def comp_def)

text \<open>\<open>wxString::Format\<close> with \<open>%d\<close> and with \<open>%02X\<close>.\<close>

fun dec_nat :: "nat \<Rightarrow> wxString" where
  "dec_nat n = (if n < 10 then [char_of (48 + n)]
     else dec_nat (n div 10) @ [char_of (48 + n mod 10)])"

definition dec_int :: "int \<Rightarrow> wxString" where
  "dec_int i = (if i < 0 then CHR ''-'' # dec_nat (nat (- i)) else dec_nat (nat i))"

declare dec_nat.simps [simp del]

definition hexdigits :: string where
  "hexdigits = ''0123456789ABCDEF''"

definition fmt_02X :: "byte \<Rightarrow> wxString" where
  "fmt_02X b = [hexdigits ! (unat b div 16), hexdigits ! (unat b mod 16)]"

definition hexdigits_lower :: string where
  "hexdigits_lower = ''0123456789abcdef''"

definition fmt_02x :: "byte \<Rightarrow> wxString" where
  "fmt_02x b = [hexdigits_lower ! (unat b div 16), hexdigits_lower ! (unat b mod 16)]"

section \<open>Histories of operations\<close>

text \<open>
  A component as the operations called on it: \<open>step\<close> is the state after one operation,
  \<open>ok\<close> what the caller has to respect and \<open>inv\<close> what the component keeps. Whatever holds of
  \<open>inv\<close> then holds after every admissible history of calls.
\<close>

locale machine =
  fixes step :: "'op \<Rightarrow> 's \<Rightarrow> 's"
    and ok :: "'s \<Rightarrow> 'op \<Rightarrow> bool"
    and inv :: "'s \<Rightarrow> bool"
  assumes inv_step: "inv s \<Longrightarrow> ok s op \<Longrightarrow> inv (step op s)"
begin

fun admissible :: "'s \<Rightarrow> 'op list \<Rightarrow> bool" where
  "admissible s [] \<longleftrightarrow> True"
| "admissible s (op # ops) \<longleftrightarrow> ok s op \<and> admissible (step op s) ops"

lemma inv_history: "inv s \<Longrightarrow> admissible s ops \<Longrightarrow> inv (fold step ops s)"
  by (induction ops arbitrary: s) (simp_all add: inv_step)

lemma inv_prefix: "inv s \<Longrightarrow> admissible s ops \<Longrightarrow> inv (fold step (take n ops) s)"
  by (induction ops arbitrary: s n) (simp_all add: inv_step take_Cons split: nat.split)

end

text \<open>
  A component whose operations can fault or fail to return: then the history ends. \<open>run\<close> is
  the state after a history that has not ended so.
\<close>

locale partial_machine =
  fixes step :: "'op \<Rightarrow> 's \<Rightarrow> 's option"
    and ok :: "'s \<Rightarrow> 'op \<Rightarrow> bool"
    and inv :: "'s \<Rightarrow> bool"
  assumes inv_step: "inv s \<Longrightarrow> ok s op \<Longrightarrow> step op s = Some s' \<Longrightarrow> inv s'"
begin

fun run :: "'op list \<Rightarrow> 's \<Rightarrow> 's option" where
  "run [] s = Some s"
| "run (op # ops) s = (case step op s of None \<Rightarrow> None | Some s \<Rightarrow> run ops s)"

fun admissible :: "'s \<Rightarrow> 'op list \<Rightarrow> bool" where
  "admissible s [] \<longleftrightarrow> True"
| "admissible s (op # ops) \<longleftrightarrow> ok s op \<and> (case step op s of None \<Rightarrow> True | Some s \<Rightarrow> admissible s ops)"

lemma inv_run: "inv s \<Longrightarrow> admissible s ops \<Longrightarrow> run ops s = Some s' \<Longrightarrow> inv s'"
  by (induction ops arbitrary: s) (auto split: option.splits, blast intro: inv_step)

lemma free_admissible: "(\<And>s op. ok s op) \<Longrightarrow> admissible s ops"
  by (induction ops arbitrary: s) (auto split: option.split)

end

text \<open>Operations that always return are the special case.\<close>

sublocale machine \<subseteq> returning: partial_machine "\<lambda>op s. Some (step op s)" ok inv
  by unfold_locales (auto simp: inv_step)

definition result_option :: "'a result \<Rightarrow> 'a option" where
  "result_option r = (case r of Inl e \<Rightarrow> None | Inr a \<Rightarrow> Some a)"

lemma result_option_Some [simp]: "result_option r = Some a \<longleftrightarrow> r = Inr a"
  by (simp add: result_option_def split: sum.split)

lemma result_option_simps [simp]: "result_option (Inl e) = None" "result_option (Inr a) = Some a"
  by (simp_all add: result_option_def)

end
