(* ===== verification/NL_Helper.thy ===== *)
theory NL_Helper
  imports NL_Prelude
begin

text \<open>
  The functions of \<^verbatim>\<open>Client App/helper.cpp\<close> and the sequence-number helpers and the bit
  printer at the top of \<^verbatim>\<open>Client App/packets.cpp\<close>, with the arithmetic facts the packet
  codecs and the UDP handler rest on.
\<close>

section \<open>Byte order\<close>

definition swap_endian16 :: "u16 \<Rightarrow> u16" where
  "swap_endian16 val = drop_bit 8 val OR push_bit 8 val"

definition swap_endian32 :: "u32 \<Rightarrow> u32" where
  "swap_endian32 val =
     push_bit 24 val OR (push_bit 8 val AND 0x00FF0000) OR (drop_bit 8 val AND 0x0000FF00)
       OR drop_bit 24 val"

text \<open>The bit pictures of the two masks of \<open>swap_endian32\<close>.\<close>

lemma bit_mask_hi:
  assumes "n < 32" shows "bit (0x00FF0000 :: u32) n \<longleftrightarrow> 16 \<le> n \<and> n < 24"
proof -
  have eq: "(0x00FF0000 :: u32) = push_bit 16 (mask 8)"
    by (simp add: mask_eq_exp_minus_1 push_bit_eq_mult)
  show ?thesis unfolding eq using assms by (auto simp: bit_simps)
qed

lemma bit_mask_lo:
  assumes "n < 32" shows "bit (0x0000FF00 :: u32) n \<longleftrightarrow> 8 \<le> n \<and> n < 16"
proof -
  have eq: "(0x0000FF00 :: u32) = push_bit 8 (mask 8)"
    by (simp add: mask_eq_exp_minus_1 push_bit_eq_mult)
  show ?thesis unfolding eq using assms by (auto simp: bit_simps)
qed

lemma bit_swap16:
  "n < 16 \<Longrightarrow> bit (swap_endian16 w) n = bit w (if n < 8 then n + 8 else n - 8)"
  by (auto simp: swap_endian16_def bit_simps add.commute dest: bit_imp_le_length)

lemma bit_swap32:
  assumes n: "n < 32"
  shows "bit (swap_endian32 w) n =
     bit w (if n < 8 then n + 24 else if n < 16 then n + 8 else if n < 24 then n - 8 else n - 24)"
proof -
  consider "n < 8" | "8 \<le> n \<and> n < 16" | "16 \<le> n \<and> n < 24" | "24 \<le> n" by linarith
  then show ?thesis
    unfolding swap_endian32_def bit_or_iff bit_and_iff bit_mask_hi [OF n] bit_mask_lo [OF n]
    using n by cases (auto simp: bit_push_bit_iff bit_drop_bit_eq add.commute
        dest: bit_imp_le_length)
qed

lemma swap_endian16_twice [simp]: "swap_endian16 (swap_endian16 w) = w"
  by (rule bit_word_eqI) (auto simp: bit_swap16)

lemma swap_endian32_twice [simp]: "swap_endian32 (swap_endian32 w) = w"
proof (rule bit_word_eqI)
  fix n assume n: "n < LENGTH(32)"
  consider "n < 8" | "8 \<le> n \<and> n < 16" | "16 \<le> n \<and> n < 24" | "24 \<le> n" by linarith
  then show "bit (swap_endian32 (swap_endian32 w)) n = bit w n"
    using n by cases (auto simp: bit_swap32 split: if_splits)
qed

text \<open>
  Storing the swapped value little-endian is storing the value big-endian: this is how the
  client puts network byte order on the wire from a little-endian host.
\<close>

definition be16 :: "u16 \<Rightarrow> byte list" where
  "be16 w = [ucast (drop_bit 8 w), ucast w]"

definition be32 :: "u32 \<Rightarrow> byte list" where
  "be32 w = [ucast (drop_bit 24 w), ucast (drop_bit 16 w), ucast (drop_bit 8 w), ucast w]"

definition be64 :: "u64 \<Rightarrow> byte list" where
  "be64 n = [ucast (drop_bit 56 n), ucast (drop_bit 48 n), ucast (drop_bit 40 n),
     ucast (drop_bit 32 n), ucast (drop_bit 24 n), ucast (drop_bit 16 n), ucast (drop_bit 8 n), ucast n]"

lemma length_be [simp]: "length (be16 w) = 2" "length (be32 v) = 4" "length (be64 n) = 8"
  by (simp_all add: be16_def be32_def be64_def)

lemma ucast_eqI:
  "(\<And>n. n < 8 \<Longrightarrow> bit v n = bit w n) \<Longrightarrow> (ucast v :: byte) = ucast w"
  by (rule bit_word_eqI) (simp add: bit_simps)

lemma st16_swap [simp]: "st16 (swap_endian16 w) = be16 w"
  by (simp add: st16_def be16_def) (intro conjI ucast_eqI; simp add: bit_swap16 bit_drop_bit_eq add.commute)

lemma st32_swap [simp]: "st32 (swap_endian32 w) = be32 w"
  by (simp add: st32_def be32_def)
    (intro conjI ucast_eqI; simp add: bit_swap32 bit_drop_bit_eq add.commute)

lemma swap_le16 [simp]: "swap_endian16 (le16 (ucast (drop_bit 8 w)) (ucast w)) = w"
  by (rule bit_word_eqI) (auto simp: bit_swap16 le16_def bit_simps)

lemma swap_le32 [simp]:
  "swap_endian32 (le32 (ucast (drop_bit 24 w)) (ucast (drop_bit 16 w)) (ucast (drop_bit 8 w))
     (ucast w)) = w"
proof -
  have "swap_endian32 (le32 (ucast (drop_bit 24 w)) (ucast (drop_bit 16 w))
      (ucast (drop_bit 8 w)) (ucast w)) =
    swap_endian32 (le32 (ucast (swap_endian32 w)) (ucast (drop_bit 8 (swap_endian32 w)))
      (ucast (drop_bit 16 (swap_endian32 w))) (ucast (drop_bit 24 (swap_endian32 w))))"
    using st32_swap [of w] by (simp add: st32_def be32_def)
  then show ?thesis by simp
qed

section \<open>Printing bits and hashes\<close>

text \<open>
  \<open>getbits\<close> walks the bytes of a number from the last to the first and each byte from bit 7
  to bit 0; \<open>bp\<close> is the memory the number occupies.
\<close>

definition getbits :: "nat \<Rightarrow> byte list \<Rightarrow> wxString result" where
  "getbits sz bp = rbind (rdn bp 0 sz) (\<lambda>bs.
     Inr (concat (map (\<lambda>b. map (\<lambda>j. if bit b j then CHR ''1'' else CHR ''0'') [7, 6, 5, 4, 3, 2, 1, 0])
       (rev bs))))"

definition stringhash_frombytes :: "byte list \<Rightarrow> nat \<Rightarrow> wxString result" where
  "stringhash_frombytes bytes sz = rbind (rdn bytes 0 sz) (\<lambda>bs. Inr (concat (map fmt_02X bs)))"

lemma length_fmt_02X [simp]: "length (fmt_02X b) = 2"
  by (simp add: fmt_02X_def)

lemma length_concat_fmt [simp]: "length (concat (map fmt_02X bs)) = 2 * length bs"
  by (induction bs) auto

text \<open>The bit string of a 16-bit number reads from its most to its least significant bit.\<close>

lemma getbits_u16:
  "getbits 2 (st16 w) =
     Inr (map (\<lambda>j. if bit w j then CHR ''1'' else CHR ''0'') (rev [0..<16]))"
proof -
  have "rev [0..<16] = [15, 14, 13, 12, 11, 10, 9, 8, 7, 6, 5, 4, 3, 2, 1, 0]" by code_simp
  then show ?thesis by (simp add: getbits_def rdn_def st16_def bit_simps del: upt_rec_numeral)
qed

section \<open>Sequence numbers\<close>

definition MAX_SEQUENCENUM :: int where
  "MAX_SEQUENCENUM = 0xFFFF"

text \<open>The operands are promoted to \<open>int\<close> before they are compared and subtracted.\<close>

definition sequence_greaterthan :: "u16 \<Rightarrow> u16 \<Rightarrow> bool" where
  "sequence_greaterthan s1 s2 \<longleftrightarrow>
     (uint s1 > uint s2 \<and> uint s1 - uint s2 \<le> MAX_SEQUENCENUM div 2 + 1) \<or>
     (uint s1 < uint s2 \<and> uint s2 - uint s1 > MAX_SEQUENCENUM div 2 + 1)"

text \<open>The unsigned 32-bit difference is converted to \<open>int\<close> before it is tested.\<close>

definition sequence_delta :: "u32 \<Rightarrow> u32 \<Rightarrow> int" where
  "sequence_delta s1 s2 =
     (let delta = sint (s1 - s2) in if delta < 0 then delta + (MAX_SEQUENCENUM + 1) else delta)"

definition sequence_increment :: "u32 \<Rightarrow> u32" where
  "sequence_increment seqnum = (seqnum + 1) mod word_of_int (MAX_SEQUENCENUM + 1)"

lemma uint16_range: "0 \<le> uint (a :: u16)" "uint (a :: u16) < 65536"
  using uint_lt2p [of a] by simp_all

lemma uint16_mod [simp]: "uint (a :: u16) mod 4294967296 = uint a"
  using uint16_range [of a] by (intro mod_pos_pos_trivial) auto

lemma uint_minus16: "uint (a - b :: u16) = (uint a - uint b) mod 65536"
  by (simp add: uint_word_ariths)

lemma sint_ucast_diff: "sint (ucast (a :: u16) - ucast (b :: u16) :: u32) = uint a - uint b"
proof -
  have "sint (ucast a - ucast b :: u32) = sint (word_of_int (uint a - uint b) :: u32)"
    by (simp only: ucast_eq wi_hom_sub)
  also have "\<dots> = signed_take_bit 31 (uint a - uint b)"
    by (subst sint_sbintrunc') simp
  also have "\<dots> = uint a - uint b"
  proof (rule signed_take_bit_int_eq_self)
    have *: "(2 :: int) ^ 31 = 2147483648" by simp
    show "- (2 ^ 31) \<le> uint a - uint b" "uint a - uint b < 2 ^ 31"
      unfolding * using uint16_range [of a] uint16_range [of b] by linarith+
  qed
  finally show ?thesis .
qed

lemma diff_mod_65536:
  assumes "0 \<le> x" "x < 65536" "0 \<le> y" "y < (65536 :: int)"
  shows "(x - y) mod 65536 = (if x < y then x - y + 65536 else x - y)"
proof (cases "x < y")
  case True
  then have "(x - y + 65536) mod 65536 = x - y + 65536"
    using assms by (intro mod_pos_pos_trivial) auto
  with True show ?thesis by simp
qed (use assms in \<open>simp add: mod_pos_pos_trivial\<close>)

lemma uint_minus16_cases:
  "uint (a - b :: u16) = (if uint a < uint b then uint a - uint b + 65536 else uint a - uint b)"
  unfolding uint_minus16 by (rule diff_mod_65536) (rule uint16_range)+

text \<open>On sequence numbers the three helpers are arithmetic modulo \<open>2 ^ 16\<close>.\<close>

lemma sequence_delta_eq:
  "sequence_delta (ucast (a :: u16)) (ucast (b :: u16)) = uint (a - b)"
  by (simp add: sequence_delta_def MAX_SEQUENCENUM_def sint_ucast_diff uint_minus16_cases Let_def)

lemma sequence_increment_eq: "ucast (sequence_increment (ucast (a :: u16))) = a + 1"
  by (rule word_uint_eqI)
    (simp add: sequence_increment_def MAX_SEQUENCENUM_def uint_word_ariths uint_mod
      unsigned_ucast_eq take_bit_eq_mod mod_mod_cancel)

lemma half_window:
  assumes "0 \<le> x" "x < 65536" "0 \<le> y" "y < (65536 :: int)"
    and d: "d = (if x < y then x - y + 65536 else x - y)"
  shows "(y < x \<and> x - y \<le> 65535 div 2 + 1 \<or> x < y \<and> 65535 div 2 + 1 < y - x) \<longleftrightarrow>
    0 < d \<and> d < 32768 \<or> d = 32768 \<and> y < x"
  using assms by (cases "x < y") auto

lemma sequence_greaterthan_eq:
  "sequence_greaterthan a b \<longleftrightarrow>
     0 < uint (a - b) \<and> uint (a - b) < 32768 \<or> uint (a - b) = 32768 \<and> uint b < uint a"
  unfolding sequence_greaterthan_def MAX_SEQUENCENUM_def
  by (rule half_window) (rule uint16_range uint_minus16_cases)+

section \<open>Serial-number order\<close>

text \<open>
  What the UDP handler relies on when it orders sequence numbers that wrap around: a
  distance on a circle of \<open>2 * half\<close> numbers, a comparison that agrees with the distance
  over less than half the circle and is decided for any two numbers, and an increment that
  is one step. \<open>newer\<close> is the handler's update of the highest number seen.
\<close>

definition newer :: "('a \<Rightarrow> 'a \<Rightarrow> bool) \<Rightarrow> 'a \<Rightarrow> 'a \<Rightarrow> 'a" where
  "newer gt r s = (if gt s r then s else r)"

locale serial_order =
  fixes gt :: "'a \<Rightarrow> 'a \<Rightarrow> bool"
    and dist :: "'a \<Rightarrow> 'a \<Rightarrow> int"
    and incr :: "'a \<Rightarrow> 'a"
    and half :: int
  assumes half_gt_1: "1 < half"
    and dist_nonneg: "0 \<le> dist a b"
    and dist_0_iff: "dist a b = 0 \<longleftrightarrow> a = b"
    and dist_around: "a \<noteq> b \<Longrightarrow> dist a b + dist b a = 2 * half"
    and dist_add: "dist a b + dist b c < 2 * half \<Longrightarrow> dist a c = dist a b + dist b c"
    and dist_incr: "dist (incr a) a = 1"
    and gt_near: "0 < dist a b \<Longrightarrow> dist a b < half \<Longrightarrow> gt a b"
    and gt_half: "gt a b \<Longrightarrow> 0 < dist a b \<and> dist a b \<le> half"
    and gt_total: "a \<noteq> b \<Longrightarrow> gt a b \<longleftrightarrow> \<not> gt b a"
begin

lemma gt_irrefl: "\<not> gt a a"
  using gt_half [of a a] dist_0_iff [of a a] by auto

lemma gt_asym: "gt a b \<Longrightarrow> \<not> gt b a"
  using gt_irrefl gt_total [of a b] by blast

lemma gt_incr: "gt (incr a) a"
  using gt_near [of "incr a" a] dist_incr [of a] half_gt_1 by simp

lemma gt_trans_near: "gt a b \<Longrightarrow> gt b c \<Longrightarrow> dist a b + dist b c < half \<Longrightarrow> gt a c"
  using dist_add [of a b c] gt_half [of a b] gt_half [of b c] half_gt_1 by (intro gt_near) auto

lemma newer_not_lt: "\<not> gt r (newer gt r s)" "\<not> gt s (newer gt r s)"
  using gt_irrefl gt_asym by (auto simp: newer_def)

lemma newer_cases: "newer gt r s = s \<or> newer gt r s = r"
  by (simp add: newer_def)

lemma newer_in_order: "newer gt a (incr a) = incr a" "newer gt (incr a) a = incr a"
  using gt_incr [of a] gt_asym [of "incr a" a] by (simp_all add: newer_def)

text \<open>Distances from the newest number only grow, by the step it took.\<close>

lemma newer_dist:
  "dist (newer gt r s) r + dist r n < 2 * half \<Longrightarrow>
     dist (newer gt r s) n = dist (newer gt r s) r + dist r n"
  by (rule dist_add)

end

lemma uint_minus_swap: "a \<noteq> b \<Longrightarrow> uint (a - b :: u16) + uint (b - a) = 65536"
proof -
  assume "a \<noteq> b"
  then have "uint a \<noteq> uint b" by (metis word_uint_eq_iff)
  then show ?thesis by (simp add: uint_minus16_cases)
qed

lemma uint_minus_add:
  "uint (a - b :: u16) + uint (b - c) < 65536 \<Longrightarrow> uint (a - c) = uint (a - b) + uint (b - c)"
proof -
  assume small: "uint (a - b) + uint (b - c) < 65536"
  have "uint (a - c) = uint ((a - b) + (b - c))" by simp
  also have "\<dots> = (uint (a - b) + uint (b - c)) mod 2 ^ LENGTH(16)"
    by (rule uint_word_ariths(1))
  also have "\<dots> = uint (a - b) + uint (b - c)"
    using small by (intro mod_pos_pos_trivial) simp_all
  finally show ?thesis .
qed

interpretation seq16: serial_order sequence_greaterthan
  "\<lambda>a b. sequence_delta (ucast a) (ucast b)" "\<lambda>a. ucast (sequence_increment (ucast a))" 32768
proof (unfold_locales, unfold sequence_delta_eq sequence_increment_eq sequence_greaterthan_eq)
  fix a b c :: u16
  show "(1 :: int) < 32768" by simp
  show "0 \<le> uint (a - b)" by simp
  show "uint (a - b) = 0 \<longleftrightarrow> a = b" by (simp add: uint_0_iff)
  show "a \<noteq> b \<Longrightarrow> uint (a - b) + uint (b - a) = 2 * 32768" by (simp add: uint_minus_swap)
  show "uint (a - b) + uint (b - c) < 2 * 32768 \<Longrightarrow> uint (a - c) = uint (a - b) + uint (b - c)"
    by (rule uint_minus_add) simp
  show "uint (a + 1 - a) = 1" by simp
  show "0 < uint (a - b) \<Longrightarrow> uint (a - b) < 32768 \<Longrightarrow>
    0 < uint (a - b) \<and> uint (a - b) < 32768 \<or> uint (a - b) = 32768 \<and> uint b < uint a" by simp
  show "0 < uint (a - b) \<and> uint (a - b) < 32768 \<or> uint (a - b) = 32768 \<and> uint b < uint a \<Longrightarrow>
    0 < uint (a - b) \<and> uint (a - b) \<le> 32768" by auto
  show "a \<noteq> b \<Longrightarrow>
    (0 < uint (a - b) \<and> uint (a - b) < 32768 \<or> uint (a - b) = 32768 \<and> uint b < uint a) \<longleftrightarrow>
    \<not> (0 < uint (b - a) \<and> uint (b - a) < 32768 \<or> uint (b - a) = 32768 \<and> uint a < uint b)"
  proof -
    assume ab: "a \<noteq> b"
    then have "uint a \<noteq> uint b" by (metis word_uint_eq_iff)
    with uint_minus_swap [OF ab] show ?thesis
      using uint16_range [of "a - b"] uint16_range [of "b - a"] by linarith
  qed
qed

section \<open>Properties\<close>

text \<open>On 16-bit sequence numbers the three helpers are arithmetic modulo 65536, written
  over promoted and unsigned 32-bit operands: the delta is the distance going forward, the
  increment is one step, and a number is greater than another when it is less than half the
  circle ahead, or exactly half and the larger number.\<close>

theorem sequence_arithmetic:
  "sequence_delta (ucast (a :: u16)) (ucast b) = uint (a - b) \<and>
   (ucast (sequence_increment (ucast a)) :: u16) = a + 1 \<and>
   (sequence_greaterthan a b \<longleftrightarrow> a \<noteq> b \<and>
     (uint (a - b) < 32768 \<or> uint (a - b) = 32768 \<and> uint b < uint a))"
proof -
  have "0 < uint (a - b) \<longleftrightarrow> a \<noteq> b"
    using uint16_range(1) [of "a - b"] by (auto simp: less_le uint_0_iff)
  then show ?thesis
    unfolding sequence_delta_eq sequence_increment_eq sequence_greaterthan_eq by auto
qed

text \<open>Keeping the greater of two sequence numbers follows a sender that wraps around: the
  successor always wins over its predecessor, and of two different numbers exactly one is
  greater, so the result never depends on the order of arrival.\<close>

theorem sequence_newest:
  "sequence_greaterthan (ucast (sequence_increment (ucast (a :: u16)))) a \<and>
   \<not> sequence_greaterthan a (ucast (sequence_increment (ucast a))) \<and>
   newer sequence_greaterthan a b = newer sequence_greaterthan b a"
proof (intro conjI)
  show "sequence_greaterthan (ucast (sequence_increment (ucast a))) a" by (rule seq16.gt_incr)
  then show "\<not> sequence_greaterthan a (ucast (sequence_increment (ucast a)))" by (rule seq16.gt_asym)
  show "newer sequence_greaterthan a b = newer sequence_greaterthan b a"
    using seq16.gt_asym [of a b] seq16.gt_total [of a b] unfolding newer_def by (cases "a = b") auto
qed

end
