(* ===== verification/NL_Packets.thy ===== *)
theory NL_Packets
  imports NL_Helper
begin

text \<open>
  The packet classes of \<^verbatim>\<open>Client App/packets.h\<close> and \<^verbatim>\<open>Client App/packets.cpp\<close>: the fields and
  methods of \<open>AbstractPacket\<close>, the two derived classes \<open>S64Packet\<close> and \<open>NetLibPacket\<close>, and
  their conversions from and to raw bytes. The lemmas give the exact byte layout, the
  round trips in both directions, and when a conversion faults.
\<close>

section \<open>Constants and types\<close>

definition S64PACKET_HEADER :: "byte list" where
  "S64PACKET_HEADER = str_bytes ''S64''"

definition S64PACKET_VERSION :: byte where
  "S64PACKET_VERSION = 1"

definition NETLIBPACKET_HEADER :: "byte list" where
  "NETLIBPACKET_HEADER = str_bytes ''NLP''"

definition NETLIBPACKET_VERSION :: byte where
  "NETLIBPACKET_VERSION = 1"

definition FLAG_UNRELIABLE :: byte where
  "FLAG_UNRELIABLE = 0x01"

definition FLAG_EXPLICITACK :: byte where
  "FLAG_EXPLICITACK = 0x02"

text \<open>
  The members the derived classes add: \<open>S64\<close> carries \<open>m_Type\<close>, \<open>NetLib\<close> carries \<open>m_Type\<close> and
  \<open>m_Recipients\<close>. A packet is a base object with its derived part, and a virtual call is a
  case distinction on that part.
\<close>

datatype derived = S64 wxString | NetLib byte u32

record AbstractPacket =
  m_Version :: byte
  m_Flags :: byte
  m_SequenceNum :: u16
  m_Ack :: u16
  m_AckBitField :: u16
  m_Size :: u16
  m_Data :: "byte list"
  m_SendTime :: int
  m_SendAttempts :: byte
  m_Derived :: derived

section \<open>AbstractPacket\<close>

text \<open>
  The constructor copies \<open>size\<close> bytes out of \<open>data\<close> into a block of its own. A null pointer
  is the empty list: \<open>GetData\<close> of a packet without data has no byte to read.
\<close>

definition new_AbstractPacket ::
    "env \<Rightarrow> byte \<Rightarrow> u16 \<Rightarrow> byte list \<Rightarrow> byte \<Rightarrow> u16 \<Rightarrow> u16 \<Rightarrow> u16 \<Rightarrow> derived \<Rightarrow> AbstractPacket result" where
  "new_AbstractPacket env version sz data flags seqnum acknum ackbitfield d =
     rbind (if 0 < sz
            then if env_malloc env (unat sz) then rdn data 0 (unat sz) else Inl NullPointer
            else Inr [])
       (\<lambda>copy. Inr \<lparr>m_Version = version, m_Flags = flags, m_SequenceNum = seqnum, m_Ack = acknum,
          m_AckBitField = ackbitfield, m_Size = sz, m_Data = copy, m_SendTime = 0,
          m_SendAttempts = 0, m_Derived = d\<rparr>)"

definition GetVersion :: "AbstractPacket \<Rightarrow> byte" where
  "GetVersion pkt = m_Version pkt"

definition GetFlags :: "AbstractPacket \<Rightarrow> byte" where
  "GetFlags pkt = m_Flags pkt"

definition GetSize :: "AbstractPacket \<Rightarrow> u16" where
  "GetSize pkt = m_Size pkt"

definition GetData :: "AbstractPacket \<Rightarrow> byte list" where
  "GetData pkt = m_Data pkt"

definition GetSequenceNumber :: "AbstractPacket \<Rightarrow> u16" where
  "GetSequenceNumber pkt = m_SequenceNum pkt"

text \<open>\<open>now\<close> is what \<open>wxGetLocalTimeMillis\<close> returns.\<close>

definition GetSendTime :: "int \<Rightarrow> AbstractPacket \<Rightarrow> int" where
  "GetSendTime now pkt = now - m_SendTime pkt"

definition GetSendAttempts :: "AbstractPacket \<Rightarrow> byte" where
  "GetSendAttempts pkt = m_SendAttempts pkt"

text \<open>The bit field is promoted to \<open>int\<close> before the mask is applied.\<close>

definition IsAcked :: "env \<Rightarrow> AbstractPacket \<Rightarrow> u16 \<Rightarrow> bool" where
  "IsAcked env pkt number \<longleftrightarrow>
     (if m_Ack pkt = number then True
      else (ucast (m_AckBitField pkt) :: u32)
        AND c_shl1 env (sequence_delta (ucast (m_Ack pkt)) (ucast number) - 1) \<noteq> 0)"

definition EnableFlags :: "byte \<Rightarrow> AbstractPacket \<Rightarrow> AbstractPacket" where
  "EnableFlags flags pkt = pkt\<lparr>m_Flags := m_Flags pkt OR flags\<rparr>"

definition SetSequenceNumber :: "u16 \<Rightarrow> AbstractPacket \<Rightarrow> AbstractPacket" where
  "SetSequenceNumber seqnum pkt = pkt\<lparr>m_SequenceNum := seqnum\<rparr>"

definition SetAck :: "u16 \<Rightarrow> AbstractPacket \<Rightarrow> AbstractPacket" where
  "SetAck acknum pkt = pkt\<lparr>m_Ack := acknum\<rparr>"

definition SetAckBitfield :: "u16 \<Rightarrow> AbstractPacket \<Rightarrow> AbstractPacket" where
  "SetAckBitfield bitfield pkt = pkt\<lparr>m_AckBitField := bitfield\<rparr>"

definition UpdateSendAttempt :: "int \<Rightarrow> AbstractPacket \<Rightarrow> AbstractPacket" where
  "UpdateSendAttempt now pkt = pkt\<lparr>m_SendAttempts := m_SendAttempts pkt + 1, m_SendTime := now\<rparr>"

section \<open>S64Packet\<close>

definition new_S64Packet ::
    "env \<Rightarrow> byte \<Rightarrow> wxString \<Rightarrow> u16 \<Rightarrow> byte list \<Rightarrow> byte \<Rightarrow> u16 \<Rightarrow> u16 \<Rightarrow> u16 \<Rightarrow> AbstractPacket result" where
  "new_S64Packet env version type sz data flags seqnum acknum ackbitfield =
     new_AbstractPacket env version sz data flags seqnum acknum ackbitfield (S64 type)"

text \<open>The two public constructors.\<close>

definition S64Packet_flags :: "env \<Rightarrow> wxString \<Rightarrow> u16 \<Rightarrow> byte list \<Rightarrow> byte \<Rightarrow> AbstractPacket result" where
  "S64Packet_flags env type sz data flags = new_S64Packet env S64PACKET_VERSION type sz data flags 0 0 0"

definition S64Packet_plain :: "env \<Rightarrow> wxString \<Rightarrow> u16 \<Rightarrow> byte list \<Rightarrow> AbstractPacket result" where
  "S64Packet_plain env type sz data = new_S64Packet env S64PACKET_VERSION type sz data 0 0 0 0"

definition IsS64Packet :: "byte list \<Rightarrow> bool result" where
  "IsS64Packet bytes = strneq bytes S64PACKET_HEADER"

text \<open>\<open>None\<close> is the returned \<open>NULL\<close>. The offsets are the values \<open>readcount\<close> takes.\<close>

definition S64Packet_FromBytes :: "env \<Rightarrow> byte list \<Rightarrow> AbstractPacket option result" where
  "S64Packet_FromBytes env bytes =
     rbind (IsS64Packet bytes) (\<lambda>ok. if \<not> ok then Inr None else
     rbind (rd8 bytes 3) (\<lambda>version.
     if version > S64PACKET_VERSION then Inl (BadPacketVersion (unat version)) else
     rbind (rd8 bytes 4) (\<lambda>flags.
     rbind (rd16 bytes 5) (\<lambda>seqnum.
     rbind (rd16 bytes 7) (\<lambda>acknum.
     rbind (rd16 bytes 9) (\<lambda>ackbitfield.
     rbind (rd8 bytes 11) (\<lambda>typestr_len.
     if \<not> env_malloc env (unat typestr_len + 1) then Inl NullPointer else
     rbind (rdn bytes 12 (unat typestr_len)) (\<lambda>typestr.
     let readcount = 12 + unat typestr_len in
     rbind (rd16 bytes readcount) (\<lambda>raw_len.
     let data_len = swap_endian16 raw_len; readcount = readcount + 2 in
     rbind (if 0 < data_len
            then if env_malloc env (unat data_len) then rdn bytes readcount (unat data_len)
                 else Inl NullPointer
            else Inr []) (\<lambda>data.
     rbind (new_S64Packet env version (bytes_str (c_string typestr)) data_len data flags
              (swap_endian16 seqnum) (swap_endian16 acknum) (swap_endian16 ackbitfield)) (\<lambda>ret.
     Inr (Some ret))))))))))))"

definition S64Packet_GetType :: "AbstractPacket \<Rightarrow> wxString" where
  "S64Packet_GetType pkt = (case m_Derived pkt of S64 type \<Rightarrow> type | NetLib _ _ \<Rightarrow> [])"

text \<open>\<open>GetAsBytes_Size\<close> returns a \<open>uint16_t\<close>: the sum is cut to 16 bits.\<close>

definition S64Packet_GetAsBytes_Size :: "AbstractPacket \<Rightarrow> u16" where
  "S64Packet_GetAsBytes_Size pkt =
     of_nat (3 + 1 + 1 + 2 + 2 + 2 + 1 + length (S64Packet_GetType pkt) + 2 + unat (m_Size pkt))"

text \<open>
  The bytes are written one field after the other into a block of \<open>GetAsBytes_Size\<close> bytes;
  more bytes than that leave the block.
\<close>

definition S64Packet_GetAsBytes :: "env \<Rightarrow> AbstractPacket \<Rightarrow> byte list option result" where
  "S64Packet_GetAsBytes env pkt =
     (if \<not> env_malloc env (unat (S64Packet_GetAsBytes_Size pkt)) then Inr None else
      rbind (if 0 < m_Size pkt then rdn (m_Data pkt) 0 (unat (m_Size pkt)) else Inr []) (\<lambda>data.
      let bytes = S64PACKET_HEADER @ [m_Version pkt, m_Flags pkt]
        @ st16 (swap_endian16 (m_SequenceNum pkt)) @ st16 (swap_endian16 (m_Ack pkt))
        @ st16 (swap_endian16 (m_AckBitField pkt))
        @ [of_nat (length (S64Packet_GetType pkt))] @ str_bytes (S64Packet_GetType pkt)
        @ st16 (swap_endian16 (m_Size pkt)) @ data
      in if length bytes \<le> unat (S64Packet_GetAsBytes_Size pkt) then Inr (Some bytes)
         else Inl OutOfBounds))"

definition S64Packet_IsAckBeat :: "AbstractPacket \<Rightarrow> bool" where
  "S64Packet_IsAckBeat pkt \<longleftrightarrow> S64Packet_GetType pkt = ''ACK''"

section \<open>NetLibPacket\<close>

definition new_NetLibPacket ::
    "env \<Rightarrow> byte \<Rightarrow> byte \<Rightarrow> u16 \<Rightarrow> byte list \<Rightarrow> byte \<Rightarrow> u32 \<Rightarrow> u16 \<Rightarrow> u16 \<Rightarrow> u16 \<Rightarrow> AbstractPacket result" where
  "new_NetLibPacket env version type sz data flags recipients seqnum acknum ackbitfield =
     new_AbstractPacket env version sz data flags seqnum acknum ackbitfield (NetLib type recipients)"

definition NetLibPacket_flags :: "env \<Rightarrow> byte \<Rightarrow> u16 \<Rightarrow> byte list \<Rightarrow> byte \<Rightarrow> AbstractPacket result" where
  "NetLibPacket_flags env type sz data flags =
     new_NetLibPacket env NETLIBPACKET_VERSION type sz data flags 0 0 0 0"

definition IsNetLibPacket :: "byte list \<Rightarrow> bool result" where
  "IsNetLibPacket bytes = strneq bytes NETLIBPACKET_HEADER"

text \<open>The version is compared with the version constant of the other packet class.\<close>

definition NetLibPacket_FromBytes :: "env \<Rightarrow> byte list \<Rightarrow> AbstractPacket option result" where
  "NetLibPacket_FromBytes env bytes =
     rbind (IsNetLibPacket bytes) (\<lambda>ok. if \<not> ok then Inr None else
     rbind (rd8 bytes 3) (\<lambda>version.
     if version > S64PACKET_VERSION then Inl (BadPacketVersion (unat version)) else
     rbind (rd8 bytes 4) (\<lambda>type.
     rbind (rd8 bytes 5) (\<lambda>flags.
     rbind (rd16 bytes 6) (\<lambda>seqnum.
     rbind (rd16 bytes 8) (\<lambda>acknum.
     rbind (rd16 bytes 10) (\<lambda>ackbitfield.
     rbind (rd32 bytes 12) (\<lambda>recipients.
     rbind (rd16 bytes 16) (\<lambda>raw_len.
     let data_len = swap_endian16 raw_len in
     rbind (if 0 < data_len
            then if env_malloc env (unat data_len) then rdn bytes 18 (unat data_len)
                 else Inl NullPointer
            else Inr []) (\<lambda>data.
     rbind (new_NetLibPacket env version type data_len data flags (swap_endian32 recipients)
              (swap_endian16 seqnum) (swap_endian16 acknum) (swap_endian16 ackbitfield)) (\<lambda>ret.
     Inr (Some ret))))))))))))"

definition NetLibPacket_GetType :: "AbstractPacket \<Rightarrow> byte" where
  "NetLibPacket_GetType pkt = (case m_Derived pkt of NetLib type _ \<Rightarrow> type | S64 _ \<Rightarrow> 0)"

definition NetLibPacket_GetRecipients :: "AbstractPacket \<Rightarrow> u32" where
  "NetLibPacket_GetRecipients pkt = (case m_Derived pkt of NetLib _ recipients \<Rightarrow> recipients | S64 _ \<Rightarrow> 0)"

definition NetLibPacket_GetAsBytes_Size :: "AbstractPacket \<Rightarrow> u16" where
  "NetLibPacket_GetAsBytes_Size pkt =
     of_nat (3 + 1 + 1 + 1 + 2 + 2 + 2 + 4 + 2 + unat (m_Size pkt))"

definition NetLibPacket_GetAsBytes :: "env \<Rightarrow> AbstractPacket \<Rightarrow> byte list option result" where
  "NetLibPacket_GetAsBytes env pkt =
     (if \<not> env_malloc env (unat (NetLibPacket_GetAsBytes_Size pkt)) then Inr None else
      rbind (if 0 < m_Size pkt then rdn (m_Data pkt) 0 (unat (m_Size pkt)) else Inr []) (\<lambda>data.
      let bytes = NETLIBPACKET_HEADER @ [m_Version pkt] @ [NetLibPacket_GetType pkt, m_Flags pkt]
        @ st16 (swap_endian16 (m_SequenceNum pkt)) @ st16 (swap_endian16 (m_Ack pkt))
        @ st16 (swap_endian16 (m_AckBitField pkt))
        @ st32 (swap_endian32 (NetLibPacket_GetRecipients pkt))
        @ st16 (swap_endian16 (m_Size pkt)) @ data
      in if length bytes \<le> unat (NetLibPacket_GetAsBytes_Size pkt) then Inr (Some bytes)
         else Inl OutOfBounds))"

definition NetLibPacket_IsAckBeat :: "AbstractPacket \<Rightarrow> bool" where
  "NetLibPacket_IsAckBeat pkt \<longleftrightarrow> NetLibPacket_GetType pkt = 0"

section \<open>Virtual methods and acks\<close>

definition GetAsBytes :: "env \<Rightarrow> AbstractPacket \<Rightarrow> byte list option result" where
  "GetAsBytes env pkt =
     (case m_Derived pkt of S64 _ \<Rightarrow> S64Packet_GetAsBytes env pkt
      | NetLib _ _ \<Rightarrow> NetLibPacket_GetAsBytes env pkt)"

definition GetAsBytes_Size :: "AbstractPacket \<Rightarrow> u16" where
  "GetAsBytes_Size pkt =
     (case m_Derived pkt of S64 _ \<Rightarrow> S64Packet_GetAsBytes_Size pkt
      | NetLib _ _ \<Rightarrow> NetLibPacket_GetAsBytes_Size pkt)"

definition IsAckBeat :: "AbstractPacket \<Rightarrow> bool" where
  "IsAckBeat pkt =
     (case m_Derived pkt of S64 _ \<Rightarrow> S64Packet_IsAckBeat pkt
      | NetLib _ _ \<Rightarrow> NetLibPacket_IsAckBeat pkt)"

definition MakeAck_S64Packet :: "env \<Rightarrow> AbstractPacket result" where
  "MakeAck_S64Packet env = S64Packet_flags env ''ACK'' 0 [] FLAG_UNRELIABLE"

definition MakeAck_NetLibPacket :: "env \<Rightarrow> AbstractPacket result" where
  "MakeAck_NetLibPacket env = NetLibPacket_flags env 0 0 [] FLAG_UNRELIABLE"

text \<open>The textual forms, for the debug prints: one line per field, then the data in hex.\<close>

definition endl :: wxString where
  "endl = [CHR 0x0A]"

definition data_dump :: "AbstractPacket \<Rightarrow> wxString result" where
  "data_dump pkt =
     (if 0 < m_Size pkt
      then rbind (rdn (m_Data pkt) 0 (unat (m_Size pkt))) (\<lambda>ds.
        Inr (''    Data: '' @ endl @ ''        '' @ concat (map (\<lambda>b. fmt_02x b @ '' '') ds)))
      else Inr [])"

definition S64Packet_AsString :: "AbstractPacket \<Rightarrow> wxString result" where
  "S64Packet_AsString pkt =
     rbind (getbits 2 (st16 (m_AckBitField pkt))) (\<lambda>field.
     rbind (data_dump pkt) (\<lambda>dump.
     Inr (''S64Packet'' @ endl
       @ ''    Version: '' @ dec_int (uint (m_Version pkt)) @ endl
       @ ''    Type: '' @ S64Packet_GetType pkt @ endl
       @ ''    Sequence Number: '' @ dec_int (uint (m_SequenceNum pkt)) @ endl
       @ ''    Ack: '' @ dec_int (uint (m_Ack pkt)) @ endl
       @ ''    AckField: '' @ field @ endl
       @ ''    Data size: '' @ dec_int (uint (m_Size pkt)) @ endl
       @ dump)))"

definition NetLibPacket_AsString :: "AbstractPacket \<Rightarrow> wxString result" where
  "NetLibPacket_AsString pkt =
     rbind (getbits 2 (st16 (m_AckBitField pkt))) (\<lambda>field.
     rbind (getbits 4 (st32 (NetLibPacket_GetRecipients pkt))) (\<lambda>recipients.
     rbind (data_dump pkt) (\<lambda>dump.
     Inr (''NetLib Packet'' @ endl
       @ ''    Version: '' @ dec_int (uint (m_Version pkt)) @ endl
       @ ''    Type: '' @ dec_int (uint (NetLibPacket_GetType pkt)) @ endl
       @ ''    Sequence Number: '' @ dec_int (uint (m_SequenceNum pkt)) @ endl
       @ ''    Ack: '' @ dec_int (uint (m_Ack pkt)) @ endl
       @ ''    AckField: '' @ field @ endl
       @ ''    Recipients: '' @ recipients @ endl
       @ ''    Data size: '' @ dec_int (uint (m_Size pkt)) @ endl
       @ dump))))"

lemmas packet_getters = GetVersion_def GetFlags_def GetSize_def GetData_def GetSequenceNumber_def
  GetSendAttempts_def

lemmas packet_setters = EnableFlags_def SetSequenceNumber_def SetAck_def SetAckBitfield_def
  UpdateSendAttempt_def

section \<open>Well-formed packets and their wire form\<close>

definition alloc_ok :: "env \<Rightarrow> bool" where
  "alloc_ok env \<longleftrightarrow> (\<forall>n. env_malloc env n)"

lemma alloc_ok_instances [simp]: "alloc_ok env_x86"
  by (simp_all add: alloc_ok_def)

text \<open>
  The object invariant every constructor establishes: the data block has the size the
  packet says.
\<close>

definition pkt_inv :: "AbstractPacket \<Rightarrow> bool" where
  "pkt_inv pkt \<longleftrightarrow> length (m_Data pkt) = unat (m_Size pkt)"

definition S64_wf :: "AbstractPacket \<Rightarrow> bool" where
  "S64_wf pkt \<longleftrightarrow> pkt_inv pkt \<and> m_Version pkt \<le> S64PACKET_VERSION \<and>
     (\<exists>type. m_Derived pkt = S64 type \<and> length type \<le> 255 \<and> CHR 0x00 \<notin> set type \<and>
        14 + length type + unat (m_Size pkt) < 65536)"

definition NetLib_wf :: "AbstractPacket \<Rightarrow> bool" where
  "NetLib_wf pkt \<longleftrightarrow> pkt_inv pkt \<and> m_Version pkt \<le> NETLIBPACKET_VERSION \<and>
     (\<exists>type recipients. m_Derived pkt = NetLib type recipients) \<and> 18 + unat (m_Size pkt) < 65536"

text \<open>The documented layouts, in network byte order.\<close>

definition S64_wire :: "AbstractPacket \<Rightarrow> byte list" where
  "S64_wire pkt = S64PACKET_HEADER @ [m_Version pkt, m_Flags pkt]
     @ be16 (m_SequenceNum pkt) @ be16 (m_Ack pkt) @ be16 (m_AckBitField pkt)
     @ [of_nat (length (S64Packet_GetType pkt))] @ str_bytes (S64Packet_GetType pkt)
     @ be16 (m_Size pkt) @ m_Data pkt"

definition NetLib_wire :: "AbstractPacket \<Rightarrow> byte list" where
  "NetLib_wire pkt = NETLIBPACKET_HEADER @ [m_Version pkt, NetLibPacket_GetType pkt, m_Flags pkt]
     @ be16 (m_SequenceNum pkt) @ be16 (m_Ack pkt) @ be16 (m_AckBitField pkt)
     @ be32 (NetLibPacket_GetRecipients pkt) @ be16 (m_Size pkt) @ m_Data pkt"

text \<open>What a receiver gets back: send bookkeeping is local to the sender.\<close>

definition unsent :: "AbstractPacket \<Rightarrow> AbstractPacket" where
  "unsent pkt = pkt\<lparr>m_SendTime := 0, m_SendAttempts := 0\<rparr>"

lemma header_simps:
  "S64PACKET_HEADER = [0x53, 0x36, 0x34]" "NETLIBPACKET_HEADER = [0x4E, 0x4C, 0x50]"
  by (simp_all add: S64PACKET_HEADER_def NETLIBPACKET_HEADER_def str_bytes_def)

lemma length_header [simp]: "length S64PACKET_HEADER = 3" "length NETLIBPACKET_HEADER = 3"
  by (simp_all add: header_simps)

lemma size_gt_0: "(0 < (w :: u16)) = (0 < unat w)"
  by (simp add: unat_gt_0 word_neq_0_conv)

lemma rdn_whole: "length ds = k \<Longrightarrow> rdn ds 0 k = Inr ds"
  by (simp add: rdn_def)

lemma unat_of_nat16: "n < 65536 \<Longrightarrow> unat (of_nat n :: u16) = n"
  by (simp add: unat_of_nat)

lemma NetLib_size:
  "NetLib_wf pkt \<Longrightarrow> unat (NetLibPacket_GetAsBytes_Size pkt) = 18 + unat (m_Size pkt)"
  unfolding NetLibPacket_GetAsBytes_Size_def
  by (subst unat_of_nat16) (auto simp: NetLib_wf_def)

lemma S64_size:
  "S64_wf pkt \<Longrightarrow> unat (S64Packet_GetAsBytes_Size pkt) =
     14 + length (S64Packet_GetType pkt) + unat (m_Size pkt)"
  unfolding S64Packet_GetAsBytes_Size_def
  by (subst unat_of_nat16) (auto simp: S64_wf_def S64Packet_GetType_def)

lemma length_wire:
  "pkt_inv pkt \<Longrightarrow> length (NetLib_wire pkt) = 18 + unat (m_Size pkt)"
  "pkt_inv pkt \<Longrightarrow> length (S64_wire pkt) = 14 + length (S64Packet_GetType pkt) + unat (m_Size pkt)"
  by (simp_all add: NetLib_wire_def S64_wire_def pkt_inv_def header_simps)

lemma NetLib_encode_wire:
  assumes "alloc_ok env" "NetLib_wf pkt"
  shows "NetLibPacket_GetAsBytes env pkt = Inr (Some (NetLib_wire pkt))"
proof -
  have inv: "pkt_inv pkt" using assms by (simp add: NetLib_wf_def)
  then have "rbind (if 0 < m_Size pkt then rdn (m_Data pkt) 0 (unat (m_Size pkt)) else Inr []) f =
      f (m_Data pkt)" for f :: "byte list \<Rightarrow> byte list option result"
    by (auto simp: pkt_inv_def rdn_whole size_gt_0)
  then show ?thesis
    using length_wire(1) [OF inv] NetLib_size [OF assms(2)] assms(1)
    by (simp add: NetLibPacket_GetAsBytes_def alloc_ok_def NetLib_wire_def Let_def)
qed

lemma S64_encode_wire:
  assumes "alloc_ok env" "S64_wf pkt"
  shows "S64Packet_GetAsBytes env pkt = Inr (Some (S64_wire pkt))"
proof -
  have inv: "pkt_inv pkt" using assms by (simp add: S64_wf_def)
  then have "rbind (if 0 < m_Size pkt then rdn (m_Data pkt) 0 (unat (m_Size pkt)) else Inr []) f =
      f (m_Data pkt)" for f :: "byte list \<Rightarrow> byte list option result"
    by (auto simp: pkt_inv_def rdn_whole size_gt_0)
  then show ?thesis
    using length_wire(2) [OF inv] S64_size [OF assms(2)] assms(1)
    by (simp add: S64Packet_GetAsBytes_def alloc_ok_def S64_wire_def Let_def)
qed

lemma NetLib_decode_wire:
  assumes "alloc_ok env" "NetLib_wf pkt"
  shows "NetLibPacket_FromBytes env (NetLib_wire pkt @ rest) = Inr (Some (unsent pkt))"
  using assms
  by (auto simp: NetLibPacket_FromBytes_def IsNetLibPacket_def NetLib_wf_def pkt_inv_def
      NetLib_wire_def alloc_ok_def header_simps be16_def be32_def mem_simps Let_def
      NETLIBPACKET_VERSION_def S64PACKET_VERSION_def new_NetLibPacket_def new_AbstractPacket_def
      unsent_def size_gt_0 NetLibPacket_GetType_def NetLibPacket_GetRecipients_def rdn_whole)

text \<open>A type string without NULs survives the C string conversion.\<close>

lemma of_char_zero_iff: "(of_char c :: byte) = 0 \<longleftrightarrow> c = CHR 0x00"
proof -
  have "(of_char c :: byte) = 0 \<longleftrightarrow> (of_char c :: nat) = 0"
    by (simp only: word_unat_eq_iff unat_of_char unat_0)
  also have "\<dots> \<longleftrightarrow> (of_char c :: nat) = of_char (CHR 0x00)" by simp
  finally show ?thesis by (simp only: of_char_eq_iff)
qed

lemma c_string_str_bytes: "CHR 0x00 \<notin> set s \<Longrightarrow> c_string (str_bytes s) = str_bytes s"
  by (auto simp: c_string_def str_bytes_def takeWhile_eq_all_conv of_char_zero_iff)

lemma S64_decode_wire:
  assumes "alloc_ok env" "S64_wf pkt"
  shows "S64Packet_FromBytes env (S64_wire pkt @ rest) = Inr (Some (unsent pkt))"
proof -
  obtain type where t: "m_Derived pkt = S64 type" "length type \<le> 255" "CHR 0x00 \<notin> set type"
    and inv: "pkt_inv pkt" and v: "m_Version pkt \<le> S64PACKET_VERSION"
    using assms(2) by (auto simp: S64_wf_def)
  define tb where "tb = str_bytes type"
  define tl where "tl = length type"
  have tb: "length tb = tl" "tl \<le> 255" "c_string tb = tb" "bytes_str tb = type"
    using t by (simp_all add: tb_def tl_def c_string_str_bytes)
  have len: "unat (of_nat tl :: byte) = tl"
    using tb(2) by (simp add: unat_of_nat)
  have wire: "S64_wire pkt @ rest = S64PACKET_HEADER @ [m_Version pkt, m_Flags pkt]
     @ be16 (m_SequenceNum pkt) @ be16 (m_Ack pkt) @ be16 (m_AckBitField pkt)
     @ [of_nat tl] @ tb @ be16 (m_Size pkt) @ m_Data pkt @ rest"
    by (simp add: S64_wire_def S64Packet_GetType_def t(1) tb_def tl_def)
  have d14: "drop (14 + n) xs = drop (2 + n) (drop 12 xs)" for n and xs :: "byte list"
    by simp
  show ?thesis
    using assms(1) v inv tb len
    unfolding S64Packet_FromBytes_def IsS64Packet_def wire
    by (auto simp: pkt_inv_def alloc_ok_def header_simps be16_def mem_simps Let_def
        S64PACKET_VERSION_def new_S64Packet_def new_AbstractPacket_def nth_append
        unsent_def size_gt_0 rdn_whole t(1) d14)
qed

section \<open>What the parsers accept\<close>

lemma be16_swap_le16 [simp]: "be16 (swap_endian16 (le16 a b)) = [a, b]"
  unfolding st16_swap [symmetric] swap_endian16_twice
  by (simp add: st16_def)
    (intro conjI bit_word_eqI; auto simp: le16_def bit_simps dest: bit_imp_le_length)

lemma ucast_le32:
  "(ucast (le32 a b c d) :: byte) = a" "(ucast (drop_bit 8 (le32 a b c d)) :: byte) = b"
  "(ucast (drop_bit 16 (le32 a b c d)) :: byte) = c" "(ucast (drop_bit 24 (le32 a b c d)) :: byte) = d"
  by (rule bit_word_eqI; auto simp: le32_def bit_simps dest: bit_imp_le_length)+

lemma be32_swap_le32 [simp]: "be32 (swap_endian32 (le32 a b c d)) = [a, b, c, d]"
  unfolding st32_swap [symmetric] swap_endian32_twice by (simp add: st32_def ucast_le32)

lemma eighteen_bytes:
  assumes "18 \<le> length bs"
  shows "bs = [bs ! 0, bs ! 1, bs ! 2, bs ! 3, bs ! 4, bs ! 5, bs ! 6, bs ! 7, bs ! 8, bs ! 9,
    bs ! 10, bs ! 11, bs ! 12, bs ! 13, bs ! 14, bs ! 15, bs ! 16, bs ! 17] @ drop 18 bs"
proof -
  have "take 18 bs = map (\<lambda>i. bs ! i) [0..<18]"
    using assms by (simp add: list_eq_iff_nth_eq)
  moreover have "[0..<18] = [0, 1, 2, 3, 4, 5, 6, 7, 8, 9, 10, 11, 12, 13, 14, 15, 16, 17]"
    by code_simp
  ultimately have "take 18 bs = [bs ! 0, bs ! 1, bs ! 2, bs ! 3, bs ! 4, bs ! 5, bs ! 6, bs ! 7,
    bs ! 8, bs ! 9, bs ! 10, bs ! 11, bs ! 12, bs ! 13, bs ! 14, bs ! 15, bs ! 16, bs ! 17]"
    by (simp only: list.map)
  then show ?thesis by (metis append_take_drop_id)
qed

text \<open>The data length a NetLib header announces.\<close>

definition NetLib_announced :: "byte list \<Rightarrow> nat" where
  "NetLib_announced bs = unat (swap_endian16 (le16 (bs ! 16) (bs ! 17)))"

definition NetLib_parsed :: "byte list \<Rightarrow> AbstractPacket" where
  "NetLib_parsed bs = \<lparr>m_Version = bs ! 3, m_Flags = bs ! 5,
     m_SequenceNum = swap_endian16 (le16 (bs ! 6) (bs ! 7)),
     m_Ack = swap_endian16 (le16 (bs ! 8) (bs ! 9)),
     m_AckBitField = swap_endian16 (le16 (bs ! 10) (bs ! 11)),
     m_Size = swap_endian16 (le16 (bs ! 16) (bs ! 17)),
     m_Data = take (NetLib_announced bs) (drop 18 bs), m_SendTime = 0, m_SendAttempts = 0,
     m_Derived = NetLib (bs ! 4) (swap_endian32 (le32 (bs ! 12) (bs ! 13) (bs ! 14) (bs ! 15)))\<rparr>"

text \<open>
  Every outcome of the NetLib parser on a buffer that holds at least a header: a foreign
  header, a newer version, data that runs past the buffer, or the packet.
\<close>

lemma NetLib_FromBytes_cases:
  assumes "alloc_ok env" "18 \<le> length bs"
  shows "NetLibPacket_FromBytes env bs =
    (if take 3 bs \<noteq> NETLIBPACKET_HEADER then Inr None
     else if 1 < bs ! 3 then Inl (BadPacketVersion (unat (bs ! 3)))
     else if length bs < 18 + NetLib_announced bs then Inl OutOfBounds
     else Inr (Some (NetLib_parsed bs)))"
proof -
  obtain ok where ok: "IsNetLibPacket bs = Inr ok"
    using strneq_total [of NETLIBPACKET_HEADER bs] assms(2)
    by (auto simp: IsNetLibPacket_def)
  then have "ok \<longleftrightarrow> take 3 bs = NETLIBPACKET_HEADER"
    using strneq_True_iff [of bs NETLIBPACKET_HEADER] by (auto simp: IsNetLibPacket_def)
  with ok assms show ?thesis
    by (auto simp: NetLibPacket_FromBytes_def mem_simps S64PACKET_VERSION_def alloc_ok_def Let_def
        new_NetLibPacket_def new_AbstractPacket_def NetLib_parsed_def NetLib_announced_def
        size_gt_0 rdn_def)
qed

lemma NetLib_parsed_wf:
  assumes "18 + NetLib_announced bs \<le> length bs" "\<not> 1 < bs ! 3" "NetLib_announced bs < 65518"
  shows "NetLib_wf (NetLib_parsed bs)"
  using assms by (auto simp: NetLib_wf_def pkt_inv_def NetLib_parsed_def NetLib_announced_def
      NETLIBPACKET_VERSION_def)

text \<open>The parser inverts the printer: what it accepts is the wire form of what it returns.\<close>

lemma NetLib_decode_image:
  assumes "alloc_ok env" "18 \<le> length bs" "NetLibPacket_FromBytes env bs = Inr (Some pkt)"
  shows "bs = NetLib_wire pkt @ drop (18 + unat (m_Size pkt)) bs"
proof -
  have h: "take 3 bs = NETLIBPACKET_HEADER" and pkt: "pkt = NetLib_parsed bs"
    using assms(3) unfolding NetLib_FromBytes_cases [OF assms(1,2)] by (auto split: if_splits)
  have "bs ! 0 = 0x4E \<and> bs ! 1 = 0x4C \<and> bs ! 2 = 0x50"
    using nth_take [of 0 3 bs] nth_take [of 1 3 bs] nth_take [of 2 3 bs] unfolding h
    by (simp add: header_simps)
  then have "NetLib_wire pkt = [bs ! 0, bs ! 1, bs ! 2, bs ! 3, bs ! 4, bs ! 5, bs ! 6, bs ! 7,
      bs ! 8, bs ! 9, bs ! 10, bs ! 11, bs ! 12, bs ! 13, bs ! 14, bs ! 15, bs ! 16, bs ! 17]
      @ take (unat (m_Size pkt)) (drop 18 bs)"
    by (simp add: pkt NetLib_parsed_def NetLib_wire_def header_simps NetLibPacket_GetType_def
        NetLibPacket_GetRecipients_def NetLib_announced_def)
  then show ?thesis
    using eighteen_bytes [OF assms(2)] by (simp add: add.commute flip: drop_drop)
qed

section \<open>Acknowledgements\<close>

lemma and_shl1_zero: "(w :: u32) AND 2 ^ k = 0 \<longleftrightarrow> \<not> bit w k"
  by (rule and_exp_eq_0_iff_not_bit)

text \<open>
  Up to 32 numbers behind the ack the answer is a bit of the field (of which 16 exist);
  further away, and for every number ahead of the ack, it is what the machine's shift
  happens to give. The distance \<open>unat (m_Ack pkt - n)\<close> is taken on the circle of sequence
  numbers.
\<close>

lemma IsAcked_iff:
  "IsAcked env pkt n \<longleftrightarrow> m_Ack pkt = n \<or>
     (if unat (m_Ack pkt - n) \<le> 32 then bit (m_AckBitField pkt) (unat (m_Ack pkt - n) - 1)
      else (ucast (m_AckBitField pkt) :: u32)
        AND env_shl env (int (unat (m_Ack pkt - n)) - 1) \<noteq> 0)"
proof (cases "m_Ack pkt = n")
  case False
  define k where "k = unat (m_Ack pkt - n)"
  have "k \<noteq> 0" using False by (simp add: k_def unat_eq_0)
  moreover have "sequence_delta (ucast (m_Ack pkt)) (ucast n) = int k"
    by (simp add: sequence_delta_eq k_def)
  ultimately show ?thesis
    using False unfolding k_def [symmetric]
    by (auto simp: IsAcked_def c_shl1_def and_shl1_zero bit_simps nat_diff_distrib
        dest: bit_imp_le_length)
qed (simp add: IsAcked_def)

text \<open>The reading the protocol intends: the ack itself and the 16 numbers before it.\<close>

definition acks :: "AbstractPacket \<Rightarrow> u16 \<Rightarrow> bool" where
  "acks pkt n \<longleftrightarrow> m_Ack pkt = n \<or>
     (unat (m_Ack pkt - n) \<le> 16 \<and> bit (m_AckBitField pkt) (unat (m_Ack pkt - n) - 1))"

text \<open>
  The shift for \<open>n\<close> is harmless when the count is in range or when what the machine computes
  misses the 16 bits of the field. On a machine that masks the count that is so for the ack,
  the 32 numbers before it, and the 15 after it.
\<close>

definition ack_safe :: "env \<Rightarrow> u16 \<Rightarrow> u16 \<Rightarrow> bool" where
  "ack_safe env ack n \<longleftrightarrow> unat (ack - n) \<le> 32 \<or>
     (ucast (env_shl env (int (unat (ack - n)) - 1)) :: u16) = 0"

lemma IsAcked_acks:
  assumes "ack_safe env (m_Ack pkt) n"
  shows "IsAcked env pkt n \<longleftrightarrow> acks pkt n"
proof (cases "unat (m_Ack pkt - n) \<le> 32")
  case True
  then show ?thesis
    using bit_imp_le_length [of "m_AckBitField pkt" "unat (m_Ack pkt - n) - 1"]
    by (auto simp: IsAcked_iff acks_def)
next
  case False
  let ?s = "env_shl env (int (unat (m_Ack pkt - n)) - 1)"
  have z: "(ucast ?s :: u16) = 0" using assms False by (simp add: ack_safe_def)
  have "(ucast (m_AckBitField pkt) :: u32) AND ?s = 0"
  proof (rule bit_word_eqI)
    fix k
    assume "k < LENGTH(32)"
    have "\<not> bit ?s k" if "k < 16"
      using z that bit_ucast_iff [of ?s k, where 'a = 16] by simp
    then show "bit ((ucast (m_AckBitField pkt) :: u32) AND ?s) k = bit (0 :: u32) k"
      using bit_imp_le_length [of "m_AckBitField pkt" k] by (auto simp: bit_simps)
  qed
  with False show ?thesis by (simp add: IsAcked_iff acks_def)
qed

text \<open>A number the header acknowledges is always taken as acknowledged.\<close>

lemma acks_IsAcked: "acks pkt n \<Longrightarrow> IsAcked env pkt n"
  by (auto simp: IsAcked_iff acks_def)

lemma ack_safe_near: "unat (ack - n) \<le> 32 \<Longrightarrow> ack_safe env ack n"
  by (simp add: ack_safe_def)

lemma ack_safe_masks:
  assumes "shl_masks env" "unat (ack - n) \<le> 32 \<or> unat (n - ack) \<le> 15"
  shows "ack_safe env ack n"
proof (cases "unat (ack - n) \<le> 32")
  case False
  define a where "a = unat (n - ack)"
  have a: "a \<le> 15" "a \<noteq> 0" using assms(2) False by (auto simp: a_def unat_eq_0)
  have "unat (ack - n) = 65536 - a"
    using a(2) False unsigned_less [of n, where 'a = nat] unsigned_less [of ack, where 'a = nat]
    by (auto simp: a_def unat_sub_if' split: if_splits)
  then have c: "int (unat (ack - n)) - 1 = 32 * 2047 + (31 - int a)" using a by simp
  have m: "(int (unat (ack - n)) - 1) mod 32 = 31 - int a"
    unfolding c mod_mult_self4 using a by (intro mod_pos_pos_trivial) simp_all
  have "(ucast (push_bit (nat (31 - int a)) (1 :: u32)) :: u16) = 0"
    using a by (intro bit_word_eqI) (auto simp: bit_simps simp del: push_bit_of_1)
  then show ?thesis using assms(1) by (simp only: ack_safe_def shl_masks_def m simp_thms)
qed (simp add: ack_safe_def)

section \<open>The S64 parser\<close>

definition S64_announced :: "byte list \<Rightarrow> nat" where
  "S64_announced bs =
     (let r = 12 + unat (bs ! 11) in unat (swap_endian16 (le16 (bs ! r) (bs ! (r + 1)))))"

definition S64_parsed :: "byte list \<Rightarrow> AbstractPacket" where
  "S64_parsed bs = (let tl = unat (bs ! 11) in
     \<lparr>m_Version = bs ! 3, m_Flags = bs ! 4,
      m_SequenceNum = swap_endian16 (le16 (bs ! 5) (bs ! 6)),
      m_Ack = swap_endian16 (le16 (bs ! 7) (bs ! 8)),
      m_AckBitField = swap_endian16 (le16 (bs ! 9) (bs ! 10)),
      m_Size = swap_endian16 (le16 (bs ! (12 + tl)) (bs ! (13 + tl))),
      m_Data = take (S64_announced bs) (drop (14 + tl) bs), m_SendTime = 0, m_SendAttempts = 0,
      m_Derived = S64 (bytes_str (c_string (take tl (drop 12 bs))))\<rparr>)"

lemma S64_FromBytes_cases:
  assumes "alloc_ok env" "12 \<le> length bs"
  shows "S64Packet_FromBytes env bs =
    (if take 3 bs \<noteq> S64PACKET_HEADER then Inr None
     else if 1 < bs ! 3 then Inl (BadPacketVersion (unat (bs ! 3)))
     else if length bs < 14 + unat (bs ! 11) then Inl OutOfBounds
     else if length bs < 14 + unat (bs ! 11) + S64_announced bs then Inl OutOfBounds
     else Inr (Some (S64_parsed bs)))"
proof -
  obtain ok where ok: "IsS64Packet bs = Inr ok"
    using strneq_total [of S64PACKET_HEADER bs] assms(2) by (auto simp: IsS64Packet_def)
  then have "ok \<longleftrightarrow> take 3 bs = S64PACKET_HEADER"
    using strneq_True_iff [of bs S64PACKET_HEADER] by (auto simp: IsS64Packet_def)
  with ok assms show ?thesis
    by (auto simp: S64Packet_FromBytes_def rd8_def rd16_def rdn_def S64PACKET_VERSION_def
        alloc_ok_def Let_def new_S64Packet_def new_AbstractPacket_def S64_parsed_def
        S64_announced_def size_gt_0)
qed

section \<open>The packet codec interface\<close>

text \<open>
  What the UDP handler and the two connection threads need from a packet class: encoding a
  well-formed packet gives its wire form, and decoding a buffer that starts with a wire form
  gives the packet back, whatever bytes follow (the receive buffer is reused, so a datagram
  is followed by the bytes of older ones).
\<close>

locale packet_codec =
  fixes encode :: "env \<Rightarrow> 'p \<Rightarrow> byte list option result"
    and decode :: "env \<Rightarrow> byte list \<Rightarrow> 'p option result"
    and wf :: "'p \<Rightarrow> bool"
    and wire :: "'p \<Rightarrow> byte list"
    and received :: "'p \<Rightarrow> 'p"
  assumes encode_wire: "alloc_ok env \<Longrightarrow> wf p \<Longrightarrow> encode env p = Inr (Some (wire p))"
    and decode_wire: "alloc_ok env \<Longrightarrow> wf p \<Longrightarrow> decode env (wire p @ rest) = Inr (Some (received p))"
    and wf_received: "wf (received p) \<longleftrightarrow> wf p"
    and wire_received: "wire (received p) = wire p"
    and received_received: "received (received p) = received p"
begin

lemma decode_encode:
  "alloc_ok env \<Longrightarrow> wf p \<Longrightarrow> encode env p = Inr (Some bytes) \<Longrightarrow> decode env bytes = Inr (Some (received p))"
  using encode_wire [of env p] decode_wire [of env p "[]"] by simp

lemma wire_prefix_unique:
  assumes "wf p" "wf q" "wire p @ r = wire q @ r'"
  shows "received p = received q"
  using decode_wire [of env_x86 p r] decode_wire [of env_x86 q r'] assms by simp

lemma relay:
  "alloc_ok env \<Longrightarrow> wf p \<Longrightarrow> encode env (received p) = encode env p"
  by (simp add: encode_wire wf_received wire_received)

end

lemma unsent_simps [simp]:
  "unsent (unsent p) = unsent p" "m_Derived (unsent p) = m_Derived p" "m_Size (unsent p) = m_Size p"
  "m_Data (unsent p) = m_Data p" "m_Version (unsent p) = m_Version p" "m_Flags (unsent p) = m_Flags p"
  "m_SequenceNum (unsent p) = m_SequenceNum p" "m_Ack (unsent p) = m_Ack p"
  "m_AckBitField (unsent p) = m_AckBitField p" "S64Packet_GetType (unsent p) = S64Packet_GetType p"
  "NetLibPacket_GetType (unsent p) = NetLibPacket_GetType p"
  "NetLibPacket_GetRecipients (unsent p) = NetLibPacket_GetRecipients p"
  by (simp_all add: unsent_def S64Packet_GetType_def NetLibPacket_GetType_def
      NetLibPacket_GetRecipients_def)

lemma wf_unsent [simp]: "S64_wf (unsent p) = S64_wf p" "NetLib_wf (unsent p) = NetLib_wf p"
  by (simp_all add: S64_wf_def NetLib_wf_def pkt_inv_def)

lemma wire_unsent [simp]: "S64_wire (unsent p) = S64_wire p" "NetLib_wire (unsent p) = NetLib_wire p"
  by (simp_all add: S64_wire_def NetLib_wire_def)

interpretation s64: packet_codec S64Packet_GetAsBytes S64Packet_FromBytes S64_wf S64_wire unsent
  by unfold_locales (simp_all only: S64_encode_wire S64_decode_wire wf_unsent wire_unsent unsent_simps)

interpretation nlp: packet_codec NetLibPacket_GetAsBytes NetLibPacket_FromBytes NetLib_wf NetLib_wire unsent
  by unfold_locales
    (simp_all only: NetLib_encode_wire NetLib_decode_wire wf_unsent wire_unsent unsent_simps)

text \<open>The ack packets.\<close>

lemma MakeAck_eq:
  "MakeAck_S64Packet env = Inr \<lparr>m_Version = 1, m_Flags = FLAG_UNRELIABLE, m_SequenceNum = 0,
     m_Ack = 0, m_AckBitField = 0, m_Size = 0, m_Data = [], m_SendTime = 0, m_SendAttempts = 0,
     m_Derived = S64 ''ACK''\<rparr>"
  "MakeAck_NetLibPacket env = Inr \<lparr>m_Version = 1, m_Flags = FLAG_UNRELIABLE, m_SequenceNum = 0,
     m_Ack = 0, m_AckBitField = 0, m_Size = 0, m_Data = [], m_SendTime = 0, m_SendAttempts = 0,
     m_Derived = NetLib 0 0\<rparr>"
  by (simp_all add: MakeAck_S64Packet_def MakeAck_NetLibPacket_def S64Packet_flags_def
      NetLibPacket_flags_def new_S64Packet_def new_NetLibPacket_def new_AbstractPacket_def
      S64PACKET_VERSION_def NETLIBPACKET_VERSION_def)

lemma new_AbstractPacket_inv:
  "new_AbstractPacket env v sz data fl s a b d = Inr pkt \<Longrightarrow> pkt_inv pkt \<and> m_SendAttempts pkt = 0"
  by (auto simp: new_AbstractPacket_def pkt_inv_def rbind_Inr_iff rdn_def size_gt_0 split: if_splits)

section \<open>Properties\<close>

text \<open>C29: a well-formed NetLib packet encodes to a datagram of 18 bytes plus its data, and a
  buffer that starts with that datagram, whatever follows it, decodes to the same packet with
  fresh send bookkeeping.\<close>

theorem netlib_roundtrip:
  assumes "alloc_ok env" "NetLib_wf pkt"
  shows "\<exists>bytes. NetLibPacket_GetAsBytes env pkt = Inr (Some bytes) \<and>
    length bytes = 18 + unat (m_Size pkt) \<and> unat (NetLibPacket_GetAsBytes_Size pkt) = length bytes \<and>
    (\<forall>rest. NetLibPacket_FromBytes env (bytes @ rest) =
      Inr (Some (pkt\<lparr>m_SendTime := 0, m_SendAttempts := 0\<rparr>)))"
  using nlp.encode_wire [OF assms] nlp.decode_wire [OF assms] length_wire(1) NetLib_size [OF assms(2)]
    assms(2) by (simp add: unsent_def NetLib_wf_def)

text \<open>Packets to run the properties on.\<close>

definition sample_pkt :: AbstractPacket where
  "sample_pkt = \<lparr>m_Version = 1, m_Flags = 0, m_SequenceNum = 0, m_Ack = 0, m_AckBitField = 0,
     m_Size = 2, m_Data = [7, 8], m_SendTime = 0, m_SendAttempts = 0, m_Derived = NetLib 10 0\<rparr>"

definition sample_s64 :: AbstractPacket where
  "sample_s64 = sample_pkt\<lparr>m_Derived := S64 ''LIST''\<rparr>"

lemma sample_wf [simp]: "NetLib_wf sample_pkt" "S64_wf sample_s64"
  by (simp_all add: NetLib_wf_def S64_wf_def pkt_inv_def sample_pkt_def sample_s64_def
      NETLIBPACKET_VERSION_def S64PACKET_VERSION_def)

lemma netlib_roundtrip_witness:
  "\<exists>bytes. NetLibPacket_GetAsBytes env_x86 sample_pkt = Inr (Some bytes) \<and> length bytes = 20 \<and>
     NetLibPacket_FromBytes env_x86 (bytes @ [1, 2, 3]) = Inr (Some sample_pkt)"
proof -
  have "sample_pkt\<lparr>m_SendTime := 0, m_SendAttempts := 0\<rparr> = sample_pkt" "unat (m_Size sample_pkt) = 2"
    by (simp_all add: sample_pkt_def)
  then show ?thesis using netlib_roundtrip [of env_x86 sample_pkt] by auto
qed

text \<open>The same for a server-browser packet whose type is at most 255 characters long and
  has no NUL: 14 bytes plus the type plus the data.\<close>

theorem s64_roundtrip:
  assumes "alloc_ok env" "S64_wf pkt"
  shows "\<exists>bytes. S64Packet_GetAsBytes env pkt = Inr (Some bytes) \<and>
    length bytes = 14 + length (S64Packet_GetType pkt) + unat (m_Size pkt) \<and>
    unat (S64Packet_GetAsBytes_Size pkt) = length bytes \<and>
    (\<forall>rest. S64Packet_FromBytes env (bytes @ rest) =
      Inr (Some (pkt\<lparr>m_SendTime := 0, m_SendAttempts := 0\<rparr>)))"
  using s64.encode_wire [OF assms] s64.decode_wire [OF assms] length_wire(2) S64_size [OF assms(2)]
    assms(2) by (simp add: unsent_def S64_wf_def)

lemma s64_roundtrip_witness:
  "\<exists>bytes. S64Packet_GetAsBytes env_x86 sample_s64 = Inr (Some bytes) \<and> length bytes = 20 \<and>
     S64Packet_FromBytes env_x86 (bytes @ [1, 2, 3]) = Inr (Some sample_s64)"
proof -
  have "sample_s64\<lparr>m_SendTime := 0, m_SendAttempts := 0\<rparr> = sample_s64" "unat (m_Size sample_s64) = 2"
    "length (S64Packet_GetType sample_s64) = 4"
    by (simp_all add: sample_s64_def sample_pkt_def S64Packet_GetType_def)
  then show ?thesis using s64_roundtrip [of env_x86 sample_s64] by auto
qed

text \<open>A big-endian length field as a number.\<close>

lemma unat_be: "unat (swap_endian16 (le16 a b)) = 256 * unat a + unat b"
proof -
  have "swap_endian16 (le16 a b) = ucast b OR push_bit 8 (ucast a)"
    by (rule bit_word_eqI) (auto simp: bit_swap16 le16_def bit_simps dest: bit_imp_le_length)
  also have "\<dots> = ucast b + push_bit 8 (ucast a)"
    by (rule disjunctive_add_eq_or [symmetric], rule bit_word_eqI)
      (auto simp: bit_simps dest: bit_imp_le_length)
  also have "\<dots> = of_nat (256 * unat a + unat b)"
    by (simp add: push_bit_eq_mult)
  finally have "swap_endian16 (le16 a b) = of_nat (256 * unat a + unat b)" .
  moreover have "256 * unat a + unat b < 65536"
    using unsigned_less [of a, where 'a = nat] unsigned_less [of b, where 'a = nat] by simp
  ultimately show ?thesis by (simp add: unat_of_nat16 del: of_nat_add of_nat_mult)
qed

text \<open>C32: the NetLib parser decides a buffer of at least 18 bytes in this order: a foreign
  header is no packet, a version above 1 raises the version exception, data that would run
  past the buffer is an out-of-bounds read, and everything else is a packet whose encoding is
  the start of the buffer.\<close>

theorem netlib_parser_outcomes:
  assumes "alloc_ok env" "18 \<le> length bs"
  shows "case NetLibPacket_FromBytes env bs of
      Inl e \<Rightarrow> take 3 bs = NETLIBPACKET_HEADER \<and>
        (if 1 < bs ! 3 then e = BadPacketVersion (unat (bs ! 3))
         else e = OutOfBounds \<and> length bs < 18 + 256 * unat (bs ! 16) + unat (bs ! 17))
    | Inr None \<Rightarrow> take 3 bs \<noteq> NETLIBPACKET_HEADER
    | Inr (Some pkt) \<Rightarrow> bs = NetLib_wire pkt @ drop (18 + unat (m_Size pkt)) bs"
proof -
  have ann: "NetLib_announced bs = 256 * unat (bs ! 16) + unat (bs ! 17)"
    by (simp add: NetLib_announced_def unat_be)
  show ?thesis
    using NetLib_FromBytes_cases [OF assms] NetLib_decode_image [OF assms]
    by (auto simp: ann split: sum.splits option.splits if_splits)
qed

lemma netlib_parser_outcomes_witness:
  "let bs = NetLib_wire sample_pkt @ [9, 9] in
   18 \<le> length bs \<and> (case NetLibPacket_FromBytes env_x86 bs of
      Inl e \<Rightarrow> take 3 bs = NETLIBPACKET_HEADER \<and>
        (if 1 < bs ! 3 then e = BadPacketVersion (unat (bs ! 3))
         else e = OutOfBounds \<and> length bs < 18 + 256 * unat (bs ! 16) + unat (bs ! 17))
    | Inr None \<Rightarrow> take 3 bs \<noteq> NETLIBPACKET_HEADER
    | Inr (Some pkt) \<Rightarrow> bs = NetLib_wire pkt @ drop (18 + unat (m_Size pkt)) bs)"
proof -
  have len: "18 \<le> length (NetLib_wire sample_pkt @ [9, 9])"
    using length_wire(1) [of sample_pkt] sample_wf(1) by (simp add: NetLib_wf_def)
  from netlib_parser_outcomes [OF alloc_ok_instances len] len show ?thesis
    unfolding Let_def by (intro conjI)
qed

text \<open>The encoded size is a 16-bit number: a NetLib packet with 65518 to 65535 bytes of
  data writes past the block that was allocated for it.\<close>

theorem netlib_size_wraps:
  assumes "alloc_ok env" "pkt_inv pkt" "65518 \<le> unat (m_Size pkt)"
  shows "NetLibPacket_GetAsBytes env pkt = Inl OutOfBounds \<and>
    unat (NetLibPacket_GetAsBytes_Size pkt) = unat (m_Size pkt) - 65518"
proof -
  have "unat (m_Size pkt) < 65536" using unsigned_less [of "m_Size pkt", where 'a = nat] by simp
  then have "unat (of_nat (18 + unat (m_Size pkt)) :: u16) = unat (m_Size pkt) - 65518"
    using assms(3) by (simp add: unat_of_nat mod_if del: of_nat_add)
  then have u: "unat (NetLibPacket_GetAsBytes_Size pkt) = unat (m_Size pkt) - 65518"
    by (simp add: NetLibPacket_GetAsBytes_Size_def del: of_nat_add)
  have "rbind (if 0 < m_Size pkt then rdn (m_Data pkt) 0 (unat (m_Size pkt)) else Inr []) f =
      f (m_Data pkt)" for f :: "byte list \<Rightarrow> byte list option result"
    using assms(2) by (auto simp: pkt_inv_def rdn_whole size_gt_0)
  then show ?thesis
    using assms u by (simp add: NetLibPacket_GetAsBytes_def alloc_ok_def Let_def pkt_inv_def)
qed

lemma netlib_size_wraps_witness:
  "NetLibPacket_GetAsBytes env_x86 (sample_pkt\<lparr>m_Size := 65535, m_Data := replicate 65535 0\<rparr>) = Inl OutOfBounds"
  using netlib_size_wraps [of env_x86 "sample_pkt\<lparr>m_Size := 65535, m_Data := replicate 65535 0\<rparr>"]
  by (simp add: pkt_inv_def)

text \<open>How \<open>IsAcked\<close> answers for a number that is not the ack itself: up to 32 numbers
  behind the ack it is the bit of the field at that distance, and for every other number,
  all the numbers ahead of the ack included, it is whatever the machine computes for a shift
  by that distance.\<close>

theorem is_acked_bits:
  "IsAcked env pkt n \<longleftrightarrow> m_Ack pkt = n \<or>
     (if unat (m_Ack pkt - n) \<le> 32 then bit (m_AckBitField pkt) (unat (m_Ack pkt - n) - 1)
      else (ucast (m_AckBitField pkt) :: u32)
        AND env_shl env (int (unat (m_Ack pkt - n)) - 1) \<noteq> 0)"
  by (rule IsAcked_iff)

text \<open>On a machine that masks shift counts to five bits, a packet that acknowledges 10 and
  has the bit for 9 set also acknowledges 41, which has not been sent when 10 is the newest
  number the peer has seen.\<close>

theorem future_number_acked:
  "IsAcked env_x86 (sample_pkt\<lparr>m_Ack := 10, m_AckBitField := 1\<rparr>) 41 \<and>
   \<not> acks (sample_pkt\<lparr>m_Ack := 10, m_AckBitField := 1\<rparr>) 41"
  by (simp add: IsAcked_iff acks_def)

end
