(* ===== verification/NL_UDP.thy ===== *)
theory NL_UDP
  imports NL_Packets
begin

text \<open>
  \<open>ASIOSocket\<close> and \<open>UDPHandler\<close> of \<^verbatim>\<open>Client App/packets.cpp\<close>: the socket as the datagrams
  waiting in it and the datagrams sent through it, the handler with its two sequence
  counters and its two lists, and the operations that send, accept, acknowledge and resend
  packets. The lemmas give the effect of every operation on every path, exceptions
  included, the invariant the handler keeps, and what an acknowledgement field says.
\<close>

section \<open>ASIOSocket\<close>

definition MAX_PACKETSIZE :: nat where
  "MAX_PACKETSIZE = 4096"

definition MAX_RESENDCOUNT :: int where
  "MAX_RESENDCOUNT = 5"

definition TIME_RESEND :: int where
  "TIME_RESEND = 1000"

text \<open>
  wxWidgets as the constructors use it: the tokens \<open>wxStringTokenizer\<close> returns for a string
  and a set of delimiters, what \<open>ToInt\<close> leaves in a variable that held a given value, and the
  bytes \<open>mb_str\<close> converts a string to.
\<close>

record wx =
  wx_tokens :: "wxString \<Rightarrow> wxString \<Rightarrow> wxString list"
  wx_ToInt :: "wxString \<Rightarrow> int \<Rightarrow> int"
  wx_mb_str :: "wxString \<Rightarrow> byte list"

text \<open>
  A string sent to another thread: \<open>malloc(s.Length() + 1)\<close> and \<open>strcpy(data, s.mb_str())\<close>. The
  length counts characters, the copy has the bytes of the conversion up to a NUL and its own
  NUL; when there are more bytes than characters it writes behind the buffer.
\<close>

definition new_c_string :: "'a wx_scheme \<Rightarrow> env \<Rightarrow> wxString \<Rightarrow> byte list result" where
  "new_c_string wx env s =
     (let bytes = c_string (wx_mb_str wx s) in
      if \<not> env_malloc env (length s + 1) then Inl NullPointer
      else if length s < length bytes then Inl OutOfBounds
      else Inr bytes)"

definition copy_fits :: "'a wx_scheme \<Rightarrow> wxString \<Rightarrow> bool" where
  "copy_fits wx s \<longleftrightarrow> length (c_string (wx_mb_str wx s)) \<le> length s"

lemma new_c_string_fits:
  "alloc_ok env \<Longrightarrow>
     new_c_string wx env s = (if copy_fits wx s then Inr (c_string (wx_mb_str wx s)) else Inl OutOfBounds)"
  by (auto simp: new_c_string_def copy_fits_def alloc_ok_def Let_def)

text \<open>ASCII text keeps its bytes in every encoding wxWidgets uses for \<open>char*\<close>.\<close>

definition plain_text :: "wxString \<Rightarrow> bool" where
  "plain_text s \<longleftrightarrow> (\<forall>c \<in> set s. 0 < (of_char c :: nat) \<and> of_char c < (128 :: nat))"

definition mb_str_documented :: "'a wx_scheme \<Rightarrow> bool" where
  "mb_str_documented wx \<longleftrightarrow> (\<forall>s. plain_text s \<longrightarrow> wx_mb_str wx s = str_bytes s)"

lemma plain_c_string: "plain_text s \<Longrightarrow> c_string (str_bytes s) = str_bytes s"
  by (rule c_string_str_bytes) (auto simp: plain_text_def)

lemma new_c_string_plain:
  "alloc_ok env \<Longrightarrow> mb_str_documented wx \<Longrightarrow> plain_text s \<Longrightarrow>
     new_c_string wx env s = Inr (str_bytes s) \<and> copy_fits wx s"
  by (simp add: new_c_string_fits copy_fits_def mb_str_documented_def plain_c_string)

text \<open>
  The socket: the two members the debug prints use, the last read count, the datagrams the
  operating system holds for it, and every datagram sent through it so far with its
  destination.
\<close>

record ASIOSocket =
  sock_Address :: wxString
  sock_Port :: int
  m_LastReadCount :: nat
  sock_inbox :: "byte list list"
  sock_sent :: "(wxString \<times> int \<times> byte list) list"

text \<open>\<open>garbage\<close> is the content of the port member before anything is stored in it.\<close>

definition new_ASIOSocket_full :: "'a wx_scheme \<Rightarrow> int \<Rightarrow> wxString \<Rightarrow> ASIOSocket" where
  "new_ASIOSocket_full wx garbage fulladdress =
     (let tokens = wx_tokens wx fulladdress '':'' in
      \<lparr>sock_Address = (case tokens of [] \<Rightarrow> [] | t # _ \<Rightarrow> t),
       sock_Port = (case tokens of _ # t # _ \<Rightarrow> wx_ToInt wx t garbage | _ \<Rightarrow> garbage),
       m_LastReadCount = 0, sock_inbox = [], sock_sent = []\<rparr>)"

definition new_ASIOSocket :: "wxString \<Rightarrow> int \<Rightarrow> ASIOSocket" where
  "new_ASIOSocket address port =
     \<lparr>sock_Address = address, sock_Port = port, m_LastReadCount = 0, sock_inbox = [], sock_sent = []\<rparr>"

text \<open>
  A non-blocking \<open>receive_from\<close>: the next datagram overwrites the start of the buffer, cut
  to \<open>size\<close> bytes, and the bytes behind it stay; with no datagram waiting the error code is
  set, nothing is written and the count is 0.
\<close>

definition ASIOSocket_Read :: "ASIOSocket \<Rightarrow> byte list \<Rightarrow> nat \<Rightarrow> byte list \<times> ASIOSocket" where
  "ASIOSocket_Read sock buff sz =
     (case sock_inbox sock of
        [] \<Rightarrow> (buff, sock\<lparr>m_LastReadCount := 0\<rparr>)
      | d # ds \<Rightarrow>
          (take sz d @ drop (length (take sz d)) buff,
           sock\<lparr>m_LastReadCount := length (take sz d), sock_inbox := ds\<rparr>))"

definition ASIOSocket_Send ::
    "env \<Rightarrow> ASIOSocket \<Rightarrow> wxString \<Rightarrow> int \<Rightarrow> byte list \<Rightarrow> nat \<Rightarrow> unit result \<times> ASIOSocket" where
  "ASIOSocket_Send env sock address port buff sz =
     (case rdn buff 0 sz of
        Inl e \<Rightarrow> (Inl e, sock)
      | Inr d \<Rightarrow>
          if env_send env address port d
          then (Inr (), sock\<lparr>sock_sent := sock_sent sock @ [(address, port, d)]\<rparr>)
          else (Inl SystemError, sock))"

definition LastReadCount :: "ASIOSocket \<Rightarrow> nat" where
  "LastReadCount sock = m_LastReadCount sock"

section \<open>UDPHandler\<close>

text \<open>
  The socket is shared by all handlers of a thread, so the operations take it and return it
  beside the handler. \<open>m_AckBitfield\<close> is set by the constructors and used nowhere.
\<close>

record UDPHandler =
  m_Address :: wxString
  m_Port :: int
  m_LocalSeqNum :: u16
  m_RemoteSeqNum :: u16
  m_AckBitfield :: u16
  m_AcksLeft_RX :: "AbstractPacket list"
  m_AcksLeft_TX :: "AbstractPacket list"

definition new_UDPHandler :: "wxString \<Rightarrow> int \<Rightarrow> UDPHandler" where
  "new_UDPHandler address port =
     \<lparr>m_Address = address, m_Port = port, m_LocalSeqNum = 0, m_RemoteSeqNum = 0,
      m_AckBitfield = 0, m_AcksLeft_RX = [], m_AcksLeft_TX = []\<rparr>"

definition new_UDPHandler_full :: "'a wx_scheme \<Rightarrow> int \<Rightarrow> wxString \<Rightarrow> UDPHandler" where
  "new_UDPHandler_full wx garbage fulladdress =
     (let tokens = wx_tokens wx fulladdress '':'' in
      new_UDPHandler (case tokens of [] \<Rightarrow> [] | t # _ \<Rightarrow> t)
        (case tokens of _ # t # _ \<Rightarrow> wx_ToInt wx t garbage | _ \<Rightarrow> garbage))"

definition GetAddress :: "UDPHandler \<Rightarrow> wxString" where
  "GetAddress h = m_Address h"

definition GetPort :: "UDPHandler \<Rightarrow> int" where
  "GetPort h = m_Port h"

text \<open>
  The loop over the received packets in \<open>SendPacket\<close>. The shifted \<open>int\<close> is or-ed into a
  \<open>uint16_t\<close>, which keeps its low 16 bits.
\<close>

definition ack_bit :: "env \<Rightarrow> u16 \<Rightarrow> u16 \<Rightarrow> u16" where
  "ack_bit env remote n =
     (if sequence_greaterthan remote n
      then ucast (c_shl1 env (sequence_delta (ucast remote) (ucast n) - 1)) else 0)"

definition ack_field :: "env \<Rightarrow> UDPHandler \<Rightarrow> u16" where
  "ack_field env h =
     foldl (\<lambda>ackbitfield pkt2ack.
         ackbitfield OR ack_bit env (m_RemoteSeqNum h) (GetSequenceNumber pkt2ack))
       0 (m_AcksLeft_RX h)"

text \<open>The block that runs on the first send attempt only.\<close>

definition stamp :: "env \<Rightarrow> UDPHandler \<Rightarrow> AbstractPacket \<Rightarrow> AbstractPacket" where
  "stamp env h pkt =
     SetAckBitfield (ack_field env h) (SetAck (m_RemoteSeqNum h)
       (SetSequenceNumber (m_LocalSeqNum h) pkt))"

text \<open>
  \<open>now\<close> is the clock reading of the call. The returned packet is the object the caller's
  pointer refers to after the call, also when an exception leaves the function.
\<close>

definition SendPacket ::
    "env \<Rightarrow> int \<Rightarrow> ASIOSocket \<Rightarrow> UDPHandler \<Rightarrow> AbstractPacket
      \<Rightarrow> unit result \<times> ASIOSocket \<times> UDPHandler \<times> AbstractPacket" where
  "SendPacket env now sock h pkt =
     (let pkt = UpdateSendAttempt now pkt in
      if uint (GetSendAttempts pkt) > MAX_RESENDCOUNT
      then (Inl (ClientTimeout (m_Address h @ '':'' @ dec_int (m_Port h))), sock, h, pkt) else
      let pkt = (if GetSendAttempts pkt = 1 then stamp env h pkt else pkt) in
      case GetAsBytes env pkt of
        Inl e \<Rightarrow> (Inl e, sock, h, pkt)
      | Inr None \<Rightarrow> (Inl NullPointer, sock, h, pkt)
      | Inr (Some data) \<Rightarrow>
         (case ASIOSocket_Send env sock (m_Address h) (m_Port h) data
                 (unat (GetAsBytes_Size pkt)) of
            (Inl e, sock) \<Rightarrow> (Inl e, sock, h, pkt)
          | (Inr _, sock) \<Rightarrow>
              if GetFlags pkt AND FLAG_UNRELIABLE = 0 \<and> GetSendAttempts pkt = 1
              then (Inr (), sock,
                    h\<lparr>m_AcksLeft_TX := m_AcksLeft_TX h @ [pkt],
                      m_LocalSeqNum := ucast (sequence_increment (ucast (m_LocalSeqNum h)))\<rparr>, pkt)
              else (Inr (), sock, h, pkt)))"

text \<open>\<open>this->SendPacket(ackmaker())\<close>; the ack object itself is dropped.\<close>

definition send_ack ::
    "env \<Rightarrow> int \<Rightarrow> ASIOSocket \<Rightarrow> UDPHandler \<Rightarrow> (env \<Rightarrow> AbstractPacket result)
      \<Rightarrow> unit result \<times> ASIOSocket \<times> UDPHandler" where
  "send_ack env now sock h ackmaker =
     (case ackmaker env of
        Inl e \<Rightarrow> (Inl e, sock, h)
      | Inr ack \<Rightarrow> (case SendPacket env now sock h ack of (r, sock, h, _) \<Rightarrow> (r, sock, h)))"

definition remove_acked :: "env \<Rightarrow> AbstractPacket \<Rightarrow> AbstractPacket list \<Rightarrow> AbstractPacket list" where
  "remove_acked env pkt = filter (\<lambda>pkt2ack. \<not> IsAcked env pkt (GetSequenceNumber pkt2ack))"

text \<open>Adding a reliable packet to the received list: with more than 17 entries the oldest
  one leaves first.\<close>

definition push_received :: "AbstractPacket \<Rightarrow> AbstractPacket list \<Rightarrow> AbstractPacket list" where
  "push_received pkt rx = (if length rx > 17 then tl rx else rx) @ [pkt]"

definition HandlePacketSequence ::
    "env \<Rightarrow> int \<Rightarrow> ASIOSocket \<Rightarrow> UDPHandler \<Rightarrow> AbstractPacket \<Rightarrow> (env \<Rightarrow> AbstractPacket result)
      \<Rightarrow> bool result \<times> ASIOSocket \<times> UDPHandler" where
  "HandlePacketSequence env now sock h pkt ackmaker =
     (if list_ex (\<lambda>rxpkt. GetSequenceNumber rxpkt = GetSequenceNumber pkt) (m_AcksLeft_RX h)
      then if GetFlags pkt AND FLAG_EXPLICITACK \<noteq> 0
           then (case send_ack env now sock h ackmaker of
                   (r, sock, h) \<Rightarrow> (rbind r (\<lambda>_. Inr False), sock, h))
           else (Inr False, sock, h)
      else
        let h = h\<lparr>m_AcksLeft_TX := remove_acked env pkt (m_AcksLeft_TX h)\<rparr>;
            h = (if sequence_greaterthan (GetSequenceNumber pkt) (m_RemoteSeqNum h)
                 then h\<lparr>m_RemoteSeqNum := GetSequenceNumber pkt\<rparr> else h);
            h = (if GetFlags pkt AND FLAG_UNRELIABLE = 0
                 then h\<lparr>m_AcksLeft_RX := push_received pkt (m_AcksLeft_RX h)\<rparr> else h)
        in if GetFlags pkt AND FLAG_EXPLICITACK \<noteq> 0
           then (case send_ack env now sock h ackmaker of
                   (r, sock, h) \<Rightarrow> (rbind r (\<lambda>_. Inr True), sock, h))
           else (Inr True, sock, h))"

definition ReadS64Packet ::
    "env \<Rightarrow> int \<Rightarrow> ASIOSocket \<Rightarrow> UDPHandler \<Rightarrow> byte list
      \<Rightarrow> AbstractPacket option result \<times> ASIOSocket \<times> UDPHandler" where
  "ReadS64Packet env now sock h data =
     (case IsS64Packet data of
        Inl e \<Rightarrow> (Inl e, sock, h)
      | Inr False \<Rightarrow> (Inr None, sock, h)
      | Inr True \<Rightarrow>
         (case S64Packet_FromBytes env data of
            Inl e \<Rightarrow> (Inl e, sock, h)
          | Inr None \<Rightarrow> (Inr None, sock, h)
          | Inr (Some pkt) \<Rightarrow>
             (case HandlePacketSequence env now sock h pkt MakeAck_S64Packet of
                (r, sock, h) \<Rightarrow> (rbind r (\<lambda>ok. Inr (if ok then Some pkt else None)), sock, h))))"

definition ReadNetLibPacket ::
    "env \<Rightarrow> int \<Rightarrow> ASIOSocket \<Rightarrow> UDPHandler \<Rightarrow> byte list
      \<Rightarrow> AbstractPacket option result \<times> ASIOSocket \<times> UDPHandler" where
  "ReadNetLibPacket env now sock h data =
     (case IsNetLibPacket data of
        Inl e \<Rightarrow> (Inl e, sock, h)
      | Inr False \<Rightarrow> (Inr None, sock, h)
      | Inr True \<Rightarrow>
         (case NetLibPacket_FromBytes env data of
            Inl e \<Rightarrow> (Inl e, sock, h)
          | Inr None \<Rightarrow> (Inr None, sock, h)
          | Inr (Some pkt) \<Rightarrow>
             (case HandlePacketSequence env now sock h pkt MakeAck_NetLibPacket of
                (r, sock, h) \<Rightarrow> (rbind r (\<lambda>ok. Inr (if ok then Some pkt else None)), sock, h))))"

text \<open>
  The range-based loop over \<open>m_AcksLeft_TX\<close>: \<open>passed\<close> are the packets behind the iterator and
  \<open>todo\<close> the rest. A \<open>push_back\<close> from inside the loop would invalidate the iterator.
\<close>

fun resend_loop ::
    "env \<Rightarrow> int \<Rightarrow> ASIOSocket \<Rightarrow> UDPHandler \<Rightarrow> AbstractPacket list \<Rightarrow> AbstractPacket list
      \<Rightarrow> unit result \<times> ASIOSocket \<times> UDPHandler" where
  "resend_loop env now sock h passed [] = (Inr (), sock, h\<lparr>m_AcksLeft_TX := passed\<rparr>)"
| "resend_loop env now sock h passed (pkt2ack # todo) =
     (if GetSendTime now pkt2ack > TIME_RESEND
      then (case SendPacket env now sock (h\<lparr>m_AcksLeft_TX := passed @ pkt2ack # todo\<rparr>) pkt2ack of
              (Inl e, sock, h', pkt') \<Rightarrow> (Inl e, sock, h'\<lparr>m_AcksLeft_TX := passed @ pkt' # todo\<rparr>)
            | (Inr _, sock, h', pkt') \<Rightarrow>
                if length (m_AcksLeft_TX h') \<noteq> length (passed @ pkt2ack # todo)
                then (Inl IteratorInvalidated, sock, h')
                else resend_loop env now sock h' (passed @ [pkt']) todo)
      else resend_loop env now sock h (passed @ [pkt2ack]) todo)"

definition ResendMissingPackets ::
    "env \<Rightarrow> int \<Rightarrow> ASIOSocket \<Rightarrow> UDPHandler \<Rightarrow> unit result \<times> ASIOSocket \<times> UDPHandler" where
  "ResendMissingPackets env now sock h = resend_loop env now sock h [] (m_AcksLeft_TX h)"

section \<open>Packets of either class\<close>

definition pkt_wf :: "AbstractPacket \<Rightarrow> bool" where
  "pkt_wf pkt = (case m_Derived pkt of S64 _ \<Rightarrow> S64_wf pkt | NetLib _ _ \<Rightarrow> NetLib_wf pkt)"

definition pkt_wire :: "AbstractPacket \<Rightarrow> byte list" where
  "pkt_wire pkt = (case m_Derived pkt of S64 _ \<Rightarrow> S64_wire pkt | NetLib _ _ \<Rightarrow> NetLib_wire pkt)"

definition reliable :: "AbstractPacket \<Rightarrow> bool" where
  "reliable pkt \<longleftrightarrow> m_Flags pkt AND FLAG_UNRELIABLE = 0"

abbreviation seqs :: "AbstractPacket list \<Rightarrow> u16 list" where
  "seqs \<equiv> map m_SequenceNum"

lemma GetAsBytes_wire:
  "alloc_ok env \<Longrightarrow> pkt_wf pkt \<Longrightarrow> GetAsBytes env pkt = Inr (Some (pkt_wire pkt))"
  by (auto simp: GetAsBytes_def pkt_wf_def pkt_wire_def S64_encode_wire NetLib_encode_wire
      split: derived.splits)

lemma GetAsBytes_Size_wire: "pkt_wf pkt \<Longrightarrow> unat (GetAsBytes_Size pkt) = length (pkt_wire pkt)"
  by (auto simp: GetAsBytes_Size_def pkt_wf_def pkt_wire_def S64_size NetLib_size length_wire
      S64_wf_def NetLib_wf_def split: derived.splits)

text \<open>Header fields do not touch well-formedness; send bookkeeping does not touch the wire.\<close>

lemma pkt_wf_setters [simp]:
  "pkt_wf (UpdateSendAttempt now pkt) = pkt_wf pkt" "pkt_wf (stamp env h pkt) = pkt_wf pkt"
  "pkt_wf (EnableFlags fl pkt) = pkt_wf pkt"
  by (simp_all add: pkt_wf_def S64_wf_def NetLib_wf_def pkt_inv_def packet_setters stamp_def
      split: derived.split)

lemma pkt_wire_attempt [simp]: "pkt_wire (UpdateSendAttempt now pkt) = pkt_wire pkt"
  by (simp add: pkt_wire_def S64_wire_def NetLib_wire_def packet_setters S64Packet_GetType_def
      NetLibPacket_GetType_def NetLibPacket_GetRecipients_def split: derived.split)

lemma stamp_simps [simp]:
  "m_SequenceNum (stamp env h pkt) = m_LocalSeqNum h" "m_Ack (stamp env h pkt) = m_RemoteSeqNum h"
  "m_AckBitField (stamp env h pkt) = ack_field env h" "m_Flags (stamp env h pkt) = m_Flags pkt"
  "m_SendAttempts (stamp env h pkt) = m_SendAttempts pkt" "m_Derived (stamp env h pkt) = m_Derived pkt"
  "m_Data (stamp env h pkt) = m_Data pkt" "m_SendTime (stamp env h pkt) = m_SendTime pkt"
  "m_Version (stamp env h pkt) = m_Version pkt" "m_Size (stamp env h pkt) = m_Size pkt"
  by (simp_all add: stamp_def packet_setters)

lemma attempt_simps [simp]:
  "m_SequenceNum (UpdateSendAttempt now pkt) = m_SequenceNum pkt"
  "m_Ack (UpdateSendAttempt now pkt) = m_Ack pkt"
  "m_AckBitField (UpdateSendAttempt now pkt) = m_AckBitField pkt"
  "m_Flags (UpdateSendAttempt now pkt) = m_Flags pkt"
  "m_Derived (UpdateSendAttempt now pkt) = m_Derived pkt"
  "m_SendAttempts (UpdateSendAttempt now pkt) = m_SendAttempts pkt + 1"
  "m_SendTime (UpdateSendAttempt now pkt) = now"
  by (simp_all add: packet_setters)

lemma reliable_simps [simp]:
  "reliable (UpdateSendAttempt now pkt) = reliable pkt" "reliable (stamp env h pkt) = reliable pkt"
  by (simp_all add: reliable_def)

section \<open>SendPacket\<close>

text \<open>The packet object after a call that got past the timeout check.\<close>

definition sent_form :: "env \<Rightarrow> int \<Rightarrow> UDPHandler \<Rightarrow> AbstractPacket \<Rightarrow> AbstractPacket" where
  "sent_form env now h pkt =
     (if m_SendAttempts pkt = 0 then stamp env h (UpdateSendAttempt now pkt)
      else UpdateSendAttempt now pkt)"

definition consume :: "UDPHandler \<Rightarrow> AbstractPacket \<Rightarrow> UDPHandler" where
  "consume h pkt = h\<lparr>m_AcksLeft_TX := m_AcksLeft_TX h @ [pkt], m_LocalSeqNum := m_LocalSeqNum h + 1\<rparr>"

definition transmit :: "UDPHandler \<Rightarrow> byte list \<Rightarrow> ASIOSocket \<Rightarrow> ASIOSocket" where
  "transmit h d sock = sock\<lparr>sock_sent := sock_sent sock @ [(m_Address h, m_Port h, d)]\<rparr>"

lemma after_increment:
  "u = int b \<Longrightarrow> b = (if a = 255 then 0 else a + 1) \<Longrightarrow> a < 256 \<Longrightarrow>
     u > MAX_RESENDCOUNT \<longleftrightarrow> 5 \<le> a \<and> a < (255 :: nat)"
  by (auto simp: MAX_RESENDCOUNT_def)

lemma unat_byte_incr: "unat (n + 1 :: byte) = (if unat n = 255 then 0 else unat n + 1)"
  using unsigned_less [of n, where 'a = nat] by (simp add: unat_word_ariths)

lemma attempts_bound: "uint (n + 1 :: byte) > MAX_RESENDCOUNT \<longleftrightarrow> 5 \<le> unat n \<and> unat n < 255"
  by (rule after_increment [OF _ unat_byte_incr]) (use unsigned_less [of n, where 'a = nat] in simp_all)

lemma attempts_first: "n + 1 = (1 :: byte) \<longleftrightarrow> n = 0"
  by simp

lemma ASIOSocket_Send_wire:
  "ASIOSocket_Send env sock (m_Address h) (m_Port h) d (length d) =
     (if env_send env (m_Address h) (m_Port h) d then (Inr (), transmit h d sock)
      else (Inl SystemError, sock))"
  by (simp add: ASIOSocket_Send_def rdn_whole transmit_def)

lemma sent_form_simps [simp]:
  "pkt_wf (sent_form env now h pkt) = pkt_wf pkt"
  "m_Flags (sent_form env now h pkt) = m_Flags pkt"
  "m_Derived (sent_form env now h pkt) = m_Derived pkt"
  "m_SendAttempts (sent_form env now h pkt) = m_SendAttempts pkt + 1"
  "m_SendTime (sent_form env now h pkt) = now"
  "reliable (sent_form env now h pkt) = reliable pkt"
  by (simp_all add: sent_form_def)

text \<open>The three outcomes of a send: timeout, exception of the socket, or transmission.\<close>

lemma SendPacket_cases:
  assumes "alloc_ok env" "pkt_wf pkt"
  shows "SendPacket env now sock h pkt =
    (if 5 \<le> unat (m_SendAttempts pkt) \<and> unat (m_SendAttempts pkt) < 255
     then (Inl (ClientTimeout (m_Address h @ '':'' @ dec_int (m_Port h))), sock, h,
           UpdateSendAttempt now pkt)
     else let pkt' = sent_form env now h pkt; d = pkt_wire pkt' in
       if \<not> env_send env (m_Address h) (m_Port h) d then (Inl SystemError, sock, h, pkt')
       else (Inr (), transmit h d sock,
             if reliable pkt \<and> m_SendAttempts pkt = 0 then consume h pkt' else h, pkt'))"
proof -
  have stamped: "(if GetSendAttempts (UpdateSendAttempt now pkt) = 1
      then stamp env h (UpdateSendAttempt now pkt) else UpdateSendAttempt now pkt) =
    sent_form env now h pkt"
    by (simp add: sent_form_def packet_getters attempts_first)
  have wf: "pkt_wf (sent_form env now h pkt)" using assms(2) by simp
  show ?thesis
    unfolding SendPacket_def Let_def stamped
    by (auto simp: GetAsBytes_wire [OF assms(1) wf] GetAsBytes_Size_wire [OF wf] attempts_bound
        ASIOSocket_Send_wire packet_getters attempts_first reliable_def consume_def
        sequence_increment_eq)
qed

text \<open>A new packet takes the next sequence number, the current ack and the current field.\<close>

lemma sent_form_new:
  "m_SendAttempts pkt = 0 \<Longrightarrow> sent_form env now h pkt = stamp env h (UpdateSendAttempt now pkt)"
  "m_SendAttempts pkt \<noteq> 0 \<Longrightarrow> sent_form env now h pkt = UpdateSendAttempt now pkt"
  by (simp_all add: sent_form_def)

text \<open>
  The shifts of the ack field stay inside the 32 bits of \<open>int\<close> as long as no packet in the
  received list is more than 32 numbers behind the newest one. Beyond that the field is what
  the machine makes of the shift, which is harmless only where that misses its 16 bits.
\<close>

definition shl_safe :: "env \<Rightarrow> UDPHandler \<Rightarrow> bool" where
  "shl_safe env h \<longleftrightarrow> (\<forall>p \<in> set (m_AcksLeft_RX h). ack_safe env (m_RemoteSeqNum h) (m_SequenceNum p))"

lemma bit_foldl_or:
  "bit (foldl (\<lambda>a p. a OR f p) a ps) k \<longleftrightarrow> bit a k \<or> (\<exists>p \<in> set ps. bit (f p) k)" for a :: u16
  by (induction ps arbitrary: a) (auto simp: bit_or_iff)

lemma bit_shl1:
  "0 \<le> c \<Longrightarrow> c < 32 \<or> (ucast (env_shl env c) :: u16) = 0 \<Longrightarrow> k < 16 \<Longrightarrow>
     bit (ucast (c_shl1 env c) :: u16) k \<longleftrightarrow> c = int k"
  by (cases "c < 32") (auto simp: c_shl1_def bit_simps simp del: push_bit_of_1 bit_ucast_iff)

lemma bit_ack_bit:
  assumes "ack_safe env r n" "k < 16"
  shows "bit (ack_bit env r n) k \<longleftrightarrow> unat (r - n) = k + 1"
proof (cases "sequence_greaterthan r n")
  case True
  then have d: "0 < uint (r - n)" using seq16.gt_half [of r n] by (simp add: sequence_delta_eq)
  have u: "uint (r - n) = int (unat (r - n))" by simp
  have "uint (r - n) - 1 < 32 \<or> (ucast (env_shl env (uint (r - n) - 1)) :: u16) = 0"
    using assms(1) unfolding ack_safe_def u by linarith
  from bit_shl1 [OF _ this assms(2)] have "bit (ack_bit env r n) k \<longleftrightarrow> uint (r - n) - 1 = int k"
    using d True unfolding ack_bit_def sequence_delta_eq by simp
  also have "\<dots> \<longleftrightarrow> int (unat (r - n)) = int (k + 1)" by (simp) linarith
  finally show ?thesis by (simp only: of_nat_eq_iff)
next
  case False
  have "int (unat (r - n)) \<noteq> int (k + 1)"
  proof
    assume "int (unat (r - n)) = int (k + 1)"
    then have "0 < sequence_delta (ucast r) (ucast n)" "sequence_delta (ucast r) (ucast n) < 32768"
      using assms(2) by (auto simp: sequence_delta_eq)
    with False seq16.gt_near [of r n] show False by simp
  qed
  then have "unat (r - n) \<noteq> k + 1" by (simp only: of_nat_eq_iff not_False_eq_True)
  moreover have "ack_bit env r n = 0" using False by (simp add: ack_bit_def)
  ultimately show ?thesis by simp
qed

lemma bit_ack_field:
  assumes "shl_safe env h" "k < 16"
  shows "bit (ack_field env h) k \<longleftrightarrow>
    (\<exists>p \<in> set (m_AcksLeft_RX h). unat (m_RemoteSeqNum h - m_SequenceNum p) = k + 1)"
  using assms unfolding ack_field_def bit_foldl_or packet_getters
  by (auto simp: shl_safe_def bit_ack_bit)

text \<open>Whatever the shifts for other packets give, the bit of a received packet is set.\<close>

lemma bit_ack_field_set:
  assumes "p \<in> set (m_AcksLeft_RX h)" "unat (m_RemoteSeqNum h - m_SequenceNum p) = k + 1" "k < 16"
  shows "bit (ack_field env h) k"
proof -
  have "ack_safe env (m_RemoteSeqNum h) (m_SequenceNum p)" using assms by (simp add: ack_safe_near)
  from bit_ack_bit [OF this assms(3)] show ?thesis
    using assms(1,2) unfolding ack_field_def bit_foldl_or packet_getters by blast
qed

lemma stamp_acks_received:
  assumes "n = m_RemoteSeqNum h \<or> unat (m_RemoteSeqNum h - n) \<le> 16 \<and> n \<in> set (seqs (m_AcksLeft_RX h))"
  shows "acks (stamp env h pkt) n"
proof (cases "n = m_RemoteSeqNum h")
  case False
  then obtain p where p: "p \<in> set (m_AcksLeft_RX h)" "n = m_SequenceNum p" "unat (m_RemoteSeqNum h - n) \<le> 16"
    using assms by auto
  moreover have "0 < unat (m_RemoteSeqNum h - n)" using False by (simp add: unat_gt_0)
  ultimately show ?thesis
    using bit_ack_field_set [OF p(1), of "unat (m_RemoteSeqNum h - n) - 1" env] by (simp add: acks_def)
qed (simp add: acks_def)

text \<open>What the header of a packet sent from handler \<open>h\<close> acknowledges.\<close>

lemma acks_stamp:
  assumes "shl_safe env h"
  shows "acks (stamp env h pkt) n \<longleftrightarrow> n = m_RemoteSeqNum h \<or>
    unat (m_RemoteSeqNum h - n) \<le> 16 \<and> n \<in> set (seqs (m_AcksLeft_RX h))"
proof (cases "n = m_RemoteSeqNum h")
  case False
  then have d: "0 < unat (m_RemoteSeqNum h - n)" by (simp add: unat_gt_0)
  have eq: "unat (m_RemoteSeqNum h - m) = unat (m_RemoteSeqNum h - n) \<longleftrightarrow> m = n" for m
    by (simp add: word_unat_eq_iff [symmetric])
  show ?thesis
  proof (cases "unat (m_RemoteSeqNum h - n) \<le> 16")
    case True
    then have "unat (m_RemoteSeqNum h - n) - 1 < 16" using d by linarith
    from bit_ack_field [OF assms this] show ?thesis
      using False True d by (auto simp: acks_def eq)
  qed (use False in \<open>simp add: acks_def\<close>)
qed (simp add: acks_def)

section \<open>HandlePacketSequence\<close>

text \<open>The handler after a packet that is not in the received list, before any answer.\<close>

definition accept :: "env \<Rightarrow> UDPHandler \<Rightarrow> AbstractPacket \<Rightarrow> UDPHandler" where
  "accept env h pkt =
     h\<lparr>m_AcksLeft_TX := filter (\<lambda>p. \<not> IsAcked env pkt (m_SequenceNum p)) (m_AcksLeft_TX h),
       m_RemoteSeqNum := newer sequence_greaterthan (m_RemoteSeqNum h) (m_SequenceNum pkt),
       m_AcksLeft_RX := (if reliable pkt then push_received pkt (m_AcksLeft_RX h)
                         else m_AcksLeft_RX h)\<rparr>"

definition explicit :: "AbstractPacket \<Rightarrow> bool" where
  "explicit pkt \<longleftrightarrow> m_Flags pkt AND FLAG_EXPLICITACK \<noteq> 0"

definition duplicate :: "UDPHandler \<Rightarrow> AbstractPacket \<Rightarrow> bool" where
  "duplicate h pkt \<longleftrightarrow> m_SequenceNum pkt \<in> set (seqs (m_AcksLeft_RX h))"

lemma HandlePacketSequence_eq:
  "HandlePacketSequence env now sock h pkt ackmaker =
    (let fresh = \<not> duplicate h pkt; h' = (if fresh then accept env h pkt else h) in
     if explicit pkt
     then (case send_ack env now sock h' ackmaker of (r, s, h'') \<Rightarrow> (rbind r (\<lambda>_. Inr fresh), s, h''))
     else (Inr fresh, sock, h'))"
proof -
  have acc: "accept env h pkt =
    (let h = h\<lparr>m_AcksLeft_TX := remove_acked env pkt (m_AcksLeft_TX h)\<rparr>;
         h = (if sequence_greaterthan (GetSequenceNumber pkt) (m_RemoteSeqNum h)
              then h\<lparr>m_RemoteSeqNum := GetSequenceNumber pkt\<rparr> else h)
     in if GetFlags pkt AND FLAG_UNRELIABLE = 0
        then h\<lparr>m_AcksLeft_RX := push_received pkt (m_AcksLeft_RX h)\<rparr> else h)"
    by (simp add: accept_def remove_acked_def packet_getters reliable_def newer_def Let_def)
  have dup: "list_ex (\<lambda>rxpkt. GetSequenceNumber rxpkt = GetSequenceNumber pkt) (m_AcksLeft_RX h)
      \<longleftrightarrow> duplicate h pkt"
    by (auto simp: list_ex_iff duplicate_def packet_getters intro: rev_image_eqI)
  show ?thesis
    unfolding HandlePacketSequence_def acc dup
    by (simp add: Let_def explicit_def packet_getters)
qed

text \<open>An ack consumes no sequence number and is not waited for.\<close>

definition is_ackmaker :: "(env \<Rightarrow> AbstractPacket result) \<Rightarrow> bool" where
  "is_ackmaker mk \<longleftrightarrow> (\<forall>env. \<exists>ack. mk env = Inr ack \<and> pkt_wf ack \<and> \<not> reliable ack \<and>
     \<not> explicit ack \<and> m_SendAttempts ack = 0 \<and> IsAckBeat ack)"

lemma is_ackmaker [simp]: "is_ackmaker MakeAck_S64Packet" "is_ackmaker MakeAck_NetLibPacket"
  by (simp_all add: is_ackmaker_def MakeAck_eq pkt_wf_def S64_wf_def NetLib_wf_def pkt_inv_def
      S64PACKET_VERSION_def NETLIBPACKET_VERSION_def reliable_def FLAG_UNRELIABLE_def explicit_def
      FLAG_EXPLICITACK_def IsAckBeat_def S64Packet_IsAckBeat_def S64Packet_GetType_def
      NetLibPacket_IsAckBeat_def NetLibPacket_GetType_def)

lemma send_ack_cases:
  assumes "alloc_ok env" "is_ackmaker mk"
  obtains ack where "mk env = Inr ack" "\<not> reliable ack" "IsAckBeat ack"
    "send_ack env now sock h mk =
       (if env_send env (m_Address h) (m_Port h) (pkt_wire (stamp env h ack))
        then (Inr (), transmit h (pkt_wire (stamp env h ack)) sock, h)
        else (Inl SystemError, sock, h))"
proof -
  obtain ack where ack: "mk env = Inr ack" "pkt_wf ack" "\<not> reliable ack" "m_SendAttempts ack = 0"
      "IsAckBeat ack"
    using assms(2) unfolding is_ackmaker_def by blast
  have w: "pkt_wire (stamp env h (UpdateSendAttempt now ack)) = pkt_wire (stamp env h ack)"
    by (simp add: pkt_wire_def S64_wire_def NetLib_wire_def packet_setters S64Packet_GetType_def
      NetLibPacket_GetType_def NetLibPacket_GetRecipients_def stamp_def split: derived.split)
  show thesis
    by (rule that [OF ack(1,3,5)])
      (simp add: send_ack_def ack SendPacket_cases [OF assms(1) ack(2)] sent_form_def w Let_def)
qed

text \<open>The outcome of a received packet when the socket accepts what is sent.\<close>

definition can_send :: "env \<Rightarrow> UDPHandler \<Rightarrow> bool" where
  "can_send env h \<longleftrightarrow> (\<forall>d. env_send env (m_Address h) (m_Port h) d)"

lemma can_send_x86 [simp]: "can_send env_x86 h"
  by (simp_all add: can_send_def)

lemma handler_address_simps [simp]:
  "m_Address (accept env h pkt) = m_Address h" "m_Port (accept env h pkt) = m_Port h"
  "m_Address (consume h pkt) = m_Address h" "m_Port (consume h pkt) = m_Port h"
  "m_LocalSeqNum (accept env h pkt) = m_LocalSeqNum h"
  by (simp_all add: accept_def consume_def)

lemma can_send_simps [simp]:
  "can_send env (accept env' h pkt) = can_send env h" "can_send env (consume h pkt) = can_send env h"
  by (simp_all add: can_send_def)

lemma HandlePacketSequence_state:
  assumes "alloc_ok env" "is_ackmaker mk"
  shows "snd (snd (HandlePacketSequence env now sock h pkt mk)) =
    (if duplicate h pkt then h else accept env h pkt)"
proof -
  define h' where "h' = (if duplicate h pkt then h else accept env h pkt)"
  obtain ack where a: "send_ack env now sock h' mk =
       (if env_send env (m_Address h') (m_Port h') (pkt_wire (stamp env h' ack))
        then (Inr (), transmit h' (pkt_wire (stamp env h' ack)) sock, h')
        else (Inl SystemError, sock, h'))"
    by (rule send_ack_cases [OF assms, of now sock h'])
  have "(if \<not> duplicate h pkt then accept env h pkt else h) = h'" by (simp add: h'_def)
  then show ?thesis
    unfolding HandlePacketSequence_eq Let_def using a
    by (simp add: h'_def [symmetric] split: prod.split)
qed

lemma HandlePacketSequence_result:
  assumes "alloc_ok env" "is_ackmaker mk" "can_send env h"
  shows "fst (HandlePacketSequence env now sock h pkt mk) = Inr (\<not> duplicate h pkt)"
proof -
  define h' where "h' = (if duplicate h pkt then h else accept env h pkt)"
  obtain ack where a: "send_ack env now sock h' mk =
       (if env_send env (m_Address h') (m_Port h') (pkt_wire (stamp env h' ack))
        then (Inr (), transmit h' (pkt_wire (stamp env h' ack)) sock, h')
        else (Inl SystemError, sock, h'))"
    by (rule send_ack_cases [OF assms(1,2), of now sock h'])
  have "(if \<not> duplicate h pkt then accept env h pkt else h) = h'" by (simp add: h'_def)
  moreover have "can_send env h'" using assms(3) by (simp add: h'_def)
  ultimately show ?thesis
    unfolding HandlePacketSequence_eq Let_def using a
    by (simp add: can_send_def split: prod.split)
qed

section \<open>Reading packets\<close>

text \<open>
  The two read functions as one operation over the class: the packet the bytes parse to,
  then the sequence handling.
\<close>

lemma ReadS64Packet_state:
  assumes "alloc_ok env"
  shows "snd (snd (ReadS64Packet env now sock h data)) = h \<or>
    (\<exists>pkt. S64Packet_FromBytes env data = Inr (Some pkt) \<and> \<not> duplicate h pkt \<and>
       snd (snd (ReadS64Packet env now sock h data)) = accept env h pkt)"
  using HandlePacketSequence_state [OF assms is_ackmaker(1), of now sock h]
  by (auto simp: ReadS64Packet_def split: result_splits bool.splits) (metis snd_conv)+

lemma ReadNetLibPacket_state:
  assumes "alloc_ok env"
  shows "snd (snd (ReadNetLibPacket env now sock h data)) = h \<or>
    (\<exists>pkt. NetLibPacket_FromBytes env data = Inr (Some pkt) \<and> \<not> duplicate h pkt \<and>
       snd (snd (ReadNetLibPacket env now sock h data)) = accept env h pkt)"
  using HandlePacketSequence_state [OF assms is_ackmaker(2), of now sock h]
  by (auto simp: ReadNetLibPacket_def split: result_splits bool.splits) (metis snd_conv)+

lemma ReadNetLibPacket_Some:
  "fst (ReadNetLibPacket env now sock h data) = Inr (Some pkt) \<Longrightarrow>
     NetLibPacket_FromBytes env data = Inr (Some pkt) \<and> \<not> duplicate h pkt"
  by (auto simp: ReadNetLibPacket_def HandlePacketSequence_eq Let_def rbind_Inr_iff
      split: result_splits bool.splits)

lemma ReadS64Packet_Some:
  "fst (ReadS64Packet env now sock h data) = Inr (Some pkt) \<Longrightarrow>
     S64Packet_FromBytes env data = Inr (Some pkt) \<and> \<not> duplicate h pkt"
  by (auto simp: ReadS64Packet_def HandlePacketSequence_eq Let_def rbind_Inr_iff
      split: result_splits bool.splits)

section \<open>The received list\<close>

lemma length_push_received: "length rx \<le> 18 \<Longrightarrow> length (push_received pkt rx) \<le> 18"
  by (auto simp: push_received_def)

lemma set_push_received: "set (push_received pkt rx) \<subseteq> insert pkt (set rx)"
  by (cases rx) (auto simp: push_received_def)

lemma distinct_push_received:
  "distinct (seqs rx) \<Longrightarrow> m_SequenceNum pkt \<notin> set (seqs rx) \<Longrightarrow> distinct (seqs (push_received pkt rx))"
  by (cases rx) (auto simp: push_received_def)

text \<open>Pushing is taking the last 18 of a growing history: an entry leaves only when 18
  later ones have arrived.\<close>

definition last_n :: "nat \<Rightarrow> 'a list \<Rightarrow> 'a list" where
  "last_n n xs = drop (length xs - n) xs"

lemma push_received_last_n: "push_received pkt (last_n 18 hist) = last_n 18 (hist @ [pkt])"
proof (cases "17 < length hist - (length hist - 18)")
  case True
  then have "Suc (length hist - 18) = length hist - 17" by linarith
  then have "tl (drop (length hist - 18) hist) = drop (length hist - 17) hist"
    by (simp add: tl_drop flip: drop_Suc)
  with True show ?thesis by (simp add: push_received_def last_n_def)
next
  case False
  then have "length hist \<le> 17" by linarith
  then show ?thesis by (simp add: push_received_def last_n_def)
qed

lemma last_n_recent: "length zs < n \<Longrightarrow> x \<in> set (last_n n (ys @ x # zs))"
  by (auto simp: last_n_def)

section \<open>Reading a stream of datagrams\<close>

text \<open>The packets that the calls of \<open>ReadNetLibPacket\<close> on a series of datagrams return.\<close>

fun read_all ::
    "env \<Rightarrow> int \<Rightarrow> ASIOSocket \<Rightarrow> UDPHandler \<Rightarrow> byte list list \<Rightarrow> AbstractPacket list" where
  "read_all env now sock h [] = []"
| "read_all env now sock h (d # ds) =
     (case ReadNetLibPacket env now sock h d of (r, sock', h') \<Rightarrow>
        (case r of Inr (Some pkt) \<Rightarrow> [pkt] | _ \<Rightarrow> []) @ read_all env now sock' h' ds)"

text \<open>Any two entries with the same sequence number are more than 18 apart.\<close>

definition spaced :: "AbstractPacket list \<Rightarrow> bool" where
  "spaced rs \<longleftrightarrow> (\<forall>i j. i < j \<longrightarrow> j < length rs \<longrightarrow>
     m_SequenceNum (rs ! i) = m_SequenceNum (rs ! j) \<longrightarrow> i + 18 < j)"

lemma nth_in_last_n: "i < length xs \<Longrightarrow> length xs \<le> i + n \<Longrightarrow> xs ! i \<in> set (last_n n xs)"
  unfolding last_n_def in_set_conv_nth by (rule exI [of _ "i - (length xs - n)"]) auto

lemma spaced_snoc:
  assumes "spaced rs" "m_SequenceNum pkt \<notin> set (seqs (last_n 18 rs))"
  shows "spaced (rs @ [pkt])"
  unfolding spaced_def
proof (intro allI impI)
  fix i j
  assume ij: "i < j" "j < length (rs @ [pkt])"
    and eq: "m_SequenceNum ((rs @ [pkt]) ! i) = m_SequenceNum ((rs @ [pkt]) ! j)"
  show "i + 18 < j"
  proof (cases "j < length rs")
    case True
    then show ?thesis using ij eq assms(1) by (simp add: spaced_def nth_append)
  next
    case False
    then have "j = length rs" "i < length rs" using ij by simp_all
    then have "m_SequenceNum (rs ! i) = m_SequenceNum pkt" using eq by (simp add: nth_append)
    with assms(2) nth_in_last_n [of i rs 18] \<open>i < length rs\<close> have "\<not> length rs \<le> i + 18"
      by (metis image_eqI set_map)
    with \<open>j = length rs\<close> show ?thesis by simp
  qed
qed

lemma ReadNetLibPacket_step:
  assumes "alloc_ok env" "can_send env h" "ReadNetLibPacket env now sock h d = (r, sock', h')"
  shows "can_send env h' \<and>
    (case r of Inr (Some pkt) \<Rightarrow> \<not> duplicate h pkt \<and> h' = accept env h pkt | _ \<Rightarrow> h' = h)"
proof (cases "(\<exists>pkt. NetLibPacket_FromBytes env d = Inr (Some pkt)) \<and> IsNetLibPacket d = Inr True")
  case True
  then obtain pkt where pkt: "NetLibPacket_FromBytes env d = Inr (Some pkt)" "IsNetLibPacket d = Inr True"
    by blast
  obtain b s k where H: "HandlePacketSequence env now sock h pkt MakeAck_NetLibPacket = (b, s, k)"
    by (cases "HandlePacketSequence env now sock h pkt MakeAck_NetLibPacket") auto
  have "b = Inr (\<not> duplicate h pkt)" "k = (if duplicate h pkt then h else accept env h pkt)"
    using HandlePacketSequence_result [OF assms(1) is_ackmaker(2) assms(2), of now sock pkt]
      HandlePacketSequence_state [OF assms(1) is_ackmaker(2), of now sock h pkt]
    by (simp_all add: H)
  then show ?thesis
    using assms(2,3) by (auto simp: ReadNetLibPacket_def pkt H split: if_splits)
next
  case False
  then show ?thesis
    using assms(2,3) by (auto simp: ReadNetLibPacket_def split: sum.splits option.splits bool.splits)
qed

lemma read_all_spaced:
  assumes "alloc_ok env" "can_send env h" "m_AcksLeft_RX h = last_n 18 hist" "spaced hist"
  shows "spaced (hist @ filter reliable (read_all env now sock h ds))"
  using assms(2-)
proof (induction ds arbitrary: sock h hist)
  case (Cons d ds)
  obtain r sock' h' where r: "ReadNetLibPacket env now sock h d = (r, sock', h')"
    by (cases "ReadNetLibPacket env now sock h d") auto
  note step = ReadNetLibPacket_step [OF assms(1) Cons.prems(1) r]
  show ?case
  proof (cases "\<exists>pkt. r = Inr (Some pkt)")
    case True
    then obtain pkt where pkt: "r = Inr (Some pkt)" by blast
    then have h': "\<not> duplicate h pkt" "h' = accept env h pkt" using step by simp_all
    define new where "new = (if reliable pkt then [pkt] else [])"
    have "m_AcksLeft_RX h' = last_n 18 (hist @ new)"
      using h'(2) Cons.prems(2) push_received_last_n [of pkt hist]
      by (simp add: accept_def new_def)
    moreover have "spaced (hist @ new)"
      using spaced_snoc [OF Cons.prems(3), of pkt] h'(1) Cons.prems(2,3)
      by (simp add: duplicate_def new_def)
    ultimately have "spaced ((hist @ new) @ filter reliable (read_all env now sock' h' ds))"
      using Cons.IH step by blast
    then show ?thesis by (simp add: r pkt new_def split: if_splits)
  next
    case False
    with step have "h' = h" by (auto split: sum.splits option.splits)
    moreover have "read_all env now sock h (d # ds) = read_all env now sock' h' ds"
      using False by (auto simp: r split: sum.splits option.splits)
    ultimately show ?thesis using Cons.IH Cons.prems by simp
  qed
qed simp

section \<open>ResendMissingPackets\<close>

definition due :: "int \<Rightarrow> AbstractPacket \<Rightarrow> bool" where
  "due now pkt \<longleftrightarrow> now - m_SendTime pkt > TIME_RESEND"

definition live_upto :: "nat \<Rightarrow> AbstractPacket \<Rightarrow> bool" where
  "live_upto m pkt \<longleftrightarrow> pkt_wf pkt \<and> reliable pkt \<and> 1 \<le> unat (m_SendAttempts pkt) \<and>
     unat (m_SendAttempts pkt) \<le> m"

text \<open>A pending packet that has not been given up.\<close>

abbreviation live :: "AbstractPacket \<Rightarrow> bool" where
  "live \<equiv> live_upto 5"

definition exhausted :: "AbstractPacket \<Rightarrow> bool" where
  "exhausted pkt \<longleftrightarrow> unat (m_SendAttempts pkt) = 5"

definition retry :: "int \<Rightarrow> AbstractPacket \<Rightarrow> AbstractPacket" where
  "retry now pkt = (if due now pkt then UpdateSendAttempt now pkt else pkt)"

text \<open>One packet of the list that is due: sent again unchanged, or given up.\<close>

lemma SendPacket_again:
  assumes "alloc_ok env" "can_send env h" "live pkt"
  shows "SendPacket env now sock h pkt =
    (if exhausted pkt
     then (Inl (ClientTimeout (m_Address h @ '':'' @ dec_int (m_Port h))), sock, h,
           UpdateSendAttempt now pkt)
     else (Inr (), transmit h (pkt_wire pkt) sock, h, UpdateSendAttempt now pkt))"
proof -
  have "m_SendAttempts pkt \<noteq> 0" using assms(3) by (auto simp: live_upto_def)
  then show ?thesis
    using assms by (auto simp: SendPacket_cases live_upto_def exhausted_def sent_form_def can_send_def Let_def)
qed

definition transmit_all :: "UDPHandler \<Rightarrow> byte list list \<Rightarrow> ASIOSocket \<Rightarrow> ASIOSocket" where
  "transmit_all h ds sock =
     sock\<lparr>sock_sent := sock_sent sock @ map (\<lambda>d. (m_Address h, m_Port h, d)) ds\<rparr>"

lemma transmit_all_simps [simp]:
  "transmit_all h [] sock = sock"
  "transmit_all h ds (transmit h d sock) = transmit_all h (d # ds) sock"
  by (simp_all add: transmit_all_def transmit_def)

lemma resend_loop_ok:
  assumes "alloc_ok env" "can_send env h" "list_all live todo"
    and "\<forall>p \<in> set todo. due now p \<longrightarrow> \<not> exhausted p"
  shows "resend_loop env now sock h passed todo =
    (Inr (), transmit_all h (map pkt_wire (filter (due now) todo)) sock,
     h\<lparr>m_AcksLeft_TX := passed @ map (retry now) todo\<rparr>)"
  using assms(2-)
proof (induction todo arbitrary: sock h "passed")
  case (Cons p todo)
  let ?h = "h\<lparr>m_AcksLeft_TX := passed @ p # todo\<rparr>"
  have cs: "can_send env ?h" using Cons.prems(1) by (simp add: can_send_def)
  have live: "live p" "list_all live todo" using Cons.prems(2) by simp_all
  show ?case
  proof (cases "due now p")
    case True
    then have "SendPacket env now sock ?h p =
        (Inr (), transmit ?h (pkt_wire p) sock, ?h, UpdateSendAttempt now p)"
      using SendPacket_again [OF assms(1) cs live(1)] Cons.prems(3) by simp
    then show ?thesis
      using True Cons.IH [OF cs live(2)] Cons.prems(3)
      by (simp add: due_def GetSendTime_def retry_def transmit_all_def transmit_def)
  next
    case False
    then show ?thesis
      using Cons.IH [OF Cons.prems(1) live(2)] Cons.prems(3)
      by (simp add: due_def GetSendTime_def retry_def)
  qed
qed simp

text \<open>
  A due packet that has had its five attempts raises the timeout: the packets before it were
  sent, the ones behind it were not.
\<close>

lemma resend_loop_timeout:
  assumes "alloc_ok env" "can_send env h" "list_all live todo"
    and "todo = before @ p # after" "due now p" "exhausted p"
    and "\<forall>q \<in> set before. due now q \<longrightarrow> \<not> exhausted q"
  shows "resend_loop env now sock h passed todo =
    (Inl (ClientTimeout (m_Address h @ '':'' @ dec_int (m_Port h))),
     transmit_all h (map pkt_wire (filter (due now) before)) sock,
     h\<lparr>m_AcksLeft_TX := passed @ map (retry now) before @ UpdateSendAttempt now p # after\<rparr>)"
  using assms(2-)
proof (induction before arbitrary: todo sock h "passed")
  case Nil
  let ?h = "h\<lparr>m_AcksLeft_TX := passed @ p # after\<rparr>"
  have cs: "can_send env ?h" using Nil.prems(1) by (simp add: can_send_def)
  show ?case
    using Nil SendPacket_again [OF assms(1) cs, of p] by (simp add: due_def GetSendTime_def)
next
  case (Cons q before)
  let ?h = "h\<lparr>m_AcksLeft_TX := passed @ q # before @ p # after\<rparr>"
  have cs: "can_send env ?h" using Cons.prems(1) by (simp add: can_send_def)
  have live: "live q" "list_all live (before @ p # after)" using Cons.prems(2,3) by simp_all
  show ?case
  proof (cases "due now q")
    case True
    then have "SendPacket env now sock ?h q =
        (Inr (), transmit ?h (pkt_wire q) sock, ?h, UpdateSendAttempt now q)"
      using SendPacket_again [OF assms(1) cs live(1)] Cons.prems(6) by simp
    then show ?thesis
      using True Cons.IH [OF cs live(2)] Cons.prems(3-)
      by (simp add: due_def GetSendTime_def retry_def transmit_all_def transmit_def)
  next
    case False
    then show ?thesis
      using Cons.IH [OF Cons.prems(1) live(2)] Cons.prems(3-)
      by (simp add: due_def GetSendTime_def retry_def)
  qed
qed

lemma ResendMissingPackets_ok:
  assumes "alloc_ok env" "can_send env h" "list_all live (m_AcksLeft_TX h)"
    and "\<forall>p \<in> set (m_AcksLeft_TX h). due now p \<longrightarrow> \<not> exhausted p"
  shows "ResendMissingPackets env now sock h =
    (Inr (), transmit_all h (map pkt_wire (filter (due now) (m_AcksLeft_TX h))) sock,
     h\<lparr>m_AcksLeft_TX := map (retry now) (m_AcksLeft_TX h)\<rparr>)"
  using resend_loop_ok [OF assms, of sock "[]"] by (simp add: ResendMissingPackets_def)

lemma ResendMissingPackets_timeout:
  assumes "alloc_ok env" "can_send env h" "list_all live (m_AcksLeft_TX h)"
    and "m_AcksLeft_TX h = before @ p # after" "due now p" "exhausted p"
    and "\<forall>q \<in> set before. due now q \<longrightarrow> \<not> exhausted q"
  shows "ResendMissingPackets env now sock h =
    (Inl (ClientTimeout (m_Address h @ '':'' @ dec_int (m_Port h))),
     transmit_all h (map pkt_wire (filter (due now) before)) sock,
     h\<lparr>m_AcksLeft_TX := map (retry now) before @ UpdateSendAttempt now p # after\<rparr>)"
  using resend_loop_timeout [OF assms, of sock "[]"] by (simp add: ResendMissingPackets_def)

text \<open>
  Whatever the socket does, a resend touches nothing but the attempt counters of the pending
  packets, and no counter passes five unless the call ends with the timeout exception.
\<close>

definition timed_out :: "'a result \<Rightarrow> bool" where
  "timed_out r \<longleftrightarrow> (\<exists>host. r = Inl (ClientTimeout host))"

lemma timed_out_simps [simp]:
  "\<not> timed_out (Inr a)" "timed_out (Inl (ClientTimeout host))" "\<not> timed_out (Inl SystemError)"
  by (simp_all add: timed_out_def)

lemma live_upto_mono: "list_all (live_upto m) ps \<Longrightarrow> m \<le> m' \<Longrightarrow> list_all (live_upto m') ps"
  by (auto simp: list_all_iff live_upto_def)

lemma resend_loop_keeps:
  assumes "alloc_ok env" "5 \<le> m" "m < 255" "list_all (live_upto m) passed" "list_all (live_upto m) todo"
    and "resend_loop env now sock h passed todo = (r, sock', h')"
  shows "\<exists>tx. h' = h\<lparr>m_AcksLeft_TX := tx\<rparr> \<and> seqs tx = seqs (passed @ todo) \<and>
    list_all (live_upto (if timed_out r then m + 1 else m)) tx"
  using assms(4-)
proof (induction todo arbitrary: sock h passed)
  case Nil
  then show ?case by (intro exI [of _ passed]) auto
next
  case (Cons p todo)
  let ?h = "h\<lparr>m_AcksLeft_TX := passed @ p # todo\<rparr>" and ?p = "UpdateSendAttempt now p"
  have p: "live_upto m p" "list_all (live_upto m) todo" "pkt_wf p" "m_SendAttempts p \<noteq> 0"
    "unat (m_SendAttempts p) < 255"
    using Cons.prems(2) assms(3) live_upto_def [of m p] by auto
  have next_attempt: "unat (m_SendAttempts p + 1) = unat (m_SendAttempts p) + 1"
    using p(5) by (simp add: unat_byte_incr)
  consider (skip) "\<not> due now p" | (spent) "due now p" "5 \<le> unat (m_SendAttempts p)"
    | (again) "due now p" "unat (m_SendAttempts p) < 5" by linarith
  then show ?case
  proof cases
    case skip
    then have "resend_loop env now sock h (passed @ [p]) todo = (r, sock', h')"
      using Cons.prems(3) by (simp add: due_def GetSendTime_def)
    then show ?thesis using Cons.IH [of "passed @ [p]" sock h] Cons.prems(1) p(1,2) by simp
  next
    case spent
    then have "r = Inl (ClientTimeout (m_Address h @ '':'' @ dec_int (m_Port h)))"
      and "h' = h\<lparr>m_AcksLeft_TX := passed @ ?p # todo\<rparr>"
      using Cons.prems(3) p(5)
      by (simp_all add: SendPacket_cases [OF assms(1) p(3)] due_def GetSendTime_def)
    moreover have "live_upto (m + 1) ?p" using p(1) by (simp add: live_upto_def next_attempt)
    ultimately show ?thesis
      using live_upto_mono [OF Cons.prems(1), of "m + 1"] live_upto_mono [OF p(2), of "m + 1"]
      by (intro exI [of _ "passed @ ?p # todo"]) simp
  next
    case again
    then have l: "list_all (live_upto m) (passed @ [?p])"
      using Cons.prems(1) live_upto_def [of m p] live_upto_def [of m ?p] p(1) assms(2)
      by (simp add: next_attempt)
    have send: "SendPacket env now sock ?h p =
        (if env_send env (m_Address h) (m_Port h) (pkt_wire p)
         then (Inr (), transmit ?h (pkt_wire p) sock, ?h, ?p)
         else (Inl SystemError, sock, ?h, ?p))"
      using again(2) p(4) by (simp add: SendPacket_cases [OF assms(1) p(3)] sent_form_def Let_def)
    show ?thesis
    proof (cases "env_send env (m_Address h) (m_Port h) (pkt_wire p)")
      case True
      with again(1) Cons.prems(3)
      have "resend_loop env now (transmit ?h (pkt_wire p) sock) ?h (passed @ [?p]) todo = (r, sock', h')"
        by (simp add: send due_def GetSendTime_def)
      from Cons.IH [OF l p(2) this] show ?thesis by simp
    next
      case False
      with again(1) Cons.prems(3) have "r = Inl SystemError" "h' = h\<lparr>m_AcksLeft_TX := passed @ ?p # todo\<rparr>"
        by (simp_all add: send due_def GetSendTime_def)
      with l p(2) show ?thesis by (intro exI [of _ "passed @ ?p # todo"]) simp
    qed
  qed
qed

section \<open>The handler as a machine\<close>

text \<open>
  The calls the client's threads make on a handler, in any order and with any clock readings.
  A packet is handed to \<open>SendPacket\<close> once, right after its construction. A call that throws
  \<open>ClientTimeout\<close> leaves the packet it gave up in the list, with its counter raised: the state
  counts those calls, so that histories which go on after one are covered too.
\<close>

datatype udp_op = OpSend int AbstractPacket | OpReadS64 int "byte list" | OpReadNetLib int "byte list"
  | OpResend int

type_synonym udp_state = "nat \<times> ASIOSocket \<times> UDPHandler"

definition after_call :: "nat \<Rightarrow> 'a result \<times> ASIOSocket \<times> UDPHandler \<Rightarrow> udp_state" where
  "after_call n = (\<lambda>(r, sock, h). (if timed_out r then n + 1 else n, sock, h))"

fun udp_step :: "env \<Rightarrow> udp_op \<Rightarrow> udp_state \<Rightarrow> udp_state" where
  "udp_step env (OpSend now pkt) (n, sock, h) =
     (case SendPacket env now sock h pkt of (r, sock, h, _) \<Rightarrow> after_call n (r, sock, h))"
| "udp_step env (OpReadS64 now data) (n, sock, h) = after_call n (ReadS64Packet env now sock h data)"
| "udp_step env (OpReadNetLib now data) (n, sock, h) = after_call n (ReadNetLibPacket env now sock h data)"
| "udp_step env (OpResend now) (n, sock, h) = after_call n (ResendMissingPackets env now sock h)"

fun udp_ok :: "udp_state \<Rightarrow> udp_op \<Rightarrow> bool" where
  "udp_ok _ (OpSend now pkt) \<longleftrightarrow> pkt_wf pkt \<and> m_SendAttempts pkt = 0"
| "udp_ok _ _ \<longleftrightarrow> True"

definition handler_upto :: "nat \<Rightarrow> UDPHandler \<Rightarrow> bool" where
  "handler_upto m h \<longleftrightarrow> length (m_AcksLeft_RX h) \<le> 18 \<and> distinct (seqs (m_AcksLeft_RX h)) \<and>
     list_all reliable (m_AcksLeft_RX h) \<and> list_all (live_upto m) (m_AcksLeft_TX h)"

abbreviation handler_inv :: "UDPHandler \<Rightarrow> bool" where
  "handler_inv \<equiv> handler_upto 5"

lemma handler_inv_new [simp]: "handler_upto m (new_UDPHandler address port)"
  by (simp add: handler_upto_def new_UDPHandler_def)

lemma handler_inv_accept: "handler_upto m h \<Longrightarrow> \<not> duplicate h pkt \<Longrightarrow> handler_upto m (accept env h pkt)"
  using set_push_received [of pkt "m_AcksLeft_RX h"]
  by (auto simp: handler_upto_def accept_def duplicate_def length_push_received
      distinct_push_received list_all_iff)

lemma handler_inv_send:
  assumes "alloc_ok env" "1 \<le> m" "handler_upto m h" "pkt_wf pkt" "m_SendAttempts pkt = 0"
  shows "handler_upto m (fst (snd (snd (SendPacket env now sock h pkt))))"
  using assms by (auto simp: SendPacket_cases Let_def consume_def handler_upto_def live_upto_def)

lemma handler_upto_resend:
  assumes "alloc_ok env" "5 \<le> m" "m < 255" "handler_upto m h"
    and "ResendMissingPackets env now sock h = (r, sock', h')"
  shows "handler_upto (if timed_out r then m + 1 else m) h'"
  using resend_loop_keeps [OF assms(1-3), of "[]" "m_AcksLeft_TX h" now sock h r sock' h'] assms(4,5)
  by (auto simp: ResendMissingPackets_def handler_upto_def)

text \<open>The state after \<open>n\<close> timeouts, as long as the counters are far from the end of their byte.\<close>

definition udp_inv :: "udp_state \<Rightarrow> bool" where
  "udp_inv = (\<lambda>(n, sock, h). n < 250 \<longrightarrow> handler_upto (5 + n) h)"

lemma handler_upto_mono: "handler_upto m h \<Longrightarrow> m \<le> m' \<Longrightarrow> handler_upto m' h"
  using live_upto_mono [of m "m_AcksLeft_TX h" m'] by (simp add: handler_upto_def)

lemma udp_inv_after:
  assumes "\<And>m. handler_upto m h \<Longrightarrow> 5 \<le> m \<Longrightarrow> handler_upto m h'"
    "udp_inv (n, sock, h)"
  shows "udp_inv (after_call n (r, sock', h'))"
  using assms handler_upto_mono [of "5 + n" h' "6 + n"]
  by (auto simp: after_call_def udp_inv_def split: if_splits)

lemma udp_step_inv:
  assumes "alloc_ok env" "udp_inv s" "udp_ok s op"
  shows "udp_inv (udp_step env op s)"
proof (cases s)
  case (fields n sock h)
  have inv: "udp_inv (n, sock, h)" using assms(2) by (simp add: fields)
  show ?thesis
  proof (cases op)
    case (OpSend now pkt)
    obtain r sock' h' pkt' where S: "SendPacket env now sock h pkt = (r, sock', h', pkt')"
      using prod_cases4 by blast
    have keep: "handler_upto m h'" if "handler_upto m h" "5 \<le> m" for m
      using handler_inv_send [OF assms(1) _ that(1), of pkt now sock] that(2) assms(3)
      by (simp add: OpSend fields S)
    then show ?thesis using udp_inv_after [OF keep inv] by (simp add: fields OpSend S)
  next
    case (OpReadS64 now data)
    obtain r sock' h' where S: "ReadS64Packet env now sock h data = (r, sock', h')"
      using prod_cases3 by blast
    have keep: "handler_upto m h'" if "handler_upto m h" "5 \<le> m" for m
      using ReadS64Packet_state [OF assms(1), of now sock h data] handler_inv_accept [OF that(1)] that by (auto simp: S)
    then show ?thesis using udp_inv_after [OF keep inv] by (simp add: fields OpReadS64 S)
  next
    case (OpReadNetLib now data)
    obtain r sock' h' where S: "ReadNetLibPacket env now sock h data = (r, sock', h')"
      using prod_cases3 by blast
    have keep: "handler_upto m h'" if "handler_upto m h" "5 \<le> m" for m
      using ReadNetLibPacket_state [OF assms(1), of now sock h data] handler_inv_accept [OF that(1)] that by (auto simp: S)
    then show ?thesis using udp_inv_after [OF keep inv] by (simp add: fields OpReadNetLib S)
  next
    case (OpResend now)
    obtain r sock' h' where S: "ResendMissingPackets env now sock h = (r, sock', h')"
      using prod_cases3 by blast
    have "handler_upto (if timed_out r then 5 + n + 1 else 5 + n) h'" if "n < 250"
      using handler_upto_resend [OF assms(1) _ _ _ S, of "5 + n"] inv that by (simp add: udp_inv_def)
    then show ?thesis by (auto simp: fields OpResend S after_call_def udp_inv_def)
  qed
qed

interpretation udp: machine "udp_step env" udp_ok "\<lambda>s. alloc_ok env \<and> udp_inv s" for env
  by unfold_locales (simp add: udp_step_inv)

section \<open>Properties\<close>

text \<open>C15: after every history of sends of new packets, reads of any bytes and resends at any
  times on a fresh handler, in which allocations succeed, the received list holds at most 18
  packets, all reliable and with pairwise different sequence numbers; every packet waiting for
  an ack is reliable, well-formed and has been attempted at least once, and at most five times
  plus once for every call of the history that ended with the timeout exception (fewer than
  250, so that the counter byte does not wrap). In particular, a history without a timeout
  leaves no packet with more than five attempts, and one whose first timeout was the last call
  leaves the given-up packet in the list with six.\<close>

theorem handler_history_invariant:
  assumes "alloc_ok env"
    and "list_all (\<lambda>op. case op of OpSend now pkt \<Rightarrow> pkt_wf pkt \<and> m_SendAttempts pkt = 0 | _ \<Rightarrow> True) ops"
    and "fold (udp_step env) ops (0, sock, new_UDPHandler address port) = (timeouts, sock', h)"
    and "timeouts < 250"
  shows "length (m_AcksLeft_RX h) \<le> 18 \<and> distinct (seqs (m_AcksLeft_RX h)) \<and>
    list_all reliable (m_AcksLeft_RX h) \<and>
    list_all (\<lambda>p. reliable p \<and> pkt_wf p \<and> 1 \<le> unat (m_SendAttempts p) \<and>
       unat (m_SendAttempts p) \<le> 5 + timeouts) (m_AcksLeft_TX h)"
proof -
  have "udp.admissible env s ops" for s
    using assms(2) by (induction ops arbitrary: s) (auto split: udp_op.splits)
  then have "udp_inv (timeouts, sock', h)"
    using udp.inv_history [of env "(0, sock, new_UDPHandler address port)" ops] assms(1,3)
    by (simp add: udp_inv_def)
  then show ?thesis
    using assms(4) unfolding udp_inv_def handler_upto_def live_upto_def by (simp add: list_all_iff)
qed

text \<open>A handler to run the properties on.\<close>

definition sample_handler :: UDPHandler where
  "sample_handler = new_UDPHandler ''host'' 6464"

lemma sample_pkt_simps [simp]:
  "pkt_wf sample_pkt" "m_SendAttempts sample_pkt = 0" "reliable sample_pkt"
  by (simp_all add: pkt_wf_def NetLib_wf_def pkt_inv_def sample_pkt_def NETLIBPACKET_VERSION_def
      reliable_def)

text \<open>Five attempts of one packet, and the resend that gives it up.\<close>

definition sample_history :: "udp_op list" where
  "sample_history = [OpSend 5 sample_pkt, OpResend 2000, OpResend 4000, OpResend 6000, OpResend 8000, OpResend 10000]"

lemma sample_history_run:
  "\<exists>sock h p. fold (udp_step env_x86) sample_history (0, new_ASIOSocket ''host'' 6464, sample_handler) =
     (1, sock, h) \<and> m_AcksLeft_TX h = [p] \<and> unat (m_SendAttempts p) = 6"
  by (simp add: sample_history_def SendPacket_cases Let_def consume_def sent_form_def after_call_def
      ResendMissingPackets_def GetSendTime_def TIME_RESEND_def sample_handler_def new_UDPHandler_def)

lemma handler_history_invariant_witness:
  "\<exists>sock h p. fold (udp_step env_x86) sample_history (0, new_ASIOSocket ''host'' 6464, sample_handler) =
     (1, sock, h) \<and> m_AcksLeft_TX h = [p] \<and> reliable p \<and> pkt_wf p \<and> unat (m_SendAttempts p) = 6"
proof -
  obtain sock h p where run: "fold (udp_step env_x86) sample_history
      (0, new_ASIOSocket ''host'' 6464, new_UDPHandler ''host'' 6464) = (1, sock, h)"
    and p: "m_AcksLeft_TX h = [p]" "unat (m_SendAttempts p) = 6"
    using sample_history_run unfolding sample_handler_def by blast
  have "list_all (\<lambda>op. case op of OpSend now pkt \<Rightarrow> pkt_wf pkt \<and> m_SendAttempts pkt = 0 | _ \<Rightarrow> True) sample_history"
    by (simp add: sample_history_def)
  from handler_history_invariant [OF alloc_ok_instances this run] p
  have "reliable p \<and> pkt_wf p" by simp
  then show ?thesis using run p unfolding sample_handler_def by blast
qed

text \<open>C18: a packet that is sent for the first time takes the handler's next sequence number,
  and the datagram that leaves decodes at the receiver to a packet that acknowledges exactly
  the newest number the handler has seen and those of the 16 numbers before it that are in
  its received list; a reliable packet then waits for its ack and uses up the number, an
  unreliable one does neither. The shifts for the packets in the received list have to be
  harmless (\<open>shl_safe\<close>), which they are when none is more than 32 numbers old.\<close>

theorem send_stamps_and_queues:
  assumes "alloc_ok env" "pkt_wf pkt" "m_SendAttempts pkt = 0" "shl_safe env h" "can_send env h"
    and "SendPacket env now sock h pkt = (r, sock', h', pkt')"
  shows "r = Inr () \<and> m_SequenceNum pkt' = m_LocalSeqNum h \<and>
    sock_sent sock' = sock_sent sock @ [(m_Address h, m_Port h, pkt_wire pkt')] \<and>
    (\<forall>n. acks pkt' n \<longleftrightarrow> n = m_RemoteSeqNum h \<or>
       unat (m_RemoteSeqNum h - n) \<le> 16 \<and> n \<in> set (seqs (m_AcksLeft_RX h))) \<and>
    m_AcksLeft_TX h' = m_AcksLeft_TX h @ (if reliable pkt then [pkt'] else []) \<and>
    m_LocalSeqNum h' = m_LocalSeqNum h + (if reliable pkt then 1 else 0) \<and>
    m_AcksLeft_RX h' = m_AcksLeft_RX h \<and> m_RemoteSeqNum h' = m_RemoteSeqNum h"
proof -
  have pkt': "pkt' = stamp env h (UpdateSendAttempt now pkt)" and r: "r = Inr ()"
    and sock': "sock' = transmit h (pkt_wire pkt') sock"
    and h': "h' = (if reliable pkt then consume h pkt' else h)"
    using assms(3,5,6) unfolding SendPacket_cases [OF assms(1,2)]
    by (auto simp: sent_form_def can_send_def Let_def split: if_splits)
  show ?thesis
    unfolding r sock' h' pkt' acks_stamp [OF assms(4)]
    by (simp add: transmit_def consume_def)
qed

lemma send_stamps_and_queues_witness:
  "\<exists>r sock' h' pkt'.
     SendPacket env_x86 3 (new_ASIOSocket [] 0) sample_handler sample_pkt = (r, sock', h', pkt') \<and>
     m_SequenceNum pkt' = 0 \<and> m_LocalSeqNum h' = 1 \<and> acks pkt' 0 \<and> \<not> acks pkt' 65535 \<and>
     m_AcksLeft_TX h' = [pkt']"
proof -
  obtain r sock' h' pkt' where s:
      "SendPacket env_x86 3 (new_ASIOSocket [] 0) sample_handler sample_pkt = (r, sock', h', pkt')"
    by (cases "SendPacket env_x86 3 (new_ASIOSocket [] 0) sample_handler sample_pkt") auto
  have "shl_safe env_x86 sample_handler" by (simp add: shl_safe_def sample_handler_def new_UDPHandler_def)
  from send_stamps_and_queues [OF _ _ _ this _ s] s show ?thesis
    by (simp add: sample_handler_def new_UDPHandler_def)
qed

text \<open>Once a packet in the received list is more than 32 numbers old the shift count of
  its ack bit leaves \<open>int\<close>, and on a machine that masks the count the next packet sent
  acknowledges a number that was never received.\<close>

theorem stale_shift_acks_unreceived:
  "let h = sample_handler\<lparr>m_RemoteSeqNum := 100, m_AcksLeft_RX := [sample_pkt\<lparr>m_SequenceNum := 60\<rparr>]\<rparr>;
       pkt' = snd (snd (snd (SendPacket env_x86 0 (new_ASIOSocket [] 0) h sample_pkt)))
   in acks pkt' 92 \<and> 92 \<notin> set (seqs (m_AcksLeft_RX h)) \<and> \<not> acks pkt' 60"
proof -
  let ?h = "sample_handler\<lparr>m_RemoteSeqNum := 100, m_AcksLeft_RX := [sample_pkt\<lparr>m_SequenceNum := 60\<rparr>]\<rparr>"
  have "ack_field env_x86 ?h = 128"
    by (simp add: ack_field_def ack_bit_def packet_getters sequence_greaterthan_eq
        sequence_delta_def MAX_SEQUENCENUM_def c_shl1_def)
  then show ?thesis
    by (simp add: SendPacket_cases Let_def sent_form_def acks_def bit_iff_odd)
qed

text \<open>C20: in the reliable packets that the calls of \<open>ReadNetLibPacket\<close> return for any series
  of datagrams, two with the same sequence number are more than 18 positions apart: a
  retransmitted packet is not delivered again while it is in the window.\<close>

theorem no_duplicate_delivery:
  assumes "alloc_ok env" "can_send env (new_UDPHandler address port)"
  shows "spaced (filter reliable (read_all env now sock (new_UDPHandler address port) datagrams))"
  using read_all_spaced [OF assms, of "[]"] by (simp add: new_UDPHandler_def last_n_def spaced_def)

text \<open>The sample packet on the wire, with sequence number 0.\<close>

lemma sample_wire: "NetLib_wire sample_pkt =
  [0x4E, 0x4C, 0x50, 1, 10, 0, 0, 0, 0, 0, 0, 0, 0, 0, 0, 0, 0, 2, 7, 8]"
  by (simp add: NetLib_wire_def sample_pkt_def header_simps be16_def be32_def
      NetLibPacket_GetType_def NetLibPacket_GetRecipients_def)

lemma sample_decodes: "NetLibPacket_FromBytes env_x86 (NetLib_wire sample_pkt @ rest) = Inr (Some sample_pkt)"
proof -
  have "unsent sample_pkt = sample_pkt" by (simp add: unsent_def sample_pkt_def)
  with NetLib_decode_wire [of env_x86 sample_pkt rest] show ?thesis by simp
qed

lemma sample_read:
  "ReadNetLibPacket env_x86 now sock h (NetLib_wire sample_pkt) =
     (if duplicate h sample_pkt then (Inr None, sock, h)
      else (Inr (Some sample_pkt), sock, accept env_x86 h sample_pkt))"
proof -
  have "IsNetLibPacket (NetLib_wire sample_pkt) = Inr True"
    by (simp add: IsNetLibPacket_def NetLib_wire_def)
  moreover have "\<not> explicit sample_pkt" by (simp add: explicit_def sample_pkt_def)
  ultimately show ?thesis
    using sample_decodes [of "[]"] by (simp add: ReadNetLibPacket_def HandlePacketSequence_eq Let_def)
qed

lemma no_duplicate_delivery_witness:
  "let d = NetLib_wire sample_pkt;
       rs = filter reliable (read_all env_x86 0 (new_ASIOSocket [] 0) sample_handler [d, d, d])
   in spaced rs \<and> rs = [sample_pkt]"
  using no_duplicate_delivery [of env_x86 "''host''" 6464 0 "new_ASIOSocket [] 0"
      "[NetLib_wire sample_pkt, NetLib_wire sample_pkt, NetLib_wire sample_pkt]"]
  by (simp add: sample_read duplicate_def sample_handler_def new_UDPHandler_def accept_def
      push_received_def)

text \<open>C19: when the calls succeed, receiving a packet that is not in the received list
  removes from the list of unacknowledged packets exactly those the header acknowledges,
  keeps the newer of the two sequence numbers, remembers the packet if it is reliable, and
  answers with one ack datagram if and only if the packet asks for it; a packet that is in
  the list changes nothing, is not handed on, and is answered likewise. No pending number may
  lie where the undefined shift of \<open>IsAcked\<close> hits the field (\<open>ack_safe\<close>): on machines that mask
  the count, x86 and 64-bit ARM, every number from 32 before the ack to 15 after it is safe.\<close>

theorem receive_updates_window:
  assumes "alloc_ok env" "is_ackmaker mk" "can_send env h"
    and "\<forall>p \<in> set (m_AcksLeft_TX h). ack_safe env (m_Ack pkt) (m_SequenceNum p)"
    and "HandlePacketSequence env now sock h pkt mk = (r, sock', h')"
  shows "r = Inr (m_SequenceNum pkt \<notin> set (seqs (m_AcksLeft_RX h))) \<and>
    length (sock_sent sock') = length (sock_sent sock)
      + (if m_Flags pkt AND FLAG_EXPLICITACK \<noteq> 0 then 1 else 0) \<and>
    (if m_SequenceNum pkt \<in> set (seqs (m_AcksLeft_RX h)) then h' = h
     else m_AcksLeft_TX h' = filter (\<lambda>p. \<not> acks pkt (m_SequenceNum p)) (m_AcksLeft_TX h) \<and>
       m_RemoteSeqNum h' = (if sequence_greaterthan (m_SequenceNum pkt) (m_RemoteSeqNum h)
         then m_SequenceNum pkt else m_RemoteSeqNum h) \<and>
       m_AcksLeft_RX h' = (if reliable pkt then (if 17 < length (m_AcksLeft_RX h) then tl (m_AcksLeft_RX h) else m_AcksLeft_RX h) @ [pkt]
         else m_AcksLeft_RX h) \<and> m_LocalSeqNum h' = m_LocalSeqNum h)"
proof -
  define k where "k = (if duplicate h pkt then h else accept env h pkt)"
  have k: "h' = k" and r: "r = Inr (\<not> duplicate h pkt)"
    using HandlePacketSequence_state [OF assms(1,2), of now sock h pkt]
      HandlePacketSequence_result [OF assms(1-3), of now sock pkt]
    unfolding assms(5) k_def by simp_all
  have cs: "can_send env k" using assms(3) by (simp add: k_def)
  obtain ack where ack: "send_ack env now sock k mk =
       (if env_send env (m_Address k) (m_Port k) (pkt_wire (stamp env k ack))
        then (Inr (), transmit k (pkt_wire (stamp env k ack)) sock, k)
        else (Inl SystemError, sock, k))"
    by (rule send_ack_cases [OF assms(1,2)])
  have "length (sock_sent sock') = length (sock_sent sock) + (if explicit pkt then 1 else 0)"
    using assms(5) ack cs unfolding HandlePacketSequence_eq Let_def
    by (auto simp: k_def can_send_def transmit_def split: if_splits)
  moreover have "m_AcksLeft_TX (accept env h pkt) =
      filter (\<lambda>p. \<not> acks pkt (m_SequenceNum p)) (m_AcksLeft_TX h)"
    using assms(4) by (auto simp: accept_def IsAcked_acks intro: filter_cong)
  ultimately show ?thesis
    unfolding k r explicit_def k_def duplicate_def
    by (simp add: accept_def newer_def push_received_def)
qed

lemma receive_updates_window_witness:
  "let h = sample_handler\<lparr>m_AcksLeft_TX := [sample_pkt\<lparr>m_SequenceNum := 3\<rparr>,
         sample_pkt\<lparr>m_SequenceNum := 4\<rparr>, sample_pkt\<lparr>m_SequenceNum := 5\<rparr>]\<rparr>;
       pkt = sample_pkt\<lparr>m_SequenceNum := 9, m_Ack := 4, m_AckBitField := 2, m_Flags := 2\<rparr>;
       res = HandlePacketSequence env_x86 0 (new_ASIOSocket [] 0) h pkt MakeAck_NetLibPacket
   in fst res = Inr True \<and> seqs (m_AcksLeft_TX (snd (snd res))) = [3, 5] \<and>
      m_RemoteSeqNum (snd (snd res)) = 9 \<and> length (sock_sent (fst (snd res))) = 1"
proof -
  let ?h = "sample_handler\<lparr>m_AcksLeft_TX := [sample_pkt\<lparr>m_SequenceNum := 3\<rparr>,
         sample_pkt\<lparr>m_SequenceNum := 4\<rparr>, sample_pkt\<lparr>m_SequenceNum := 5\<rparr>]\<rparr>"
  let ?pkt = "sample_pkt\<lparr>m_SequenceNum := 9, m_Ack := 4, m_AckBitField := 2, m_Flags := 2\<rparr>"
  let ?mk = "MakeAck_NetLibPacket :: env \<Rightarrow> AbstractPacket result"
  let ?res = "HandlePacketSequence env_x86 0 (new_ASIOSocket [] 0) ?h ?pkt ?mk"
  have "?res = (fst ?res, fst (snd ?res), snd (snd ?res))" by simp
  moreover have "\<forall>p \<in> set (m_AcksLeft_TX ?h). ack_safe env_x86 (m_Ack ?pkt) (m_SequenceNum p)"
    by (simp add: ack_safe_masks)
  moreover have "acks ?pkt 4" "\<not> acks ?pkt 3" by (simp_all add: acks_def bit_iff_odd)
  moreover have "\<not> acks ?pkt 5"
  proof -
    have "unat (- 1 :: u16) = 65535" by (simp add: unsigned_minus_1_eq_mask mask_eq_exp_minus_1)
    then show ?thesis by (simp add: acks_def)
  qed
  ultimately show ?thesis
    using receive_updates_window [of env_x86 ?mk ?h ?pkt 0 "new_ASIOSocket [] 0" "fst ?res" "fst (snd ?res)" "snd (snd ?res)"]
    unfolding Let_def by (simp add: sample_handler_def new_UDPHandler_def new_ASIOSocket_def
      FLAG_EXPLICITACK_def sequence_greaterthan_eq)
qed

text \<open>C33: a resend transmits exactly the due packets again, byte for byte as they were, in
  the order they were first sent, and counts the attempt; nothing else changes.\<close>

theorem resend_exact:
  assumes "alloc_ok env" "can_send env h" "list_all live (m_AcksLeft_TX h)"
    and "\<forall>p \<in> set (m_AcksLeft_TX h). now - m_SendTime p > 1000 \<longrightarrow> unat (m_SendAttempts p) < 5"
  shows "ResendMissingPackets env now sock h =
    (Inr (), sock\<lparr>sock_sent := sock_sent sock @
        map (\<lambda>p. (m_Address h, m_Port h, pkt_wire p))
          (filter (\<lambda>p. now - m_SendTime p > 1000) (m_AcksLeft_TX h))\<rparr>,
     h\<lparr>m_AcksLeft_TX := map (\<lambda>p. if now - m_SendTime p > 1000 then UpdateSendAttempt now p else p)
        (m_AcksLeft_TX h)\<rparr>)"
proof -
  have "\<forall>p \<in> set (m_AcksLeft_TX h). due now p \<longrightarrow> \<not> exhausted p"
    using assms(4) by (auto simp: due_def exhausted_def TIME_RESEND_def)
  moreover have "due now = (\<lambda>p. now - m_SendTime p > 1000)"
    by (simp add: fun_eq_iff due_def TIME_RESEND_def)
  ultimately show ?thesis
    using ResendMissingPackets_ok [OF assms(1-3), of now sock]
    by (simp add: transmit_all_def retry_def comp_def)
qed

lemma resend_exact_witness:
  "let p = sample_pkt\<lparr>m_SendAttempts := 1\<rparr>; q = sample_pkt\<lparr>m_SendAttempts := 2, m_SendTime := 1500\<rparr>;
       res = ResendMissingPackets env_x86 2000 (new_ASIOSocket [] 0) (sample_handler\<lparr>m_AcksLeft_TX := [p, q]\<rparr>)
   in fst res = Inr () \<and> sock_sent (fst (snd res)) = [(''host'', 6464, pkt_wire p)] \<and>
      m_AcksLeft_TX (snd (snd res)) = [p\<lparr>m_SendAttempts := 2, m_SendTime := 2000\<rparr>, q]"
proof -
  let ?h = "sample_handler\<lparr>m_AcksLeft_TX := [sample_pkt\<lparr>m_SendAttempts := 1\<rparr>,
     sample_pkt\<lparr>m_SendAttempts := 2, m_SendTime := 1500\<rparr>]\<rparr>"
  have st: "m_SendTime sample_pkt = 0" by (simp add: sample_pkt_def)
  have wf: "live (sample_pkt\<lparr>m_SendAttempts := 1\<rparr>)"
    "live (sample_pkt\<lparr>m_SendAttempts := 2, m_SendTime := 1500\<rparr>)"
    by (simp_all add: live_upto_def pkt_wf_def NetLib_wf_def pkt_inv_def sample_pkt_def
        NETLIBPACKET_VERSION_def reliable_def)
  from resend_exact [of env_x86 ?h 2000 "new_ASIOSocket [] 0"] wf show ?thesis
    unfolding Let_def by (simp add: st new_ASIOSocket_def sample_handler_def new_UDPHandler_def packet_setters)
qed

text \<open>Sending one packet object again and again, at given clock readings.\<close>

fun send_series :: "env \<Rightarrow> ASIOSocket \<Rightarrow> UDPHandler \<Rightarrow> AbstractPacket \<Rightarrow> int list
    \<Rightarrow> unit result list \<times> ASIOSocket" where
  "send_series env sock h pkt [] = ([], sock)"
| "send_series env sock h pkt (now # nows) =
     (case SendPacket env now sock h pkt of (r, sock, h, pkt) \<Rightarrow>
        (case send_series env sock h pkt nows of (rs, sock) \<Rightarrow> (r # rs, sock)))"

lemma send_series_retries:
  assumes "alloc_ok env" "can_send env h" "pkt_wf pkt" "1 \<le> unat (m_SendAttempts pkt)"
    and "unat (m_SendAttempts pkt) + length nows = 5"
  shows "send_series env sock h pkt (nows @ [t]) =
    (replicate (length nows) (Inr ()) @ [Inl (ClientTimeout (m_Address h @ '':'' @ dec_int (m_Port h)))],
     transmit_all h (replicate (length nows) (pkt_wire pkt)) sock)"
  using assms(2-)
proof (induction nows arbitrary: pkt sock)
  case Nil
  then show ?case using assms(1) by (simp add: SendPacket_cases)
next
  case (Cons now nows)
  have a: "m_SendAttempts pkt \<noteq> 0" using Cons.prems(3) by auto
  have n: "unat (m_SendAttempts pkt) < 5" using Cons.prems(4) by simp
  then have u: "unat (m_SendAttempts pkt + 1) = unat (m_SendAttempts pkt) + 1"
    by (simp add: unat_byte_incr)
  have "SendPacket env now sock h pkt =
      (Inr (), transmit h (pkt_wire pkt) sock, h, UpdateSendAttempt now pkt)"
    using a n Cons.prems(1,2) by (simp add: SendPacket_cases assms(1) sent_form_def can_send_def Let_def)
  then show ?case
    using Cons.IH [of "UpdateSendAttempt now pkt" "transmit h (pkt_wire pkt) sock"] Cons.prems u by simp
qed

text \<open>One packet object is transmitted five times at most: when the socket accepts
  everything, the first five sends of a new packet put five identical datagrams on the wire,
  and the sixth sends nothing and raises the timeout exception with the peer's address.\<close>

theorem five_transmissions:
  assumes "alloc_ok env" "can_send env h" "pkt_wf pkt" "m_SendAttempts pkt = 0"
  shows "send_series env sock h pkt [t1, t2, t3, t4, t5, t6] =
    (replicate 5 (Inr ()) @ [Inl (ClientTimeout (m_Address h @ '':'' @ dec_int (m_Port h)))],
     sock\<lparr>sock_sent := sock_sent sock @
        replicate 5 (m_Address h, m_Port h, pkt_wire (stamp env h (UpdateSendAttempt t1 pkt)))\<rparr>)"
proof -
  let ?p = "stamp env h (UpdateSendAttempt t1 pkt)"
  define h' where "h' = (if reliable pkt then consume h ?p else h)"
  have h': "m_Address h' = m_Address h" "m_Port h' = m_Port h" "can_send env h'"
    using assms(2) by (simp_all add: h'_def)
  have "SendPacket env t1 sock h pkt = (Inr (), transmit h (pkt_wire ?p) sock, h', ?p)"
    using assms by (simp add: SendPacket_cases sent_form_def can_send_def Let_def h'_def)
  moreover have "send_series env (transmit h (pkt_wire ?p) sock) h' ?p ([t2, t3, t4, t5] @ [t6]) =
    (replicate (length [t2, t3, t4, t5]) (Inr ()) @
       [Inl (ClientTimeout (m_Address h' @ '':'' @ dec_int (m_Port h')))],
     transmit_all h' (replicate (length [t2, t3, t4, t5]) (pkt_wire ?p)) (transmit h (pkt_wire ?p) sock))"
    by (rule send_series_retries) (use assms h' in simp_all)
  ultimately show ?thesis
    by (simp add: h' transmit_all_def transmit_def numeral_eq_Suc)
qed

lemma five_transmissions_witness:
  "map (\<lambda>r. r = Inr ()) (fst (send_series env_x86 (new_ASIOSocket [] 0) sample_handler sample_pkt
     [0, 1000, 2000, 3000, 4000, 5000])) = [True, True, True, True, True, False] \<and>
   length (sock_sent (snd (send_series env_x86 (new_ASIOSocket [] 0) sample_handler sample_pkt
     [0, 1000, 2000, 3000, 4000, 5000]))) = 5"
  using five_transmissions [of env_x86 sample_handler sample_pkt "new_ASIOSocket [] 0" 0 1000 2000 3000
      4000 5000] by (simp add: new_ASIOSocket_def eval_nat_numeral del: send_series.simps)

text \<open>The receive buffer is reused and the parsers never see how long the datagram was:
  after a whole packet was read, a datagram of 18 bytes that only announces two bytes of data
  is delivered with the data of the packet before it.\<close>

theorem short_datagram_takes_stale_bytes:
  "let first = NetLib_wire sample_pkt; short = take 18 (NetLib_wire (sample_pkt\<lparr>m_SequenceNum := 1\<rparr>));
       sock = (new_ASIOSocket [] 0)\<lparr>sock_inbox := [first, short]\<rparr>;
       (buff, sock) = ASIOSocket_Read sock (replicate 4096 0) 4096;
       (buff, sock) = ASIOSocket_Read sock buff 4096
   in LastReadCount sock = 18 \<and>
      fst (ReadNetLibPacket env_x86 0 sock sample_handler buff) =
        Inr (Some (sample_pkt\<lparr>m_SequenceNum := 1\<rparr>))"
proof -
  let ?q = "sample_pkt\<lparr>m_SequenceNum := 1\<rparr>"
  have w: "NetLib_wire ?q = [0x4E, 0x4C, 0x50, 1, 10, 0, 0, 1, 0, 0, 0, 0, 0, 0, 0, 0, 0, 2, 7, 8]"
    by (simp add: NetLib_wire_def sample_pkt_def header_simps be16_def be32_def
      NetLibPacket_GetType_def NetLibPacket_GetRecipients_def)
  have wf: "NetLib_wf ?q" by (simp add: NetLib_wf_def pkt_inv_def sample_pkt_def NETLIBPACKET_VERSION_def)
  have u: "unsent ?q = ?q" by (simp add: unsent_def sample_pkt_def)
  have p: "NetLibPacket_FromBytes env_x86 (NetLib_wire ?q @ rest) = Inr (Some ?q)" for rest
    using NetLib_decode_wire [OF _ wf, of env_x86 rest] by (simp add: u)
  have i: "IsNetLibPacket (NetLib_wire ?q @ rest) = Inr True" for rest
    by (simp add: IsNetLibPacket_def NetLib_wire_def)
  have buff: "take 18 (NetLib_wire ?q) @ drop 18 (NetLib_wire sample_pkt) @ replicate 4076 0 =
      NetLib_wire ?q @ replicate 4076 0"
    by (simp add: w sample_wire)
  have "fst (ReadNetLibPacket env_x86 0 sock sample_handler
      (take 18 (NetLib_wire ?q) @ drop 18 (NetLib_wire sample_pkt) @ replicate 4076 0)) =
      Inr (Some ?q)" for sock
    unfolding buff
    by (simp add: ReadNetLibPacket_def p i HandlePacketSequence_eq Let_def duplicate_def explicit_def
        sample_handler_def new_UDPHandler_def) (simp add: sample_pkt_def)
  moreover have "length (NetLib_wire ?q) = 20" "length (NetLib_wire sample_pkt) = 20"
    by (simp_all add: w sample_wire)
  ultimately show ?thesis
    by (simp add: ASIOSocket_Read_def LastReadCount_def)
qed

text \<open>What the parsers build from a buffer of less than 64 kB is well-formed.\<close>

lemma char_of_zero_byte:
  assumes "CHR 0x00 = char_of (unat b)"
  shows "b = (0 :: byte)"
proof -
  have "of_char (CHR 0x00) = unat b mod 256" unfolding assms by simp
  then show ?thesis using unsigned_less [of b, where 'a = nat] by (simp add: unat_eq_0)
qed

lemma S64_parsed_wf:
  assumes "14 + unat (bs ! 11) + S64_announced bs \<le> length bs" "\<not> 1 < bs ! 3" "length bs < 65536"
  shows "S64_wf (S64_parsed bs)"
proof -
  let ?c = "c_string (take (unat (bs ! 11)) (drop 12 bs))"
  have "length ?c \<le> unat (bs ! 11)"
    unfolding c_string_def by (rule order_trans [OF length_takeWhile_le]) simp
  moreover have "unat (bs ! 11) \<le> 255" using unsigned_less [of "bs ! 11", where 'a = nat] by simp
  moreover have "CHR 0x00 \<notin> set (bytes_str ?c)"
    by (auto simp: bytes_str_def c_string_def char_of_zero_byte dest: set_takeWhileD)
  ultimately show ?thesis
    using assms by (auto simp: S64_wf_def pkt_inv_def S64_parsed_def S64_announced_def Let_def
      S64PACKET_VERSION_def bytes_str_def)
qed

text \<open>C30: whatever bytes the receive buffer holds, what the read functions return is a
  well-formed packet of their class that has never been sent, with as much data as its size
  field says.\<close>

theorem received_packet_type:
  assumes "alloc_ok env" "length buff = MAX_PACKETSIZE"
  shows "(case fst (ReadNetLibPacket env now sock h buff) of
       Inr (Some p) \<Rightarrow> NetLib_wf p \<and> length (m_Data p) = unat (m_Size p) \<and> m_SendAttempts p = 0 | _ \<Rightarrow> True) \<and>
     (case fst (ReadS64Packet env now sock h buff) of
       Inr (Some p) \<Rightarrow> S64_wf p \<and> length (m_Data p) = unat (m_Size p) \<and> m_SendAttempts p = 0 | _ \<Rightarrow> True)"
proof (rule conjI)
  have l: "18 \<le> length buff" "12 \<le> length buff" "length buff < 65518"
    using assms(2) by (simp_all add: MAX_PACKETSIZE_def)
  have N: "NetLib_wf p \<and> m_SendAttempts p = 0" if "fst (ReadNetLibPacket env now sock h buff) = Inr (Some p)" for p
  proof -
    have "NetLibPacket_FromBytes env buff = Inr (Some p)" using ReadNetLibPacket_Some [OF that] ..
    then show ?thesis
      using NetLib_parsed_wf [of buff] l
      by (auto simp: NetLib_FromBytes_cases [OF assms(1) l(1)] NetLib_parsed_def split: if_splits)
  qed
  have S: "S64_wf p \<and> m_SendAttempts p = 0" if "fst (ReadS64Packet env now sock h buff) = Inr (Some p)" for p
  proof -
    have "S64Packet_FromBytes env buff = Inr (Some p)" using ReadS64Packet_Some [OF that] ..
    then show ?thesis
      using S64_parsed_wf [of buff] l
      by (auto simp: S64_FromBytes_cases [OF assms(1) l(2)] S64_parsed_def Let_def split: if_splits)
  qed
  show "case fst (ReadNetLibPacket env now sock h buff) of
       Inr (Some p) \<Rightarrow> NetLib_wf p \<and> length (m_Data p) = unat (m_Size p) \<and> m_SendAttempts p = 0 | _ \<Rightarrow> True"
    using N by (auto simp: NetLib_wf_def pkt_inv_def split: sum.split option.split)
  show "case fst (ReadS64Packet env now sock h buff) of
       Inr (Some p) \<Rightarrow> S64_wf p \<and> length (m_Data p) = unat (m_Size p) \<and> m_SendAttempts p = 0 | _ \<Rightarrow> True"
    using S by (auto simp: S64_wf_def pkt_inv_def split: sum.split option.split)
qed

lemma received_packet_type_witness:
  "let buff = NetLib_wire sample_pkt @ replicate 4076 0;
       r = fst (ReadNetLibPacket env_x86 0 (new_ASIOSocket [] 0) sample_handler buff)
   in r = Inr (Some sample_pkt) \<and> NetLib_wf (the (projr r))"
proof -
  let ?buff = "NetLib_wire sample_pkt @ replicate 4076 0"
  have "length ?buff = MAX_PACKETSIZE" by (simp add: sample_wire MAX_PACKETSIZE_def)
  note type = received_packet_type [OF alloc_ok_instances this, of 0 "new_ASIOSocket [] 0" sample_handler]
  have "IsNetLibPacket ?buff = Inr True" by (simp add: IsNetLibPacket_def NetLib_wire_def)
  moreover have "\<not> explicit sample_pkt" by (simp add: explicit_def sample_pkt_def)
  ultimately have "fst (ReadNetLibPacket env_x86 0 (new_ASIOSocket [] 0) sample_handler ?buff) = Inr (Some sample_pkt)"
    using sample_decodes by (simp add: ReadNetLibPacket_def HandlePacketSequence_eq Let_def
      duplicate_def sample_handler_def new_UDPHandler_def del: replicate.simps)
  with type show ?thesis by (simp add: Let_def del: replicate.simps)
qed

end
