(* ===== verification/NL_Sha256.thy ===== *)
theory NL_Sha256
  imports NL_Helper
begin

text \<open>
  \<^verbatim>\<open>Client App/sha256.cpp\<close>, the hash that decides whether a ROM on disk is the one a server
  wants. The first part follows the C code: the streaming context, the in-place message
  schedule, the padding written into the context's buffer. The second part is the standard
  (FIPS 180-4): the padded message cut into blocks and folded with the compression function.
  The third shows that the code computes the standard's digest, however the data is split
  into updates.
\<close>

section \<open>The code\<close>

definition ROTLEFT :: "u32 \<Rightarrow> nat \<Rightarrow> u32" where
  "ROTLEFT a b = push_bit b a OR drop_bit (32 - b) a"

definition ROTRIGHT :: "u32 \<Rightarrow> nat \<Rightarrow> u32" where
  "ROTRIGHT a b = drop_bit b a OR push_bit (32 - b) a"

definition CH :: "u32 \<Rightarrow> u32 \<Rightarrow> u32 \<Rightarrow> u32" where
  "CH x y z = (x AND y) XOR (NOT x AND z)"

definition MAJ :: "u32 \<Rightarrow> u32 \<Rightarrow> u32 \<Rightarrow> u32" where
  "MAJ x y z = (x AND y) XOR (x AND z) XOR (y AND z)"

definition EP0 :: "u32 \<Rightarrow> u32" where
  "EP0 x = ROTRIGHT x 2 XOR ROTRIGHT x 13 XOR ROTRIGHT x 22"

definition EP1 :: "u32 \<Rightarrow> u32" where
  "EP1 x = ROTRIGHT x 6 XOR ROTRIGHT x 11 XOR ROTRIGHT x 25"

definition SIG0 :: "u32 \<Rightarrow> u32" where
  "SIG0 x = ROTRIGHT x 7 XOR ROTRIGHT x 18 XOR drop_bit 3 x"

definition SIG1 :: "u32 \<Rightarrow> u32" where
  "SIG1 x = ROTRIGHT x 17 XOR ROTRIGHT x 19 XOR drop_bit 10 x"

definition k_table :: "u32 list" where
  "k_table = concat [
    [0x428a2f98, 0x71374491, 0xb5c0fbcf, 0xe9b5dba5, 0x3956c25b, 0x59f111f1, 0x923f82a4, 0xab1c5ed5],
    [0xd807aa98, 0x12835b01, 0x243185be, 0x550c7dc3, 0x72be5d74, 0x80deb1fe, 0x9bdc06a7, 0xc19bf174],
    [0xe49b69c1, 0xefbe4786, 0x0fc19dc6, 0x240ca1cc, 0x2de92c6f, 0x4a7484aa, 0x5cb0a9dc, 0x76f988da],
    [0x983e5152, 0xa831c66d, 0xb00327c8, 0xbf597fc7, 0xc6e00bf3, 0xd5a79147, 0x06ca6351, 0x14292967],
    [0x27b70a85, 0x2e1b2138, 0x4d2c6dfc, 0x53380d13, 0x650a7354, 0x766a0abb, 0x81c2c92e, 0x92722c85],
    [0xa2bfe8a1, 0xa81a664b, 0xc24b8b70, 0xc76c51a3, 0xd192e819, 0xd6990624, 0xf40e3585, 0x106aa070],
    [0x19a4c116, 0x1e376c08, 0x2748774c, 0x34b0bcb5, 0x391c0cb3, 0x4ed8aa4a, 0x5b9cca4f, 0x682e6ff3],
    [0x748f82ee, 0x78a5636f, 0x84c87814, 0x8cc70208, 0x90befffa, 0xa4506ceb, 0xbef9a3f7, 0xc67178f2]]"

record SHA256_CTX =
  ctx_data :: "byte list"
  ctx_datalen :: u32
  ctx_bitlen :: u64
  ctx_state :: "u32 list"

text \<open>The two loops that fill \<open>m\<close>, the second one reading what it has already written.\<close>

definition m_load :: "byte list \<Rightarrow> u32 list" where
  "m_load data = map (\<lambda>i. let j = 4 * i in
     push_bit 24 (ucast (data ! j)) OR push_bit 16 (ucast (data ! (j + 1)))
       OR push_bit 8 (ucast (data ! (j + 2))) OR ucast (data ! (j + 3))) [0..<16]"

definition m_step :: "nat \<Rightarrow> u32 list \<Rightarrow> u32 list" where
  "m_step i m = m @ [SIG1 (m ! (i - 2)) + m ! (i - 7) + SIG0 (m ! (i - 15)) + m ! (i - 16)]"

definition m_schedule :: "byte list \<Rightarrow> u32 list" where
  "m_schedule data = fold m_step [16..<64] (m_load data)"

type_synonym regs = "u32 \<times> u32 \<times> u32 \<times> u32 \<times> u32 \<times> u32 \<times> u32 \<times> u32"

definition round_step :: "u32 list \<Rightarrow> nat \<Rightarrow> regs \<Rightarrow> regs" where
  "round_step m i r = (case r of (a, b, c, d, e, f, g, h) \<Rightarrow>
     let t1 = h + EP1 e + CH e f g + k_table ! i + m ! i;
         t2 = EP0 a + MAJ a b c
     in (t1 + t2, a, b, c, d + t1, e, f, g))"

definition sha256_transform :: "SHA256_CTX \<Rightarrow> byte list \<Rightarrow> SHA256_CTX" where
  "sha256_transform ctx data =
     (let m = m_schedule data; s = ctx_state ctx in
      case fold (round_step m) [0..<64]
        (s ! 0, s ! 1, s ! 2, s ! 3, s ! 4, s ! 5, s ! 6, s ! 7) of
      (a, b, c, d, e, f, g, h) \<Rightarrow>
        ctx\<lparr>ctx_state := [s ! 0 + a, s ! 1 + b, s ! 2 + c, s ! 3 + d,
          s ! 4 + e, s ! 5 + f, s ! 6 + g, s ! 7 + h]\<rparr>)"

definition H_init :: "u32 list" where
  "H_init = [0x6a09e667, 0xbb67ae85, 0x3c6ef372, 0xa54ff53a, 0x510e527f, 0x9b05688c, 0x1f83d9ab,
     0x5be0cd19]"

text \<open>\<open>sha256_init\<close> leaves the buffer as it finds it.\<close>

definition sha256_init :: "SHA256_CTX \<Rightarrow> SHA256_CTX" where
  "sha256_init ctx = ctx\<lparr>ctx_datalen := 0, ctx_bitlen := 0, ctx_state := H_init\<rparr>"

definition update_byte :: "byte \<Rightarrow> SHA256_CTX \<Rightarrow> SHA256_CTX" where
  "update_byte b ctx =
     (let ctx = ctx\<lparr>ctx_data := (ctx_data ctx)[unat (ctx_datalen ctx) := b],
                    ctx_datalen := ctx_datalen ctx + 1\<rparr>
      in if ctx_datalen ctx = 64
         then let ctx = sha256_transform ctx (ctx_data ctx)
              in ctx\<lparr>ctx_bitlen := ctx_bitlen ctx + 512, ctx_datalen := 0\<rparr>
         else ctx)"

text \<open>
  The loop counter is a \<open>uint32_t\<close> compared with a \<open>size_t\<close>: from \<open>2 ^ 32\<close> bytes on it wraps
  before it reaches the length and the loop does not end (\<open>None\<close>).
\<close>

definition sha256_update :: "SHA256_CTX \<Rightarrow> byte list \<Rightarrow> SHA256_CTX option" where
  "sha256_update ctx data =
     (if length data < 2 ^ 32 then Some (fold update_byte data ctx) else None)"

text \<open>\<open>while (i < n) data[i++] = 0x00\<close>\<close>

definition zero_fill :: "nat \<Rightarrow> nat \<Rightarrow> byte list \<Rightarrow> byte list" where
  "zero_fill i n data = fold (\<lambda>j d. d[j := 0]) [i..<n] data"

definition put_bitlen :: "u64 \<Rightarrow> byte list \<Rightarrow> byte list" where
  "put_bitlen n data = data[63 := ucast n, 62 := ucast (drop_bit 8 n),
     61 := ucast (drop_bit 16 n), 60 := ucast (drop_bit 24 n), 59 := ucast (drop_bit 32 n),
     58 := ucast (drop_bit 40 n), 57 := ucast (drop_bit 48 n), 56 := ucast (drop_bit 56 n)]"

definition final_hash :: "u32 list \<Rightarrow> byte list" where
  "final_hash s = map (\<lambda>p. ucast (drop_bit (24 - (p mod 4) * 8) (s ! (p div 4)) AND 0xff)) [0..<32]"

definition sha256_final :: "SHA256_CTX \<Rightarrow> SHA256_CTX \<times> byte list" where
  "sha256_final ctx =
     (let i = unat (ctx_datalen ctx);
          ctx = (if ctx_datalen ctx < 56
                 then ctx\<lparr>ctx_data := zero_fill (i + 1) 56 ((ctx_data ctx)[i := 0x80])\<rparr>
                 else let ctx = ctx\<lparr>ctx_data := zero_fill (i + 1) 64 ((ctx_data ctx)[i := 0x80])\<rparr>;
                          ctx = sha256_transform ctx (ctx_data ctx)
                      in ctx\<lparr>ctx_data := zero_fill 0 56 (ctx_data ctx)\<rparr>);
          ctx = ctx\<lparr>ctx_bitlen := ctx_bitlen ctx + ucast (ctx_datalen ctx * 8)\<rparr>;
          ctx = ctx\<lparr>ctx_data := put_bitlen (ctx_bitlen ctx) (ctx_data ctx)\<rparr>;
          ctx = sha256_transform ctx (ctx_data ctx)
      in (ctx, final_hash (ctx_state ctx)))"

section \<open>The standard\<close>

definition fips_word :: "byte list \<Rightarrow> nat \<Rightarrow> u32" where
  "fips_word blk t =
     word_of_nat (unat (blk ! (4 * t)) * 2 ^ 24 + unat (blk ! (4 * t + 1)) * 2 ^ 16
       + unat (blk ! (4 * t + 2)) * 2 ^ 8 + unat (blk ! (4 * t + 3)))"

definition fips_sigma0 :: "u32 \<Rightarrow> u32" where
  "fips_sigma0 x = word_rotr 7 x XOR word_rotr 18 x XOR drop_bit 3 x"

definition fips_sigma1 :: "u32 \<Rightarrow> u32" where
  "fips_sigma1 x = word_rotr 17 x XOR word_rotr 19 x XOR drop_bit 10 x"

definition fips_Sigma0 :: "u32 \<Rightarrow> u32" where
  "fips_Sigma0 x = word_rotr 2 x XOR word_rotr 13 x XOR word_rotr 22 x"

definition fips_Sigma1 :: "u32 \<Rightarrow> u32" where
  "fips_Sigma1 x = word_rotr 6 x XOR word_rotr 11 x XOR word_rotr 25 x"

definition fips_Ch :: "u32 \<Rightarrow> u32 \<Rightarrow> u32 \<Rightarrow> u32" where
  "fips_Ch x y z = (x AND y) OR (NOT x AND z)"

definition fips_Maj :: "u32 \<Rightarrow> u32 \<Rightarrow> u32 \<Rightarrow> u32" where
  "fips_Maj x y z = (x AND y) OR (x AND z) OR (y AND z)"

fun fips_W :: "byte list \<Rightarrow> nat \<Rightarrow> u32" where
  "fips_W blk t =
     (if t < 16 then fips_word blk t
      else fips_sigma1 (fips_W blk (t - 2)) + fips_W blk (t - 7)
        + fips_sigma0 (fips_W blk (t - 15)) + fips_W blk (t - 16))"

declare fips_W.simps [simp del]

fun fips_round :: "byte list \<Rightarrow> regs \<Rightarrow> nat \<Rightarrow> regs" where
  "fips_round blk (a, b, c, d, e, f, g, h) t =
     (let T1 = h + fips_Sigma1 e + fips_Ch e f g + k_table ! t + fips_W blk t;
          T2 = fips_Sigma0 a + fips_Maj a b c
      in (T1 + T2, a, b, c, d + T1, e, f, g))"

fun regs_list :: "regs \<Rightarrow> u32 list" where
  "regs_list (a, b, c, d, e, f, g, h) = [a, b, c, d, e, f, g, h]"

definition list_regs :: "u32 list \<Rightarrow> regs" where
  "list_regs s = (s ! 0, s ! 1, s ! 2, s ! 3, s ! 4, s ! 5, s ! 6, s ! 7)"

definition fips_compress :: "u32 list \<Rightarrow> byte list \<Rightarrow> u32 list" where
  "fips_compress H blk = map2 (+) H (regs_list (foldl (fips_round blk) (list_regs H) [0..<64]))"

function fips_hash :: "u32 list \<Rightarrow> byte list \<Rightarrow> u32 list" where
  "fips_hash H bs = (if length bs < 64 then H else fips_hash (fips_compress H (take 64 bs)) (drop 64 bs))"
  by pat_completeness auto
termination
  by (relation "measure (\<lambda>(H, bs). length bs)") auto

declare fips_hash.simps [simp del]

text \<open>A message is padded with a one bit, zeros up to 56 modulo 64, and its length in bits.\<close>

definition fips_pad :: "byte list \<Rightarrow> byte list" where
  "fips_pad msg = msg @ [0x80] @ replicate (nat ((55 - int (length msg)) mod 64)) 0
     @ be32 (word_of_nat (8 * length msg div 2 ^ 32)) @ be32 (word_of_nat (8 * length msg))"

definition fips_sha256 :: "byte list \<Rightarrow> byte list" where
  "fips_sha256 msg = concat (map be32 (fips_hash H_init (fips_pad msg)))"

section \<open>The code computes the standard's functions\<close>

lemma ROTRIGHT_rotr: "0 < n \<Longrightarrow> n < 32 \<Longrightarrow> ROTRIGHT x n = word_rotr n x"
proof (rule bit_word_eqI)
  fix k assume n: "0 < n" "n < 32" and k: "k < LENGTH(32)"
  show "bit (ROTRIGHT x n) k = bit (word_rotr n x) k"
  proof (cases "k + n < 32")
    case True
    then have "\<not> 32 - n \<le> k" using n by auto
    with True k n show ?thesis
      by (simp add: ROTRIGHT_def bit_or_iff bit_drop_bit_eq bit_push_bit_iff bit_word_rotr_iff add.commute)
  next
    case False
    then have "(k + n) mod 32 = k - (32 - n)"
      using n k by (simp add: mod_if)
    moreover have "\<not> bit x (n + k)"
      using False by (auto simp: add.commute dest: bit_imp_le_length)
    moreover have "32 - n \<le> k" using False by linarith
    ultimately show ?thesis
      using False k n
      by (simp add: ROTRIGHT_def bit_or_iff bit_drop_bit_eq bit_push_bit_iff bit_word_rotr_iff)
  qed
qed

lemma fips_functions:
  "SIG0 = fips_sigma0" "SIG1 = fips_sigma1" "EP0 = fips_Sigma0" "EP1 = fips_Sigma1"
  by (simp_all add: fun_eq_iff SIG0_def SIG1_def EP0_def EP1_def fips_sigma0_def fips_sigma1_def
      fips_Sigma0_def fips_Sigma1_def ROTRIGHT_rotr)

lemma CH_fips: "CH x y z = fips_Ch x y z"
  by (rule bit_word_eqI) (auto simp: CH_def fips_Ch_def bit_simps)

lemma MAJ_fips: "MAJ x y z = fips_Maj x y z"
  by (rule bit_word_eqI) (auto simp: MAJ_def fips_Maj_def bit_simps)

lemma big_endian_word:
  fixes b0 b1 b2 b3 :: byte
  shows "push_bit 24 (ucast b0) OR push_bit 16 (ucast b1) OR push_bit 8 (ucast b2) OR (ucast b3 :: u32) =
   word_of_nat (unat b0 * 2 ^ 24 + unat b1 * 2 ^ 16 + unat b2 * 2 ^ 8 + unat b3)"
proof -
  let ?p = "push_bit 24 (ucast b0) :: u32" and ?q = "push_bit 16 (ucast b1) :: u32"
    and ?r = "push_bit 8 (ucast b2) :: u32" and ?s = "ucast b3 :: u32"
  have 1: "?p + ?q = ?p OR ?q"
    by (rule disjunctive_add_eq_or, rule bit_word_eqI) (auto simp: bit_simps dest: bit_imp_le_length)
  have 2: "(?p OR ?q) + ?r = (?p OR ?q) OR ?r"
    by (rule disjunctive_add_eq_or, rule bit_word_eqI) (auto simp: bit_simps dest: bit_imp_le_length)
  have 3: "((?p OR ?q) OR ?r) + ?s = ((?p OR ?q) OR ?r) OR ?s"
    by (rule disjunctive_add_eq_or, rule bit_word_eqI) (auto simp: bit_simps dest: bit_imp_le_length)
  have "word_of_nat (unat b0 * 2 ^ 24 + unat b1 * 2 ^ 16 + unat b2 * 2 ^ 8 + unat b3) =
      ?p + ?q + ?r + ?s"
    by (simp add: push_bit_eq_mult)
  then show ?thesis unfolding 1 2 3 by (simp add: or.assoc)
qed

text \<open>The schedule: entry \<open>t\<close> of the array is the standard's \<open>W t\<close>.\<close>

lemma m_load_W: "length (m_load data) = 16" "t < 16 \<Longrightarrow> m_load data ! t = fips_W data t"
  by (simp_all add: m_load_def fips_W.simps [of data t] fips_word_def big_endian_word Let_def)

lemma m_schedule_prefix:
  "16 \<le> n \<Longrightarrow> length (fold m_step [16..<n] (m_load data)) = n \<and>
     (\<forall>t < n. fold m_step [16..<n] (m_load data) ! t = fips_W data t)"
proof (induction n rule: dec_induct)
  case base
  show ?case by (simp add: m_load_W)
next
  case (step n)
  let ?m = "fold m_step [16..<n] (m_load data)"
  have "?m ! t = fips_W data t" if "t < n" for t using step.IH that by blast
  then have "m_step n ?m = ?m @ [fips_W data n]"
    using step.hyps by (simp add: m_step_def fips_W.simps [of data n] fips_functions)
  then show ?case
    using step by (auto simp: less_Suc_eq nth_append)
qed

lemma m_schedule_W:
  "length (m_schedule data) = 64" "t < 64 \<Longrightarrow> m_schedule data ! t = fips_W data t"
  using m_schedule_prefix [of 64 data] by (simp_all add: m_schedule_def)

lemma regs_exhaust: "\<exists>a b c d e f g h. (r :: regs) = (a, b, c, d, e, f, g, h)"
  by (metis surj_pair)

lemma round_step_fips:
  "m ! t = fips_W data t \<Longrightarrow> round_step m t r = fips_round data r t"
  using regs_exhaust [of r] by (auto simp: round_step_def fips_functions CH_fips MAJ_fips Let_def)

lemma rounds_fips:
  "fold (round_step (m_schedule data)) [0..<64] r = foldl (fips_round data) r [0..<64]"
  unfolding foldl_conv_fold
  by (rule fold_cong) (simp_all add: fun_eq_iff round_step_fips m_schedule_W)

lemma list8: "length s = 8 \<Longrightarrow> s = [s ! 0, s ! 1, s ! 2, s ! 3, s ! 4, s ! 5, s ! 6, s ! 7]"
  by (simp add: list_eq_iff_nth_eq less_Suc_eq numeral_eq_Suc)

lemma transform_fips:
  assumes "length (ctx_state ctx) = 8"
  shows "sha256_transform ctx data = ctx\<lparr>ctx_state := fips_compress (ctx_state ctx) data\<rparr>"
proof -
  obtain a b c d e f g h where r: "foldl (fips_round data) (list_regs (ctx_state ctx)) [0..<64] =
      (a, b, c, d, e, f, g, h)" using regs_exhaust by blast
  have "fips_compress (ctx_state ctx) data =
      map2 (+) (ctx_state ctx) [a, b, c, d, e, f, g, h]"
    by (simp add: fips_compress_def r)
  also have "\<dots> = [ctx_state ctx ! 0 + a, ctx_state ctx ! 1 + b, ctx_state ctx ! 2 + c,
      ctx_state ctx ! 3 + d, ctx_state ctx ! 4 + e, ctx_state ctx ! 5 + f, ctx_state ctx ! 6 + g,
      ctx_state ctx ! 7 + h]"
    by (subst list8 [OF assms]) simp
  finally show ?thesis
    unfolding sha256_transform_def Let_def rounds_fips list_regs_def [symmetric] r by simp
qed

lemma length_fips_compress [simp]: "length H = 8 \<Longrightarrow> length (fips_compress H blk) = 8"
  using regs_exhaust [of "foldl (fips_round blk) (list_regs H) [0..<64]"]
  by (auto simp: fips_compress_def)

lemma length_fips_hash: "length H = 8 \<Longrightarrow> length (fips_hash H bs) = 8"
  by (induction H bs rule: fips_hash.induct) (simp add: fips_hash.simps)

lemma fips_hash_short: "length bs < 64 \<Longrightarrow> fips_hash H bs = H"
  by (simp add: fips_hash.simps)

lemma fips_hash_block: "length blk = 64 \<Longrightarrow> fips_hash H (blk @ bs) = fips_hash (fips_compress H blk) bs"
  by (simp add: fips_hash.simps [of H "blk @ bs"])

lemma fips_hash_append:
  "64 dvd length xs \<Longrightarrow> fips_hash H (xs @ ys) = fips_hash (fips_hash H xs) ys"
proof (induction H xs rule: fips_hash.induct)
  case (1 H xs)
  show ?case
  proof (cases "length xs < 64")
    case True
    with "1.prems" have "xs = []" by (auto dest: dvd_imp_le)
    then show ?thesis by (simp add: fips_hash_short)
  next
    case False
    with "1.prems" have "64 dvd length (drop 64 xs)" by simp
    with False "1.IH" show ?thesis
      by (simp add: fips_hash.simps [of H xs] fips_hash.simps [of H "xs @ ys"])
  qed
qed

section \<open>The streaming context\<close>

text \<open>
  The invariant of the context between calls: of the bytes fed so far, \<open>full\<close> has been
  compressed in whole blocks and \<open>part\<close> waits in the buffer.
\<close>

definition sha_ctx :: "byte list \<Rightarrow> byte list \<Rightarrow> SHA256_CTX \<Rightarrow> bool" where
  "sha_ctx full part ctx \<longleftrightarrow>
     64 dvd length full \<and> length part < 64 \<and> length (ctx_data ctx) = 64 \<and>
     take (length part) (ctx_data ctx) = part \<and> ctx_datalen ctx = word_of_nat (length part) \<and>
     ctx_bitlen ctx = word_of_nat (8 * length full) \<and> ctx_state ctx = fips_hash H_init full"

lemma length_H_init [simp]: "length H_init = 8"
  by (simp add: H_init_def)

lemma sha_ctx_init: "length (ctx_data ctx) = 64 \<Longrightarrow> sha_ctx [] [] (sha256_init ctx)"
  by (simp add: sha_ctx_def sha256_init_def fips_hash_short)

lemma sha_ctx_byte:
  assumes "sha_ctx full part ctx"
  shows "if length part < 63 then sha_ctx full (part @ [b]) (update_byte b ctx)
         else sha_ctx (full @ part @ [b]) [] (update_byte b ctx)"
proof -
  let ?d = "(ctx_data ctx)[length part := b]"
  have part: "length part < 64" "length (ctx_data ctx) = 64" "take (length part) (ctx_data ctx) = part"
    and dl: "ctx_datalen ctx = word_of_nat (length part)"
    and st: "ctx_state ctx = fips_hash H_init full" and full: "64 dvd length full"
    and bl: "ctx_bitlen ctx = word_of_nat (8 * length full)"
    using assms by (simp_all add: sha_ctx_def)
  have un: "unat (word_of_nat (length part) :: u32) = length part"
    using part(1) by (simp add: unat_of_nat)
  have d: "take (Suc (length part)) ?d = part @ [b]"
    using part by (simp add: take_Suc_conv_app_nth)
  have full_iff: "(word_of_nat (length part) + 1 :: u32) = 64 \<longleftrightarrow> length part = 63"
  proof -
    have "(word_of_nat (length part) + 1 :: u32) = word_of_nat (Suc (length part))" by simp
    moreover have "unat (word_of_nat (Suc (length part)) :: u32) = Suc (length part)"
      using part(1) by (subst unat_of_nat) simp
    ultimately have "unat (word_of_nat (length part) + 1 :: u32) = Suc (length part)"
      by (simp add: add.commute)
    then have "(word_of_nat (length part) + 1 :: u32) = 64 \<longleftrightarrow> Suc (length part) = unat (64 :: u32)"
      by (simp only: word_unat_eq_iff)
    then show ?thesis by simp
  qed
  show ?thesis
  proof (cases "length part < 63")
    case True
    with full_iff have "(word_of_nat (length part) + 1 :: u32) \<noteq> 64" by auto
    with True show ?thesis
      using part d un dl st full bl
      by (simp add: sha_ctx_def update_byte_def Let_def add.commute)
  next
    case False
    then have "length part = 63" using part(1) by simp
    moreover have "fips_hash H_init (full @ part @ [b]) = fips_compress (fips_hash H_init full) ?d"
      using full d part \<open>length part = 63\<close>
      by (simp add: fips_hash_append fips_hash_block [of "part @ [b]" _ "[]", simplified] fips_hash_short)
    ultimately show ?thesis
      using part un dl st full bl full_iff
      by (simp add: sha_ctx_def update_byte_def Let_def transform_fips length_fips_hash algebra_simps)
  qed
qed

lemma sha_ctx_bytes:
  "sha_ctx full part ctx \<Longrightarrow>
     \<exists>full' part'. full' @ part' = full @ part @ data \<and> sha_ctx full' part' (fold update_byte data ctx)"
proof (induction data arbitrary: full part ctx)
  case Nil
  then show ?case by auto
next
  case (Cons b data)
  obtain f p where fp: "f @ p = full @ part @ [b]" "sha_ctx f p (update_byte b ctx)"
    using sha_ctx_byte [OF Cons.prems, of b] by (cases "length part < 63") auto
  from Cons.IH [OF fp(2)] obtain f' p' where "f' @ p' = f @ p @ data"
    "sha_ctx f' p' (fold update_byte data (update_byte b ctx))" by blast
  then show ?case using fp(1) by (metis append.assoc append_Cons append_Nil fold_simps(2))
qed

section \<open>Padding\<close>

lemma zero_fill_eq:
  "i \<le> n \<Longrightarrow> n \<le> length d \<Longrightarrow> zero_fill i n d = take i d @ replicate (n - i) 0 @ drop n d"
proof (induction n rule: dec_induct)
  case base
  then show ?case by (simp add: zero_fill_def)
next
  case (step n)
  have "zero_fill i (Suc n) d = (zero_fill i n d)[n := 0]"
    using step.hyps by (simp add: zero_fill_def)
  also have "\<dots> = (take i d @ replicate (n - i) 0 @ drop n d)[n := 0]"
    using step by simp
  also have "\<dots> = take i d @ replicate (n - i) 0 @ (0 # drop (Suc n) d)"
    using step.hyps step.prems by (simp add: list_update_append Cons_nth_drop_Suc [symmetric])
  also have "\<dots> = take i d @ replicate (Suc n - i) 0 @ drop (Suc n) d"
    using step.hyps by (simp add: Suc_diff_le replicate_append_same [symmetric])
  finally show ?case .
qed

lemma put_bitlen_eq:
  assumes d: "length d = 64"
  shows "put_bitlen n d = take 56 d @ be64 n"
proof -
  let ?p = "put_bitlen n d"
  have l: "length ?p = 64" using d by (simp add: put_bitlen_def)
  have "drop 56 ?p = map (\<lambda>i. ?p ! i) [56..<64]"
    by (rule nth_equalityI) (simp_all add: l del: upt_rec_numeral)
  moreover have "[56..<64] = [56, 57, 58, 59, 60, 61, 62, 63]" by code_simp
  ultimately have tl: "drop 56 ?p = map (\<lambda>i. ?p ! i) [56, 57, 58, 59, 60, 61, 62, 63]" by simp
  have hd: "take 56 ?p = take 56 d" by (simp add: put_bitlen_def)
  have "?p = take 56 ?p @ drop 56 ?p" by (rule append_take_drop_id [symmetric])
  also have "\<dots> = take 56 d @ map (\<lambda>i. ?p ! i) [56, 57, 58, 59, 60, 61, 62, 63]"
    by (simp only: hd tl)
  also have "\<dots> = take 56 d @ be64 n"
    using d by (simp add: put_bitlen_def be64_def)
  finally show ?thesis .
qed

lemma be64_of_nat:
  "be64 (word_of_nat n) = be32 (word_of_nat (n div 2 ^ 32)) @ be32 (word_of_nat n)"
proof -
  have nd: "n div 2 ^ 32 = drop_bit 32 n" by (simp add: drop_bit_eq_div)
  have hi: "(ucast (drop_bit (32 + j) (word_of_nat n :: u64)) :: byte) =
      ucast (drop_bit j (word_of_nat (n div 2 ^ 32) :: u32))" if "j \<le> 24" for j
    using that unfolding nd by (intro bit_word_eqI) (simp add: bit_simps add.assoc)
  have lo: "(ucast (drop_bit j (word_of_nat n :: u64)) :: byte) =
      ucast (drop_bit j (word_of_nat n :: u32))" if "j \<le> 24" for j
    using that by (intro bit_word_eqI) (simp add: bit_simps)
  show ?thesis
    using hi [of 24] hi [of 16] hi [of 8] hi [of 0] lo [of 24] lo [of 16] lo [of 8] lo [of 0]
    by (simp add: be64_def be32_def)
qed

lemma final_hash_eq: "length s = 8 \<Longrightarrow> final_hash s = concat (map be32 s)"
proof -
  assume s: "length s = 8"
  have cut: "(ucast (x AND 0xff :: u32) :: byte) = ucast x" for x
  proof -
    have m: "(0xff :: u32) = mask 8" by (simp add: mask_eq_exp_minus_1)
    show ?thesis unfolding m by (rule bit_word_eqI) (simp add: bit_simps)
  qed
  have "[0..<32] = [0, 1, 2, 3, 4, 5, 6, 7, 8, 9, 10, 11, 12, 13, 14, 15, 16, 17, 18, 19, 20, 21,
      22, 23, 24, 25, 26, 27, 28, 29, 30, 31]" by code_simp
  then have "final_hash s = concat (map be32 [s ! 0, s ! 1, s ! 2, s ! 3, s ! 4, s ! 5, s ! 6, s ! 7])"
    by (simp add: final_hash_def be32_def cut)
  then show ?thesis by (simp only: list8 [OF s, symmetric])
qed

lemma final_bitlen:
  assumes "sha_ctx full part ctx"
  shows "ctx_bitlen ctx + ucast (ctx_datalen ctx * 8) = word_of_nat (8 * length (full @ part))"
proof -
  have p: "length part < 64" using assms by (simp add: sha_ctx_def)
  have "ucast (word_of_nat (length part) * 8 :: u32) = (word_of_nat (8 * length part) :: u64)"
  proof (rule iffD2 [OF word_unat_eq_iff])
    have "unat (word_of_nat (8 * length part) :: u32) = 8 * length part"
      using p by (subst unat_of_nat) simp
    then have "unat (word_of_nat (length part) * 8 :: u32) = 8 * length part"
      by (simp add: mult.commute)
    moreover have "unat (word_of_nat (8 * length part) :: u64) = 8 * length part"
      using p by (subst unat_of_nat) simp
    ultimately show "unat (ucast (word_of_nat (length part) * 8 :: u32) :: u64) =
        unat (word_of_nat (8 * length part) :: u64)"
      using p by (simp add: unsigned_ucast_eq take_bit_nat_eq_self)
  qed
  then show ?thesis using assms by (simp add: sha_ctx_def distrib_left)
qed

text \<open>The last block, or the last two, are the padded rest of the message.\<close>

lemma padding_zeros:
  assumes "64 dvd n" "m < 64"
  shows "nat ((55 - int (n + m)) mod 64) = (if m < 56 then 55 - m else 119 - m)"
proof -
  obtain j where n: "n = 64 * j" using assms(1) by blast
  have "(55 - int (n + m)) mod 64 = (55 - int m + 64 * (- int j)) mod 64"
    by (simp add: n algebra_simps)
  also have "\<dots> = (55 - int m) mod 64" by (rule mod_mult_self2)
  also have "\<dots> = (if m < 56 then 55 - int m else 119 - int m)"
  proof (cases "m < 56")
    case False
    have "(55 - int m) mod 64 = (55 - int m + 64) mod 64"
      by (rule mod_add_self2 [symmetric])
    also have "\<dots> = 119 - int m" using False assms(2) by (subst mod_pos_pos_trivial) auto
    finally show ?thesis using False by simp
  qed (simp add: mod_pos_pos_trivial)
  finally show ?thesis by auto
qed

lemma sha256_final_digest:
  assumes ctx: "sha_ctx full part ctx"
  shows "snd (sha256_final ctx) = fips_sha256 (full @ part)"
proof -
  let ?lp = "length part" and ?H = "fips_hash H_init full"
  let ?tail = "be64 (word_of_nat (8 * length (full @ part)))"
  have full: "64 dvd length full" and lp: "?lp < 64" and d: "length (ctx_data ctx) = 64"
    "take ?lp (ctx_data ctx) = part" and dl: "ctx_datalen ctx = word_of_nat ?lp"
    and st: "ctx_state ctx = ?H"
    using ctx by (simp_all add: sha_ctx_def)
  have un: "unat (ctx_datalen ctx) = ?lp" using lp by (simp add: dl unat_of_nat)
  have small: "ctx_datalen ctx < 56 \<longleftrightarrow> ?lp < 56" using un by (simp add: word_less_nat_alt)
  have buf: "take (Suc ?lp) ((ctx_data ctx)[?lp := 0x80]) = part @ [0x80]"
    using d lp by (simp add: take_Suc_conv_app_nth)
  have H8: "length ?H = 8" by (simp add: length_fips_hash)
  have pad: "fips_pad (full @ part) = full @ part @ 0x80
      # replicate (if ?lp < 56 then 55 - ?lp else 119 - ?lp) 0 @ ?tail"
    unfolding fips_pad_def be64_of_nat
    by (simp only: padding_zeros [OF full lp] length_append append_assoc append_Cons append_Nil)
  have last: "fips_hash H blk = fips_compress H blk" if "length blk = 64" for H blk
    using fips_hash_block [of blk H "[]"] that by (simp add: fips_hash_short)
  have tail: "length (be64 x) = 8" for x by (simp add: be64_def)
  show ?thesis
  proof (cases "?lp < 56")
    case True
    let ?b = "part @ 0x80 # replicate (55 - ?lp) 0"
    have z: "zero_fill (Suc ?lp) 56 ((ctx_data ctx)[?lp := 0x80]) = ?b @ drop 56 ((ctx_data ctx)[?lp := 0x80])"
      using True d buf by (subst zero_fill_eq) auto
    have "length ?b = 56" using True by simp
    then have t: "take 56 (?b @ xs) = ?b" for xs by (metis append_eq_conv_conj)
    have "length (zero_fill (Suc ?lp) 56 ((ctx_data ctx)[?lp := 0x80])) = 64"
      unfolding z using True d by simp
    then have "put_bitlen (ctx_bitlen ctx + ucast (ctx_datalen ctx * 8))
        (zero_fill (Suc ?lp) 56 ((ctx_data ctx)[?lp := 0x80])) = ?b @ ?tail"
      by (simp only: put_bitlen_eq z t final_bitlen [OF ctx])
    then have "snd (sha256_final ctx) =
        concat (map be32 (fips_compress ?H (part @ 0x80 # replicate (55 - ?lp) 0 @ ?tail)))"
      using True H8 st
      by (simp add: sha256_final_def Let_def un small transform_fips final_hash_eq)
    also have "\<dots> = fips_sha256 (full @ part)"
      using True lp tail by (simp add: fips_sha256_def pad fips_hash_append [OF full] last)
    finally show ?thesis .
  next
    case False
    let ?b1 = "part @ 0x80 # replicate (63 - ?lp) 0"
    have z: "zero_fill (Suc ?lp) 64 ((ctx_data ctx)[?lp := 0x80]) = ?b1"
      using d buf lp by (subst zero_fill_eq) auto
    have b1: "length ?b1 = 64" using lp by simp
    have "zero_fill 0 56 ?b1 = replicate 56 0 @ drop 56 ?b1"
      using b1 by (subst zero_fill_eq) simp_all
    then have "put_bitlen (ctx_bitlen ctx + ucast (ctx_datalen ctx * 8)) (zero_fill 0 56 ?b1) =
        replicate 56 0 @ ?tail"
      using b1 by (subst put_bitlen_eq) (simp_all add: final_bitlen [OF ctx])
    then have "snd (sha256_final ctx) =
        concat (map be32 (fips_compress (fips_compress ?H ?b1) (replicate 56 0 @ ?tail)))"
      using False H8 st
      by (simp add: sha256_final_def Let_def un small transform_fips final_hash_eq z)
    moreover have "replicate (119 - ?lp) (0 :: byte) = replicate (63 - ?lp) 0 @ replicate 56 0"
      using lp by (simp add: replicate_add [symmetric])
    ultimately show ?thesis
      using False b1 tail fips_hash_block [OF b1]
      by (simp add: fips_sha256_def pad fips_hash_append [OF full] last)
  qed
qed

section \<open>The hash interface\<close>

text \<open>
  What a client of a streaming hash relies on. \<open>fed m c\<close> says that the context \<open>c\<close> has been
  given the bytes \<open>m\<close> so far.
\<close>

locale stream_hash =
  fixes init :: "'c \<Rightarrow> 'c"
    and update :: "'c \<Rightarrow> byte list \<Rightarrow> 'c option"
    and final :: "'c \<Rightarrow> 'c \<times> byte list"
    and buffer_ok :: "'c \<Rightarrow> bool"
    and fed :: "byte list \<Rightarrow> 'c \<Rightarrow> bool"
    and digest :: "byte list \<Rightarrow> byte list"
    and limit :: nat
  assumes fed_init: "buffer_ok c \<Longrightarrow> fed [] (init c)"
    and fed_update: "fed m c \<Longrightarrow> length d < limit \<Longrightarrow> \<exists>c'. update c d = Some c' \<and> fed (m @ d) c'"
    and fed_final: "fed m c \<Longrightarrow> snd (final c) = digest m"
begin

fun feed :: "'c \<Rightarrow> byte list list \<Rightarrow> 'c option" where
  "feed c [] = Some c"
| "feed c (d # ds) = Option.bind (update c d) (\<lambda>c'. feed c' ds)"

lemma feed_fed:
  "fed m c \<Longrightarrow> \<forall>d\<in>set ds. length d < limit \<Longrightarrow> \<exists>c'. feed c ds = Some c' \<and> fed (m @ concat ds) c'"
proof (induction ds arbitrary: m c)
  case Nil
  then show ?case by simp
next
  case (Cons d ds)
  from fed_update [OF Cons.prems(1), of d] Cons.prems(2)
  obtain c1 where c1: "update c d = Some c1" "fed (m @ d) c1" by auto
  from Cons.IH [OF c1(2)] Cons.prems(2) c1(1) show ?case by auto
qed

lemma hash_once:
  "buffer_ok c \<Longrightarrow> length d < limit \<Longrightarrow> \<exists>c'. update (init c) d = Some c' \<and> snd (final c') = digest d"
  using fed_update [OF fed_init, of c d] fed_final by fastforce

lemma hash_chunks:
  "buffer_ok c \<Longrightarrow> \<forall>d\<in>set ds. length d < limit \<Longrightarrow>
     \<exists>c'. feed (init c) ds = Some c' \<and> snd (final c') = digest (concat ds)"
  using feed_fed [OF fed_init, of c ds] fed_final by fastforce

end

definition sha_fed :: "byte list \<Rightarrow> SHA256_CTX \<Rightarrow> bool" where
  "sha_fed m ctx \<longleftrightarrow> (\<exists>full part. m = full @ part \<and> sha_ctx full part ctx)"

interpretation sha256: stream_hash sha256_init sha256_update sha256_final
  "\<lambda>ctx. length (ctx_data ctx) = 64" sha_fed fips_sha256 "2 ^ 32"
proof
  fix c :: SHA256_CTX and m d :: "byte list"
  show "length (ctx_data c) = 64 \<Longrightarrow> sha_fed [] (sha256_init c)"
    unfolding sha_fed_def using sha_ctx_init by blast
  show "sha_fed m c \<Longrightarrow> length d < 2 ^ 32 \<Longrightarrow> \<exists>c'. sha256_update c d = Some c' \<and> sha_fed (m @ d) c'"
  proof -
    assume "sha_fed m c" and d: "length d < 2 ^ 32"
    then obtain full part where m: "m = full @ part" and ctx: "sha_ctx full part c"
      unfolding sha_fed_def by blast
    from sha_ctx_bytes [OF ctx, of d] obtain f p where "f @ p = full @ part @ d"
      "sha_ctx f p (fold update_byte d c)" by blast
    then have "sha_fed (m @ d) (fold update_byte d c)"
      unfolding sha_fed_def m by (metis append.assoc)
    moreover have "sha256_update c d = Some (fold update_byte d c)"
      using d by (simp only: sha256_update_def if_True)
    ultimately show ?thesis by blast
  qed
  show "sha_fed m c \<Longrightarrow> snd (sha256_final c) = fips_sha256 m"
    unfolding sha_fed_def using sha256_final_digest by blast
qed

lemma length_fips_sha256 [simp]: "length (fips_sha256 msg) = 32"
proof -
  have "length (concat (map be32 hs)) = 4 * length hs" for hs by (induction hs) auto
  then show ?thesis by (simp add: fips_sha256_def length_fips_hash)
qed

section \<open>The constants\<close>

text \<open>
  The standard defines \<open>K\<close> as the first 32 bits of the fractional parts of the cube roots of
  the first 64 primes, and the initial hash as those of the square roots of the first 8:
  with \<open>a\<close> the integer part, \<open>(a * 2 ^ 32 + k) / 2 ^ 32\<close> is the root cut to 32 bits. A number
  below 312 is prime when no smaller prime up to 17 divides it.
\<close>

definition small_primes :: "nat list" where
  "small_primes = filter (\<lambda>p. list_all (\<lambda>d. d < p \<longrightarrow> p mod d \<noteq> 0) [2, 3, 5, 7, 11, 13, 17]) [2..<312]"

definition root_frac :: "nat \<Rightarrow> nat \<Rightarrow> nat \<Rightarrow> bool" where
  "root_frac e p k \<longleftrightarrow>
     (let a = length (filter (\<lambda>a. a ^ e \<le> p) [1..<18]); n = a * 2 ^ 32 + k
      in n ^ e \<le> p * 2 ^ (32 * e) \<and> p * 2 ^ (32 * e) < (n + 1) ^ e)"

text \<open>Integer parts of the roots, by counting.\<close>

lemma int_root:
  assumes "1 \<le> a" "a < 18" "a ^ e \<le> p" "p < (a + 1) ^ e"
  shows "length (filter (\<lambda>b. b ^ e \<le> p) [1..<18]) = a"
proof -
  have "b ^ e \<le> p \<longleftrightarrow> b < a + 1" for b
    using assms(3,4) power_mono [of b a e] power_mono [of "a + 1" b e] by (cases "b < a + 1") auto
  then have "length (filter (\<lambda>b. b ^ e \<le> p) [1..<18]) = card ({b. b < a + 1} \<inter> set [1..<18])"
    by (simp add: distinct_length_filter)
  also have "{b. b < a + 1} \<inter> set [1..<18] = {1..a}"
    using assms(1,2) by auto
  finally show ?thesis by simp
qed

lemma root_fracI:
  assumes "1 \<le> a" "a < 18" "a ^ e \<le> p" "p < (a + 1) ^ e"
    and "(a * 2 ^ 32 + k) ^ e \<le> p * 2 ^ (32 * e)" "p * 2 ^ (32 * e) < (a * 2 ^ 32 + k + 1) ^ e"
  shows "root_frac e p k"
  using assms(5,6) unfolding root_frac_def int_root [OF assms(1-4)] Let_def by simp

text \<open>The table row by row, each entry with the integer part of its root.\<close>

definition root_row :: "nat \<Rightarrow> (nat \<times> nat) list \<Rightarrow> u32 list \<Rightarrow> bool" where
  "root_row e aps ks \<longleftrightarrow> list_all2 (\<lambda>(a, p) k. 1 \<le> a \<and> a < 18 \<and> a ^ e \<le> p \<and> p < (a + 1) ^ e \<and>
     (a * 2 ^ 32 + unat k) ^ e \<le> p * 2 ^ (32 * e) \<and>
     p * 2 ^ (32 * e) < (a * 2 ^ 32 + unat k + 1) ^ e) aps ks"


lemma root_rows:
  "list_all2 (root_row e) apss kss \<Longrightarrow>
     list_all2 (\<lambda>p k. root_frac e p (unat k)) (map snd (concat apss)) (concat kss)"
proof (induction apss kss rule: list_all2_induct)
  case (Cons aps apss ks kss)
  have "list_all2 (\<lambda>p k. root_frac e p (unat k)) (map snd aps) ks"
    using Cons.hyps(1) unfolding root_row_def list_all2_map1
    by (rule list_all2_mono) (auto intro: root_fracI)
  with Cons.IH show ?case by (simp add: list_all2_appendI)
qed simp

definition cube_roots :: "(nat \<times> nat) list list" where
  "cube_roots = [
    [(1, 2), (1, 3), (1, 5), (1, 7), (2, 11), (2, 13), (2, 17), (2, 19)],
    [(2, 23), (3, 29), (3, 31), (3, 37), (3, 41), (3, 43), (3, 47), (3, 53)],
    [(3, 59), (3, 61), (4, 67), (4, 71), (4, 73), (4, 79), (4, 83), (4, 89)],
    [(4, 97), (4, 101), (4, 103), (4, 107), (4, 109), (4, 113), (5, 127), (5, 131)],
    [(5, 137), (5, 139), (5, 149), (5, 151), (5, 157), (5, 163), (5, 167), (5, 173)],
    [(5, 179), (5, 181), (5, 191), (5, 193), (5, 197), (5, 199), (5, 211), (6, 223)],
    [(6, 227), (6, 229), (6, 233), (6, 239), (6, 241), (6, 251), (6, 257), (6, 263)],
    [(6, 269), (6, 271), (6, 277), (6, 281), (6, 283), (6, 293), (6, 307), (6, 311)]]"

lemma small_primes_eq: "small_primes = [
     2, 3, 5, 7, 11, 13, 17, 19, 23, 29, 31, 37, 41, 43, 47, 53,
     59, 61, 67, 71, 73, 79, 83, 89, 97, 101, 103, 107, 109, 113, 127, 131,
     137, 139, 149, 151, 157, 163, 167, 173, 179, 181, 191, 193, 197, 199, 211, 223,
     227, 229, 233, 239, 241, 251, 257, 263, 269, 271, 277, 281, 283, 293, 307, 311]"
  by (simp add: small_primes_def)

lemma small_primes_roots: "small_primes = map snd (concat cube_roots)"
  by (simp add: small_primes_eq cube_roots_def)

lemma k_table_cube_roots: "list_all2 (\<lambda>p k. root_frac 3 p (unat k)) small_primes k_table"
  unfolding small_primes_roots k_table_def
  by (rule root_rows, unfold cube_roots_def list_all2_Cons root_row_def)
    (simp flip: numeral_2_eq_2)

lemma H_init_square_roots:
  "list_all2 (\<lambda>p k. root_frac 2 p (unat k)) (take 8 small_primes) H_init"
proof -
  have "root_row 2 [(1, 2), (1, 3), (2, 5), (2, 7), (3, 11), (3, 13), (4, 17), (4, 19)] H_init"
    by (simp add: root_row_def H_init_def flip: numeral_2_eq_2)
  then have "list_all2 (\<lambda>p k. root_frac 2 p (unat k)) [2, 3, 5, 7, 11, 13, 17, 19] H_init"
    using root_rows [of 2 "[[(1, 2), (1, 3), (2, 5), (2, 7), (3, 11), (3, 13), (4, 17), (4, 19)]]" "[H_init]"] by simp
  moreover have "take 8 small_primes = [2, 3, 5, 7, 11, 13, 17, 19]"
    by (simp add: small_primes_eq)
  ultimately show ?thesis by simp
qed

section \<open>Properties\<close>

text \<open>C31: feeding a message in any number of \<open>sha256_update\<close> calls of fewer than \<open>2 ^ 32\<close> bytes
  each, between \<open>sha256_init\<close> and \<open>sha256_final\<close>, ends, and gives the 32 bytes that FIPS 180-4
  defines as the SHA-256 digest of the concatenated message.\<close>

theorem sha256_is_fips:
  assumes "length (ctx_data ctx) = 64" "\<forall>d \<in> set chunks. length d < 2 ^ 32"
  shows "\<exists>ctx'. sha256.feed (sha256_init ctx) chunks = Some ctx' \<and>
    snd (sha256_final ctx') = fips_sha256 (concat chunks) \<and>
    length (snd (sha256_final ctx')) = 32"
  using sha256.hash_chunks [OF assms] by auto

lemma sha256_is_fips_witness:
  "let ctx = \<lparr>ctx_data = replicate 64 0, ctx_datalen = 0, ctx_bitlen = 0, ctx_state = []\<rparr> in
   \<exists>ctx'. sha256.feed (sha256_init ctx) [[0x61], [0x62, 0x63]] = Some ctx' \<and>
     snd (sha256_final ctx') = fips_sha256 [0x61, 0x62, 0x63]"
  using sha256_is_fips [of "\<lparr>ctx_data = replicate 64 0, ctx_datalen = 0, ctx_bitlen = 0, ctx_state = []\<rparr>"
      "[[0x61], [0x62, 0x63]]"] by (auto simp: Let_def)

text \<open>The two constant tables of sha256.cpp are the ones of the standard: the first 32
  bits of the fractional parts of the cube roots of the first 64 primes and of the square
  roots of the first 8.\<close>

theorem sha256_constants:
  "list_all2 (\<lambda>p k. root_frac 3 p (unat k)) small_primes k_table \<and>
   list_all2 (\<lambda>p k. root_frac 2 p (unat k)) (take 8 small_primes) H_init \<and> length k_table = 64"
  using k_table_cube_roots H_init_square_roots by (simp add: k_table_def)

end
