(* ===== verification/NL_N64.thy ===== *)
theory NL_N64
  imports NL_Packets "HOL-Library.Sublist"
begin

text \<open>
  The console's library, \<^verbatim>\<open>N64 Library/netlib.c\<close>: the packet being written, the registered
  callbacks, and polling. Under it stands the generic layer of the UNFLoader USB library
  (\<^verbatim>\<open>usb.c\<close>, shipped with the example games) as far as \<open>netlib.c\<close> relies on it: the message
  being read with a count of the bytes left, the messages the cartridge has waiting, and the
  messages written. The lemmas show that what the console builds is what the client parses,
  that what the client sends is what the callback reads, and where the bounds checks stop.
\<close>

section \<open>The USB library\<close>

definition CART_NONE :: int where
  "CART_NONE = 0"

definition DATATYPE_TEXT :: byte where
  "DATATYPE_TEXT = 0x01"

text \<open>
  \<open>usb_msg\<close> are the bytes of the current message in cartridge memory; \<open>usb_waiting\<close> what the
  cartridge reports next, \<open>usb_written\<close> what was written to it, \<open>usb_driver\<close> how the flashcart's
  write routine ends; the routines themselves are in \<open>NL_Flashcart\<close>. The re-poll the 64Drive
  needs after a read is left out.
\<close>

record usb =
  usb_cart :: int
  usb_datatype :: byte
  usb_datasize :: nat
  usb_dataleft :: nat
  usb_msg :: "byte list"
  usb_waiting :: "(byte \<times> byte list) list"
  usb_written :: "(byte \<times> byte list) list"
  usb_driver :: "byte \<Rightarrow> byte list \<Rightarrow> int \<times> bool"
  usb_didtimeout :: bool

text \<open>The type byte of the header \<open>usb_poll\<close> returns: what \<open>USBHEADER_GETTYPE\<close> extracts.\<close>

definition usb_poll :: "usb \<Rightarrow> byte \<times> usb" where
  "usb_poll u =
     (if usb_cart u = CART_NONE then (0, u)
      else if usb_dataleft u \<noteq> 0 then (usb_datatype u, u)
      else case usb_waiting u of
          [] \<Rightarrow> (0, u\<lparr>usb_datatype := 0, usb_datasize := 0\<rparr>)
        | (t, d) # ms \<Rightarrow>
            (t, u\<lparr>usb_datatype := t, usb_datasize := length d, usb_dataleft := length d,
                  usb_msg := d, usb_waiting := ms\<rparr>))"

text \<open>The bytes \<open>usb_read\<close> copies to its destination: at most what is left of the message.\<close>

definition usb_read :: "nat \<Rightarrow> usb \<Rightarrow> byte list \<times> usb" where
  "usb_read nbytes u =
     (if usb_cart u = CART_NONE \<or> usb_dataleft u = 0 then ([], u)
      else let n = min nbytes (usb_dataleft u) in
        (take n (drop (usb_datasize u - usb_dataleft u) (usb_msg u)),
         u\<lparr>usb_dataleft := usb_dataleft u - n\<rparr>))"

definition usb_skip :: "nat \<Rightarrow> usb \<Rightarrow> usb" where
  "usb_skip nbytes u = u\<lparr>usb_dataleft := usb_dataleft u - nbytes\<rparr>"

definition usb_purge :: "usb \<Rightarrow> usb" where
  "usb_purge u = u\<lparr>usb_dataleft := 0, usb_datatype := 0, usb_datasize := 0\<rparr>"

text \<open>
  \<open>usb_write\<close> answers 1 for success, 0 for failure and -1 for a timeout. What the driver of the
  flashcart answers, and what it leaves in \<open>usb_didtimeout\<close>, is \<open>usb_driver\<close>; only a message that
  was written to its end is in \<open>usb_written\<close>.
\<close>

definition usb_write :: "byte \<Rightarrow> byte list \<Rightarrow> usb \<Rightarrow> int \<times> usb" where
  "usb_write datatype data u =
     (if usb_cart u = CART_NONE \<or> usb_dataleft u \<noteq> 0 then (0, u)
      else case usb_driver u datatype data of (r, late) \<Rightarrow>
        (r, u\<lparr>usb_didtimeout := late,
             usb_written := (if r = 1 then usb_written u @ [(datatype, data)] else usb_written u)\<rparr>))"

text \<open>The cartridge takes the message, in time.\<close>

definition usb_accepts :: "usb \<Rightarrow> byte \<Rightarrow> byte list \<Rightarrow> bool" where
  "usb_accepts u datatype data \<longleftrightarrow> usb_driver u datatype data = (1, False)"

lemma usb_accepts_update [simp]:
  "usb_accepts (u\<lparr>usb_datatype := t\<rparr>) = usb_accepts u" "usb_accepts (u\<lparr>usb_datasize := n\<rparr>) = usb_accepts u"
  "usb_accepts (u\<lparr>usb_dataleft := n\<rparr>) = usb_accepts u" "usb_accepts (u\<lparr>usb_msg := bs\<rparr>) = usb_accepts u"
  "usb_accepts (u\<lparr>usb_waiting := ms\<rparr>) = usb_accepts u" "usb_accepts (u\<lparr>usb_written := ms\<rparr>) = usb_accepts u"
  "usb_accepts (u\<lparr>usb_didtimeout := b\<rparr>) = usb_accepts u"
  by (simp_all add: usb_accepts_def fun_eq_iff)

definition usb_timedout :: "usb \<Rightarrow> bool" where
  "usb_timedout u = usb_didtimeout u"

section \<open>State of the library\<close>

definition NETLIB_VERSION :: byte where
  "NETLIB_VERSION = 1"

definition PACKET_HEADERSIZE :: u32 where
  "PACKET_HEADERSIZE = 18"

definition DATATYPE_NETPACKET :: byte where
  "DATATYPE_NETPACKET = 0x27"

definition MAX_UNIQUEPACKETS :: nat where
  "MAX_UNIQUEPACKETS = 64"

definition N64_MAX_PACKETSIZE :: u32 where
  "N64_MAX_PACKETSIZE = 4 * 1024"

text \<open>A function pointer is the number of a function of the game; \<open>None\<close> is \<open>NULL\<close>.\<close>

record n64 =
  global_timeouttime :: u32
  global_writecursize :: u32
  global_writebuffer :: "byte list"
  global_clnumber :: byte
  global_lastpkt :: u64
  global_sendafterpoll :: bool
  global_disconnected :: bool
  global_funcptr_disconnect :: "nat option"
  global_funcptr_reconnect :: "nat option"
  global_funcptrs :: "nat option list"
  n64_usb :: usb

definition on_usb :: "(usb \<Rightarrow> usb) \<Rightarrow> 'a n64_scheme \<Rightarrow> 'a n64_scheme" where
  "on_usb f g = g\<lparr>n64_usb := f (n64_usb g)\<rparr>"

text \<open>A warning on the debug console.\<close>

definition warn :: "wxString \<Rightarrow> 'a n64_scheme \<Rightarrow> 'a n64_scheme" where
  "warn msg g = on_usb (\<lambda>u. snd (usb_write DATATYPE_TEXT (str_bytes msg) u)) g"

text \<open>
  \<open>memset\<close> is called with the value and the count exchanged: one byte of the callback table
  is set to the low byte of its size, and with four-byte pointers that size is 256, so the
  first pointer's first byte becomes zero; on a table of null pointers nothing changes, and a
  set pointer becomes another address. \<open>clobber\<close> gives that address as a function.
\<close>

definition netlib_initialize :: "(nat option \<Rightarrow> nat option) \<Rightarrow> usb \<Rightarrow> 'a n64_scheme \<Rightarrow> 'a n64_scheme" where
  "netlib_initialize clobber u g =
     (let buffer = (global_writebuffer g)[0 := 0x4E, 1 := 0x4C, 2 := 0x50, 3 := NETLIB_VERSION];
          buffer = fold (\<lambda>i b. b[i := 0]) [6..<12] buffer
      in g\<lparr>n64_usb := u, global_writebuffer := buffer,
           global_funcptrs := (global_funcptrs g)[0 := clobber (global_funcptrs g ! 0)],
           global_clnumber := 0, global_sendafterpoll := False, global_disconnected := False,
           global_funcptr_disconnect := None, global_funcptr_reconnect := None,
           global_lastpkt := 0, global_timeouttime := 0\<rparr>)"

definition netlib_setclient :: "byte \<Rightarrow> 'a n64_scheme \<Rightarrow> 'a n64_scheme" where
  "netlib_setclient num g = g\<lparr>global_clnumber := num\<rparr>"

definition netlib_getclient :: "'a n64_scheme \<Rightarrow> byte" where
  "netlib_getclient g = global_clnumber g"

text \<open>\<open>to_cycles\<close> is the conversion macro of the console's SDK; its result is cut to 32 bits.\<close>

definition netlib_callback_disconnect :: "(u32 \<Rightarrow> u64) \<Rightarrow> u32 \<Rightarrow> nat option \<Rightarrow> 'a n64_scheme \<Rightarrow> 'a n64_scheme" where
  "netlib_callback_disconnect to_cycles timeout callback g =
     g\<lparr>global_timeouttime := ucast (to_cycles (timeout * 1000)), global_funcptr_disconnect := callback\<rparr>"

definition netlib_callback_reconnect :: "nat option \<Rightarrow> 'a n64_scheme \<Rightarrow> 'a n64_scheme" where
  "netlib_callback_reconnect callback g = g\<lparr>global_funcptr_reconnect := callback\<rparr>"

section \<open>Writing a packet\<close>

definition netlib_start :: "byte \<Rightarrow> 'a n64_scheme \<Rightarrow> 'a n64_scheme" where
  "netlib_start type g =
     g\<lparr>global_writebuffer := (global_writebuffer g)[4 := type, 5 := 0],
       global_writecursize := PACKET_HEADERSIZE\<rparr>"

text \<open>Stores into the write buffer at the cursor; a store outside the buffer is a fault.\<close>

definition store :: "byte list \<Rightarrow> 'a n64_scheme \<Rightarrow> 'a n64_scheme result" where
  "store bs g =
     (let n = unat (global_writecursize g) in
      if n + length bs \<le> length (global_writebuffer g)
      then Inr (g\<lparr>global_writebuffer := take n (global_writebuffer g) @ bs
                    @ drop (n + length bs) (global_writebuffer g),
                  global_writecursize := global_writecursize g + of_nat (length bs)\<rparr>)
      else Inl OutOfBounds)"

definition size_warning :: wxString where
  "size_warning = ''Warning: Writing more data than max packet size. Discarded!'' @ [CHR 0x0A, CHR 0x00]"

text \<open>The check every write function starts with; \<open>size_t\<close> has 32 bits on the console.\<close>

definition checked_store :: "u32 \<Rightarrow> byte list \<Rightarrow> 'a n64_scheme \<Rightarrow> 'a n64_scheme result" where
  "checked_store sz bs g =
     (if global_writecursize g + sz > N64_MAX_PACKETSIZE then Inr (warn size_warning g)
      else store bs g)"

text \<open>A number is stored most significant byte first, a float by its bit pattern.\<close>

definition netlib_writebyte :: "byte \<Rightarrow> 'a n64_scheme \<Rightarrow> 'a n64_scheme result" where
  "netlib_writebyte data g = checked_store 1 [data] g"

definition netlib_writeword :: "u16 \<Rightarrow> 'a n64_scheme \<Rightarrow> 'a n64_scheme result" where
  "netlib_writeword data g = checked_store 2 [ucast (drop_bit 8 data AND 0xFF), ucast (data AND 0xFF)] g"

definition netlib_writedword :: "u32 \<Rightarrow> 'a n64_scheme \<Rightarrow> 'a n64_scheme result" where
  "netlib_writedword data g = checked_store 4
     [ucast (drop_bit 24 data AND 0xFF), ucast (drop_bit 16 data AND 0xFF),
      ucast (drop_bit 8 data AND 0xFF), ucast (data AND 0xFF)] g"

definition netlib_writeqword :: "u64 \<Rightarrow> 'a n64_scheme \<Rightarrow> 'a n64_scheme result" where
  "netlib_writeqword data g = checked_store 8
     [ucast (drop_bit 56 data AND 0xFF), ucast (drop_bit 48 data AND 0xFF),
      ucast (drop_bit 40 data AND 0xFF), ucast (drop_bit 32 data AND 0xFF),
      ucast (drop_bit 24 data AND 0xFF), ucast (drop_bit 16 data AND 0xFF),
      ucast (drop_bit 8 data AND 0xFF), ucast (data AND 0xFF)] g"

definition netlib_writefloat :: "u32 \<Rightarrow> 'a n64_scheme \<Rightarrow> 'a n64_scheme result" where
  "netlib_writefloat bits g = checked_store 4 (be32 bits) g"

definition netlib_writedouble :: "u64 \<Rightarrow> 'a n64_scheme \<Rightarrow> 'a n64_scheme result" where
  "netlib_writedouble bits g = checked_store 8 (be64 bits) g"

text \<open>\<open>memory\<close> are the bytes from the pointer to the end of the object it points into.\<close>

definition netlib_writebytes :: "byte list \<Rightarrow> u32 \<Rightarrow> 'a n64_scheme \<Rightarrow> 'a n64_scheme result" where
  "netlib_writebytes memory sz g =
     (if global_writecursize g + sz > N64_MAX_PACKETSIZE then Inr (warn size_warning g)
      else rbind (rdn memory 0 (unat sz)) (\<lambda>bs. store bs g))"

definition netlib_setflags :: "byte \<Rightarrow> 'a n64_scheme \<Rightarrow> 'a n64_scheme" where
  "netlib_setflags flags g = g\<lparr>global_writebuffer := (global_writebuffer g)[5 := flags]\<rparr>"

section \<open>Polling\<close>

text \<open>
  The game: what calling one of its functions does to the state. \<open>None\<close> is a call that does
  not return. A local variable that \<open>usb_read\<close> does not fill keeps what the stack holds,
  \<open>junk\<close> per byte.
\<close>

record 'a game =
  game_on_packet :: "nat \<Rightarrow> u32 \<Rightarrow> 'a n64_scheme \<Rightarrow> 'a n64_scheme result option"
  game_on_event :: "nat \<Rightarrow> 'a n64_scheme \<Rightarrow> 'a n64_scheme result option"
  junk :: byte

definition usb_read_var :: "'a game \<Rightarrow> nat \<Rightarrow> 'a n64_scheme \<Rightarrow> byte list \<times> 'a n64_scheme" where
  "usb_read_var game n g =
     (case usb_read n (n64_usb g) of (bs, u) \<Rightarrow>
        (bs @ replicate (n - length bs) (junk game), g\<lparr>n64_usb := u\<rparr>))"

definition netlib_register :: "byte \<Rightarrow> nat option \<Rightarrow> 'a n64_scheme \<Rightarrow> 'a n64_scheme result" where
  "netlib_register type callback g =
     (if unat type > MAX_UNIQUEPACKETS
      then Inr (warn (''Warning: registering more callbacks than supporting. Registration discared!''
             @ [CHR 0x0A, CHR 0x00]) g)
      else if unat type < length (global_funcptrs g)
      then Inr (g\<lparr>global_funcptrs := (global_funcptrs g)[unat type := callback]\<rparr>)
      else Inl OutOfBounds)"

text \<open>
  The two callbacks on loss and return of the connection. \<open>usb_getcart\<close> is named without a
  call: the address of a function is never \<open>CART_NONE\<close>.
\<close>

definition poll_connection :: "'a game \<Rightarrow> u64 \<Rightarrow> 'a n64_scheme \<Rightarrow> 'a n64_scheme result option" where
  "poll_connection game curtime g =
     (if \<not> global_disconnected g \<and>
         (global_lastpkt g + ucast (global_timeouttime g) < curtime \<or> usb_timedout (n64_usb g))
      then let g = g\<lparr>global_disconnected := True\<rparr> in
        (case global_funcptr_disconnect g of None \<Rightarrow> Some (Inr g) | Some f \<Rightarrow> game_on_event game f g)
      else if global_disconnected g \<and> global_lastpkt g + ucast (global_timeouttime g) > curtime
      then let g = g\<lparr>global_disconnected := False\<rparr> in
        (case global_funcptr_reconnect g of None \<Rightarrow> Some (Inr g) | Some f \<Rightarrow> game_on_event game f g)
      else Some (Inr g))"

text \<open>
  One net packet: \<open>Inr (False, g)\<close> is the early return out of \<open>netlib_poll\<close>, \<open>Inr (True, g)\<close>
  goes on to purge and poll again.
\<close>

definition poll_packet :: "'a game \<Rightarrow> u64 \<Rightarrow> 'a n64_scheme \<Rightarrow> (bool \<times> 'a n64_scheme) result option" where
  "poll_packet game curtime g =
     (let g = on_usb (usb_skip 3) g;
          (v, g) = usb_read_var game 1 g
      in if v ! 0 > NETLIB_VERSION
         then Some (Inr (False, warn (''Warning: Unsupported packet version. Discarding!''
                 @ [CHR 0x0A, CHR 0x00]) (on_usb usb_purge g)))
         else
     (let (ty, g) = usb_read_var game 1 g;
          (flags, g) = usb_read_var game 1 g;
          g = on_usb (usb_skip 6) g;
          (recipients, g) = usb_read_var game 4 g;
          (sz, g) = usb_read_var game 2 g;
          type = unat (ty ! 0)
      in if length (global_funcptrs g) \<le> type then Some (Inl OutOfBounds)
         else case global_funcptrs g ! type of
             None \<Rightarrow> Some (Inr (False, warn (''Warning: Tried calling unregistered function!'' @ [CHR 0x0A, CHR 0x00])
                        (on_usb usb_purge g)))
           | Some f \<Rightarrow>
              (case game_on_packet game f (256 * ucast (sz ! 0) + ucast (sz ! 1)) g of
                 None \<Rightarrow> None
               | Some (Inl e) \<Rightarrow> Some (Inl e)
               | Some (Inr g) \<Rightarrow> Some (Inr (True, g\<lparr>global_lastpkt := curtime\<rparr>)))))"

text \<open>The loop over the incoming messages; it can run as long as messages keep coming, so it
  takes fuel, and \<open>None\<close> is a loop that has not ended within it.\<close>

fun poll_loop :: "nat \<Rightarrow> 'a game \<Rightarrow> u64 \<Rightarrow> byte \<Rightarrow> 'a n64_scheme \<Rightarrow> (bool \<times> 'a n64_scheme) result option" where
  "poll_loop 0 game curtime header g = (if header = 0 then Some (Inr (True, g)) else None)"
| "poll_loop (Suc fuel) game curtime header g =
     (if header = 0 then Some (Inr (True, g)) else
      case (if header = DATATYPE_NETPACKET then poll_packet game curtime g else Some (Inr (True, g))) of
        None \<Rightarrow> None
      | Some (Inl e) \<Rightarrow> Some (Inl e)
      | Some (Inr (False, g)) \<Rightarrow> Some (Inr (False, g))
      | Some (Inr (True, g)) \<Rightarrow>
          (let g = on_usb usb_purge g; (header, u) = usb_poll (n64_usb g)
           in poll_loop fuel game curtime header (g\<lparr>n64_usb := u\<rparr>)))"

definition send_queued :: "'a n64_scheme \<Rightarrow> 'a n64_scheme result" where
  "send_queued g =
     (if global_sendafterpoll g
      then rbind (rdn (global_writebuffer g) 0 (unat (global_writecursize g))) (\<lambda>bs.
        (case usb_write DATATYPE_NETPACKET bs (n64_usb g) of (r, u) \<Rightarrow>
          Inr (if r \<noteq> 0 then g\<lparr>n64_usb := u, global_sendafterpoll := False\<rparr> else g\<lparr>n64_usb := u\<rparr>)))
      else Inr g)"

definition netlib_poll :: "nat \<Rightarrow> 'a game \<Rightarrow> u64 \<Rightarrow> 'a n64_scheme \<Rightarrow> 'a n64_scheme result option" where
  "netlib_poll fuel game curtime g =
     (case poll_connection game curtime g of
        None \<Rightarrow> None
      | Some (Inl e) \<Rightarrow> Some (Inl e)
      | Some (Inr g) \<Rightarrow>
         (let (header, u) = usb_poll (n64_usb g) in
          case poll_loop fuel game curtime header (g\<lparr>n64_usb := u\<rparr>) of
            None \<Rightarrow> None
          | Some (Inl e) \<Rightarrow> Some (Inl e)
          | Some (Inr (False, g)) \<Rightarrow> Some (Inr g)
          | Some (Inr (True, g)) \<Rightarrow> Some (send_queued g)))"

section \<open>Sending a packet\<close>

text \<open>The recipients and the data size go into the header, then a poll sends the packet.\<close>

definition put_header :: "u32 \<Rightarrow> 'a n64_scheme \<Rightarrow> 'a n64_scheme" where
  "put_header recipients g =
     (let datasize = (ucast (global_writecursize g - PACKET_HEADERSIZE) :: u16);
          b = take 12 (global_writebuffer g) @ be32 recipients @ be16 datasize
                @ drop 18 (global_writebuffer g)
      in g\<lparr>global_writebuffer := b, global_sendafterpoll := True\<rparr>)"

definition netlib_broadcast :: "env \<Rightarrow> nat \<Rightarrow> 'a game \<Rightarrow> u64 \<Rightarrow> 'a n64_scheme \<Rightarrow> 'a n64_scheme result option" where
  "netlib_broadcast env fuel game curtime g =
     (let m = 0xFFFFFFFF AND NOT (c_shl1 env (uint (global_clnumber g) - 1))
      in netlib_poll fuel game curtime (put_header m g))"

definition netlib_send :: "env \<Rightarrow> nat \<Rightarrow> 'a game \<Rightarrow> u64 \<Rightarrow> byte \<Rightarrow> 'a n64_scheme \<Rightarrow> 'a n64_scheme result option" where
  "netlib_send env fuel game curtime client g =
     (let m = c_shl1 env (uint client) in netlib_poll fuel game curtime (put_header m g))"

definition netlib_sendtoserver :: "nat \<Rightarrow> 'a game \<Rightarrow> u64 \<Rightarrow> 'a n64_scheme \<Rightarrow> 'a n64_scheme result option" where
  "netlib_sendtoserver fuel game curtime g = netlib_poll fuel game curtime (put_header 0 g)"

section \<open>Reading a packet\<close>

text \<open>
  What the read functions leave in the variable their argument points to, which held \<open>old\<close>:
  the bytes the library could deliver replace its first bytes. A number is those bytes, most
  significant first.
\<close>

definition netlib_readbytes :: "byte list \<Rightarrow> nat \<Rightarrow> 'a n64_scheme \<Rightarrow> byte list \<times> 'a n64_scheme" where
  "netlib_readbytes old sz g =
     (case usb_read sz (n64_usb g) of (bs, u) \<Rightarrow> (bs @ drop (length bs) old, g\<lparr>n64_usb := u\<rparr>))"

definition netlib_readbyte :: "byte list \<Rightarrow> 'a n64_scheme \<Rightarrow> byte list \<times> 'a n64_scheme" where
  "netlib_readbyte old g = netlib_readbytes old 1 g"

definition netlib_readword :: "byte list \<Rightarrow> 'a n64_scheme \<Rightarrow> byte list \<times> 'a n64_scheme" where
  "netlib_readword old g = netlib_readbytes old 2 g"

definition netlib_readdword :: "byte list \<Rightarrow> 'a n64_scheme \<Rightarrow> byte list \<times> 'a n64_scheme" where
  "netlib_readdword old g = netlib_readbytes old 4 g"

definition netlib_readqword :: "byte list \<Rightarrow> 'a n64_scheme \<Rightarrow> byte list \<times> 'a n64_scheme" where
  "netlib_readqword old g = netlib_readbytes old 8 g"

definition netlib_readfloat :: "byte list \<Rightarrow> 'a n64_scheme \<Rightarrow> byte list \<times> 'a n64_scheme" where
  "netlib_readfloat old g = netlib_readbytes old 4 g"

definition netlib_readdouble :: "byte list \<Rightarrow> 'a n64_scheme \<Rightarrow> byte list \<times> 'a n64_scheme" where
  "netlib_readdouble old g = netlib_readbytes old 8 g"

definition netlib_skipbytes :: "nat \<Rightarrow> 'a n64_scheme \<Rightarrow> 'a n64_scheme" where
  "netlib_skipbytes count g = on_usb (usb_skip count) g"

section \<open>The packet being written\<close>

definition n64_inv :: "'a n64_scheme \<Rightarrow> bool" where
  "n64_inv g \<longleftrightarrow> length (global_writebuffer g) = 4096 \<and> length (global_funcptrs g) = 64 \<and>
     18 \<le> unat (global_writecursize g) \<and> unat (global_writecursize g) \<le> 4096"

definition payload :: "'a n64_scheme \<Rightarrow> byte list" where
  "payload g = take (unat (global_writecursize g) - 18) (drop 18 (global_writebuffer g))"

text \<open>The bytes the library never writes after \<open>netlib_initialize\<close>.\<close>

definition fixed_header :: "'a n64_scheme \<Rightarrow> bool" where
  "fixed_header g \<longleftrightarrow> take 4 (global_writebuffer g) = [0x4E, 0x4C, 0x50, 1] \<and>
     take 6 (drop 6 (global_writebuffer g)) = replicate 6 0"

lemma warn_simps [simp]:
  "global_writebuffer (warn m g) = global_writebuffer g" "global_writecursize (warn m g) = global_writecursize g"
  "global_funcptrs (warn m g) = global_funcptrs g" "global_clnumber (warn m g) = global_clnumber g"
  "global_sendafterpoll (warn m g) = global_sendafterpoll g"
  "n64_inv (warn m g) = n64_inv g" "payload (warn m g) = payload g" "fixed_header (warn m g) = fixed_header g"
  by (simp_all add: warn_def on_usb_def n64_inv_def payload_def fixed_header_def)

lemma unat_add32: "unat a + unat b < 2 ^ 32 \<Longrightarrow> unat (a + b :: u32) = unat a + unat b"
  by (simp add: unat_word_ariths)

lemma unat_of_nat32: "n < 2 ^ 32 \<Longrightarrow> unat (of_nat n :: u32) = n"
  by (simp add: unat_of_nat)

text \<open>A write to the packet touches the buffer and the cursor only.\<close>

definition same_rest :: "'a n64_scheme \<Rightarrow> 'a n64_scheme \<Rightarrow> bool" where
  "same_rest g g' \<longleftrightarrow> g' = g\<lparr>global_writebuffer := global_writebuffer g',
     global_writecursize := global_writecursize g'\<rparr>"

lemma same_rest_refl [simp]: "same_rest g g"
  by (simp add: same_rest_def)

lemma same_rest_trans: "same_rest g1 g2 \<Longrightarrow> same_rest g2 g3 \<Longrightarrow> same_rest g1 g3"
  unfolding same_rest_def by (cases g1; cases g2; cases g3) simp

lemma store_fits:
  assumes "n64_inv g" "unat (global_writecursize g) + length bs \<le> 4096"
  shows "\<exists>g'. store bs g = Inr g' \<and> n64_inv g' \<and> payload g' = payload g @ bs \<and>
    take 18 (global_writebuffer g') = take 18 (global_writebuffer g) \<and>
    unat (global_writecursize g') = unat (global_writecursize g) + length bs \<and>
    same_rest g g'"
proof -
  let ?n = "unat (global_writecursize g)" and ?b = "global_writebuffer g"
  let ?g = "g\<lparr>global_writebuffer := take ?n ?b @ bs @ drop (?n + length bs) ?b,
       global_writecursize := global_writecursize g + of_nat (length bs)\<rparr>"
  have n: "18 \<le> ?n" "length ?b = 4096" using assms(1) by (auto simp: n64_inv_def)
  have u: "unat (global_writecursize g + of_nat (length bs)) = ?n + length bs"
    using assms(2) by (subst unat_add32) (simp_all add: unat_of_nat32)
  have "payload ?g = payload g @ bs"
    using n assms(2) by (simp add: payload_def u drop_take)
  moreover have "take 18 (take ?n ?b @ bs @ drop (?n + length bs) ?b) = take 18 ?b"
    using n assms(2) by simp
  ultimately show ?thesis
    using n assms u by (intro exI [of _ ?g]) (simp add: store_def n64_inv_def Let_def same_rest_def)
qed

lemma checked_store_cases:
  assumes "n64_inv g" "unat sz = length bs" "length bs < 2 ^ 32 - 4096"
  shows "checked_store sz bs g =
    (if unat (global_writecursize g) + length bs \<le> 4096 then store bs g
     else Inr (warn size_warning g))"
proof -
  have "unat (global_writecursize g) \<le> 4096" using assms(1) by (simp add: n64_inv_def)
  then have "unat (global_writecursize g + sz) = unat (global_writecursize g) + length bs"
    using assms(2,3) by (subst unat_add32) simp_all
  then show ?thesis
    by (auto simp: checked_store_def N64_MAX_PACKETSIZE_def word_less_nat_alt)
qed

text \<open>The eight write functions as one operation with the bytes it appends.\<close>

datatype write_op = W8 byte | W16 u16 | W32 u32 | W64 u64 | WFloat u32 | WDouble u64 | WBytes "byte list"

fun write_bytes :: "write_op \<Rightarrow> byte list" where
  "write_bytes (W8 b) = [b]"
| "write_bytes (W16 w) = be16 w"
| "write_bytes (W32 w) = be32 w"
| "write_bytes (W64 w) = be64 w"
| "write_bytes (WFloat w) = be32 w"
| "write_bytes (WDouble w) = be64 w"
| "write_bytes (WBytes bs) = bs"

fun netlib_write :: "write_op \<Rightarrow> 'a n64_scheme \<Rightarrow> 'a n64_scheme result" where
  "netlib_write (W8 b) g = netlib_writebyte b g"
| "netlib_write (W16 w) g = netlib_writeword w g"
| "netlib_write (W32 w) g = netlib_writedword w g"
| "netlib_write (W64 w) g = netlib_writeqword w g"
| "netlib_write (WFloat w) g = netlib_writefloat w g"
| "netlib_write (WDouble w) g = netlib_writedouble w g"
| "netlib_write (WBytes bs) g = netlib_writebytes bs (of_nat (length bs)) g"

lemma ucast_and_FF: "(ucast (w AND 0xFF :: 'a :: len word) :: byte) = ucast w"
proof -
  have FF: "(0xFF :: 'a word) = mask 8" by (simp add: mask_eq_exp_minus_1)
  show ?thesis unfolding FF by (rule bit_word_eqI) (auto simp: bit_simps dest: bit_imp_le_length)
qed

lemma netlib_write_checked:
  assumes "length (write_bytes w) < 2 ^ 32 - 4096"
  shows "netlib_write w g = checked_store (of_nat (length (write_bytes w))) (write_bytes w) g"
proof (cases w)
  case (WBytes bs)
  then have "unat (of_nat (length bs) :: u32) = length bs"
    using assms by (simp add: unat_of_nat32)
  then show ?thesis
    by (simp add: WBytes netlib_writebytes_def checked_store_def rdn_whole)
qed (simp_all add: netlib_writebyte_def netlib_writeword_def netlib_writedword_def
    netlib_writeqword_def netlib_writefloat_def netlib_writedouble_def be16_def be32_def be64_def
    ucast_and_FF)

lemma netlib_write_effect:
  assumes "n64_inv g" "length (write_bytes w) < 2 ^ 32 - 4096"
  shows "\<exists>g'. netlib_write w g = Inr g' \<and> n64_inv g' \<and>
    take 18 (global_writebuffer g') = take 18 (global_writebuffer g) \<and>
    (if unat (global_writecursize g) + length (write_bytes w) \<le> 4096
     then payload g' = payload g @ write_bytes w \<and> same_rest g g' \<and>
       unat (global_writecursize g') = unat (global_writecursize g) + length (write_bytes w)
     else g' = warn size_warning g)"
proof -
  have "unat (of_nat (length (write_bytes w)) :: u32) = length (write_bytes w)"
    using assms(2) by (simp add: unat_of_nat32)
  from checked_store_cases [OF assms(1) this assms(2)] show ?thesis
    using store_fits [OF assms(1), of "write_bytes w"] assms(1)
    unfolding netlib_write_checked [OF assms(2)] by (cases "unat (global_writecursize g) + length (write_bytes w) \<le> 4096") auto
qed

fun netlib_write_all :: "write_op list \<Rightarrow> 'a n64_scheme \<Rightarrow> 'a n64_scheme result" where
  "netlib_write_all [] g = Inr g"
| "netlib_write_all (w # ws) g = rbind (netlib_write w g) (netlib_write_all ws)"

lemma netlib_write_all_fits:
  assumes "n64_inv g" "unat (global_writecursize g) + length (concat (map write_bytes ws)) \<le> 4096"
  shows "\<exists>g'. netlib_write_all ws g = Inr g' \<and> n64_inv g' \<and>
    payload g' = payload g @ concat (map write_bytes ws) \<and> same_rest g g' \<and>
    take 18 (global_writebuffer g') = take 18 (global_writebuffer g) \<and>
    unat (global_writecursize g') = unat (global_writecursize g) + length (concat (map write_bytes ws))"
  using assms
proof (induction ws arbitrary: g)
  case (Cons w ws)
  have "length (write_bytes w) < 2 ^ 32 - 4096" "unat (global_writecursize g) + length (write_bytes w) \<le> 4096"
    using Cons.prems(2) by simp_all
  with netlib_write_effect [OF Cons.prems(1), of w] obtain g1 where
    "netlib_write w g = Inr g1" "n64_inv g1" "payload g1 = payload g @ write_bytes w" "same_rest g g1"
    "take 18 (global_writebuffer g1) = take 18 (global_writebuffer g)"
    "unat (global_writecursize g1) = unat (global_writecursize g) + length (write_bytes w)" by auto
  with Cons.IH [of g1] Cons.prems(2) show ?case by (auto simp: add.assoc intro: same_rest_trans)
qed simp

section \<open>What the console sends\<close>

text \<open>The packet the write buffer stands for, as the client sees it.\<close>

definition built_packet :: "u32 \<Rightarrow> 'a n64_scheme \<Rightarrow> AbstractPacket" where
  "built_packet recipients g =
     \<lparr>m_Version = 1, m_Flags = global_writebuffer g ! 5, m_SequenceNum = 0, m_Ack = 0,
      m_AckBitField = 0, m_Size = of_nat (length (payload g)), m_Data = payload g, m_SendTime = 0,
      m_SendAttempts = 0, m_Derived = NetLib (global_writebuffer g ! 4) recipients\<rparr>"

lemma length_payload: "n64_inv g \<Longrightarrow> length (payload g) = unat (global_writecursize g) - 18"
  by (auto simp: n64_inv_def payload_def)

lemma built_packet_wf:
  assumes "n64_inv g"
  shows "NetLib_wf (built_packet recipients g)"
proof -
  have "length (payload g) \<le> 4078" using length_payload [OF assms] assms by (auto simp: n64_inv_def)
  then show ?thesis
    by (simp add: NetLib_wf_def pkt_inv_def built_packet_def NETLIBPACKET_VERSION_def unat_of_nat16)
qed

lemma datasize_eq:
  assumes "n64_inv g"
  shows "(ucast (global_writecursize g - PACKET_HEADERSIZE) :: u16) = of_nat (length (payload g))"
proof -
  have le: "18 \<le> unat (global_writecursize g)" using assms by (simp add: n64_inv_def)
  then have "PACKET_HEADERSIZE \<le> global_writecursize g"
    by (simp add: PACKET_HEADERSIZE_def word_le_nat_alt)
  then have "unat (global_writecursize g - PACKET_HEADERSIZE) = length (payload g)"
    using length_payload [OF assms] by (simp add: unat_sub PACKET_HEADERSIZE_def)
  moreover have small: "length (payload g) < 2 ^ 32" "length (payload g) < 65536"
    using length_payload [OF assms] assms by (auto simp: n64_inv_def)
  ultimately have "global_writecursize g - PACKET_HEADERSIZE = of_nat (length (payload g))"
    by (simp add: word_unat_eq_iff unat_of_nat32)
  moreover have "(ucast (of_nat n :: u32) :: u16) = of_nat n" if "n < 65536" for n
    using that by (simp add: word_unat_eq_iff unat_of_nat16 unat_of_nat32 unsigned_ucast_eq take_bit_eq_mod)
  ultimately show ?thesis using small by simp
qed

lemma header_bytes:
  assumes "n64_inv g" "fixed_header g"
  shows "take 12 (global_writebuffer g) =
    [0x4E, 0x4C, 0x50, 1, global_writebuffer g ! 4, global_writebuffer g ! 5, 0, 0, 0, 0, 0, 0]"
proof -
  let ?b = "global_writebuffer g"
  have l: "length ?b = 4096" using assms(1) by (simp add: n64_inv_def)
  have "take 12 ?b = take 4 ?b @ take 2 (drop 4 ?b) @ take 6 (drop 6 ?b)"
    using take_add [of 4 8 ?b] take_add [of 2 6 "drop 4 ?b"] by simp
  moreover have "take 2 (drop 4 ?b) = [?b ! 4, ?b ! 5]"
    using l by (simp add: list_eq_iff_nth_eq less_Suc_eq numeral_eq_Suc)
  moreover have "replicate 6 (0 :: byte) = [0, 0, 0, 0, 0, 0]" by (simp add: numeral_eq_Suc)
  ultimately show ?thesis
    using assms(2) by (simp add: fixed_header_def)
qed

text \<open>With its header completed, the buffer holds the wire form of that packet.\<close>

lemma put_header_wire:
  assumes "n64_inv g" "fixed_header g"
  shows "rdn (global_writebuffer (put_header recipients g)) 0 (unat (global_writecursize g)) =
    Inr (NetLib_wire (built_packet recipients g))"
proof -
  let ?c = "unat (global_writecursize g)"
  have l: "length (global_writebuffer g) = 4096" "18 \<le> ?c" "?c \<le> 4096"
    using assms(1) by (auto simp: n64_inv_def)
  have buf: "global_writebuffer (put_header recipients g) = take 12 (global_writebuffer g)
      @ be32 recipients @ be16 (of_nat (length (payload g))) @ drop 18 (global_writebuffer g)"
    by (simp add: put_header_def Let_def datasize_eq [OF assms(1)])
  have "take ?c (global_writebuffer (put_header recipients g)) = take 12 (global_writebuffer g)
      @ be32 recipients @ be16 (of_nat (length (payload g))) @ payload g"
    unfolding buf using l by (simp add: payload_def)
  also have "\<dots> = NetLib_wire (built_packet recipients g)"
    by (simp add: header_bytes [OF assms] NetLib_wire_def built_packet_def header_simps be16_def
        NetLibPacket_GetType_def NetLibPacket_GetRecipients_def)
  finally have "take ?c (global_writebuffer (put_header recipients g)) = \<dots>" .
  moreover have "length (global_writebuffer (put_header recipients g)) = 4096"
    unfolding buf using l by simp
  ultimately show ?thesis using l by (simp add: rdn_def)
qed

text \<open>A poll with nothing to read: the connection check, then the queued packet.\<close>

definition quiet :: "'a n64_scheme \<Rightarrow> bool" where
  "quiet g \<longleftrightarrow> usb_cart (n64_usb g) \<noteq> CART_NONE \<and> usb_dataleft (n64_usb g) = 0 \<and>
     usb_waiting (n64_usb g) = [] \<and> global_funcptr_disconnect g = None \<and>
     global_funcptr_reconnect g = None"

lemma poll_connection_unset:
  assumes "global_funcptr_disconnect g = None" "global_funcptr_reconnect g = None"
  shows "\<exists>d. poll_connection game t g = Some (Inr (g\<lparr>global_disconnected := d\<rparr>))"
proof -
  have "g = g\<lparr>global_disconnected := global_disconnected g\<rparr>" by simp
  then have "\<exists>d. Some (Inr g) = Some (Inr (g\<lparr>global_disconnected := d\<rparr>) :: 'a n64_scheme result)" by blast
  then show ?thesis
    using assms unfolding poll_connection_def Let_def by (auto split: if_split)
qed

lemma poll_sends:
  assumes "n64_inv g" "fixed_header g" "quiet g"
    and "usb_accepts (n64_usb g) DATATYPE_NETPACKET (NetLib_wire (built_packet recipients g))"
  shows "\<exists>g'. netlib_poll fuel game t (put_header recipients g) = Some (Inr g') \<and>
    usb_written (n64_usb g') =
      usb_written (n64_usb g) @ [(DATATYPE_NETPACKET, NetLib_wire (built_packet recipients g))] \<and>
    \<not> global_sendafterpoll g'"
proof -
  let ?h = "put_header recipients g"
  have s: "global_sendafterpoll ?h" "global_writecursize ?h = global_writecursize g" "n64_usb ?h = n64_usb g"
    by (simp_all add: put_header_def Let_def)
  have "quiet ?h" using assms(3) by (simp add: quiet_def put_header_def Let_def)
  then obtain d where d: "poll_connection game t ?h = Some (Inr (?h\<lparr>global_disconnected := d\<rparr>))"
    using poll_connection_unset by (metis quiet_def)
  have p: "usb_poll (n64_usb g) = (0, (n64_usb g)\<lparr>usb_datatype := 0, usb_datasize := 0\<rparr>)"
    using assms(3) by (simp add: usb_poll_def quiet_def)
  have l: "poll_loop fuel game t 0 k = Some (Inr (True, k))" for k by (cases fuel) simp_all
  show ?thesis
    using assms(3,4)
    by (simp add: netlib_poll_def d s p l send_queued_def put_header_wire [OF assms(1,2)]
        usb_write_def usb_accepts_def quiet_def Let_def)
qed

text \<open>A write that times out counts as sent: the packet leaves the queue and is lost.\<close>

theorem timed_out_packet_is_dropped:
  assumes "n64_inv g" "fixed_header g" "quiet g"
    and "usb_driver (n64_usb g) DATATYPE_NETPACKET (NetLib_wire (built_packet recipients g)) = (-1, True)"
  shows "\<exists>g'. netlib_poll fuel game t (put_header recipients g) = Some (Inr g') \<and>
    usb_written (n64_usb g') = usb_written (n64_usb g) \<and> \<not> global_sendafterpoll g' \<and> usb_timedout (n64_usb g')"
proof -
  let ?h = "put_header recipients g"
  have s: "global_sendafterpoll ?h" "global_writecursize ?h = global_writecursize g" "n64_usb ?h = n64_usb g"
    by (simp_all add: put_header_def Let_def)
  have "quiet ?h" using assms(3) by (simp add: quiet_def put_header_def Let_def)
  then obtain d where d: "poll_connection game t ?h = Some (Inr (?h\<lparr>global_disconnected := d\<rparr>))"
    using poll_connection_unset by (metis quiet_def)
  have p: "usb_poll (n64_usb g) = (0, (n64_usb g)\<lparr>usb_datatype := 0, usb_datasize := 0\<rparr>)"
    using assms(3) by (simp add: usb_poll_def quiet_def)
  have l: "poll_loop fuel game t 0 k = Some (Inr (True, k))" for k by (cases fuel) simp_all
  show ?thesis
    using assms(3,4)
    by (simp add: netlib_poll_def d s p l send_queued_def put_header_wire [OF assms(1,2)]
        usb_write_def usb_timedout_def quiet_def Let_def)
qed

section \<open>What the console receives\<close>

text \<open>\<open>rest\<close> is what is left to read of the current message.\<close>

definition usb_at :: "usb \<Rightarrow> byte list \<Rightarrow> bool" where
  "usb_at u rest \<longleftrightarrow> usb_cart u \<noteq> CART_NONE \<and> usb_dataleft u = length rest \<and>
     usb_datasize u = length (usb_msg u) \<and> (\<exists>pre. usb_msg u = pre @ rest)"

lemma usb_read_at:
  assumes "usb_at u (xs @ rest)"
  shows "usb_read (length xs) u = (xs, u\<lparr>usb_dataleft := length rest\<rparr>) \<and>
    usb_at (u\<lparr>usb_dataleft := length rest\<rparr>) rest"
proof (cases "xs @ rest = []")
  case True
  then have "u\<lparr>usb_dataleft := length rest\<rparr> = u" using assms by (simp add: usb_at_def)
  with True assms show ?thesis by (simp add: usb_at_def usb_read_def)
next
  case False
  obtain pre where "usb_msg u = pre @ xs @ rest" using assms by (auto simp: usb_at_def)
  then show ?thesis
    using assms False by (auto simp: usb_at_def usb_read_def Let_def min_def)
qed

lemma usb_skip_at:
  assumes "usb_at u (xs @ rest)" "length xs = n"
  shows "usb_at (usb_skip n u) rest"
  using assms by (auto simp: usb_at_def usb_skip_def)

lemma usb_read_var_at:
  assumes "usb_at (n64_usb g) (xs @ rest)" "length xs = n"
  shows "usb_read_var game n g = (xs, on_usb (\<lambda>u. u\<lparr>usb_dataleft := length rest\<rparr>) g) \<and>
    usb_at (n64_usb (on_usb (\<lambda>u. u\<lparr>usb_dataleft := length rest\<rparr>) g)) rest"
  using usb_read_at [OF assms(1)] assms(2) by (simp add: usb_read_var_def on_usb_def)

lemma on_usb_simps [simp]:
  "global_funcptrs (on_usb f g) = global_funcptrs g" "n64_usb (on_usb f g) = f (n64_usb g)"
  "on_usb f (on_usb h g) = on_usb (\<lambda>u. f (h u)) g"
  by (simp_all add: on_usb_def)

lemma be16_word: "256 * ucast (be16 w ! 0) + ucast (be16 w ! 1) = (ucast w :: u32)" for w :: u16
proof -
  have "256 * ucast (be16 w ! 0) + ucast (be16 w ! 1) =
      (push_bit 8 (ucast (be16 w ! 0)) + ucast (be16 w ! 1) :: u32)"
    by (simp add: push_bit_eq_mult)
  also have "\<dots> = push_bit 8 (ucast (be16 w ! 0)) OR ucast (be16 w ! 1)"
    by (rule disjunctive_add_eq_or, rule bit_word_eqI) (auto simp: bit_simps dest: bit_imp_le_length)
  also have "\<dots> = ucast w"
    by (rule bit_word_eqI) (auto simp: be16_def bit_simps dest: bit_imp_le_length)
  finally show ?thesis .
qed

text \<open>
  A NetLib packet at the head of the message: its callback is called with its size, and the
  state it is called in has exactly its data left to read.
\<close>

lemma poll_packet_call:
  assumes "NetLib_wf pkt" "usb_at (n64_usb g) (NetLib_wire pkt)"
    and "unat (NetLibPacket_GetType pkt) < length (global_funcptrs g)"
  defines "gd \<equiv> on_usb (\<lambda>u. u\<lparr>usb_dataleft := length (m_Data pkt)\<rparr>) g"
  shows "usb_at (n64_usb gd) (m_Data pkt)"
    "poll_packet game t g = (case global_funcptrs g ! unat (NetLibPacket_GetType pkt) of
        None \<Rightarrow> Some (Inr (False, warn (''Warning: Tried calling unregistered function!'' @ [CHR 0x0A, CHR 0x00])
                  (on_usb usb_purge gd)))
      | Some f \<Rightarrow> (case game_on_packet game f (ucast (m_Size pkt)) gd of
           None \<Rightarrow> None | Some (Inl e) \<Rightarrow> Some (Inl e)
         | Some (Inr g) \<Rightarrow> Some (Inr (True, g\<lparr>global_lastpkt := t\<rparr>))))"
proof -
  obtain type recipients where d: "m_Derived pkt = NetLib type recipients"
    using assms(1) by (auto simp: NetLib_wf_def)
  have v: "\<not> NETLIB_VERSION < m_Version pkt" using assms(1)
    by (auto simp: NetLib_wf_def NETLIB_VERSION_def NETLIBPACKET_VERSION_def not_less)
  have ty: "NetLibPacket_GetType pkt = type" by (simp add: NetLibPacket_GetType_def d)
  let ?r7 = "m_Data pkt"
  let ?r6 = "be16 (m_Size pkt) @ ?r7"
  let ?r5 = "be32 recipients @ ?r6"
  let ?r4 = "(be16 (m_SequenceNum pkt) @ be16 (m_Ack pkt) @ be16 (m_AckBitField pkt)) @ ?r5"
  have w: "NetLib_wire pkt = NETLIBPACKET_HEADER @ [m_Version pkt] @ [type] @ [m_Flags pkt] @ ?r4"
    by (simp add: NetLib_wire_def ty NetLibPacket_GetRecipients_def d)
  define g1 where "g1 = on_usb (usb_skip 3) g"
  have at1: "usb_at (n64_usb g1) ([m_Version pkt] @ [type] @ [m_Flags pkt] @ ?r4)"
    using usb_skip_at [OF assms(2) [unfolded w], of 3] by (simp add: g1_def)
  define g2 where "g2 = on_usb (\<lambda>u. u\<lparr>usb_dataleft := length ([type] @ [m_Flags pkt] @ ?r4)\<rparr>) g1"
  have r2: "usb_read_var game 1 g1 = ([m_Version pkt], g2)"
    and at2: "usb_at (n64_usb g2) ([type] @ [m_Flags pkt] @ ?r4)"
    using usb_read_var_at [OF at1, of 1 game] unfolding g2_def by simp_all
  define g3 where "g3 = on_usb (\<lambda>u. u\<lparr>usb_dataleft := length ([m_Flags pkt] @ ?r4)\<rparr>) g2"
  have r3: "usb_read_var game 1 g2 = ([type], g3)" and at3: "usb_at (n64_usb g3) ([m_Flags pkt] @ ?r4)"
    using usb_read_var_at [OF at2, of 1 game] unfolding g3_def by simp_all
  define g4 where "g4 = on_usb (\<lambda>u. u\<lparr>usb_dataleft := length ?r4\<rparr>) g3"
  have r4: "usb_read_var game 1 g3 = ([m_Flags pkt], g4)" and at4: "usb_at (n64_usb g4) ?r4"
    using usb_read_var_at [OF at3, of 1 game] unfolding g4_def by simp_all
  define g5 where "g5 = on_usb (usb_skip 6) g4"
  have at5: "usb_at (n64_usb g5) ?r5"
    using usb_skip_at [OF at4, of 6] by (simp add: g5_def)
  define g6 where "g6 = on_usb (\<lambda>u. u\<lparr>usb_dataleft := length ?r6\<rparr>) g5"
  have r6: "usb_read_var game 4 g5 = (be32 recipients, g6)" and at6: "usb_at (n64_usb g6) ?r6"
    using usb_read_var_at [OF at5, of 4 game] unfolding g6_def by simp_all
  define g7 where "g7 = on_usb (\<lambda>u. u\<lparr>usb_dataleft := length ?r7\<rparr>) g6"
  have r7: "usb_read_var game 2 g6 = (be16 (m_Size pkt), g7)" and at7: "usb_at (n64_usb g7) ?r7"
    using usb_read_var_at [OF at6, of 2 game] unfolding g7_def by simp_all
  have fp: "global_funcptrs g7 = global_funcptrs g"
    by (simp add: g7_def g6_def g5_def g4_def g3_def g2_def g1_def)
  have g7: "g7 = gd"
    by (simp add: gd_def g7_def g6_def g5_def g4_def g3_def g2_def g1_def on_usb_def usb_skip_def)
  have sz: "256 * ucast (be16 w ! 0) + ucast (be16 w ! 1) = (ucast w :: u32)" for w :: u16
    by (rule be16_word)
  show "usb_at (n64_usb gd) (m_Data pkt)" using at7 by (simp add: g7)
  show "poll_packet game t g = (case global_funcptrs g ! unat (NetLibPacket_GetType pkt) of
        None \<Rightarrow> Some (Inr (False, warn (''Warning: Tried calling unregistered function!'' @ [CHR 0x0A, CHR 0x00])
                  (on_usb usb_purge gd)))
      | Some f \<Rightarrow> (case game_on_packet game f (ucast (m_Size pkt)) gd of
           None \<Rightarrow> None | Some (Inl e) \<Rightarrow> Some (Inl e)
         | Some (Inr g) \<Rightarrow> Some (Inr (True, g\<lparr>global_lastpkt := t\<rparr>))))"
    using assms(3) v
    by (cases "global_funcptrs g ! unat type")
      (simp_all add: poll_packet_def g1_def [symmetric] r2 r3 r4 g5_def [symmetric] r6 r7 fp ty sz g7 [symmetric] Let_def
        del: One_nat_def on_usb_simps)
qed

lemma poll_packet_dispatch:
  assumes "NetLib_wf pkt" "usb_at (n64_usb g) (NetLib_wire pkt)"
    and "unat (NetLibPacket_GetType pkt) < length (global_funcptrs g)"
    and "global_funcptrs g ! unat (NetLibPacket_GetType pkt) = Some f"
  shows "\<exists>gd. usb_at (n64_usb gd) (m_Data pkt) \<and> global_funcptrs gd = global_funcptrs g \<and>
    poll_packet game t g =
      (case game_on_packet game f (ucast (m_Size pkt)) gd of
         None \<Rightarrow> None | Some (Inl e) \<Rightarrow> Some (Inl e)
       | Some (Inr g) \<Rightarrow> Some (Inr (True, g\<lparr>global_lastpkt := t\<rparr>)))"
  using poll_packet_call(1) [OF assms(1-3)] poll_packet_call(2) [OF assms(1-3), of game t] assms(4)
  by (intro exI [of _ "on_usb (\<lambda>u. u\<lparr>usb_dataleft := length (m_Data pkt)\<rparr>) g"]) simp

section \<open>Properties\<close>

text \<open>The state after \<open>netlib_start\<close> and \<open>netlib_setflags\<close>.\<close>

definition ready :: "'a n64_scheme \<Rightarrow> bool" where
  "ready g \<longleftrightarrow> length (global_writebuffer g) = 4096 \<and> length (global_funcptrs g) = 64 \<and> fixed_header g"

lemma ready_start:
  assumes "ready g"
  shows "n64_inv (netlib_setflags flags (netlib_start type g))"
    "fixed_header (netlib_setflags flags (netlib_start type g))"
    "payload (netlib_setflags flags (netlib_start type g)) = []"
    "global_writebuffer (netlib_setflags flags (netlib_start type g)) ! 4 = type"
    "global_writebuffer (netlib_setflags flags (netlib_start type g)) ! 5 = flags"
    "global_writecursize (netlib_setflags flags (netlib_start type g)) = 18"
  using assms by (simp_all add: ready_def netlib_start_def netlib_setflags_def n64_inv_def
      PACKET_HEADERSIZE_def payload_def fixed_header_def drop_update_swap)

lemma same_header:
  assumes "take 18 (global_writebuffer g') = take 18 (global_writebuffer g)"
  shows "fixed_header g' = fixed_header g"
    "global_writebuffer g' ! 4 = global_writebuffer g ! 4"
    "global_writebuffer g' ! 5 = global_writebuffer g ! 5"
proof -
  let ?b = "global_writebuffer g" and ?b' = "global_writebuffer g'"
  have "take 4 (take 18 ?b') = take 4 (take 18 ?b)" "take 6 (drop 6 (take 18 ?b')) = take 6 (drop 6 (take 18 ?b))"
    "take 18 ?b' ! 4 = take 18 ?b ! 4" "take 18 ?b' ! 5 = take 18 ?b ! 5"
    by (simp_all only: assms)
  then show "fixed_header g' = fixed_header g" "?b' ! 4 = ?b ! 4" "?b' ! 5 = ?b ! 5"
    by (simp_all add: fixed_header_def drop_take)
qed

lemma same_rest_start:
  assumes "same_rest (netlib_setflags flags (netlib_start type g)) g'"
  shows "n64_usb g' = n64_usb g" "quiet g' = quiet g" "global_clnumber g' = global_clnumber g"
  by (subst assms [unfolded same_rest_def], simp add: netlib_setflags_def netlib_start_def quiet_def)+

lemma console_packet:
  assumes "ready g" "length (concat (map write_bytes ws)) \<le> 4078"
    and "netlib_write_all ws (netlib_setflags flags (netlib_start type g)) = Inr g'"
  shows "n64_inv g' \<and> fixed_header g' \<and> same_rest (netlib_setflags flags (netlib_start type g)) g' \<and>
    built_packet recipients g' =
      \<lparr>m_Version = 1, m_Flags = flags, m_SequenceNum = 0, m_Ack = 0, m_AckBitField = 0,
       m_Size = of_nat (length (concat (map write_bytes ws))), m_Data = concat (map write_bytes ws),
       m_SendTime = 0, m_SendAttempts = 0, m_Derived = NetLib type recipients\<rparr>"
proof -
  let ?g = "netlib_setflags flags (netlib_start type g)"
  note st = ready_start [OF assms(1), of flags type]
  from netlib_write_all_fits [OF st(1), of ws] assms(2,3) st(3,6)
  have g': "n64_inv g'" "payload g' = concat (map write_bytes ws)" "same_rest ?g g'"
    "take 18 (global_writebuffer g') = take 18 (global_writebuffer ?g)" by auto
  from g' same_header [OF g'(4)] st(2,4,5) show ?thesis by (simp add: built_packet_def)
qed

text \<open>The packet the client should see, and that it is what \<open>netlib_sendtoserver\<close> writes.\<close>

definition console_pkt :: "byte \<Rightarrow> byte \<Rightarrow> byte list \<Rightarrow> AbstractPacket" where
  "console_pkt type flags data =
     \<lparr>m_Version = 1, m_Flags = flags, m_SequenceNum = 0, m_Ack = 0, m_AckBitField = 0,
      m_Size = of_nat (length data), m_Data = data, m_SendTime = 0, m_SendAttempts = 0,
      m_Derived = NetLib type 0\<rparr>"

lemma console_sends:
  assumes "ready g" "length (concat (map write_bytes ws)) \<le> 4078"
    and "netlib_write_all ws (netlib_setflags flags (netlib_start type g)) = Inr g'"
    and "quiet g" "\<forall>d. usb_accepts (n64_usb g) DATATYPE_NETPACKET d"
  shows "\<exists>g''. netlib_sendtoserver fuel game t g' = Some (Inr g'') \<and>
    usb_written (n64_usb g'') = usb_written (n64_usb g) @
      [(DATATYPE_NETPACKET, NetLib_wire (console_pkt type flags (concat (map write_bytes ws))))] \<and>
    NetLib_wf (console_pkt type flags (concat (map write_bytes ws)))"
proof -
  note c = console_packet [OF assms(1,2,3), of 0]
  have sr: "n64_usb g' = n64_usb g" "quiet g'" using same_rest_start [of flags type g g'] c assms(4) by blast+
  have pkt: "built_packet 0 g' = console_pkt type flags (concat (map write_bytes ws))"
    using c by (simp add: console_pkt_def)
  have wf: "NetLib_wf (built_packet 0 g')" using c built_packet_wf by blast
  obtain g'' where "netlib_poll fuel game t (put_header 0 g') = Some (Inr g'')"
    "usb_written (n64_usb g'') = usb_written (n64_usb g') @ [(DATATYPE_NETPACKET, NetLib_wire (built_packet 0 g'))]"
    using poll_sends [of g' 0] c sr assms(5) by metis
  then show ?thesis using wf sr(1) by (simp add: pkt netlib_sendtoserver_def)
qed

text \<open>C35: a packet that the game starts, flags, fills with any series of writes that fit into
  4078 bytes and sends to the server while nothing is waiting to be read leaves the console
  as one USB message, and the client parses that message to a packet with the same type and
  flags, no recipients, zero sequence fields, and the bytes of the writes in order, big-endian.\<close>

theorem console_to_client:
  assumes "ready g" "length (concat (map write_bytes ws)) \<le> 4078" "alloc_ok env"
    and "netlib_write_all ws (netlib_setflags flags (netlib_start type g)) = Inr g'"
    and "quiet g" "\<forall>d. usb_accepts (n64_usb g) DATATYPE_NETPACKET d"
  shows "\<exists>g'' d. netlib_sendtoserver fuel game t g' = Some (Inr g'') \<and>
    usb_written (n64_usb g'') = usb_written (n64_usb g) @ [(DATATYPE_NETPACKET, d)] \<and>
    (\<forall>rest. NetLibPacket_FromBytes env (d @ rest) = Inr (Some
      \<lparr>m_Version = 1, m_Flags = flags, m_SequenceNum = 0, m_Ack = 0, m_AckBitField = 0,
       m_Size = of_nat (length (concat (map write_bytes ws))), m_Data = concat (map write_bytes ws),
       m_SendTime = 0, m_SendAttempts = 0, m_Derived = NetLib type 0\<rparr>))"
proof -
  let ?pkt = "console_pkt type flags (concat (map write_bytes ws))"
  obtain g'' where g'': "netlib_sendtoserver fuel game t g' = Some (Inr g'')"
    "usb_written (n64_usb g'') = usb_written (n64_usb g) @ [(DATATYPE_NETPACKET, NetLib_wire ?pkt)]" "NetLib_wf ?pkt"
    using console_sends [OF assms(1,2,4-6)] by blast
  then show ?thesis
    using NetLib_decode_wire [OF assms(3) g''(3)]
    by (intro exI [of _ g''] exI [of _ "NetLib_wire ?pkt"]) (simp add: console_pkt_def unsent_def)
qed

text \<open>A console with nothing connected to it but an EverDrive that accepts every message.\<close>

definition sample_usb :: usb where
  "sample_usb = \<lparr>usb_cart = 2, usb_datatype = 0, usb_datasize = 0, usb_dataleft = 0, usb_msg = [],
     usb_waiting = [], usb_written = [], usb_driver = (\<lambda>_ _. (1, False)), usb_didtimeout = False\<rparr>"

definition sample_n64 :: n64 where
  "sample_n64 = netlib_initialize id sample_usb
     \<lparr>global_timeouttime = 0, global_writecursize = 0, global_writebuffer = replicate 4096 0,
      global_clnumber = 0, global_lastpkt = 0, global_sendafterpoll = False,
      global_disconnected = False, global_funcptr_disconnect = None,
      global_funcptr_reconnect = None, global_funcptrs = replicate 64 None, n64_usb = sample_usb\<rparr>"

definition sample_game :: "unit game" where
  "sample_game = \<lparr>game_on_packet = (\<lambda>_ _ g. Some (Inr g)), game_on_event = (\<lambda>_ g. Some (Inr g)), junk = 0\<rparr>"

lemma list_update_numeral: "(x # xs)[numeral k := v] = x # xs[pred_numeral k := v]"
  by (simp add: numeral_eq_Suc)

lemma upto_6_12: "[6..<12] = [6, 7, 8, 9, 10, 11 :: nat]" by code_simp

lemma initialize_rest:
  "n64_usb (netlib_initialize c u g) = u" "global_funcptr_disconnect (netlib_initialize c u g) = None"
  "global_funcptr_reconnect (netlib_initialize c u g) = None"
  by (simp_all add: netlib_initialize_def Let_def)

lemma initialize_ready:
  assumes "length (global_writebuffer g) = 4096" "length (global_funcptrs g) = 64"
  shows "ready (netlib_initialize c u g)"
proof -
  let ?b = "global_writebuffer (netlib_initialize c u g)"
  have b: "?b = (global_writebuffer g)[0 := 0x4E, 1 := 0x4C, 2 := 0x50, 3 := 1, 6 := 0, 7 := 0, 8 := 0, 9 := 0, 10 := 0, 11 := 0]"
    by (simp add: netlib_initialize_def upto_6_12 NETLIB_VERSION_def Let_def)
  have n: "?b ! 0 = 0x4E" "?b ! 1 = 0x4C" "?b ! 2 = 0x50" "?b ! 3 = 1" "?b ! 6 = 0" "?b ! 7 = 0" "?b ! 8 = 0" "?b ! 9 = 0"
    "?b ! 10 = 0" "?b ! 11 = 0" using assms(1) unfolding b by (simp_all add: nth_list_update)
  have l: "length ?b = 4096" using assms(1) unfolding b by simp
  have part: "take k (drop i ?b) = map (\<lambda>i. ?b ! i) [i..<i + k]" if "i + k \<le> 4096" for i k
    using l that by (intro nth_equalityI) simp_all
  have "[0..<4] = [0, 1, 2, 3 :: nat]" by code_simp
  then have "take 4 ?b = map (\<lambda>i. ?b ! i) [0, 1, 2, 3]" using part [of 0 4] by simp
  moreover have "take 6 (drop 6 ?b) = map (\<lambda>i. ?b ! i) [6, 7, 8, 9, 10, 11]" using part [of 6 6] upto_6_12 by simp
  moreover have "replicate 6 (0 :: byte) = [0, 0, 0, 0, 0, 0]" by (simp add: numeral_eq_Suc)
  ultimately have "fixed_header (netlib_initialize c u g)" using n by (simp add: fixed_header_def)
  then show ?thesis using l assms(2) by (simp add: ready_def netlib_initialize_def Let_def)
qed

lemma sample_n64_ready: "ready sample_n64"
  unfolding sample_n64_def by (rule initialize_ready) simp_all

lemma sample_n64_quiet:
  "quiet sample_n64" "usb_accepts (n64_usb sample_n64) b d" "usb_written (n64_usb sample_n64) = []"
  by (simp_all add: sample_n64_def initialize_rest quiet_def sample_usb_def usb_accepts_def CART_NONE_def)

lemma timed_out_packet_is_dropped_witness:
  "\<exists>g g'. usb_written (n64_usb g) = [] \<and> netlib_poll 1 sample_game 0 (put_header 0 g) = Some (Inr g') \<and>
     usb_written (n64_usb g') = [] \<and> \<not> global_sendafterpoll g'"
proof -
  let ?k = "sample_n64\<lparr>n64_usb := (n64_usb sample_n64)\<lparr>usb_driver := \<lambda>_ _. (-1, True)\<rparr>\<rparr>"
  let ?g = "netlib_setflags 0 (netlib_start 7 ?k)"
  have k: "ready ?k" using sample_n64_ready by (simp add: ready_def fixed_header_def)
  have q: "quiet ?k" using sample_n64_quiet(1) by (simp add: quiet_def)
  have u: "n64_usb ?g = n64_usb ?k" by (simp add: netlib_setflags_def netlib_start_def)
  have "quiet ?g" using q unfolding quiet_def u by (simp add: netlib_setflags_def netlib_start_def)
  then show ?thesis
    using timed_out_packet_is_dropped [OF ready_start(1,2) [OF k, of 0 7], of 0 1 sample_game 0] u sample_n64_quiet(3)
    by (rule_tac x = ?g in exI) auto
qed

lemma console_to_client_witness:
  "\<exists>g' g'' d. netlib_write_all [W16 0x0102, WBytes [9]] (netlib_setflags 2 (netlib_start 7 sample_n64)) = Inr g' \<and>
     netlib_sendtoserver 1 sample_game 0 g' = Some (Inr g'') \<and>
     usb_written (n64_usb g'') = [(DATATYPE_NETPACKET, d)] \<and>
     NetLibPacket_FromBytes env_x86 d = Inr (Some
      \<lparr>m_Version = 1, m_Flags = 2, m_SequenceNum = 0, m_Ack = 0, m_AckBitField = 0, m_Size = 3,
       m_Data = [1, 2, 9], m_SendTime = 0, m_SendAttempts = 0, m_Derived = NetLib 7 0\<rparr>)"
proof -
  let ?g = "netlib_setflags 2 (netlib_start 7 sample_n64)"
  note st = ready_start [OF sample_n64_ready, of 2 7]
  obtain g' where g': "netlib_write_all [W16 0x0102, WBytes [9]] ?g = Inr g'"
    using netlib_write_all_fits [OF st(1), of "[W16 0x0102, WBytes [9]]"] st(6) by auto
  have c: "concat (map write_bytes [W16 0x0102, WBytes [9]]) = [1, 2, 9]"
    by (simp add: be16_def)
  obtain g'' d where d: "netlib_sendtoserver 1 sample_game 0 g' = Some (Inr g'')"
      "usb_written (n64_usb g'') = [(DATATYPE_NETPACKET, d)]"
      "\<forall>rest. NetLibPacket_FromBytes env_x86 (d @ rest) = Inr (Some
      \<lparr>m_Version = 1, m_Flags = 2, m_SequenceNum = 0, m_Ack = 0, m_AckBitField = 0, m_Size = 3,
       m_Data = [1, 2, 9], m_SendTime = 0, m_SendAttempts = 0, m_Derived = NetLib 7 0\<rparr>)"
    using console_to_client [OF sample_n64_ready _ _ g' sample_n64_quiet(1), of env_x86 1 sample_game 0]
    unfolding c by (auto simp: sample_n64_quiet)
  from spec [OF d(3), of "[]"] have "NetLibPacket_FromBytes env_x86 d = Inr (Some
      \<lparr>m_Version = 1, m_Flags = 2, m_SequenceNum = 0, m_Ack = 0, m_AckBitField = 0, m_Size = 3,
       m_Data = [1, 2, 9], m_SendTime = 0, m_SendAttempts = 0, m_Derived = NetLib 7 0\<rparr>)" by simp
  with g' d(1,2) show ?thesis by blast
qed

text \<open>C36: no series of writes, of fewer than \<open>2 ^ 32 - 4096\<close> bytes each, leaves the write buffer
  or the header: after it the buffer still has 4096 bytes, the cursor is inside it, the first
  18 bytes are untouched, and the packet's data is a sublist of the bytes asked for, in order.\<close>

theorem console_writes_bounded:
  assumes "n64_inv g" "\<forall>w \<in> set ws. length (write_bytes w) < 2 ^ 32 - 4096"
  shows "\<exists>g' us. netlib_write_all ws g = Inr g' \<and> n64_inv g' \<and>
    take 18 (global_writebuffer g') = take 18 (global_writebuffer g) \<and>
    subseq us ws \<and> payload g' = payload g @ concat (map write_bytes us)"
  using assms
proof (induction ws arbitrary: g)
  case Nil
  then show ?case by (intro exI [of _ g] exI [of _ "[]"]) simp
next
  case (Cons w ws)
  have "length (write_bytes w) < 2 ^ 32 - 4096" using Cons.prems(2) by simp
  from netlib_write_effect [OF Cons.prems(1) this]
  obtain g1 where g1: "netlib_write w g = Inr g1" "n64_inv g1"
    "take 18 (global_writebuffer g1) = take 18 (global_writebuffer g)"
    and p: "payload g1 = payload g @ write_bytes w \<or> payload g1 = payload g"
    by (auto split: if_splits)
  from Cons.IH [OF g1(2)] Cons.prems(2) obtain g' us where g':
    "netlib_write_all ws g1 = Inr g'" "n64_inv g'"
    "take 18 (global_writebuffer g') = take 18 (global_writebuffer g1)"
    "subseq us ws" "payload g' = payload g1 @ concat (map write_bytes us)" by auto
  from p show ?case
  proof
    assume "payload g1 = payload g @ write_bytes w"
    with g1 g' show ?thesis by (intro exI [of _ g'] exI [of _ "w # us"]) simp
  next
    assume "payload g1 = payload g"
    with g1 g' show ?thesis by (intro exI [of _ g'] exI [of _ us]) (simp add: list_emb_Cons)
  qed
qed

lemma console_writes_bounded_witness:
  "\<exists>g' us. netlib_write_all [W32 5, WBytes (replicate 5000 0), W8 1] (netlib_start 7 sample_n64) = Inr g' \<and>
     n64_inv g' \<and> subseq us [W32 5, WBytes (replicate 5000 0), W8 1]"
proof -
  have "n64_inv (netlib_setflags 0 (netlib_start 7 sample_n64))" by (rule ready_start [OF sample_n64_ready])
  moreover have "netlib_setflags 0 (netlib_start 7 sample_n64) = netlib_start 7 sample_n64"
    by (simp add: netlib_setflags_def netlib_start_def)
  ultimately have "n64_inv (netlib_start 7 sample_n64)" by (simp only:)
  from console_writes_bounded [OF this, of "[W32 5, WBytes (replicate 5000 0), W8 1]"] show ?thesis
    by (auto simp del: netlib_write_all.simps)
qed

text \<open>The size check of \<open>netlib_writebytes\<close> adds before it compares: for a size so large that
  the cursor plus the size passes \<open>2 ^ 32\<close>, the check succeeds and the copy leaves the buffer.\<close>

theorem console_writebytes_wraps:
  assumes "n64_inv g" "2 ^ 32 \<le> unat (global_writecursize g) + unat sz" "length memory = unat sz"
  shows "netlib_writebytes memory sz g = Inl OutOfBounds"
proof -
  have c: "unat (global_writecursize g) \<le> 4096" "length (global_writebuffer g) = 4096"
    using assms(1) by (auto simp: n64_inv_def)
  have s: "unat sz < 2 ^ 32" using unsigned_less [of sz, where 'a = nat] by simp
  have "unat (global_writecursize g + sz) = (unat (global_writecursize g) + unat sz) mod 2 ^ 32"
    by (simp add: unat_word_ariths)
  also have "\<dots> = unat (global_writecursize g) + unat sz - 2 ^ 32"
    using assms(2) c(1) s by (simp add: mod_if)
  finally have "unat (global_writecursize g + sz) \<le> 4096" using c(1) s by simp
  then have "\<not> global_writecursize g + sz > N64_MAX_PACKETSIZE"
    by (simp add: N64_MAX_PACKETSIZE_def word_less_nat_alt)
  moreover have "\<not> unat (global_writecursize g) + length memory \<le> length (global_writebuffer g)"
    using assms(2,3) c(2) by simp
  ultimately show ?thesis
    by (simp add: netlib_writebytes_def rdn_whole [OF assms(3)] store_def)
qed

lemma console_writebytes_wraps_witness:
  "netlib_writebytes (replicate (2 ^ 32 - 1) 0) 0xFFFFFFFF (netlib_setflags 0 (netlib_start 7 sample_n64)) = Inl OutOfBounds"
  by (rule console_writebytes_wraps [OF ready_start(1) [OF sample_n64_ready]])
    (simp_all add: netlib_start_def netlib_setflags_def PACKET_HEADERSIZE_def)

text \<open>When the cartridge reports a NetLib packet that the client encoded, and the game has
  registered a function for its type, polling calls that function with the size of the data,
  in a state in which reading that many bytes gives exactly the data of the packet.\<close>

theorem client_to_console:
  assumes "NetLib_wf pkt" "usb_cart (n64_usb g) \<noteq> CART_NONE" "usb_dataleft (n64_usb g) = 0"
    and "usb_waiting (n64_usb g) = (DATATYPE_NETPACKET, NetLib_wire pkt) # ms"
    and "unat (NetLibPacket_GetType pkt) < length (global_funcptrs g)"
    and "global_funcptrs g ! unat (NetLibPacket_GetType pkt) = Some f"
  shows "\<exists>gd. poll_packet game t (g\<lparr>n64_usb := snd (usb_poll (n64_usb g))\<rparr>) =
      (case game_on_packet game f (ucast (m_Size pkt)) gd of
         None \<Rightarrow> None | Some (Inl e) \<Rightarrow> Some (Inl e)
       | Some (Inr g) \<Rightarrow> Some (Inr (True, g\<lparr>global_lastpkt := t\<rparr>))) \<and>
    fst (netlib_readbytes old (length (m_Data pkt)) gd) = m_Data pkt @ drop (length (m_Data pkt)) old \<and>
    fst (usb_poll (n64_usb g)) = DATATYPE_NETPACKET"
proof -
  let ?g = "g\<lparr>n64_usb := snd (usb_poll (n64_usb g))\<rparr>"
  have u: "usb_poll (n64_usb g) = (DATATYPE_NETPACKET, (n64_usb g)\<lparr>usb_datatype := DATATYPE_NETPACKET,
      usb_datasize := length (NetLib_wire pkt), usb_dataleft := length (NetLib_wire pkt),
      usb_msg := NetLib_wire pkt, usb_waiting := ms\<rparr>)"
    using assms(2-4) by (simp add: usb_poll_def)
  have "usb_at (n64_usb ?g) (NetLib_wire pkt)" using assms(2) by (simp add: u usb_at_def)
  from poll_packet_dispatch [OF assms(1) this, of f game t] assms(5,6)
  obtain gd where gd: "usb_at (n64_usb gd) (m_Data pkt)"
    "poll_packet game t ?g = (case game_on_packet game f (ucast (m_Size pkt)) gd of
         None \<Rightarrow> None | Some (Inl e) \<Rightarrow> Some (Inl e)
       | Some (Inr g) \<Rightarrow> Some (Inr (True, g\<lparr>global_lastpkt := t\<rparr>)))" by auto
  have "fst (netlib_readbytes old (length (m_Data pkt)) gd) = m_Data pkt @ drop (length (m_Data pkt)) old"
    using usb_read_at [of "n64_usb gd" "m_Data pkt" "[]"] gd(1) by (simp add: netlib_readbytes_def)
  with gd(2) u show ?thesis by auto
qed

lemma client_to_console_witness:
  "let g = sample_n64\<lparr>global_funcptrs := (replicate 64 None)[10 := Some 3],
       n64_usb := sample_usb\<lparr>usb_waiting := [(DATATYPE_NETPACKET, NetLib_wire sample_pkt)]\<rparr>\<rparr> in
   \<exists>gd. poll_packet sample_game 9 (g\<lparr>n64_usb := snd (usb_poll (n64_usb g))\<rparr>) =
        Some (Inr (True, gd\<lparr>global_lastpkt := 9\<rparr>)) \<and>
      fst (netlib_readbytes [0, 0, 0] 2 gd) = [7, 8, 0]"
proof -
  let ?g = "sample_n64\<lparr>global_funcptrs := (replicate 64 None)[10 := Some 3],
       n64_usb := sample_usb\<lparr>usb_waiting := [(DATATYPE_NETPACKET, NetLib_wire sample_pkt)]\<rparr>\<rparr>"
  have s: "NetLibPacket_GetType sample_pkt = 10" "m_Data sample_pkt = [7, 8]"
    by (simp_all add: sample_pkt_def NetLibPacket_GetType_def)
  have u: "usb_cart (n64_usb ?g) \<noteq> CART_NONE" "usb_dataleft (n64_usb ?g) = 0"
    "usb_waiting (n64_usb ?g) = (DATATYPE_NETPACKET, NetLib_wire sample_pkt) # []"
    "unat (NetLibPacket_GetType sample_pkt) < length (global_funcptrs ?g)"
    "global_funcptrs ?g ! unat (NetLibPacket_GetType sample_pkt) = Some 3"
    by (simp_all add: sample_usb_def CART_NONE_def s)
  from client_to_console [OF sample_wf(1) u, of sample_game 9 "[0, 0, 0]"] show ?thesis
    unfolding Let_def by (auto simp: s sample_game_def numeral_2_eq_2)
qed

text \<open>The three send functions fill the recipients field of the packet with no bit, with the
  bit of the client's number, and with every bit but the one of the sender's number minus one;
  so the bit that addresses a player in a packet to one client is the next player's bit in a
  broadcast.\<close>

theorem recipients_masks:
  assumes "1 \<le> unat num" "unat num \<le> 31"
  shows "netlib_sendtoserver fuel game t g = netlib_poll fuel game t (put_header 0 g) \<and>
    (\<exists>m. netlib_send env fuel game t num g = netlib_poll fuel game t (put_header m g) \<and>
       (\<forall>k < 32. bit m k \<longleftrightarrow> k = unat num)) \<and>
    (\<exists>m. netlib_broadcast env fuel game t (netlib_setclient num g) =
         netlib_poll fuel game t (put_header m (netlib_setclient num g)) \<and>
       (\<forall>k < 32. bit m k \<longleftrightarrow> k \<noteq> unat num - 1))"
proof -
  have u: "uint num = int (unat num)" by simp
  have g: "nat (int n - 1) = n - 1" for n by simp
  have r: "0 \<le> uint num" "uint num < 32" "0 \<le> uint num - 1" "uint num - 1 < 32"
    using assms u by linarith+
  moreover have "nat (uint num) = unat num" "nat (uint num - 1) = unat num - 1"
    by (simp_all only: u g nat_int)
  ultimately have r: "0 \<le> uint num" "uint num < 32" "0 \<le> uint num - 1" "uint num - 1 < 32"
    "nat (uint num) = unat num" "nat (uint num - 1) = unat num - 1" by blast+
  then have "c_shl1 env (uint num) = push_bit (unat num) 1" by (simp add: c_shl1_def)
  then have s: "\<forall>k < 32. bit (c_shl1 env (uint num)) k \<longleftrightarrow> k = unat num"
    using assms(2) by (auto simp: bit_push_bit_iff bit_1_iff simp del: push_bit_of_1)
  have "c_shl1 env (uint num - 1) = push_bit (unat num - 1) 1"
    using r by (simp add: c_shl1_def)
  moreover have "bit (0xFFFFFFFF :: u32) k" if "k < 32" for k
  proof -
    have m: "(0xFFFFFFFF :: u32) = mask 32" by (simp add: mask_eq_exp_minus_1)
    show ?thesis unfolding m using that by (simp add: bit_mask_iff)
  qed
  ultimately have b: "\<forall>k < 32. bit (0xFFFFFFFF AND NOT (c_shl1 env (uint num - 1))) k \<longleftrightarrow> k \<noteq> unat num - 1"
    using assms by (auto simp: bit_simps simp del: push_bit_of_1)
  show ?thesis
    using s b by (auto simp: netlib_sendtoserver_def netlib_send_def netlib_broadcast_def
        netlib_setclient_def Let_def)
qed

lemma recipients_masks_witness:
  "\<exists>m. netlib_send env_x86 1 sample_game 0 2 sample_n64 = netlib_poll 1 sample_game 0 (put_header m sample_n64) \<and>
     (\<forall>k < 32. bit m k \<longleftrightarrow> k = 2)"
  using recipients_masks [of 2 1 sample_game 0 sample_n64 env_x86] by auto

text \<open>The callback table has 64 entries and the check of \<open>netlib_register\<close> lets the type 64
  through, whose entry lies behind the table; larger types are refused with a warning and
  smaller ones stored.\<close>

theorem register_bounds:
  assumes "length (global_funcptrs g) = 64"
  shows "netlib_register type f g =
    (if unat type < 64 then Inr (g\<lparr>global_funcptrs := (global_funcptrs g)[unat type := f]\<rparr>)
     else if unat type = 64 then Inl OutOfBounds
     else Inr (warn (''Warning: registering more callbacks than supporting. Registration discared!''
             @ [CHR 0x0A, CHR 0x00]) g))"
  using assms by (simp add: netlib_register_def MAX_UNIQUEPACKETS_def)

lemma register_bounds_witness: "netlib_register 64 (Some 1) (sample_n64\<lparr>global_funcptrs := replicate 64 None\<rparr>) = Inl OutOfBounds"
  using register_bounds [of "sample_n64\<lparr>global_funcptrs := replicate 64 None\<rparr>" 64 "Some 1"] by simp

end
