(* ===== verification/NL_Client.thy ===== *)
theory NL_Client
  imports NL_UDP
begin

text \<open>
  The client window of \<^verbatim>\<open>Client App/clientwindow.cpp\<close>: the widgets and the status the window
  shows, the events the threads post to it, and the messages it posts to the device thread.
  The lemmas give the invariant of the input row (the text input and the progress bar take
  turns in one cell) and what the button does in every status.
\<close>

section \<open>Types\<close>

datatype ClientDeviceStatus = CLSTATUS_IDLE | CLSTATUS_UPLOADING | CLSTATUS_DEAD

text \<open>
  The two halves of \<open>ThreadEventType\<close>: the events the threads post to the window and the
  messages the window posts to the device thread, with the data each carries.
\<close>

datatype client_event =
    TEVENT_CLEARCONSOLE
  | TEVENT_WRITECONSOLE wxString
  | TEVENT_WRITECONSOLEERROR wxString
  | TEVENT_SETSTATUS ClientDeviceStatus
  | TEVENT_UPLOADPROGRESS int

datatype client_input = TEVENT_LOADROM wxString | TEVENT_CANCELLOAD | TEVENT_LOADDATA wxString

text \<open>
  What the window and its threads share: the three global message queues and the window's
  own event queue. \<open>None\<close> is a null pointer in the queue.
\<close>

record queues =
  usbthread_pkt :: "AbstractPacket option list"
  serverthread_pkt :: "AbstractPacket list"
  usbthread_input :: "client_input list"
  window_events :: "client_event list"

definition post_event :: "client_event \<Rightarrow> queues \<Rightarrow> queues" where
  "post_event e q = q\<lparr>window_events := window_events q @ [e]\<rparr>"

definition post_input :: "client_input \<Rightarrow> queues \<Rightarrow> queues" where
  "post_input i q = q\<lparr>usbthread_input := usbthread_input q @ [i]\<rparr>"

text \<open>A control as far as the code sets it, and the cell of the sizer that the text input and
  the gauge share. Adding to an occupied cell fails in wxWidgets and changes nothing.\<close>

record 'v widget =
  w_value :: 'v
  w_shown :: bool
  w_enabled :: bool

datatype cell = CellEmpty | CellInput | CellGauge

definition sizer_detach :: "cell \<Rightarrow> cell \<Rightarrow> cell" where
  "sizer_detach x c = (if c = x then CellEmpty else c)"

definition sizer_add :: "cell \<Rightarrow> cell \<Rightarrow> cell" where
  "sizer_add x c = (if c = CellEmpty then x else c)"

text \<open>
  The console is the texts written to it, with \<open>True\<close> for the red ones. \<open>m_DeviceThread\<close> is
  \<open>None\<close> for the null pointer, else whether the thread is still alive.
\<close>

record ClientWindow =
  m_ServerAddress :: wxString
  m_ServerPort :: int
  m_Sizer_Input :: cell
  m_RichText_Console :: "(bool \<times> wxString) list"
  m_TextCtrl_Input :: "wxString widget"
  m_Button_Send :: wxString
  m_Gauge_Upload :: "int widget"
  m_ROMPath :: wxString
  m_DeviceThread :: "bool option"
  m_DeviceStatus :: ClientDeviceStatus
  m_ServerThread :: bool

section \<open>Construction and settings\<close>

text \<open>\<open>garbage\<close> is the port member, which the constructor leaves uninitialised.\<close>

definition new_ClientWindow :: "int \<Rightarrow> ClientWindow" where
  "new_ClientWindow garbage =
     \<lparr>m_ServerAddress = [], m_ServerPort = garbage, m_Sizer_Input = sizer_add CellInput CellEmpty,
      m_RichText_Console = [], m_TextCtrl_Input = \<lparr>w_value = [], w_shown = True, w_enabled = False\<rparr>,
      m_Button_Send = ''Reupload'',
      m_Gauge_Upload = \<lparr>w_value = 0, w_shown = False, w_enabled = False\<rparr>, m_ROMPath = [],
      m_DeviceThread = None, m_DeviceStatus = CLSTATUS_DEAD, m_ServerThread = False\<rparr>"

definition SetROM :: "wxString \<Rightarrow> ClientWindow \<Rightarrow> ClientWindow" where
  "SetROM rom w = w\<lparr>m_ROMPath := rom\<rparr>"

definition SetAddress :: "wxString \<Rightarrow> ClientWindow \<Rightarrow> ClientWindow" where
  "SetAddress addr w = w\<lparr>m_ServerAddress := addr\<rparr>"

definition SetPortNumber :: "int \<Rightarrow> ClientWindow \<Rightarrow> ClientWindow" where
  "SetPortNumber port w = w\<lparr>m_ServerPort := port\<rparr>"

definition ClientWindow_GetAddress :: "ClientWindow \<Rightarrow> wxString" where
  "ClientWindow_GetAddress w = m_ServerAddress w"

definition ClientWindow_GetPort :: "ClientWindow \<Rightarrow> int" where
  "ClientWindow_GetPort w = m_ServerPort w"

section \<open>The text input\<close>

definition m_TextCtrl_Input_OnText :: "ClientWindow \<Rightarrow> ClientWindow" where
  "m_TextCtrl_Input_OnText w =
     (if w_value (m_TextCtrl_Input w) = [] then w\<lparr>m_Button_Send := ''Reupload''\<rparr>
      else w\<lparr>m_Button_Send := ''Send''\<rparr>)"

text \<open>\<open>SetValue\<close>, and what the user types, sends the text event.\<close>

definition set_input :: "wxString \<Rightarrow> ClientWindow \<Rightarrow> ClientWindow" where
  "set_input str w =
     m_TextCtrl_Input_OnText (w\<lparr>m_TextCtrl_Input := (m_TextCtrl_Input w)\<lparr>w_value := str\<rparr>\<rparr>)"

section \<open>Messages to the device thread\<close>

text \<open>The text travels as a C string, which has to fit its buffer.\<close>

definition LoadROM :: "'a wx_scheme \<Rightarrow> env \<Rightarrow> ClientWindow \<Rightarrow> queues \<Rightarrow> queues result" where
  "LoadROM wx env w q =
     rbind (new_c_string wx env (m_ROMPath w)) (\<lambda>data. Inr (post_input (TEVENT_LOADROM (bytes_str data)) q))"

definition LoadData :: "'a wx_scheme \<Rightarrow> env \<Rightarrow> ClientWindow \<Rightarrow> queues \<Rightarrow> (ClientWindow \<times> queues) result" where
  "LoadData wx env w q =
     rbind (new_c_string wx env (w_value (m_TextCtrl_Input w))) (\<lambda>data.
       Inr (set_input [] w, post_input (TEVENT_LOADDATA (bytes_str data)) q))"

section \<open>Threads\<close>

text \<open>The thread constructors: each empties the packet queue it reads from.\<close>

definition new_DeviceThread :: "queues \<Rightarrow> queues" where
  "new_DeviceThread q = post_event (TEVENT_SETSTATUS CLSTATUS_IDLE) (q\<lparr>usbthread_pkt := []\<rparr>)"

definition new_ServerConnectionThread :: "queues \<Rightarrow> queues" where
  "new_ServerConnectionThread q = q\<lparr>serverthread_pkt := []\<rparr>"

text \<open>\<open>runs\<close> is whether the operating system starts the thread.\<close>

definition StartThread_Device :: "bool \<Rightarrow> ClientWindow \<Rightarrow> queues \<Rightarrow> ClientWindow \<times> queues" where
  "StartThread_Device runs w q =
     (let w = (if m_DeviceThread w = Some False then w\<lparr>m_DeviceThread := None\<rparr> else w) in
      if m_DeviceThread w = None
      then (w\<lparr>m_DeviceThread := (if runs then Some True else None)\<rparr>, new_DeviceThread q)
      else (w, q))"

definition StartThread_Server :: "bool \<Rightarrow> ClientWindow \<Rightarrow> queues \<Rightarrow> ClientWindow \<times> queues" where
  "StartThread_Server runs w q =
     (if \<not> m_ServerThread w \<and> ClientWindow_GetAddress w \<noteq> []
      then (w\<lparr>m_ServerThread := runs\<rparr>, new_ServerConnectionThread q)
      else (w, q))"

definition StopThread_Device :: "ClientWindow \<Rightarrow> ClientWindow" where
  "StopThread_Device w = (if m_DeviceThread w \<noteq> None then w\<lparr>m_DeviceThread := None\<rparr> else w)"

definition StopThread_Server :: "ClientWindow \<Rightarrow> ClientWindow" where
  "StopThread_Server w = (if m_ServerThread w then w\<lparr>m_ServerThread := False\<rparr> else w)"

definition BeginWorking ::
    "'a wx_scheme \<Rightarrow> env \<Rightarrow> bool \<Rightarrow> bool \<Rightarrow> ClientWindow \<Rightarrow> queues \<Rightarrow> (ClientWindow \<times> queues) result" where
  "BeginWorking wx env device_runs server_runs w q =
     (let (w, q) = StartThread_Device device_runs w q;
          (w, q) = StartThread_Server server_runs w q
      in rbind (LoadROM wx env w q) (\<lambda>q. Inr (w, q)))"

text \<open>The destructor stops the server thread first.\<close>

definition delete_ClientWindow :: "ClientWindow \<Rightarrow> ClientWindow" where
  "delete_ClientWindow w = StopThread_Device (StopThread_Server w)"

section \<open>Event handlers\<close>

definition m_Button_Send_OnButtonClick ::
    "'a wx_scheme \<Rightarrow> env \<Rightarrow> bool \<Rightarrow> ClientWindow \<Rightarrow> queues \<Rightarrow> (ClientWindow \<times> queues) result" where
  "m_Button_Send_OnButtonClick wx env runs w q =
     (let (w, q) = StartThread_Device runs w q in
      case m_DeviceStatus w of
        CLSTATUS_UPLOADING \<Rightarrow> Inr (w, post_input TEVENT_CANCELLOAD q)
      | CLSTATUS_DEAD \<Rightarrow> rbind (LoadROM wx env w q) (\<lambda>q. Inr (w, q))
      | CLSTATUS_IDLE \<Rightarrow>
          if w_value (m_TextCtrl_Input w) = [] then rbind (LoadROM wx env w q) (\<lambda>q. Inr (w, q))
          else LoadData wx env w q)"

text \<open>The steps that \<open>CLSTATUS_DEAD\<close> and \<open>CLSTATUS_IDLE\<close> have in common when the text input is
  hidden, and the ones of \<open>CLSTATUS_UPLOADING\<close> when it is shown.\<close>

definition show_input :: "ClientWindow \<Rightarrow> ClientWindow" where
  "show_input w =
     w\<lparr>m_Gauge_Upload := \<lparr>w_value = 0, w_shown = False, w_enabled = False\<rparr>,
       m_Sizer_Input := sizer_add CellInput (sizer_detach CellGauge (m_Sizer_Input w)),
       m_TextCtrl_Input := (m_TextCtrl_Input w)\<lparr>w_shown := True\<rparr>\<rparr>"

definition show_gauge :: "ClientWindow \<Rightarrow> ClientWindow" where
  "show_gauge w =
     w\<lparr>m_TextCtrl_Input := (m_TextCtrl_Input w)\<lparr>w_shown := False, w_enabled := False\<rparr>,
       m_Sizer_Input := sizer_add CellGauge (sizer_detach CellInput (m_Sizer_Input w)),
       m_Gauge_Upload := (m_Gauge_Upload w)\<lparr>w_enabled := True, w_shown := True\<rparr>\<rparr>"

definition SetClientDeviceStatus :: "ClientDeviceStatus \<Rightarrow> ClientWindow \<Rightarrow> ClientWindow" where
  "SetClientDeviceStatus status w =
     (let w = w\<lparr>m_DeviceStatus := status\<rparr> in
      case status of
        CLSTATUS_UPLOADING \<Rightarrow>
          (let w = (if w_shown (m_TextCtrl_Input w) then show_gauge w else w)
           in w\<lparr>m_Button_Send := ''Cancel''\<rparr>)
      | CLSTATUS_DEAD \<Rightarrow>
          (let w = (if \<not> w_shown (m_TextCtrl_Input w) then show_input w else w)
           in (set_input [] (w\<lparr>m_TextCtrl_Input := (m_TextCtrl_Input w)\<lparr>w_enabled := False\<rparr>\<rparr>))
                \<lparr>m_Button_Send := ''Reupload''\<rparr>)
      | CLSTATUS_IDLE \<Rightarrow>
          (let w = (if \<not> w_shown (m_TextCtrl_Input w)
                    then (show_input w)\<lparr>m_TextCtrl_Input :=
                      (m_TextCtrl_Input (show_input w))\<lparr>w_enabled := True\<rparr>\<rparr> else w)
           in w\<lparr>m_Button_Send := ''Reupload''\<rparr>))"

fun ClientWindow_ThreadEvent :: "client_event \<Rightarrow> ClientWindow \<Rightarrow> ClientWindow" where
  "ClientWindow_ThreadEvent TEVENT_CLEARCONSOLE w = w\<lparr>m_RichText_Console := []\<rparr>"
| "ClientWindow_ThreadEvent (TEVENT_WRITECONSOLE str) w =
     w\<lparr>m_RichText_Console := m_RichText_Console w @ [(False, str)]\<rparr>"
| "ClientWindow_ThreadEvent (TEVENT_WRITECONSOLEERROR str) w =
     w\<lparr>m_RichText_Console := m_RichText_Console w @ [(True, str)]\<rparr>"
| "ClientWindow_ThreadEvent (TEVENT_SETSTATUS status) w = SetClientDeviceStatus status w"
| "ClientWindow_ThreadEvent (TEVENT_UPLOADPROGRESS prog) w =
     w\<lparr>m_Gauge_Upload := (m_Gauge_Upload w)\<lparr>w_value := prog\<rparr>\<rparr>"

section \<open>The window as a machine\<close>

text \<open>
  Everything that can happen to a window after its construction: a posted event is handled,
  the user types or clicks, a thread starts, ends or is stopped. Typing goes to a control that
  is shown and enabled.
\<close>

datatype window_op = WHandle client_event | WType wxString | WClick bool | WBegin bool bool
  | WDeviceEnds | WSetROM wxString | WSetAddress wxString | WSetPort int

fun window_step :: "'a wx_scheme \<Rightarrow> env \<Rightarrow> window_op \<Rightarrow> ClientWindow \<times> queues \<Rightarrow> (ClientWindow \<times> queues) result" where
  "window_step wx env (WHandle e) (w, q) = Inr (ClientWindow_ThreadEvent e w, q)"
| "window_step wx env (WType s) (w, q) = Inr (set_input s w, q)"
| "window_step wx env (WClick runs) (w, q) = m_Button_Send_OnButtonClick wx env runs w q"
| "window_step wx env (WBegin device_runs server_runs) (w, q) = BeginWorking wx env device_runs server_runs w q"
| "window_step wx env WDeviceEnds (w, q) =
     Inr (w\<lparr>m_DeviceThread := map_option (\<lambda>_. False) (m_DeviceThread w)\<rparr>, q)"
| "window_step wx env (WSetROM rom) (w, q) = Inr (SetROM rom w, q)"
| "window_step wx env (WSetAddress addr) (w, q) = Inr (SetAddress addr w, q)"
| "window_step wx env (WSetPort port) (w, q) = Inr (SetPortNumber port w, q)"

fun window_ok :: "ClientWindow \<times> queues \<Rightarrow> window_op \<Rightarrow> bool" where
  "window_ok (w, q) (WType s) \<longleftrightarrow> w_shown (m_TextCtrl_Input w) \<and> w_enabled (m_TextCtrl_Input w)"
| "window_ok _ _ \<longleftrightarrow> True"

text \<open>
  The invariant: while a ROM is uploaded the gauge fills the cell and the button cancels, and
  otherwise the text input does; only the one that is shown may be enabled; while the device
  is dead the input is empty and disabled.
\<close>

definition window_inv :: "ClientWindow \<Rightarrow> bool" where
  "window_inv w \<longleftrightarrow>
     (if m_DeviceStatus w = CLSTATUS_UPLOADING
      then m_Sizer_Input w = CellGauge \<and> \<not> w_shown (m_TextCtrl_Input w) \<and> \<not> w_enabled (m_TextCtrl_Input w) \<and>
        w_shown (m_Gauge_Upload w) \<and> w_enabled (m_Gauge_Upload w) \<and> m_Button_Send w = ''Cancel''
      else m_Sizer_Input w = CellInput \<and> w_shown (m_TextCtrl_Input w) \<and>
        \<not> w_shown (m_Gauge_Upload w) \<and> \<not> w_enabled (m_Gauge_Upload w) \<and>
        m_Button_Send w \<in> {''Reupload'', ''Send''}) \<and>
     (m_DeviceStatus w = CLSTATUS_DEAD \<longrightarrow>
        w_value (m_TextCtrl_Input w) = [] \<and> \<not> w_enabled (m_TextCtrl_Input w) \<and> m_Button_Send w = ''Reupload'')"

lemma window_inv_new [simp]: "window_inv (new_ClientWindow garbage)"
  by (simp add: window_inv_def new_ClientWindow_def sizer_add_def)

lemmas status_defs = set_input_def m_TextCtrl_Input_OnText_def SetClientDeviceStatus_def show_input_def show_gauge_def sizer_add_def sizer_detach_def

lemma window_inv_status: "window_inv w \<Longrightarrow> window_inv (SetClientDeviceStatus status w)"
  by (cases status) (auto simp: window_inv_def status_defs Let_def split: if_splits)

lemma window_inv_event: "window_inv w \<Longrightarrow> window_inv (ClientWindow_ThreadEvent e w)"
  by (cases e) (auto simp: window_inv_status, auto simp: window_inv_def split: if_splits)

lemma window_inv_other [simp]:
  "window_inv (w\<lparr>m_DeviceThread := d\<rparr>) = window_inv w" "window_inv (w\<lparr>m_ServerThread := s\<rparr>) = window_inv w"
  "window_inv (SetROM rom w) = window_inv w" "window_inv (SetAddress a w) = window_inv w"
  "window_inv (SetPortNumber p w) = window_inv w"
  by (simp_all add: window_inv_def SetROM_def SetAddress_def SetPortNumber_def)

lemma window_inv_start: "window_inv (fst (StartThread_Device runs w q)) = window_inv w"
  "window_inv (fst (StartThread_Server runs w q)) = window_inv w"
  by (simp_all add: StartThread_Device_def StartThread_Server_def Let_def)

lemma window_inv_LoadData:
  "m_DeviceStatus w = CLSTATUS_IDLE \<Longrightarrow> window_inv w \<Longrightarrow> LoadData wx env w q = Inr (w', q') \<Longrightarrow> window_inv w'"
  by (auto simp: window_inv_def LoadData_def set_input_def m_TextCtrl_Input_OnText_def rbind_Inr_iff)

lemma window_step_inv:
  "window_inv (fst s) \<Longrightarrow> window_ok s op \<Longrightarrow> window_step wx env op s = Inr s' \<Longrightarrow> window_inv (fst s')"
proof (cases s)
  case (Pair w q)
  assume inv: "window_inv (fst s)" and ok: "window_ok s op" and step: "window_step wx env op s = Inr s'"
  then have w: "window_inv w" by (simp add: Pair)
  show ?thesis
  proof (cases op)
    case (WType str)
    then show ?thesis using w ok step
      by (auto simp: Pair window_inv_def set_input_def m_TextCtrl_Input_OnText_def split: if_splits)
  next
    case (WClick runs)
    obtain w' q' where st: "StartThread_Device runs w q = (w', q')" by (cases "StartThread_Device runs w q")
    then have "window_inv w'" using w window_inv_start(1) [of runs w q] by simp
    then show ?thesis
      using window_inv_LoadData [of w' wx env q' "fst s'" "snd s'"] step
      by (auto simp: Pair WClick m_Button_Send_OnButtonClick_def st rbind_Inr_iff
          split: ClientDeviceStatus.splits if_splits)
  next
    case (WBegin d r)
    obtain w' q' where st: "StartThread_Device d w q = (w', q')" by (cases "StartThread_Device d w q")
    then have "window_inv (fst (StartThread_Server r w' q'))"
      using w window_inv_start(1) [of d w q] window_inv_start(2) [of r w' q'] by simp
    then show ?thesis
      using step by (cases "StartThread_Server r w' q'") (auto simp: Pair WBegin BeginWorking_def st rbind_Inr_iff)
  qed (use w step in \<open>auto simp: Pair window_inv_event\<close>)
qed

interpretation window: partial_machine "\<lambda>op s. result_option (window_step wx env op s)" window_ok
    "\<lambda>s. window_inv (fst s)" for wx :: wx and env
  by unfold_locales (simp add: window_step_inv)

section \<open>Properties\<close>

definition no_queues :: queues where
  "no_queues = \<lparr>usbthread_pkt = [], serverthread_pkt = [], usbthread_input = [], window_events = []\<rparr>"

text \<open>wxWidgets in a UTF-8 locale, as far as the instances need it.\<close>

definition utf8_wx :: wx where
  "utf8_wx = \<lparr>wx_tokens = (\<lambda>s _. [s]), wx_ToInt = (\<lambda>s old. old),
     wx_mb_str = (\<lambda>s. concat (map (\<lambda>c. if of_char c < (128 :: nat) then [of_char c]
       else [192 OR drop_bit 6 (of_char c), 128 OR (of_char c AND 63)]) s))\<rparr>"

lemma utf8_documented: "mb_str_documented utf8_wx"
proof -
  have "concat (map (\<lambda>c. if of_char c < (128 :: nat) then [of_char c :: byte]
      else [192 OR drop_bit 6 (of_char c), 128 OR (of_char c AND 63)]) s) = str_bytes s" if "plain_text s" for s
    using that by (induction s) (auto simp: plain_text_def str_bytes_def)
  then show ?thesis by (simp add: mb_str_documented_def utf8_wx_def)
qed

text \<open>After any history of events, typing, clicks and thread starts on a new client window,
  as far as the program gets, the progress bar fills the input row exactly while a ROM is uploading, with the button on
  Cancel, and the text input fills it otherwise; while the device is dead the input is empty and
  disabled and the button uploads again.\<close>

theorem window_history_invariant:
  assumes "window.admissible wx env (new_ClientWindow port, q) ops"
    and "window.run wx env ops (new_ClientWindow port, q) = Some (w, q')"
  shows "(m_DeviceStatus w = CLSTATUS_UPLOADING \<longleftrightarrow> m_Sizer_Input w = CellGauge) \<and>
    (m_Sizer_Input w = CellGauge \<longleftrightarrow> w_shown (m_Gauge_Upload w)) \<and>
    (m_Sizer_Input w = CellInput \<longleftrightarrow> w_shown (m_TextCtrl_Input w)) \<and>
    (m_DeviceStatus w = CLSTATUS_UPLOADING \<longrightarrow> m_Button_Send w = ''Cancel'') \<and>
    (m_DeviceStatus w = CLSTATUS_DEAD \<longrightarrow> m_Button_Send w = ''Reupload'' \<and>
       w_value (m_TextCtrl_Input w) = [] \<and> \<not> w_enabled (m_TextCtrl_Input w))"
proof -
  have "window_inv w"
    using window.inv_run [OF _ assms] by simp
  then show ?thesis by (auto simp: window_inv_def split: if_splits)
qed

lemma window_history_invariant_witness:
  "\<exists>w q. window.run utf8_wx env_x86 [WHandle (TEVENT_SETSTATUS CLSTATUS_UPLOADING), WClick True]
      (new_ClientWindow 0, no_queues) = Some (w, q) \<and>
    m_Sizer_Input w = CellGauge \<and> TEVENT_CANCELLOAD \<in> set (usbthread_input q)"
proof -
  let ?ops = "[WHandle (TEVENT_SETSTATUS CLSTATUS_UPLOADING), WClick True]"
  let ?s = "(new_ClientWindow 0, no_queues)"
  have adm: "window.admissible utf8_wx env_x86 ?s ?ops" by (simp split: option.split)
  note defs = m_Button_Send_OnButtonClick_def StartThread_Device_def status_defs
    new_ClientWindow_def no_queues_def Let_def post_input_def new_DeviceThread_def post_event_def
  obtain w q where r: "window.run utf8_wx env_x86 ?ops ?s = Some (w, q)" by (simp add: defs)
  moreover have "m_DeviceStatus w = CLSTATUS_UPLOADING" "TEVENT_CANCELLOAD \<in> set (usbthread_input q)"
    using r by (auto simp: defs)
  ultimately show ?thesis using window_history_invariant [OF adm r] by auto
qed

text \<open>A click posts exactly one message to the device thread, which the status chooses: to
  cancel during an upload, to load the ROM again when the device is dead or nothing has been
  typed, and else to send the text, which is then cleared. If the device thread is gone it is
  started again first and the packets waiting for the old one are dropped.\<close>

theorem click_posts_one_message:
  assumes "m_Button_Send_OnButtonClick wx env runs w q = Inr (w', q')"
  shows "usbthread_input q' = usbthread_input q @
      [case m_DeviceStatus w of
         CLSTATUS_UPLOADING \<Rightarrow> TEVENT_CANCELLOAD
       | CLSTATUS_DEAD \<Rightarrow> TEVENT_LOADROM (bytes_str (c_string (wx_mb_str wx (m_ROMPath w))))
       | CLSTATUS_IDLE \<Rightarrow>
           if w_value (m_TextCtrl_Input w) = []
           then TEVENT_LOADROM (bytes_str (c_string (wx_mb_str wx (m_ROMPath w))))
           else TEVENT_LOADDATA (bytes_str (c_string (wx_mb_str wx (w_value (m_TextCtrl_Input w)))))] \<and>
    (m_DeviceStatus w = CLSTATUS_IDLE \<longrightarrow> w_value (m_TextCtrl_Input w') = []) \<and>
    (m_DeviceThread w = Some True \<longrightarrow> m_DeviceThread w' = Some True \<and> usbthread_pkt q' = usbthread_pkt q) \<and>
    (m_DeviceThread w \<noteq> Some True \<longrightarrow>
       m_DeviceThread w' = (if runs then Some True else None) \<and> usbthread_pkt q' = [])"
  using assms
  by (auto simp: m_Button_Send_OnButtonClick_def StartThread_Device_def Let_def post_input_def
      LoadROM_def LoadData_def set_input_def m_TextCtrl_Input_OnText_def new_DeviceThread_def post_event_def
      rbind_Inr_iff new_c_string_def split: ClientDeviceStatus.splits if_splits)

lemma click_posts_one_message_witness:
  "\<exists>w q. m_Button_Send_OnButtonClick utf8_wx env_x86 True (SetROM ''a.z64'' (new_ClientWindow 0)) no_queues = Inr (w, q) \<and>
     usbthread_input q = [TEVENT_LOADROM ''a.z64''] \<and> m_DeviceThread w = Some True"
proof -
  have plain: "plain_text ''a.z64''" by (simp add: plain_text_def)
  have s: "new_c_string utf8_wx env_x86 ''a.z64'' = Inr (str_bytes ''a.z64'')" "wx_mb_str utf8_wx ''a.z64'' = str_bytes ''a.z64''"
    using new_c_string_plain [OF alloc_ok_instances utf8_documented plain] utf8_documented plain
    by (simp_all add: mb_str_documented_def)
  obtain w q where r: "m_Button_Send_OnButtonClick utf8_wx env_x86 True (SetROM ''a.z64'' (new_ClientWindow 0)) no_queues = Inr (w, q)"
    using s by (simp add: m_Button_Send_OnButtonClick_def StartThread_Device_def LoadROM_def new_ClientWindow_def SetROM_def)
  then show ?thesis
    using click_posts_one_message [OF r] s plain_c_string [OF plain]
    by (simp add: new_ClientWindow_def SetROM_def no_queues_def)
qed

text \<open>A ROM path whose bytes outnumber its characters, as any text with a letter outside
  ASCII has in UTF-8, overruns the buffer it is copied to, and ASCII text never does.\<close>

theorem path_copy_overflows:
  assumes "alloc_ok env" "mb_str_documented wx"
  shows "(LoadROM wx env w q = Inl OutOfBounds \<longleftrightarrow>
      length (m_ROMPath w) < length (c_string (wx_mb_str wx (m_ROMPath w)))) \<and>
    (plain_text (m_ROMPath w) \<longrightarrow> LoadROM wx env w q = Inr (post_input (TEVENT_LOADROM (m_ROMPath w)) q))"
  using new_c_string_fits [OF assms(1), of wx "m_ROMPath w"] new_c_string_plain [OF assms, of "m_ROMPath w"]
  by (auto simp: LoadROM_def copy_fits_def)

lemma path_copy_overflows_witness:
  "LoadROM utf8_wx env_x86 (SetROM [CHR 0xE9] (new_ClientWindow 0)) no_queues = Inl OutOfBounds"
  by (subst conjunct1 [OF path_copy_overflows [OF alloc_ok_instances utf8_documented]])
    (simp add: SetROM_def utf8_wx_def c_string_def of_char_def)

end
