(* ===== verification/NL_Rom.thy ===== *)
theory NL_Rom
  imports NL_Client NL_Sha256 "HOL-Library.Sublist"
begin

text \<open>
  The helper functions at the top of \<^verbatim>\<open>Client App/serverbrowser.cpp\<close>, which map a server's
  ROM to a file and compare it with the server's hash, the translation of a hash to the bytes
  of a download request, and the progress window of \<^verbatim>\<open>Client App/romdownloader.cpp\<close>.
\<close>

section \<open>wxWidgets and the file system\<close>

text \<open>The further members of \<open>wxString\<close> and \<open>wxFileName\<close> the code calls.\<close>

record wxlib = wx +
  wx_Right :: "wxString \<Rightarrow> nat \<Rightarrow> wxString"
  wx_Replace :: "wxString \<Rightarrow> wxString \<Rightarrow> wxString \<Rightarrow> wxString"
  wx_AfterFirst :: "wxString \<Rightarrow> char \<Rightarrow> wxString"
  wx_Lower :: "wxString \<Rightarrow> wxString"
  wx_GetPathSeparator :: char

text \<open>Files by path, the directories that exist, and which files can be opened.\<close>

record fs =
  fs_files :: "wxString \<Rightarrow> byte list option"
  fs_dirs :: "wxString list"
  fs_opens :: "wxString \<Rightarrow> bool"

section \<open>Addresses, names and paths\<close>

text \<open>The port keeps its value when the string has no second token.\<close>

definition address_fromstr :: "wxlib \<Rightarrow> wxString \<Rightarrow> int \<Rightarrow> wxString \<times> int" where
  "address_fromstr wx str port =
     (let tokens = wx_tokens wx str '':'' in
      (case tokens of [] \<Rightarrow> [] | t # _ \<Rightarrow> t,
       case tokens of _ # t # _ \<Rightarrow> wx_ToInt wx t port | _ \<Rightarrow> port))"

definition get_sanitizedromname :: "wxlib \<Rightarrow> wxString \<Rightarrow> wxString" where
  "get_sanitizedromname wx romname =
     (if wx_Right wx romname (length ''</span>'') = ''</span>''
      then wx_AfterFirst wx (wx_Replace wx romname ''</span>'' []) (CHR ''>'')
      else romname)"

definition get_rompath :: "wxlib \<Rightarrow> fs \<Rightarrow> wxString \<Rightarrow> wxString \<times> fs" where
  "get_rompath wx fs romname =
     (''roms'' @ [wx_GetPathSeparator wx] @ romname,
      if ''roms'' \<in> set (fs_dirs fs) then fs else fs\<lparr>fs_dirs := ''roms'' # fs_dirs fs\<rparr>)"

text \<open>
  \<open>ctx\<close> is the uninitialised context on the stack. The file size is cut to 32 bits. \<open>None\<close>
  would be an update that does not end.
\<close>

definition is_samerom :: "wxlib \<Rightarrow> env \<Rightarrow> SHA256_CTX \<Rightarrow> fs \<Rightarrow> wxString \<Rightarrow> wxString \<Rightarrow> (bool \<times> fs) option" where
  "is_samerom wx env ctx fs romname romhash =
     (case get_rompath wx fs romname of (rompath, fs) \<Rightarrow>
      case fs_files fs rompath of
        None \<Rightarrow> Some (False, fs)
      | Some content \<Rightarrow>
          if \<not> fs_opens fs rompath then Some (False, fs) else
          let filesize = length content mod 2 ^ 32 in
          if \<not> env_malloc env filesize then Some (False, fs) else
          (case sha256_update (sha256_init ctx) (take filesize content) of
             None \<Rightarrow> None
           | Some ctx \<Rightarrow>
               let hash = snd (sha256_final ctx);
                   hashstr = concat (map fmt_02X hash)
               in Some (hashstr = romhash, fs)))"

section \<open>Messages to the finder thread\<close>

datatype ThreadEventType = TEVENT_ADDSERVER | TEVENT_DOLIST | TEVENT_DODL | TEVENT_CANCELDL | TEVENT_FILENAME

text \<open>\<open>None\<close> is a null \<open>data\<close> pointer.\<close>

record InputMessage =
  im_type :: ThreadEventType
  im_data :: "byte list option"

text \<open>
  The loop of \<open>RequestDownload\<close> that reads the hash two characters at a time into a buffer of
  32 bytes; \<open>char\<close> arithmetic keeps 8 bits.
\<close>

definition hex_nibble :: "char \<Rightarrow> byte" where
  "hex_nibble c =
     (if of_char (CHR ''a'') \<le> (of_char c :: nat) \<and> of_char c \<le> (of_char (CHR ''f'') :: nat)
      then 10 + of_char c - of_char (CHR ''a'') else of_char c - of_char (CHR ''0''))"

fun hash_bytes :: "nat \<Rightarrow> wxString \<Rightarrow> byte list \<Rightarrow> byte list result" where
  "hash_bytes i [] romhash = Inr romhash"
| "hash_bytes i [c] romhash = Inl OutOfBounds"
| "hash_bytes i (c # d # cs) romhash =
     (if i < length romhash
      then hash_bytes (i + 1) cs (romhash[i := push_bit 4 (hex_nibble c) OR hex_nibble d])
      else Inl OutOfBounds)"

text \<open>
  The two messages a download request posts; \<open>stack\<close> is what the 32 bytes held before. The path
  is copied into a buffer of its own, which it has to fit.
\<close>

definition download_messages ::
    "wxlib \<Rightarrow> env \<Rightarrow> byte list \<Rightarrow> wxString \<Rightarrow> wxString \<Rightarrow> InputMessage list result" where
  "download_messages wx env stack hash filepath =
     rbind (hash_bytes 0 (wx_Lower wx hash) stack) (\<lambda>romhash.
     rbind (new_c_string wx env filepath) (\<lambda>name.
     if \<not> env_malloc env 32 then Inl NullPointer
     else Inr
       [\<lparr>im_type = TEVENT_FILENAME, im_data = Some (name @ [0])\<rparr>,
        \<lparr>im_type = TEVENT_DODL, im_data = Some romhash\<rparr>]))"

section \<open>The progress window\<close>

text \<open>\<open>dl_code\<close> is the code the modal dialog ended with, while it has ended.\<close>

record ROMDownloadWindow =
  m_Gauge_Download :: int
  dl_code :: "int option"
  dl_events :: "int list"

definition new_ROMDownloadWindow :: ROMDownloadWindow where
  "new_ROMDownloadWindow = \<lparr>m_Gauge_Download = 0, dl_code = None, dl_events = []\<rparr>"

definition ROMDownloadWindow_CancelOnButtonClick :: "ROMDownloadWindow \<Rightarrow> ROMDownloadWindow" where
  "ROMDownloadWindow_CancelOnButtonClick w = w\<lparr>dl_code := Some 0\<rparr>"

definition UpdateDownloadProgress :: "int \<Rightarrow> ROMDownloadWindow \<Rightarrow> ROMDownloadWindow" where
  "UpdateDownloadProgress progress w = w\<lparr>dl_events := dl_events w @ [progress]\<rparr>"

text \<open>The window handles the oldest queued event.\<close>

definition ROMDownloadWindow_ThreadEvent :: "ROMDownloadWindow \<Rightarrow> ROMDownloadWindow" where
  "ROMDownloadWindow_ThreadEvent w =
     (case dl_events w of
        [] \<Rightarrow> w
      | prog # evs \<Rightarrow>
          let w = w\<lparr>dl_events := evs, m_Gauge_Download := prog\<rparr>
          in if prog = 100 then w\<lparr>dl_code := Some 1\<rparr> else w)"

section \<open>What the library documents\<close>

text \<open>
  The behaviour of the \<open>wxString\<close> members, for the properties: \<open>Right\<close> is the tail of a given
  length, \<open>Replace\<close> goes from left to right, \<open>AfterFirst\<close> is empty when the character does not
  occur, \<open>Lower\<close> maps the capital letters, and \<open>mb_str\<close> keeps ASCII text.
\<close>

function replace_all :: "wxString \<Rightarrow> wxString \<Rightarrow> wxString \<Rightarrow> wxString" where
  "replace_all old new s =
     (case s of [] \<Rightarrow> []
      | c # cs \<Rightarrow> if old \<noteq> [] \<and> take (length old) s = old
          then new @ replace_all old new (drop (length old) s) else c # replace_all old new cs)"
  by pat_completeness auto
termination by (relation "measure (\<lambda>(_, _, s). length s)") auto

declare replace_all.simps [simp del]

definition lower_char :: "char \<Rightarrow> char" where
  "lower_char c = (let n = of_char c :: nat in if 65 \<le> n \<and> n \<le> 90 then char_of (n + 32) else c)"

definition wx_documented :: "wxlib \<Rightarrow> bool" where
  "wx_documented wx \<longleftrightarrow> (\<forall>s n. wx_Right wx s n = drop (length s - n) s) \<and>
     (\<forall>s old new. wx_Replace wx s old new = replace_all old new s) \<and>
     (\<forall>s c. wx_AfterFirst wx s c = drop 1 (dropWhile (\<lambda>d. d \<noteq> c) s)) \<and>
     (\<forall>s. wx_Lower wx s = map lower_char s) \<and> mb_str_documented wx"

section \<open>Hashes as text and as bytes\<close>

lemma less_16_cases:
  "n < (16 :: nat) \<Longrightarrow> n \<in> {0, 1, 2, 3, 4, 5, 6, 7, 8, 9, 10, 11, 12, 13, 14, 15}"
  unfolding insert_iff empty_iff by presburger

lemma lower_letters:
  "char_of (97 :: nat) = CHR ''a''" "char_of (98 :: nat) = CHR ''b''" "char_of (99 :: nat) = CHR ''c''"
  "char_of (100 :: nat) = CHR ''d''" "char_of (101 :: nat) = CHR ''e''" "char_of (102 :: nat) = CHR ''f''"
  by code_simp+

lemma hex_digit_nibble: "n < 16 \<Longrightarrow> hex_nibble (lower_char (hexdigits ! n)) = of_nat n"
  by (drule less_16_cases)
    (auto simp: hexdigits_def lower_char_def hex_nibble_def Let_def lower_letters)

lemma nibbles: "push_bit 4 (of_nat (unat b div 16)) OR of_nat (unat b mod 16) = (b :: byte)"
proof -
  have "of_nat (unat b div 16) = drop_bit 4 b"
    using unsigned_less [of b, where 'a = nat]
    by (simp add: word_unat_eq_iff unat_drop_bit_eq drop_bit_eq_div unat_of_nat take_bit_eq_mod unat_div)
  moreover have "of_nat (unat b mod 16) = take_bit 4 b"
    by (simp add: word_unat_eq_iff take_bit_eq_mod unat_of_nat unat_mod mod_mod_cancel unsigned_take_bit_eq)
  ultimately show ?thesis
    by (simp only:) (rule bit_word_eqI, auto simp: bit_simps)
qed

lemma hash_bytes_fmt:
  "i + length bs \<le> length r \<Longrightarrow>
     hash_bytes i (map lower_char (concat (map fmt_02X bs))) r = Inr (take i r @ bs @ drop (i + length bs) r)"
proof (induction bs arbitrary: i r)
  case (Cons b bs)
  have n: "unat b div 16 < 16" "unat b mod 16 < 16"
    using unsigned_less [of b, where 'a = nat] by (simp_all add: less_mult_imp_div_less)
  have "take (Suc i) (r[i := b]) = take i r @ [b]"
    using Cons.prems by (simp add: take_Suc_conv_app_nth)
  then show ?case
    using Cons.IH [of "Suc i" "r[i := b]"] Cons.prems
    by (simp add: fmt_02X_def hex_digit_nibble [OF n(1)] hex_digit_nibble [OF n(2)] nibbles)
qed simp

lemma hash_bytes_overflow:
  "2 * (length r - i) < length cs \<Longrightarrow> i \<le> length r \<Longrightarrow> hash_bytes i cs r = Inl OutOfBounds"
  by (induction i cs r rule: hash_bytes.induct) auto

text \<open>A hash fits when it has pairs of characters, at most one for each byte of the buffer.\<close>

lemma hash_bytes_outcome:
  "i \<le> length r \<Longrightarrow>
     if even (length cs) \<and> length cs \<le> 2 * (length r - i) then \<exists>bs. hash_bytes i cs r = Inr bs
     else hash_bytes i cs r = Inl OutOfBounds"
  by (induction i cs r rule: hash_bytes.induct) (auto split: if_splits)

definition request_fits :: "wxlib \<Rightarrow> wxString \<Rightarrow> wxString \<Rightarrow> bool" where
  "request_fits wx hash path \<longleftrightarrow> even (length hash) \<and> length hash \<le> 64 \<and> copy_fits wx path"

lemma download_messages_outcome:
  assumes "wx_documented wx" "alloc_ok env" "length stack = 32"
  shows "if request_fits wx hash path then \<exists>ms. download_messages wx env stack hash path = Inr ms
    else download_messages wx env stack hash path = Inl OutOfBounds"
proof -
  have l: "wx_Lower wx hash = map lower_char hash" using assms(1) by (simp add: wx_documented_def)
  have m: "env_malloc env 32" using assms(2) by (simp add: alloc_ok_def)
  show ?thesis
    using hash_bytes_outcome [of 0 stack "map lower_char hash"] assms(3)
    by (auto simp: download_messages_def l m new_c_string_fits [OF assms(2)] request_fits_def split: if_splits)
qed

lemma download_messages_plain:
  assumes "wx_documented wx" "alloc_ok env" "length stack = 32" "length bs = 32" "plain_text path"
  shows "download_messages wx env stack (concat (map fmt_02X bs)) path = Inr
       [\<lparr>im_type = TEVENT_FILENAME, im_data = Some (str_bytes path @ [0])\<rparr>,
        \<lparr>im_type = TEVENT_DODL, im_data = Some bs\<rparr>]"
proof -
  have l: "wx_Lower wx hash = map lower_char hash" and d: "mb_str_documented wx" for hash
    using assms(1) by (simp_all add: wx_documented_def)
  have m: "env_malloc env 32" using assms(2) by (simp add: alloc_ok_def)
  show ?thesis
    using hash_bytes_fmt [of 0 bs stack] assms(3,4) new_c_string_plain [OF assms(2) d assms(5)]
    by (simp add: download_messages_def l m)
qed

section \<open>Markup\<close>

lemma replace_all_end:
  assumes "old \<noteq> []" "\<And>i. i < length a \<Longrightarrow> take (length old) (drop i (a @ old)) \<noteq> old"
  shows "replace_all old [] (a @ old) = a"
  using assms(2)
proof (induction a)
  case Nil
  have "replace_all old [] [] = []" by (simp add: replace_all.simps)
  then show ?case using assms(1) by (subst replace_all.simps) (auto split: list.split)
next
  case (Cons c a)
  have "take (length old) (c # a @ old) \<noteq> old" using Cons.prems [of 0] by simp
  moreover have "replace_all old [] (a @ old) = a"
    by (rule Cons.IH) (use Cons.prems [of "Suc i" for i] in simp)
  ultimately show ?case by (subst replace_all.simps) simp
qed

lemma no_early_close:
  assumes "\<not> sublist ''</span>'' name" "CHR ''<'' \<notin> set rest" "i < length (CHR ''<'' # CHR ''s'' # rest @ name)"
  shows "take 7 (drop i ((CHR ''<'' # CHR ''s'' # rest @ name) @ ''</span>'')) \<noteq> ''</span>''"
proof
  let ?p = "CHR ''<'' # CHR ''s'' # rest"
  assume eq: "take 7 (drop i ((CHR ''<'' # CHR ''s'' # rest @ name) @ ''</span>'')) = ''</span>''"
  have at: "((?p @ name) @ ''</span>'') ! (i + j) = ''</span>'' ! j" if "j < 7" for j
  proof -
    have "''</span>'' ! j = take 7 (drop i ((?p @ name) @ ''</span>'')) ! j"
      using eq by simp
    also have "\<dots> = ((?p @ name) @ ''</span>'') ! (i + j)"
      using that assms(3) by simp
    finally show ?thesis by simp
  qed
  show False
  proof (cases "i < length ?p")
    case True
    then have "((?p @ name) @ ''</span>'') ! i = ?p ! i"
      by (simp only: append_assoc nth_append if_True)
    then have "?p ! i = CHR ''<''" using at [of 0] by simp
    then have "i = 0"
      using assms(2) True by (cases i; cases "i - 1") (auto simp: nth_Cons in_set_conv_nth split: nat.splits)
    with at [of 1] show False by simp
  next
    case False
    define k where "k = i - length ?p"
    have k: "k < length name" "i = length ?p + k" using False assms(3) by (simp_all add: k_def)
    have at': "(name @ ''</span>'') ! (k + j) = ''</span>'' ! j" if "j < 7" for j
      using at [OF that] k(2) by (simp add: nth_append add.assoc)
    show False
    proof (cases "k + 7 \<le> length name")
      case True
      have "take 7 (drop k name) = ''</span>''"
      proof (rule nth_equalityI)
        show "length (take 7 (drop k name)) = length ''</span>''" using True by simp
        show "take 7 (drop k name) ! j = ''</span>'' ! j" if "j < length (take 7 (drop k name))" for j
          using at' [of j] that True by (simp add: nth_append)
      qed
      then have "name = take k name @ ''</span>'' @ drop 7 (drop k name)"
        by (metis append_take_drop_id)
      with assms(1) show False unfolding sublist_def by blast
    next
      case False
      then have j: "length name - k < 7" "0 < length name - k" using k(1) by simp_all
      have "''</span>'' ! (length name - k) = CHR ''<''"
        using at' [OF j(1)] k(1) by (simp add: nth_append)
      with j show False
        by (auto simp: less_Suc_eq numeral_eq_Suc)
    qed
  qed
qed

section \<open>The helpers on documented input\<close>

lemma is_samerom_fips:
  assumes "length (ctx_data ctx) = 64" "alloc_ok env"
    and "rompath = ''roms'' @ [wx_GetPathSeparator wx] @ romname"
    and "\<forall>content. fs_files fs rompath = Some content \<longrightarrow> length content < 2 ^ 32"
  shows "is_samerom wx env ctx fs romname romhash =
    Some (case fs_files fs rompath of
            None \<Rightarrow> False
          | Some content \<Rightarrow> fs_opens fs rompath \<and>
              romhash = concat (map fmt_02X (fips_sha256 content)), snd (get_rompath wx fs romname))"
proof -
  obtain fs' where p: "get_rompath wx fs romname = (rompath, fs')"
    and fs': "fs_files fs' = fs_files fs" "fs_opens fs' = fs_opens fs"
    unfolding get_rompath_def assms(3) by auto
  show ?thesis
  proof (cases "fs_files fs rompath")
    case None
    then show ?thesis by (simp add: is_samerom_def p fs')
  next
    case (Some content)
    then have "length content < 2 ^ 32" using assms(4) by simp
    then have m: "length content mod 4294967296 = length content" by simp
    obtain c where "sha256_update (sha256_init ctx) content = Some c"
      "snd (sha256_final c) = fips_sha256 content"
      using sha256.hash_once [OF assms(1) \<open>length content < 2 ^ 32\<close>] by blast
    then show ?thesis
      using Some assms(2) by (auto simp: is_samerom_def p fs' m alloc_ok_def Let_def)
  qed
qed

lemma sanitize_coloured:
  assumes "wx_documented wx" "\<not> sublist ''</span>'' name"
    and "CHR ''<'' \<notin> set colour" "CHR ''>'' \<notin> set colour"
  shows "get_sanitizedromname wx (''<span color='' @ colour @ ''>'' @ name @ ''</span>'') = name"
proof -
  define r where "r = ''pan color='' @ colour @ ''>''"
  let ?a = "CHR ''<'' # CHR ''s'' # r @ name"
  have s: "''<span color='' @ colour @ ''>'' @ name @ ''</span>'' = ?a @ ''</span>''"
    by (simp add: r_def)
  have l: "length ''</span>'' = 7" by simp
  have "CHR ''<'' \<notin> set r" using assms(3) by (simp add: r_def)
  then have "replace_all ''</span>'' [] (?a @ ''</span>'') = ?a"
    by (intro replace_all_end no_early_close [OF assms(2), folded l]) simp_all
  moreover have "dropWhile (\<lambda>d. d \<noteq> CHR ''>'') (colour @ CHR ''>'' # name) = CHR ''>'' # name"
    using assms(4) by (subst dropWhile_append2) auto
  then have "drop 1 (dropWhile (\<lambda>d. d \<noteq> CHR ''>'') ?a) = name" by (simp add: r_def)
  moreover have "drop (length (?a @ ''</span>'') - 7) (?a @ ''</span>'') = ''</span>''" by simp
  ultimately show ?thesis
    using assms(1) unfolding s get_sanitizedromname_def wx_documented_def by simp
qed

section \<open>Properties\<close>

text \<open>wxWidgets and a disk as the properties' instances use them.\<close>

definition sample_wx :: wxlib where
  "sample_wx = \<lparr>wx_tokens = (\<lambda>s _. if s = ''host:6464'' then [''host'', ''6464''] else [s]),
     wx_ToInt = (\<lambda>s old. if s = ''6464'' then 6464 else old), wx_mb_str = wx_mb_str utf8_wx,
     wx_Right = (\<lambda>s n. drop (length s - n) s), wx_Replace = (\<lambda>s old new. replace_all old new s),
     wx_AfterFirst = (\<lambda>s c. drop 1 (dropWhile (\<lambda>d. d \<noteq> c) s)), wx_Lower = map lower_char,
     wx_GetPathSeparator = CHR ''/''\<rparr>"

definition sample_fs :: fs where
  "sample_fs = \<lparr>fs_files = [''roms/a.z64'' \<mapsto> [1, 2, 3]], fs_dirs = [''roms''], fs_opens = (\<lambda>_. True)\<rparr>"

definition blank_ctx :: SHA256_CTX where
  "blank_ctx = \<lparr>ctx_data = replicate 64 0, ctx_datalen = 0, ctx_bitlen = 0, ctx_state = []\<rparr>"

lemma sample_wx_documented: "wx_documented sample_wx"
  using utf8_documented by (simp add: wx_documented_def sample_wx_def mb_str_documented_def)

text \<open>For a ROM file that can be opened and is shorter than 4 GB, \<open>is_samerom\<close> says yes
  exactly when the given string is the upper-case hexadecimal SHA-256 digest of the file, and
  without such a file it says no.\<close>

theorem samerom_is_sha256:
  assumes "length (ctx_data ctx) = 64" "alloc_ok env"
    and "rompath = ''roms'' @ [wx_GetPathSeparator wx] @ romname"
    and "\<forall>content. fs_files fs rompath = Some content \<longrightarrow> length content < 2 ^ 32"
  shows "\<exists>fs'. is_samerom wx env ctx fs romname romhash =
    Some (case fs_files fs rompath of
            None \<Rightarrow> False
          | Some content \<Rightarrow> fs_opens fs rompath \<and>
              romhash = concat (map fmt_02X (fips_sha256 content)), fs')"
  using is_samerom_fips [OF assms] by blast

lemma samerom_is_sha256_witness:
  "\<exists>fs'. is_samerom sample_wx env_x86 blank_ctx sample_fs ''a.z64'' ''00'' = Some (False, fs')"
proof -
  let ?path = "''roms'' @ [wx_GetPathSeparator sample_wx] @ ''a.z64''"
  have f: "fs_files sample_fs ?path = Some [1, 2, 3]" by (simp add: sample_wx_def sample_fs_def)
  have "''00'' \<noteq> concat (map fmt_02X ds)" if "length ds = 32" for ds
  proof
    assume "''00'' = concat (map fmt_02X ds)"
    then have "length ''00'' = 2 * length ds" by (simp only: length_concat_fmt)
    with that show False by simp
  qed
  from this [OF length_fips_sha256] have n: "''00'' \<noteq> concat (map fmt_02X (fips_sha256 [1, 2, 3]))" .
  have "length (ctx_data blank_ctx) = 64" by (simp add: blank_ctx_def)
  moreover have "\<forall>content. Some [1, 2, 3] = Some (content :: byte list) \<longrightarrow> length content < 2 ^ 32" by simp
  ultimately show ?thesis
    using samerom_is_sha256 [OF _ alloc_ok_instances refl, of blank_ctx sample_fs sample_wx "''a.z64''" "''00''"] n
    unfolding f option.case by (simp only: simp_thms)
qed

text \<open>A ROM name without a closing span tag that the server list shows in a colour comes
  back unchanged when the markup is removed.\<close>

theorem sanitized_name_roundtrip:
  assumes "wx_documented wx" "\<not> sublist ''</span>'' name"
    and "CHR ''<'' \<notin> set colour" "CHR ''>'' \<notin> set colour"
  shows "get_sanitizedromname wx (''<span color='' @ colour @ ''>'' @ name @ ''</span>'') = name"
  using assms by (rule sanitize_coloured)

lemma sanitized_name_roundtrip_witness:
  "get_sanitizedromname sample_wx (''<span color='' @ ''#008000'' @ ''>'' @ ''pong.z64'' @ ''</span>'') = ''pong.z64''"
  by (rule sanitized_name_roundtrip [OF sample_wx_documented])
    (auto simp: sublist_code)

text \<open>The download request for a plain path and a hash that is the text of 32 bytes posts the
  path, ended by a NUL, and then exactly these 32 bytes; a hash of more than 64 characters
  writes behind the 32-byte buffer, and so does a path whose bytes outnumber its characters
  behind the buffer for the path.\<close>

theorem download_request_bytes:
  assumes "wx_documented wx" "alloc_ok env" "length stack = 32"
  shows "(\<forall>bs. length bs = 32 \<longrightarrow> plain_text path \<longrightarrow>
      stringhash_frombytes bs 32 = Inr (concat (map fmt_02X bs)) \<and>
      download_messages wx env stack (concat (map fmt_02X bs)) path = Inr
       [\<lparr>im_type = TEVENT_FILENAME, im_data = Some (str_bytes path @ [0])\<rparr>,
        \<lparr>im_type = TEVENT_DODL, im_data = Some bs\<rparr>]) \<and>
    (\<forall>hash. 64 < length hash \<or> length path < length (c_string (wx_mb_str wx path)) \<longrightarrow>
      download_messages wx env stack hash path = Inl OutOfBounds)"
proof (intro conjI allI impI)
  fix bs :: "byte list" assume bs: "length bs = 32"
  then show "stringhash_frombytes bs 32 = Inr (concat (map fmt_02X bs))"
    by (simp add: stringhash_frombytes_def rdn_whole)
  assume plain: "plain_text path"
  show "download_messages wx env stack (concat (map fmt_02X bs)) path = Inr
       [\<lparr>im_type = TEVENT_FILENAME, im_data = Some (str_bytes path @ [0])\<rparr>,
        \<lparr>im_type = TEVENT_DODL, im_data = Some bs\<rparr>]"
    by (rule download_messages_plain [OF assms bs plain])
next
  fix hash :: wxString assume "64 < length hash \<or> length path < length (c_string (wx_mb_str wx path))"
  then show "download_messages wx env stack hash path = Inl OutOfBounds"
    using download_messages_outcome [OF assms, of hash path]
    by (auto simp: request_fits_def copy_fits_def split: if_splits)
qed

lemma download_request_bytes_witness:
  "download_messages sample_wx env_x86 (replicate 32 0) (concat (map fmt_02X (replicate 32 0xAB))) ''roms/a'' = Inr
       [\<lparr>im_type = TEVENT_FILENAME, im_data = Some (str_bytes ''roms/a'' @ [0])\<rparr>,
        \<lparr>im_type = TEVENT_DODL, im_data = Some (replicate 32 0xAB)\<rparr>]"
  using spec [OF conjunct1 [OF download_request_bytes [OF sample_wx_documented alloc_ok_instances, of "replicate 32 0" "''roms/a''"]],
      of "replicate 32 0xAB"] by (simp add: plain_text_def)

end
