(* ===== verification/NL_Finder.thy ===== *)
theory NL_Finder
  imports NL_Rom
begin

text \<open>
  \<open>ServerFinderThread\<close> of \<^verbatim>\<open>Client App/serverbrowser.cpp\<close>: the thread that asks the master
  server for the list of servers, pings each of them, reports the ones that answer to the
  window, and downloads ROMs. The lemmas give what the two packet parsers read and where they
  leave their buffers, and the outcome of a download for every way the file can arrive.
\<close>

section \<open>State\<close>

text \<open>Members that \<open>ParsePacket_Server\<close> leaves uninitialised start as zero here.\<close>

record FoundServer =
  fs_handler :: UDPHandler
  fs_fulladdress :: wxString
  fs_name :: wxString
  fs_playercount :: int
  fs_maxplayers :: int
  fs_ping :: int
  fs_romname :: wxString
  fs_romhash :: wxString
  fs_romdownloadable :: bool

text \<open>
  The locals of \<open>Entry\<close> with the message queue the window posts to, the events posted to the
  window, the progress window and the disk. \<open>serversleft\<close> maps an address to a server and the
  time it was pinged.
\<close>

record finder =
  f_sock :: ASIOSocket
  f_handler :: UDPHandler
  f_buff :: "byte list"
  f_serversleft :: "wxString \<Rightarrow> (FoundServer \<times> int) option"
  f_filedl_path :: wxString
  f_queue :: "InputMessage list"
  f_events :: "FoundServer list"
  f_download :: ROMDownloadWindow
  f_fs :: fs

section \<open>HandleMainInput\<close>

definition send_new ::
    "env \<Rightarrow> int \<Rightarrow> wxString \<Rightarrow> u16 \<Rightarrow> byte list \<Rightarrow> ASIOSocket \<Rightarrow> UDPHandler
      \<Rightarrow> unit result \<times> ASIOSocket \<times> UDPHandler" where
  "send_new env now type sz data sock h =
     (case S64Packet_flags env type sz data FLAG_UNRELIABLE of
        Inl e \<Rightarrow> (Inl e, sock, h)
      | Inr pkt \<Rightarrow> (case SendPacket env now sock h pkt of (r, sock, h, _) \<Rightarrow> (r, sock, h)))"

text \<open>
  One call empties the queue, message by message; an exception leaves the rest in it. A null
  handler (during a download) sends nothing. The result carries the queue and the path.
\<close>

fun HandleMainInput ::
    "env \<Rightarrow> int \<Rightarrow> bool \<Rightarrow> InputMessage list \<Rightarrow> ASIOSocket \<Rightarrow> UDPHandler \<Rightarrow> wxString
      \<Rightarrow> unit result \<times> InputMessage list \<times> ASIOSocket \<times> UDPHandler \<times> wxString" where
  "HandleMainInput env now has_handler [] sock h path = (Inr (), [], sock, h, path)"
| "HandleMainInput env now has_handler (usrinput # queue) sock h path =
     (case im_type usrinput of
        TEVENT_DOLIST \<Rightarrow>
          if has_handler
          then (case send_new env now ''LIST'' 0 [] sock h of
                  (Inl e, sock, h) \<Rightarrow> (Inl e, queue, sock, h, path)
                | (Inr _, sock, h) \<Rightarrow> HandleMainInput env now has_handler queue sock h path)
          else HandleMainInput env now has_handler queue sock h path
      | TEVENT_DODL \<Rightarrow>
          if has_handler
          then (case im_data usrinput of
                  None \<Rightarrow> (Inl NullPointer, queue, sock, h, path)
                | Some data \<Rightarrow>
                   (case send_new env now ''DOWNLOAD'' 32 data sock h of
                      (Inl e, sock, h) \<Rightarrow> (Inl e, queue, sock, h, path)
                    | (Inr _, sock, h) \<Rightarrow> HandleMainInput env now has_handler queue sock h path))
          else HandleMainInput env now has_handler queue sock h path
      | TEVENT_CANCELDL \<Rightarrow> HandleMainInput env now has_handler queue sock h []
      | TEVENT_FILENAME \<Rightarrow>
          (case im_data usrinput of
             None \<Rightarrow> HandleMainInput env now has_handler queue sock h []
           | Some data \<Rightarrow>
               if 0 \<in> set data
               then HandleMainInput env now has_handler queue sock h (bytes_str (c_string data))
               else (Inl OutOfBounds, queue, sock, h, path))
      | TEVENT_ADDSERVER \<Rightarrow> HandleMainInput env now has_handler queue sock h path)"

section \<open>Parsing the answers\<close>

text \<open>The recurring step of both parsers: a big-endian 32-bit number at an offset, and the
  bytes of a block that is preceded by its length.\<close>

definition rd_be32 :: "byte list \<Rightarrow> nat \<Rightarrow> u32 result" where
  "rd_be32 buf off = rbind (rd32 buf off) (\<lambda>read32. Inr (swap_endian32 read32))"

definition rd_block :: "byte list \<Rightarrow> nat \<Rightarrow> (byte list \<times> nat) result" where
  "rd_block buf off =
     rbind (rd_be32 buf off) (\<lambda>read32.
     rbind (rdn buf (off + 4) (unat read32)) (\<lambda>bs. Inr (bs, off + 4 + unat read32)))"

text \<open>The fields of a server packet: address, ROM name, hash as text, and whether the master
  has the ROM. The hash is copied into 32 bytes on the stack, whatever length the packet gives.\<close>

definition server_fields :: "byte list \<Rightarrow> (wxString \<times> wxString \<times> wxString \<times> bool) result" where
  "server_fields buf =
     rbind (rd_block buf 0) (\<lambda>(fulladdress, off).
     rbind (rd_block buf off) (\<lambda>(romname, off).
     rbind (rd_be32 buf off) (\<lambda>read32.
     if 32 < unat read32 then Inl OutOfBounds else
     rbind (rdn buf (off + 4) (unat read32)) (\<lambda>hash.
     rbind (rd8 buf (off + 4 + unat read32)) (\<lambda>onmaster.
     Inr (bytes_str fulladdress, bytes_str romname, concat (map fmt_02X hash), onmaster \<noteq> 0))))))"

definition ParsePacket_Server ::
    "wxlib \<Rightarrow> env \<Rightarrow> int \<Rightarrow> int \<Rightarrow> ASIOSocket \<Rightarrow> AbstractPacket \<Rightarrow> FoundServer result \<times> ASIOSocket" where
  "ParsePacket_Server wx env garbage now sock pkt =
     (case server_fields (GetData pkt) of
        Inl e \<Rightarrow> (Inl e, sock)
      | Inr (fulladdress, romname, romhash, downloadable) \<Rightarrow>
         (case send_new env now ''DISCOVER'' (of_nat (length fulladdress)) (str_bytes fulladdress) sock
                 (new_UDPHandler_full wx garbage fulladdress) of
            (Inl e, sock, _) \<Rightarrow> (Inl e, sock)
          | (Inr _, sock, h) \<Rightarrow>
              (Inr \<lparr>fs_handler = h, fs_fulladdress = fulladdress, fs_name = [], fs_playercount = 0,
                    fs_maxplayers = 0, fs_ping = 0, fs_romname = romname, fs_romhash = romhash,
                    fs_romdownloadable = downloadable\<rparr>, sock)))"

definition DiscoveredServer ::
    "int \<Rightarrow> (wxString \<Rightarrow> (FoundServer \<times> int) option) \<Rightarrow> AbstractPacket
      \<Rightarrow> ((wxString \<Rightarrow> (FoundServer \<times> int) option) \<times> FoundServer option) result" where
  "DiscoveredServer now serverlist pkt =
     (let buf = GetData pkt in
      rbind (rd_block buf 0) (\<lambda>(addr, off).
      case serverlist (bytes_str addr) of
        None \<Rightarrow> Inr (serverlist, None)
      | Some (server, pinged) \<Rightarrow>
          rbind (rd_block buf off) (\<lambda>(name, off).
          rbind (rd_be32 buf off) (\<lambda>playercount.
          rbind (rd_be32 buf (off + 4)) (\<lambda>maxplayers.
          Inr (serverlist(bytes_str addr := None),
               Some (server\<lparr>fs_name := bytes_str name, fs_playercount := sint playercount,
                            fs_maxplayers := sint maxplayers, fs_ping := now - pinged\<rparr>)))))))"

section \<open>FileDownload\<close>

text \<open>
  One round of the download loop as the outside gives it: the bytes that have arrived on the
  TCP socket since the last round, and the messages the window has posted since then.
\<close>

record round =
  r_data :: "byte list"
  r_queue :: "InputMessage list"

text \<open>
  \<open>readsize\<close> as the code computes it: unsigned 32-bit arithmetic, and the remaining size only
  when a whole chunk still fits.
\<close>

definition dl_readsize :: "u32 \<Rightarrow> u32 \<Rightarrow> u32 \<Rightarrow> u32" where
  "dl_readsize chunksize filesize fileread =
     (if fileread + chunksize < filesize then filesize - fileread else chunksize)"

text \<open>
  The loop: \<open>got\<close> are the bytes read so far and \<open>tcp\<close> the bytes waiting in the socket, of
  which one \<open>Read\<close> takes as many as there are, up to its size. \<open>pct\<close> is the progress in per
  cent, computed in single-precision floating point, which is not modelled. The result is the
  bytes read, the path (empty when cancelled) and the progress window; \<open>None\<close> is a loop that
  is still running when the rounds are used up.
\<close>

fun dl_loop ::
    "env \<Rightarrow> int \<Rightarrow> (u32 \<Rightarrow> u32 \<Rightarrow> int) \<Rightarrow> u32 \<Rightarrow> u32 \<Rightarrow> round list \<Rightarrow> byte list \<Rightarrow> byte list \<Rightarrow> wxString
      \<Rightarrow> ROMDownloadWindow \<Rightarrow> ASIOSocket \<Rightarrow> UDPHandler
      \<Rightarrow> (byte list \<times> wxString \<times> ROMDownloadWindow) result option" where
  "dl_loop env now pct chunksize filesize rounds tcp got path dlw sock h =
     (if \<not> of_nat (length got) < filesize then Some (Inr (got, path, dlw)) else
      case rounds of
        [] \<Rightarrow> None
      | r # rounds \<Rightarrow>
         (let tcp = tcp @ r_data r;
              sz = unat (dl_readsize chunksize filesize (of_nat (length got)));
              bs = take sz tcp
          in if unat filesize < length got + length bs then Some (Inl OutOfBounds) else
             let tcp = drop sz tcp; got = got @ bs;
                 dlw = (if bs = [] then dlw
                        else UpdateDownloadProgress (pct (of_nat (length got)) filesize) dlw)
             in case HandleMainInput env now False (r_queue r) sock h path of
                  (Inl e, _) \<Rightarrow> Some (Inl e)
                | (Inr _, _, _, _, path) \<Rightarrow>
                    if path = [] then Some (Inr (got, path, dlw))
                    else dl_loop env now pct chunksize filesize rounds tcp got path dlw sock h))"

declare dl_loop.simps [simp del]

definition FileDownload ::
    "env \<Rightarrow> int \<Rightarrow> (u32 \<Rightarrow> u32 \<Rightarrow> int) \<Rightarrow> round list \<Rightarrow> AbstractPacket \<Rightarrow> wxString
      \<Rightarrow> ROMDownloadWindow \<Rightarrow> fs \<Rightarrow> ASIOSocket \<Rightarrow> UDPHandler \<Rightarrow> (ROMDownloadWindow \<times> fs) result option" where
  "FileDownload env now pct rounds pkt filepath dlw fs sock h =
     (if filepath = [] \<or> GetSize pkt = 0 then Some (Inr (dlw, fs)) else
      case rd_be32 (GetData pkt) 0 of
        Inl e \<Rightarrow> Some (Inl e)
      | Inr filesize \<Rightarrow>
          if \<not> env_malloc env (unat filesize) then Some (Inr (dlw, fs)) else
          (case rd_be32 (GetData pkt) 4 of
             Inl e \<Rightarrow> Some (Inl e)
           | Inr chunksize \<Rightarrow>
              (case dl_loop env now pct chunksize filesize rounds [] [] filepath dlw sock h of
                 None \<Rightarrow> None
               | Some (Inl e) \<Rightarrow> Some (Inl e)
               | Some (Inr (got, path, dlw)) \<Rightarrow>
                   if length got = unat filesize
                   then if fs_opens fs path
                        then Some (Inr (dlw, fs\<lparr>fs_files := (fs_files fs)(path := Some got)\<rparr>))
                        else Some (Inl NullPointer)
                   else Some (Inr (dlw, fs)))))"

section \<open>Entry\<close>

text \<open>\<open>!strncmp(type, name, strlen(name))\<close>\<close>

definition type_is :: "AbstractPacket \<Rightarrow> wxString \<Rightarrow> bool" where
  "type_is pkt name \<longleftrightarrow> take (length name) (S64Packet_GetType pkt) = name"

text \<open>The body of the inner \<open>try\<close>: \<open>None\<close> is a download that does not end.\<close>

definition handle_answer ::
    "wxlib \<Rightarrow> env \<Rightarrow> int \<Rightarrow> int \<Rightarrow> (u32 \<Rightarrow> u32 \<Rightarrow> int) \<Rightarrow> round list \<Rightarrow> AbstractPacket \<Rightarrow> finder
      \<Rightarrow> (unit result \<times> finder) option" where
  "handle_answer wx env garbage now pct rounds pkt f =
     (if type_is pkt ''SERVER'' then
        (case ParsePacket_Server wx env garbage now (f_sock f) pkt of
           (Inl e, sock) \<Rightarrow> Some (Inl e, f\<lparr>f_sock := sock\<rparr>)
         | (Inr server, sock) \<Rightarrow>
             Some (Inr (), f\<lparr>f_sock := sock,
               f_serversleft := (f_serversleft f)(fs_fulladdress server \<mapsto> (server, now))\<rparr>))
      else if type_is pkt ''DONELISTING'' then Some (Inr (), f)
      else if type_is pkt ''DOWNLOAD'' then
        (case FileDownload env now pct rounds pkt (f_filedl_path f) (f_download f) (f_fs f)
                (f_sock f) (f_handler f) of
           None \<Rightarrow> None
         | Some (Inl e) \<Rightarrow> Some (Inl e, f)
         | Some (Inr (dlw, fs)) \<Rightarrow> Some (Inr (), f\<lparr>f_download := dlw, f_fs := fs\<rparr>))
      else if type_is pkt ''DISCOVER'' then
        (case DiscoveredServer now (f_serversleft f) pkt of
           Inl e \<Rightarrow> Some (Inl e, f)
         | Inr (left, None) \<Rightarrow> Some (Inr (), f\<lparr>f_serversleft := left\<rparr>)
         | Inr (left, Some server) \<Rightarrow>
             Some (Inr (), f\<lparr>f_serversleft := left, f_events := f_events f @ [server]\<rparr>))
      else Some (Inr (), f))"

text \<open>
  The loop over the waiting datagrams. \<open>f\<close> is the state after a \<open>Read\<close>; a read that finds
  nothing ends the loop, and so does a \<open>BadPacketVersionException\<close> from inside the inner
  \<open>try\<close>. Each round takes a datagram out of the socket, so the number of datagrams waiting is
  enough fuel.
\<close>

fun read_loop ::
    "wxlib \<Rightarrow> env \<Rightarrow> int \<Rightarrow> int \<Rightarrow> (u32 \<Rightarrow> u32 \<Rightarrow> int) \<Rightarrow> round list \<Rightarrow> nat \<Rightarrow> finder
      \<Rightarrow> (unit result \<times> finder) option" where
  "read_loop wx env garbage now pct rounds fuel f =
     (if LastReadCount (f_sock f) = 0 then Some (Inr (), f) else
      case fuel of
        0 \<Rightarrow> None
      | Suc fuel \<Rightarrow>
         (case ReadS64Packet env now (f_sock f) (f_handler f) (f_buff f) of
            (Inl e, sock, h) \<Rightarrow> Some (Inl e, f\<lparr>f_sock := sock, f_handler := h\<rparr>)
          | (Inr got, sock, h) \<Rightarrow>
             (let f = f\<lparr>f_sock := sock, f_handler := h\<rparr> in
              case (case got of None \<Rightarrow> Some (Inr (), f)
                    | Some pkt \<Rightarrow> handle_answer wx env garbage now pct rounds pkt f) of
                None \<Rightarrow> None
              | Some (Inl (BadPacketVersion v), f) \<Rightarrow> Some (Inr (), f)
              | Some (Inl e, f) \<Rightarrow> Some (Inl e, f)
              | Some (Inr _, f) \<Rightarrow>
                 (case ASIOSocket_Read (f_sock f) (f_buff f) 4096 of (buff, sock) \<Rightarrow>
                    read_loop wx env garbage now pct rounds fuel (f\<lparr>f_buff := buff, f_sock := sock\<rparr>)))))"

declare read_loop.simps [simp del]

text \<open>
  The body of the outer loop up to the \<open>catch\<close>: an exception leaves it with the state so far.
\<close>

definition entry_body ::
    "wxlib \<Rightarrow> env \<Rightarrow> int \<Rightarrow> int \<Rightarrow> (u32 \<Rightarrow> u32 \<Rightarrow> int) \<Rightarrow> round list \<Rightarrow> finder
      \<Rightarrow> (unit result \<times> finder) option" where
  "entry_body wx env garbage now pct rounds f =
     (case ASIOSocket_Read (f_sock f) (f_buff f) 4096 of (buff, sock) \<Rightarrow>
      case read_loop wx env garbage now pct rounds (Suc (length (sock_inbox sock)))
             (f\<lparr>f_buff := buff, f_sock := sock\<rparr>) of
        None \<Rightarrow> None
      | Some (Inl e, f) \<Rightarrow> Some (Inl e, f)
      | Some (Inr _, f) \<Rightarrow>
         (case ResendMissingPackets env now (f_sock f) (f_handler f) of
            (Inl e, sock, h) \<Rightarrow> Some (Inl e, f\<lparr>f_sock := sock, f_handler := h\<rparr>)
          | (Inr _, sock, h) \<Rightarrow>
             (case HandleMainInput env now True (f_queue f) sock h (f_filedl_path f) of
                (r, queue, sock, h, path) \<Rightarrow>
                  Some (r, f\<lparr>f_sock := sock, f_handler := h, f_queue := queue, f_filedl_path := path\<rparr>))))"

text \<open>
  One round of the outer loop. The \<open>catch\<close> compares the exception's address with the
  handler's own and then looks up the handler's address; every other exception leaves the
  thread and ends the program, which is the fault in the result.
\<close>

definition entry_round ::
    "wxlib \<Rightarrow> env \<Rightarrow> int \<Rightarrow> int \<Rightarrow> (u32 \<Rightarrow> u32 \<Rightarrow> int) \<Rightarrow> round list \<Rightarrow> finder \<Rightarrow> finder result option" where
  "entry_round wx env garbage now pct rounds f =
     (case entry_body wx env garbage now pct rounds f of
        None \<Rightarrow> None
      | Some (Inr _, f) \<Rightarrow> Some (Inr f)
      | Some (Inl (ClientTimeout who), f) \<Rightarrow>
         (let fulladdr = GetAddress (f_handler f) @ '':'' @ dec_int (GetPort (f_handler f)) in
          if who \<noteq> fulladdr
          then Some (Inr (f\<lparr>f_serversleft := (f_serversleft f)(fulladdr := None)\<rparr>))
          else Some (Inr f))
      | Some (Inl e, f) \<Rightarrow> Some (Inl e))"

text \<open>\<open>Entry\<close> as a whole: the rounds until the window asks the thread to end, each at its
  own time and with its own outside.\<close>

record moment =
  mo_now :: int
  mo_inbox :: "byte list list"
  mo_queue :: "InputMessage list"
  mo_rounds :: "round list"

definition entry_start :: "wxString \<Rightarrow> int \<Rightarrow> byte list \<Rightarrow> ROMDownloadWindow \<Rightarrow> fs \<Rightarrow> finder" where
  "entry_start address port memory dlw fs =
     \<lparr>f_sock = new_ASIOSocket address port, f_handler = new_UDPHandler address port,
      f_buff = take 4096 memory, f_serversleft = Map.empty, f_filedl_path = [], f_queue = [],
      f_events = [], f_download = dlw, f_fs = fs\<rparr>"

definition arrive :: "moment \<Rightarrow> finder \<Rightarrow> finder" where
  "arrive m f = f\<lparr>f_sock := (f_sock f)\<lparr>sock_inbox := sock_inbox (f_sock f) @ mo_inbox m\<rparr>,
                  f_queue := f_queue f @ mo_queue m\<rparr>"

fun Entry :: "wxlib \<Rightarrow> env \<Rightarrow> int \<Rightarrow> (u32 \<Rightarrow> u32 \<Rightarrow> int) \<Rightarrow> moment list \<Rightarrow> finder \<Rightarrow> finder result option" where
  "Entry wx env garbage pct [] f = Some (Inr f)"
| "Entry wx env garbage pct (m # ms) f =
     (case entry_round wx env garbage (mo_now m) pct (mo_rounds m) (arrive m f) of
        None \<Rightarrow> None
      | Some (Inl e) \<Rightarrow> Some (Inl e)
      | Some (Inr f) \<Rightarrow> Entry wx env garbage pct ms f)"

section \<open>Reading blocks\<close>

text \<open>The layout both answers are made of.\<close>

definition enc_block :: "byte list \<Rightarrow> byte list" where
  "enc_block bs = be32 (of_nat (length bs)) @ bs"

lemma rd_be32_append: "rd_be32 (xs @ be32 w @ ys) (length xs) = Inr w"
proof -
  have "rd32 (xs @ st32 (swap_endian32 w) @ ys) (length xs) = Inr (swap_endian32 w)"
    by (rule rd32_append)
  then show ?thesis by (simp add: rd_be32_def)
qed

lemma rd_block_append:
  assumes "length bs < 2 ^ 32"
  shows "rd_block (xs @ enc_block bs @ ys) (length xs) = Inr (bs, length (xs @ enc_block bs))"
proof -
  have "rd_be32 (xs @ be32 (of_nat (length bs)) @ bs @ ys) (length xs) = Inr (of_nat (length bs))"
    by (rule rd_be32_append)
  moreover have "unat (of_nat (length bs) :: u32) = length bs" using assms by (simp add: unat_of_nat)
  moreover have "rdn ((xs @ be32 (of_nat (length bs))) @ bs @ ys) (length (xs @ be32 (of_nat (length bs)))) (length bs) = Inr bs"
    by (rule rdn_append)
  ultimately show ?thesis by (simp add: rd_block_def enc_block_def)
qed

lemma rd_block_at:
  "length bs < 2 ^ 32 \<Longrightarrow> n = length xs \<Longrightarrow> rd_block (xs @ enc_block bs @ ys) n = Inr (bs, n + 4 + length bs)"
  using rd_block_append [of bs xs ys] by (simp add: enc_block_def)

lemma server_fields_layout:
  assumes "length addr < 2 ^ 32" "length rom < 2 ^ 32" "length hash < 2 ^ 32"
  shows "server_fields (enc_block addr @ enc_block rom @ enc_block hash @ [b]) =
    (if 32 < length hash then Inl OutOfBounds
     else Inr (bytes_str addr, bytes_str rom, concat (map fmt_02X hash), b \<noteq> 0))"
proof -
  let ?buf = "enc_block addr @ enc_block rom @ enc_block hash @ [b]"
  let ?n1 = "4 + length addr" and ?n2 = "4 + length addr + 4 + length rom"
  have 1: "rd_block ?buf 0 = Inr (addr, ?n1)"
    using rd_block_at [OF assms(1), of 0 "[]"] by simp
  have 2: "rd_block ?buf ?n1 = Inr (rom, ?n2)"
    using rd_block_at [OF assms(2), of ?n1 "enc_block addr"] by (simp add: enc_block_def)
  let ?pre = "enc_block addr @ enc_block rom"
  have len: "length ?pre = ?n2" by (simp add: enc_block_def)
  have u: "unat (of_nat (length hash) :: u32) = length hash" using assms(3) by (simp add: unat_of_nat)
  have 3: "rd_be32 ?buf ?n2 = Inr (of_nat (length hash))"
    using rd_be32_append [of ?pre "of_nat (length hash)" "hash @ [b]"] len by (simp add: enc_block_def add.assoc)
  have 4: "rdn ?buf (?n2 + 4) (length hash) = Inr hash"
    using rdn_append [of "?pre @ be32 (of_nat (length hash))" hash "[b]"] len
    by (simp add: enc_block_def add.assoc)
  have 5: "rd8 ?buf (?n2 + 4 + length hash) = Inr b"
    using rd8_append [of "?pre @ enc_block hash" b "[]"] len by (simp add: enc_block_def add.assoc)
  show ?thesis
    unfolding server_fields_def 1 rbind_simps prod.case 2 3 u using 4 5 by simp
qed

section \<open>Sending from the finder thread\<close>

text \<open>The thread sends unreliable packets only: its handler never waits for an ack.\<close>

lemma new_S64_wf:
  assumes "alloc_ok env" "unat sz \<le> length data" "length type \<le> 255" "CHR 0x00 \<notin> set type"
    "14 + length type + unat sz < 65536"
  shows "\<exists>pkt. S64Packet_flags env type sz data fl = Inr pkt \<and> pkt_wf pkt \<and> m_SendAttempts pkt = 0 \<and>
    m_Flags pkt = fl \<and> m_Derived pkt = S64 type \<and> m_Data pkt = take (unat sz) data"
  using assms by (auto simp: S64Packet_flags_def new_S64Packet_def new_AbstractPacket_def alloc_ok_def
      rdn_def pkt_wf_def S64_wf_def pkt_inv_def size_gt_0 S64PACKET_VERSION_def)

lemma SendPacket_unreliable:
  assumes "m_Flags pkt AND FLAG_UNRELIABLE \<noteq> 0" "SendPacket env now sock h pkt = (r, sock', h', pkt')"
  shows "h' = h"
  using assms by (auto simp: SendPacket_def Let_def packet_getters packet_setters stamp_def
      split: if_splits sum.splits option.splits prod.splits)

lemma send_new_handler: "send_new env now type sz data sock h = (r, sock', h') \<Longrightarrow> h' = h"
  by (auto simp: send_new_def S64Packet_flags_def new_S64Packet_def new_AbstractPacket_def
      rbind_Inr_iff FLAG_UNRELIABLE_def dest!: SendPacket_unreliable [rotated]
      split: sum.splits prod.splits)

lemma HandleMainInput_handler:
  "HandleMainInput env now b queue sock h path = (r, queue', sock', h', path') \<Longrightarrow> h' = h"
proof (induction queue arbitrary: sock path)
  case (Cons m queue)
  have snd: "\<exists>r s. send_new env now ty sz data sock h = (r, s, h)" for ty sz data
    using send_new_handler by (metis prod_cases3)
  show ?case
  proof (cases "im_type m")
    case TEVENT_DOLIST
    obtain r1 s1 where s1: "send_new env now ''LIST'' 0 [] sock h = (r1, s1, h)" using snd by blast
    show ?thesis
      using Cons TEVENT_DOLIST by (cases b; cases r1) (auto simp: s1)
  next
    case TEVENT_DODL
    obtain r1 s1 where s1: "send_new env now ''DOWNLOAD'' 32 (the (im_data m)) sock h = (r1, s1, h)"
      using snd by blast
    show ?thesis
      using Cons TEVENT_DODL s1 by (cases b; cases r1; cases "im_data m") auto
  next
    case TEVENT_FILENAME
    then show ?thesis using Cons by (cases "im_data m") (auto split: if_splits)
  qed (use Cons in auto)
qed simp

section \<open>The download loop\<close>

lemma readsize_enough:
  assumes "length got < 2 ^ 32" "of_nat (length got) < filesize"
  shows "unat filesize - length got \<le> unat (dl_readsize chunksize filesize (of_nat (length got)))"
proof -
  let ?g = "of_nat (length got) :: u32"
  have g: "unat ?g = length got" using assms(1) by (simp add: unat_of_nat)
  have lt: "length got < unat filesize" using assms(2) g by (simp add: word_less_nat_alt)
  show ?thesis
  proof (cases "?g + chunksize < filesize")
    case True
    have "?g \<le> filesize" using assms(2) by simp
    then show ?thesis using True by (simp add: dl_readsize_def unat_sub g)
  next
    case False
    then have "unat filesize \<le> unat (?g + chunksize)" by (simp add: word_le_nat_alt not_less)
    also have "\<dots> \<le> length got + unat chunksize"
      by (simp add: unat_word_ariths g)
    finally show ?thesis using False by (simp add: dl_readsize_def)
  qed
qed

text \<open>Each round takes everything that has arrived, so no byte is lost or read twice.\<close>

lemma dl_loop_complete:
  assumes "length file < 2 ^ 32" "got @ concat (map r_data rounds) = file"
    and "\<forall>r \<in> set rounds. r_queue r = []" "path \<noteq> []"
  shows "\<exists>dlw'. dl_loop env now pct chunksize (of_nat (length file)) rounds [] got path dlw sock h =
    Some (Inr (file, path, dlw'))"
  using assms(2,3)
proof (induction rounds arbitrary: got dlw)
  case Nil
  then show ?case by (simp add: dl_loop.simps)
next
  case (Cons r rounds)
  let ?n = "of_nat (length file) :: u32"
  have n: "unat ?n = length file" using assms(1) by (simp add: unat_of_nat)
  have len: "length got + length (r_data r) \<le> length file"
    using Cons.prems(1) by (auto dest: arg_cong [of _ _ length])
  show ?case
  proof (cases "of_nat (length got) < ?n")
    case True
    have "length got < 2 ^ 32" using len assms(1) by simp
    then have "length (r_data r) \<le> unat (dl_readsize chunksize ?n (of_nat (length got)))"
      using readsize_enough [OF _ True, of chunksize] len n by simp
    then have tk: "take (unat (dl_readsize chunksize ?n (of_nat (length got)))) (r_data r) = r_data r"
      "drop (unat (dl_readsize chunksize ?n (of_nat (length got)))) (r_data r) = []" by simp_all
    have "HandleMainInput env now False (r_queue r) sock h path = (Inr (), [], sock, h, path)"
      using Cons.prems(2) by simp
    then show ?thesis
      using Cons.IH [of "got @ r_data r"] Cons.prems assms(4) True len n
      by (subst dl_loop.simps) (simp add: tk Let_def)
  next
    case False
    then have "length file \<le> length got"
      using len assms(1) n by (simp add: word_le_nat_alt not_less unat_of_nat)
    then have "got = file" using Cons.prems(1) len by (metis append_eq_append_conv append_Nil2 le_antisym add_leE)
    then show ?thesis using False by (subst dl_loop.simps) simp
  qed
qed

text \<open>More bytes than announced, and a chunk size that covers them: the copy leaves the block.\<close>

lemma dl_loop_overflow:
  assumes "length got < unat filesize" "unat filesize \<le> length got + unat chunksize"
    "length got + unat chunksize < 2 ^ 32"
    and "unat filesize < length got + min (unat chunksize) (length (r_data r))"
  shows "dl_loop env now pct chunksize filesize (r # rounds) [] got path dlw sock h = Some (Inl OutOfBounds)"
proof -
  let ?g = "of_nat (length got) :: u32"
  have g: "unat ?g = length got" using assms(3) by (simp add: unat_of_nat)
  have "unat (?g + chunksize) = length got + unat chunksize"
    using assms(3) g by (simp add: unat_word_ariths)
  then have "dl_readsize chunksize filesize ?g = chunksize"
    using assms(2) by (simp add: dl_readsize_def word_less_nat_alt)
  moreover have "?g < filesize" using assms(1) g by (simp add: word_less_nat_alt)
  ultimately show ?thesis using assms(4) by (subst dl_loop.simps) (simp add: Let_def min.commute)
qed

section \<open>The handler of the thread\<close>

definition idle :: "finder \<Rightarrow> bool" where
  "idle f \<longleftrightarrow> m_AcksLeft_TX (f_handler f) = []"

lemma ReadS64Packet_idle:
  assumes "alloc_ok env" "m_AcksLeft_TX h = []" "ReadS64Packet env now sock h data = (r, sock', h')"
  shows "m_AcksLeft_TX h' = [] \<and> m_Address h' = m_Address h \<and> m_Port h' = m_Port h"
  using ReadS64Packet_state [OF assms(1), of now sock h data] assms(2,3) by (auto simp: accept_def)

lemma handle_answer_handler:
  "handle_answer wx env garbage now pct rounds pkt f = Some (r, f') \<Longrightarrow> f_handler f' = f_handler f"
  unfolding handle_answer_def
  by (auto split: if_splits prod.splits sum.splits option.splits)

lemma read_loop_idle:
  assumes "alloc_ok env"
  shows "idle f \<Longrightarrow> read_loop wx env garbage now pct rounds fuel f = Some (r, f') \<Longrightarrow> idle f'"
proof (induction fuel arbitrary: f)
  case 0
  then show ?case by (auto simp: read_loop.simps [of _ _ _ _ _ _ 0] split: if_splits)
next
  case (Suc fuel)
  obtain g sock h where rd: "ReadS64Packet env now (f_sock f) (f_handler f) (f_buff f) = (g, sock, h)"
    by (cases "ReadS64Packet env now (f_sock f) (f_handler f) (f_buff f)") auto
  have h: "m_AcksLeft_TX h = []"
    using ReadS64Packet_idle [OF assms _ rd] Suc.prems(1) by (simp add: idle_def)
  show ?case
  proof (cases "LastReadCount (f_sock f) = 0")
    case True
    then show ?thesis using Suc.prems by (simp add: read_loop.simps [of _ _ _ _ _ _ "Suc fuel"])
  next
    case False
    let ?f = "f\<lparr>f_sock := sock, f_handler := h\<rparr>"
    show ?thesis
    proof (cases g)
      case (Inl e)
      then show ?thesis
        using Suc.prems(2) False h by (auto simp: read_loop.simps [of _ _ _ _ _ _ "Suc fuel"] rd idle_def)
    next
      case (Inr got)
      define out where "out = (case got of None \<Rightarrow> Some (Inr (), ?f)
          | Some pkt \<Rightarrow> handle_answer wx env garbage now pct rounds pkt ?f)"
      have idle: "idle f1" if "out = Some (r1, f1)" for r1 f1
        using that handle_answer_handler h unfolding out_def idle_def by (auto split: option.splits)
      have eq: "read_loop wx env garbage now pct rounds (Suc fuel) f =
          (case out of None \<Rightarrow> None
           | Some (Inl (BadPacketVersion v), f) \<Rightarrow> Some (Inr (), f)
           | Some (Inl e, f) \<Rightarrow> Some (Inl e, f)
           | Some (Inr _, f) \<Rightarrow>
              (case ASIOSocket_Read (f_sock f) (f_buff f) 4096 of (buff, sock) \<Rightarrow>
                 read_loop wx env garbage now pct rounds fuel (f\<lparr>f_buff := buff, f_sock := sock\<rparr>)))"
        using False by (subst read_loop.simps) (simp add: rd Inr out_def Let_def)
      show ?thesis
      proof (cases out)
        case (Some o1)
        then obtain r1 f1 where o1: "out = Some (r1, f1)" by (cases o1) auto
        show ?thesis
        proof (cases r1)
          case (Inl e)
          then show ?thesis using Suc.prems(2) idle [OF o1] unfolding eq o1 by (cases e) auto
        next
          case (Inr u)
          obtain b2 s2 where rd2: "ASIOSocket_Read (f_sock f1) (f_buff f1) 4096 = (b2, s2)"
            by (cases "ASIOSocket_Read (f_sock f1) (f_buff f1) 4096") auto
          have "idle (f1\<lparr>f_buff := b2, f_sock := s2\<rparr>)" using idle [OF o1] by (simp add: idle_def)
          moreover have "read_loop wx env garbage now pct rounds fuel (f1\<lparr>f_buff := b2, f_sock := s2\<rparr>) = Some (r, f')"
            using Suc.prems(2) unfolding eq o1 by (simp add: Inr rd2)
          ultimately show ?thesis by (rule Suc.IH)
        qed
      qed (use Suc.prems(2) eq in simp)
    qed
  qed
qed

lemma entry_body_idle:
  assumes "alloc_ok env" "idle f" "entry_body wx env garbage now pct rounds f = Some (r, f')"
  shows "idle f'"
proof -
  obtain buff sock where rd: "ASIOSocket_Read (f_sock f) (f_buff f) 4096 = (buff, sock)"
    by (cases "ASIOSocket_Read (f_sock f) (f_buff f) 4096") auto
  let ?f = "f\<lparr>f_buff := buff, f_sock := sock\<rparr>"
  have idle: "idle ?f" using assms(2) by (simp add: idle_def)
  obtain o1 where o1: "read_loop wx env garbage now pct rounds (Suc (length (sock_inbox sock))) ?f = Some o1"
    using assms(3) by (auto simp: entry_body_def rd split: option.splits)
  obtain r1 f1 where rf: "o1 = (r1, f1)" by (cases o1)
  have i1: "idle f1" using read_loop_idle [OF assms(1) idle o1 [unfolded rf]] .
  then have res: "ResendMissingPackets env now (f_sock f1) (f_handler f1) = (Inr (), f_sock f1, f_handler f1)"
    by (simp add: idle_def ResendMissingPackets_def)
  obtain r2 q s2 h2 p where hm: "HandleMainInput env now True (f_queue f1) (f_sock f1) (f_handler f1)
      (f_filedl_path f1) = (r2, q, s2, h2, p)"
    by (metis prod_cases5)
  have "h2 = f_handler f1" by (rule HandleMainInput_handler [OF hm])
  then show ?thesis
    using assms(3) i1 unfolding entry_body_def rd o1 rf
    by (cases r1) (auto simp: res hm idle_def o1 rf)
qed

lemma entry_round_idle:
  assumes "alloc_ok env" "idle f" "entry_round wx env garbage now pct rounds f = Some (Inr f')"
  shows "idle f'"
proof -
  obtain r f1 where e: "entry_body wx env garbage now pct rounds f = Some (r, f1)"
    using assms(3) by (auto simp: entry_round_def split: option.splits)
  have "idle f1" by (rule entry_body_idle [OF assms(1,2) e])
  then show ?thesis
    using assms(3) unfolding entry_round_def e
    by (auto simp: idle_def Let_def split: sum.splits fault.splits if_splits)
qed

lemma Entry_idle:
  "alloc_ok env \<Longrightarrow> idle f \<Longrightarrow> Entry wx env garbage pct ms f = Some (Inr f') \<Longrightarrow> idle f'"
proof (induction ms arbitrary: f)
  case (Cons m ms)
  obtain f1 where f1: "entry_round wx env garbage (mo_now m) pct (mo_rounds m) (arrive m f) = Some (Inr f1)"
    "Entry wx env garbage pct ms f1 = Some (Inr f')"
    using Cons.prems(3) by (auto split: option.splits sum.splits)
  have "idle (arrive m f)" using Cons.prems(2) by (simp add: idle_def arrive_def)
  with f1 Cons show ?case using entry_round_idle by blast
qed simp

section \<open>Properties\<close>

text \<open>C40: when the master announces the size of a file shorter than 4 GB and the bytes that
  arrive on the TCP connection are exactly that file, cut into rounds in any way and without
  a cancellation, the download ends and the chosen path holds exactly the file, whatever chunk
  size was announced.\<close>

theorem download_saves_file:
  assumes "alloc_ok env" "length file < 2 ^ 32" "concat (map r_data rounds) = file"
    and "\<forall>r \<in> set rounds. r_queue r = []" "path \<noteq> []" "fs_opens fs path"
    and "m_Data pkt = be32 (of_nat (length file)) @ be32 chunksize" "pkt_inv pkt"
  shows "\<exists>dlw'. FileDownload env now pct rounds pkt path dlw fs sock h =
    Some (Inr (dlw', fs\<lparr>fs_files := (fs_files fs)(path \<mapsto> file)\<rparr>))"
proof -
  have r: "rd_be32 (m_Data pkt) 0 = Inr (of_nat (length file))" "rd_be32 (m_Data pkt) 4 = Inr chunksize"
    using rd_be32_append [of "[]" "of_nat (length file)" "be32 chunksize"]
      rd_be32_append [of "be32 (of_nat (length file))" chunksize "[]"] by (simp_all add: assms(7))
  have n: "unat (of_nat (length file) :: u32) = length file" using assms(2) by (simp add: unat_of_nat)
  have sz: "GetSize pkt \<noteq> 0"
    using assms(7,8) by (auto simp: pkt_inv_def packet_getters)
  have "\<exists>dlw'. dl_loop env now pct chunksize (of_nat (length file)) rounds [] [] path dlw sock h =
      Some (Inr (file, path, dlw'))"
    by (rule dl_loop_complete) (use assms in simp_all)
  then show ?thesis
    using assms(1,5,6) sz by (auto simp: FileDownload_def r n packet_getters alloc_ok_def)
qed

definition sample_dl_pkt :: "u32 \<Rightarrow> u32 \<Rightarrow> AbstractPacket" where
  "sample_dl_pkt filesize chunk = sample_pkt\<lparr>m_Derived := S64 ''DOWNLOAD'', m_Size := 8,
     m_Data := be32 filesize @ be32 chunk\<rparr>"

lemma download_saves_file_witness:
  "\<exists>dlw fs. FileDownload env_x86 0 (\<lambda>_ _. 0) [\<lparr>r_data = [1, 2], r_queue = []\<rparr>, \<lparr>r_data = [3], r_queue = []\<rparr>]
     (sample_dl_pkt 3 2) ''roms/b'' new_ROMDownloadWindow sample_fs (new_ASIOSocket [] 0) sample_handler =
       Some (Inr (dlw, fs)) \<and> fs_files fs ''roms/b'' = Some [1, 2, 3]"
  using download_saves_file [of env_x86 "[1, 2, 3]"
      "[\<lparr>r_data = [1, 2], r_queue = []\<rparr>, \<lparr>r_data = [3], r_queue = []\<rparr>]" "''roms/b''" sample_fs
      "sample_dl_pkt 3 2" 2 0 "\<lambda>_ _. 0" new_ROMDownloadWindow "new_ASIOSocket [] 0" sample_handler]
  by (auto simp: sample_dl_pkt_def sample_fs_def pkt_inv_def)

text \<open>When the connection delivers more bytes than were announced and the announced chunk
  size is larger than what is left, the last read goes past the end of the allocated block: the
  comparison that should cut the read to what is left is the wrong way round.\<close>

theorem download_overflows_block:
  assumes "alloc_ok env" "0 < unat filesize" "unat filesize < unat chunksize"
    "unat filesize < length (r_data r)"
    and "path \<noteq> []" "m_Data pkt = be32 filesize @ be32 chunksize" "pkt_inv pkt"
  shows "FileDownload env now pct (r # rounds) pkt path dlw fs sock h = Some (Inl OutOfBounds)"
proof -
  have r: "rd_be32 (m_Data pkt) 0 = Inr filesize" "rd_be32 (m_Data pkt) 4 = Inr chunksize"
    using rd_be32_append [of "[]" filesize "be32 chunksize"]
      rd_be32_append [of "be32 filesize" chunksize "[]"] by (simp_all add: assms(6))
  have sz: "GetSize pkt \<noteq> 0" using assms(6,7) by (auto simp: pkt_inv_def packet_getters)
  have "unat chunksize < 2 ^ 32" using unsigned_less [of chunksize, where 'a = nat] by simp
  then have "dl_loop env now pct chunksize filesize (r # rounds) [] [] path dlw sock h = Some (Inl OutOfBounds)"
    using assms(2-4) by (intro dl_loop_overflow) auto
  then show ?thesis
    using assms(1,5) sz by (simp add: FileDownload_def r packet_getters alloc_ok_def)
qed

lemma download_overflows_block_witness:
  "FileDownload env_x86 0 (\<lambda>_ _. 0) [\<lparr>r_data = [1, 2, 3, 4], r_queue = []\<rparr>]
     (sample_dl_pkt 3 4096) ''roms/b'' new_ROMDownloadWindow sample_fs (new_ASIOSocket [] 0) sample_handler =
   Some (Inl OutOfBounds)"
  by (rule download_overflows_block [of env_x86 3 4096]) (simp_all add: sample_dl_pkt_def pkt_inv_def)

lemma send_new_unreliable:
  assumes "alloc_ok env" "can_send env h" "unat sz \<le> length data" "length type \<le> 255"
    "CHR 0x00 \<notin> set type" "14 + length type + unat sz < 65536"
  shows "\<exists>pkt. send_new env now type sz data sock h = (Inr (), transmit h (S64_wire pkt) sock, h) \<and>
    S64_wf pkt \<and> \<not> reliable pkt \<and> m_Derived pkt = S64 type \<and> m_Data pkt = take (unat sz) data"
proof -
  obtain p where p: "S64Packet_flags env type sz data FLAG_UNRELIABLE = Inr p" "pkt_wf p"
    "m_SendAttempts p = 0" "m_Flags p = FLAG_UNRELIABLE" "m_Derived p = S64 type"
    "m_Data p = take (unat sz) data"
    using new_S64_wf [OF assms(1,3-6)] by blast
  have u: "\<not> reliable p" using p(4) by (simp add: reliable_def FLAG_UNRELIABLE_def)
  let ?p = "sent_form env now h p"
  have "send_new env now type sz data sock h = (Inr (), transmit h (pkt_wire ?p) sock, h)"
    using assms(2) u by (simp add: send_new_def p(1) SendPacket_cases [OF assms(1) p(2)] p(3)
        can_send_def Let_def)
  moreover have "pkt_wire ?p = S64_wire ?p" "S64_wf ?p"
    using p(2,5) by (simp_all add: pkt_wire_def pkt_wf_def sent_form_def stamp_def packet_setters
        S64_wf_def pkt_inv_def)
  moreover have "m_Data ?p = m_Data p" by (simp add: sent_form_def stamp_def packet_setters)
  ultimately show ?thesis
    using p u by (intro exI [of _ ?p]) simp
qed

text \<open>A server packet laid out as the master writes it, address, ROM name and hash each
  behind its length and then the availability byte, is read back field by field, and one
  unreliable ping that carries the address is sent to the server; a hash longer than 32 bytes
  overruns the 32 bytes on the stack before anything is sent.\<close>

theorem server_packet_answered:
  assumes "alloc_ok env" "\<forall>a p d. env_send env a p d" "length addr < 60000"
    and "length rom < 2 ^ 32" "length hash < 2 ^ 32"
    and "m_Data pkt = enc_block addr @ enc_block rom @ enc_block hash @ [b]"
  shows "if 32 < length hash
    then ParsePacket_Server wx env garbage now sock pkt = (Inl OutOfBounds, sock)
    else \<exists>server ping. ParsePacket_Server wx env garbage now sock pkt =
        (Inr server, transmit (fs_handler server) (S64_wire ping) sock) \<and>
      fs_handler server = new_UDPHandler_full wx garbage (bytes_str addr) \<and>
      fs_fulladdress server = bytes_str addr \<and>
      fs_romname server = bytes_str rom \<and> fs_romhash server = concat (map fmt_02X hash) \<and>
      fs_romdownloadable server = (b \<noteq> 0) \<and>
      S64_wf ping \<and> \<not> reliable ping \<and> m_Derived ping = S64 ''DISCOVER'' \<and>
      m_Data ping = str_bytes (bytes_str addr)"
proof -
  have f: "server_fields (GetData pkt) = (if 32 < length hash then Inl OutOfBounds
     else Inr (bytes_str addr, bytes_str rom, concat (map fmt_02X hash), b \<noteq> 0))"
    unfolding packet_getters assms(6)
    by (rule server_fields_layout) (use assms in simp_all)
  let ?h = "new_UDPHandler_full wx garbage (bytes_str addr)"
  have "can_send env ?h" using assms(2) by (simp add: can_send_def)
  then obtain ping where "send_new env now ''DISCOVER'' (of_nat (length addr)) (str_bytes (bytes_str addr)) sock ?h
      = (Inr (), transmit ?h (S64_wire ping) sock, ?h)"
    "S64_wf ping" "\<not> reliable ping" "m_Derived ping = S64 ''DISCOVER''"
    "m_Data ping = take (unat (of_nat (length addr) :: u16)) (str_bytes (bytes_str addr))"
    using send_new_unreliable [OF assms(1), of ?h "of_nat (length addr)" "str_bytes (bytes_str addr)"
        "''DISCOVER''" now sock] assms(3) by (auto simp: unat_of_nat)
  then show ?thesis
    using assms(3) by (auto simp: ParsePacket_Server_def f unat_of_nat)
qed

lemma server_packet_answered_witness:
  "\<exists>server sock. ParsePacket_Server sample_wx env_x86 0 0 (new_ASIOSocket [] 0)
     (sample_pkt\<lparr>m_Data := enc_block (str_bytes ''host:6464'') @ enc_block [82] @ enc_block [0xAB] @ [1]\<rparr>) =
       (Inr server, sock) \<and> fs_fulladdress server = ''host:6464'' \<and> fs_romhash server = ''AB'' \<and>
       GetAddress (fs_handler server) = ''host'' \<and> GetPort (fs_handler server) = 6464"
  using server_packet_answered [of env_x86 "str_bytes ''host:6464''" "[82]" "[0xAB]"
      "sample_pkt\<lparr>m_Data := enc_block (str_bytes ''host:6464'') @ enc_block [82] @ enc_block [0xAB] @ [1]\<rparr>"
      1 sample_wx 0 0 "new_ASIOSocket [] 0"]
  by (auto simp: fmt_02X_def hexdigits_def new_UDPHandler_full_def sample_wx_def new_UDPHandler_def
      GetAddress_def GetPort_def)

text \<open>The answer to a ping, address and name each behind its length and then the two player
  counts, is reported with the round-trip time and takes the server off the list, so that a
  second copy of the answer is ignored; an answer from an address that was not pinged leaves
  the list as it is.\<close>

theorem server_reported_once:
  assumes "length addr < 2 ^ 32" "length name < 2 ^ 32"
    and "m_Data pkt = enc_block addr @ enc_block name @ be32 players @ be32 seats"
  shows "DiscoveredServer now servers pkt =
     (case servers (bytes_str addr) of
        None \<Rightarrow> Inr (servers, None)
      | Some (server, pinged) \<Rightarrow>
          Inr (servers(bytes_str addr := None),
               Some (server\<lparr>fs_name := bytes_str name, fs_playercount := sint players,
                            fs_maxplayers := sint seats, fs_ping := now - pinged\<rparr>))) \<and>
    DiscoveredServer later (servers(bytes_str addr := None)) pkt =
      Inr (servers(bytes_str addr := None), None)"
proof -
  let ?buf = "enc_block addr @ enc_block name @ be32 players @ be32 seats"
  let ?n1 = "4 + length addr" and ?n2 = "4 + length addr + 4 + length name"
  have 1: "rd_block ?buf 0 = Inr (addr, ?n1)"
    using rd_block_at [OF assms(1), of 0 "[]"] by simp
  have 2: "rd_block ?buf ?n1 = Inr (name, ?n2)"
    using rd_block_at [OF assms(2), of ?n1 "enc_block addr"] by (simp add: enc_block_def)
  have 3: "rd_be32 ?buf ?n2 = Inr players"
    using rd_be32_append [of "enc_block addr @ enc_block name" players "be32 seats"]
    by (simp add: enc_block_def add.assoc)
  have 4: "rd_be32 ?buf (?n2 + 4) = Inr seats"
    using rd_be32_append [of "enc_block addr @ enc_block name @ be32 players" seats "[]"]
    by (simp add: enc_block_def add.assoc)
  show ?thesis
    unfolding DiscoveredServer_def packet_getters assms(3) Let_def 1 rbind_simps prod.case
    by (auto simp: 2 3 [simplified] 4 [simplified] split: option.split)
qed

definition sample_server :: FoundServer where
  "sample_server = \<lparr>fs_handler = new_UDPHandler ''host'' 6464, fs_fulladdress = ''host:6464'', fs_name = [],
     fs_playercount = 0, fs_maxplayers = 0, fs_ping = 0, fs_romname = [], fs_romhash = [],
     fs_romdownloadable = False\<rparr>"

lemma server_reported_once_witness:
  "DiscoveredServer 30 (Map.empty(''a'' \<mapsto> (sample_server, 10)))
     (sample_pkt\<lparr>m_Data := enc_block (str_bytes ''a'') @ enc_block (str_bytes ''b'') @ be32 2 @ be32 4\<rparr>) =
   Inr (Map.empty, Some (sample_server\<lparr>fs_name := ''b'', fs_playercount := 2, fs_maxplayers := 4, fs_ping := 20\<rparr>))"
  by (subst conjunct1 [OF server_reported_once [of "str_bytes ''a''" "str_bytes ''b''" _ 2 4]]) simp_all

text \<open>One datagram with the header of a packet of a newer version ends the program: the
  parser's exception leaves the thread, since the reading call stands outside the \<open>try\<close> that
  catches it.\<close>

theorem newer_version_ends_finder:
  assumes "alloc_ok env" "sock_inbox (f_sock f) = d # ds"
    and "take 3 d = S64PACKET_HEADER" "12 \<le> length d" "1 < d ! 3"
  shows "entry_round wx env garbage now pct rounds f = Some (Inl (BadPacketVersion (unat (d ! 3))))"
proof -
  let ?buff = "take 4096 d @ drop (length (take 4096 d)) (f_buff f)"
  let ?sock = "(f_sock f)\<lparr>m_LastReadCount := length (take 4096 d), sock_inbox := ds\<rparr>"
  have rd: "ASIOSocket_Read (f_sock f) (f_buff f) 4096 = (?buff, ?sock)"
    by (simp add: ASIOSocket_Read_def assms(2))
  have ne: "d \<noteq> []" using assms(4) by auto
  have hd: "take 3 ?buff = S64PACKET_HEADER" "?buff ! 3 = d ! 3" "12 \<le> length ?buff"
    using assms(3,4) by (simp_all add: nth_append min_def)
  have "strneq ?buff S64PACKET_HEADER = Inr True"
    using hd(1) by (simp only: strneq_True_iff length_header)
  moreover have "S64Packet_FromBytes env ?buff = Inl (BadPacketVersion (unat (d ! 3)))"
    using S64_FromBytes_cases [OF assms(1) hd(3)] assms(5) by (simp only: hd if_True if_False not_True_eq_False simp_thms)
  ultimately have "ReadS64Packet env now ?sock (f_handler f) ?buff =
      (Inl (BadPacketVersion (unat (d ! 3))), ?sock, f_handler f)"
    unfolding ReadS64Packet_def IsS64Packet_def by (simp only: sum.case bool.case)
  then have "read_loop wx env garbage now pct rounds (Suc (length (sock_inbox ?sock)))
      (f\<lparr>f_buff := ?buff, f_sock := ?sock\<rparr>) =
     Some (Inl (BadPacketVersion (unat (d ! 3))), f\<lparr>f_buff := ?buff, f_sock := ?sock, f_handler := f_handler f\<rparr>)"
    using ne by (subst read_loop.simps) (simp add: LastReadCount_def)
  then show ?thesis unfolding entry_round_def entry_body_def rd prod.case by simp
qed

lemma newer_version_ends_finder_witness:
  "entry_round sample_wx env_x86 0 0 (\<lambda>_ _. 0) []
     (arrive \<lparr>mo_now = 0, mo_inbox = [S64PACKET_HEADER @ [2] @ replicate 10 0], mo_queue = [], mo_rounds = []\<rparr>
       (entry_start ''host'' 6464 [] new_ROMDownloadWindow sample_fs)) = Some (Inl (BadPacketVersion 2))"
  by (subst newer_version_ends_finder [where d = "S64PACKET_HEADER @ [2] @ replicate 10 0" and ds = "[]"])
    (simp_all add: arrive_def entry_start_def new_ASIOSocket_def header_simps)

text \<open>The finder thread never waits for an acknowledgement: whatever arrives and whatever the
  window asks for, after any number of rounds nothing is left to resend. A lost list request,
  download request or ping is therefore never repeated, and the thread's timeout handler has
  nothing to catch.\<close>

theorem finder_never_resends:
  assumes "alloc_ok env" "Entry wx env garbage pct ms (entry_start address port memory dlw fs) = Some (Inr f)"
  shows "m_AcksLeft_TX (f_handler f) = [] \<and>
    ResendMissingPackets env' now sock (f_handler f) = (Inr (), sock, f_handler f)"
proof -
  have "idle (entry_start address port memory dlw fs)"
    by (simp add: idle_def entry_start_def new_UDPHandler_def)
  then have "idle f" by (rule Entry_idle [OF assms(1) _ assms(2)])
  then show ?thesis by (simp add: idle_def ResendMissingPackets_def)
qed

definition sample_moment :: moment where
  "sample_moment = \<lparr>mo_now = 5, mo_inbox = [],
     mo_queue = [\<lparr>im_type = TEVENT_DOLIST, im_data = None\<rparr>], mo_rounds = []\<rparr>"

lemma finder_never_resends_witness:
  "\<exists>f. Entry sample_wx env_x86 0 (\<lambda>_ _. 0) [sample_moment]
     (entry_start ''host'' 6464 [] new_ROMDownloadWindow sample_fs) = Some (Inr f) \<and>
     length (sock_sent (f_sock f)) = 1 \<and> m_AcksLeft_TX (f_handler f) = []"
proof -
  let ?h = "new_UDPHandler ''host'' 6464" and ?s = "new_ASIOSocket ''host'' 6464"
  obtain pkt where pkt: "send_new env_x86 5 ''LIST'' 0 [] ?s ?h = (Inr (), transmit ?h (S64_wire pkt) ?s, ?h)"
    using send_new_unreliable [of env_x86 ?h 0 "[]" "''LIST''" 5 ?s] by auto
  let ?m = "sample_moment"
  have "\<exists>f. Entry sample_wx env_x86 0 (\<lambda>_ _. 0) [?m]
     (entry_start ''host'' 6464 [] new_ROMDownloadWindow sample_fs) = Some (Inr f) \<and>
     f_sock f = transmit ?h (S64_wire pkt) ?s"
    using pkt by (simp add: arrive_def entry_start_def ASIOSocket_Read_def entry_round_def entry_body_def read_loop.simps LastReadCount_def
        ResendMissingPackets_def new_UDPHandler_def new_ASIOSocket_def sample_moment_def)
  then obtain f where f: "Entry sample_wx env_x86 0 (\<lambda>_ _. 0) [?m]
     (entry_start ''host'' 6464 [] new_ROMDownloadWindow sample_fs) = Some (Inr f)"
     "f_sock f = transmit ?h (S64_wire pkt) ?s" by blast
  have "m_AcksLeft_TX (f_handler f) = []"
    using finder_never_resends [of env_x86, OF _ f(1), of env_x86 0 "f_sock f"] by simp
  then show ?thesis using f by (simp add: transmit_def new_ASIOSocket_def)
qed

lemma c_string_zero: "0 \<notin> set bs \<Longrightarrow> c_string (bs @ 0 # rest) = bs"
  by (induction bs) (auto simp: c_string_def)

lemma str_bytes_no_zero: "CHR 0x00 \<notin> set s \<Longrightarrow> 0 \<notin> set (str_bytes s)"
  by (auto simp: str_bytes_def of_char_zero_iff)

text \<open>The two messages of a download request make the finder thread remember the path and
  send the master one unreliable packet of type DOWNLOAD with the 32 bytes of the hash; a
  cancellation that follows makes the thread ignore the master's answer.\<close>

theorem download_request_sent:
  assumes "alloc_ok env" "can_send env h" "length hash = 32" "CHR 0x00 \<notin> set path"
    and "request = [\<lparr>im_type = TEVENT_FILENAME, im_data = Some (str_bytes path @ [0])\<rparr>,
      \<lparr>im_type = TEVENT_DODL, im_data = Some hash\<rparr>]"
  shows "\<exists>pkt. HandleMainInput env now True request sock h old =
      (Inr (), [], transmit h (S64_wire pkt) sock, h, path) \<and>
    S64_wf pkt \<and> \<not> reliable pkt \<and> m_Derived pkt = S64 ''DOWNLOAD'' \<and> m_Data pkt = hash \<and>
    HandleMainInput env now True (request @ [\<lparr>im_type = TEVENT_CANCELDL, im_data = None\<rparr>]) sock h old =
      (Inr (), [], transmit h (S64_wire pkt) sock, h, []) \<and>
    FileDownload env now pct rounds answer [] dlw fs sock h = Some (Inr (dlw, fs))"
proof -
  obtain pkt where pkt: "send_new env now ''DOWNLOAD'' 32 hash sock h = (Inr (), transmit h (S64_wire pkt) sock, h)"
    "S64_wf pkt" "\<not> reliable pkt" "m_Derived pkt = S64 ''DOWNLOAD''" "m_Data pkt = hash"
    using send_new_unreliable [OF assms(1,2), of 32 hash "''DOWNLOAD''" now sock] assms(3) by auto
  then show ?thesis
    using str_bytes_no_zero [OF assms(4)]
    by (intro exI [of _ pkt]) (simp add: assms(5) c_string_zero FileDownload_def)
qed

lemma download_request_sent_witness:
  "\<exists>pkt. HandleMainInput env_x86 0 True [\<lparr>im_type = TEVENT_FILENAME, im_data = Some (str_bytes ''roms/a'' @ [0])\<rparr>,
      \<lparr>im_type = TEVENT_DODL, im_data = Some (replicate 32 7)\<rparr>] (new_ASIOSocket [] 0) sample_handler [] =
     (Inr (), [], transmit sample_handler (S64_wire pkt) (new_ASIOSocket [] 0), sample_handler, ''roms/a'') \<and>
     m_Data pkt = replicate 32 7"
  using download_request_sent [OF alloc_ok_instances can_send_x86(1) _ _ refl,
      of "replicate 32 7" "''roms/a''" 0 "new_ASIOSocket [] 0" sample_handler "[]" "\<lambda>_ _. 0" "[]" sample_pkt
        new_ROMDownloadWindow sample_fs]
  by (auto simp del: replicate.simps HandleMainInput.simps)

end
