(* ===== verification/NL_Device.thy ===== *)
theory NL_Device
  imports NL_Client Complex_Main
begin

text \<open>
  \<open>DeviceThread\<close> and \<open>UploadThread\<close> of \<^verbatim>\<open>Client App/clientwindow.cpp\<close>: the thread that talks to
  the flashcart. The flashcart library is not part of the repository; what its calls return is
  an argument (a script with one entry per round of the thread's loop), and the calls that
  matter are recorded. The lemmas give what each kind of USB data does, that the queue to the
  console is first in, first out, and how an upload ends.
\<close>

section \<open>The flashcart library\<close>

text \<open>\<open>CARTTYPE_NONE\<close> is the library's \<open>CART_NONE\<close>.\<close>

datatype CartType = CARTTYPE_NONE | CART_64DRIVE1 | CART_64DRIVE2 | CART_EVERDRIVE | CART_SC64

definition HOST_TEXT :: byte where
  "HOST_TEXT = 0x01"

definition HOST_HEARTBEAT :: byte where
  "HOST_HEARTBEAT = 0x05"

definition HOST_NETPACKET :: byte where
  "HOST_NETPACKET = 0x27"

definition USBPROTOCOL_VERSION :: u32 where
  "USBPROTOCOL_VERSION = 0x02"

definition DEVICEERR_OK :: int where
  "DEVICEERR_OK = 0"

definition DEVICEERR_UPLOADCANCELLED :: int where
  "DEVICEERR_UPLOADCANCELLED = 26"

datatype dev_call =
    DSetProtocol u32
  | DSendData byte "byte list"
  | DCancelUpload
  | DSetROM wxString
  | DExplicitCIC
  | DSendROM "byte list"

text \<open>What the calls before the loop return: find, the cart, open, the debug test.\<close>

record device_start =
  ds_find :: int
  ds_cart :: CartType
  ds_open :: int
  ds_testdebug :: int

text \<open>
  One round of the upload loop: the three readings of the progress (in per cent), whether the
  thread is asked to end, the messages the window has posted, and whether the upload thread is
  alive.
\<close>

record tick =
  tk_progress :: rat
  tk_shown :: rat
  tk_later :: rat
  tk_destroy :: bool
  tk_inputs :: "client_input list"
  tk_alive :: bool

text \<open>
  One round of the main loop: whether the thread is asked to end and the device is open, the
  messages and packets posted since the last round, whether an upload thread starts, what happens
  while it runs and whether it ends once the loop has left it (its \<open>device_sendrom\<close> returns), the
  cart, and what \<open>device_receivedata\<close> gives.
\<close>

record usb_round =
  ur_destroy :: bool
  ur_isopen :: bool
  ur_inputs :: "client_input list"
  ur_pkts :: "AbstractPacket option list"
  ur_upload_runs :: bool
  ur_ticks :: "tick list"
  ur_upload_joins :: bool
  ur_cart :: CartType
  ur_error :: int
  ur_header :: u32
  ur_data :: "byte list option"

section \<open>DeviceThread\<close>

record DeviceThread =
  dt_rompath :: wxString
  m_FirstPrint :: bool
  dt_q :: queues
  dt_calls :: "dev_call list"

definition event :: "client_event \<Rightarrow> DeviceThread \<Rightarrow> DeviceThread" where
  "event e t = t\<lparr>dt_q := post_event e (dt_q t)\<rparr>"

definition call_device :: "dev_call \<Rightarrow> DeviceThread \<Rightarrow> DeviceThread" where
  "call_device c t = t\<lparr>dt_calls := dt_calls t @ [c]\<rparr>"

abbreviation WriteConsole :: "wxString \<Rightarrow> DeviceThread \<Rightarrow> DeviceThread" where
  "WriteConsole str \<equiv> event (TEVENT_WRITECONSOLE str)"

abbreviation WriteConsoleError :: "wxString \<Rightarrow> DeviceThread \<Rightarrow> DeviceThread" where
  "WriteConsoleError str \<equiv> event (TEVENT_WRITECONSOLEERROR str)"

abbreviation post_status :: "ClientDeviceStatus \<Rightarrow> DeviceThread \<Rightarrow> DeviceThread" where
  "post_status status \<equiv> event (TEVENT_SETSTATUS status)"

text \<open>Empties the queue: whether to stop an upload, and the path.\<close>

fun input_loop :: "client_input list \<Rightarrow> bool \<Rightarrow> wxString \<Rightarrow> bool \<times> wxString" where
  "input_loop [] kill rompath = (kill, rompath)"
| "input_loop (TEVENT_LOADROM data # queue) kill rompath = input_loop queue kill data"
| "input_loop (TEVENT_CANCELLOAD # queue) kill rompath = input_loop queue True rompath"
| "input_loop (TEVENT_LOADDATA data # queue) kill rompath = input_loop queue kill rompath"

definition DeviceThread_HandleMainInput :: "DeviceThread \<Rightarrow> bool \<times> DeviceThread" where
  "DeviceThread_HandleMainInput t =
     (case input_loop (usbthread_input (dt_q t)) False (dt_rompath t) of
        (kill, rompath) \<Rightarrow> (kill, t\<lparr>dt_rompath := rompath, dt_q := (dt_q t)\<lparr>usbthread_input := []\<rparr>\<rparr>))"

definition arrive_inputs :: "client_input list \<Rightarrow> DeviceThread \<Rightarrow> DeviceThread" where
  "arrive_inputs is t = t\<lparr>dt_q := (dt_q t)\<lparr>usbthread_input := usbthread_input (dt_q t) @ is\<rparr>\<rparr>"

text \<open>\<open>strncpy\<close> copies up to the first NUL, and at most \<open>size\<close> bytes.\<close>

definition ParseUSB_TextPacket :: "env \<Rightarrow> byte list \<Rightarrow> u32 \<Rightarrow> DeviceThread \<Rightarrow> DeviceThread result" where
  "ParseUSB_TextPacket env buff sz t =
     (if \<not> env_malloc env (unat (sz + 1))
      then Inr (WriteConsoleError (endl @ ''Error: Unable to allocate memory for incoming string.'' @ endl) t)
      else if length buff < unat sz \<and> 0 \<notin> set buff then Inl OutOfBounds
      else
        let text = bytes_str (c_string (take (unat sz) buff));
            t = (if m_FirstPrint t then event TEVENT_CLEARCONSOLE (t\<lparr>m_FirstPrint := False\<rparr>) else t)
        in Inr (WriteConsole text t))"

definition ParseUSB_NetLibPacket :: "env \<Rightarrow> byte list \<Rightarrow> DeviceThread \<Rightarrow> DeviceThread result" where
  "ParseUSB_NetLibPacket env buff t =
     (case NetLibPacket_FromBytes env buff of
        Inl e \<Rightarrow> Inl e
      | Inr None \<Rightarrow> Inr (WriteConsoleError (endl @ ''Got a bad NetLib Packet'' @ endl) t)
      | Inr (Some pkt) \<Rightarrow>
          Inr (t\<lparr>dt_q := (dt_q t)\<lparr>serverthread_pkt := serverthread_pkt (dt_q t) @ [pkt]\<rparr>\<rparr>))"

text \<open>\<open>swap_endian\<close> is the flashcart library's.\<close>

definition ParseUSB_HeartbeatPacket ::
    "(u32 \<Rightarrow> u32) \<Rightarrow> byte list \<Rightarrow> u32 \<Rightarrow> DeviceThread \<Rightarrow> DeviceThread result" where
  "ParseUSB_HeartbeatPacket swap_endian buff sz t =
     (if sz < 4 then Inr (WriteConsoleError (endl @ ''Error: Malformed heartbeat received.'' @ endl) t) else
      rbind (rd32 buff 0) (\<lambda>raw.
      let header = swap_endian raw;
          heartbeat_version = header AND 0x0000FFFF;
          protocol_version = drop_bit 16 (header AND 0xFFFF0000)
      in if protocol_version > USBPROTOCOL_VERSION
         then Inr (WriteConsoleError (endl @ ''Error: USB protocol '' @ dec_int (uint protocol_version)
             @ '' unsupported. Your NetLib Client is probably out of date.'' @ endl) t)
         else
           let t = call_device (DSetProtocol protocol_version) t
           in if heartbeat_version \<noteq> 0x01
              then Inr (WriteConsoleError (endl @ ''Error: Heartbeat version '' @ dec_int (uint heartbeat_version)
                  @ '' unsupported. Your NetLib Client is probably out of date.'' @ endl) t)
              else Inr t))"

section \<open>Uploads\<close>

text \<open>
  The loop that watches an upload; \<open>Some\<close> of whether it was cancelled, or \<open>None\<close> when it is
  still running after the given ticks. Progress is a finite float, so a rational number; the
  conversion to \<open>int\<close> drops the fraction.
\<close>

definition interrupt :: "DeviceThread \<Rightarrow> DeviceThread" where
  "interrupt t = (WriteConsoleError (endl @ ''Upload interrupted.'' @ endl) (call_device DCancelUpload t))
     \<lparr>m_FirstPrint := True\<rparr>"

definition to_int :: "rat \<Rightarrow> int" where
  "to_int x = (if 0 \<le> x then \<lfloor>x\<rfloor> else \<lceil>x\<rceil>)"

fun upload_loop :: "tick list \<Rightarrow> rat \<Rightarrow> DeviceThread \<Rightarrow> (bool \<times> DeviceThread) option" where
  "upload_loop ticks oldprogress t =
     (if \<not> oldprogress < 100 then Some (False, t) else
      case ticks of
        [] \<Rightarrow> None
      | k # ticks \<Rightarrow>
         (let t = (if tk_progress k \<noteq> oldprogress
                   then event (TEVENT_UPLOADPROGRESS (to_int (tk_shown k))) t else t);
              t = arrive_inputs (tk_inputs k) t
          in if tk_destroy k then Some (True, interrupt t) else
             case DeviceThread_HandleMainInput t of
               (True, t) \<Rightarrow> Some (True, interrupt t)
             | (False, t) \<Rightarrow>
                 if tk_later k < 100 \<and> \<not> tk_alive k then Some (True, t)
                 else upload_loop ticks (tk_progress k) t))"

declare upload_loop.simps [simp del]

text \<open>
  The block of the main loop that loads a ROM. After the loop the thread waits in
  \<open>m_UploadThread->Delete()\<close> for the upload thread, without a time limit: when that thread does not
  end (the source notes that an upload to a 64Drive can get stuck), neither does this one.
\<close>

definition begin_upload :: "DeviceThread \<Rightarrow> DeviceThread" where
  "begin_upload t = post_status CLSTATUS_UPLOADING
     (WriteConsole (''Loading '' @ [CHR 0x27] @ dt_rompath t @ [CHR 0x27] @ '' via USB'' @ endl) t)"

definition handle_upload :: "usb_round \<Rightarrow> DeviceThread \<Rightarrow> DeviceThread option" where
  "handle_upload r t =
     (if dt_rompath t = [] then Some t else
      let t = begin_upload t
      in if \<not> ur_upload_runs r then Some t else
         case upload_loop (ur_ticks r) 0 t of
           None \<Rightarrow> None
         | Some (cancelled, t) \<Rightarrow>
             if \<not> ur_upload_joins r then None else
             (let t = post_status CLSTATUS_IDLE (t\<lparr>dt_rompath := []\<rparr>) in
              if cancelled then Some t
              else
                let t = WriteConsole (''Finished uploading.'' @ endl) t;
                    t = (if ur_cart r \<noteq> CART_EVERDRIVE
                         then WriteConsole (''You may now boot the console.'' @ endl) t else t)
                in Some (t\<lparr>dt_rompath := []\<rparr>)))"

text \<open>\<open>UploadThread::Entry\<close>: \<open>rom\<close> is the file, \<open>None\<close> when it cannot be opened.\<close>

definition UploadThread_Entry ::
    "'a wx_scheme \<Rightarrow> env \<Rightarrow> wxString \<Rightarrow> byte list option \<Rightarrow> int \<Rightarrow> DeviceThread \<Rightarrow> DeviceThread result" where
  "UploadThread_Entry wx env filepath rom deverr t =
     rbind (new_c_string wx env filepath) (\<lambda>romstr.
     Inr (let t = call_device (DSetROM (bytes_str romstr)) t in
      case rom of
        None \<Rightarrow> t
      | Some content \<Rightarrow>
          let t = call_device (DSendROM content) (call_device DExplicitCIC t)
          in if deverr \<noteq> DEVICEERR_OK \<and> deverr \<noteq> DEVICEERR_UPLOADCANCELLED
             then WriteConsoleError (endl @ ''Error sending ROM. Returned error '' @ dec_int deverr @ ''.'' @ endl) t
             else t))"

section \<open>The main loop\<close>

definition handle_usb_data :: "env \<Rightarrow> (u32 \<Rightarrow> u32) \<Rightarrow> u32 \<Rightarrow> byte list \<Rightarrow> DeviceThread \<Rightarrow> DeviceThread result" where
  "handle_usb_data env swap_endian dataheader outbuff t =
     (let sz = dataheader AND 0xFFFFFF;
          command = ucast (drop_bit 24 dataheader AND 0xFF) :: byte
      in if command = HOST_TEXT then ParseUSB_TextPacket env outbuff sz t
         else if command = HOST_NETPACKET then ParseUSB_NetLibPacket env outbuff t
         else if command = HOST_HEARTBEAT then ParseUSB_HeartbeatPacket swap_endian outbuff sz t
         else Inr (WriteConsoleError (endl @ ''Error: Received unknown datatype '' @ [CHR 0x27]
                @ fmt_02X command @ [CHR 0x27] @ '' from the flashcart.'' @ endl) t))"

text \<open>Nothing came in: one queued packet may go out.\<close>

definition send_queued_pkt :: "env \<Rightarrow> DeviceThread \<Rightarrow> DeviceThread result" where
  "send_queued_pkt env t =
     (case usbthread_pkt (dt_q t) of
        [] \<Rightarrow> Inr t
      | None # _ \<Rightarrow> Inl NullPointer
      | Some pkt # pkts \<Rightarrow>
          rbind (GetAsBytes env pkt) (\<lambda>pktasbytes.
          case pktasbytes of
            None \<Rightarrow> Inl NullPointer
          | Some bytes \<Rightarrow>
              rbind (rdn bytes 0 (unat (GetAsBytes_Size pkt))) (\<lambda>d.
              Inr (call_device (DSendData HOST_NETPACKET d) (t\<lparr>dt_q := (dt_q t)\<lparr>usbthread_pkt := pkts\<rparr>\<rparr>)))))"

definition arrive_round :: "usb_round \<Rightarrow> DeviceThread \<Rightarrow> DeviceThread" where
  "arrive_round r t =
     (let t = arrive_inputs (ur_inputs r) t
      in t\<lparr>dt_q := (dt_q t)\<lparr>usbthread_pkt := usbthread_pkt (dt_q t) @ ur_pkts r\<rparr>\<rparr>)"

text \<open>One round of the loop body; \<open>None\<close> is an upload that has not ended.\<close>

definition device_round :: "env \<Rightarrow> (u32 \<Rightarrow> u32) \<Rightarrow> usb_round \<Rightarrow> DeviceThread \<Rightarrow> DeviceThread result option" where
  "device_round env swap_endian r t =
     (case handle_upload r (arrive_round r t) of
        None \<Rightarrow> None
      | Some t \<Rightarrow>
          let t = (if ur_error r \<noteq> DEVICEERR_OK
                   then WriteConsoleError (endl @ ''Error receiving data from the flashcart.'' @ endl) t else t)
          in Some (rbind (case ur_data r of
                            None \<Rightarrow> send_queued_pkt env t
                          | Some outbuff \<Rightarrow>
                              if ur_header r \<noteq> 0 then handle_usb_data env swap_endian (ur_header r) outbuff t
                              else send_queued_pkt env t)
               (\<lambda>t. Inr (snd (DeviceThread_HandleMainInput t)))))"

definition disconnected :: "DeviceThread \<Rightarrow> DeviceThread" where
  "disconnected t = post_status CLSTATUS_DEAD (WriteConsoleError (endl @ ''USB Disconnected.'' @ endl) t)"

fun device_loop :: "env \<Rightarrow> (u32 \<Rightarrow> u32) \<Rightarrow> usb_round list \<Rightarrow> DeviceThread \<Rightarrow> DeviceThread result option" where
  "device_loop env swap_endian [] t = None"
| "device_loop env swap_endian (r # rs) t =
     (if ur_destroy r \<or> \<not> ur_isopen r then Some (Inr (disconnected t)) else
      case device_round env swap_endian r t of
        None \<Rightarrow> None
      | Some (Inl e) \<Rightarrow> Some (Inl e)
      | Some (Inr t) \<Rightarrow> device_loop env swap_endian rs t)"

text \<open>
  The part of \<open>Entry\<close> before the loop: \<open>Inl\<close> when the thread ends there. The message of a
  failed \<open>device_open\<close> shows the error code of \<open>device_find\<close>.
\<close>

definition dead :: "wxString \<Rightarrow> DeviceThread \<Rightarrow> DeviceThread + DeviceThread" where
  "dead str t = Inl (post_status CLSTATUS_DEAD (WriteConsoleError str t))"

definition device_connect :: "device_start \<Rightarrow> DeviceThread \<Rightarrow> DeviceThread + DeviceThread" where
  "device_connect ds t =
     (let deverr = ds_find ds;
          t = WriteConsole (''Searching for a valid flashcart'' @ endl) t
      in if deverr \<noteq> DEVICEERR_OK
         then dead (''Error finding flashcart. Returned error '' @ dec_int deverr @ ''.'' @ endl) t else
      let t = WriteConsole ''Found '' t in
      if ds_cart ds = CARTTYPE_NONE
      then dead (''USB Disconnected.'' @ endl) (WriteConsole (''Unknown'' @ endl) t) else
      let t = WriteConsole ((case ds_cart ds of CART_64DRIVE1 \<Rightarrow> ''64Drive HW1''
                 | CART_64DRIVE2 \<Rightarrow> ''64Drive HW2'' | CART_EVERDRIVE \<Rightarrow> ''EverDrive''
                 | CART_SC64 \<Rightarrow> ''SummerCart64'' | CARTTYPE_NONE \<Rightarrow> []) @ endl) t;
          t = WriteConsole (''Opening device'' @ endl) t
      in if ds_open ds \<noteq> DEVICEERR_OK
         then dead (''Error opening flashcart. Returned error '' @ dec_int deverr @ ''.'' @ endl) t else
      if ds_testdebug ds \<noteq> DEVICEERR_OK
      then dead (if ds_cart ds = CART_64DRIVE1 \<or> ds_cart ds = CART_64DRIVE2
                 then ''Please upgrade to firmware 2.05 or higher to access full USB functionality.'' @ endl
                 else ''Unable to debug on this flashcart.'' @ endl) t
      else Inr (call_device (DSetProtocol USBPROTOCOL_VERSION) t))"

definition DeviceThread_Entry ::
    "env \<Rightarrow> (u32 \<Rightarrow> u32) \<Rightarrow> device_start \<Rightarrow> usb_round list \<Rightarrow> DeviceThread \<Rightarrow> DeviceThread result option" where
  "DeviceThread_Entry env swap_endian ds rounds t =
     (case device_connect ds (t\<lparr>dt_rompath := []\<rparr>) of
        Inl t \<Rightarrow> Some (Inr t)
      | Inr t \<Rightarrow> device_loop env swap_endian rounds t)"

section \<open>Device events\<close>

lemma event_simps [simp]:
  "window_events (dt_q (event e t)) = window_events (dt_q t) @ [e]"
  "dt_rompath (event e t) = dt_rompath t" "dt_calls (event e t) = dt_calls t"
  "usbthread_pkt (dt_q (event e t)) = usbthread_pkt (dt_q t)"
  "serverthread_pkt (dt_q (event e t)) = serverthread_pkt (dt_q t)"
  "usbthread_input (dt_q (event e t)) = usbthread_input (dt_q t)"
  "m_FirstPrint (event e t) = m_FirstPrint t"
  by (simp_all add: event_def post_event_def)

lemma call_device_simps [simp]:
  "dt_calls (call_device c t) = dt_calls t @ [c]" "dt_q (call_device c t) = dt_q t"
  "dt_rompath (call_device c t) = dt_rompath t" "m_FirstPrint (call_device c t) = m_FirstPrint t"
  by (simp_all add: call_device_def)

text \<open>A property of posted events: the thread only ever adds events.\<close>

definition extends :: "DeviceThread \<Rightarrow> DeviceThread \<Rightarrow> bool" where
  "extends t t' \<longleftrightarrow> (\<exists>es. window_events (dt_q t') = window_events (dt_q t) @ es)"

lemma extends_refl [simp]: "extends t t"
  by (simp add: extends_def)

lemma extends_trans: "extends t u \<Longrightarrow> extends u v \<Longrightarrow> extends t v"
  by (auto simp: extends_def)

section \<open>The end of the thread\<close>

text \<open>The last event of a thread that has ended tells the window that the device is dead.\<close>

definition says_dead :: "DeviceThread \<Rightarrow> bool" where
  "says_dead t \<longleftrightarrow> (\<exists>es. window_events (dt_q t) = es @ [TEVENT_SETSTATUS CLSTATUS_DEAD])"

lemma device_connect_dead: "device_connect ds t = Inl t' \<Longrightarrow> says_dead t'"
  by (auto simp: device_connect_def Let_def dead_def says_dead_def split: if_splits)

lemma device_loop_dead: "device_loop env sw rs t = Some (Inr t') \<Longrightarrow> says_dead t'"
  by (induction rs arbitrary: t)
    (auto simp: disconnected_def says_dead_def split: if_splits option.splits sum.splits)

lemma fold_status: "m_DeviceStatus (fold ClientWindow_ThreadEvent (es @ [TEVENT_SETSTATUS s]) w) = s"
  by (simp add: SetClientDeviceStatus_def show_input_def show_gauge_def set_input_def
      m_TextCtrl_Input_OnText_def Let_def split: ClientDeviceStatus.split)

section \<open>Uploads\<close>

text \<open>The rounds of an upload that end it.\<close>

definition ends_upload :: "tick \<Rightarrow> bool" where
  "ends_upload k \<longleftrightarrow> tk_destroy k \<or> TEVENT_CANCELLOAD \<in> set (tk_inputs k) \<or>
     tk_later k < 100 \<and> \<not> tk_alive k \<or> \<not> tk_progress k < 100"

lemma input_loop_kill: "fst (input_loop is kill path) \<longleftrightarrow> kill \<or> TEVENT_CANCELLOAD \<in> set is"
  by (induction "is" kill path rule: input_loop.induct) auto

definition after_tick :: "tick \<Rightarrow> rat \<Rightarrow> DeviceThread \<Rightarrow> DeviceThread" where
  "after_tick k old t = arrive_inputs (tk_inputs k) (if tk_progress k \<noteq> old
     then event (TEVENT_UPLOADPROGRESS (to_int (tk_shown k))) t else t)"

lemma upload_loop_Cons:
  "DeviceThread_HandleMainInput (after_tick k old t) = (kill, u) \<Longrightarrow> upload_loop (k # ks) old t =
    (if \<not> old < 100 then Some (False, t)
     else if tk_destroy k then Some (True, interrupt (after_tick k old t))
     else if kill then Some (True, interrupt u)
     else if tk_later k < 100 \<and> \<not> tk_alive k then Some (True, u)
     else upload_loop ks (tk_progress k) u)"
  unfolding after_tick_def by (subst upload_loop.simps) (simp add: Let_def split: bool.split)

lemma upload_loop_ends:
  "\<exists>k \<in> set ks. ends_upload k \<Longrightarrow> upload_loop ks old t \<noteq> None"
proof (induction ks arbitrary: old t)
  case (Cons k ks)
  obtain kill u where h: "DeviceThread_HandleMainInput (after_tick k old t) = (kill, u)"
    by (cases "DeviceThread_HandleMainInput (after_tick k old t)")
  let ?is = "usbthread_input (dt_q (after_tick k old t))"
  have kill: "kill \<longleftrightarrow> TEVENT_CANCELLOAD \<in> set ?is"
    using h input_loop_kill [of ?is False "dt_rompath (after_tick k old t)"]
    by (auto simp: DeviceThread_HandleMainInput_def split: prod.splits)
  have ins: "set (tk_inputs k) \<subseteq> set ?is" by (auto simp: after_tick_def arrive_inputs_def)
  show ?case
  proof (cases "tk_progress k < 100")
    case False
    then have "upload_loop ks (tk_progress k) u = Some (False, u)" by (subst upload_loop.simps) simp
    then show ?thesis unfolding upload_loop_Cons [OF h] by auto
  next
    case True
    show ?thesis
    proof (cases "tk_destroy k \<or> kill \<or> tk_later k < 100 \<and> \<not> tk_alive k")
      case False
      then have "\<exists>k \<in> set ks. ends_upload k"
        using Cons.prems True kill ins by (auto simp: ends_upload_def)
      then have "upload_loop ks (tk_progress k) u \<noteq> None" by (rule Cons.IH)
      then show ?thesis unfolding upload_loop_Cons [OF h] using False by auto
    qed (auto simp: upload_loop_Cons [OF h])
  qed
qed simp

text \<open>What the loop leaves alone.\<close>

lemma HandleMainInput_keeps:
  "DeviceThread_HandleMainInput t = (kill, u) \<Longrightarrow> usbthread_pkt (dt_q u) = usbthread_pkt (dt_q t) \<and>
     serverthread_pkt (dt_q u) = serverthread_pkt (dt_q t) \<and> dt_calls u = dt_calls t \<and>
     window_events (dt_q u) = window_events (dt_q t) \<and> m_FirstPrint u = m_FirstPrint t"
  by (auto simp: DeviceThread_HandleMainInput_def split: prod.splits)

definition same_packets :: "DeviceThread \<Rightarrow> DeviceThread \<Rightarrow> bool" where
  "same_packets t u \<longleftrightarrow> usbthread_pkt (dt_q u) = usbthread_pkt (dt_q t) \<and>
     serverthread_pkt (dt_q u) = serverthread_pkt (dt_q t)"

lemma after_tick_keeps [simp]: "same_packets t (after_tick k old t)" "same_packets t (interrupt t)"
  by (simp_all add: same_packets_def after_tick_def arrive_inputs_def interrupt_def)

lemma same_packets_trans: "same_packets t u \<Longrightarrow> same_packets u v \<Longrightarrow> same_packets t v"
  by (simp add: same_packets_def)

text \<open>Nor does it touch the status that the window shows.\<close>

definition keeps_status :: "DeviceThread \<Rightarrow> DeviceThread \<Rightarrow> bool" where
  "keeps_status t u \<longleftrightarrow> (\<exists>es. window_events (dt_q u) = window_events (dt_q t) @ es \<and>
     (\<forall>w. m_DeviceStatus (fold ClientWindow_ThreadEvent es w) = m_DeviceStatus w))"

lemma keeps_status_refl [simp]: "window_events (dt_q u) = window_events (dt_q t) \<Longrightarrow> keeps_status t u"
  by (simp add: keeps_status_def)

lemma keeps_status_trans: "keeps_status t u \<Longrightarrow> keeps_status u v \<Longrightarrow> keeps_status t v"
  unfolding keeps_status_def by (metis (no_types, lifting) append.assoc comp_apply fold_append)

lemma keeps_status_simps [simp]: "keeps_status t (after_tick k old t)" "keeps_status t (interrupt t)"
  by (auto simp: keeps_status_def after_tick_def arrive_inputs_def interrupt_def call_device_def)

lemma upload_loop_keeps: "upload_loop ks old t = Some (cancelled, t') \<Longrightarrow> same_packets t t' \<and> keeps_status t t'"
proof (induction ks arbitrary: old t)
  case Nil
  then show ?case by (auto simp: upload_loop.simps [of "[]"] same_packets_def split: if_splits)
next
  case (Cons k ks)
  obtain kill u where h: "DeviceThread_HandleMainInput (after_tick k old t) = (kill, u)"
    by (cases "DeviceThread_HandleMainInput (after_tick k old t)")
  have u: "same_packets t u" "keeps_status t u"
    using HandleMainInput_keeps [OF h] after_tick_keeps(1) [of t k old]
      keeps_status_trans [OF keeps_status_simps(1) [of t k old], of u] by (simp_all add: same_packets_def)
  have "same_packets t t" by (simp add: same_packets_def)
  moreover have "same_packets t (interrupt (after_tick k old t))" "same_packets t (interrupt u)"
    using same_packets_trans [OF after_tick_keeps] same_packets_trans [OF u(1) after_tick_keeps(2)] by auto
  moreover have "keeps_status t (interrupt (after_tick k old t))" "keeps_status t (interrupt u)"
    using keeps_status_trans [OF keeps_status_simps] keeps_status_trans [OF u(2) keeps_status_simps(2)] by auto
  moreover have "upload_loop ks (tk_progress k) u = Some (cancelled, t') \<Longrightarrow> same_packets t t' \<and> keeps_status t t'"
    using Cons.IH u by (blast intro: same_packets_trans keeps_status_trans)
  ultimately show ?case
    using Cons.prems u unfolding upload_loop_Cons [OF h] by (auto split: if_splits)
qed

lemma handle_upload_keeps: "handle_upload r t = Some t' \<Longrightarrow> same_packets t t'"
  by (auto simp: handle_upload_def begin_upload_def Let_def split: if_splits option.splits dest!: upload_loop_keeps)
    (simp_all add: same_packets_def)

section \<open>Properties\<close>

text \<open>C38: however the device thread ends, no cart, no device, no debug support or a lost
  connection, its last message puts the window into the dead state, whatever the window showed
  before.\<close>

theorem thread_end_shows_dead:
  assumes "DeviceThread_Entry env sw ds rounds t = Some (Inr t')"
  shows "m_DeviceStatus (fold ClientWindow_ThreadEvent (window_events (dt_q t')) w) = CLSTATUS_DEAD"
proof -
  have "says_dead t'"
    using assms device_connect_dead device_loop_dead by (auto simp: DeviceThread_Entry_def split: sum.splits)
  then show ?thesis by (auto simp: says_dead_def fold_status simp del: fold_append)
qed

definition sample_thread :: DeviceThread where
  "sample_thread = \<lparr>dt_rompath = [], m_FirstPrint = True, dt_q = no_queues, dt_calls = []\<rparr>"

lemma thread_end_shows_dead_witness:
  "\<exists>t. DeviceThread_Entry env_x86 id \<lparr>ds_find = 3, ds_cart = CARTTYPE_NONE, ds_open = 0, ds_testdebug = 0\<rparr> []
     sample_thread = Some (Inr t) \<and>
     m_DeviceStatus (fold ClientWindow_ThreadEvent (window_events (dt_q t)) (new_ClientWindow 0)) = CLSTATUS_DEAD"
proof -
  let ?ds = "\<lparr>ds_find = 3, ds_cart = CARTTYPE_NONE, ds_open = 0, ds_testdebug = 0\<rparr>"
  have "\<exists>t. DeviceThread_Entry env_x86 id ?ds [] sample_thread = Some (Inr t)"
    by (simp add: DeviceThread_Entry_def device_connect_def dead_def DEVICEERR_OK_def)
  then obtain t where t: "DeviceThread_Entry env_x86 id ?ds [] sample_thread = Some (Inr t)" by blast
  from thread_end_shows_dead [OF t] t show ?thesis by blast
qed

text \<open>C37: the loop that watches an upload is left as soon as the thread is asked to end, the
  user cancels, the upload thread stops short or the progress reaches 100 per cent; the window
  then still shows the upload. What follows is a wait for the upload thread without a limit. If
  that thread ends, the window goes back to the idle state, the path is forgotten, also one posted
  meanwhile, and no packet is lost; if it does not, the device thread never returns, also after a
  cancel.\<close>

theorem upload_ends:
  assumes "dt_rompath t \<noteq> []" "ur_upload_runs r" "\<exists>k \<in> set (ur_ticks r). ends_upload k"
  shows "\<exists>cancelled u. upload_loop (ur_ticks r) 0 (begin_upload t) = Some (cancelled, u) \<and>
    m_DeviceStatus (fold ClientWindow_ThreadEvent (window_events (dt_q u)) w) = CLSTATUS_UPLOADING \<and>
    (if ur_upload_joins r
     then \<exists>t'. handle_upload r t = Some t' \<and> dt_rompath t' = [] \<and>
       usbthread_pkt (dt_q t') = usbthread_pkt (dt_q t) \<and> serverthread_pkt (dt_q t') = serverthread_pkt (dt_q t) \<and>
       m_DeviceStatus (fold ClientWindow_ThreadEvent (window_events (dt_q t')) w) = CLSTATUS_IDLE
     else handle_upload r t = None)"
proof -
  obtain c u where u: "upload_loop (ur_ticks r) 0 (begin_upload t) = Some (c, u)"
    using upload_loop_ends [OF assms(3), of 0 "begin_upload t"] by auto
  have "keeps_status (begin_upload t) u" using upload_loop_keeps [OF u] ..
  then obtain es where es: "window_events (dt_q u) = window_events (dt_q (begin_upload t)) @ es"
    "\<And>w. m_DeviceStatus (fold ClientWindow_ThreadEvent es w) = m_DeviceStatus w"
    unfolding keeps_status_def by blast
  obtain ds where "window_events (dt_q (begin_upload t)) = ds @ [TEVENT_SETSTATUS CLSTATUS_UPLOADING]"
    by (simp add: begin_upload_def)
  then have loading: "m_DeviceStatus (fold ClientWindow_ThreadEvent (window_events (dt_q u)) w) = CLSTATUS_UPLOADING"
    using fold_status [of ds CLSTATUS_UPLOADING w] by (simp add: es)
  show ?thesis
  proof (cases "ur_upload_joins r")
    case False
    then have "handle_upload r t = None" using assms(1,2) u by (simp add: handle_upload_def Let_def)
    then show ?thesis using u loading False by simp
  next
    case True
    define t' where "t' = the (handle_upload r t)"
    have h: "handle_upload r t = Some t'"
      using assms(1,2) u True by (simp add: t'_def handle_upload_def Let_def)
    have ends: "\<exists>es. window_events (dt_q t') = es @ [TEVENT_SETSTATUS CLSTATUS_IDLE] \<or>
        (\<exists>s. window_events (dt_q t') = es @ [TEVENT_SETSTATUS CLSTATUS_IDLE] @ [TEVENT_WRITECONSOLE s]) \<or>
        (\<exists>s s'. window_events (dt_q t') = es @ [TEVENT_SETSTATUS CLSTATUS_IDLE] @ [TEVENT_WRITECONSOLE s, TEVENT_WRITECONSOLE s'])"
      using assms(1,2) h u True by (auto simp: handle_upload_def Let_def split: if_splits)
    have console: "m_DeviceStatus (fold ClientWindow_ThreadEvent (es @ [TEVENT_SETSTATUS CLSTATUS_IDLE] @
        map TEVENT_WRITECONSOLE ss) w) = CLSTATUS_IDLE" for es ss
    proof -
      have "m_DeviceStatus (fold ClientWindow_ThreadEvent (map TEVENT_WRITECONSOLE ss) v) = m_DeviceStatus v" for v
        by (induction ss arbitrary: v) simp_all
      then show ?thesis using fold_status [of es CLSTATUS_IDLE w] by simp
    qed
    have "m_DeviceStatus (fold ClientWindow_ThreadEvent (window_events (dt_q t')) w) = CLSTATUS_IDLE"
      using ends console [of _ "[]"] console [of _ "[s]" for s] console [of _ "[s, s']" for s s'] by auto
    moreover have "dt_rompath t' = []" using assms(1,2) h u True by (auto simp: handle_upload_def Let_def split: if_splits)
    ultimately show ?thesis using h u loading True handle_upload_keeps [OF h] by (simp add: same_packets_def)
  qed
qed

text \<open>An upload that the user cancels half-way.\<close>

definition cancelled_upload :: "bool \<Rightarrow> usb_round" where
  "cancelled_upload joins = \<lparr>ur_destroy = False, ur_isopen = True, ur_inputs = [], ur_pkts = [], ur_upload_runs = True,
     ur_ticks = [\<lparr>tk_progress = 50, tk_shown = 50, tk_later = 50, tk_destroy = False,
       tk_inputs = [TEVENT_LOADROM ''b.z64'', TEVENT_CANCELLOAD], tk_alive = True\<rparr>], ur_upload_joins = joins,
     ur_cart = CART_SC64, ur_error = 0, ur_header = 0, ur_data = None\<rparr>"

lemma upload_ends_witness:
  "(\<exists>t. handle_upload (cancelled_upload True) (sample_thread\<lparr>dt_rompath := ''a.z64''\<rparr>) = Some t \<and> dt_rompath t = [] \<and>
     m_DeviceStatus (fold ClientWindow_ThreadEvent (window_events (dt_q t)) (new_ClientWindow 0)) = CLSTATUS_IDLE) \<and>
   handle_upload (cancelled_upload False) (sample_thread\<lparr>dt_rompath := ''a.z64''\<rparr>) = None"
proof -
  have "\<exists>k \<in> set (ur_ticks (cancelled_upload b)). ends_upload k" for b
    by (simp add: cancelled_upload_def ends_upload_def)
  then show ?thesis
    using upload_ends [of "sample_thread\<lparr>dt_rompath := ''a.z64''\<rparr>" "cancelled_upload True" "new_ClientWindow 0"]
      upload_ends [of "sample_thread\<lparr>dt_rompath := ''a.z64''\<rparr>" "cancelled_upload False" "new_ClientWindow 0"]
    by (auto simp: cancelled_upload_def)
qed

section \<open>Rounds of the main loop\<close>

lemma HandleMainInput_path:
  "DeviceThread_HandleMainInput t = (kill, u) \<Longrightarrow> usbthread_input (dt_q t) = [] \<Longrightarrow> u = t"
proof -
  assume h: "DeviceThread_HandleMainInput t = (kill, u)" and e: "usbthread_input (dt_q t) = []"
  have "(dt_q t)\<lparr>usbthread_input := []\<rparr> = dt_q t" using e by (cases "dt_q t") simp
  with h e show "u = t" by (simp add: DeviceThread_HandleMainInput_def)
qed

text \<open>The header of USB data: its type and its size.\<close>

definition usb_header :: "byte \<Rightarrow> nat \<Rightarrow> u32" where
  "usb_header type sz = push_bit 24 (ucast type) OR of_nat sz"

lemma usb_header_fields:
  assumes "sz < 2 ^ 24"
  shows "ucast (drop_bit 24 (usb_header type sz) AND 0xFF) = type" "usb_header type sz AND 0xFFFFFF = of_nat sz"
proof -
  have w: "take_bit 24 (of_nat sz :: u32) = of_nat sz"
    using take_bit_nat_eq_self [of sz 24] assms by (simp add: take_bit_of_nat)
  have small: "\<not> bit (of_nat sz :: u32) n" if "24 \<le> n" for n
    using that bit_take_bit_iff [of 24 "of_nat sz :: u32" n] by (simp add: w)
  have m: "(0xFFFFFF :: u32) = mask 24" "(0xFF :: u32) = mask 8" by (simp_all add: mask_eq_exp_minus_1)
  show "usb_header type sz AND 0xFFFFFF = of_nat sz"
    unfolding m by (rule bit_word_eqI) (use small in \<open>auto simp: usb_header_def bit_simps not_less\<close>, meson not_le)
  show "ucast (drop_bit 24 (usb_header type sz) AND 0xFF) = type"
    unfolding m by (rule bit_word_eqI) (use small in \<open>auto simp: usb_header_def bit_simps\<close>)
qed

lemma pkt_wire_NetLib: "NetLib_wf p \<Longrightarrow> pkt_wf p \<and> pkt_wire p = NetLib_wire p"
  by (auto simp: pkt_wf_def pkt_wire_def NetLib_wf_def)

lemma send_queued_pkt_wire:
  assumes "alloc_ok env" "NetLib_wf p" "usbthread_pkt (dt_q t) = Some p # pkts"
  shows "send_queued_pkt env t =
    Inr (call_device (DSendData HOST_NETPACKET (NetLib_wire p)) (t\<lparr>dt_q := (dt_q t)\<lparr>usbthread_pkt := pkts\<rparr>\<rparr>))"
  using GetAsBytes_wire [OF assms(1), of p] GetAsBytes_Size_wire [of p] pkt_wire_NetLib [OF assms(2)] assms(3)
  by (simp add: send_queued_pkt_def rdn_whole)

lemma handle_usb_netpacket:
  assumes "alloc_ok env" "NetLib_wf p" "length (NetLib_wire p) < 2 ^ 24"
  shows "handle_usb_data env sw (usb_header HOST_NETPACKET (length (NetLib_wire p))) (NetLib_wire p @ rest) t =
    Inr (t\<lparr>dt_q := (dt_q t)\<lparr>serverthread_pkt := serverthread_pkt (dt_q t) @ [unsent p]\<rparr>\<rparr>)"
  using NetLib_decode_wire [OF assms(1,2), of rest] usb_header_fields [OF assms(3), of HOST_NETPACKET]
  by (simp add: handle_usb_data_def Let_def HOST_NETPACKET_def HOST_TEXT_def ParseUSB_NetLibPacket_def)

text \<open>In a round without upload and without messages from the window, a packet that comes in
  over USB is queued for the server behind the ones already there, and when nothing comes in the
  oldest packet queued for the console, and only that one, is written to the flashcart in its
  wire form.\<close>

theorem usb_round_relays:
  assumes "alloc_ok env" "dt_rompath t = []" "usbthread_input (dt_q t) = []" "ur_inputs r = []"
    and "NetLib_wf p" "length (NetLib_wire p) < 2 ^ 24" "ur_error r = DEVICEERR_OK"
  shows "(ur_data r = Some (NetLib_wire p @ rest) \<and> ur_header r = usb_header HOST_NETPACKET (length (NetLib_wire p)) \<longrightarrow>
      (\<exists>t'. device_round env sw r t = Some (Inr t') \<and>
        serverthread_pkt (dt_q t') = serverthread_pkt (dt_q t) @ [unsent p] \<and>
        usbthread_pkt (dt_q t') = usbthread_pkt (dt_q t) @ ur_pkts r \<and> dt_calls t' = dt_calls t)) \<and>
    (ur_data r = None \<and> usbthread_pkt (dt_q t) @ ur_pkts r = Some p # pkts \<longrightarrow>
      (\<exists>t'. device_round env sw r t = Some (Inr t') \<and>
        serverthread_pkt (dt_q t') = serverthread_pkt (dt_q t) \<and> usbthread_pkt (dt_q t') = pkts \<and>
        dt_calls t' = dt_calls t @ [DSendData HOST_NETPACKET (NetLib_wire p)]))"
proof -
  let ?t = "arrive_round r t"
  have arr: "dt_rompath ?t = []" "usbthread_input (dt_q ?t) = []" "serverthread_pkt (dt_q ?t) = serverthread_pkt (dt_q t)"
    "usbthread_pkt (dt_q ?t) = usbthread_pkt (dt_q t) @ ur_pkts r" "dt_calls ?t = dt_calls t"
    using assms(2-4) by (simp_all add: arrive_round_def arrive_inputs_def Let_def)
  have up: "handle_upload r ?t = Some ?t" by (simp add: handle_upload_def arr)
  have input: "snd (DeviceThread_HandleMainInput u) = u" if "usbthread_input (dt_q u) = []" for u
    using that HandleMainInput_path [of u] by (cases "DeviceThread_HandleMainInput u") auto
  have ne: "usb_header HOST_NETPACKET (length (NetLib_wire p)) \<noteq> 0"
    using usb_header_fields(1) [OF assms(6), of HOST_NETPACKET] by (auto simp: HOST_NETPACKET_def)
  show ?thesis
    by (simp add: device_round_def up assms(7) Let_def handle_usb_netpacket [OF assms(1,5,6)] ne input arr
        send_queued_pkt_wire [OF assms(1,5)])
qed

definition sample_round :: "u32 \<Rightarrow> byte list option \<Rightarrow> usb_round" where
  "sample_round header data = \<lparr>ur_destroy = False, ur_isopen = True, ur_inputs = [], ur_pkts = [],
     ur_upload_runs = True, ur_ticks = [], ur_upload_joins = True, ur_cart = CART_SC64, ur_error = 0, ur_header = header, ur_data = data\<rparr>"

lemma usb_round_relays_witness:
  "\<exists>t. device_round env_x86 id (sample_round (usb_header HOST_NETPACKET 20) (Some (NetLib_wire sample_pkt))) sample_thread =
     Some (Inr t) \<and> serverthread_pkt (dt_q t) = [sample_pkt]"
proof -
  have len: "length (NetLib_wire sample_pkt) = 20"
    using length_wire(1) [of sample_pkt] by (simp add: sample_pkt_def pkt_inv_def)
  have u: "unsent sample_pkt = sample_pkt" by (simp add: unsent_def sample_pkt_def)
  show ?thesis
    using usb_round_relays [of env_x86 sample_thread
        "sample_round (usb_header HOST_NETPACKET 20) (Some (NetLib_wire sample_pkt))" sample_pkt "[]" id "[]"] len
    by (auto simp: sample_round_def sample_thread_def no_queues_def DEVICEERR_OK_def u)
qed

text \<open>What a heartbeat does, for a library whose \<open>swap_endian\<close> reverses the four bytes: fewer
  than four bytes and protocols newer than 2 are refused with a message and change nothing;
  otherwise the protocol in the first two bytes is chosen, and a heartbeat version other than 1
  in the last two is reported after that.\<close>

theorem heartbeat_outcomes:
  assumes "\<forall>w. sw w = swap_endian32 w"
  shows "(sz < 4 \<longrightarrow> (\<exists>s. ParseUSB_HeartbeatPacket sw buff sz t = Inr (WriteConsoleError s t))) \<and>
    (4 \<le> sz \<longrightarrow> (\<exists>s s'. ParseUSB_HeartbeatPacket sw (be16 protocol @ be16 version @ rest) sz t = Inr
      (if 2 < protocol then WriteConsoleError s t
       else if version = 1 then call_device (DSetProtocol (ucast protocol)) t
       else WriteConsoleError s' (call_device (DSetProtocol (ucast protocol)) t))))"
proof -
  define w :: u32 where "w = push_bit 16 (ucast protocol) OR ucast version"
  have bits: "bit w n \<longleftrightarrow> (if n < 16 then bit version n else n < 32 \<and> bit protocol (n - 16))" for n
    using bit_imp_le_length [of protocol "n - 16"] bit_imp_le_length [of version n]
    by (auto simp: w_def bit_simps)
  have "be16 protocol @ be16 version = be32 w"
    unfolding be16_def be32_def append.simps list.inject
    by (intro conjI ucast_eqI refl) (auto simp: bits bit_drop_bit_eq)
  then have raw: "rd32 (be16 protocol @ be16 version @ rest) 0 =
      Inr (le32 (ucast (drop_bit 24 w)) (ucast (drop_bit 16 w)) (ucast (drop_bit 8 w)) (ucast w))"
    unfolding append_assoc [symmetric] by (simp add: rd32_def be32_def)
  have m: "(0xFFFF :: u32) = mask 16" "(0xFFFF0000 :: u32) = push_bit 16 (mask 16)"
    by (simp_all add: mask_eq_exp_minus_1 push_bit_eq_mult)
  have "w AND 0x0000FFFF = ucast version"
    unfolding m by (rule bit_word_eqI) (auto simp: bits bit_simps dest: bit_imp_le_length)
  moreover have "drop_bit 16 (w AND 0xFFFF0000) = ucast protocol"
    unfolding m by (rule bit_word_eqI) (auto simp: bits bit_simps dest: bit_imp_le_length)
  moreover have "2 < (ucast protocol :: u32) \<longleftrightarrow> 2 < protocol" "(ucast version :: u32) = 1 \<longleftrightarrow> version = 1"
    using unsigned_less [of protocol, where 'a = nat] unsigned_less [of version, where 'a = nat]
    by (simp_all add: word_less_nat_alt word_unat_eq_iff [of _ 1] unsigned_ucast_eq take_bit_nat_eq_self)
  ultimately show ?thesis
    by (auto simp: ParseUSB_HeartbeatPacket_def assms raw Let_def USBPROTOCOL_VERSION_def not_le)
qed

lemma heartbeat_outcomes_witness:
  "ParseUSB_HeartbeatPacket swap_endian32 (be16 2 @ be16 1) 4 sample_thread =
     Inr (call_device (DSetProtocol 2) sample_thread)"
  using heartbeat_outcomes [of swap_endian32 4 _ sample_thread 2 1 "[]"] by auto

end
