(* ===== verification/NL_Relay.thy ===== *)
theory NL_Relay
  imports NL_Device
begin

text \<open>
  \<open>ServerConnectionThread\<close> of \<^verbatim>\<open>Client App/clientwindow.cpp\<close>: the thread between the two packet
  queues and the server. The lemmas give one round of its loop exactly (what is sent, what is
  queued for the console), its refinement of a pair of plain queues, and that it neither
  resends nor times out.
\<close>

section \<open>ServerConnectionThread\<close>

text \<open>The locals of \<open>Entry\<close> and the queues.\<close>

record conn =
  cn_sock :: ASIOSocket
  cn_handler :: UDPHandler
  cn_buff :: "byte list"
  cn_q :: queues

text \<open>The inner loop over the queue: an exception leaves the rest in it.\<close>

fun send_all ::
    "env \<Rightarrow> int \<Rightarrow> AbstractPacket list \<Rightarrow> ASIOSocket \<Rightarrow> UDPHandler
      \<Rightarrow> unit result \<times> AbstractPacket list \<times> ASIOSocket \<times> UDPHandler" where
  "send_all env now [] sock h = (Inr (), [], sock, h)"
| "send_all env now (pkt # pkts) sock h =
     (case SendPacket env now sock h pkt of
        (Inl e, sock, h, _) \<Rightarrow> (Inl e, pkts, sock, h)
      | (Inr _, sock, h, _) \<Rightarrow> send_all env now pkts sock h)"

text \<open>
  \<open>Post(FromBytes(GetAsBytes()))\<close>: a copy goes into the queue, a null pointer when the copy
  does not parse. A failed \<open>GetAsBytes\<close> hands the parser a null pointer.
\<close>

definition TransferPacket :: "env \<Rightarrow> AbstractPacket \<Rightarrow> queues \<Rightarrow> queues result" where
  "TransferPacket env pkt q =
     rbind (GetAsBytes env pkt) (\<lambda>bytes. case bytes of
        None \<Rightarrow> Inl NullPointer
      | Some bytes \<Rightarrow> rbind (NetLibPacket_FromBytes env bytes) (\<lambda>copy.
          Inr (q\<lparr>usbthread_pkt := usbthread_pkt q @ [copy]\<rparr>)))"

text \<open>
  The loop over the waiting datagrams, from the state after a \<open>Read\<close>. The number of datagrams
  is enough fuel.
\<close>

fun receive_loop :: "env \<Rightarrow> int \<Rightarrow> nat \<Rightarrow> conn \<Rightarrow> (unit result \<times> conn) option" where
  "receive_loop env now fuel c =
     (if LastReadCount (cn_sock c) = 0 then Some (Inr (), c) else
      case fuel of
        0 \<Rightarrow> None
      | Suc fuel \<Rightarrow>
         (case ReadNetLibPacket env now (cn_sock c) (cn_handler c) (cn_buff c) of
            (Inl e, sock, h) \<Rightarrow> Some (Inl e, c\<lparr>cn_sock := sock, cn_handler := h\<rparr>)
          | (Inr got, sock, h) \<Rightarrow>
             (let c = c\<lparr>cn_sock := sock, cn_handler := h\<rparr> in
              case (case got of None \<Rightarrow> Inr (cn_q c) | Some pkt \<Rightarrow> TransferPacket env pkt (cn_q c)) of
                Inl e \<Rightarrow> Some (Inl e, c)
              | Inr q \<Rightarrow>
                 (case ASIOSocket_Read (cn_sock c) (cn_buff c) 4096 of (buff, sock) \<Rightarrow>
                    receive_loop env now fuel (c\<lparr>cn_q := q, cn_buff := buff, cn_sock := sock\<rparr>)))))"

declare receive_loop.simps [simp del]

text \<open>The body of the \<open>try\<close>.\<close>

definition conn_body :: "env \<Rightarrow> int \<Rightarrow> conn \<Rightarrow> (unit result \<times> conn) option" where
  "conn_body env now c =
     (case send_all env now (serverthread_pkt (cn_q c)) (cn_sock c) (cn_handler c) of
        (r, pkts, sock, h) \<Rightarrow>
          let c = c\<lparr>cn_sock := sock, cn_handler := h, cn_q := (cn_q c)\<lparr>serverthread_pkt := pkts\<rparr>\<rparr> in
          (case r of
             Inl e \<Rightarrow> Some (Inl e, c)
           | Inr _ \<Rightarrow>
              (case ASIOSocket_Read (cn_sock c) (cn_buff c) 4096 of (buff, sock) \<Rightarrow>
                 receive_loop env now (Suc (length (sock_inbox sock))) (c\<lparr>cn_buff := buff, cn_sock := sock\<rparr>))))"

text \<open>
  One round of the loop: whether the thread goes on, and the state. A timeout ends the thread
  with a message; any other exception ends the program, which is the fault.
\<close>

definition conn_round :: "env \<Rightarrow> int \<Rightarrow> conn \<Rightarrow> (bool \<times> conn) result option" where
  "conn_round env now c =
     (case conn_body env now c of
        None \<Rightarrow> None
      | Some (Inr _, c) \<Rightarrow> Some (Inr (True, c))
      | Some (Inl (ClientTimeout who), c) \<Rightarrow>
          Some (Inr (False, c\<lparr>cn_q := post_event (TEVENT_WRITECONSOLEERROR
            (endl @ ''Server timed out. Disconnected.'' @ endl)) (cn_q c)\<rparr>))
      | Some (Inl e, c) \<Rightarrow> Some (Inl e))"

text \<open>What the outside does between two rounds: packets from the console, datagrams from the
  server, and the device thread taking packets from its queue.\<close>

record conn_moment =
  cm_now :: int
  cm_pkts :: "AbstractPacket list"
  cm_inbox :: "byte list list"
  cm_taken :: nat

definition conn_arrive :: "conn_moment \<Rightarrow> conn \<Rightarrow> conn" where
  "conn_arrive m c =
     c\<lparr>cn_sock := (cn_sock c)\<lparr>sock_inbox := sock_inbox (cn_sock c) @ cm_inbox m\<rparr>,
       cn_q := (cn_q c)\<lparr>serverthread_pkt := serverthread_pkt (cn_q c) @ cm_pkts m,
                        usbthread_pkt := drop (cm_taken m) (usbthread_pkt (cn_q c))\<rparr>\<rparr>"

fun conn_run :: "env \<Rightarrow> conn_moment list \<Rightarrow> conn \<Rightarrow> (bool \<times> conn) result option" where
  "conn_run env [] c = Some (Inr (True, c))"
| "conn_run env (m # ms) c =
     (case conn_round env (cm_now m) (conn_arrive m c) of
        None \<Rightarrow> None
      | Some (Inl e) \<Rightarrow> Some (Inl e)
      | Some (Inr (True, c)) \<Rightarrow> conn_run env ms c
      | Some (Inr (False, c)) \<Rightarrow> Some (Inr (False, c)))"

definition ServerConnectionThread_Entry ::
    "env \<Rightarrow> ClientWindow \<Rightarrow> byte list \<Rightarrow> conn_moment list \<Rightarrow> queues \<Rightarrow> (bool \<times> conn) result option" where
  "ServerConnectionThread_Entry env w memory ms q =
     conn_run env ms
       \<lparr>cn_sock = new_ASIOSocket (ClientWindow_GetAddress w) (ClientWindow_GetPort w),
        cn_handler = new_UDPHandler (ClientWindow_GetAddress w) (ClientWindow_GetPort w),
        cn_buff = take 4096 memory,
        cn_q = post_event (TEVENT_WRITECONSOLE
          (''Establishing connection to server once ROM is ready.'' @ endl)) q\<rparr>"

section \<open>Sending\<close>

text \<open>The datagrams of a series of first sends: each packet with the next free number.\<close>

fun stamped :: "env \<Rightarrow> int \<Rightarrow> UDPHandler \<Rightarrow> AbstractPacket list \<Rightarrow> AbstractPacket list \<times> UDPHandler" where
  "stamped env now h [] = ([], h)"
| "stamped env now h (pkt # pkts) =
     (let p = sent_form env now h pkt;
          h = (if reliable pkt then consume h p else h);
          (ps, h) = stamped env now h pkts
      in (p # ps, h))"

definition fresh :: "AbstractPacket \<Rightarrow> bool" where
  "fresh pkt \<longleftrightarrow> pkt_wf pkt \<and> m_SendAttempts pkt = 0"

lemma transmit_all_consume [simp]: "transmit_all (consume h p) ds sock = transmit_all h ds sock"
  by (simp add: transmit_all_def)

lemma transmit_all_append: "transmit_all h es (transmit_all h ds sock) = transmit_all h (ds @ es) sock"
  by (simp add: transmit_all_def)

lemma send_all_ok:
  assumes "alloc_ok env" "can_send env h" "list_all fresh pkts"
  shows "send_all env now pkts sock h =
    (Inr (), [], transmit_all h (map pkt_wire (fst (stamped env now h pkts))) sock,
     snd (stamped env now h pkts))"
  using assms(2,3)
proof (induction pkts arbitrary: sock h)
  case (Cons pkt pkts)
  let ?p = "sent_form env now h pkt"
  let ?h = "if reliable pkt then consume h ?p else h"
  have p: "pkt_wf pkt" "m_SendAttempts pkt = 0" "list_all fresh pkts"
    using Cons.prems(2) by (simp_all add: fresh_def [of pkt])
  have "SendPacket env now sock h pkt = (Inr (), transmit h (pkt_wire ?p) sock, ?h, ?p)"
    using Cons.prems(1) p by (simp add: SendPacket_cases [OF assms(1)] can_send_def Let_def)
  moreover have "can_send env ?h" using Cons.prems(1) by simp
  moreover have "transmit_all ?h ds s = transmit_all h ds s" for ds s by simp
  ultimately show ?case
    using Cons.IH [of ?h, OF _ p(3)] by (simp add: Let_def split_beta)
qed simp

text \<open>
  What the packets of a series are on the wire, and the numbers they take: reliable packets
  count up, an unreliable one shows the number the next reliable one will have.
\<close>

fun numbers :: "u16 \<Rightarrow> AbstractPacket list \<Rightarrow> u16 list" where
  "numbers n [] = []"
| "numbers n (pkt # pkts) = n # numbers (if reliable pkt then n + 1 else n) pkts"

definition content :: "AbstractPacket \<Rightarrow> derived \<times> byte \<times> byte list" where
  "content pkt = (m_Derived pkt, m_Flags pkt, m_Data pkt)"

lemma sent_form_content [simp]: "content (sent_form env now h pkt) = content pkt"
  by (simp add: content_def sent_form_def stamp_def packet_setters)

lemma content_unsent [simp]: "content (unsent pkt) = content pkt"
  by (simp add: content_def)

lemma stamped_facts:
  "list_all fresh pkts \<Longrightarrow> list_all pkt_wf (fst (stamped env now h pkts)) \<and>
     map content (fst (stamped env now h pkts)) = map content pkts \<and>
     seqs (fst (stamped env now h pkts)) = numbers (m_LocalSeqNum h) pkts"
proof (induction pkts arbitrary: h)
  case (Cons pkt pkts)
  have p: "pkt_wf pkt" "m_SendAttempts pkt = 0" "list_all fresh pkts"
    using Cons.prems by (simp_all add: fresh_def [of pkt])
  have n: "m_SequenceNum (sent_form env now h pkt) = m_LocalSeqNum h"
    using p(2) by (simp add: sent_form_def)
  show ?case
    using Cons.IH [OF p(3), of h] Cons.IH [OF p(3), of "consume h (sent_form env now h pkt)"] p(1) n
    by (simp add: Let_def split_beta consume_def)
qed simp

lemma stamped_handler:
  "m_Address (snd (stamped env now h pkts)) = m_Address h \<and> m_Port (snd (stamped env now h pkts)) = m_Port h \<and>
   m_AcksLeft_RX (snd (stamped env now h pkts)) = m_AcksLeft_RX h \<and>
   m_RemoteSeqNum (snd (stamped env now h pkts)) = m_RemoteSeqNum h"
proof (induction pkts arbitrary: h)
  case (Cons pkt pkts)
  show ?case
    using Cons.IH [of h] Cons.IH [of "consume h (sent_form env now h pkt)"]
    by (simp add: Let_def split_beta consume_def)
qed simp

section \<open>Receiving\<close>

lemma LastReadCount_Read:
  "ASIOSocket_Read sock buff n = (buff', sock') \<Longrightarrow>
     sock_inbox sock' = tl (sock_inbox sock) \<and> sock_sent sock' = sock_sent sock \<and>
     (sock_inbox sock = [] \<longrightarrow> LastReadCount sock' = 0)"
  by (auto simp: ASIOSocket_Read_def LastReadCount_def split: list.splits)

text \<open>A datagram is taken out of the socket in every round, so the loop ends.\<close>

lemma HandlePacketSequence_inbox:
  "HandlePacketSequence env now sock h pkt mk = (r, sock', h') \<Longrightarrow> sock_inbox sock' = sock_inbox sock"
proof -
  have "SendPacket env now sock h pkt = (r, sock', h', pkt') \<Longrightarrow> sock_inbox sock' = sock_inbox sock"
    for pkt r sock' h' pkt' h
    by (auto simp: SendPacket_def Let_def ASIOSocket_Send_def split: result_splits)
  then have "send_ack env now sock h mk = (r, sock', h') \<Longrightarrow> sock_inbox sock' = sock_inbox sock"
    for r sock' h' h
    by (auto simp: send_ack_def split: result_splits)
  then show "HandlePacketSequence env now sock h pkt mk = (r, sock', h') \<Longrightarrow> sock_inbox sock' = sock_inbox sock"
    by (auto simp: HandlePacketSequence_eq Let_def split: result_splits)
qed

lemma ReadNetLibPacket_inbox:
  "ReadNetLibPacket env now sock h d = (r, sock', h') \<Longrightarrow> sock_inbox sock' = sock_inbox sock"
  by (auto simp: ReadNetLibPacket_def dest: HandlePacketSequence_inbox split: result_splits bool.splits)

lemma receive_loop_ends:
  "length (sock_inbox (cn_sock c)) < fuel \<Longrightarrow> receive_loop env now fuel c \<noteq> None"
proof (induction fuel arbitrary: c)
  case (Suc fuel)
  obtain g sock h where rd: "ReadNetLibPacket env now (cn_sock c) (cn_handler c) (cn_buff c) = (g, sock, h)"
    by (cases "ReadNetLibPacket env now (cn_sock c) (cn_handler c) (cn_buff c)") auto
  obtain b2 s2 where rd2: "ASIOSocket_Read sock (cn_buff c) 4096 = (b2, s2)"
    by (cases "ASIOSocket_Read sock (cn_buff c) 4096") auto
  have inbox: "sock_inbox s2 = tl (sock_inbox (cn_sock c))"
    using LastReadCount_Read [OF rd2] ReadNetLibPacket_inbox [OF rd] by simp
  show ?case
  proof (cases "sock_inbox (cn_sock c)")
    case Nil
    then have "LastReadCount s2 = 0"
      using LastReadCount_Read [OF rd2] ReadNetLibPacket_inbox [OF rd] by simp
    then have "receive_loop env now fuel (c'\<lparr>cn_q := q, cn_buff := b2, cn_sock := s2\<rparr>) \<noteq> None" for c' q
      by (subst receive_loop.simps) simp
    then show ?thesis
      by (subst receive_loop.simps) (auto simp: rd rd2 Let_def split: sum.splits option.splits)
  next
    case (Cons d ds)
    then have "receive_loop env now fuel (c'\<lparr>cn_q := q, cn_buff := b2, cn_sock := s2\<rparr>) \<noteq> None" for c' q
      using Suc.IH [of "c'\<lparr>cn_q := q, cn_buff := b2, cn_sock := s2\<rparr>"] Suc.prems inbox by simp
    then show ?thesis
      by (subst receive_loop.simps) (auto simp: rd rd2 Let_def split: sum.splits option.splits)
  qed
qed simp

section \<open>What reaches the server\<close>

text \<open>
  The packets among the datagrams sent that the handler did not make itself: its acks have
  type 0, no recipients, the unreliable flag and no data. (A game's answer to a heartbeat has
  type 0 too, but is reliable.)
\<close>

definition ack_content :: "derived \<times> byte \<times> byte list" where
  "ack_content = (NetLib 0 0, FLAG_UNRELIABLE, [])"

fun sent_contents :: "env \<Rightarrow> (wxString \<times> int \<times> byte list) list \<Rightarrow> (derived \<times> byte \<times> byte list) list" where
  "sent_contents env [] = []"
| "sent_contents env ((_, _, d) # ds) =
     (case NetLibPacket_FromBytes env d of
        Inr (Some p) \<Rightarrow> if content p = ack_content then [] else [content p]
      | _ \<Rightarrow> []) @ sent_contents env ds"

lemma sent_contents_append [simp]:
  "sent_contents env (ds @ es) = sent_contents env ds @ sent_contents env es"
  by (induction ds rule: sent_contents.induct) auto

lemma sent_contents_wire:
  "alloc_ok env \<Longrightarrow> NetLib_wf p \<Longrightarrow>
     sent_contents env [(a, n, NetLib_wire p)] = (if content p = ack_content then [] else [content p])"
  using NetLib_decode_wire [of env p "[]"] by simp

text \<open>A packet the console sends: fresh, of the NetLib class, and not an ack of the handler's form.\<close>

definition game_pkt :: "AbstractPacket \<Rightarrow> bool" where
  "game_pkt pkt \<longleftrightarrow> fresh pkt \<and> (\<exists>type recipients. m_Derived pkt = NetLib type recipients) \<and> content pkt \<noteq> ack_content"

lemma game_pkt_wire:
  assumes "game_pkt pkt" "content p = content pkt" "pkt_wf p"
  shows "pkt_wire p = NetLib_wire p" "NetLib_wf p" "content p \<noteq> ack_content"
  using assms by (auto simp: game_pkt_def content_def pkt_wire_def pkt_wf_def split: derived.splits)

lemma sent_contents_all:
  assumes "alloc_ok env" "list_all pkt_wf ps" "map content ps = map content pkts" "list_all game_pkt pkts"
  shows "sent_contents env (map (\<lambda>d. (a, n, d)) (map pkt_wire ps)) = map content pkts"
  using assms(2-)
proof (induction ps arbitrary: pkts)
  case (Cons p ps)
  then obtain pkt pkts' where pkts: "pkts = pkt # pkts'" by (cases pkts) auto
  have "game_pkt pkt" "content p = content pkt" "pkt_wf p" using Cons.prems pkts by auto
  note w = game_pkt_wire [OF this]
  have "sent_contents env ((a, n, pkt_wire p) # rest) = content pkt # sent_contents env rest" for rest
    using NetLib_decode_wire [OF assms(1) w(2), of "[]"] w(1,3) Cons.prems pkts by simp
  then show ?case using Cons.IH [of pkts'] Cons.prems pkts by simp
qed simp

lemma reads_no_timeout [simp]:
  "rd8 d n \<noteq> Inl (ClientTimeout who)" "rd16 d n \<noteq> Inl (ClientTimeout who)"
  "rd32 d n \<noteq> Inl (ClientTimeout who)" "rdn d n k \<noteq> Inl (ClientTimeout who)"
  by (simp_all add: rd8_def rd16_def rd32_def rdn_def)

lemma strneq_no_timeout [simp]: "strneq d hs \<noteq> Inl (ClientTimeout who)"
  by (induction d hs rule: strneq.induct) auto

lemma parse_no_timeout [simp]:
  "IsNetLibPacket d \<noteq> Inl (ClientTimeout who)" "NetLibPacket_FromBytes env d \<noteq> Inl (ClientTimeout who)"
  by (auto simp: NetLibPacket_FromBytes_def IsNetLibPacket_def rbind_Inl_iff Let_def
      new_NetLibPacket_def new_AbstractPacket_def split: if_splits)

lemma encode_no_timeout [simp]: "GetAsBytes env p \<noteq> Inl (ClientTimeout who)"
  by (auto simp: GetAsBytes_def NetLibPacket_GetAsBytes_def S64Packet_GetAsBytes_def rbind_Inl_iff Let_def
      split: if_splits derived.splits)

lemma TransferPacket_no_timeout [simp]: "TransferPacket env p q \<noteq> Inl (ClientTimeout who)"
  by (auto simp: TransferPacket_def rbind_Inl_iff split: option.splits)

lemma TransferPacket_keeps:
  "TransferPacket env p q = Inr q' \<Longrightarrow> \<exists>copy. q' = q\<lparr>usbthread_pkt := usbthread_pkt q @ [copy]\<rparr>"
  by (auto simp: TransferPacket_def rbind_Inr_iff split: option.splits)

text \<open>What a read may send: nothing, or one ack from the handler it leaves.\<close>

lemma ReadNetLibPacket_sock:
  assumes "alloc_ok env" "can_send env h" "ReadNetLibPacket env now sock h d = (r, sock', h')"
  shows "r \<noteq> Inl (ClientTimeout who) \<and> can_send env h' \<and>
    sent_contents env (sock_sent sock') = sent_contents env (sock_sent sock)"
proof -
  obtain ack where ack: "MakeAck_NetLibPacket env = Inr ack" "NetLib_wf ack" "content ack = ack_content"
    "m_SendAttempts ack = 0" "\<not> reliable ack"
    by (auto simp: MakeAck_eq NetLib_wf_def pkt_inv_def NETLIBPACKET_VERSION_def content_def ack_content_def
        reliable_def FLAG_UNRELIABLE_def)
  have send: "\<exists>ps. send_ack env now sock k MakeAck_NetLibPacket = (Inr (), transmit k ps sock, k) \<and>
      sent_contents env [(m_Address k, m_Port k, ps)] = []" if k: "can_send env k" for k
  proof -
    have wf: "pkt_wf ack" using ack(2) by (auto simp: pkt_wf_def NetLib_wf_def)
    let ?a = "sent_form env now k ack"
    have a: "NetLib_wf ?a" "pkt_wire ?a = NetLib_wire ?a"
      using ack(2) by (auto simp: sent_form_def stamp_def packet_setters NetLib_wf_def pkt_inv_def
          pkt_wire_def)
    have c: "content ?a = ack_content" using ack(3) by simp
    have "send_ack env now sock k MakeAck_NetLibPacket = (Inr (), transmit k (NetLib_wire ?a) sock, k)"
      using k ack(4,5) a(2) by (simp add: send_ack_def ack(1) SendPacket_cases [OF assms(1) wf] can_send_def Let_def)
    then show ?thesis using sent_contents_wire [OF assms(1) a(1)] c by auto
  qed
  have H: "HandlePacketSequence env now sock h pkt MakeAck_NetLibPacket = (b, s, k) \<Longrightarrow>
      b = Inr (\<not> duplicate h pkt) \<and> can_send env k \<and>
      sent_contents env (sock_sent s) = sent_contents env (sock_sent sock)" for pkt b s k
  proof -
    assume eq: "HandlePacketSequence env now sock h pkt MakeAck_NetLibPacket = (b, s, k)"
    define h' where "h' = (if duplicate h pkt then h else accept env h pkt)"
    have "can_send env h'" using assms(2) by (simp add: h'_def)
    from send [OF this] obtain ps where
      "send_ack env now sock h' MakeAck_NetLibPacket = (Inr (), transmit h' ps sock, h')"
      "sent_contents env [(m_Address h', m_Port h', ps)] = []" by blast
    moreover have "(if \<not> duplicate h pkt then accept env h pkt else h) = h'" by (simp add: h'_def)
    ultimately show ?thesis
      using eq \<open>can_send env h'\<close> unfolding HandlePacketSequence_eq Let_def
      by (auto simp: transmit_def split: if_splits)
  qed
  show ?thesis
    using assms(2,3) by (auto simp: ReadNetLibPacket_def dest: H split: result_splits bool.splits)
qed

lemma Read_sent: "ASIOSocket_Read sock buff n = (buff', sock') \<Longrightarrow> sock_sent sock' = sock_sent sock"
  by (auto simp: ASIOSocket_Read_def split: list.splits)

lemma receive_loop_sends:
  assumes "alloc_ok env"
  shows "can_send env (cn_handler c) \<Longrightarrow> receive_loop env now fuel c = Some (r, c') \<Longrightarrow>
    r \<noteq> Inl (ClientTimeout who) \<and> can_send env (cn_handler c') \<and>
    sent_contents env (sock_sent (cn_sock c')) = sent_contents env (sock_sent (cn_sock c)) \<and>
    serverthread_pkt (cn_q c') = serverthread_pkt (cn_q c)"
proof (induction fuel arbitrary: c)
  case 0
  then show ?case by (auto simp: receive_loop.simps [of _ _ 0] split: if_splits)
next
  case (Suc fuel)
  obtain g sock h where rd: "ReadNetLibPacket env now (cn_sock c) (cn_handler c) (cn_buff c) = (g, sock, h)"
    by (cases "ReadNetLibPacket env now (cn_sock c) (cn_handler c) (cn_buff c)") auto
  note st = ReadNetLibPacket_sock [OF assms Suc.prems(1) rd]
  obtain b2 s2 where rd2: "ASIOSocket_Read sock (cn_buff c) 4096 = (b2, s2)"
    by (cases "ASIOSocket_Read sock (cn_buff c) 4096") auto
  have go_on: "receive_loop env now fuel (c\<lparr>cn_handler := h, cn_q := q, cn_buff := b2, cn_sock := s2\<rparr>) = Some (r, c') \<Longrightarrow>
      serverthread_pkt q = serverthread_pkt (cn_q c) \<Longrightarrow> ?case" for q
    using Suc.IH [of "c\<lparr>cn_handler := h, cn_q := q, cn_buff := b2, cn_sock := s2\<rparr>"] st Read_sent [OF rd2] by simp
  show ?case
  proof (cases "LastReadCount (cn_sock c) = 0")
    case True
    then show ?thesis using Suc.prems by (auto simp: receive_loop.simps [of _ _ "Suc fuel"])
  next
    case False
    note eq = Suc.prems(2) [unfolded receive_loop.simps [of _ _ "Suc fuel"]]
    show ?thesis
    proof (cases g)
      case (Inl e)
      then show ?thesis using eq False st Suc.prems(1) by (auto simp: rd)
    next
      case (Inr got)
      show ?thesis
      proof (cases got)
        case None
        then have "receive_loop env now fuel (c\<lparr>cn_handler := h, cn_q := cn_q c, cn_buff := b2, cn_sock := s2\<rparr>) = Some (r, c')"
          using eq False by (simp add: rd Inr rd2 Let_def)
        then show ?thesis by (rule go_on) simp
      next
        case (Some pkt)
        show ?thesis
        proof (cases "TransferPacket env pkt (cn_q c)")
          case (Inl e)
          then show ?thesis using eq False st by (auto simp: rd Inr \<open>g = Inr got\<close> Some Let_def)
        next
          case (Inr q)
          then have "receive_loop env now fuel (c\<lparr>cn_handler := h, cn_q := q, cn_buff := b2, cn_sock := s2\<rparr>) = Some (r, c')"
            using eq False by (simp add: rd \<open>g = Inr got\<close> Some rd2 Let_def)
          moreover have "serverthread_pkt q = serverthread_pkt (cn_q c)"
            using TransferPacket_keeps [OF Inr] by auto
          ultimately show ?thesis by (rule go_on)
        qed
      qed
    qed
  qed
qed

lemma conn_round_sends:
  assumes "alloc_ok env" "can_send env (cn_handler c)" "list_all game_pkt (serverthread_pkt (cn_q c))"
    and "conn_round env now c = Some (Inr (b, c'))"
  shows "b \<and> can_send env (cn_handler c') \<and> serverthread_pkt (cn_q c') = [] \<and>
    sent_contents env (sock_sent (cn_sock c')) =
      sent_contents env (sock_sent (cn_sock c)) @ map content (serverthread_pkt (cn_q c))"
proof -
  let ?pkts = "serverthread_pkt (cn_q c)" and ?h = "cn_handler c"
  have fresh: "list_all fresh ?pkts" using assms(3) by (auto simp: game_pkt_def list_all_iff)
  let ?sent = "fst (stamped env now ?h ?pkts)" and ?h' = "snd (stamped env now ?h ?pkts)"
  let ?sock = "transmit_all ?h (map pkt_wire ?sent) (cn_sock c)"
  have all: "send_all env now ?pkts (cn_sock c) ?h = (Inr (), [], ?sock, ?h')"
    by (rule send_all_ok [OF assms(1,2) fresh])
  note facts = stamped_facts [OF fresh, of env now ?h]
  have sc: "sent_contents env (sock_sent ?sock) =
      sent_contents env (sock_sent (cn_sock c)) @ map content ?pkts"
    using sent_contents_all [OF assms(1) _ _ assms(3), of ?sent "m_Address ?h" "m_Port ?h"] facts
    by (simp add: transmit_all_def)
  have cs: "can_send env ?h'"
    using assms(2) stamped_handler [of env now ?h ?pkts] by (simp add: can_send_def)
  obtain buff s2 where rd: "ASIOSocket_Read ?sock (cn_buff c) 4096 = (buff, s2)"
    by (cases "ASIOSocket_Read ?sock (cn_buff c) 4096") auto
  let ?c = "c\<lparr>cn_handler := ?h', cn_q := (cn_q c)\<lparr>serverthread_pkt := []\<rparr>, cn_buff := buff, cn_sock := s2\<rparr>"
  have body: "conn_body env now c = receive_loop env now (Suc (length (sock_inbox s2))) ?c"
    by (simp add: conn_body_def all rd Let_def)
  obtain r c1 where r: "receive_loop env now (Suc (length (sock_inbox s2))) ?c = Some (r, c1)"
    using assms(4) by (auto simp: conn_round_def body split: option.splits)
  have "r \<noteq> Inl (ClientTimeout who)" and st: "can_send env (cn_handler c1)"
    "sent_contents env (sock_sent (cn_sock c1)) = sent_contents env (sock_sent s2)"
    "serverthread_pkt (cn_q c1) = []" for who
    using receive_loop_sends [OF assms(1) _ r, of who] cs by auto
  then have "b \<and> c' = c1"
    using assms(4) by (auto simp: conn_round_def body r split: sum.splits fault.splits)
  then show ?thesis using st sc Read_sent [OF rd] by simp
qed

lemma conn_run_sends:
  assumes "alloc_ok env"
  shows "can_send env (cn_handler c) \<Longrightarrow> list_all game_pkt (serverthread_pkt (cn_q c)) \<Longrightarrow>
    list_all (\<lambda>m. list_all game_pkt (cm_pkts m)) ms \<Longrightarrow> ms \<noteq> [] \<Longrightarrow>
    conn_run env ms c = Some (Inr (b, c')) \<Longrightarrow>
    b \<and> serverthread_pkt (cn_q c') = [] \<and> sent_contents env (sock_sent (cn_sock c')) =
      sent_contents env (sock_sent (cn_sock c)) @
      map content (serverthread_pkt (cn_q c) @ concat (map cm_pkts ms))"
proof (induction ms arbitrary: c)
  case (Cons m ms)
  let ?c = "conn_arrive m c"
  have c: "can_send env (cn_handler ?c)" "list_all game_pkt (serverthread_pkt (cn_q ?c))"
    "sock_sent (cn_sock ?c) = sock_sent (cn_sock c)"
    "serverthread_pkt (cn_q ?c) = serverthread_pkt (cn_q c) @ cm_pkts m"
    using Cons.prems(1-3) by (simp_all add: conn_arrive_def can_send_def)
  obtain b1 c1 where r: "conn_round env (cm_now m) ?c = Some (Inr (b1, c1))"
    using Cons.prems(5) by (auto split: option.splits sum.splits)
  note st = conn_round_sends [OF assms c(1,2) r]
  then have run: "conn_run env ms c1 = Some (Inr (b, c'))" using Cons.prems(5) r by simp
  show ?case
  proof (cases "ms = []")
    case True
    then show ?thesis using run st c by simp
  next
    case False
    then show ?thesis using Cons.IH [OF _ _ _ False run] st Cons.prems(3) c by simp
  qed
qed simp

section \<open>What reaches the console\<close>

text \<open>The packets of a series of datagrams that are not duplicates of earlier ones.\<close>

fun delivered :: "env \<Rightarrow> UDPHandler \<Rightarrow> AbstractPacket list \<Rightarrow> AbstractPacket list \<times> UDPHandler" where
  "delivered env h [] = ([], h)"
| "delivered env h (p # ps) =
     (if duplicate h p then delivered env h ps
      else let (qs, h) = delivered env (accept env h (unsent p)) ps in (unsent p # qs, h))"

lemma duplicate_unsent [simp]: "duplicate h (unsent p) = duplicate h p"
  by (simp add: duplicate_def)

lemma ReadNetLibPacket_wire:
  assumes "alloc_ok env" "can_send env h" "NetLib_wf p"
  shows "\<exists>sock'. ReadNetLibPacket env now sock h (NetLib_wire p @ rest) =
      (Inr (if duplicate h p then None else Some (unsent p)), sock',
       if duplicate h p then h else accept env h (unsent p)) \<and> sock_inbox sock' = sock_inbox sock"
proof -
  obtain r s k where H: "HandlePacketSequence env now sock h (unsent p) MakeAck_NetLibPacket = (r, s, k)"
    by (cases "HandlePacketSequence env now sock h (unsent p) MakeAck_NetLibPacket") auto
  have "r = Inr (\<not> duplicate h p)" "k = (if duplicate h p then h else accept env h (unsent p))"
    using HandlePacketSequence_result [OF assms(1) is_ackmaker(2) assms(2), of now sock "unsent p"]
      HandlePacketSequence_state [OF assms(1) is_ackmaker(2), of now sock h "unsent p"] H by simp_all
  moreover have "IsNetLibPacket (NetLib_wire p @ rest) = Inr True"
    by (simp add: IsNetLibPacket_def NetLib_wire_def)
  ultimately show ?thesis
    using HandlePacketSequence_inbox [OF H]
    by (simp add: ReadNetLibPacket_def H NetLib_decode_wire [OF assms(1,3)])
qed

lemma TransferPacket_wire:
  assumes "alloc_ok env" "NetLib_wf p"
  shows "TransferPacket env (unsent p) q = Inr (q\<lparr>usbthread_pkt := usbthread_pkt q @ [Some (unsent p)]\<rparr>)"
proof -
  have "pkt_wf (unsent p)" "pkt_wire (unsent p) = NetLib_wire p"
    using assms(2) by (auto simp: pkt_wf_def pkt_wire_def NetLib_wf_def pkt_inv_def NetLib_wire_def)
  then show ?thesis
    using GetAsBytes_wire [OF assms(1), of "unsent p"] NetLib_decode_wire [OF assms, of "[]"]
    by (simp add: TransferPacket_def)
qed

definition datagram_ok :: "AbstractPacket \<Rightarrow> bool" where
  "datagram_ok p \<longleftrightarrow> NetLib_wf p \<and> length (NetLib_wire p) \<le> 4096"

lemma NetLib_wire_ne [simp]: "NetLib_wire p \<noteq> []"
  by (simp add: NetLib_wire_def header_simps)

lemma Read_wire:
  assumes "sock_inbox sock = map NetLib_wire (p # ps)" "datagram_ok p"
  shows "\<exists>buff' sock'. ASIOSocket_Read sock buff 4096 = (NetLib_wire p @ buff', sock') \<and>
    sock_inbox sock' = map NetLib_wire ps \<and> LastReadCount sock' \<noteq> 0"
  using assms by (simp add: ASIOSocket_Read_def datagram_ok_def LastReadCount_def)

lemma Read_none:
  "sock_inbox sock = [] \<Longrightarrow> ASIOSocket_Read sock buff n = (buff, sock\<lparr>m_LastReadCount := 0\<rparr>)"
  by (simp add: ASIOSocket_Read_def)

lemma receive_loop_wire:
  assumes "alloc_ok env"
  shows "LastReadCount (cn_sock c) \<noteq> 0 \<Longrightarrow> cn_buff c = NetLib_wire p @ rest \<Longrightarrow>
    sock_inbox (cn_sock c) = map NetLib_wire ps \<Longrightarrow> list_all datagram_ok (p # ps) \<Longrightarrow>
    can_send env (cn_handler c) \<Longrightarrow> length ps < fuel \<Longrightarrow>
    \<exists>c'. receive_loop env now fuel c = Some (Inr (), c') \<and> sock_inbox (cn_sock c') = [] \<and>
      cn_handler c' = snd (delivered env (cn_handler c) (p # ps)) \<and>
      cn_q c' = (cn_q c)\<lparr>usbthread_pkt := usbthread_pkt (cn_q c) @
        map Some (fst (delivered env (cn_handler c) (p # ps)))\<rparr>"
proof (induction ps arbitrary: c p rest fuel)
  case Nil
  obtain n where fuel: "fuel = Suc n" using Nil.prems(6) by (cases fuel) auto
  have wf: "NetLib_wf p" using Nil.prems(4) by (simp add: datagram_ok_def)
  obtain sock where rd: "ReadNetLibPacket env now (cn_sock c) (cn_handler c) (NetLib_wire p @ rest) =
      (Inr (if duplicate (cn_handler c) p then None else Some (unsent p)), sock,
       if duplicate (cn_handler c) p then cn_handler c else accept env (cn_handler c) (unsent p))"
    "sock_inbox sock = []"
    using ReadNetLibPacket_wire [OF assms Nil.prems(5) wf, of now "cn_sock c" rest] Nil.prems(3) by auto
  show ?case
    using Nil.prems(1,2) by (simp add: fuel receive_loop.simps [of _ _ "Suc n"] rd(1) Let_def Read_none [OF rd(2)]
        TransferPacket_wire [OF assms wf] receive_loop.simps [of _ _ n] LastReadCount_def rd(2))
next
  case (Cons p2 ps)
  obtain n where fuel: "fuel = Suc n" using Cons.prems(6) by (cases fuel) auto
  have wf: "NetLib_wf p" using Cons.prems(4) by (simp add: datagram_ok_def)
  let ?h = "if duplicate (cn_handler c) p then cn_handler c else accept env (cn_handler c) (unsent p)"
  let ?q = "if duplicate (cn_handler c) p then cn_q c
    else (cn_q c)\<lparr>usbthread_pkt := usbthread_pkt (cn_q c) @ [Some (unsent p)]\<rparr>"
  obtain sock where rd: "ReadNetLibPacket env now (cn_sock c) (cn_handler c) (NetLib_wire p @ rest) =
      (Inr (if duplicate (cn_handler c) p then None else Some (unsent p)), sock, ?h)"
    "sock_inbox sock = map NetLib_wire (p2 # ps)"
    using ReadNetLibPacket_wire [OF assms Cons.prems(5) wf, of now "cn_sock c" rest] Cons.prems(3) by auto
  have ok: "datagram_ok p2" using Cons.prems(4) by simp
  obtain b2 s2 where rd2: "ASIOSocket_Read sock (NetLib_wire p @ rest) 4096 = (NetLib_wire p2 @ b2, s2)"
      "sock_inbox s2 = map NetLib_wire ps" "LastReadCount s2 \<noteq> 0"
    using Read_wire [OF rd(2) ok, of "NetLib_wire p @ rest"] by auto
  let ?c = "c\<lparr>cn_handler := ?h, cn_q := ?q, cn_buff := NetLib_wire p2 @ b2, cn_sock := s2\<rparr>"
  have step: "receive_loop env now fuel c = receive_loop env now n ?c"
    using Cons.prems(1,2) by (simp add: fuel receive_loop.simps [of _ _ "Suc n"] rd(1) Let_def rd2(1)
        TransferPacket_wire [OF assms wf])
  have "\<exists>c'. receive_loop env now n ?c = Some (Inr (), c') \<and> sock_inbox (cn_sock c') = [] \<and>
      cn_handler c' = snd (delivered env ?h (p2 # ps)) \<and>
      cn_q c' = ?q\<lparr>usbthread_pkt := usbthread_pkt ?q @ map Some (fst (delivered env ?h (p2 # ps)))\<rparr>"
    using Cons.IH [of ?c p2 b2 n] rd2 Cons.prems(4,5,6) fuel by simp
  then show ?case unfolding step by (auto simp: Let_def split_beta)
qed

text \<open>One round exactly: the queue to the server is sent, and of what came in the new packets go
  to the queue for the console.\<close>

lemma conn_round_exact:
  assumes "alloc_ok env" "can_send env (cn_handler c)" "list_all fresh (serverthread_pkt (cn_q c))"
    and "sock_inbox (cn_sock c) = map NetLib_wire ps" "list_all datagram_ok ps"
    and "stamped env now (cn_handler c) (serverthread_pkt (cn_q c)) = (sent, h)"
    and "delivered env h ps = (got, h')"
  shows "\<exists>c'. conn_round env now c = Some (Inr (True, c')) \<and> cn_handler c' = h' \<and>
    sock_inbox (cn_sock c') = [] \<and>
    cn_q c' = (cn_q c)\<lparr>serverthread_pkt := [], usbthread_pkt := usbthread_pkt (cn_q c) @ map Some got\<rparr> \<and>
    (ps = [] \<longrightarrow> sock_sent (cn_sock c') =
       sock_sent (transmit_all (cn_handler c) (map pkt_wire sent) (cn_sock c)))"
proof -
  let ?sock = "transmit_all (cn_handler c) (map pkt_wire sent) (cn_sock c)"
  have all: "send_all env now (serverthread_pkt (cn_q c)) (cn_sock c) (cn_handler c) = (Inr (), [], ?sock, h)"
    using send_all_ok [OF assms(1-3), of now "cn_sock c"] assms(6) by simp
  have cs: "can_send env h"
    using assms(2,6) stamped_handler [of env now "cn_handler c" "serverthread_pkt (cn_q c)"]
    by (simp add: can_send_def)
  show ?thesis
  proof (cases ps)
    case Nil
    then have "sock_inbox ?sock = []" using assms(4) by (simp add: transmit_all_def)
    then show ?thesis
      using assms(7) Nil by (simp add: conn_round_def conn_body_def all Let_def Read_none receive_loop.simps
          LastReadCount_def)
  next
    case (Cons p ps')
    then have "sock_inbox ?sock = map NetLib_wire (p # ps')" "datagram_ok p"
      using assms(4,5) by (simp_all add: transmit_all_def)
    from Read_wire [OF this, of "cn_buff c"] obtain b2 s2 where
      rd: "ASIOSocket_Read ?sock (cn_buff c) 4096 = (NetLib_wire p @ b2, s2)"
      "sock_inbox s2 = map NetLib_wire ps'" "LastReadCount s2 \<noteq> 0" by blast
    let ?c = "c\<lparr>cn_handler := h, cn_q := (cn_q c)\<lparr>serverthread_pkt := []\<rparr>, cn_buff := NetLib_wire p @ b2, cn_sock := s2\<rparr>"
    have "\<exists>c'. receive_loop env now (Suc (length (sock_inbox s2))) ?c = Some (Inr (), c') \<and>
      sock_inbox (cn_sock c') = [] \<and> cn_handler c' = h' \<and>
      cn_q c' = (cn_q c)\<lparr>serverthread_pkt := [], usbthread_pkt := usbthread_pkt (cn_q c) @ map Some got\<rparr>"
      using receive_loop_wire [OF assms(1), of ?c p b2 ps' "Suc (length (sock_inbox s2))" now]
        rd cs assms(5,7) Cons by simp
    then show ?thesis
      using Cons by (auto simp: conn_round_def conn_body_def all Let_def rd(1))
  qed
qed

lemma delivered_all:
  "distinct (seqs ps) \<Longrightarrow> \<forall>p \<in> set ps. \<not> duplicate h p \<Longrightarrow> fst (delivered env h ps) = map unsent ps"
proof (induction ps arbitrary: h)
  case (Cons p ps)
  have rx: "set (seqs (m_AcksLeft_RX (accept env h (unsent p)))) \<subseteq>
      insert (m_SequenceNum p) (set (seqs (m_AcksLeft_RX h)))"
    using set_push_received [of "unsent p" "m_AcksLeft_RX h"] by (auto simp: accept_def)
  have "\<not> duplicate (accept env h (unsent p)) q" if q: "q \<in> set ps" for q
  proof -
    have "m_SequenceNum q \<noteq> m_SequenceNum p" "m_SequenceNum q \<notin> set (seqs (m_AcksLeft_RX h))"
      using Cons.prems q by (auto simp: duplicate_def rev_image_eqI)
    with rx show ?thesis unfolding duplicate_def by blast
  qed
  then have "fst (delivered env (accept env h (unsent p)) ps) = map unsent ps"
    using Cons by simp
  then show ?case using Cons.prems by (simp add: split_beta Let_def)
qed simp

section \<open>Properties\<close>

text \<open>Every round of the connection thread returns: whatever is queued and whatever arrives,
  the loop over the datagrams ends, since each turn takes one out of the socket.\<close>

theorem connection_round_returns: "conn_round env now c \<noteq> None"
proof -
  have loop: "receive_loop env now (Suc (length (sock_inbox s))) (k\<lparr>cn_buff := b, cn_sock := s\<rparr>) \<noteq> None"
    for s k b by (rule receive_loop_ends) simp
  obtain r pkts sock h where all:
    "send_all env now (serverthread_pkt (cn_q c)) (cn_sock c) (cn_handler c) = (r, pkts, sock, h)"
    by (cases "send_all env now (serverthread_pkt (cn_q c)) (cn_sock c) (cn_handler c)") auto
  have "conn_body env now c \<noteq> None"
    by (cases r; cases "ASIOSocket_Read sock (cn_buff c) 4096")
      (simp_all add: conn_body_def all loop del: not_None_eq)
  then obtain r1 c1 where body: "conn_body env now c = Some (r1, c1)" by auto
  show ?thesis
  proof (cases r1)
    case (Inl e)
    then show ?thesis by (cases e) (simp_all add: conn_round_def body)
  qed (simp add: conn_round_def body)
qed

text \<open>C21: as long as no exception ends the program, the packets the connection thread has sent,
  apart from its own acks, are exactly the packets the console has queued, each once and in order, whatever comes in
  from the server meanwhile; the thread never gives up on the server, and never notices that it
  is gone.\<close>

theorem relay_sends_in_order:
  assumes "alloc_ok env" "\<forall>a p d. env_send env a p d" "ms \<noteq> []"
    and "list_all game_pkt (serverthread_pkt q)" "list_all (\<lambda>m. list_all game_pkt (cm_pkts m)) ms"
    and "ServerConnectionThread_Entry env w memory ms q = Some (Inr (running, c))"
  shows "running \<and> serverthread_pkt (cn_q c) = [] \<and>
    sent_contents env (sock_sent (cn_sock c)) = map content (serverthread_pkt q @ concat (map cm_pkts ms))"
  using conn_run_sends [OF assms(1) _ _ assms(5,3) assms(6) [unfolded ServerConnectionThread_Entry_def]] assms(2,4)
  by (simp add: can_send_def post_event_def new_ASIOSocket_def)

text \<open>In a round without exception the packets that arrive, sent by the server and no
  duplicates, are appended in order to the queue for the console, and the queue of the console's
  packets is emptied; with nothing arriving, exactly their datagrams are sent, numbered from the
  handler's next number.\<close>

theorem relay_round_delivers:
  assumes "alloc_ok env" "can_send env (cn_handler c)" "list_all game_pkt (serverthread_pkt (cn_q c))"
    and "sock_inbox (cn_sock c) = map NetLib_wire ps" "list_all datagram_ok ps"
    and "distinct (seqs ps)" "\<forall>p \<in> set ps. m_SequenceNum p \<notin> set (seqs (m_AcksLeft_RX (cn_handler c)))"
  shows "\<exists>c'. conn_round env now c = Some (Inr (True, c')) \<and> serverthread_pkt (cn_q c') = [] \<and>
    usbthread_pkt (cn_q c') = usbthread_pkt (cn_q c) @ map (Some \<circ> unsent) ps \<and>
    (ps = [] \<longrightarrow> (\<exists>sent. sock_sent (cn_sock c') = sock_sent (cn_sock c) @
         map (\<lambda>p. (m_Address (cn_handler c), m_Port (cn_handler c), NetLib_wire p)) sent \<and>
       map content sent = map content (serverthread_pkt (cn_q c)) \<and>
       seqs sent = numbers (m_LocalSeqNum (cn_handler c)) (serverthread_pkt (cn_q c))))"
proof -
  let ?pkts = "serverthread_pkt (cn_q c)"
  obtain sent h where st: "stamped env now (cn_handler c) ?pkts = (sent, h)" by fastforce
  have fresh: "list_all fresh ?pkts" using assms(3) by (auto simp: game_pkt_def list_all_iff)
  note facts = stamped_facts [OF fresh, of env now "cn_handler c", unfolded st fst_conv]
  have rx: "m_AcksLeft_RX h = m_AcksLeft_RX (cn_handler c)"
    using stamped_handler [of env now "cn_handler c" ?pkts] st by simp
  obtain got h' where got: "delivered env h ps = (got, h')" by fastforce
  have "got = map unsent ps"
    using delivered_all [OF assms(6), of h env] assms(7) rx got by (simp add: duplicate_def)
  have wires: "map pkt_wire sent = map NetLib_wire sent"
  proof -
    have "pkt_wire p = NetLib_wire p" if "p \<in> set sent" for p
    proof -
      have "content p \<in> content ` set ?pkts" using facts that by (metis image_eqI list.set_map)
      then obtain pkt where "pkt \<in> set ?pkts" "content p = content pkt" by blast
      then show ?thesis
        using game_pkt_wire(1) [of pkt p] assms(3) facts that by (auto simp: list_all_iff)
    qed
    then show ?thesis by simp
  qed
  obtain c' where c': "conn_round env now c = Some (Inr (True, c'))"
    "cn_q c' = (cn_q c)\<lparr>serverthread_pkt := [], usbthread_pkt := usbthread_pkt (cn_q c) @ map Some got\<rparr>"
    "ps = [] \<Longrightarrow> sock_sent (cn_sock c') =
       sock_sent (transmit_all (cn_handler c) (map pkt_wire sent) (cn_sock c))"
    using conn_round_exact [OF assms(1,2) fresh assms(4,5) st got] by blast
  have "sock_sent (transmit_all (cn_handler c) (map pkt_wire sent) (cn_sock c)) = sock_sent (cn_sock c) @
      map (\<lambda>p. (m_Address (cn_handler c), m_Port (cn_handler c), NetLib_wire p)) sent"
    unfolding wires by (simp add: transmit_all_def)
  with c' facts \<open>got = map unsent ps\<close> show ?thesis
    by (intro exI [of _ c']) (auto intro!: exI [of _ sent])
qed

text \<open>While nothing is queued and nothing arrives, the thread does nothing, however long the
  packets it has sent wait for their acknowledgement: the connection thread never calls
  \<open>ResendMissingPackets\<close>, so a reliable packet that the network loses stays lost.\<close>

theorem lost_packets_stay_lost:
  assumes "serverthread_pkt (cn_q c) = []" "sock_inbox (cn_sock c) = []"
    and "\<forall>m \<in> set ms. cm_pkts m = [] \<and> cm_inbox m = []"
  shows "\<exists>c'. conn_run env ms c = Some (Inr (True, c')) \<and> cn_handler c' = cn_handler c \<and>
    sock_sent (cn_sock c') = sock_sent (cn_sock c)"
  using assms
proof (induction ms arbitrary: c)
  case (Cons m ms)
  let ?c = "conn_arrive m c"
  have c: "serverthread_pkt (cn_q ?c) = []" "sock_inbox (cn_sock ?c) = []" "cn_handler ?c = cn_handler c"
    "sock_sent (cn_sock ?c) = sock_sent (cn_sock c)"
    using Cons.prems by (simp_all add: conn_arrive_def)
  let ?d = "?c\<lparr>cn_sock := (cn_sock ?c)\<lparr>m_LastReadCount := 0\<rparr>,
    cn_q := (cn_q ?c)\<lparr>serverthread_pkt := []\<rparr>\<rparr>"
  have r: "conn_round env (cm_now m) ?c = Some (Inr (True, ?d))"
    using c by (simp add: conn_round_def conn_body_def Read_none Let_def receive_loop.simps LastReadCount_def)
  have "\<exists>c'. conn_run env ms ?d = Some (Inr (True, c')) \<and> cn_handler c' = cn_handler ?d \<and>
      sock_sent (cn_sock c') = sock_sent (cn_sock ?d)"
    by (rule Cons.IH) (use c Cons.prems in simp_all)
  then show ?case using r c by simp
qed simp

text \<open>A connection with one packet queued, and moments at which nothing happens.\<close>

definition sample_conn :: conn where
  "sample_conn = \<lparr>cn_sock = new_ASIOSocket ''host'' 6464, cn_handler = new_UDPHandler ''host'' 6464,
     cn_buff = [], cn_q = \<lparr>usbthread_pkt = [], serverthread_pkt = [sample_pkt], usbthread_input = [],
       window_events = []\<rparr>\<rparr>"

text \<open>The answer the games give to a heartbeat.\<close>

definition heartbeat_answer :: AbstractPacket where
  "heartbeat_answer = sample_pkt\<lparr>m_Derived := NetLib 0 0, m_Flags := 0, m_Data := [], m_Size := 0\<rparr>"

lemma heartbeat_answer_game: "game_pkt heartbeat_answer"
  by (simp add: game_pkt_def fresh_def pkt_wf_def NetLib_wf_def pkt_inv_def heartbeat_answer_def sample_pkt_def
      content_def ack_content_def FLAG_UNRELIABLE_def NETLIBPACKET_VERSION_def)

definition idle_moment :: "int \<Rightarrow> conn_moment" where
  "idle_moment now = \<lparr>cm_now = now, cm_pkts = [], cm_inbox = [], cm_taken = 0\<rparr>"

lemma sample_game_pkt: "game_pkt sample_pkt"
  using sample_wf(1) by (simp add: game_pkt_def fresh_def pkt_wf_def sample_pkt_def content_def ack_content_def)

definition queued_twice :: queues where
  "queued_twice = (cn_q sample_conn)\<lparr>serverthread_pkt := [sample_pkt, heartbeat_answer]\<rparr>"

lemma relay_sends_in_order_witness:
  "\<exists>c. ServerConnectionThread_Entry env_x86 (SetAddress ''host'' (new_ClientWindow 6464)) [] [idle_moment 5]
     queued_twice = Some (Inr (True, c)) \<and>
   sent_contents env_x86 (sock_sent (cn_sock c)) = [(NetLib 10 0, 0, [7, 8]), (NetLib 0 0, 0, [])]"
proof -
  let ?w = "SetAddress ''host'' (new_ClientWindow 6464)"
  let ?c = "\<lparr>cn_sock = new_ASIOSocket ''host'' 6464, cn_handler = new_UDPHandler ''host'' 6464, cn_buff = [],
    cn_q = post_event (TEVENT_WRITECONSOLE (''Establishing connection to server once ROM is ready.'' @ endl)) queued_twice\<rparr>"
  have fresh: "list_all fresh (serverthread_pkt queued_twice)"
    using sample_game_pkt heartbeat_answer_game by (simp add: queued_twice_def game_pkt_def)
  obtain sent h where "stamped env_x86 5 (cn_handler ?c) (serverthread_pkt (cn_q ?c)) = (sent, h)" by fastforce
  then have "\<exists>c'. conn_round env_x86 5 ?c = Some (Inr (True, c'))"
    using conn_round_exact [of env_x86 ?c "[]" 5 sent h "[]" h] fresh
    by (auto simp: post_event_def new_ASIOSocket_def)
  then obtain c where c: "ServerConnectionThread_Entry env_x86 ?w [] [idle_moment 5] queued_twice = Some (Inr (True, c))"
    by (auto simp: ServerConnectionThread_Entry_def idle_moment_def conn_arrive_def SetAddress_def
        new_ClientWindow_def ClientWindow_GetAddress_def ClientWindow_GetPort_def post_event_def
        new_ASIOSocket_def)
  from relay_sends_in_order [OF _ _ _ _ _ c] show ?thesis
    using c sample_game_pkt heartbeat_answer_game
    by (simp add: queued_twice_def idle_moment_def content_def sample_pkt_def heartbeat_answer_def)
qed

lemma relay_round_delivers_witness:
  "\<exists>c. conn_round env_x86 5 (sample_conn\<lparr>cn_sock := (new_ASIOSocket ''host'' 6464)
       \<lparr>sock_inbox := [NetLib_wire (sample_pkt\<lparr>m_SequenceNum := 3\<rparr>)]\<rparr>\<rparr>) = Some (Inr (True, c)) \<and>
     usbthread_pkt (cn_q c) = [Some (sample_pkt\<lparr>m_SequenceNum := 3\<rparr>)]"
proof -
  let ?p = "sample_pkt\<lparr>m_SequenceNum := 3\<rparr>"
  let ?c = "sample_conn\<lparr>cn_sock := (new_ASIOSocket ''host'' 6464)\<lparr>sock_inbox := [NetLib_wire ?p]\<rparr>\<rparr>"
  have wf: "NetLib_wf ?p" using sample_wf(1) by (simp add: NetLib_wf_def pkt_inv_def)
  moreover have "length (NetLib_wire ?p) = 20" using wf length_wire(1) [of ?p] by (simp add: NetLib_wf_def sample_pkt_def)
  ultimately have ok: "datagram_ok ?p" by (simp add: datagram_ok_def)
  have "unsent ?p = ?p" by (simp add: unsent_def sample_pkt_def)
  then show ?thesis
    using relay_round_delivers [of env_x86 ?c "[?p]" 5] ok sample_game_pkt
    by (auto simp: sample_conn_def new_UDPHandler_def)
qed

lemma lost_packets_stay_lost_witness:
  "\<exists>c'. conn_run env_x86 [idle_moment 1000000, idle_moment 2000000]
     (sample_conn\<lparr>cn_handler := (new_UDPHandler ''host'' 6464)\<lparr>m_AcksLeft_TX := [sample_pkt]\<rparr>,
        cn_q := (cn_q sample_conn)\<lparr>serverthread_pkt := []\<rparr>\<rparr>) = Some (Inr (True, c')) \<and>
     m_AcksLeft_TX (cn_handler c') = [sample_pkt] \<and> sock_sent (cn_sock c') = []"
  using lost_packets_stay_lost [of "sample_conn\<lparr>cn_handler := (new_UDPHandler ''host'' 6464)
      \<lparr>m_AcksLeft_TX := [sample_pkt]\<rparr>, cn_q := (cn_q sample_conn)\<lparr>serverthread_pkt := []\<rparr>\<rparr>"
      "[idle_moment 1000000, idle_moment 2000000]" env_x86]
  by (auto simp: sample_conn_def idle_moment_def new_ASIOSocket_def)

end
