(* ===== verification/NL_Browser.thy ===== *)
theory NL_Browser
  imports NL_Finder NL_Client
begin

text \<open>
  \<open>ServerBrowser\<close> and \<open>ManualConnectWindow\<close> of \<^verbatim>\<open>Client App/serverbrowser.cpp\<close>: the window
  with the list of servers, its handlers, and how it starts the finder thread, a ROM download
  and the client windows. The lemmas give what is shown for a server, what activating a row
  leads to in every case, the overruns of its buffers included, and the invariant that ties the
  list to its columns.
\<close>

section \<open>State\<close>

datatype ServerListColumn =
    COLUMN_PING
  | COLUMN_PLAYERCOUNT
  | COLUMN_ADDRESS
  | COLUMN_ROM
  | COLUMN_SERVERNAME
  | COLUMN_ROMHASH
  | COLUMN_ROMONMASTER

fun column :: "ServerListColumn \<Rightarrow> nat" where
  "column COLUMN_PING = 0"
| "column COLUMN_PLAYERCOUNT = 1"
| "column COLUMN_ADDRESS = 2"
| "column COLUMN_ROM = 3"
| "column COLUMN_SERVERNAME = 4"
| "column COLUMN_ROMHASH = 5"
| "column COLUMN_ROMONMASTER = 6"

text \<open>A column of the list: its title, whether it is hidden and whether it shows markup.\<close>

record list_column =
  lc_title :: wxString
  lc_hidden :: bool
  lc_markup :: bool

text \<open>
  The window with what it shares with the finder thread (the message queue, the disk, the
  progress window) and with the client windows it opens, the dialogs it has shown (caption and
  message) and the configuration file. The packet queues are globals, so all client windows
  share them; each has its own events. \<open>sb_lastrow\<close> is the static variable of \<open>OnMotion\<close>.
\<close>

record ServerBrowser =
  m_MasterAddress :: wxString
  m_MasterPort :: int
  m_FinderThread :: bool
  m_TextCtrl_MasterServerAddress :: wxString
  sb_columns :: "list_column list"
  m_DataViewListCtrl_Servers :: "wxString list list"
  sb_tooltip :: wxString
  sb_lastrow :: int
  m_DownloadWindow :: "ROMDownloadWindow option"
  sb_queue :: "InputMessage list"
  sb_config :: "wxString \<Rightarrow> wxString option"
  sb_dialogs :: "(wxString \<times> wxString) list"
  sb_clients :: "(ClientWindow \<times> client_event list) list"
  sb_queues :: queues
  sb_fs :: fs
  sb_open :: bool

text \<open>What the operating system and the user decide: whether threads start, and the answers.\<close>

record choices =
  ch_runs :: bool
  ch_yes :: bool
  ch_download :: int
  ch_ctx :: SHA256_CTX
  ch_stack :: "byte list"
  ch_garbage :: int

section \<open>The finder thread\<close>

definition StartThread_Finder :: "bool \<Rightarrow> ServerBrowser \<Rightarrow> ServerBrowser" where
  "StartThread_Finder runs b = (if \<not> m_FinderThread b then b\<lparr>m_FinderThread := runs\<rparr> else b)"

definition StopThread_Finder :: "ServerBrowser \<Rightarrow> ServerBrowser" where
  "StopThread_Finder b = (if m_FinderThread b then b\<lparr>m_FinderThread := False\<rparr> else b)"

definition post_message :: "InputMessage \<Rightarrow> ServerBrowser \<Rightarrow> ServerBrowser" where
  "post_message m b = b\<lparr>sb_queue := sb_queue b @ [m]\<rparr>"

definition ClearServers :: "ServerBrowser \<Rightarrow> ServerBrowser" where
  "ClearServers b = b\<lparr>m_DataViewListCtrl_Servers := []\<rparr>"

definition ConnectMaster :: "bool \<Rightarrow> ServerBrowser \<Rightarrow> ServerBrowser" where
  "ConnectMaster runs b =
     post_message \<lparr>im_type = TEVENT_DOLIST, im_data = None\<rparr>
       (StartThread_Finder runs (StopThread_Finder (ClearServers b)))"

definition RequestDownload ::
    "wxlib \<Rightarrow> env \<Rightarrow> choices \<Rightarrow> wxString \<Rightarrow> wxString \<Rightarrow> ServerBrowser \<Rightarrow> ServerBrowser result" where
  "RequestDownload wx env ch hash filepath b =
     rbind (download_messages wx env (ch_stack ch) hash filepath) (\<lambda>ms.
       Inr ((StartThread_Finder (ch_runs ch) b)\<lparr>sb_queue := sb_queue b @ ms\<rparr>))"

section \<open>Opening a client\<close>

definition CreateClient ::
    "wxlib \<Rightarrow> env \<Rightarrow> choices \<Rightarrow> wxString \<Rightarrow> wxString \<Rightarrow> ServerBrowser \<Rightarrow> ServerBrowser result" where
  "CreateClient wx env ch rom addressport b =
     (let cw = new_ClientWindow (ch_garbage ch);
          b = StopThread_Finder b;
          (address, port) = address_fromstr wx addressport (ch_garbage ch)
      in rbind (BeginWorking wx env (ch_runs ch) (ch_runs ch)
             (SetPortNumber port (SetAddress address (SetROM rom cw))) ((sb_queues b)\<lparr>window_events := []\<rparr>)) (\<lambda>(cw, q).
         Inr (b\<lparr>sb_clients := sb_clients b @ [(cw, window_events q)], sb_queues := q\<lparr>window_events := []\<rparr>\<rparr>)))"

text \<open>The window for manual connections, with the texts of its two controls.\<close>

definition m_Button_Connect_OnButtonClick ::
    "wxlib \<Rightarrow> env \<Rightarrow> choices \<Rightarrow> wxString \<Rightarrow> wxString \<Rightarrow> ServerBrowser \<Rightarrow> ServerBrowser result" where
  "m_Button_Connect_OnButtonClick wx env ch path address b =
     CreateClient wx env ch path address
       (b\<lparr>sb_config := (sb_config b)(''ManualAddress'' \<mapsto> address, ''ManualROMPath'' \<mapsto> path)\<rparr>)"

definition new_ManualConnectWindow :: "ServerBrowser \<Rightarrow> wxString \<times> wxString" where
  "new_ManualConnectWindow b =
     (case sb_config b ''ManualROMPath'' of None \<Rightarrow> [] | Some s \<Rightarrow> s,
      case sb_config b ''ManualAddress'' of None \<Rightarrow> [] | Some s \<Rightarrow> s)"

section \<open>Handlers\<close>

text \<open>The value of a cell; a row that does not exist is outside the store.\<close>

definition GetTextValue :: "ServerBrowser \<Rightarrow> nat \<Rightarrow> ServerListColumn \<Rightarrow> wxString result" where
  "GetTextValue b row col =
     (if row < length (m_DataViewListCtrl_Servers b) \<and>
         column col < length (m_DataViewListCtrl_Servers b ! row)
      then Inr (m_DataViewListCtrl_Servers b ! row ! column col) else Inl OutOfBounds)"

definition ShowDialog :: "wxString \<Rightarrow> wxString \<Rightarrow> ServerBrowser \<Rightarrow> ServerBrowser" where
  "ShowDialog caption message b = b\<lparr>sb_dialogs := sb_dialogs b @ [(caption, message)]\<rparr>"

definition quoted :: "wxString \<Rightarrow> wxString" where
  "quoted s = [CHR 0x27] @ s @ [CHR 0x27]"

text \<open>
  \<open>OnDataViewListCtrlItemActivated\<close> for the selected row; \<open>None\<close> would be a hash that does not
  end. The modal dialogs end with \<open>ch_yes\<close> and \<open>ch_download\<close>.
\<close>

definition ItemActivated ::
    "wxlib \<Rightarrow> env \<Rightarrow> choices \<Rightarrow> nat \<Rightarrow> ServerBrowser \<Rightarrow> ServerBrowser result option" where
  "ItemActivated wx env ch row b =
     (case rbind (GetTextValue b row COLUMN_ADDRESS) (\<lambda>serveraddr.
           rbind (GetTextValue b row COLUMN_ROM) (\<lambda>rom.
           rbind (GetTextValue b row COLUMN_ROMHASH) (\<lambda>romhash.
           rbind (GetTextValue b row COLUMN_ROMONMASTER) (\<lambda>onmaster.
             Inr (serveraddr, rom, romhash, onmaster))))) of
        Inl e \<Rightarrow> Some (Inl e)
      | Inr (serveraddr, rom, romhash, onmaster) \<Rightarrow>
         (let romname = get_sanitizedromname wx rom;
              (rompath, fs) = get_rompath wx (sb_fs b) romname;
              b = b\<lparr>sb_fs := fs\<rparr>;
              romavailable = onmaster = ''1''
          in if fs_files fs rompath \<noteq> None
             then (case is_samerom wx env (ch_ctx ch) fs romname romhash of
                     None \<Rightarrow> None
                   | Some (same, fs) \<Rightarrow>
                       let b = b\<lparr>sb_fs := fs\<rparr> in
                       Some (if \<not> same
                         then Inr (ShowDialog ''Bad ROM found'' (''This server requires the ROM '' @ quoted romname
                            @ '', which you have in your ROM folder, however your version differs from the one the server needs.''
                            @ endl @ endl @ ''Please remove or rename the ROM in order to download the correct one.'') b)
                         else CreateClient wx env ch rompath serveraddr b))
             else if romavailable
             then
               let b = ShowDialog ''Download ROM?'' (''In order to join this server, the ROM '' @ quoted romname
                   @ '' must be downloaded. This ROM is available to download from the Master Server.''
                   @ endl @ endl @ ''Continue?'') b
               in if ch_yes ch
                  then Some (rbind (RequestDownload wx env ch romhash rompath
                           (b\<lparr>m_DownloadWindow := Some new_ROMDownloadWindow\<rparr>)) (\<lambda>b.
                         if ch_download ch \<noteq> 1
                         then Inr (post_message \<lparr>im_type = TEVENT_CANCELDL, im_data = None\<rparr>
                                (ShowDialog ''ROM Download Failed'' ''ROM download was unsuccessful.'' b))
                         else CreateClient wx env ch rompath serveraddr b))
                  else Some (Inr b)
             else Some (Inr (ShowDialog ''ROM Unavailable'' (''This server requires the ROM '' @ quoted romname
                 @ '', which is not available for download from the master server.'' @ endl @ endl
                 @ ''In order to join this server, you must manually find and download the ROM, and place it in your ROMs folder.'') b))))"

definition MasterServerAddress_OnText :: "wxlib \<Rightarrow> wxString \<Rightarrow> ServerBrowser \<Rightarrow> ServerBrowser" where
  "MasterServerAddress_OnText wx str b =
     (case address_fromstr wx str (m_MasterPort b) of (address, port) \<Rightarrow>
        b\<lparr>m_TextCtrl_MasterServerAddress := str, m_MasterAddress := address, m_MasterPort := port,
          sb_config := (sb_config b)(''MasterAddress'' \<mapsto> str)\<rparr>)"

text \<open>
  \<open>OnMotion\<close>: \<open>hit\<close> is the item under the mouse as its row and the model column, if there is
  one; without an item \<open>ItemToRow\<close> gives -1.
\<close>

definition ROM_OnMotion ::
    "wxlib \<Rightarrow> env \<Rightarrow> SHA256_CTX \<Rightarrow> (nat \<times> nat) option \<Rightarrow> ServerBrowser \<Rightarrow> ServerBrowser result option" where
  "ROM_OnMotion wx env ctx hit b =
     (let row = (case hit of None \<Rightarrow> -1 | Some (r, _) \<Rightarrow> int r) in
      case hit of
        Some (r, c) \<Rightarrow>
          if c = column COLUMN_ROM
          then
            if sb_lastrow b \<noteq> row
            then (case rbind (GetTextValue b r COLUMN_ROM) (\<lambda>rom.
                       rbind (GetTextValue b r COLUMN_ROMHASH) (\<lambda>romhash.
                       rbind (GetTextValue b r COLUMN_ROMONMASTER) (\<lambda>onmaster.
                         Inr (rom, romhash, onmaster)))) of
                    Inl e \<Rightarrow> Some (Inl e)
                  | Inr (rom, romhash, onmaster) \<Rightarrow>
                     (let romname = get_sanitizedromname wx rom;
                          (rompath, fs) = get_rompath wx (sb_fs b) romname;
                          b = b\<lparr>sb_fs := fs, sb_lastrow := row\<rparr>
                      in if fs_files fs rompath \<noteq> None
                         then (case is_samerom wx env ctx fs romname romhash of
                                 None \<Rightarrow> None
                               | Some (same, fs) \<Rightarrow> Some (Inr (b\<lparr>sb_fs := fs, sb_tooltip :=
                                   (if same then ''You have this ROM!'' else ''Your ROM differs from the server.'')
                                     @ endl @ romhash\<rparr>)))
                         else if onmaster \<noteq> ''1''
                         then Some (Inr (b\<lparr>sb_tooltip := ''This ROM is not available for download.'' @ endl @ romhash\<rparr>))
                         else Some (Inr (b\<lparr>sb_tooltip :=
                           ''This ROM is available for download from the master server.'' @ endl @ romhash\<rparr>))))
            else Some (Inr b)
          else Some (Inr (if sb_lastrow b \<noteq> row then b\<lparr>sb_tooltip := [], sb_lastrow := row\<rparr> else b))
      | None \<Rightarrow> Some (Inr (if sb_lastrow b \<noteq> row then b\<lparr>sb_tooltip := [], sb_lastrow := row\<rparr> else b)))"

definition Refresh_OnToolClicked :: "bool \<Rightarrow> ServerBrowser \<Rightarrow> ServerBrowser" where
  "Refresh_OnToolClicked runs b = ConnectMaster runs b"

definition File_Quit_OnMenuSelection :: "ServerBrowser \<Rightarrow> ServerBrowser" where
  "File_Quit_OnMenuSelection b = b\<lparr>sb_open := False\<rparr>"

text \<open>The colour of a ROM in the list: green when the file is the server's, orange when it is
  another, red when it can be had nowhere, plain when it can be downloaded.\<close>

definition coloured :: "wxString \<Rightarrow> wxString \<Rightarrow> wxString" where
  "coloured colour name = ''<span color='' @ [CHR 0x22] @ colour @ [CHR 0x22] @ ''>'' @ name @ ''</span>''"

text \<open>\<open>ThreadEvent\<close> for \<open>TEVENT_ADDSERVER\<close>.\<close>

definition add_server :: "wxlib \<Rightarrow> env \<Rightarrow> SHA256_CTX \<Rightarrow> FoundServer \<Rightarrow> ServerBrowser \<Rightarrow> ServerBrowser option" where
  "add_server wx env ctx server b =
     (case get_rompath wx (sb_fs b) (fs_romname server) of (rompath, fs) \<Rightarrow>
      case (if fs_files fs rompath \<noteq> None
            then (case is_samerom wx env ctx fs (fs_romname server) (fs_romhash server) of
                    None \<Rightarrow> None
                  | Some (same, fs) \<Rightarrow>
                      Some (coloured (if same then ''#008000'' else ''#FF8000'') (fs_romname server), fs))
            else if \<not> fs_romdownloadable server then Some (coloured ''#800000'' (fs_romname server), fs)
            else Some (fs_romname server, fs)) of
        None \<Rightarrow> None
      | Some (rom, fs) \<Rightarrow>
          Some (b\<lparr>sb_fs := fs, m_DataViewListCtrl_Servers := m_DataViewListCtrl_Servers b @
            [[dec_int (fs_ping server),
              dec_int (fs_playercount server) @ ''/'' @ dec_int (fs_maxplayers server),
              fs_fulladdress server, rom, fs_name server, fs_romhash server,
              dec_int (if fs_romdownloadable server then 1 else 0)]]\<rparr>))"

definition ServerBrowser_GetAddress :: "ServerBrowser \<Rightarrow> wxString" where
  "ServerBrowser_GetAddress b = m_MasterAddress b"

definition ServerBrowser_GetPort :: "ServerBrowser \<Rightarrow> int" where
  "ServerBrowser_GetPort b = m_MasterPort b"

section \<open>Construction and destruction\<close>

definition DEFAULT_MASTERSERVER_ADDRESS :: wxString where
  "DEFAULT_MASTERSERVER_ADDRESS = ''master.n64brew.dev''"

definition DEFAULT_MASTERSERVER_PORT :: int where
  "DEFAULT_MASTERSERVER_PORT = 6464"

text \<open>The method \<^verbatim>\<open>customview.cpp\<close> adds to the list control: a text column that shows markup.\<close>

definition AppendCustomTextColumn :: "wxString \<Rightarrow> list_column" where
  "AppendCustomTextColumn label = \<lparr>lc_title = label, lc_hidden = False, lc_markup = True\<rparr>"

text \<open>\<open>garbage\<close> is the port member, which keeps its value when the address has no port.\<close>

definition new_ServerBrowser ::
    "wxlib \<Rightarrow> bool \<Rightarrow> int \<Rightarrow> (wxString \<Rightarrow> wxString option) \<Rightarrow> InputMessage list \<Rightarrow> queues \<Rightarrow> fs \<Rightarrow> ServerBrowser" where
  "new_ServerBrowser wx runs garbage config queue q fs =
     (let maddr = (case config ''MasterAddress'' of
                     None \<Rightarrow> DEFAULT_MASTERSERVER_ADDRESS @ '':'' @ dec_int DEFAULT_MASTERSERVER_PORT
                   | Some s \<Rightarrow> s);
          (address, port) = address_fromstr wx maddr garbage;
          text_column = (\<lambda>title. \<lparr>lc_title = title, lc_hidden = False, lc_markup = False\<rparr>)
      in ConnectMaster runs
         \<lparr>m_MasterAddress = address, m_MasterPort = port, m_FinderThread = False,
          m_TextCtrl_MasterServerAddress = maddr,
          sb_columns = [text_column ''Ping'', text_column ''Players'', text_column ''Address'',
            AppendCustomTextColumn ''ROM'', text_column ''Server Name'',
            (text_column ''Hash'')\<lparr>lc_hidden := True\<rparr>,
            (text_column ''File Exists on Master'')\<lparr>lc_hidden := True\<rparr>],
          m_DataViewListCtrl_Servers = [], sb_tooltip = [], sb_lastrow = -1, m_DownloadWindow = None,
          sb_queue = queue, sb_config = config, sb_dialogs = [], sb_clients = [], sb_queues = q,
          sb_fs = fs, sb_open = True\<rparr>)"

definition delete_ServerBrowser :: "ServerBrowser \<Rightarrow> ServerBrowser" where
  "delete_ServerBrowser b = StopThread_Finder b"

section \<open>Totality of the hash check\<close>

lemma is_samerom_returns:
  assumes "length (ctx_data ctx) = 64"
  shows "\<exists>same. is_samerom wx env ctx fs romname romhash = Some (same, snd (get_rompath wx fs romname))"
proof -
  obtain rompath fs' where p: "get_rompath wx fs romname = (rompath, fs')" by fastforce
  show ?thesis
  proof (cases "fs_files fs' rompath")
    case (Some content)
    let ?n = "length content mod 2 ^ 32"
    have "length (take ?n content) < 2 ^ 32" by (simp add: min_less_iff_disj)
    then obtain c where "sha256_update (sha256_init ctx) (take ?n content) = Some c"
      using sha256.hash_once [OF assms, of "take ?n content"] by blast
    then show ?thesis using Some by (auto simp: is_samerom_def p Let_def)
  qed (auto simp: is_samerom_def p)
qed

section \<open>The rows of the list\<close>

text \<open>The sizes of the buffers on the stack.\<close>

definition choices_ok :: "choices \<Rightarrow> bool" where
  "choices_ok ch \<longleftrightarrow> length (ctx_data (ch_ctx ch)) = 64 \<and> length (ch_stack ch) = 32"

definition list_inv :: "ServerBrowser \<Rightarrow> bool" where
  "list_inv b \<longleftrightarrow> length (sb_columns b) = 7 \<and> (\<forall>row \<in> set (m_DataViewListCtrl_Servers b). length row = 7)"

text \<open>Opening a client fails exactly when the path does not fit its copy.\<close>

definition joined :: "wxlib \<Rightarrow> choices \<Rightarrow> wxString \<Rightarrow> wxString \<Rightarrow> ServerBrowser \<Rightarrow> ServerBrowser \<Rightarrow> bool" where
  "joined wx ch rom fulladdress b b' \<longleftrightarrow>
     (\<exists>w es. sb_clients b' = sb_clients b @ [(w, es)] \<and> m_ROMPath w = rom \<and>
        (m_ServerAddress w, m_ServerPort w) = address_fromstr wx fulladdress (ch_garbage ch)) \<and>
     \<not> m_FinderThread b' \<and> sb_queue b' = sb_queue b \<and> sb_dialogs b' = sb_dialogs b"

lemma CreateClient_outcome:
  assumes "alloc_ok env"
  shows "if copy_fits wx rom
    then \<exists>b'. CreateClient wx env ch rom fulladdress b = Inr b' \<and> joined wx ch rom fulladdress b b'
    else CreateClient wx env ch rom fulladdress b = Inl OutOfBounds"
  by (auto simp: CreateClient_def joined_def Let_def BeginWorking_def StartThread_Device_def StartThread_Server_def
      LoadROM_def new_c_string_fits [OF assms] StopThread_Finder_def SetROM_def SetAddress_def SetPortNumber_def
      ClientWindow_GetAddress_def split: prod.split)

lemma CreateClient_rows:
  "CreateClient wx env ch rom address b = Inr b' \<Longrightarrow>
     m_DataViewListCtrl_Servers b' = m_DataViewListCtrl_Servers b \<and> sb_columns b' = sb_columns b"
  by (auto simp: CreateClient_def StopThread_Finder_def Let_def rbind_Inr_iff split: prod.splits)

lemma list_inv_keep:
  "list_inv b \<Longrightarrow> m_DataViewListCtrl_Servers b' = m_DataViewListCtrl_Servers b \<Longrightarrow>
     sb_columns b' = sb_columns b \<Longrightarrow> list_inv b'"
  by (simp add: list_inv_def)

lemma ConnectMaster_rows [simp]:
  "m_DataViewListCtrl_Servers (ConnectMaster runs b) = []" "sb_columns (ConnectMaster runs b) = sb_columns b"
  by (simp_all add: ConnectMaster_def post_message_def StartThread_Finder_def StopThread_Finder_def ClearServers_def)

lemma RequestDownload_rows:
  "RequestDownload wx env ch hash path b = Inr b' \<Longrightarrow>
     m_DataViewListCtrl_Servers b' = m_DataViewListCtrl_Servers b \<and> sb_columns b' = sb_columns b"
  by (auto simp: RequestDownload_def rbind_Inr_iff StartThread_Finder_def)

lemma RequestDownload_outcome:
  assumes "wx_documented wx" "alloc_ok env" "choices_ok ch"
  shows "if request_fits wx hash path then \<exists>b'. RequestDownload wx env ch hash path b = Inr b'
    else RequestDownload wx env ch hash path b = Inl OutOfBounds"
  using download_messages_outcome [OF assms(1,2), of "ch_stack ch" hash path] assms(3)
  by (auto simp: RequestDownload_def choices_ok_def split: if_splits)

section \<open>The window as a machine\<close>

datatype browser_op = BAddServer FoundServer | BRefresh | BMasterText wxString
  | BMotion "(nat \<times> nat) option" | BActivate nat | BManual wxString wxString | BQuit

text \<open>Each operation comes with what the system and the user decide in it.\<close>

fun browser_step :: "wxlib \<Rightarrow> env \<Rightarrow> choices \<times> browser_op \<Rightarrow> ServerBrowser \<Rightarrow> ServerBrowser result option" where
  "browser_step wx env (ch, BAddServer server) b = map_option Inr (add_server wx env (ch_ctx ch) server b)"
| "browser_step wx env (ch, BRefresh) b = Some (Inr (Refresh_OnToolClicked (ch_runs ch) b))"
| "browser_step wx env (ch, BMasterText str) b = Some (Inr (MasterServerAddress_OnText wx str b))"
| "browser_step wx env (ch, BMotion hit) b = ROM_OnMotion wx env (ch_ctx ch) hit b"
| "browser_step wx env (ch, BActivate row) b = ItemActivated wx env ch row b"
| "browser_step wx env (ch, BManual path address) b = Some (m_Button_Connect_OnButtonClick wx env ch path address b)"
| "browser_step wx env (ch, BQuit) b = Some (Inr (File_Quit_OnMenuSelection b))"

definition browser_next :: "wxlib \<Rightarrow> env \<Rightarrow> choices \<times> browser_op \<Rightarrow> ServerBrowser \<Rightarrow> ServerBrowser option" where
  "browser_next wx env op b = Option.bind (browser_step wx env op b) result_option"

lemma browser_next_Some: "browser_next wx env op b = Some b' \<longleftrightarrow> browser_step wx env op b = Some (Inr b')"
  by (auto simp: browser_next_def bind_eq_Some_conv)

lemma add_server_inv:
  "list_inv b \<Longrightarrow> add_server wx env ctx server b = Some b' \<Longrightarrow> list_inv b'"
  by (auto simp: add_server_def list_inv_def split: prod.splits option.splits if_splits)

lemma ROM_OnMotion_rows:
  "ROM_OnMotion wx env ctx hit b = Some (Inr b') \<Longrightarrow>
     m_DataViewListCtrl_Servers b' = m_DataViewListCtrl_Servers b \<and> sb_columns b' = sb_columns b"
  by (auto simp: ROM_OnMotion_def Let_def split: option.splits prod.splits if_splits sum.splits)

lemma ItemActivated_rows:
  "ItemActivated wx env ch row b = Some (Inr b') \<Longrightarrow>
     m_DataViewListCtrl_Servers b' = m_DataViewListCtrl_Servers b \<and> sb_columns b' = sb_columns b"
  by (auto simp: ItemActivated_def Let_def ShowDialog_def post_message_def rbind_Inr_iff
      split: option.splits prod.splits if_splits sum.splits dest!: RequestDownload_rows CreateClient_rows)

lemma browser_step_inv:
  assumes "list_inv b" "browser_next wx env cop b = Some b'"
  shows "list_inv b'"
proof -
  obtain ch op where cop: "cop = (ch, op)" by fastforce
  have step: "browser_step wx env (ch, op) b = Some (Inr b')" using assms(2) by (simp add: browser_next_Some cop)
  show ?thesis
  proof (cases op)
    case (BAddServer server)
    then show ?thesis using step add_server_inv [OF assms(1)] by auto
  next
    case (BMotion hit)
    then show ?thesis using step ROM_OnMotion_rows list_inv_keep [OF assms(1)] by fastforce
  next
    case (BActivate row)
    then show ?thesis using step ItemActivated_rows list_inv_keep [OF assms(1)] by fastforce
  next
    case (BManual path address)
    then have "m_DataViewListCtrl_Servers b' = m_DataViewListCtrl_Servers b \<and> sb_columns b' = sb_columns b"
      using step by (auto simp: m_Button_Connect_OnButtonClick_def dest!: CreateClient_rows)
    then show ?thesis using list_inv_keep [OF assms(1)] by blast
  qed (use step assms(1) in \<open>auto simp: list_inv_def Refresh_OnToolClicked_def MasterServerAddress_OnText_def
      File_Quit_OnMenuSelection_def split: prod.splits\<close>)
qed

interpretation browser: partial_machine "browser_next wx env" "\<lambda>_ _. True" list_inv for wx env
  by unfold_locales (rule browser_step_inv)

lemma list_inv_new [simp]: "list_inv (new_ServerBrowser wx runs garbage config queue q fs)"
  by (simp add: new_ServerBrowser_def Let_def list_inv_def split: prod.split)

section \<open>Joining a listed server\<close>

text \<open>The row a server gets, and the file its ROM is looked up in.\<close>

definition rom_file :: "wxlib \<Rightarrow> wxString \<Rightarrow> wxString" where
  "rom_file wx romname = ''roms'' @ [wx_GetPathSeparator wx] @ romname"

lemma get_rompath_file: "get_rompath wx fs romname =
    (rom_file wx romname, if ''roms'' \<in> set (fs_dirs fs) then fs else fs\<lparr>fs_dirs := ''roms'' # fs_dirs fs\<rparr>)"
  by (simp add: get_rompath_def rom_file_def)

definition server_row :: "FoundServer \<Rightarrow> wxString \<Rightarrow> wxString list" where
  "server_row server rom =
     [dec_int (fs_ping server), dec_int (fs_playercount server) @ ''/'' @ dec_int (fs_maxplayers server),
      fs_fulladdress server, rom, fs_name server, fs_romhash server,
      dec_int (if fs_romdownloadable server then 1 else 0)]"

lemma dec_int_bool [simp]: "dec_int 1 = ''1''" "dec_int 0 = ''0''"
  by code_simp+

text \<open>The name a row was made from comes back out of it.\<close>

lemma sanitized_rom:
  assumes "wx_documented wx" "\<not> sublist ''</span>'' name"
  shows "get_sanitizedromname wx (coloured c name) = name \<or> CHR ''<'' \<in> set c \<or> CHR ''>'' \<in> set c"
    "get_sanitizedromname wx name = name"
proof -
  have "get_sanitizedromname wx (coloured c name) = name" if "CHR ''<'' \<notin> set c" "CHR ''>'' \<notin> set c"
    using sanitize_coloured [OF assms, of "[CHR 0x22] @ c @ [CHR 0x22]"] that
    by (simp add: coloured_def)
  then show "get_sanitizedromname wx (coloured c name) = name \<or> CHR ''<'' \<in> set c \<or> CHR ''>'' \<in> set c" by blast
  have "drop (length name - length ''</span>'') name \<noteq> ''</span>''"
    using assms(2) sublist_drop [of "length name - length ''</span>''" name] by metis
  then show "get_sanitizedromname wx name = name"
    using assms(1) by (simp add: get_sanitizedromname_def wx_documented_def)
qed

definition has_rom :: "fs \<Rightarrow> wxString \<Rightarrow> wxString \<Rightarrow> bool" where
  "has_rom fs rompath romhash \<longleftrightarrow> (case fs_files fs rompath of None \<Rightarrow> False
     | Some content \<Rightarrow> fs_opens fs rompath \<and> romhash = concat (map fmt_02X (fips_sha256 content)))"

lemma is_samerom_has:
  assumes "length (ctx_data ctx) = 64" "alloc_ok env"
    and "\<forall>content. fs_files fs (rom_file wx name) = Some content \<longrightarrow> length content < 2 ^ 32"
  shows "is_samerom wx env ctx fs name romhash =
    Some (has_rom fs (rom_file wx name) romhash, snd (get_rompath wx fs name))"
  using is_samerom_fips [OF assms(1,2) rom_file_def assms(3)] by (simp add: has_rom_def)

definition with_roms_dir :: "fs \<Rightarrow> fs" where
  "with_roms_dir fs = (if ''roms'' \<in> set (fs_dirs fs) then fs else fs\<lparr>fs_dirs := ''roms'' # fs_dirs fs\<rparr>)"

lemma with_roms_dir_simps [simp]:
  "fs_files (with_roms_dir fs) = fs_files fs" "fs_opens (with_roms_dir fs) = fs_opens fs"
  "with_roms_dir (with_roms_dir fs) = with_roms_dir fs" "has_rom (with_roms_dir fs) = has_rom fs"
  by (auto simp: with_roms_dir_def has_rom_def fun_eq_iff split: option.split)

lemma get_rompath_eq: "get_rompath wx fs name = (rom_file wx name, with_roms_dir fs)"
  by (simp add: get_rompath_file with_roms_dir_def)

text \<open>The row of a server, and what activating it does.\<close>

lemma add_server_row:
  assumes "length (ctx_data ctx) = 64" "alloc_ok env"
    and "\<forall>content. fs_files (sb_fs b) (rom_file wx (fs_romname server)) = Some content \<longrightarrow> length content < 2 ^ 32"
  shows "\<exists>rom. add_server wx env ctx server b = Some (b\<lparr>sb_fs := with_roms_dir (sb_fs b),
      m_DataViewListCtrl_Servers := m_DataViewListCtrl_Servers b @ [server_row server rom]\<rparr>) \<and>
    (rom = fs_romname server \<or> (\<exists>c \<in> {''#008000'', ''#FF8000'', ''#800000''}. rom = coloured c (fs_romname server)))"
  using is_samerom_has [OF assms(1,2), of "with_roms_dir (sb_fs b)" wx "fs_romname server"] assms(3)
  by (auto simp: add_server_def get_rompath_eq server_row_def)

lemma GetTextValue_row:
  "row < length (m_DataViewListCtrl_Servers b) \<Longrightarrow> length (m_DataViewListCtrl_Servers b ! row) = 7 \<Longrightarrow>
     GetTextValue b row col = Inr (m_DataViewListCtrl_Servers b ! row ! column col)"
  by (cases col) (auto simp: GetTextValue_def)

text \<open>What activating a row does, from its cells.\<close>

lemma ItemActivated_cells:
  assumes "choices_ok ch" "alloc_ok env"
    and "row < length (m_DataViewListCtrl_Servers b)" "cells = m_DataViewListCtrl_Servers b ! row" "length cells = 7"
    and "path = rom_file wx (get_sanitizedromname wx (cells ! column COLUMN_ROM))"
    and "\<forall>content. fs_files (sb_fs b) path = Some content \<longrightarrow> length content < 2 ^ 32"
    and "b' = b\<lparr>sb_fs := with_roms_dir (sb_fs b)\<rparr>"
  shows "\<exists>message. ItemActivated wx env ch row b = Some (
    if fs_files (sb_fs b) path \<noteq> None
    then (if has_rom (sb_fs b) path (cells ! column COLUMN_ROMHASH)
          then CreateClient wx env ch path (cells ! column COLUMN_ADDRESS) b'
          else Inr (ShowDialog ''Bad ROM found'' message b'))
    else if cells ! column COLUMN_ROMONMASTER = ''1''
    then (let b' = ShowDialog ''Download ROM?'' message b' in
      if ch_yes ch
      then rbind (RequestDownload wx env ch (cells ! column COLUMN_ROMHASH) path
          (b'\<lparr>m_DownloadWindow := Some new_ROMDownloadWindow\<rparr>))
        (\<lambda>b'. if ch_download ch \<noteq> 1
           then Inr (post_message \<lparr>im_type = TEVENT_CANCELDL, im_data = None\<rparr>
             (ShowDialog ''ROM Download Failed'' ''ROM download was unsuccessful.'' b'))
           else CreateClient wx env ch path (cells ! column COLUMN_ADDRESS) b')
      else Inr b')
    else Inr (ShowDialog ''ROM Unavailable'' message b'))"
  using is_samerom_has [of "ch_ctx ch" env "with_roms_dir (sb_fs b)" wx "get_sanitizedromname wx (cells ! column COLUMN_ROM)"
      "cells ! column COLUMN_ROMHASH"] assms(1,2,5,7)
    GetTextValue_row [OF assms(3) assms(5) [unfolded assms(4)], folded assms(4)]
  by (auto simp: ItemActivated_def assms(6,8) get_rompath_eq choices_ok_def Let_def simp del: column.simps cong: if_cong)

text \<open>The two ways an activation can fail: the path of a ROM that is joined does not fit its
  copy, or the hash or the path of one that is requested does not.\<close>

definition activation_overflows :: "wxlib \<Rightarrow> choices \<Rightarrow> fs \<Rightarrow> wxString list \<Rightarrow> bool" where
  "activation_overflows wx ch fs cells \<longleftrightarrow>
     (let path = rom_file wx (get_sanitizedromname wx (cells ! column COLUMN_ROM));
          hash = cells ! column COLUMN_ROMHASH
      in if fs_files fs path \<noteq> None then has_rom fs path hash \<and> \<not> copy_fits wx path
         else cells ! column COLUMN_ROMONMASTER = ''1'' \<and> ch_yes ch \<and> \<not> request_fits wx hash path)"

lemma request_outcome:
  assumes "wx_documented wx" "alloc_ok env" "choices_ok ch"
  shows "if request_fits wx hash path
    then \<exists>b'. rbind (RequestDownload wx env ch hash path b)
      (\<lambda>b. if ch_download ch \<noteq> 1 then Inr (failed b) else CreateClient wx env ch path address b) = Inr b'
    else rbind (RequestDownload wx env ch hash path b)
      (\<lambda>b. if ch_download ch \<noteq> 1 then Inr (failed b) else CreateClient wx env ch path address b) = Inl OutOfBounds"
proof (cases "request_fits wx hash path")
  case True
  then obtain c where "RequestDownload wx env ch hash path b = Inr c"
    using RequestDownload_outcome [OF assms, of hash path b] by auto
  moreover have "copy_fits wx path" using True by (simp add: request_fits_def)
  ultimately show ?thesis using True CreateClient_outcome [OF assms(2), of wx path ch address c] by auto
next
  case False
  then show ?thesis using RequestDownload_outcome [OF assms, of hash path b] by simp
qed

lemma ItemActivated_outcome:
  assumes "wx_documented wx" "choices_ok ch" "alloc_ok env"
    and "row < length (m_DataViewListCtrl_Servers b)" "cells = m_DataViewListCtrl_Servers b ! row" "length cells = 7"
    and "\<forall>p content. fs_files (sb_fs b) p = Some content \<longrightarrow> length content < 2 ^ 32"
  shows "if activation_overflows wx ch (sb_fs b) cells then ItemActivated wx env ch row b = Some (Inl OutOfBounds)
    else \<exists>b'. ItemActivated wx env ch row b = Some (Inr b')"
proof -
  define path where "path = rom_file wx (get_sanitizedromname wx (cells ! column COLUMN_ROM))"
  define hash where "hash = cells ! column COLUMN_ROMHASH"
  let ?addr = "cells ! column COLUMN_ADDRESS"
  have small: "\<forall>content. fs_files (sb_fs b) path = Some content \<longrightarrow> length content < 2 ^ 32"
    using assms(7) by blast
  note join = CreateClient_outcome [OF assms(3), of wx path ch ?addr]
  note request = request_outcome [OF assms(1,3,2), of hash path]
  show ?thesis
    using ItemActivated_cells [OF assms(2-6) path_def small refl]
      join [of "b\<lparr>sb_fs := with_roms_dir (sb_fs b)\<rparr>"]
    unfolding activation_overflows_def Let_def path_def [symmetric] hash_def [symmetric]
    apply (elim exE)
    subgoal premises prems for message
      using prems request [of "(ShowDialog ''Download ROM?'' message (b\<lparr>sb_fs := with_roms_dir (sb_fs b)\<rparr>))
            \<lparr>m_DownloadWindow := Some new_ROMDownloadWindow\<rparr>"
          "\<lambda>b. post_message \<lparr>im_type = TEVENT_CANCELDL, im_data = None\<rparr>
             (ShowDialog ''ROM Download Failed'' ''ROM download was unsuccessful.'' b)" ?addr]
      by (simp split del: if_split) (simp split: if_splits)
    done
qed

lemma ItemActivated_server:
  assumes "choices_ok ch" "alloc_ok env"
    and "m_DataViewListCtrl_Servers b = rows @ [server_row server rom]"
    and "get_sanitizedromname wx rom = fs_romname server"
    and "\<forall>content. fs_files (sb_fs b) (rom_file wx (fs_romname server)) = Some content \<longrightarrow> length content < 2 ^ 32"
    and "path = rom_file wx (fs_romname server)" "b' = b\<lparr>sb_fs := with_roms_dir (sb_fs b)\<rparr>"
  shows "\<exists>message. ItemActivated wx env ch (length rows) b = Some (
    if fs_files (sb_fs b) path \<noteq> None
    then (if has_rom (sb_fs b) path (fs_romhash server) then CreateClient wx env ch path (fs_fulladdress server) b'
          else Inr (ShowDialog ''Bad ROM found'' message b'))
    else if fs_romdownloadable server
    then (let b' = ShowDialog ''Download ROM?'' message b' in
      if ch_yes ch
      then rbind (RequestDownload wx env ch (fs_romhash server) path (b'\<lparr>m_DownloadWindow := Some new_ROMDownloadWindow\<rparr>))
        (\<lambda>b'. if ch_download ch \<noteq> 1
           then Inr (post_message \<lparr>im_type = TEVENT_CANCELDL, im_data = None\<rparr>
             (ShowDialog ''ROM Download Failed'' ''ROM download was unsuccessful.'' b'))
           else CreateClient wx env ch path (fs_fulladdress server) b')
      else Inr b')
    else Inr (ShowDialog ''ROM Unavailable'' message b'))"
proof -
  let ?cells = "server_row server rom"
  have cells: "?cells ! column COLUMN_ROM = rom" "?cells ! column COLUMN_ROMHASH = fs_romhash server"
    "?cells ! column COLUMN_ADDRESS = fs_fulladdress server"
    "?cells ! column COLUMN_ROMONMASTER = dec_int (if fs_romdownloadable server then 1 else 0)" "length ?cells = 7"
    by (simp_all add: server_row_def)
  have master: "dec_int (if fs_romdownloadable server then 1 else 0) = ''1'' \<longleftrightarrow> fs_romdownloadable server" by simp
  have row: "length rows < length (m_DataViewListCtrl_Servers b)" "?cells = m_DataViewListCtrl_Servers b ! length rows"
    using assms(3) by simp_all
  have path: "path = rom_file wx (get_sanitizedromname wx (?cells ! column COLUMN_ROM))"
    by (simp only: cells assms(4,6))
  show ?thesis
    using ItemActivated_cells [OF assms(1,2) row cells(5) path _ assms(7)] assms(5,6) unfolding cells master by blast
qed

text \<open>The row a reported server gets leads back to it.\<close>

lemma listed_server:
  assumes "wx_documented wx" "choices_ok ch" "alloc_ok env" "\<not> sublist ''</span>'' (fs_romname server)"
    and "add_server wx env (ch_ctx ch) server b = Some b'"
    and "path = rom_file wx (fs_romname server)"
    and "\<forall>content. fs_files (sb_fs b) path = Some content \<longrightarrow> length content < 2 ^ 32"
  shows "fs_files (sb_fs b') = fs_files (sb_fs b) \<and> fs_opens (sb_fs b') = fs_opens (sb_fs b) \<and>
    (\<exists>message. ItemActivated wx env ch (length (m_DataViewListCtrl_Servers b)) b' = Some (
      if fs_files (sb_fs b) path \<noteq> None
      then (if has_rom (sb_fs b) path (fs_romhash server) then CreateClient wx env ch path (fs_fulladdress server) b'
            else Inr (ShowDialog ''Bad ROM found'' message b'))
      else if fs_romdownloadable server
      then (let b' = ShowDialog ''Download ROM?'' message b' in
        if ch_yes ch
        then rbind (RequestDownload wx env ch (fs_romhash server) path (b'\<lparr>m_DownloadWindow := Some new_ROMDownloadWindow\<rparr>))
          (\<lambda>b'. if ch_download ch \<noteq> 1
             then Inr (post_message \<lparr>im_type = TEVENT_CANCELDL, im_data = None\<rparr>
               (ShowDialog ''ROM Download Failed'' ''ROM download was unsuccessful.'' b'))
             else CreateClient wx env ch path (fs_fulladdress server) b')
        else Inr b')
      else Inr (ShowDialog ''ROM Unavailable'' message b')))"
proof -
  have ctx: "length (ctx_data (ch_ctx ch)) = 64" using assms(2) by (simp add: choices_ok_def)
  note small = assms(7) [unfolded assms(6)]
  obtain rom where b': "b' = b\<lparr>sb_fs := with_roms_dir (sb_fs b),
      m_DataViewListCtrl_Servers := m_DataViewListCtrl_Servers b @ [server_row server rom]\<rparr>"
    and rom: "rom = fs_romname server \<or> (\<exists>c \<in> {''#008000'', ''#FF8000'', ''#800000''}. rom = coloured c (fs_romname server))"
    using add_server_row [OF ctx assms(3) small] assms(5) by auto
  have name: "get_sanitizedromname wx rom = fs_romname server"
    using rom sanitized_rom [OF assms(1,4)] by fastforce
  have rows: "m_DataViewListCtrl_Servers b' = m_DataViewListCtrl_Servers b @ [server_row server rom]"
    and fs: "with_roms_dir (sb_fs b') = sb_fs b'" "fs_files (sb_fs b') = fs_files (sb_fs b)"
      "fs_opens (sb_fs b') = fs_opens (sb_fs b)" "has_rom (sb_fs b') = has_rom (sb_fs b)"
    by (simp_all add: b')
  have same: "b' = b'\<lparr>sb_fs := with_roms_dir (sb_fs b')\<rparr>" by (simp add: fs(1))
  show ?thesis
    using ItemActivated_server [OF assms(2,3) rows name _ assms(6) same] small unfolding fs by blast
qed

section \<open>Properties\<close>

text \<open>C39: after every history of found servers, refreshes, mouse movements, activations, manual
  connections and menu choices on a new browser window in which the program did not fail
  before, every row of the list has its seven cells, and activating it either leaves the list as
  it is or writes behind a buffer; the latter happens exactly when the row's ROM is on the disk
  with the server's hash and its path has more bytes than characters, or when it is to be
  downloaded and that holds of the path or the hash is not at most 32 pairs of characters.\<close>

theorem rows_can_be_activated:
  assumes "wx_documented wx" "choices_ok ch" "alloc_ok env"
    and "browser.run wx env ops (new_ServerBrowser wx runs garbage config queue q fs) = Some b"
    and "row < length (m_DataViewListCtrl_Servers b)" "cells = m_DataViewListCtrl_Servers b ! row"
    and "\<forall>p content. fs_files (sb_fs b) p = Some content \<longrightarrow> length content < 2 ^ 32"
  shows "length cells = 7 \<and>
    (let path = rom_file wx (get_sanitizedromname wx (cells ! column COLUMN_ROM));
         hash = cells ! column COLUMN_ROMHASH;
         path_fits = length (c_string (wx_mb_str wx path)) \<le> length path
     in if (if fs_files (sb_fs b) path \<noteq> None then has_rom (sb_fs b) path hash \<and> \<not> path_fits
            else cells ! column COLUMN_ROMONMASTER = ''1'' \<and> ch_yes ch \<and>
              (odd (length hash) \<or> 64 < length hash \<or> \<not> path_fits))
        then ItemActivated wx env ch row b = Some (Inl OutOfBounds)
        else \<exists>b'. ItemActivated wx env ch row b = Some (Inr b') \<and>
          m_DataViewListCtrl_Servers b' = m_DataViewListCtrl_Servers b)"
proof -
  have "list_inv b" by (rule browser.inv_run [OF list_inv_new browser.free_admissible [OF TrueI] assms(4)])
  then have len: "length cells = 7" using assms(5,6) by (simp add: list_inv_def)
  have cond: "activation_overflows wx ch (sb_fs b) cells \<longleftrightarrow>
    (let path = rom_file wx (get_sanitizedromname wx (cells ! column COLUMN_ROM));
         hash = cells ! column COLUMN_ROMHASH;
         path_fits = length (c_string (wx_mb_str wx path)) \<le> length path
     in if fs_files (sb_fs b) path \<noteq> None then has_rom (sb_fs b) path hash \<and> \<not> path_fits
        else cells ! column COLUMN_ROMONMASTER = ''1'' \<and> ch_yes ch \<and>
          (odd (length hash) \<or> 64 < length hash \<or> \<not> path_fits))"
    by (auto simp: activation_overflows_def Let_def request_fits_def copy_fits_def)
  show ?thesis
    using ItemActivated_outcome [OF assms(1-3,5,6) len assms(7)] ItemActivated_rows [of wx env ch row b] len
    unfolding cond Let_def by (auto split: if_splits)
qed

text \<open>A window, a server and what the user chooses, for the instances.\<close>

definition sample_choices :: choices where
  "sample_choices = \<lparr>ch_runs = True, ch_yes = True, ch_download = 1, ch_ctx = blank_ctx,
     ch_stack = replicate 32 0, ch_garbage = 0\<rparr>"

definition sample_browser :: ServerBrowser where
  "sample_browser = new_ServerBrowser sample_wx True 0 Map.empty [] no_queues sample_fs"

definition sample_found :: FoundServer where
  "sample_found = sample_server\<lparr>fs_romname := ''b.z64'', fs_romhash := concat (map fmt_02X (replicate 32 0xAB)),
     fs_romdownloadable := True\<rparr>"

lemma sample_choices_ok: "choices_ok sample_choices"
  by (simp add: choices_ok_def sample_choices_def blank_ctx_def)

lemma sample_no_rom: "fs_files (sb_fs sample_browser) (rom_file sample_wx ''b.z64'') = None"
  by (simp add: sample_browser_def new_ServerBrowser_def Let_def ConnectMaster_def post_message_def
      StartThread_Finder_def StopThread_Finder_def ClearServers_def sample_fs_def rom_file_def sample_wx_def
      split: prod.split)

lemma sample_browser_simps [simp]:
  "sb_fs sample_browser = sample_fs" "m_DataViewListCtrl_Servers sample_browser = []"
  "sb_clients sample_browser = []" "sb_dialogs sample_browser = []"
  by (simp_all add: sample_browser_def new_ServerBrowser_def Let_def ConnectMaster_def post_message_def
      StartThread_Finder_def StopThread_Finder_def ClearServers_def split: prod.split)

text \<open>A server whose ROM is to be downloaded, by its name.\<close>

definition offer :: "wxString \<Rightarrow> FoundServer" where
  "offer name = sample_found\<lparr>fs_romname := name\<rparr>"

lemma offer_listed:
  assumes "name \<noteq> ''a.z64''"
  shows "\<exists>b rom. browser.run sample_wx env_x86 [(sample_choices, BAddServer (offer name))] sample_browser = Some b \<and>
    m_DataViewListCtrl_Servers b = [server_row (offer name) name] \<and> fs_files (sb_fs b) = fs_files sample_fs"
proof -
  have ctx: "length (ctx_data blank_ctx) = 64" by (simp add: blank_ctx_def)
  have none: "fs_files sample_fs (rom_file sample_wx name) = None"
    using assms by (simp add: sample_fs_def rom_file_def sample_wx_def)
  have "add_server sample_wx env_x86 blank_ctx (offer name) sample_browser =
      Some (sample_browser\<lparr>sb_fs := with_roms_dir sample_fs,
        m_DataViewListCtrl_Servers := [server_row (offer name) name]\<rparr>)"
    using none by (simp add: add_server_def get_rompath_eq offer_def sample_found_def server_row_def)
  then show ?thesis
    by (simp add: browser_next_def sample_choices_def)
qed

lemma rows_can_be_activated_witness:
  "(\<exists>b b'. browser.run sample_wx env_x86 [(sample_choices, BAddServer (offer ''b.z64''))] sample_browser = Some b \<and>
     ItemActivated sample_wx env_x86 sample_choices 0 b = Some (Inr b') \<and>
     m_DataViewListCtrl_Servers b' = m_DataViewListCtrl_Servers b) \<and>
   (\<exists>b. browser.run sample_wx env_x86 [(sample_choices, BAddServer (offer [CHR 0xE9]))] sample_browser = Some b \<and>
     ItemActivated sample_wx env_x86 sample_choices 0 b = Some (Inl OutOfBounds))"
proof -
  have small: "\<forall>p content. fs_files sample_fs p = Some content \<longrightarrow> length content < 2 ^ 32"
    by (auto simp: sample_fs_def split: if_splits)
  have names: "get_sanitizedromname sample_wx ''b.z64'' = ''b.z64''" "get_sanitizedromname sample_wx [CHR 0xE9] = [CHR 0xE9]"
    by (simp_all add: get_sanitizedromname_def sample_wx_def)
  have none: "fs_files sample_fs (rom_file sample_wx ''b.z64'') = None" "fs_files sample_fs (rom_file sample_wx [CHR 0xE9]) = None"
    by (simp_all add: sample_fs_def rom_file_def sample_wx_def)
  have fits: "length (c_string (wx_mb_str sample_wx (rom_file sample_wx ''b.z64''))) \<le> length (rom_file sample_wx ''b.z64'')"
    "\<not> length (c_string (wx_mb_str sample_wx (rom_file sample_wx [CHR 0xE9]))) \<le> length (rom_file sample_wx [CHR 0xE9])"
    by (simp_all add: rom_file_def sample_wx_def utf8_wx_def c_string_def of_char_def)
  have cell: "server_row (offer name) name ! column COLUMN_ROM = name"
    "server_row (offer name) name ! column COLUMN_ROMONMASTER = ''1''"
    "length (server_row (offer name) name ! column COLUMN_ROMHASH) = 64" for name
    using length_concat_fmt [of "replicate 32 0xAB"]
    by (simp_all add: server_row_def offer_def sample_found_def del: replicate.simps map_replicate)
  have yes: "ch_yes sample_choices" by (simp add: sample_choices_def)
  obtain b c where b: "browser.run sample_wx env_x86 [(sample_choices, BAddServer (offer ''b.z64''))] sample_browser = Some b"
      "m_DataViewListCtrl_Servers b = [server_row (offer ''b.z64'') ''b.z64'']" "fs_files (sb_fs b) = fs_files sample_fs"
    and c: "browser.run sample_wx env_x86 [(sample_choices, BAddServer (offer [CHR 0xE9]))] sample_browser = Some c"
      "m_DataViewListCtrl_Servers c = [server_row (offer [CHR 0xE9]) [CHR 0xE9]]" "fs_files (sb_fs c) = fs_files sample_fs"
    using offer_listed [of "''b.z64''"] offer_listed [of "[CHR 0xE9]"] by auto
  note act = rows_can_be_activated [OF sample_wx_documented sample_choices_ok alloc_ok_instances _ _ refl, of _ True 0 Map.empty "[]" no_queues sample_fs,
      folded sample_browser_def, of _ _ 0]
  show ?thesis
    using act [OF b(1)] act [OF c(1)] b c small names none fits cell yes by (simp add: Let_def)
qed

text \<open>Activating the row of a reported server whose ROM name is in the folder, with a path
  that fits its copy, joins the server exactly when the file has the server's hash: one client
  window is opened with that file and the server's address, and the finder thread is stopped so
  that it takes no packets away. Another file under the name only gives a message.\<close>

theorem present_rom_decides:
  assumes "wx_documented wx" "choices_ok ch" "alloc_ok env" "\<not> sublist ''</span>'' (fs_romname server)"
    and "add_server wx env (ch_ctx ch) server b = Some b'" "row = length (m_DataViewListCtrl_Servers b)"
    and "path = rom_file wx (fs_romname server)" "copy_fits wx path"
    and "fs_files (sb_fs b) path = Some content" "length content < 2 ^ 32"
  shows "\<exists>b''. ItemActivated wx env ch row b' = Some (Inr b'') \<and>
    (if fs_opens (sb_fs b) path \<and> fs_romhash server = concat (map fmt_02X (fips_sha256 content))
     then \<exists>w es. sb_clients b'' = sb_clients b' @ [(w, es)] \<and> m_ROMPath w = path \<and>
       (m_ServerAddress w, m_ServerPort w) = address_fromstr wx (fs_fulladdress server) (ch_garbage ch) \<and>
       \<not> m_FinderThread b'' \<and> sb_dialogs b'' = sb_dialogs b'
     else sb_clients b'' = sb_clients b' \<and>
       map fst (sb_dialogs b'') = map fst (sb_dialogs b') @ [''Bad ROM found''])"
proof -
  have small: "\<forall>content. fs_files (sb_fs b) path = Some content \<longrightarrow> length content < 2 ^ 32"
    using assms(9,10) by simp
  have has: "has_rom (sb_fs b) path (fs_romhash server) \<longleftrightarrow>
      fs_opens (sb_fs b) path \<and> fs_romhash server = concat (map fmt_02X (fips_sha256 content))"
    using assms(9) by (simp add: has_rom_def)
  obtain message where act: "ItemActivated wx env ch row b' = Some (
      if has_rom (sb_fs b) path (fs_romhash server) then CreateClient wx env ch path (fs_fulladdress server) b'
      else Inr (ShowDialog ''Bad ROM found'' message b'))"
    using listed_server [OF assms(1-5,7) small] assms(6,9) by auto
  show ?thesis
    using CreateClient_outcome [OF assms(3), of wx path ch "fs_fulladdress server" b'] assms(8)
    unfolding act has [symmetric] joined_def by (auto simp: ShowDialog_def)
qed

text \<open>Activating the row of a reported server whose ROM is not in the folder, with a plain path:
  a ROM that the master does not have only gives a message; one that it has is asked for, after
  the user agrees, by file name and the 32 bytes of its hash, and exactly a completed download
  opens the client, while any other end of it posts a cancellation.\<close>

theorem absent_rom_downloads:
  assumes "wx_documented wx" "choices_ok ch" "alloc_ok env" "\<not> sublist ''</span>'' (fs_romname server)"
    and "add_server wx env (ch_ctx ch) server b = Some b'" "row = length (m_DataViewListCtrl_Servers b)"
    and "path = rom_file wx (fs_romname server)" "plain_text path" "fs_files (sb_fs b) path = None"
    and "length hash = 32" "fs_romhash server = concat (map fmt_02X hash)"
  shows "\<exists>b''. ItemActivated wx env ch row b' = Some (Inr b'') \<and>
    (if \<not> fs_romdownloadable server
     then sb_clients b'' = sb_clients b' \<and> sb_queue b'' = sb_queue b' \<and>
       map fst (sb_dialogs b'') = map fst (sb_dialogs b') @ [''ROM Unavailable'']
     else if \<not> ch_yes ch then sb_clients b'' = sb_clients b' \<and> sb_queue b'' = sb_queue b'
     else length (sb_clients b'') = length (sb_clients b') + (if ch_download ch = 1 then 1 else 0) \<and>
       sb_queue b'' = sb_queue b' @
         [\<lparr>im_type = TEVENT_FILENAME, im_data = Some (str_bytes path @ [0])\<rparr>,
          \<lparr>im_type = TEVENT_DODL, im_data = Some hash\<rparr>] @
         (if ch_download ch = 1 then [] else [\<lparr>im_type = TEVENT_CANCELDL, im_data = None\<rparr>]))"
proof -
  have small: "\<forall>content. fs_files (sb_fs b) path = Some content \<longrightarrow> length content < 2 ^ 32"
    using assms(9) by simp
  have "length (ch_stack ch) = 32" "mb_str_documented wx"
    using assms(1,2) by (simp_all add: choices_ok_def wx_documented_def)
  note dl = download_messages_plain [OF assms(1,3) this(1) assms(10,8)]
    and fits = conjunct2 [OF new_c_string_plain [OF assms(3) this(2) assms(8)]]
  obtain message where act: "ItemActivated wx env ch row b' = Some (
    if fs_romdownloadable server
    then (let k = ShowDialog ''Download ROM?'' message b' in
      if ch_yes ch
      then rbind (RequestDownload wx env ch (fs_romhash server) path (k\<lparr>m_DownloadWindow := Some new_ROMDownloadWindow\<rparr>))
        (\<lambda>b'. if ch_download ch \<noteq> 1
           then Inr (post_message \<lparr>im_type = TEVENT_CANCELDL, im_data = None\<rparr>
             (ShowDialog ''ROM Download Failed'' ''ROM download was unsuccessful.'' b'))
           else CreateClient wx env ch path (fs_fulladdress server) b')
      else Inr k)
    else Inr (ShowDialog ''ROM Unavailable'' message b'))"
    using listed_server [OF assms(1-5,7) small] assms(6,9) by auto
  let ?k = "(StartThread_Finder (ch_runs ch) ((ShowDialog ''Download ROM?'' message b')\<lparr>m_DownloadWindow := Some new_ROMDownloadWindow\<rparr>))
    \<lparr>sb_queue := sb_queue b' @ [\<lparr>im_type = TEVENT_FILENAME, im_data = Some (str_bytes path @ [0])\<rparr>,
       \<lparr>im_type = TEVENT_DODL, im_data = Some hash\<rparr>]\<rparr>"
  have k: "sb_clients ?k = sb_clients b'" by (simp add: StartThread_Finder_def ShowDialog_def)
  show ?thesis
    unfolding act RequestDownload_def assms(11) dl
    using CreateClient_outcome [OF assms(3), of wx path ch "fs_fulladdress server" ?k] k fits
    by (auto simp: Let_def ShowDialog_def post_message_def StartThread_Finder_def joined_def cong: if_cong)
qed

lemma sample_ctx: "length (ctx_data (ch_ctx sample_choices)) = 64"
  by (simp add: sample_choices_def blank_ctx_def)

lemma present_rom_decides_witness:
  "\<exists>b' b'' w es. add_server sample_wx env_x86 blank_ctx (sample_server\<lparr>fs_romname := ''a.z64'',
       fs_romhash := concat (map fmt_02X (fips_sha256 [1, 2, 3]))\<rparr>) sample_browser = Some b' \<and>
     ItemActivated sample_wx env_x86 sample_choices 0 b' = Some (Inr b'') \<and> sb_clients b'' = [(w, es)] \<and>
     m_ROMPath w = ''roms/a.z64'' \<and> m_ServerAddress w = ''host'' \<and> m_ServerPort w = 6464"
proof -
  let ?s = "sample_server\<lparr>fs_romname := ''a.z64'', fs_romhash := concat (map fmt_02X (fips_sha256 [1, 2, 3]))\<rparr>"
  have at_path: "rom_file sample_wx ''a.z64'' = ''roms/a.z64''" by (simp add: rom_file_def sample_wx_def)
  have content: "fs_files sample_fs ''roms/a.z64'' = Some [1, 2, 3]" "fs_opens sample_fs ''roms/a.z64''"
    by (simp_all add: sample_fs_def)
  obtain rom where add: "add_server sample_wx env_x86 (ch_ctx sample_choices) ?s sample_browser =
      Some (sample_browser\<lparr>sb_fs := with_roms_dir sample_fs, m_DataViewListCtrl_Servers := [server_row ?s rom]\<rparr>)"
    using add_server_row [OF sample_ctx alloc_ok_instances, of sample_browser sample_wx ?s] content
    by (auto simp: at_path)
  have addr: "address_fromstr sample_wx (fs_fulladdress sample_server) n = (''host'', 6464)" for n
    by (simp add: address_fromstr_def sample_wx_def sample_server_def)
  have nosub: "\<not> sublist ''</span>'' ''a.z64''" by (simp add: sublist_code)
  have fits: "copy_fits sample_wx ''roms/a.z64''"
    by (simp add: copy_fits_def sample_wx_def utf8_wx_def c_string_def of_char_def)
  from present_rom_decides [OF sample_wx_documented sample_choices_ok alloc_ok_instances _ add _ refl, of 0 "[1, 2, 3]"]
  show ?thesis
    using add nosub content fits by (auto simp: at_path addr sample_choices_def)
qed

lemma absent_rom_downloads_witness:
  "\<exists>b' b''. add_server sample_wx env_x86 blank_ctx sample_found sample_browser = Some b' \<and>
     ItemActivated sample_wx env_x86 sample_choices 0 b' = Some (Inr b'') \<and> length (sb_clients b'') = 1 \<and>
     \<lparr>im_type = TEVENT_DODL, im_data = Some (replicate 32 0xAB)\<rparr> \<in> set (sb_queue b'')"
proof -
  have none: "fs_files sample_fs (rom_file sample_wx ''b.z64'') = None" using sample_no_rom by simp
  have nosub: "\<not> sublist ''</span>'' ''b.z64''" by (simp add: sublist_code)
  have found: "fs_romname sample_found = ''b.z64''" "fs_romdownloadable sample_found"
    "fs_romhash sample_found = concat (map fmt_02X (replicate 32 0xAB))"
    by (simp_all add: sample_found_def)
  obtain rom where add: "add_server sample_wx env_x86 (ch_ctx sample_choices) sample_found sample_browser =
      Some (sample_browser\<lparr>sb_fs := with_roms_dir sample_fs, m_DataViewListCtrl_Servers := [server_row sample_found rom]\<rparr>)"
    using add_server_row [OF sample_ctx alloc_ok_instances, of sample_browser sample_wx sample_found] none
    by (auto simp: found)
  have plain: "plain_text (rom_file sample_wx ''b.z64'')" by (simp add: plain_text_def rom_file_def sample_wx_def)
  from absent_rom_downloads [OF sample_wx_documented sample_choices_ok alloc_ok_instances _ add _ refl,
      of 0 "replicate 32 0xAB"]
  show ?thesis
    using add nosub none plain by (auto simp: found(1,2) found(3) sample_choices_def simp del: replicate.simps)
qed

text \<open>Moving the mouse from another cell of a row to its ROM cell shows nothing: the other
  cell has already made this the last row, so the tooltip is not set.\<close>

theorem tooltip_missed:
  assumes "c \<noteq> column COLUMN_ROM" "sb_lastrow b \<noteq> int row"
  shows "\<exists>b'. ROM_OnMotion wx env ctx (Some (row, c)) b = Some (Inr b') \<and>
    ROM_OnMotion wx env ctx (Some (row, column COLUMN_ROM)) b' = Some (Inr b') \<and> sb_tooltip b' = []"
  using assms by (simp add: ROM_OnMotion_def)

lemma tooltip_missed_witness:
  "\<exists>b. ROM_OnMotion sample_wx env_x86 blank_ctx (Some (0, 2)) sample_browser = Some (Inr b) \<and>
     ROM_OnMotion sample_wx env_x86 blank_ctx (Some (0, 3)) b = Some (Inr b) \<and> sb_tooltip b = []"
  using tooltip_missed [of 2 sample_browser 0 sample_wx env_x86 blank_ctx]
  by (auto simp: sample_browser_def new_ServerBrowser_def Let_def ConnectMaster_def post_message_def
      StartThread_Finder_def StopThread_Finder_def ClearServers_def split: prod.splits)

text \<open>A manual connection with a plain path to an address without a port uses whatever the
  uninitialised port variable holds.\<close>

theorem manual_port_uninitialised:
  assumes "wx_tokens wx address '':'' = [address]" "alloc_ok env" "mb_str_documented wx" "plain_text path"
  shows "\<exists>b' w es. m_Button_Connect_OnButtonClick wx env ch path address b = Inr b' \<and>
    sb_clients b' = sb_clients b @ [(w, es)] \<and> m_ServerAddress w = address \<and> m_ServerPort w = ch_garbage ch"
  using CreateClient_outcome [OF assms(2), of wx path ch address
      "b\<lparr>sb_config := (sb_config b)(''ManualAddress'' \<mapsto> address, ''ManualROMPath'' \<mapsto> path)\<rparr>"]
    new_c_string_plain [OF assms(2-4)] assms(1)
  by (auto simp: m_Button_Connect_OnButtonClick_def address_fromstr_def joined_def)

lemma manual_port_uninitialised_witness:
  "\<exists>b w es. m_Button_Connect_OnButtonClick sample_wx env_x86 (sample_choices\<lparr>ch_garbage := 77\<rparr>) ''a.z64'' ''host''
     sample_browser = Inr b \<and> sb_clients b = [(w, es)] \<and> m_ServerPort w = 77"
  using manual_port_uninitialised [of sample_wx "''host''" env_x86 "''a.z64''" "sample_choices\<lparr>ch_garbage := 77\<rparr>" sample_browser]
    sample_wx_documented
  by (auto simp: sample_wx_def wx_documented_def plain_text_def)

end
