(* ===== verification/NL_App.thy ===== *)
theory NL_App
  imports NL_Browser
begin

text \<open>
  The start of the client, \<open>App::OnInit\<close> of \<^verbatim>\<open>Client App/app.cpp\<close>: the configuration file is
  looked up, and the server browser is opened with it. The property follows the start, and a
  change of the master server, through to the datagram that asks for the server list.
\<close>

section \<open>OnInit\<close>

text \<open>
  What the start finds: whether wxWidgets initialises, the user's configuration directory, the
  entries of every configuration file, whether threads start, and what an uninitialised port
  holds. Images, the window's icon and the initialisation of the libraries are left out.
\<close>

record startup =
  su_init :: bool
  su_confdir :: wxString
  su_config :: "wxString \<Rightarrow> wxString \<Rightarrow> wxString option"
  su_runs :: bool
  su_garbage :: int

definition config_path :: "wxlib \<Rightarrow> startup \<Rightarrow> wxString" where
  "config_path wx su =
     su_confdir su @ [wx_GetPathSeparator wx] @ ''N64NetLibBrowser'' @ [wx_GetPathSeparator wx]"

definition App_OnInit :: "wxlib \<Rightarrow> startup \<Rightarrow> fs \<Rightarrow> ServerBrowser option" where
  "App_OnInit wx su fs =
     (if \<not> su_init su then None else
      let cfgpath = config_path wx su;
          fs = (if cfgpath \<in> set (fs_dirs fs) then fs else fs\<lparr>fs_dirs := cfgpath # fs_dirs fs\<rparr>)
      in Some (new_ServerBrowser wx (su_runs su) (su_garbage su) (su_config su (cfgpath @ ''config.cfg''))
                 [] no_queues fs))"

section \<open>The list request\<close>

definition quiet_moment :: "InputMessage list \<Rightarrow> int \<Rightarrow> moment" where
  "quiet_moment queue now = \<lparr>mo_now = now, mo_inbox = [], mo_queue = queue, mo_rounds = []\<rparr>"

text \<open>The first round of a finder thread that is asked for the list.\<close>

lemma first_round_lists:
  assumes "alloc_ok env" "\<forall>a p d. env_send env a p d"
  shows "\<exists>pkt f. Entry wx env garbage pct [quiet_moment [\<lparr>im_type = TEVENT_DOLIST, im_data = None\<rparr>] now]
      (entry_start address port memory dlw fs) = Some (Inr f) \<and>
    sock_sent (f_sock f) = [(address, port, S64_wire pkt)] \<and>
    S64_wf pkt \<and> m_Derived pkt = S64 ''LIST'' \<and> m_Data pkt = []"
proof -
  let ?h = "new_UDPHandler address port" and ?s = "(new_ASIOSocket address port)\<lparr>m_LastReadCount := 0\<rparr>"
  have "can_send env ?h" using assms(2) by (simp add: can_send_def)
  from send_new_unreliable [OF assms(1) this, of 0 "[]" "''LIST''" now ?s]
  obtain pkt where "send_new env now ''LIST'' 0 [] ?s ?h = (Inr (), transmit ?h (S64_wire pkt) ?s, ?h)"
    "S64_wf pkt" "m_Derived pkt = S64 ''LIST''" "m_Data pkt = []" by auto
  then show ?thesis
    by (intro exI [of _ pkt]) (simp add: arrive_def entry_start_def ASIOSocket_Read_def entry_round_def entry_body_def
        read_loop.simps LastReadCount_def ResendMissingPackets_def new_UDPHandler_def new_ASIOSocket_def
        quiet_moment_def transmit_def)
qed

lemma default_address:
  "DEFAULT_MASTERSERVER_ADDRESS @ '':'' @ dec_int DEFAULT_MASTERSERVER_PORT = ''master.n64brew.dev:6464''"
proof -
  have digits: "char_of (52 :: nat) = CHR ''4''" "char_of (54 :: nat) = CHR ''6''" by code_simp+
  have "dec_nat 6464 = ''6464''" by (simp add: dec_nat.simps digits)
  then show ?thesis by (simp add: DEFAULT_MASTERSERVER_ADDRESS_def DEFAULT_MASTERSERVER_PORT_def dec_int_def)
qed

text \<open>A new browser has read its address and asked for the list.\<close>

lemma new_browser_asks:
  assumes "wx_tokens wx (case config ''MasterAddress'' of
      None \<Rightarrow> DEFAULT_MASTERSERVER_ADDRESS @ '':'' @ dec_int DEFAULT_MASTERSERVER_PORT | Some s \<Rightarrow> s) '':'' = [host, number]"
  shows "m_FinderThread (new_ServerBrowser wx True garbage config [] q fs)"
    "sb_open (new_ServerBrowser wx True garbage config [] q fs)"
    "sb_queue (new_ServerBrowser wx True garbage config [] q fs) = [\<lparr>im_type = TEVENT_DOLIST, im_data = None\<rparr>]"
    "ServerBrowser_GetAddress (new_ServerBrowser wx True garbage config [] q fs) = host"
    "ServerBrowser_GetPort (new_ServerBrowser wx True garbage config [] q fs) = wx_ToInt wx number garbage"
  by (simp_all add: new_ServerBrowser_def Let_def address_fromstr_def assms ConnectMaster_def post_message_def
      StartThread_Finder_def StopThread_Finder_def ClearServers_def ServerBrowser_GetAddress_def ServerBrowser_GetPort_def
      split del: option.split)

section \<open>Properties\<close>

text \<open>A start that succeeds opens the browser with the finder thread running, and the
  thread's first round sends the master server of the configuration file, or else the default
  one, one packet that asks for the list; after the user has typed another address and pressed
  refresh the list is empty, and a new thread asks the server of that address.\<close>

theorem start_requests_list:
  assumes "alloc_ok env" "\<forall>a p d. env_send env a p d" "su_init su" "su_runs su"
    and "App_OnInit wx su fs = Some b"
    and "wx_tokens wx (case su_config su (config_path wx su @ ''config.cfg'') ''MasterAddress'' of
        None \<Rightarrow> ''master.n64brew.dev:6464'' | Some s \<Rightarrow> s) '':'' = [host, number]"
    and "wx_tokens wx text '':'' = [host', number']"
    and "c = Refresh_OnToolClicked True (MasterServerAddress_OnText wx text (b\<lparr>sb_queue := []\<rparr>))"
    and "first = (\<lambda>w. Entry wx env garbage pct [quiet_moment (sb_queue w) now]
      (entry_start (ServerBrowser_GetAddress w) (ServerBrowser_GetPort w) memory dlw (sb_fs w)))"
  shows "m_FinderThread b \<and> sb_open b \<and>
    (\<exists>f pkt. first b = Some (Inr f) \<and> sock_sent (f_sock f) = [(host, wx_ToInt wx number (su_garbage su), S64_wire pkt)] \<and>
       m_Derived pkt = S64 ''LIST'' \<and> m_Data pkt = []) \<and>
    m_FinderThread c \<and> m_DataViewListCtrl_Servers c = [] \<and>
    (\<exists>f pkt. first c = Some (Inr f) \<and>
       sock_sent (f_sock f) = [(host', wx_ToInt wx number' (ServerBrowser_GetPort b), S64_wire pkt)] \<and>
       m_Derived pkt = S64 ''LIST'' \<and> m_Data pkt = [])"
proof -
  let ?list = "[\<lparr>im_type = TEVENT_DOLIST, im_data = None\<rparr>]"
  let ?config = "su_config su (config_path wx su @ ''config.cfg'')"
  have "\<exists>fs'. b = new_ServerBrowser wx True (su_garbage su) (su_config su (config_path wx su @ ''config.cfg'')) [] no_queues fs'"
    using assms(3-5) by (simp only: App_OnInit_def Let_def if_True not_True_eq_False if_False option.inject) blast
  then have b: "m_FinderThread b" "sb_open b" "sb_queue b = ?list" "ServerBrowser_GetAddress b = host"
    "ServerBrowser_GetPort b = wx_ToInt wx number (su_garbage su)"
    using new_browser_asks [of wx ?config host number] assms(6) unfolding default_address by blast+
  have c: "m_FinderThread c" "m_DataViewListCtrl_Servers c = []" "sb_queue c = ?list"
    "ServerBrowser_GetAddress c = host'" "ServerBrowser_GetPort c = wx_ToInt wx number' (ServerBrowser_GetPort b)"
    using assms(7) by (auto simp: assms(8) Refresh_OnToolClicked_def MasterServerAddress_OnText_def address_fromstr_def
      ConnectMaster_def post_message_def StartThread_Finder_def StopThread_Finder_def ClearServers_def
      ServerBrowser_GetAddress_def ServerBrowser_GetPort_def)
  have "\<exists>f pkt. first w = Some (Inr f) \<and>
      sock_sent (f_sock f) = [(ServerBrowser_GetAddress w, ServerBrowser_GetPort w, S64_wire pkt)] \<and>
      m_Derived pkt = S64 ''LIST'' \<and> m_Data pkt = []" if "sb_queue w = ?list" for w
    using first_round_lists [OF assms(1,2), of wx garbage pct now "ServerBrowser_GetAddress w"
        "ServerBrowser_GetPort w" memory dlw "sb_fs w"] unfolding assms(9) that by blast
  from this [OF b(3)] this [OF c(3)] show ?thesis using b c by simp
qed

definition sample_startup :: startup where
  "sample_startup = \<lparr>su_init = True, su_confdir = ''/home'',
     su_config = (\<lambda>_. [''MasterAddress'' \<mapsto> ''host:6464'']), su_runs = True, su_garbage = -1\<rparr>"

lemma start_requests_list_witness:
  "\<exists>b f pkt. App_OnInit sample_wx sample_startup sample_fs = Some b \<and>
     Entry sample_wx env_x86 0 (\<lambda>_ _. 0) [quiet_moment (sb_queue b) 7]
       (entry_start (ServerBrowser_GetAddress b) (ServerBrowser_GetPort b) [] new_ROMDownloadWindow (sb_fs b)) = Some (Inr f) \<and>
     sock_sent (f_sock f) = [(''host'', 6464, S64_wire pkt)] \<and> m_Derived pkt = S64 ''LIST''"
proof -
  obtain b where b: "App_OnInit sample_wx sample_startup sample_fs = Some b"
    by (simp add: App_OnInit_def sample_startup_def Let_def)
  have su: "su_init sample_startup" "su_runs sample_startup"
    "wx_tokens sample_wx (case su_config sample_startup (config_path sample_wx sample_startup @ ''config.cfg'') ''MasterAddress'' of
        None \<Rightarrow> ''master.n64brew.dev:6464'' | Some s \<Rightarrow> s) '':'' = [''host'', ''6464'']"
    "wx_tokens sample_wx ''host:6464'' '':'' = [''host'', ''6464'']"
    by (simp_all add: sample_startup_def sample_wx_def)
  show ?thesis
    using start_requests_list [OF _ _ su(1,2) b su(3,4) refl refl, of env_x86 0 "\<lambda>_ _. 0" 7 "[]" new_ROMDownloadWindow] b
    by (auto simp: sample_wx_def)
qed

end
