(* ===== verification/NL_Session.thy ===== *)
theory NL_Session
  imports NL_Relay
begin

text \<open>
  Two handlers that talk to each other over a network that loses, repeats and reorders
  datagrams, as a step relation over the code's own operations. The lemmas give an invariant
  of all reachable states that says what an acknowledgement on the wire can mean, that a
  packet is only forgotten after its number has arrived, and the two ways in which that is
  weaker than it should be.
\<close>

section \<open>The network\<close>

text \<open>
  Each side is a Boolean. \<open>wires\<close> holds every datagram a side has sent: the network may deliver
  any of them, any number of times and in any order, or never. \<open>got\<close> are the packets that have
  been delivered to a side, duplicates included.
\<close>

record net =
  hs :: "bool \<Rightarrow> UDPHandler"
  wires :: "bool \<Rightarrow> byte list list"
  got :: "bool \<Rightarrow> AbstractPacket list"

definition io :: ASIOSocket where
  "io = new_ASIOSocket [] 0"

definition emitted :: "ASIOSocket \<Rightarrow> byte list list" where
  "emitted sock = map (\<lambda>(_, _, d). d) (sock_sent sock)"

definition moved :: "bool \<Rightarrow> UDPHandler \<Rightarrow> ASIOSocket \<Rightarrow> AbstractPacket list \<Rightarrow> net \<Rightarrow> net" where
  "moved x h sock ps s = s\<lparr>hs := (hs s)(x := h), wires := (wires s)(x := wires s x @ emitted sock),
     got := (got s)(x := got s x @ ps)\<rparr>"

text \<open>
  A side sends a new packet, reads a datagram that the other side has sent (with whatever the
  buffer holds behind it), or resends what is due. A side that has to give up a packet throws
  and leaves the network, which is no step. The network holds back what would make the two
  undefined shifts of the code hit the ack field: a side only sends (its own packet, or the ack
  of what it has read) while the shifts for its received list are harmless (\<open>shl_safe\<close>), and it
  is only given a datagram whose shifts for its pending numbers are (\<open>ack_safe\<close>). By
  \<open>near_numbers\<close> below that covers, on x86 and 64-bit ARM, lists no more than 32 numbers long
  in arrears and pending numbers from 32 before the ack to 15 after it; beyond, theorems
  \<open>stale_shift_acks_unreceived\<close> and \<open>future_number_acked\<close> show what goes wrong.
\<close>

definition takes_safely :: "env \<Rightarrow> UDPHandler \<Rightarrow> AbstractPacket \<Rightarrow> bool" where
  "takes_safely env h p \<longleftrightarrow> (\<forall>q \<in> set (m_AcksLeft_TX h). ack_safe env (m_Ack p) (m_SequenceNum q))"

inductive net_step :: "env \<Rightarrow> net \<Rightarrow> net \<Rightarrow> bool" for env where
  NSend: "NetLib_wf pkt \<Longrightarrow> m_SendAttempts pkt = 0 \<Longrightarrow> shl_safe env (hs s x) \<Longrightarrow>
    SendPacket env now io (hs s x) pkt = (Inr (), sock, h, pkt') \<Longrightarrow> net_step env s (moved x h sock [] s)"
| NRecv: "d \<in> set (wires s (\<not> x)) \<Longrightarrow> NetLibPacket_FromBytes env d = Inr (Some p) \<Longrightarrow>
    takes_safely env (hs s x) p \<Longrightarrow> shl_safe env h \<Longrightarrow>
    ReadNetLibPacket env now io (hs s x) (d @ rest) = (Inr r, sock, h) \<Longrightarrow>
    net_step env s (moved x h sock [p] s)"
| NResend: "\<forall>p \<in> set (m_AcksLeft_TX (hs s x)). due now p \<longrightarrow> \<not> exhausted p \<Longrightarrow>
    ResendMissingPackets env now io (hs s x) = (Inr (), sock, h) \<Longrightarrow> net_step env s (moved x h sock [] s)"

inductive net_reach :: "env \<Rightarrow> net \<Rightarrow> bool" for env where
  NStart: "net_reach env \<lparr>hs = (\<lambda>x. new_UDPHandler (if x then a else b) n), wires = (\<lambda>_. []), got = (\<lambda>_. [])\<rparr>"
| NStep: "net_reach env s \<Longrightarrow> net_step env s t \<Longrightarrow> net_reach env t"

lemma moved_simps [simp]:
  "hs (moved x h sock ps s) y = (if y = x then h else hs s y)"
  "wires (moved x h sock ps s) y = (if y = x then wires s x @ emitted sock else wires s y)"
  "got (moved x h sock ps s) y = (if y = x then got s x @ ps else got s y)"
  by (simp_all add: moved_def)

lemma emitted_simps [simp]:
  "emitted io = []" "emitted (transmit h d sock) = emitted sock @ [d]"
  "emitted (transmit_all h ds sock) = emitted sock @ ds"
  by (simp_all add: emitted_def io_def new_ASIOSocket_def transmit_def transmit_all_def comp_def)

section \<open>What the steps send\<close>

definition open_net :: "env \<Rightarrow> bool" where
  "open_net env \<longleftrightarrow> alloc_ok env \<and> (\<forall>a p d. env_send env a p d)"

lemma open_net_x86 [simp]: "open_net env_x86"
  by (simp add: open_net_def)

lemma open_netD:
  assumes "open_net env"
  shows "alloc_ok env" "can_send env h"
  using assms by (simp_all add: open_net_def can_send_def)

text \<open>What the guards of the steps ask for on a machine that masks the shift count.\<close>

lemma near_numbers:
  assumes "shl_masks env"
  shows "\<forall>p \<in> set (m_AcksLeft_RX h). unat (m_RemoteSeqNum h - m_SequenceNum p) \<le> 32 \<Longrightarrow> shl_safe env h"
    and "\<forall>q \<in> set (m_AcksLeft_TX h). unat (m_Ack p - m_SequenceNum q) \<le> 32 \<or>
      unat (m_SequenceNum q - m_Ack p) \<le> 15 \<Longrightarrow> takes_safely env h p"
  using assms by (auto simp: shl_safe_def takes_safely_def ack_safe_masks)

lemma SendPacket_emits:
  assumes "open_net env" "NetLib_wf pkt" "m_SendAttempts pkt = 0"
    and "SendPacket env now io h pkt = (r, sock, h', pkt')"
  shows "pkt' = stamp env h (UpdateSendAttempt now pkt)"
    and "NetLib_wf pkt' \<and> emitted sock = [NetLib_wire pkt']"
    and "h' = (if reliable pkt then consume h pkt' else h)"
proof -
  have wf: "pkt_wf pkt" using pkt_wire_NetLib [OF assms(2)] by simp
  have p: "NetLib_wf (stamp env h (UpdateSendAttempt now pkt))"
    using assms(2) by (simp add: NetLib_wf_def pkt_inv_def stamp_def packet_setters)
  have "(r, sock, h', pkt') = (Inr (), transmit h (NetLib_wire (stamp env h (UpdateSendAttempt now pkt))) io,
      if reliable pkt then consume h (stamp env h (UpdateSendAttempt now pkt)) else h,
      stamp env h (UpdateSendAttempt now pkt))"
    using open_netD(2) [OF assms(1), of h] assms(3) pkt_wire_NetLib [OF p]
    unfolding assms(4) [symmetric] SendPacket_cases [OF open_netD(1) [OF assms(1)] wf]
    by (simp add: can_send_def sent_form_def Let_def)
  then show "pkt' = stamp env h (UpdateSendAttempt now pkt)"
    and "NetLib_wf pkt' \<and> emitted sock = [NetLib_wire pkt']"
    and "h' = (if reliable pkt then consume h pkt' else h)"
    using p by auto
qed

lemma ReadNetLibPacket_emits:
  assumes "open_net env" "NetLib_wf p"
    and "ReadNetLibPacket env now io h (NetLib_wire p @ rest) = (r, sock, h')"
  shows "h' = (if duplicate h p then h else accept env h (unsent p)) \<and>
    (emitted sock = [] \<or> (\<exists>ack. NetLib_wf ack \<and> emitted sock = [NetLib_wire (stamp env h' ack)]))"
proof -
  note env = open_netD [OF assms(1)]
  obtain ack where ack: "MakeAck_NetLibPacket env = Inr ack" "NetLib_wf ack" "m_SendAttempts ack = 0"
    by (auto simp: MakeAck_eq NetLib_wf_def pkt_inv_def NETLIBPACKET_VERSION_def)
  have send: "\<exists>a. NetLib_wf a \<and> snd (send_ack env now io k MakeAck_NetLibPacket) =
      (transmit k (NetLib_wire (stamp env k a)) io, if reliable ack then consume k (stamp env k a) else k)" for k
  proof -
    let ?a = "UpdateSendAttempt now ack"
    have wf: "pkt_wf ack" "NetLib_wf ?a" "NetLib_wf (stamp env k ?a)"
      using ack(2) pkt_wire_NetLib [OF ack(2)]
      by (simp_all add: NetLib_wf_def pkt_inv_def stamp_def packet_setters)
    have "snd (send_ack env now io k MakeAck_NetLibPacket) =
        (transmit k (NetLib_wire (stamp env k ?a)) io, if reliable ack then consume k (stamp env k ?a) else k)"
      using env(2) [of k] ack(3) pkt_wire_NetLib [OF wf(3)]
      by (simp add: send_ack_def ack(1) SendPacket_cases [OF env(1) wf(1)] can_send_def sent_form_def Let_def)
    then show ?thesis using wf(2) by blast
  qed
  have unrel: "\<not> reliable ack"
    using ack(1) by (auto simp: MakeAck_eq reliable_def FLAG_UNRELIABLE_def)
  have parse: "NetLibPacket_FromBytes env (NetLib_wire p @ rest) = Inr (Some (unsent p))"
    "IsNetLibPacket (NetLib_wire p @ rest) = Inr True"
    using NetLib_decode_wire [OF env(1) assms(2)] by (simp_all add: IsNetLibPacket_def NetLib_wire_def)
  define k where "k = (if duplicate h p then h else accept env h (unsent p))"
  obtain a where a: "NetLib_wf a" "snd (send_ack env now io k MakeAck_NetLibPacket) =
      (transmit k (NetLib_wire (stamp env k a)) io, k)"
    using send [of k] unrel by auto
  have "(if \<not> duplicate h p then accept env h (unsent p) else h) = k" by (simp add: k_def)
  then have "h' = k \<and> (sock = io \<or> sock = transmit k (NetLib_wire (stamp env k a)) io)"
    using assms(3) a(2) unfolding ReadNetLibPacket_def parse HandlePacketSequence_eq Let_def
    by (auto split: if_splits prod.splits)
  then show ?thesis using a(1) by (auto simp: k_def)
qed

section \<open>The invariant\<close>

text \<open>What a packet of side \<open>x\<close> acknowledges has been delivered to \<open>x\<close>, or is the number 0.\<close>

definition cites :: "net \<Rightarrow> bool \<Rightarrow> AbstractPacket \<Rightarrow> bool" where
  "cites s x p \<longleftrightarrow> NetLib_wf p \<and> (\<forall>n. acks p n \<longrightarrow> n = 0 \<or> n \<in> set (seqs (got s x)))"

definition side_inv :: "net \<Rightarrow> bool \<Rightarrow> bool" where
  "side_inv s x \<longleftrightarrow> handler_inv (hs s x) \<and> list_all (cites s x) (m_AcksLeft_TX (hs s x)) \<and>
     (\<forall>d \<in> set (wires s x). \<exists>p. d = NetLib_wire p \<and> cites s x p) \<and>
     (m_RemoteSeqNum (hs s x) = 0 \<or> m_RemoteSeqNum (hs s x) \<in> set (seqs (got s x))) \<and>
     set (seqs (m_AcksLeft_RX (hs s x))) \<subseteq> set (seqs (got s x))"

definition net_inv :: "net \<Rightarrow> bool" where
  "net_inv s \<longleftrightarrow> (\<forall>x. side_inv s x)"

lemma cites_more: "cites s x p \<Longrightarrow> set (seqs (got s x)) \<subseteq> set (seqs (got t x)) \<Longrightarrow> cites t x p"
  unfolding cites_def by blast

lemma cites_same: "got t x = got s x \<Longrightarrow> cites t x = cites s x"
  by (simp add: cites_def fun_eq_iff)

lemma cites_attempt [simp]: "cites s x (UpdateSendAttempt now p) = cites s x p"
  by (simp add: cites_def acks_def NetLib_wf_def pkt_inv_def packet_setters)

text \<open>A handler whose numbers have all been delivered stamps packets that cite delivered ones.\<close>

lemma cites_stamp:
  assumes "shl_safe env h" "NetLib_wf p" "m_RemoteSeqNum h = 0 \<or> m_RemoteSeqNum h \<in> set (seqs (got s x))"
    and "set (seqs (m_AcksLeft_RX h)) \<subseteq> set (seqs (got s x))"
  shows "cites s x (stamp env h p)"
  using assms(2-4) acks_stamp [OF assms(1), of p]
  by (auto simp: cites_def NetLib_wf_def pkt_inv_def)

text \<open>The side that does not move keeps its part.\<close>

lemma side_inv_other: "side_inv s y \<Longrightarrow> y \<noteq> x \<Longrightarrow> side_inv (moved x h sock ps s) y"
  using cites_same [of "moved x h sock ps s" y s] by (simp add: side_inv_def)

lemma side_inv_moved:
  assumes "side_inv s x" "handler_inv h" "list_all (cites t x) (m_AcksLeft_TX h)"
    and "\<forall>d \<in> set (emitted sock). \<exists>p. d = NetLib_wire p \<and> cites t x p"
    and "m_RemoteSeqNum h = 0 \<or> m_RemoteSeqNum h \<in> set (seqs (got t x))"
    and "set (seqs (m_AcksLeft_RX h)) \<subseteq> set (seqs (got t x))" "t = moved x h sock ps s"
  shows "side_inv t x"
proof -
  have more: "set (seqs (got s x)) \<subseteq> set (seqs (got t x))" by (simp add: assms(7))
  have "\<forall>d \<in> set (wires t x). \<exists>p. d = NetLib_wire p \<and> cites t x p"
    using assms(1,4) cites_more [OF _ more] by (fastforce simp: assms(7) side_inv_def)
  then show ?thesis using assms(2,3,5,6) by (simp add: side_inv_def assms(7))
qed

lemma net_inv_moved:
  assumes "net_inv s" "side_inv t x" "t = moved x h sock ps s"
  shows "net_inv t"
  unfolding net_inv_def
proof
  fix y
  show "side_inv t y"
  proof (cases "y = x")
    case False
    with assms(1) have "side_inv (moved x h sock ps s) y"
      unfolding net_inv_def by (blast intro: side_inv_other)
    then show ?thesis unfolding assms(3) .
  next
    case True
    then show ?thesis using assms(2) by (rule ssubst)
  qed
qed

lemma net_step_inv:
  assumes "open_net env" "net_inv s" "net_step env s t"
  shows "net_inv t"
  using assms(3)
proof (cases rule: net_step.cases)
  case (NSend pkt x now sock h pkt')
  note env = open_netD [OF assms(1)]
  note e = SendPacket_emits [OF assms(1) NSend(2,3,5)]
  have s: "side_inv s x" using assms(2) by (simp add: net_inv_def)
  have wf: "pkt_wf pkt" using pkt_wire_NetLib [OF NSend(2)] by simp
  have "handler_inv h"
    using handler_inv_send [OF env(1) _ _ wf NSend(3), of 5 "hs s x" now io] s NSend(5) by (simp add: side_inv_def)
  moreover have "cites t x pkt'"
    using cites_stamp [OF NSend(4), of "UpdateSendAttempt now pkt" t x] e NSend(2) s
    by (simp add: side_inv_def NSend(1) NetLib_wf_def pkt_inv_def packet_setters)
  moreover have "list_all (cites t x) (m_AcksLeft_TX (hs s x))"
    using s by (auto simp: side_inv_def list_all_iff NSend(1) cites_def)
  ultimately have P: "handler_inv h" "cites t x pkt'" "list_all (cites t x) (m_AcksLeft_TX (hs s x))"
    by blast+
  have got: "got t x = got s x" by (simp add: NSend(1))
  have h: "m_RemoteSeqNum h = m_RemoteSeqNum (hs s x)" "m_AcksLeft_RX h = m_AcksLeft_RX (hs s x)"
    "set (m_AcksLeft_TX h) \<subseteq> insert pkt' (set (m_AcksLeft_TX (hs s x)))"
    using e by (auto simp: consume_def)
  have tx: "list_all (cites t x) (m_AcksLeft_TX h)"
    using P(2,3) h(3) by (auto simp: list_all_iff)
  have em: "\<forall>d \<in> set (emitted sock). \<exists>p. d = NetLib_wire p \<and> cites t x p"
    using e P(2) by auto
  have "side_inv t x"
    by (rule side_inv_moved [OF s P(1) tx em _ _ NSend(1)])
      (use s in \<open>simp_all add: got h side_inv_def\<close>)
  then show ?thesis by (rule net_inv_moved [OF assms(2) _ NSend(1)])
next
  case (NRecv d x p h now rest r sock)
  note env = open_netD [OF assms(1)]
  have s: "side_inv s x" and s': "side_inv s (\<not> x)" using assms(2) by (simp_all add: net_inv_def)
  obtain q where q: "d = NetLib_wire q" "NetLib_wf q" using s' NRecv(2) by (auto simp: side_inv_def cites_def)
  have p: "p = unsent q" using NRecv(3) NetLib_decode_wire [OF env(1) q(2), of "[]"] by (simp add: q(1))
  note e = ReadNetLibPacket_emits [OF assms(1) q(2) NRecv(6) [unfolded q(1)]]
  have got: "set (seqs (got t x)) = insert (m_SequenceNum q) (set (seqs (got s x)))"
    by (simp add: NRecv(1) p)
  have "handler_inv h"
    using e s handler_inv_accept [of 5 "hs s x" "unsent q" env] by (auto simp: side_inv_def)
  moreover have "list_all (cites t x) (m_AcksLeft_TX h)"
  proof -
    have "set (m_AcksLeft_TX h) \<subseteq> set (m_AcksLeft_TX (hs s x))" using e by (auto simp: accept_def)
    moreover have "cites t x p'" if "cites s x p'" for p'
      using that got by (auto simp: cites_def)
    ultimately show ?thesis using s by (auto simp: side_inv_def list_all_iff)
  qed
  moreover have rem: "m_RemoteSeqNum h = 0 \<or> m_RemoteSeqNum h \<in> set (seqs (got t x))"
  proof -
    have "m_RemoteSeqNum h = m_RemoteSeqNum (hs s x) \<or> m_RemoteSeqNum h = m_SequenceNum q"
      using e by (auto simp: accept_def newer_def)
    then show ?thesis unfolding got using s by (auto simp: side_inv_def)
  qed
  moreover have rx: "set (seqs (m_AcksLeft_RX h)) \<subseteq> set (seqs (got t x))"
  proof -
    have "set (seqs (m_AcksLeft_RX h)) \<subseteq> insert (m_SequenceNum q) (set (seqs (m_AcksLeft_RX (hs s x))))"
      using e set_push_received [of "unsent q" "m_AcksLeft_RX (hs s x)"] by (auto simp: accept_def split: if_splits)
    moreover have "set (seqs (m_AcksLeft_RX (hs s x))) \<subseteq> set (seqs (got s x))"
      using s by (simp add: side_inv_def)
    ultimately show ?thesis unfolding got by blast
  qed
  moreover have "\<forall>d \<in> set (emitted sock). \<exists>p. d = NetLib_wire p \<and> cites t x p"
    using e cites_stamp [OF NRecv(5) _ rem rx] by auto
  ultimately have "side_inv t x" using side_inv_moved [OF s _ _ _ _ _ NRecv(1)] by simp
  then show ?thesis by (rule net_inv_moved [OF assms(2) _ NRecv(1)])
next
  case (NResend x now sock h)
  note env = open_netD [OF assms(1)]
  have s: "side_inv s x" using assms(2) by (simp add: net_inv_def)
  let ?tx = "m_AcksLeft_TX (hs s x)"
  have live: "list_all live ?tx" using s by (simp add: side_inv_def handler_upto_def)
  have R: "sock = transmit_all (hs s x) (map pkt_wire (filter (due now) ?tx)) io"
    "h = (hs s x)\<lparr>m_AcksLeft_TX := map (retry now) ?tx\<rparr>"
    using ResendMissingPackets_ok [OF env(1,2) live NResend(2), of io] NResend(3) by simp_all
  have cites: "list_all (cites t x) ?tx"
    using s by (auto simp: side_inv_def list_all_iff NResend(1) cites_def)
  then have "list_all (cites t x) (m_AcksLeft_TX h)"
    by (auto simp: R(2) list_all_iff retry_def)
  moreover have "\<forall>d \<in> set (emitted sock). \<exists>p. d = NetLib_wire p \<and> cites t x p"
  proof -
    have "pkt_wire p = NetLib_wire p" if "p \<in> set ?tx" for p
      using cites that pkt_wire_NetLib [of p] by (auto simp: list_all_iff cites_def)
    then show ?thesis using cites by (fastforce simp: R(1) list_all_iff)
  qed
  moreover have "handler_inv h"
    using handler_upto_resend [OF env(1), of 5 "hs s x", OF _ _ _ NResend(3)] s by (simp add: side_inv_def)
  ultimately have "side_inv t x"
    using side_inv_moved [OF s _ _ _ _ _ NResend(1)] s by (simp add: R(2) NResend(1) side_inv_def)
  then show ?thesis by (rule net_inv_moved [OF assms(2) _ NResend(1)])
qed

lemma net_reach_inv:
  assumes "open_net env" "net_reach env s"
  shows "net_inv s"
  using assms(2)
proof (induction rule: net_reach.induct)
  case (NStart a b n)
  then show ?case by (simp add: net_inv_def side_inv_def new_UDPHandler_def handler_upto_def)
next
  case (NStep s t)
  then show ?case using net_step_inv [OF assms(1)] by blast
qed

lemma net_reach_cites:
  assumes "open_net env" "net_reach env s" "d \<in> set (wires s x)"
  obtains p where "d = NetLib_wire p" "NetLib_wf p" "\<And>n. acks p n \<Longrightarrow> n = 0 \<or> n \<in> set (seqs (got s x))"
proof -
  have "side_inv s x" using net_reach_inv [OF assms(1,2)] by (simp add: net_inv_def)
  then obtain p where "d = NetLib_wire p" "cites s x p" using assms(3) by (auto simp: side_inv_def)
  then show thesis using that unfolding cites_def by blast
qed

text \<open>A side that reads the one datagram of another and does not have its number takes it in.\<close>

lemma read_emitted:
  assumes "open_net env" "NetLib_wf p \<and> emitted sock = [NetLib_wire p]" "\<not> duplicate h p"
    and "ReadNetLibPacket env now io h (hd (emitted sock) @ rest) = (r, sock', h')"
  shows "h' = accept env h (unsent p)"
proof -
  have "ReadNetLibPacket env now io h (NetLib_wire p @ rest) = (r, sock', h')"
    using assms(2,4) by simp
  then show ?thesis using ReadNetLibPacket_emits [OF assms(1), of p now h rest] assms(2,3) by simp
qed

lemma acks_unsent [simp]: "acks (unsent p) n = acks p n"
  by (simp add: acks_def)

lemma seqs_retry [simp]: "seqs (map (retry now) tx) = seqs tx"
  by (simp add: retry_def)

section \<open>Steps that can be taken\<close>

lemma send_step:
  assumes "open_net env" "NetLib_wf pkt" "m_SendAttempts pkt = 0" "reliable pkt" "shl_safe env (hs s x)"
  shows "\<exists>t p'. net_step env s t \<and> NetLib_wf p' \<and> p' = stamp env (hs s x) (UpdateSendAttempt now pkt) \<and>
    hs t = (hs s)(x := consume (hs s x) p') \<and> wires t = (wires s)(x := wires s x @ [NetLib_wire p']) \<and>
    got t = got s"
proof -
  note env = open_netD [OF assms(1)]
  have "fst (SendPacket env now io (hs s x) pkt) = Inr ()"
    using pkt_wire_NetLib [OF assms(2)] env(2) [of "hs s x"] assms(3)
    by (simp add: SendPacket_cases [OF env(1)] can_send_def Let_def)
  then obtain sock h p' where S: "SendPacket env now io (hs s x) pkt = (Inr (), sock, h, p')"
    by (cases "SendPacket env now io (hs s x) pkt") auto
  show ?thesis
    using NSend [OF assms(2,3,5) S] SendPacket_emits [OF assms(1-3) S] assms(4)
    by (intro exI [of _ "moved x h sock [] s"] exI [of _ p']) (simp add: moved_def)
qed

lemma recv_step:
  assumes "open_net env" "NetLib_wf q" "NetLib_wire q \<in> set (wires s (\<not> x))" "\<not> duplicate (hs s x) q"
    and "takes_safely env (hs s x) (unsent q)" "shl_safe env (accept env (hs s x) (unsent q))"
  shows "\<exists>t. net_step env s t \<and> hs t = (hs s)(x := accept env (hs s x) (unsent q)) \<and>
    got t = (got s)(x := got s x @ [unsent q]) \<and> wires t (\<not> x) = wires s (\<not> x)"
proof -
  note env = open_netD [OF assms(1)]
  let ?d = "NetLib_wire q @ []"
  have parse: "NetLibPacket_FromBytes env ?d = Inr (Some (unsent q))" "IsNetLibPacket ?d = Inr True"
    using NetLib_decode_wire [OF env(1) assms(2), of "[]"] by (simp_all add: IsNetLibPacket_def NetLib_wire_def)
  have "fst (ReadNetLibPacket env now io (hs s x) ?d) = Inr (Some (unsent q))"
    using HandlePacketSequence_result [OF env(1) is_ackmaker(2) env(2), of now io "hs s x" "unsent q"] assms(4)
    unfolding ReadNetLibPacket_def parse by (auto simp: duplicate_def split: prod.split)
  then obtain sock h where R: "ReadNetLibPacket env now io (hs s x) ?d = (Inr (Some (unsent q)), sock, h)"
    by (cases "ReadNetLibPacket env now io (hs s x) ?d") auto
  show ?thesis
    using NRecv [OF assms(3) _ assms(5) _ R] parse(1) ReadNetLibPacket_emits [OF assms(1,2) R] assms(4,6)
    by (intro exI [of _ "moved x h sock [unsent q] s"]) (simp add: moved_def)
qed

section \<open>Properties\<close>

text \<open>C16: over a network that loses, repeats and reorders datagrams, and as long as the
  undefined shifts of the code stay harmless (the guards \<open>shl_safe\<close> and \<open>takes_safely\<close> of the
  network's steps; on machines that mask the shift count they hold while received numbers are
  at most 32 behind the newest one and pending numbers between 32 before and 15 after the ack
  that arrives), a side only forgets an unacknowledged packet whose number is 0 or has been
  delivered to the other side.\<close>

theorem forgotten_was_delivered:
  assumes "open_net env" "net_reach env s" "net_step env s t"
    and "n \<in> set (seqs (m_AcksLeft_TX (hs s x)))" "n \<notin> set (seqs (m_AcksLeft_TX (hs t x)))"
  shows "n = 0 \<or> n \<in> set (seqs (got s (\<not> x)))"
  using assms(3)
proof (cases rule: net_step.cases)
  case (NSend pkt y now sock h pkt')
  have "set (seqs (m_AcksLeft_TX (hs s y))) \<subseteq> set (seqs (m_AcksLeft_TX h))"
    using SendPacket_emits [OF assms(1) NSend(2,3,5)] by (auto simp: consume_def)
  then show ?thesis using assms(4,5) by (auto simp: NSend(1) split: if_splits)
next
  case (NRecv d y p h now rest r sock)
  have yx: "y = x"
    using assms(4,5) unfolding NRecv(1) moved_simps by (rule_tac ccontr) simp
  obtain q where q: "d = NetLib_wire q" "NetLib_wf q" "\<And>n. acks q n \<Longrightarrow> n = 0 \<or> n \<in> set (seqs (got s (\<not> y)))"
    using net_reach_cites [OF assms(1,2) NRecv(2)] by blast
  have p: "p = unsent q" using NRecv(3) NetLib_decode_wire [OF open_netD(1) [OF assms(1)] q(2), of "[]"] by (simp add: q(1))
  have "h = hs s y \<or> h = accept env (hs s y) (unsent q)"
    using ReadNetLibPacket_emits [OF assms(1) q(2) NRecv(6) [unfolded q(1)]] by auto
  then have "acks q n"
    using assms(4,5) NRecv(4) unfolding NRecv(1) moved_simps yx p takes_safely_def
    by (auto simp: accept_def IsAcked_acks)
  then show ?thesis using q(3) unfolding yx by blast
next
  case (NResend y now sock h)
  have "list_all live (m_AcksLeft_TX (hs s y))"
    using net_reach_inv [OF assms(1,2)] by (simp add: net_inv_def side_inv_def handler_upto_def)
  from ResendMissingPackets_ok [OF open_netD(1,2) [OF assms(1)] this NResend(2), of io] NResend(3)
  have "seqs (m_AcksLeft_TX h) = seqs (m_AcksLeft_TX (hs s y))" by (simp del: map_map)
  then have "seqs (m_AcksLeft_TX (hs t x)) = seqs (m_AcksLeft_TX (hs s x))"
    unfolding NResend(1) moved_simps by (simp only: split: if_split) blast
  then show ?thesis using assms(4,5) by simp
qed

lemma forgotten_was_delivered_witness:
  "\<exists>s t. net_reach env_x86 s \<and> net_step env_x86 s t \<and>
     seqs (m_AcksLeft_TX (hs s True)) = [0, 1] \<and> seqs (m_AcksLeft_TX (hs t True)) = [0] \<and>
     1 \<in> set (seqs (got s False))"
proof -
  let ?w = "stamp env_x86"
  note pkt = open_net_x86 sample_wf(1) sample_pkt_simps(2,3)
  define s0 where "s0 = \<lparr>hs = (\<lambda>x. new_UDPHandler (if x then ''a'' else ''b'') 1), wires = (\<lambda>_. []), got = (\<lambda>_. [])\<rparr>"
  have h0: "hs s0 x = new_UDPHandler (if x then ''a'' else ''b'') 1" "wires s0 x = []" "got s0 x = []" for x
    by (simp_all add: s0_def)
  have r0: "net_reach env_x86 s0" unfolding s0_def by (rule NStart)
  obtain s1 p1 where s1: "net_step env_x86 s0 s1" "p1 = ?w (hs s0 True) (UpdateSendAttempt 0 sample_pkt)"
    "hs s1 = (hs s0)(True := consume (hs s0 True) p1)" "wires s1 = (wires s0)(True := wires s0 True @ [NetLib_wire p1])"
    "got s1 = got s0" using send_step [OF pkt, of s0 True 0] by (auto simp: h0 new_UDPHandler_def shl_safe_def)
  obtain s2 p2 where s2: "net_step env_x86 s1 s2" "NetLib_wf p2" "p2 = ?w (hs s1 True) (UpdateSendAttempt 0 sample_pkt)"
    "hs s2 = (hs s1)(True := consume (hs s1 True) p2)" "wires s2 = (wires s1)(True := wires s1 True @ [NetLib_wire p2])"
    "got s2 = got s1" using send_step [OF pkt, of s1 True 0] by (auto simp: h0 s1(3) new_UDPHandler_def shl_safe_def consume_def)
  have "NetLib_wire p2 \<in> set (wires s2 (\<not> False))" "\<not> duplicate (hs s2 False) p2"
    by (simp_all add: s2(4,5) s1(3) h0 duplicate_def new_UDPHandler_def)
  moreover have "takes_safely env_x86 (hs s2 False) (unsent p2)" "shl_safe env_x86 (accept env_x86 (hs s2 False) (unsent p2))"
    using s2(3) by (simp_all add: s2(4) s1(3) h0 takes_safely_def shl_safe_def accept_def new_UDPHandler_def newer_def
      push_received_def ack_safe_def consume_def sequence_greaterthan_eq)
  ultimately obtain s3 where s3: "net_step env_x86 s2 s3" "hs s3 = (hs s2)(False := accept env_x86 (hs s2 False) (unsent p2))"
    "got s3 = (got s2)(False := got s2 False @ [unsent p2])" "wires s3 (\<not> False) = wires s2 (\<not> False)"
    using recv_step [OF pkt(1) s2(2), of s2 False] by blast
  have seq: "m_SequenceNum p1 = 0" "m_SequenceNum p2 = 1" "reliable p2" "unsent p2 \<in> set (got s3 False)"
    using s1(2) s2(3) sample_pkt_simps(3) by (simp_all add: s1(3) h0 new_UDPHandler_def consume_def s3(3))
  have rx: "m_RemoteSeqNum (hs s3 False) = 1" "m_AcksLeft_RX (hs s3 False) = [unsent p2]"
    using seq by (simp_all add: s3(2) s2(4) s1(3) h0 accept_def new_UDPHandler_def newer_def push_received_def
      sequence_greaterthan_eq reliable_def)
  have safe3: "shl_safe env_x86 (hs s3 False)" using seq by (simp add: shl_safe_def rx ack_safe_def)
  obtain s4 p4 where s4: "net_step env_x86 s3 s4" "NetLib_wf p4" "p4 = ?w (hs s3 False) (UpdateSendAttempt 0 sample_pkt)"
    "hs s4 = (hs s3)(False := consume (hs s3 False) p4)" "wires s4 = (wires s3)(False := wires s3 False @ [NetLib_wire p4])"
    "got s4 = got s3" using send_step [OF pkt safe3, of 0] by blast
  have "NetLib_wire p4 \<in> set (wires s4 (\<not> True))" "\<not> duplicate (hs s4 True) p4"
    by (simp_all add: s4(4,5) s3(2) s2(4) s1(3) h0 duplicate_def new_UDPHandler_def consume_def)
  moreover have "takes_safely env_x86 (hs s4 True) (unsent p4)" "shl_safe env_x86 (accept env_x86 (hs s4 True) (unsent p4))"
    using seq rx by (simp_all add: s4(3,4) s3(2) s2(4) s1(3) h0 takes_safely_def shl_safe_def accept_def new_UDPHandler_def
      newer_def push_received_def ack_safe_def consume_def sequence_greaterthan_eq)
  ultimately obtain t where t: "net_step env_x86 s4 t" "hs t = (hs s4)(True := accept env_x86 (hs s4 True) (unsent p4))"
    using recv_step [OF pkt(1) s4(2), of s4 True] by blast
  have reach: "net_reach env_x86 s4"
    using r0 s1(1) s2(1) s3(1) s4(1) by (blast intro: NStep)
  have a: "acks p4 1" "\<not> acks p4 0"
    using acks_stamp [OF safe3, of "UpdateSendAttempt 0 sample_pkt"] seq rx s4(3) by simp_all
  have safe4: "ack_safe env_x86 (m_Ack p4) 1" "ack_safe env_x86 (m_Ack p4) 0"
    by (simp_all add: s4(3) rx ack_safe_def)
  have tx: "seqs (m_AcksLeft_TX (hs s4 True)) = [0, 1]"
    using seq by (simp add: s4(4) s3(2) s2(4) s1(3) h0 consume_def new_UDPHandler_def)
  have tx': "seqs (m_AcksLeft_TX (hs t True)) = [0]"
    using seq a by (simp add: t(2) s4(4) s3(2) s2(4) s1(3) h0 consume_def new_UDPHandler_def accept_def IsAcked_acks safe4)
  have last: "1 \<in> set (seqs (got s4 False))"
    using forgotten_was_delivered [OF pkt(1) reach t(1), of 1 True] tx tx' by simp
  show ?thesis by (intro exI conjI) (rule reach t(1) tx tx' last)+
qed

text \<open>C17: a pending reliable packet is no longer waited for as soon as its datagram reaches
  the peer, whose newest number is then at most 16 ahead of it, and the next datagram the peer
  sends reaches the sender, which does not hold that datagram's number in its received list
  (else it would drop it as a duplicate); no packet is added. It holds whatever the machine
  makes of an out-of-range shift.\<close>

theorem one_exchange_acknowledges:
  assumes "open_net env" "NetLib_wf p" "reliable p" "NetLib_wf q" "m_SendAttempts q = 0"
    and "ReadNetLibPacket env t1 io b (NetLib_wire p @ rest) = (r1, sock1, b1)"
    and "unat (m_RemoteSeqNum b1 - m_SequenceNum p) \<le> 16"
    and "SendPacket env t2 io b1 q = (r2, sock2, b2, q')"
    and "\<not> duplicate a q'"
    and "ReadNetLibPacket env t3 io a (hd (emitted sock2) @ rest') = (r3, sock3, a')"
  shows "m_SequenceNum p \<notin> set (seqs (m_AcksLeft_TX a')) \<and> set (m_AcksLeft_TX a') \<subseteq> set (m_AcksLeft_TX a)"
proof -
  have b1: "b1 = (if duplicate b p then b else accept env b (unsent p))"
    using ReadNetLibPacket_emits [OF assms(1,2,6)] by blast
  have rx: "m_SequenceNum p \<in> set (seqs (m_AcksLeft_RX b1))"
    unfolding b1 using assms(3) by (auto simp: duplicate_def accept_def push_received_def reliable_def)
  note q' = SendPacket_emits [OF assms(1,4,5,8)]
  have "acks q' (m_SequenceNum p)"
    using q' stamp_acks_received rx assms(7) by simp
  moreover have "a' = accept env a (unsent q')"
    by (rule read_emitted [OF assms(1) q'(2) assms(9,10)])
  ultimately show ?thesis
    using acks_IsAcked [of "unsent q'" "m_SequenceNum p" env] by (auto simp: accept_def)
qed

lemma one_exchange_acknowledges_witness:
  "let p = sample_pkt\<lparr>m_SequenceNum := 5, m_SendAttempts := 1\<rparr>;
       a = (new_UDPHandler ''a'' 1)\<lparr>m_LocalSeqNum := 6, m_AcksLeft_TX := [p]\<rparr>;
       (r1, sock1, b1) = ReadNetLibPacket env_x86 0 io (new_UDPHandler ''b'' 2) (NetLib_wire p);
       (r2, sock2, b2, q') = SendPacket env_x86 0 io b1 sample_pkt;
       (r3, sock3, a') = ReadNetLibPacket env_x86 0 io a (hd (emitted sock2))
   in m_AcksLeft_TX a \<noteq> [] \<and> m_AcksLeft_TX a' = []"
proof -
  let ?p = "sample_pkt\<lparr>m_SequenceNum := 5, m_SendAttempts := 1\<rparr>"
  let ?a = "(new_UDPHandler ''a'' 1)\<lparr>m_LocalSeqNum := 6, m_AcksLeft_TX := [?p]\<rparr>"
  have p: "NetLib_wf ?p" "reliable ?p"
    by (simp_all add: NetLib_wf_def pkt_inv_def sample_pkt_def NETLIBPACKET_VERSION_def reliable_def)
  obtain r1 sock1 b1 where 1: "ReadNetLibPacket env_x86 0 io (new_UDPHandler ''b'' 2) (NetLib_wire ?p @ []) = (r1, sock1, b1)"
    using prod_cases3 by blast
  obtain r2 sock2 b2 q' where 2: "SendPacket env_x86 0 io b1 sample_pkt = (r2, sock2, b2, q')"
    using prod_cases4 by blast
  obtain r3 sock3 a' where 3: "ReadNetLibPacket env_x86 0 io ?a (hd (emitted sock2) @ []) = (r3, sock3, a')"
    using prod_cases3 by blast
  have "m_RemoteSeqNum b1 = 5"
    using ReadNetLibPacket_emits [OF open_net_x86 p(1) 1]
    by (simp add: duplicate_def new_UDPHandler_def accept_def newer_def sequence_greaterthan_eq)
  moreover have "\<not> duplicate ?a q'" by (simp add: duplicate_def new_UDPHandler_def)
  ultimately have "5 \<notin> set (seqs (m_AcksLeft_TX a')) \<and> set (m_AcksLeft_TX a') \<subseteq> {?p}"
    using one_exchange_acknowledges [OF open_net_x86 p sample_wf(1) sample_pkt_simps(2) 1 _ 2 _ 3] by simp
  then have "m_AcksLeft_TX a' = []" by (cases "m_AcksLeft_TX a'") auto
  then show ?thesis using 1 2 3 by (simp add: Let_def)
qed

text \<open>An unreliable packet carries the number that the next reliable packet takes. When
  the peer gets the first and answers with a packet of its own, the sender stops waiting for
  the reliable one, which may have been lost.\<close>

theorem unreliable_ack_forgets_reliable:
  assumes "open_net env" "NetLib_wf u" "NetLib_wf p" "NetLib_wf q"
    and "m_SendAttempts u = 0" "m_SendAttempts p = 0" "m_SendAttempts q = 0" "\<not> reliable u" "reliable p"
    and "SendPacket env t1 io a u = (r1, sock1, a1, u')" "SendPacket env t2 io a1 p = (r2, sock2, a2, p')"
    and "sequence_greaterthan (m_LocalSeqNum a) (m_RemoteSeqNum b)" "\<not> duplicate b u'"
    and "ReadNetLibPacket env t3 io b (hd (emitted sock1) @ rest) = (r3, sock3, b1)"
    and "SendPacket env t4 io b1 q = (r4, sock4, b2, q')" "\<not> duplicate a2 q'"
    and "ReadNetLibPacket env t5 io a2 (hd (emitted sock4) @ rest') = (r5, sock5, a3)"
  shows "p' \<in> set (m_AcksLeft_TX a2) \<and> p' \<notin> set (m_AcksLeft_TX a3) \<and>
    m_SequenceNum p' = m_LocalSeqNum a \<and> m_AcksLeft_RX b1 = m_AcksLeft_RX b"
proof -
  note u' = SendPacket_emits [OF assms(1,2,5,10)]
  note p' = SendPacket_emits [OF assms(1,3,6,11)]
  have a1: "a1 = a" and u: "m_SequenceNum u' = m_LocalSeqNum a" "\<not> reliable (unsent u')"
    using u' assms(8) by (auto simp: reliable_def)
  have p: "m_SequenceNum p' = m_LocalSeqNum a" "p' \<in> set (m_AcksLeft_TX a2)"
    using p' assms(9) by (auto simp: a1 consume_def)
  have b1: "b1 = accept env b (unsent u')"
    by (rule read_emitted [OF assms(1) u'(2) assms(13,14)])
  note q' = SendPacket_emits [OF assms(1,4,7,15)]
  have "acks q' (m_LocalSeqNum a)"
    using q' assms(12) u by (simp add: acks_def b1 accept_def newer_def)
  moreover have "a3 = accept env a2 (unsent q')"
    by (rule read_emitted [OF assms(1) q'(2) assms(16,17)])
  ultimately show ?thesis
    using p u acks_IsAcked [of "unsent q'" "m_LocalSeqNum a" env] by (auto simp: accept_def b1)
qed

lemma unreliable_ack_forgets_reliable_witness:
  "let a = (new_UDPHandler ''a'' 1)\<lparr>m_LocalSeqNum := 5\<rparr>; u = sample_pkt\<lparr>m_Flags := FLAG_UNRELIABLE\<rparr>;
       (r1, sock1, a1, u') = SendPacket env_x86 0 io a u;
       (r2, sock2, a2, p') = SendPacket env_x86 0 io a1 sample_pkt;
       (r3, sock3, b1) = ReadNetLibPacket env_x86 0 io (new_UDPHandler ''b'' 2) (hd (emitted sock1));
       (r4, sock4, b2, q') = SendPacket env_x86 0 io b1 sample_pkt;
       (r5, sock5, a3) = ReadNetLibPacket env_x86 0 io a2 (hd (emitted sock4))
   in p' \<in> set (m_AcksLeft_TX a2) \<and> p' \<notin> set (m_AcksLeft_TX a3) \<and> m_SequenceNum p' = 5 \<and> m_AcksLeft_RX b1 = []"
proof -
  let ?a = "(new_UDPHandler ''a'' 1)\<lparr>m_LocalSeqNum := 5\<rparr>"
  let ?b = "new_UDPHandler ''b'' 2"
  let ?u = "sample_pkt\<lparr>m_Flags := FLAG_UNRELIABLE\<rparr>"
  have u: "NetLib_wf ?u" "\<not> reliable ?u" "m_SendAttempts ?u = 0"
    by (simp_all add: NetLib_wf_def pkt_inv_def sample_pkt_def NETLIBPACKET_VERSION_def reliable_def FLAG_UNRELIABLE_def)
  obtain r1 sock1 a1 u' where 1: "SendPacket env_x86 0 io ?a ?u = (r1, sock1, a1, u')"
    using prod_cases4 by blast
  obtain r2 sock2 a2 p' where 2: "SendPacket env_x86 0 io a1 sample_pkt = (r2, sock2, a2, p')"
    using prod_cases4 by blast
  obtain r3 sock3 b1 where 3: "ReadNetLibPacket env_x86 0 io ?b (hd (emitted sock1) @ []) = (r3, sock3, b1)"
    using prod_cases3 by blast
  obtain r4 sock4 b2 q' where 4: "SendPacket env_x86 0 io b1 sample_pkt = (r4, sock4, b2, q')"
    using prod_cases4 by blast
  obtain r5 sock5 a3 where 5: "ReadNetLibPacket env_x86 0 io a2 (hd (emitted sock4) @ []) = (r5, sock5, a3)"
    using prod_cases3 by blast
  have "sequence_greaterthan (m_LocalSeqNum ?a) (m_RemoteSeqNum ?b)" "\<not> duplicate ?b u'"
    by (simp_all add: new_UDPHandler_def sequence_greaterthan_eq duplicate_def)
  moreover have "\<not> duplicate a2 q'"
    using SendPacket_emits(3) [OF open_net_x86 u(1,3) 1] SendPacket_emits(3) [OF open_net_x86 sample_wf(1) sample_pkt_simps(2) 2] u(2)
    by (simp add: duplicate_def consume_def new_UDPHandler_def)
  ultimately show ?thesis
    using unreliable_ack_forgets_reliable [OF open_net_x86 u(1) sample_wf(1) sample_wf(1) u(3) sample_pkt_simps(2,2) u(2)
      sample_pkt_simps(3) 1 2 _ _ 3 4 _ 5] 1 2 3 4 5
    by (simp add: Let_def) (simp add: new_UDPHandler_def)
qed

text \<open>The newest number of a handler that has heard nothing is 0, so its first packet
  acknowledges the number 0: the sender of a first packet that was lost stops waiting for it.\<close>

theorem silent_peer_acknowledges_zero:
  assumes "open_net env" "NetLib_wf p" "NetLib_wf q" "m_SendAttempts p = 0" "m_SendAttempts q = 0" "reliable p"
    and "SendPacket env t1 io (new_UDPHandler host n) p = (r1, sock1, a, p')"
    and "SendPacket env t2 io (new_UDPHandler host' n') q = (r2, sock2, b, q')"
    and "ReadNetLibPacket env t3 io a (hd (emitted sock2) @ rest) = (r3, sock3, a')"
  shows "m_AcksLeft_TX a = [p'] \<and> m_AcksLeft_TX a' = [] \<and> m_AcksLeft_RX b = []"
proof -
  note p' = SendPacket_emits [OF assms(1,2,4,7)]
  note q' = SendPacket_emits [OF assms(1,3,5,8)]
  have a: "m_AcksLeft_TX a = [p']" "m_SequenceNum p' = 0" "\<not> duplicate a q'"
    using p' assms(6) by (simp_all add: consume_def new_UDPHandler_def duplicate_def)
  moreover have "acks q' 0" using q' by (simp add: acks_def new_UDPHandler_def)
  moreover have "a' = accept env a (unsent q')"
    by (rule read_emitted [OF assms(1) q'(2) a(3) assms(9)])
  moreover have "m_AcksLeft_RX b = []" using q' by (simp add: consume_def new_UDPHandler_def)
  ultimately show ?thesis
    using acks_IsAcked [of "unsent q'" 0 env] by (simp add: accept_def)
qed

lemma silent_peer_acknowledges_zero_witness:
  "let (r1, sock1, a, p') = SendPacket env_x86 0 io (new_UDPHandler ''a'' 1) sample_pkt;
       (r2, sock2, b, q') = SendPacket env_x86 0 io (new_UDPHandler ''b'' 2) sample_pkt;
       (r3, sock3, a') = ReadNetLibPacket env_x86 0 io a (hd (emitted sock2))
   in m_AcksLeft_TX a = [p'] \<and> m_AcksLeft_TX a' = [] \<and> m_AcksLeft_RX b = []"
proof -
  obtain r1 sock1 a p' where 1: "SendPacket env_x86 0 io (new_UDPHandler ''a'' 1) sample_pkt = (r1, sock1, a, p')"
    using prod_cases4 by blast
  obtain r2 sock2 b q' where 2: "SendPacket env_x86 0 io (new_UDPHandler ''b'' 2) sample_pkt = (r2, sock2, b, q')"
    using prod_cases4 by blast
  obtain r3 sock3 a' where 3: "ReadNetLibPacket env_x86 0 io a (hd (emitted sock2) @ []) = (r3, sock3, a')"
    using prod_cases3 by blast
  show ?thesis
    using silent_peer_acknowledges_zero [OF open_net_x86 sample_wf(1) sample_wf(1) sample_pkt_simps(2,2,3) 1 2 3] 1 2 3
    by (simp add: Let_def)
qed

end
