(* ===== verification/NL_System.thy ===== *)
theory NL_System
  imports NL_N64 NL_Relay
begin

text \<open>
  The components put together: the N64 library, the device thread and the connection thread,
  joined by the USB messages and by the queues they share. The properties follow one packet
  from the game to the server's socket, and one datagram from the server to the game.
\<close>

section \<open>The USB cable\<close>

text \<open>
  A message the console writes arrives at the computer with its type and size in the header,
  and maybe with more bytes behind it in the buffer; what the computer sends is what the
  console's library finds waiting.
\<close>

definition read_from_console :: "byte \<times> byte list \<Rightarrow> byte list \<Rightarrow> usb_round \<Rightarrow> bool" where
  "read_from_console msg rest r \<longleftrightarrow> ur_inputs r = [] \<and> ur_pkts r = [] \<and> ur_error r = DEVICEERR_OK \<and>
     ur_header r = usb_header (fst msg) (length (snd msg)) \<and> ur_data r = Some (snd msg @ rest)"

definition nothing_from_console :: "usb_round \<Rightarrow> bool" where
  "nothing_from_console r \<longleftrightarrow> ur_inputs r = [] \<and> ur_pkts r = [] \<and> ur_error r = DEVICEERR_OK \<and> ur_data r = None"

fun written_to_console :: "dev_call list \<Rightarrow> (byte \<times> byte list) list" where
  "written_to_console [] = []"
| "written_to_console (DSendData type d # calls) = (type, d) # written_to_console calls"
| "written_to_console (_ # calls) = written_to_console calls"

definition idle_device :: "DeviceThread \<Rightarrow> bool" where
  "idle_device t \<longleftrightarrow> dt_rompath t = [] \<and> usbthread_input (dt_q t) = []"

lemma idle_round:
  assumes "idle_device t" "ur_inputs r = []" "ur_pkts r = []" "ur_error r = DEVICEERR_OK"
  shows "device_round env sw r t = Some (rbind
    (case ur_data r of None \<Rightarrow> send_queued_pkt env t
     | Some outbuff \<Rightarrow> if ur_header r \<noteq> 0 then handle_usb_data env sw (ur_header r) outbuff t
         else send_queued_pkt env t) (\<lambda>t. Inr (snd (DeviceThread_HandleMainInput t))))"
proof -
  have "arrive_round r t = t"
    using assms by (simp add: arrive_round_def arrive_inputs_def Let_def)
  then show ?thesis
    using assms by (simp add: device_round_def handle_upload_def idle_device_def Let_def)
qed

lemma idle_input: "usbthread_input (dt_q t) = [] \<Longrightarrow> snd (DeviceThread_HandleMainInput t) = t"
  using HandleMainInput_path [of t] by (cases "DeviceThread_HandleMainInput t") auto

lemma device_takes_packet:
  assumes "alloc_ok env" "NetLib_wf p" "length (NetLib_wire p) < 2 ^ 24" "idle_device t"
    and "read_from_console (DATATYPE_NETPACKET, NetLib_wire p) rest r"
  shows "device_round env sw r t =
    Some (Inr (t\<lparr>dt_q := (dt_q t)\<lparr>serverthread_pkt := serverthread_pkt (dt_q t) @ [unsent p]\<rparr>\<rparr>))"
proof -
  have ty: "DATATYPE_NETPACKET = HOST_NETPACKET" by (simp add: DATATYPE_NETPACKET_def HOST_NETPACKET_def)
  have ne: "usb_header HOST_NETPACKET (length (NetLib_wire p)) \<noteq> 0"
    using usb_header_fields(1) [OF assms(3), of HOST_NETPACKET] by (auto simp: HOST_NETPACKET_def)
  show ?thesis
    using assms(4,5) by (simp add: idle_round read_from_console_def ty ne
      handle_usb_netpacket [OF assms(1-3)] idle_input idle_device_def)
qed

lemma device_sends_packet:
  assumes "alloc_ok env" "NetLib_wf p" "idle_device t" "usbthread_pkt (dt_q t) = Some p # pkts" "nothing_from_console r"
  shows "device_round env sw r t = Some (Inr (call_device (DSendData DATATYPE_NETPACKET (NetLib_wire p))
    (t\<lparr>dt_q := (dt_q t)\<lparr>usbthread_pkt := pkts\<rparr>\<rparr>)))"
  using assms(3,5) send_queued_pkt_wire [OF assms(1,2,4)]
  by (simp add: idle_round nothing_from_console_def idle_input idle_device_def call_device_def
    DATATYPE_NETPACKET_def HOST_NETPACKET_def)

section \<open>Properties\<close>

text \<open>C1: what the game writes into a packet for the server leaves the computer in one datagram.
  The console is connected and quiet, the device thread idle, the queue to the server and the
  socket empty; then after one round of each thread the only datagram sent decodes to a packet
  of the type, the flags and the bytes the game gave, with the handler's next number.\<close>

theorem console_reaches_server:
  assumes "ready g" "length (concat (map write_bytes ws)) \<le> 4078" "quiet g"
    and "\<forall>d. usb_accepts (n64_usb g) DATATYPE_NETPACKET d"
    and "netlib_write_all ws (netlib_setflags flags (netlib_start type g)) = Inr g1"
    and "netlib_sendtoserver fuel game tm g1 = Some (Inr g2)"
    and "alloc_ok env" "idle_device t" "serverthread_pkt (dt_q t) = []"
    and "read_from_console (last (usb_written (n64_usb g2))) rest r"
    and "device_round env sw r t = Some (Inr t')"
    and "cn_q c = dt_q t'" "sock_inbox (cn_sock c) = []" "can_send env (cn_handler c)"
  shows "\<exists>c' p. conn_round env now c = Some (Inr (True, c')) \<and>
    sock_sent (cn_sock c') = sock_sent (cn_sock c) @ [(m_Address (cn_handler c), m_Port (cn_handler c), NetLib_wire p)] \<and>
    NetLibPacket_FromBytes env (NetLib_wire p) = Inr (Some (unsent p)) \<and>
    content (unsent p) = (NetLib type 0, flags, concat (map write_bytes ws)) \<and>
    m_SequenceNum (unsent p) = m_LocalSeqNum (cn_handler c)"
proof -
  let ?pkt = "console_pkt type flags (concat (map write_bytes ws))"
  have N: "last (usb_written (n64_usb g2)) = (DATATYPE_NETPACKET, NetLib_wire ?pkt)" "NetLib_wf ?pkt"
    using console_sends [OF assms(1,2,5,3,4), of fuel game tm] assms(6) by auto
  have pkt: "fresh ?pkt" "unsent ?pkt = ?pkt" "pkt_wf ?pkt"
    using pkt_wire_NetLib [OF N(2)] by (simp_all add: fresh_def) (simp_all add: console_pkt_def unsent_def)
  have "length (NetLib_wire ?pkt) < 2 ^ 24"
    using length_wire(1) [of ?pkt] N(2) by (auto simp: NetLib_wf_def)
  from device_takes_packet [OF assms(7) N(2) this assms(8)] assms(10,11) N(1)
  have "t' = t\<lparr>dt_q := (dt_q t)\<lparr>serverthread_pkt := [?pkt]\<rparr>\<rparr>"
    using assms(9) pkt(2) by auto
  then have q: "serverthread_pkt (cn_q c) = [?pkt]" by (simp add: assms(12))
  define p where "p = sent_form env now (cn_handler c) ?pkt"
  have "pkt_wf p" "m_Derived p = NetLib type 0"
    using pkt(3) by (simp add: p_def, simp add: p_def console_pkt_def)
  then have wf: "NetLib_wf p" by (simp add: pkt_wf_def)
  obtain h where st: "stamped env now (cn_handler c) (serverthread_pkt (cn_q c)) = ([p], h)"
    by (simp add: q p_def Let_def)
  obtain c' where c': "conn_round env now c = Some (Inr (True, c'))"
    "sock_sent (cn_sock c') = sock_sent (transmit_all (cn_handler c) (map pkt_wire [p]) (cn_sock c))"
    using conn_round_exact [OF assms(7,14) _ _ _ st, of "[]" "[]" h] pkt(1) assms(13) by (auto simp: q)
  have "content (unsent p) = (NetLib type 0, flags, concat (map write_bytes ws))"
    unfolding content_unsent p_def sent_form_content by (simp add: content_def console_pkt_def)
  moreover have "m_SequenceNum (unsent p) = m_LocalSeqNum (cn_handler c)"
    by (simp add: p_def sent_form_def console_pkt_def)
  ultimately show ?thesis
    using c' NetLib_decode_wire [OF assms(7) wf, of "[]"] pkt_wire_NetLib [OF wf]
    by (intro exI [of _ c'] exI [of _ p]) (simp add: transmit_all_def)
qed

lemma console_reaches_server_witness:
  "\<exists>g1 g2 t c p. netlib_write_all [W16 0x0102, WBytes [9]] (netlib_setflags 2 (netlib_start 7 sample_n64)) = Inr g1 \<and>
     netlib_sendtoserver 1 sample_game 0 g1 = Some (Inr g2) \<and>
     device_round env_x86 id (sample_round (usb_header DATATYPE_NETPACKET 21) (Some (snd (last (usb_written (n64_usb g2)))))) sample_thread =
       Some (Inr t) \<and>
     conn_round env_x86 5 (sample_conn\<lparr>cn_q := dt_q t\<rparr>) = Some (Inr (True, c)) \<and>
     sock_sent (cn_sock c) = [(''host'', 6464, NetLib_wire p)] \<and> content (unsent p) = (NetLib 7 0, 2, [1, 2, 9])"
proof -
  let ?ws = "[W16 0x0102, WBytes [9]]"
  let ?g = "netlib_setflags 2 (netlib_start 7 sample_n64)"
  let ?pkt = "console_pkt 7 2 [1, 2, 9]"
  note st = ready_start [OF sample_n64_ready, of 2 7]
  have ws: "concat (map write_bytes ?ws) = [1, 2, 9]" by (simp add: be16_def)
  obtain g1 where g1: "netlib_write_all ?ws ?g = Inr g1"
    using netlib_write_all_fits [OF st(1), of ?ws] st(6) ws by auto
  have accepts: "\<forall>d. usb_accepts (n64_usb sample_n64) DATATYPE_NETPACKET d" by (simp add: sample_n64_quiet)
  obtain g2 where g2: "netlib_sendtoserver 1 sample_game 0 g1 = Some (Inr g2)"
    "usb_written (n64_usb g2) = [(DATATYPE_NETPACKET, NetLib_wire ?pkt)]" "NetLib_wf ?pkt"
    using console_sends [OF sample_n64_ready _ g1 sample_n64_quiet(1) accepts, of 1 sample_game 0]
    unfolding ws by (auto simp: sample_n64_quiet)
  have len: "length (NetLib_wire ?pkt) = 21"
    using length_wire(1) [of ?pkt] g2(3) by (simp add: NetLib_wf_def console_pkt_def)
  let ?r = "sample_round (usb_header DATATYPE_NETPACKET 21) (Some (NetLib_wire ?pkt))"
  have r: "read_from_console (DATATYPE_NETPACKET, NetLib_wire ?pkt) [] ?r"
    by (simp add: read_from_console_def sample_round_def DEVICEERR_OK_def len)
  have idle: "idle_device sample_thread" by (simp add: idle_device_def sample_thread_def no_queues_def)
  obtain t where t: "device_round env_x86 id ?r sample_thread = Some (Inr t)"
    using device_takes_packet [OF _ g2(3) _ idle r, of env_x86 id] len by auto
  let ?c = "sample_conn\<lparr>cn_q := dt_q t\<rparr>"
  have c: "cn_q ?c = dt_q t" "sock_inbox (cn_sock ?c) = []" "can_send env_x86 (cn_handler ?c)"
    "serverthread_pkt (dt_q sample_thread) = []"
    by (simp_all add: sample_conn_def new_ASIOSocket_def sample_thread_def no_queues_def)
  have r': "read_from_console (last (usb_written (n64_usb g2))) [] ?r" using r by (simp add: g2(2))
  have l: "length (concat (map write_bytes ?ws)) \<le> 4078" unfolding ws by simp
  obtain c' p where "conn_round env_x86 5 ?c = Some (Inr (True, c'))"
    "sock_sent (cn_sock c') = sock_sent (cn_sock ?c) @ [(m_Address (cn_handler ?c), m_Port (cn_handler ?c), NetLib_wire p)]"
    "content (unsent p) = (NetLib 7 0, 2, [1, 2, 9])"
    using console_reaches_server [OF sample_n64_ready l sample_n64_quiet(1) accepts g1 g2(1) alloc_ok_instances
        idle c(4) r' t c(1-3), of 5] unfolding ws by blast
  moreover have "sock_sent (cn_sock ?c) = []" "m_Address (cn_handler ?c) = ''host''" "m_Port (cn_handler ?c) = 6464"
    by (simp_all add: sample_conn_def new_ASIOSocket_def new_UDPHandler_def)
  moreover have "snd (last (usb_written (n64_usb g2))) = NetLib_wire ?pkt" by (simp add: g2(2))
  ultimately show ?thesis using g1 g2(1) t by (intro exI conjI) (assumption | simp)+
qed

text \<open>C2: a datagram of the server that the handler has not seen reaches the game: after one round
  of the connection thread and one of the device thread the console finds one message, and
  polling it calls the function registered for the packet's type with the size of the data, in a
  state in which reading that many bytes gives the data.\<close>

theorem server_reaches_console:
  assumes "alloc_ok env" "can_send env (cn_handler c)" "datagram_ok p" "\<not> duplicate (cn_handler c) p"
    and "serverthread_pkt (cn_q c) = []" "usbthread_pkt (cn_q c) = []" "sock_inbox (cn_sock c) = [NetLib_wire p]"
    and "conn_round env now c = Some (Inr (running, c'))"
    and "idle_device t" "dt_q t = cn_q c'" "dt_calls t = []" "nothing_from_console r"
    and "device_round env sw r t = Some (Inr t')"
    and "usb_cart (n64_usb g) \<noteq> CART_NONE" "usb_dataleft (n64_usb g) = 0"
    and "usb_waiting (n64_usb g) = written_to_console (dt_calls t')"
    and "unat (NetLibPacket_GetType p) < length (global_funcptrs g)"
    and "global_funcptrs g ! unat (NetLibPacket_GetType p) = Some f"
  shows "running \<and> usbthread_pkt (dt_q t') = [] \<and> fst (usb_poll (n64_usb g)) = DATATYPE_NETPACKET \<and>
    (\<exists>gd. fst (netlib_readbytes old (length (m_Data p)) gd) = m_Data p @ drop (length (m_Data p)) old \<and>
      poll_packet game tm (g\<lparr>n64_usb := snd (usb_poll (n64_usb g))\<rparr>) =
        (case game_on_packet game f (ucast (m_Size p)) gd of
           None \<Rightarrow> None | Some (Inl e) \<Rightarrow> Some (Inl e)
         | Some (Inr g) \<Rightarrow> Some (Inr (True, g\<lparr>global_lastpkt := tm\<rparr>))))"
proof -
  have wf: "NetLib_wf p" using assms(3) by (simp add: datagram_ok_def)
  have run: "running" "usbthread_pkt (cn_q c') = [Some (unsent p)]"
  proof -
    have "stamped env now (cn_handler c) (serverthread_pkt (cn_q c)) = ([], cn_handler c)" by (simp add: assms(5))
    moreover have "delivered env (cn_handler c) [p] = ([unsent p], accept env (cn_handler c) (unsent p))"
      using assms(4) by simp
    ultimately show "running" "usbthread_pkt (cn_q c') = [Some (unsent p)]"
      using conn_round_exact [OF assms(1,2), of "[p]" now "[]" "cn_handler c"] assms(3,5-8) by auto
  qed
  have t': "t' = call_device (DSendData DATATYPE_NETPACKET (NetLib_wire p)) (t\<lparr>dt_q := (dt_q t)\<lparr>usbthread_pkt := []\<rparr>\<rparr>)"
    using device_sends_packet [OF assms(1) _ assms(9) _ assms(12), of "unsent p" "[]" sw] wf assms(10,13) run(2)
    by simp
  let ?g = "g\<lparr>n64_usb := snd (usb_poll (n64_usb g))\<rparr>"
  have w: "usb_waiting (n64_usb g) = [(DATATYPE_NETPACKET, NetLib_wire p)]"
    using assms(11) by (simp add: assms(16) t' call_device_def)
  have u: "usb_poll (n64_usb g) = (DATATYPE_NETPACKET, (n64_usb g)\<lparr>usb_datatype := DATATYPE_NETPACKET,
      usb_datasize := length (NetLib_wire p), usb_dataleft := length (NetLib_wire p),
      usb_msg := NetLib_wire p, usb_waiting := []\<rparr>)"
    using assms(14,15) w by (simp add: usb_poll_def)
  have "usb_at (n64_usb ?g) (NetLib_wire p)" using assms(14) by (simp add: u usb_at_def)
  from poll_packet_dispatch [OF wf this, of f game tm] assms(17,18)
  obtain gd where gd: "usb_at (n64_usb gd) (m_Data p)"
    "poll_packet game tm ?g = (case game_on_packet game f (ucast (m_Size p)) gd of
         None \<Rightarrow> None | Some (Inl e) \<Rightarrow> Some (Inl e)
       | Some (Inr g) \<Rightarrow> Some (Inr (True, g\<lparr>global_lastpkt := tm\<rparr>)))" by auto
  have "fst (netlib_readbytes old (length (m_Data p)) gd) = m_Data p @ drop (length (m_Data p)) old"
    using usb_read_at [of "n64_usb gd" "m_Data p" "[]"] gd(1) by (simp add: netlib_readbytes_def)
  then show ?thesis using run(1) gd(2) by (auto simp: t' call_device_def u)
qed

lemma server_reaches_console_witness:
  "\<exists>c t gd. conn_round env_x86 5 (sample_conn\<lparr>cn_q := no_queues, cn_sock := (new_ASIOSocket ''host'' 6464)
       \<lparr>sock_inbox := [NetLib_wire sample_pkt]\<rparr>\<rparr>) = Some (Inr (True, c)) \<and>
     device_round env_x86 id (sample_round 0 None) (sample_thread\<lparr>dt_q := cn_q c\<rparr>) = Some (Inr t) \<and>
     poll_packet sample_game 9 (let g = sample_n64\<lparr>global_funcptrs := (replicate 64 None)[10 := Some 3],
         n64_usb := sample_usb\<lparr>usb_waiting := written_to_console (dt_calls t)\<rparr>\<rparr>
       in g\<lparr>n64_usb := snd (usb_poll (n64_usb g))\<rparr>) = Some (Inr (True, gd\<lparr>global_lastpkt := 9\<rparr>)) \<and>
     fst (netlib_readbytes [0, 0, 0] 2 gd) = [7, 8, 0]"
proof -
  let ?c = "sample_conn\<lparr>cn_q := no_queues, cn_sock := (new_ASIOSocket ''host'' 6464)\<lparr>sock_inbox := [NetLib_wire sample_pkt]\<rparr>\<rparr>"
  have u: "unsent sample_pkt = sample_pkt" by (simp add: unsent_def sample_pkt_def)
  have s: "NetLibPacket_GetType sample_pkt = 10" "m_Data sample_pkt = [7, 8]"
    by (simp_all add: sample_pkt_def NetLibPacket_GetType_def)
  have ok: "datagram_ok sample_pkt"
    using sample_wf(1) length_wire(1) [of sample_pkt] by (simp add: datagram_ok_def NetLib_wf_def sample_pkt_def)
  have new: "\<not> duplicate (cn_handler ?c) sample_pkt"
    by (simp add: sample_conn_def duplicate_def new_UDPHandler_def)
  have "stamped env_x86 5 (cn_handler ?c) (serverthread_pkt (cn_q ?c)) = ([], cn_handler ?c)"
    by (simp add: no_queues_def)
  moreover have "delivered env_x86 (cn_handler ?c) [sample_pkt] =
      ([sample_pkt], accept env_x86 (cn_handler ?c) sample_pkt)"
    using new by (simp add: u)
  ultimately obtain c where c: "conn_round env_x86 5 ?c = Some (Inr (True, c))"
    "cn_q c = no_queues\<lparr>usbthread_pkt := [Some sample_pkt]\<rparr>"
    using conn_round_exact [of env_x86 ?c "[sample_pkt]" 5 "[]" "cn_handler ?c"] ok
    by (auto simp: no_queues_def)
  let ?t = "sample_thread\<lparr>dt_q := cn_q c\<rparr>"
  have idle: "idle_device ?t" "nothing_from_console (sample_round 0 None)"
    by (simp_all add: idle_device_def sample_thread_def c(2) no_queues_def nothing_from_console_def sample_round_def DEVICEERR_OK_def)
  obtain t where t: "device_round env_x86 id (sample_round 0 None) ?t = Some (Inr t)"
    using device_sends_packet [OF _ sample_wf(1) idle(1) _ idle(2), of env_x86 "[]" id] by (auto simp: c(2))
  let ?g = "sample_n64\<lparr>global_funcptrs := (replicate 64 None)[10 := Some 3],
         n64_usb := sample_usb\<lparr>usb_waiting := written_to_console (dt_calls t)\<rparr>\<rparr>"
  have g: "usb_cart (n64_usb ?g) \<noteq> CART_NONE" "usb_dataleft (n64_usb ?g) = 0"
    "usb_waiting (n64_usb ?g) = written_to_console (dt_calls t)"
    "unat (NetLibPacket_GetType sample_pkt) < length (global_funcptrs ?g)"
    "global_funcptrs ?g ! unat (NetLibPacket_GetType sample_pkt) = Some 3"
    by (simp_all add: sample_usb_def CART_NONE_def s)
  have "\<exists>gd. fst (netlib_readbytes [0, 0, 0] 2 gd) = [7, 8, 0] \<and>
      poll_packet sample_game 9 (?g\<lparr>n64_usb := snd (usb_poll (n64_usb ?g))\<rparr>) = Some (Inr (True, gd\<lparr>global_lastpkt := 9\<rparr>))"
    using server_reaches_console [OF _ _ ok new _ _ _ c(1) idle(1) _ _ idle(2) t g, of "[0, 0, 0]" sample_game 9]
    by (auto simp: s sample_game_def no_queues_def sample_thread_def numeral_2_eq_2)
  then show ?thesis using c(1) t unfolding Let_def by blast
qed

end
