(* ===== verification/NL_Flashcart.thy ===== *)
theory NL_Flashcart
  imports NL_N64 "HOL-Library.Monad_Syntax"
begin

text \<open>
  The UNFLoader USB library the games link, \<^verbatim>\<open>usb.c\<close>, up to its
  generic layer: register and memory access, time limits, and the drivers of the three
  flashcarts. The console's bus and what is behind it are a parameter. The lemmas show that every
  wait with a time limit ends, what the EverDrive's framing puts on the wire and takes from it,
  and where the drivers put a message in the cartridge's memory.
\<close>

section \<open>The cartridge\<close>

text \<open>
  What libultra offers: reading and writing a register, transfers from and to the cartridge's
  address space, the count register, and the conversion of microseconds to its ticks. \<open>'h\<close> is
  the state of the hardware.
\<close>

record 'h pi_bus =
  pi_read :: "u32 \<Rightarrow> 'h \<Rightarrow> u32 \<times> 'h"
  pi_write :: "u32 \<Rightarrow> u32 \<Rightarrow> 'h \<Rightarrow> 'h"
  pi_dma_read :: "u32 \<Rightarrow> nat \<Rightarrow> 'h \<Rightarrow> byte list \<times> 'h"
  pi_dma_write :: "byte list \<Rightarrow> u32 \<Rightarrow> 'h \<Rightarrow> 'h"
  pi_count :: "'h \<Rightarrow> u32 \<times> 'h"
  pi_cycles :: "nat \<Rightarrow> nat"

datatype flashcart = NoCart | Cart64Drive | CartEverDrive | CartSC64

text \<open>
  The globals. The function pointers are those of the driver of \<open>us_cart\<close>: \<open>usb_initialize\<close> sets
  them right after the cart is found, and nothing else does.
\<close>

record 'h usbc =
  us_cart :: flashcart
  us_buffer :: "byte list"
  us_didtimeout :: bool
  us_datatype :: int
  us_datasize :: int
  us_dataleft :: int
  us_readblock :: int
  d64_wasarmed :: bool
  d64_extendedaddr :: bool
  us_hw :: 'h

abbreviation BUFFER_SIZE :: nat where "BUFFER_SIZE \<equiv> 512"
abbreviation DEBUG_ADDRESS_SIZE :: u32 where "DEBUG_ADDRESS_SIZE \<equiv> 8 * 1024 * 1024"
abbreviation CART_BASE :: u32 where "CART_BASE \<equiv> 0x10000000"

definition USBHEADER_CREATE :: "int \<Rightarrow> int \<Rightarrow> u32" where
  "USBHEADER_CREATE type left = push_bit 24 (of_int type) OR (of_int left AND 0x00FFFFFF)"

definition ALIGN :: "nat \<Rightarrow> nat \<Rightarrow> nat" where
  "ALIGN value align = ((value + (align - 1)) div align) * align"

section \<open>Input and output\<close>

definition usb_io_read :: "'h pi_bus \<Rightarrow> u32 \<Rightarrow> 'h usbc \<Rightarrow> u32 \<times> 'h usbc" where
  "usb_io_read pi a s = (case pi_read pi a (us_hw s) of (v, h) \<Rightarrow> (v, s\<lparr>us_hw := h\<rparr>))"

definition usb_io_write :: "'h pi_bus \<Rightarrow> u32 \<Rightarrow> u32 \<Rightarrow> 'h usbc \<Rightarrow> 'h usbc" where
  "usb_io_write pi a v s = s\<lparr>us_hw := pi_write pi a v (us_hw s)\<rparr>"

definition usb_dma_read :: "'h pi_bus \<Rightarrow> u32 \<Rightarrow> nat \<Rightarrow> 'h usbc \<Rightarrow> byte list \<times> 'h usbc" where
  "usb_dma_read pi a n s = (case pi_dma_read pi a n (us_hw s) of (bs, h) \<Rightarrow> (bs, s\<lparr>us_hw := h\<rparr>))"

definition usb_dma_write :: "'h pi_bus \<Rightarrow> byte list \<Rightarrow> u32 \<Rightarrow> 'h usbc \<Rightarrow> 'h usbc" where
  "usb_dma_write pi bs a s = s\<lparr>us_hw := pi_dma_write pi bs a (us_hw s)\<rparr>"

text \<open>\<open>memcpy(buffer + off, bs, \<dots>)\<close> into a buffer that is long enough.\<close>

definition copy_in :: "nat \<Rightarrow> byte list \<Rightarrow> byte list \<Rightarrow> byte list" where
  "copy_in off bs buff = take off buff @ bs @ drop (off + length bs) buff"

section \<open>Time limits\<close>

definition usb_timeout_start :: "'h pi_bus \<Rightarrow> 'h usbc \<Rightarrow> u32 \<times> 'h usbc" where
  "usb_timeout_start pi s = (case pi_count pi (us_hw s) of (t, h) \<Rightarrow> (t, s\<lparr>us_hw := h\<rparr>))"

definition usb_timeout_check :: "'h pi_bus \<Rightarrow> u32 \<Rightarrow> nat \<Rightarrow> 'h usbc \<Rightarrow> bool \<times> 'h usbc" where
  "usb_timeout_check pi start_ticks duration s =
     (case pi_count pi (us_hw s) of (t, h) \<Rightarrow>
        let timeout_ticks = pi_cycles pi (duration * 1000);
            current_ticks = (if t < start_ticks then unat t + 0x100000000 else unat t)
        in (unat start_ticks + timeout_ticks \<le> current_ticks, s\<lparr>us_hw := h\<rparr>))"

text \<open>
  The waits of the drivers. \<open>wait_while\<close> checks the time before it reads: \<open>True\<close> is a timeout.
  \<open>spin_until\<close> has no limit and gives the last value read; \<open>None\<close> is a wait that never ends.
\<close>

partial_function (option) wait_while ::
    "'h pi_bus \<Rightarrow> u32 \<Rightarrow> nat \<Rightarrow> ('h usbc \<Rightarrow> (u32 \<times> 'h usbc) option) \<Rightarrow> (u32 \<Rightarrow> bool) \<Rightarrow> 'h usbc
      \<Rightarrow> (bool \<times> 'h usbc) option" where
  "wait_while pi start duration reads busy s =
     (case usb_timeout_check pi start duration s of (late, s) \<Rightarrow>
        if late then Some (True, s)
        else Option.bind (reads s) (\<lambda>(v, s).
          if busy v then wait_while pi start duration reads busy s else Some (False, s)))"

partial_function (option) spin_until ::
    "'h pi_bus \<Rightarrow> u32 \<Rightarrow> (u32 \<Rightarrow> bool) \<Rightarrow> 'h usbc \<Rightarrow> (u32 \<times> 'h usbc) option" where
  "spin_until pi reg stop s =
     (case usb_io_read pi reg s of (v, s) \<Rightarrow>
        if stop v then Some (v, s) else spin_until pi reg stop s)"

section \<open>64Drive\<close>

abbreviation D64_CI_BUSY :: u32 where "D64_CI_BUSY \<equiv> 0x1000"
abbreviation D64_MAGIC :: u32 where "D64_MAGIC \<equiv> 0x55444556"
abbreviation D64_CUI_ARM_MASK :: u32 where "D64_CUI_ARM_MASK \<equiv> 0x0F"
abbreviation D64_CUI_WRITE_MASK :: u32 where "D64_CUI_WRITE_MASK \<equiv> 0xF0"

definition usb_getaddr :: "'h usbc \<Rightarrow> u32" where
  "usb_getaddr s =
     (if us_cart s = Cart64Drive \<and> d64_extendedaddr s then 0x10000000 - DEBUG_ADDRESS_SIZE
      else 0x04000000 - DEBUG_ADDRESS_SIZE)"

definition usb_64drive_get_baseaddr :: "'h usbc \<Rightarrow> u32" where
  "usb_64drive_get_baseaddr s = (if d64_extendedaddr s then 0x1F800000 else 0x18000000)"

abbreviation D64_REG_STATUS :: "'h usbc \<Rightarrow> u32" where "D64_REG_STATUS s \<equiv> usb_64drive_get_baseaddr s + 0x0200"
abbreviation D64_REG_COMMAND :: "'h usbc \<Rightarrow> u32" where "D64_REG_COMMAND s \<equiv> usb_64drive_get_baseaddr s + 0x0208"
abbreviation D64_REG_MAGIC :: "'h usbc \<Rightarrow> u32" where "D64_REG_MAGIC s \<equiv> usb_64drive_get_baseaddr s + 0x02EC"
abbreviation D64_REG_USBCOMSTAT :: "'h usbc \<Rightarrow> u32" where "D64_REG_USBCOMSTAT s \<equiv> usb_64drive_get_baseaddr s + 0x0400"
abbreviation D64_REG_USBP0R0 :: "'h usbc \<Rightarrow> u32" where "D64_REG_USBP0R0 s \<equiv> usb_64drive_get_baseaddr s + 0x0404"
abbreviation D64_REG_USBP1R1 :: "'h usbc \<Rightarrow> u32" where "D64_REG_USBP1R1 s \<equiv> usb_64drive_get_baseaddr s + 0x0408"

definition usb_64drive_wait :: "'h pi_bus \<Rightarrow> 'h usbc \<Rightarrow> (bool \<times> 'h usbc) option" where
  "usb_64drive_wait pi s =
     (case usb_timeout_start pi s of (timeout, s) \<Rightarrow>
      Option.bind (wait_while pi timeout 100 (\<lambda>s. Some (usb_io_read pi (D64_REG_STATUS s) s))
          (\<lambda>v. v AND D64_CI_BUSY \<noteq> 0) s)
        (\<lambda>(late, s). Some (late, s\<lparr>us_didtimeout := late\<rparr>)))"

definition usb_64drive_set_writable :: "'h pi_bus \<Rightarrow> bool \<Rightarrow> 'h usbc \<Rightarrow> 'h usbc option" where
  "usb_64drive_set_writable pi enable s = do {
     (_, s) \<leftarrow> usb_64drive_wait pi s;
     (_, s) \<leftarrow> usb_64drive_wait pi (usb_io_write pi (D64_REG_COMMAND s) (if enable then 0xF0 else 0xF1) s);
     Some s }"

definition usb_64drive_set_extendedaddress :: "'h pi_bus \<Rightarrow> bool \<Rightarrow> 'h usbc \<Rightarrow> 'h usbc option" where
  "usb_64drive_set_extendedaddress pi enable s = do {
     (_, s) \<leftarrow> usb_64drive_wait pi s;
     (_, s) \<leftarrow> usb_64drive_wait pi
       ((usb_io_write pi (D64_REG_COMMAND s) (if enable then 0xF8 else 0xF9) s)\<lparr>d64_extendedaddr := enable\<rparr>);
     Some s }"

text \<open>The three writes that hand the cart a buffer, common to arming with and without data.\<close>

definition arm_buffer :: "'h pi_bus \<Rightarrow> u32 \<Rightarrow> u32 \<Rightarrow> 'h usbc \<Rightarrow> 'h usbc" where
  "arm_buffer pi offset sz s =
     (let s = usb_io_write pi (D64_REG_USBP0R0 s) (drop_bit 1 offset) s;
          s = usb_io_write pi (D64_REG_USBP1R1 s) (sz AND 0x00FFFFFF) s
      in usb_io_write pi (D64_REG_USBCOMSTAT s) 0x0A s)"

definition usb_64drive_cui_arm :: "'h pi_bus \<Rightarrow> u32 \<Rightarrow> u32 \<Rightarrow> 'h usbc \<Rightarrow> 'h usbc option" where
  "usb_64drive_cui_arm pi offset sz s =
     map_option snd (spin_until pi (D64_REG_USBCOMSTAT s) (\<lambda>v. v AND D64_CUI_ARM_MASK = 0x02)
       (arm_buffer pi offset sz s))"

definition usb_64drive_cui_armcheck :: "'h pi_bus \<Rightarrow> u32 \<Rightarrow> u32 \<Rightarrow> 'h usbc \<Rightarrow> 'h usbc option" where
  "usb_64drive_cui_armcheck pi offset sz s =
     map_option snd (spin_until pi (D64_REG_USBCOMSTAT s) (\<lambda>v. v AND D64_CUI_ARM_MASK \<noteq> 0x0F)
       (arm_buffer pi offset sz s))"

definition usb_64drive_cui_disarm :: "'h pi_bus \<Rightarrow> 'h usbc \<Rightarrow> 'h usbc option" where
  "usb_64drive_cui_disarm pi s =
     map_option snd (spin_until pi (D64_REG_USBCOMSTAT s) (\<lambda>v. v AND D64_CUI_ARM_MASK = 0x00)
       (usb_io_write pi (D64_REG_USBCOMSTAT s) 0x0F s))"

definition usb_64drive_cui_write :: "'h pi_bus \<Rightarrow> int \<Rightarrow> u32 \<Rightarrow> nat \<Rightarrow> 'h usbc \<Rightarrow> (int \<times> 'h usbc) option" where
  "usb_64drive_cui_write pi datatype offset sz s =
     (case usb_io_read pi (D64_REG_USBCOMSTAT s) s of (comstat, s) \<Rightarrow>
      if comstat AND D64_CUI_ARM_MASK \<noteq> 0x00 then Some (0, s) else
      let s = usb_io_write pi (D64_REG_USBP0R0 s) (drop_bit 1 offset) s;
          s = usb_io_write pi (D64_REG_USBP1R1 s) (USBHEADER_CREATE datatype (int (ALIGN sz 4))) s;
          s = usb_io_write pi (D64_REG_USBCOMSTAT s) 0x08 s;
          (timeout, s) = usb_timeout_start pi s
      in Option.bind (wait_while pi timeout 100 (\<lambda>s. Some (usb_io_read pi (D64_REG_USBCOMSTAT s) s))
             (\<lambda>v. v AND D64_CUI_WRITE_MASK \<noteq> 0x00) s)
           (\<lambda>(late, s). Some (if late then -1 else 1, s\<lparr>us_didtimeout := late\<rparr>)))"

text \<open>The loop of \<open>usb_64drive_cui_read\<close>; the argument \<open>datatype\<close> of the code is the last value read.\<close>

partial_function (option) cui_read_loop ::
    "'h pi_bus \<Rightarrow> u32 \<Rightarrow> u32 \<Rightarrow> u32 \<Rightarrow> 'h usbc \<Rightarrow> ((u32 \<times> u32) option \<times> 'h usbc) option" where
  "cui_read_loop pi offset sz left s =
     Option.bind
       (if \<not> d64_wasarmed s \<or> 0 < left
        then Option.bind (usb_64drive_cui_arm pi (offset + sz) (DEBUG_ADDRESS_SIZE - sz) (s\<lparr>d64_wasarmed := True\<rparr>))
          (\<lambda>s. Some (True, s))
        else Option.bind (usb_64drive_cui_armcheck pi offset DEBUG_ADDRESS_SIZE s) (\<lambda>s.
          case usb_io_read pi (D64_REG_USBCOMSTAT s) s of (v, s) \<Rightarrow>
            if v AND D64_CUI_ARM_MASK = 0x01
            then Option.bind (usb_64drive_cui_disarm pi s) (\<lambda>s. Some (False, s\<lparr>d64_wasarmed := False\<rparr>))
            else Some (True, s)))
       (\<lambda>(more, s).
          if \<not> more then Some (None, s) else
          case usb_io_read pi (D64_REG_USBP0R0 s) s of (datatype, s) \<Rightarrow>
          case usb_io_read pi (D64_REG_USBP1R1 s) s of (v, s) \<Rightarrow>
            let sz = sz + (datatype AND 0x00FFFFFF); left = v AND 0x00FFFFFF
            in if 0 < left then cui_read_loop pi offset sz left s else Some (Some (datatype, sz), s))"

definition usb_64drive_cui_read :: "'h pi_bus \<Rightarrow> u32 \<Rightarrow> 'h usbc \<Rightarrow> (u32 \<times> 'h usbc) option" where
  "usb_64drive_cui_read pi offset s = do {
     (r, s) \<leftarrow> cui_read_loop pi offset 0 0 s;
     case r of
       None \<Rightarrow> Some (0, s)
     | Some (datatype, sz) \<Rightarrow>
         let sz = (if 512 < sz then sz - 512 else sz) in Some ((datatype AND 0xFF000000) OR sz, s) }"

definition usb_64drive_poll :: "'h pi_bus \<Rightarrow> 'h usbc \<Rightarrow> (u32 \<times> 'h usbc) option" where
  "usb_64drive_poll pi s =
     (case usb_io_read pi (D64_REG_USBCOMSTAT s) s of (v, s) \<Rightarrow>
      if v AND D64_CUI_ARM_MASK \<noteq> 0x02 then Some (0, s) else do {
        (header, s) \<leftarrow> usb_64drive_cui_read pi (usb_getaddr s) s;
        if header = 0 then Some (0, s)
        else let n = uint (header AND 0x00FFFFFF); ty = uint (drop_bit 24 (header AND 0xFF000000))
          in Some (USBHEADER_CREATE ty n,
               s\<lparr>us_datatype := ty, us_dataleft := n, us_datasize := n, us_readblock := -1\<rparr>) })"

text \<open>
  The loop of \<open>usb_64drive_write\<close> copies blocks to the cart's memory, padded to four bytes with
  zeroes; the pointers then move on by the padded size. The one of \<open>usb_sc64_write\<close> is the same
  without the padding.
\<close>

definition pad4 :: "byte list \<Rightarrow> byte list" where
  "pad4 bs = bs @ replicate (ALIGN (length bs) 4 - length bs) 0"

function copy_blocks :: "'h pi_bus \<Rightarrow> (byte list \<Rightarrow> byte list) \<Rightarrow> u32 \<Rightarrow> byte list \<Rightarrow> 'h usbc \<Rightarrow> 'h usbc" where
  "copy_blocks pi pad a data s =
     (if data = [] then s
      else let bs = pad (take BUFFER_SIZE data);
               s = s\<lparr>us_buffer := copy_in 0 bs (us_buffer s)\<rparr>;
               s = usb_dma_write pi (take (ALIGN (length bs) 2) (us_buffer s)) a s
           in copy_blocks pi pad (a + of_nat (length bs)) (drop BUFFER_SIZE data) s)"
  by pat_completeness auto
termination by (relation "measure (\<lambda>(_, _, _, data, _). length data)") auto

declare copy_blocks.simps [simp del]

definition d64_copy_loop :: "'h pi_bus \<Rightarrow> u32 \<Rightarrow> byte list \<Rightarrow> 'h usbc \<Rightarrow> 'h usbc" where
  "d64_copy_loop pi = copy_blocks pi pad4"

definition sc64_copy_loop :: "'h pi_bus \<Rightarrow> u32 \<Rightarrow> byte list \<Rightarrow> 'h usbc \<Rightarrow> 'h usbc" where
  "sc64_copy_loop pi = copy_blocks pi (\<lambda>bs. bs)"

definition usb_64drive_write :: "'h pi_bus \<Rightarrow> int \<Rightarrow> byte list \<Rightarrow> 'h usbc \<Rightarrow> (int \<times> 'h usbc) option" where
  "usb_64drive_write pi datatype data s =
     (let pi_address = CART_BASE + usb_getaddr s;
          (comstat, s) = usb_io_read pi (D64_REG_USBCOMSTAT s) s
      in if comstat AND D64_CUI_ARM_MASK \<noteq> 0x00 then Some (0, s)
      else if comstat AND D64_CUI_WRITE_MASK = 0xF0 then Some (-1, s\<lparr>us_didtimeout := True\<rparr>)
      else do {
        s \<leftarrow> usb_64drive_set_writable pi True s;
        s \<leftarrow> usb_64drive_set_writable pi False (d64_copy_loop pi pi_address data s);
        usb_64drive_cui_write pi datatype (usb_getaddr s) (length data) s })"

text \<open>Each driver reads the block at \<open>us_readblock\<close> into the buffer.\<close>

definition read_block :: "'h pi_bus \<Rightarrow> 'h usbc \<Rightarrow> 'h usbc" where
  "read_block pi s =
     (case usb_dma_read pi (CART_BASE + usb_getaddr s + of_int (us_readblock s)) BUFFER_SIZE s of
        (bs, s) \<Rightarrow> s\<lparr>us_buffer := copy_in 0 bs (us_buffer s)\<rparr>)"

section \<open>EverDrive\<close>

abbreviation ED_REG_USBCFG :: u32 where "ED_REG_USBCFG \<equiv> 0x1F800004"
abbreviation ED_REG_USBDAT :: u32 where "ED_REG_USBDAT \<equiv> 0x1F800400"
abbreviation ED_REG_VERSION :: u32 where "ED_REG_VERSION \<equiv> 0x1F800014"
abbreviation ED_REG_SYSCFG :: u32 where "ED_REG_SYSCFG \<equiv> 0x1F808000"
abbreviation ED_REG_KEY :: u32 where "ED_REG_KEY \<equiv> 0x1F808004"
abbreviation ED25_VERSION :: u32 where "ED25_VERSION \<equiv> 0xED640007"
abbreviation ED3_VERSION :: u32 where "ED3_VERSION \<equiv> 0xED640008"
abbreviation EDX_VERSION :: u32 where "EDX_VERSION \<equiv> 0xED640013"
abbreviation ED_USBSTAT_ACT :: u32 where "ED_USBSTAT_ACT \<equiv> 0x0200"
abbreviation ED_USBSTAT_RXF :: u32 where "ED_USBSTAT_RXF \<equiv> 0x0400"
abbreviation ED_USBSTAT_POWER :: u32 where "ED_USBSTAT_POWER \<equiv> 0x1000"

text \<open>The register is read before the time is checked.\<close>

partial_function (option) everdrive_busy_loop :: "'h pi_bus \<Rightarrow> u32 \<Rightarrow> 'h usbc \<Rightarrow> (bool \<times> 'h usbc) option" where
  "everdrive_busy_loop pi timeout s =
     (case usb_io_read pi ED_REG_USBCFG s of (val, s) \<Rightarrow>
      case usb_timeout_check pi timeout 100 s of (late, s) \<Rightarrow>
        if late then Some (True, (usb_io_write pi ED_REG_USBCFG 0xC400 s)\<lparr>us_didtimeout := True\<rparr>)
        else if val AND ED_USBSTAT_ACT \<noteq> 0 then everdrive_busy_loop pi timeout s else Some (False, s))"

definition usb_everdrive_usbbusy :: "'h pi_bus \<Rightarrow> 'h usbc \<Rightarrow> (bool \<times> 'h usbc) option" where
  "usb_everdrive_usbbusy pi s = (case usb_timeout_start pi s of (timeout, s) \<Rightarrow> everdrive_busy_loop pi timeout s)"

definition usb_everdrive_canread :: "'h pi_bus \<Rightarrow> 'h usbc \<Rightarrow> bool \<times> 'h usbc" where
  "usb_everdrive_canread pi s =
     (case usb_io_read pi ED_REG_USBCFG s of (val, s) \<Rightarrow>
        (val AND (ED_USBSTAT_POWER OR ED_USBSTAT_RXF) = ED_USBSTAT_POWER, s))"

text \<open>
  Reads \<open>n\<close> bytes to \<open>off\<close> in a buffer, in blocks; a timeout leaves the rest of it as it was.
\<close>

function usb_everdrive_readusb :: "'h pi_bus \<Rightarrow> byte list \<Rightarrow> nat \<Rightarrow> nat \<Rightarrow> 'h usbc \<Rightarrow> (byte list \<times> 'h usbc) option" where
  "usb_everdrive_readusb pi buff off n s =
     (if n = 0 then Some (buff, s)
      else let block = min BUFFER_SIZE n; a = of_nat (BUFFER_SIZE - block);
               s = usb_io_write pi ED_REG_USBCFG (0xC600 OR a) s
           in do {
             (late, s) \<leftarrow> usb_everdrive_usbbusy pi s;
             if late then Some (buff, s)
             else let (bs, s) = usb_dma_read pi (ED_REG_USBDAT + a) block s
               in usb_everdrive_readusb pi (copy_in off bs buff) (off + block) (n - block) s })"
  by pat_completeness auto
termination by (relation "measure (\<lambda>(_, _, _, n, _). n)") auto

declare usb_everdrive_readusb.simps [simp del]

text \<open>Sends the first \<open>blocksend\<close> bytes of the buffer.\<close>

definition everdrive_send :: "'h pi_bus \<Rightarrow> nat \<Rightarrow> 'h usbc \<Rightarrow> (bool \<times> 'h usbc) option" where
  "everdrive_send pi blocksend s =
     (let baddr = of_nat (BUFFER_SIZE - blocksend);
          s = usb_io_write pi ED_REG_USBCFG 0xC000 s;
          s = usb_dma_write pi (take blocksend (us_buffer s)) (ED_REG_USBDAT + baddr) s
      in usb_everdrive_usbbusy pi (usb_io_write pi ED_REG_USBCFG (0xC200 OR baddr) s))"

text \<open>
  The loop of \<open>usb_everdrive_write\<close>: \<open>src\<close> is what \<open>data\<close> points to, from \<open>n\<close> on unsent, \<open>left\<close> the
  bytes to go, \<open>off\<close> where the next ones go in the buffer. When the data is used up the loop starts
  again with the four bytes that end a message.
\<close>

partial_function (option) everdrive_write_loop ::
    "'h pi_bus \<Rightarrow> nat \<Rightarrow> bool \<Rightarrow> byte list \<Rightarrow> nat \<Rightarrow> nat \<Rightarrow> nat \<Rightarrow> 'h usbc \<Rightarrow> (int \<times> 'h usbc) option" where
  "everdrive_write_loop pi sz wrotecmp src n left off s =
     (if left = 0 then Some (1, s\<lparr>us_didtimeout := False\<rparr>)
      else let block = (if BUFFER_SIZE < left + off then BUFFER_SIZE - off else left);
               s = s\<lparr>us_buffer := copy_in off (take block (drop n src)) (us_buffer s)\<rparr>
           in if \<not> wrotecmp \<and> sz \<le> n + block
              then everdrive_write_loop pi sz True (str_bytes ''CMPH'') 0 4 (block + off) s
              else Option.bind (everdrive_send pi (ALIGN (block + off) 2) s) (\<lambda>(late, s).
                     if late then Some (-1, s\<lparr>us_didtimeout := True\<rparr>)
                     else everdrive_write_loop pi sz wrotecmp src (n + block) (left - block) 0 s))"

definition usb_everdrive_write :: "'h pi_bus \<Rightarrow> int \<Rightarrow> byte list \<Rightarrow> 'h usbc \<Rightarrow> (int \<times> 'h usbc) option" where
  "usb_everdrive_write pi datatype data s =
     (let sz = length data; header = (of_nat sz AND 0x00FFFFFF) OR push_bit 24 (of_int datatype) :: u32
      in everdrive_write_loop pi sz False data 0 sz 8
        (s\<lparr>us_buffer := copy_in 0 (str_bytes ''DMA@'' @ [ucast (drop_bit 24 header),
            ucast (drop_bit 16 header), ucast (drop_bit 8 header), ucast header]) (us_buffer s)\<rparr>))"

text \<open>The loop of \<open>usb_everdrive_poll\<close>: \<open>n\<close> bytes go to the cartridge's memory by blocks.\<close>

function everdrive_poll_loop :: "'h pi_bus \<Rightarrow> nat \<Rightarrow> nat \<Rightarrow> 'h usbc \<Rightarrow> 'h usbc option" where
  "everdrive_poll_loop pi n off s =
     (if n = 0 then Some s
      else let bytes_do = min BUFFER_SIZE n
           in do {
             (buff, s) \<leftarrow> usb_everdrive_readusb pi (us_buffer s) 0 bytes_do s;
             let s = usb_dma_write pi (take bytes_do buff) (CART_BASE + usb_getaddr s + of_nat off)
               (s\<lparr>us_buffer := buff\<rparr>);
             everdrive_poll_loop pi (n - bytes_do) (off + bytes_do) s })"
  by pat_completeness auto
termination by (relation "measure (\<lambda>(_, n, _, _). n)") auto

declare everdrive_poll_loop.simps [simp del]

text \<open>\<open>buff0\<close> is what the stack holds where the code keeps its local buffer.\<close>

definition usb_everdrive_poll :: "'h pi_bus \<Rightarrow> byte list \<Rightarrow> 'h usbc \<Rightarrow> (u32 \<times> 'h usbc) option" where
  "usb_everdrive_poll pi buff0 s = do {
     (late, s) \<leftarrow> usb_everdrive_usbbusy pi s;
     if late then Some (0, s) else
     case usb_everdrive_canread pi s of (readable, s) \<Rightarrow>
     if \<not> readable then Some (0, s) else do {
       (buff, s) \<leftarrow> usb_everdrive_readusb pi buff0 0 8 s;
       if take 4 buff \<noteq> str_bytes ''DMA@'' then Some (0, s) else do {
         let sz = unat (buff ! 5) * 0x10000 + unat (buff ! 6) * 0x100 + unat (buff ! 7);
         let s = s\<lparr>us_datatype := uint (buff ! 4), us_datasize := int sz, us_dataleft := int sz,
                   us_readblock := -1\<rparr>;
         s \<leftarrow> everdrive_poll_loop pi (ALIGN sz 2) 0 s;
         (late, s) \<leftarrow> usb_everdrive_usbbusy pi s;
         if late then Some (0, s) else do {
           (buff, s) \<leftarrow> usb_everdrive_readusb pi buff 0 4 s;
           if take 4 buff \<noteq> str_bytes ''CMPH''
           then Some (0, s\<lparr>us_datatype := 0, us_datasize := 0, us_dataleft := 0, us_readblock := -1\<rparr>)
           else Some (USBHEADER_CREATE (us_datatype s) (us_datasize s), s) } } } }"

section \<open>SummerCart64\<close>

abbreviation SC64_REG_SR_CMD :: u32 where "SC64_REG_SR_CMD \<equiv> 0x1FFF0000"
abbreviation SC64_REG_DATA_0 :: u32 where "SC64_REG_DATA_0 \<equiv> 0x1FFF0004"
abbreviation SC64_REG_DATA_1 :: u32 where "SC64_REG_DATA_1 \<equiv> 0x1FFF0008"
abbreviation SC64_REG_IDENTIFIER :: u32 where "SC64_REG_IDENTIFIER \<equiv> 0x1FFF000C"
abbreviation SC64_REG_KEY :: u32 where "SC64_REG_KEY \<equiv> 0x1FFF0010"
abbreviation SC64_V2_IDENTIFIER :: u32 where "SC64_V2_IDENTIFIER \<equiv> 0x53437632"
abbreviation SC64_SR_CMD_ERROR :: nat where "SC64_SR_CMD_ERROR \<equiv> 30"
abbreviation SC64_SR_CMD_BUSY :: nat where "SC64_SR_CMD_BUSY \<equiv> 31"
abbreviation SC64_USB_STATUS_BUSY :: nat where "SC64_USB_STATUS_BUSY \<equiv> 31"

text \<open>\<open>want\<close> says whether the caller passes an array for the result; without one it is not read.\<close>

definition usb_sc64_execute_cmd ::
    "'h pi_bus \<Rightarrow> char \<Rightarrow> (u32 \<times> u32) option \<Rightarrow> bool \<Rightarrow> 'h usbc \<Rightarrow> (bool \<times> (u32 \<times> u32) \<times> 'h usbc) option" where
  "usb_sc64_execute_cmd pi cmd args want s = do {
     let s = (case args of None \<Rightarrow> s
       | Some (a0, a1) \<Rightarrow> usb_io_write pi SC64_REG_DATA_1 a1 (usb_io_write pi SC64_REG_DATA_0 a0 s));
     (sr, s) \<leftarrow> spin_until pi SC64_REG_SR_CMD (\<lambda>sr. \<not> bit sr SC64_SR_CMD_BUSY)
       (usb_io_write pi SC64_REG_SR_CMD (of_char cmd) s);
     let err = bit sr SC64_SR_CMD_ERROR;
     Some (if want then
         case usb_io_read pi SC64_REG_DATA_0 s of (r0, s) \<Rightarrow>
         case usb_io_read pi SC64_REG_DATA_1 s of (r1, s) \<Rightarrow> (err, (r0, r1), s)
       else (err, (0, 0), s)) }"

definition usb_sc64_set_writable :: "'h pi_bus \<Rightarrow> u32 \<Rightarrow> 'h usbc \<Rightarrow> (u32 \<times> 'h usbc) option" where
  "usb_sc64_set_writable pi enable s = do {
     (err, (_, r1), s) \<leftarrow> usb_sc64_execute_cmd pi (CHR ''C'') (Some (1, enable)) True s;
     Some (if err then 0 else r1, s) }"

definition sc64_status :: "'h pi_bus \<Rightarrow> char \<Rightarrow> 'h usbc \<Rightarrow> (u32 \<times> 'h usbc) option" where
  "sc64_status pi cmd s =
     map_option (\<lambda>(_, (r0, _), s). (r0, s)) (usb_sc64_execute_cmd pi cmd None True s)"

definition usb_sc64_write :: "'h pi_bus \<Rightarrow> int \<Rightarrow> byte list \<Rightarrow> 'h usbc \<Rightarrow> (int \<times> 'h usbc) option" where
  "usb_sc64_write pi datatype data s = do {
     let pi_address = CART_BASE + usb_getaddr s;
     (r0, s) \<leftarrow> sc64_status pi (CHR ''U'') s;
     if bit r0 SC64_USB_STATUS_BUSY then Some (-1, s\<lparr>us_didtimeout := True\<rparr>) else do {
       (writable_restore, s) \<leftarrow> usb_sc64_set_writable pi 1 s;
       (_, s) \<leftarrow> usb_sc64_set_writable pi writable_restore (sc64_copy_loop pi pi_address data s);
       (err, _, s) \<leftarrow> usb_sc64_execute_cmd pi (CHR ''M'')
         (Some (CART_BASE + usb_getaddr s, USBHEADER_CREATE datatype (int (length data)))) False s;
       if err then Some (0, s\<lparr>us_didtimeout := True\<rparr>) else do {
         let (timeout, s) = usb_timeout_start pi s;
         (late, s) \<leftarrow> wait_while pi timeout 100 (sc64_status pi (CHR ''U''))
           (\<lambda>r0. bit r0 SC64_USB_STATUS_BUSY) s;
         Some (if late then -1 else 1, s\<lparr>us_didtimeout := late\<rparr>) } } }"

partial_function (option) sc64_read_wait :: "'h pi_bus \<Rightarrow> 'h usbc \<Rightarrow> 'h usbc option" where
  "sc64_read_wait pi s = Option.bind (sc64_status pi (CHR ''u'') s) (\<lambda>(r0, s).
     if bit r0 SC64_USB_STATUS_BUSY then sc64_read_wait pi s else Some s)"

definition usb_sc64_poll :: "'h pi_bus \<Rightarrow> 'h usbc \<Rightarrow> (u32 \<times> 'h usbc) option" where
  "usb_sc64_poll pi s = do {
     (_, (r0, r1), s) \<leftarrow> usb_sc64_execute_cmd pi (CHR ''u'') None True s;
     let datatype = uint (r0 AND 0xFF);
     let sz = r1 AND 0xFFFFFF;
     if sz = 0 then Some (0, s) else do {
       let s = s\<lparr>us_datatype := datatype, us_dataleft := uint sz, us_datasize := uint sz, us_readblock := -1\<rparr>;
       (err, _, s) \<leftarrow> usb_sc64_execute_cmd pi (CHR ''m'') (Some (CART_BASE + usb_getaddr s, sz)) False s;
       if err then Some (0, s) else do {
         s \<leftarrow> sc64_read_wait pi s;
         Some (USBHEADER_CREATE datatype (uint sz), s) } } }"


section \<open>What the hardware does\<close>

text \<open>
  The laws of the hardware the lemmas rest on, over views of its state. The count register
  advances at every reading by at least one tick, and a read of a register takes at most \<open>D\<close>.
\<close>

definition clock_law :: "'h pi_bus \<Rightarrow> ('h \<Rightarrow> nat) \<Rightarrow> nat \<Rightarrow> bool" where
  "clock_law pi now D \<longleftrightarrow>
     (\<forall>h. fst (pi_count pi h) = of_nat (now h) \<and> now h < now (snd (pi_count pi h)) \<and>
          now (snd (pi_count pi h)) \<le> now h + D) \<and>
     (\<forall>a h. now h \<le> now (snd (pi_read pi a h)) \<and> now (snd (pi_read pi a h)) \<le> now h + D)"

text \<open>
  The memory of the cartridge between \<open>0x10000000\<close> and \<open>0x18000000\<close>: transfers read and write it;
  registers, the clock and the EverDrive's buffer leave it alone.
\<close>

definition in_rom :: "u32 \<Rightarrow> nat \<Rightarrow> bool" where
  "in_rom a n \<longleftrightarrow> 0x10000000 \<le> unat a \<and> unat a + n \<le> 0x18000000"

definition mem_bytes :: "('h \<Rightarrow> u32 \<Rightarrow> byte) \<Rightarrow> 'h \<Rightarrow> u32 \<Rightarrow> nat \<Rightarrow> byte list" where
  "mem_bytes mem h a n = map (\<lambda>i. mem h (a + of_nat i)) [0..<n]"

definition overwrite :: "u32 \<Rightarrow> byte list \<Rightarrow> (u32 \<Rightarrow> byte) \<Rightarrow> u32 \<Rightarrow> byte" where
  "overwrite a bs m = (\<lambda>x. if unat (x - a) < length bs then bs ! unat (x - a) else m x)"

definition memory_law :: "'h pi_bus \<Rightarrow> ('h \<Rightarrow> u32 \<Rightarrow> byte) \<Rightarrow> bool" where
  "memory_law pi mem \<longleftrightarrow>
     (\<forall>a n h. in_rom a n \<longrightarrow> fst (pi_dma_read pi a n h) = mem_bytes mem h a n) \<and>
     (\<forall>a n h. mem (snd (pi_dma_read pi a n h)) = mem h \<and> length (fst (pi_dma_read pi a n h)) = n) \<and>
     (\<forall>bs a h. in_rom a (length bs) \<longrightarrow>
        mem (pi_dma_write pi bs a h) = overwrite a bs (mem h)) \<and>
     (\<forall>a h. mem (snd (pi_read pi a h)) = mem h) \<and> (\<forall>h. mem (snd (pi_count pi h)) = mem h) \<and>
     (\<forall>v h. mem (pi_write pi ED_REG_USBCFG v h) = mem h)"

text \<open>
  The EverDrive's USB: bytes transferred to the end of its buffer go out with the write that gives
  their place; bytes read from the end of the buffer come in order. Nothing else consumes input or
  sends output.
\<close>

definition wire_law :: "'h pi_bus \<Rightarrow> ('h \<Rightarrow> byte list) \<Rightarrow> bool" where
  "wire_law pi sent \<longleftrightarrow>
     (\<forall>h bs. 0 < length bs \<and> length bs \<le> BUFFER_SIZE \<longrightarrow>
        (let baddr = of_nat (BUFFER_SIZE - length bs) in
         sent (pi_write pi ED_REG_USBCFG (0xC200 OR baddr)
           (pi_dma_write pi bs (ED_REG_USBDAT + baddr) (pi_write pi ED_REG_USBCFG 0xC000 h))) = sent h @ bs)) \<and>
     (\<forall>a h. sent (snd (pi_read pi a h)) = sent h) \<and> (\<forall>h. sent (snd (pi_count pi h)) = sent h)"

text \<open>
  Reading is a protocol of three steps: the write of the read mode with the place in the buffer
  asks for the bytes from there to its end; a status without the activity bit says that they are
  there; the transfer of exactly that part takes them off the line. \<open>fpga\<close> is a view of where the
  hardware is in it. A transfer without the request, of another part, or before the status was
  read promises nothing.
\<close>

datatype ed_read = Idle | Asked nat | Loaded nat

definition input_law :: "'h pi_bus \<Rightarrow> ('h \<Rightarrow> byte list) \<Rightarrow> ('h \<Rightarrow> ed_read) \<Rightarrow> bool" where
  "input_law pi inp fpga \<longleftrightarrow>
     (\<forall>h n. 0 < n \<and> n \<le> BUFFER_SIZE \<longrightarrow>
        fpga (pi_write pi ED_REG_USBCFG (0xC600 OR of_nat (BUFFER_SIZE - n)) h) = Asked n) \<and>
     (\<forall>h. fpga (snd (pi_read pi ED_REG_USBCFG h)) =
        (if fst (pi_read pi ED_REG_USBCFG h) AND ED_USBSTAT_ACT = 0
         then (case fpga h of Asked n \<Rightarrow> Loaded n | p \<Rightarrow> p) else fpga h)) \<and>
     (\<forall>h. fpga (snd (pi_count pi h)) = fpga h) \<and>
     (\<forall>h n. fpga h = Loaded n \<and> 0 < n \<and> n \<le> BUFFER_SIZE \<and> n \<le> length (inp h) \<longrightarrow>
        fst (pi_dma_read pi (ED_REG_USBDAT + of_nat (BUFFER_SIZE - n)) n h) = take n (inp h) \<and>
        inp (snd (pi_dma_read pi (ED_REG_USBDAT + of_nat (BUFFER_SIZE - n)) n h)) = drop n (inp h)) \<and>
     (\<forall>v h. inp (pi_write pi ED_REG_USBCFG v h) = inp h) \<and>
     (\<forall>bs a h. in_rom a (length bs) \<longrightarrow> inp (pi_dma_write pi bs a h) = inp h) \<and>
     (\<forall>a h. inp (snd (pi_read pi a h)) = inp h) \<and> (\<forall>h. inp (snd (pi_count pi h)) = inp h) \<and>
     (\<forall>h. inp h \<noteq> [] \<longrightarrow>
        fst (pi_read pi ED_REG_USBCFG h) AND (ED_USBSTAT_POWER OR ED_USBSTAT_RXF) = ED_USBSTAT_POWER)"

text \<open>
  An EverDrive that answers in time: at every moment it will be idle again within \<open>B\<close> ticks, and
  asking does not put that off. \<open>bu\<close> is the time until which it is busy.
\<close>

definition prompt_law :: "'h pi_bus \<Rightarrow> ('h \<Rightarrow> nat) \<Rightarrow> ('h \<Rightarrow> nat) \<Rightarrow> nat \<Rightarrow> bool" where
  "prompt_law pi now bu B \<longleftrightarrow>
     (\<forall>h. bu h \<le> now h + B) \<and>
     (\<forall>h. fst (pi_read pi ED_REG_USBCFG h) AND ED_USBSTAT_ACT \<noteq> 0 \<longrightarrow> now h < bu h) \<and>
     (\<forall>h. bu (snd (pi_read pi ED_REG_USBCFG h)) \<le> max (bu h) (now (snd (pi_read pi ED_REG_USBCFG h)))) \<and>
     (\<forall>h. bu (snd (pi_count pi h)) \<le> max (bu h) (now (snd (pi_count pi h))))"

definition answers_in_time :: "'h pi_bus \<Rightarrow> ('h \<Rightarrow> nat) \<Rightarrow> nat \<Rightarrow> bool" where
  "answers_in_time pi now D \<longleftrightarrow> (\<exists>bu B. prompt_law pi now bu B \<and> B + 3 * D < pi_cycles pi 100000)"

section \<open>Time limits\<close>

lemma usb_timeout_check_wraps:
  "fst (usb_timeout_check pi start_ticks duration s) \<longleftrightarrow>
     pi_cycles pi (duration * 1000) \<le> unat (fst (pi_count pi (us_hw s)) - start_ticks)"
proof -
  obtain t h where t: "pi_count pi (us_hw s) = (t, h)" by (cases "pi_count pi (us_hw s)")
  show ?thesis
  proof (cases "t < start_ticks")
    case True
    then have "unat (t - start_ticks) = unat t + 0x100000000 - unat start_ticks"
      by (simp add: unat_sub_if' word_less_nat_alt)
    then show ?thesis using True unsigned_less [of start_ticks, where ?'a = nat] by (auto simp: usb_timeout_check_def t Let_def)
  next
    case False
    then have "unat (t - start_ticks) = unat t - unat start_ticks"
      by (simp add: unat_sub_if' word_less_nat_alt)
    then show ?thesis using False by (auto simp: usb_timeout_check_def t Let_def word_less_nat_alt)
  qed
qed

text \<open>
  Under the clock law a loop that checks the time ends: \<open>W\<close> is the time limit, and the clock cannot
  jump over the range in which the limit counts as passed.
\<close>

lemma timeout_checkD:
  assumes "clock_law pi now D" "usb_timeout_check pi (of_nat t0) duration s = (late, s')" "t0 \<le> now (us_hw s)"
    "now (us_hw s) < t0 + 2 ^ 32"
  shows "late \<longleftrightarrow> pi_cycles pi (duration * 1000) \<le> now (us_hw s) - t0"
    "now (us_hw s) < now (us_hw s')" "now (us_hw s') \<le> now (us_hw s) + D" "\<exists>h. s' = s\<lparr>us_hw := h\<rparr>"
proof -
  have c: "pi_count pi (us_hw s) = (of_nat (now (us_hw s)), snd (pi_count pi (us_hw s)))"
    using assms(1) by (simp add: clock_law_def prod_eq_iff)
  have "(of_nat (now (us_hw s)) :: u32) - of_nat t0 = of_nat (now (us_hw s) - t0)"
    using assms(3) by simp
  then have "unat ((of_nat (now (us_hw s)) :: u32) - of_nat t0) = now (us_hw s) - t0"
    using assms(3,4) by (simp only:) (simp add: unat_of_nat take_bit_nat_eq_self del: of_nat_diff)
  then show "late \<longleftrightarrow> pi_cycles pi (duration * 1000) \<le> now (us_hw s) - t0"
    using usb_timeout_check_wraps [of pi "of_nat t0" duration s] assms(2) c by (metis fst_conv)
  have "s' = s\<lparr>us_hw := snd (pi_count pi (us_hw s))\<rparr>"
    using assms(2) by (subst (asm) usb_timeout_check_def, subst (asm) c) (simp add: Let_def)
  then show "now (us_hw s) < now (us_hw s')" "now (us_hw s') \<le> now (us_hw s) + D" "\<exists>h. s' = s\<lparr>us_hw := h\<rparr>"
    using assms(1) by (auto simp: clock_law_def)
qed

lemma wait_while_ends:
  assumes clock: "clock_law pi now D" and D: "pi_cycles pi (duration * 1000) + 2 * D < 2 ^ 32"
    and reads: "\<And>s. \<exists>v s'. reads s = Some (v, s') \<and> now (us_hw s) \<le> now (us_hw s') \<and>
      now (us_hw s') \<le> now (us_hw s) + D"
  shows "t0 \<le> now (us_hw s) \<Longrightarrow> now (us_hw s) \<le> t0 + pi_cycles pi (duration * 1000) + 2 * D \<Longrightarrow>
    \<exists>r. wait_while pi (of_nat t0) duration reads busy s = Some r"
proof (induction "t0 + pi_cycles pi (duration * 1000) + 2 * D - now (us_hw s)" arbitrary: s rule: less_induct)
  case less
  obtain late s1 where k: "usb_timeout_check pi (of_nat t0) duration s = (late, s1)" by fastforce
  note kd = timeout_checkD [OF clock k less.prems(1)]
  obtain v s2 where r: "reads s1 = Some (v, s2)" "now (us_hw s1) \<le> now (us_hw s2)"
    "now (us_hw s2) \<le> now (us_hw s1) + D" using reads by blast
  have b: "now (us_hw s) < t0 + 2 ^ 32" using less.prems(2) D by simp
  show ?case
  proof (cases "late \<or> \<not> busy v")
    case True
    then show ?thesis using k r(1) by (subst wait_while.simps) auto
  next
    case False
    then have "\<not> pi_cycles pi (duration * 1000) \<le> now (us_hw s) - t0" using kd(1) [OF b] by blast
    then have "now (us_hw s) < t0 + pi_cycles pi (duration * 1000)" using less.prems by linarith
    then have "\<exists>q. wait_while pi (of_nat t0) duration reads busy s2 = Some q"
      using kd(2,3) [OF b] r less.prems by (intro less.hyps) auto
    then show ?thesis using False k r(1) by (subst wait_while.simps) simp
  qed
qed

lemma wait_while_False:
  assumes "wait_while pi start duration reads busy s = Some (False, s')"
  shows "\<exists>s0 v. reads s0 = Some (v, s') \<and> \<not> busy v"
proof -
  have "\<not> fst r \<longrightarrow> (\<exists>s0 v. reads s0 = Some (v, snd r) \<and> \<not> busy v)"
    if "wait_while pi start duration reads busy s = Some r" for r
  proof (rule wait_while.raw_induct [OF _ that, where P = "\<lambda>_ _ _ reads busy _ r.
      \<not> fst r \<longrightarrow> (\<exists>s0 v. reads s0 = Some (v, snd r) \<and> \<not> busy v)"], goal_cases)
    case (1 f pi start duration reads busy s r)
    obtain l s1 where k: "usb_timeout_check pi start duration s = (l, s1)" by fastforce
    show ?case
    proof (cases "l \<or> reads s1 = None")
      case True
      then show ?thesis using 1(2) by (cases l) (auto simp: k)
    next
      case False
      then obtain v s2 where "reads s1 = Some (v, s2)" by auto
      then show ?thesis using 1(2) False by (cases "busy v") (auto simp: k dest!: 1(1) intro!: exI [of _ s1])
    qed
  qed
  from this [OF assms] show ?thesis by simp
qed

lemma everdrive_busy_loop_shape:
  assumes "everdrive_busy_loop pi timeout s = Some (late, s')"
  shows "s' = s\<lparr>us_hw := us_hw s', us_didtimeout := us_didtimeout s \<or> late\<rparr>"
proof -
  have "snd r = s\<lparr>us_hw := us_hw (snd r), us_didtimeout := us_didtimeout s \<or> fst r\<rparr>"
    if "everdrive_busy_loop pi timeout s = Some r" for r
  proof (rule everdrive_busy_loop.raw_induct [OF _ that, where P = "\<lambda>_ _ s r.
      snd r = s\<lparr>us_hw := us_hw (snd r), us_didtimeout := us_didtimeout s \<or> fst r\<rparr>"], goal_cases)
    case (1 f pi timeout s r)
    obtain v h where v: "pi_read pi ED_REG_USBCFG (us_hw s) = (v, h)" by fastforce
    obtain t h' where t: "pi_count pi h = (t, h')" by fastforce
    from 1(2) show ?case
      by (auto simp: usb_io_read_def usb_io_write_def usb_timeout_check_def v t Let_def
          split: if_splits dest!: 1(1))
  qed
  from this [OF assms] show ?thesis by simp
qed

text \<open>A view of the hardware that reading registers and the clock do not change.\<close>

definition view_stable :: "'h pi_bus \<Rightarrow> ('h \<Rightarrow> 'v) \<Rightarrow> bool" where
  "view_stable pi V \<longleftrightarrow> (\<forall>a h. V (snd (pi_read pi a h)) = V h) \<and> (\<forall>h. V (snd (pi_count pi h)) = V h)"

lemma everdrive_busy_loop_view:
  assumes "everdrive_busy_loop pi timeout s = Some (late, s')" "view_stable pi V"
    "late \<Longrightarrow> \<forall>h. V (pi_write pi ED_REG_USBCFG 0xC400 h) = V h"
  shows "V (us_hw s') = V (us_hw s)"
proof -
  have "(fst r \<longrightarrow> (\<forall>h. V (pi_write pi ED_REG_USBCFG 0xC400 h) = V h)) \<longrightarrow> view_stable pi V \<longrightarrow>
      V (us_hw (snd r)) = V (us_hw s)"
    if "everdrive_busy_loop pi timeout s = Some r" for r
  proof (rule everdrive_busy_loop.raw_induct [OF _ that, where P = "\<lambda>pi _ s r.
      (fst r \<longrightarrow> (\<forall>h. V (pi_write pi ED_REG_USBCFG 0xC400 h) = V h)) \<longrightarrow> view_stable pi V \<longrightarrow>
      V (us_hw (snd r)) = V (us_hw s)"], goal_cases)
    case (1 f pi timeout s r)
    obtain v h where v: "pi_read pi ED_REG_USBCFG (us_hw s) = (v, h)" by fastforce
    obtain t h' where t: "pi_count pi h = (t, h')" by fastforce
    have "V h' = V (us_hw s)" if "view_stable pi V" using that v t unfolding view_stable_def by (metis snd_conv)
    with 1(2) show ?case
      by (auto simp: usb_io_read_def usb_io_write_def usb_timeout_check_def v t Let_def
          split: if_splits dest!: 1(1))
  qed
  from this [OF assms(1)] assms(2,3) show ?thesis by simp
qed

lemma everdrive_busy_loop_ends:
  assumes clock: "clock_law pi now D" and D: "pi_cycles pi 100000 + 3 * D < 2 ^ 32"
  shows "t0 \<le> now (us_hw s) \<Longrightarrow> now (us_hw s) \<le> t0 + pi_cycles pi 100000 + 2 * D \<Longrightarrow>
    \<exists>r. everdrive_busy_loop pi (of_nat t0) s = Some r"
proof (induction "t0 + pi_cycles pi 100000 + 2 * D - now (us_hw s)" arbitrary: s rule: less_induct)
  case less
  obtain v s1 where r: "usb_io_read pi ED_REG_USBCFG s = (v, s1)" by fastforce
  have n: "now (us_hw s) \<le> now (us_hw s1)" "now (us_hw s1) \<le> now (us_hw s) + D"
    using clock r by (auto simp: clock_law_def usb_io_read_def split: prod.splits) (metis snd_conv)+
  obtain late s2 where k: "usb_timeout_check pi (of_nat t0) 100 s1 = (late, s2)" by fastforce
  have b: "now (us_hw s1) < t0 + 2 ^ 32" "t0 \<le> now (us_hw s1)" using n less.prems D by auto
  note kd = timeout_checkD [OF clock k b(2,1)]
  show ?case
  proof (cases "late \<or> v AND ED_USBSTAT_ACT = 0")
    case True
    then show ?thesis using k r by (subst everdrive_busy_loop.simps) auto
  next
    case False
    then have "\<not> pi_cycles pi 100000 \<le> now (us_hw s1) - t0" using kd(1) by simp
    then have "now (us_hw s2) \<le> t0 + pi_cycles pi 100000 + 2 * D" using kd(3) by linarith
    then have "\<exists>q. everdrive_busy_loop pi (of_nat t0) s2 = Some q"
      using kd(2) n b(2) less.prems by (intro less.hyps) auto
    then show ?thesis using False k r by (subst everdrive_busy_loop.simps) simp
  qed
qed

lemma timeout_startE:
  assumes "clock_law pi now D"
  obtains s1 where "usb_timeout_start pi s = (of_nat (now (us_hw s)), s1)"
    "s1 = s\<lparr>us_hw := snd (pi_count pi (us_hw s))\<rparr>"
    "now (us_hw s) \<le> now (us_hw s1)" "now (us_hw s1) \<le> now (us_hw s) + D"
proof
  show "usb_timeout_start pi s = (of_nat (now (us_hw s)), s\<lparr>us_hw := snd (pi_count pi (us_hw s))\<rparr>)"
    using assms by (auto simp: usb_timeout_start_def clock_law_def split: prod.splits) (metis fst_conv)
qed (use assms in \<open>auto simp: clock_law_def less_imp_le\<close>)

lemma usbbusy_ends:
  assumes "clock_law pi now D" "pi_cycles pi 100000 + 3 * D < 2 ^ 32"
  obtains late s' where "usb_everdrive_usbbusy pi s = Some (late, s')"
proof -
  obtain s1 where t: "usb_timeout_start pi s = (of_nat (now (us_hw s)), s1)" and
    n: "now (us_hw s) \<le> now (us_hw s1)" "now (us_hw s1) \<le> now (us_hw s) + D"
    by (rule timeout_startE [OF assms(1)])
  have "\<exists>r. everdrive_busy_loop pi (of_nat (now (us_hw s))) s1 = Some r"
    using n by (intro everdrive_busy_loop_ends [OF assms]) auto
  then show thesis using that by (auto simp: usb_everdrive_usbbusy_def t)
qed

lemma usbbusy_shape:
  assumes "usb_everdrive_usbbusy pi s = Some (late, s')"
  shows "s' = s\<lparr>us_hw := us_hw s', us_didtimeout := us_didtimeout s \<or> late\<rparr>"
proof -
  obtain t h where c: "pi_count pi (us_hw s) = (t, h)" by fastforce
  show ?thesis using everdrive_busy_loop_shape [of pi t "s\<lparr>us_hw := h\<rparr>" late s'] assms
    by (simp add: usb_everdrive_usbbusy_def usb_timeout_start_def c)
qed

lemma usbbusy_view:
  assumes "usb_everdrive_usbbusy pi s = Some (late, s')" "view_stable pi V"
    "late \<Longrightarrow> \<forall>h. V (pi_write pi ED_REG_USBCFG 0xC400 h) = V h"
  shows "V (us_hw s') = V (us_hw s)"
proof -
  obtain t h where c: "pi_count pi (us_hw s) = (t, h)" by fastforce
  have "V h = V (us_hw s)" using assms(2) c unfolding view_stable_def by (metis snd_conv)
  then show ?thesis using everdrive_busy_loop_view [of pi t "s\<lparr>us_hw := h\<rparr>" late s' V] assms
    by (simp add: usb_everdrive_usbbusy_def usb_timeout_start_def c)
qed

lemma input_lawD:
  assumes "input_law pi inp fpga"
  shows "fpga (snd (pi_read pi ED_REG_USBCFG h)) =
      (if fst (pi_read pi ED_REG_USBCFG h) AND ED_USBSTAT_ACT = 0
       then (case fpga h of Asked n \<Rightarrow> Loaded n | p \<Rightarrow> p) else fpga h)"
    and "fpga (snd (pi_count pi h)) = fpga h"
  using assms unfolding input_law_def by blast+

lemma prompt_lawD:
  assumes "prompt_law pi now bu B"
  shows "bu h \<le> now h + B" "fst (pi_read pi ED_REG_USBCFG h) AND ED_USBSTAT_ACT \<noteq> 0 \<Longrightarrow> now h < bu h"
    "bu (snd (pi_read pi ED_REG_USBCFG h)) \<le> max (bu h) (now (snd (pi_read pi ED_REG_USBCFG h)))"
    "bu (snd (pi_count pi h)) \<le> max (bu h) (now (snd (pi_count pi h)))"
  using assms unfolding prompt_law_def by blast+

text \<open>A wait that did not time out ends with a status without the activity bit: what was asked for is there.\<close>

lemma everdrive_busy_loop_loads:
  assumes "everdrive_busy_loop pi timeout s = Some (False, s')" "input_law pi inp fpga" "fpga (us_hw s) = Asked n"
  shows "fpga (us_hw s') = Loaded n"
proof -
  have "\<not> fst r \<longrightarrow> input_law pi inp fpga \<longrightarrow> fpga (us_hw s) = Asked n \<longrightarrow> fpga (us_hw (snd r)) = Loaded n"
    if "everdrive_busy_loop pi timeout s = Some r" for r
  proof (rule everdrive_busy_loop.raw_induct [OF _ that, where P = "\<lambda>pi _ s r.
      \<not> fst r \<longrightarrow> input_law pi inp fpga \<longrightarrow> fpga (us_hw s) = Asked n \<longrightarrow> fpga (us_hw (snd r)) = Loaded n"], goal_cases)
    case (1 f pi timeout s r)
    obtain v h where v: "pi_read pi ED_REG_USBCFG (us_hw s) = (v, h)" by fastforce
    obtain t h' where t: "pi_count pi h = (t, h')" by fastforce
    have law: "fpga h' = (if v AND ED_USBSTAT_ACT = 0 then Loaded n else Asked n)"
      if "input_law pi inp fpga" "fpga (us_hw s) = Asked n"
    proof -
      have "fpga h = (if v AND ED_USBSTAT_ACT = 0 then Loaded n else Asked n)"
        using input_lawD(1) [OF that(1), of "us_hw s"] by (simp add: v that(2))
      moreover have "fpga h' = fpga h" using input_lawD(2) [OF that(1), of h] by (simp add: t)
      ultimately show ?thesis by simp
    qed
    with 1(2) show ?case
      by (auto simp: usb_io_read_def usb_io_write_def usb_timeout_check_def v t Let_def
          split: if_splits dest!: 1(1))
  qed
  from this [OF assms(1)] assms(2,3) show ?thesis by simp
qed

lemma usbbusy_loads:
  assumes "usb_everdrive_usbbusy pi s = Some (False, s')" "input_law pi inp fpga" "fpga (us_hw s) = Asked n"
  shows "fpga (us_hw s') = Loaded n"
proof -
  obtain t h where c: "pi_count pi (us_hw s) = (t, h)" by fastforce
  have "fpga h = Asked n" using input_lawD(2) [OF assms(2), of "us_hw s"] assms(3) by (simp add: c)
  then show ?thesis using everdrive_busy_loop_loads [of pi t "s\<lparr>us_hw := h\<rparr>" s' inp fpga n] assms
    by (simp add: usb_everdrive_usbbusy_def usb_timeout_start_def c)
qed

text \<open>No wait for an EverDrive that answers in time runs into the limit.\<close>

lemma everdrive_busy_loop_in_time:
  assumes "everdrive_busy_loop pi (of_nat t0) s = Some (late, s')" "clock_law pi now D" "prompt_law pi now bu B"
    and "B + 3 * D < pi_cycles pi 100000" "pi_cycles pi 100000 + 3 * D < 2 ^ 32"
    and "bu (us_hw s) \<le> max (t0 + B) (now (us_hw s))" "t0 \<le> now (us_hw s)" "now (us_hw s) \<le> t0 + B + 2 * D"
  shows "\<not> late"
proof -
  have "q = pi \<longrightarrow> t = of_nat t0 \<longrightarrow> bu (us_hw s) \<le> max (t0 + B) (now (us_hw s)) \<longrightarrow> t0 \<le> now (us_hw s) \<longrightarrow>
      now (us_hw s) \<le> t0 + B + 2 * D \<longrightarrow> \<not> fst r"
    if "everdrive_busy_loop q t s = Some r" for q t s r
  proof (rule everdrive_busy_loop.raw_induct [OF _ that, where P = "\<lambda>q t s r.
      q = pi \<longrightarrow> t = of_nat t0 \<longrightarrow> bu (us_hw s) \<le> max (t0 + B) (now (us_hw s)) \<longrightarrow> t0 \<le> now (us_hw s) \<longrightarrow>
      now (us_hw s) \<le> t0 + B + 2 * D \<longrightarrow> \<not> fst r"], goal_cases)
    case (1 f q t s r)
    show ?case
    proof (intro impI)
      assume p: "q = pi" "t = of_nat t0" "bu (us_hw s) \<le> max (t0 + B) (now (us_hw s))" "t0 \<le> now (us_hw s)"
        "now (us_hw s) \<le> t0 + B + 2 * D"
      obtain v h where v: "pi_read pi ED_REG_USBCFG (us_hw s) = (v, h)" by fastforce
      have h: "bu h \<le> max (bu (us_hw s)) (now h)" "v AND ED_USBSTAT_ACT \<noteq> 0 \<Longrightarrow> now (us_hw s) < bu (us_hw s)"
        using prompt_lawD(2,3) [OF assms(3), of "us_hw s"] by (simp_all add: v)
      have n: "now (us_hw s) \<le> now (snd (pi_read pi ED_REG_USBCFG (us_hw s)))"
        "now (snd (pi_read pi ED_REG_USBCFG (us_hw s))) \<le> now (us_hw s) + D"
        using assms(2) unfolding clock_law_def by blast+
      then have h': "now (us_hw s) \<le> now h" "now h \<le> now (us_hw s) + D" by (simp_all add: v)
      obtain l s2 where k: "usb_timeout_check pi (of_nat t0) 100 (s\<lparr>us_hw := h\<rparr>) = (l, s2)" by fastforce
      have b: "t0 \<le> now (us_hw (s\<lparr>us_hw := h\<rparr>))" "now (us_hw (s\<lparr>us_hw := h\<rparr>)) < t0 + 2 ^ 32"
        using h' p assms(4,5) by simp_all
      note kd = timeout_checkD [OF assms(2) k b]
      have nl: "\<not> l" using kd(1) h' p assms(4) by simp
      have s2: "us_hw s2 = snd (pi_count pi h)"
        using k by (auto simp: usb_timeout_check_def Let_def split: prod.splits)
      show "\<not> fst r"
      proof (cases "v AND ED_USBSTAT_ACT = 0")
        case True
        then show ?thesis using 1(2) nl k by (auto simp: p(1,2) usb_io_read_def v)
      next
        case False
        then have n: "now (us_hw s) < t0 + B" using h(2) p(3) by simp
        have "bu (us_hw s2) \<le> max (bu h) (now (us_hw s2))" using prompt_lawD(4) [OF assms(3)] by (simp add: s2)
        moreover have "now h \<le> now (us_hw s2)" using kd(2) by simp
        ultimately have "bu (us_hw s2) \<le> max (t0 + B) (now (us_hw s2))" using h(1) p(3) n by simp
        moreover have "f pi (of_nat t0) s2 = Some r"
          using 1(2) nl k False by (simp add: p(1,2) usb_io_read_def v)
        moreover have "t0 \<le> now (us_hw s2)" "now (us_hw s2) \<le> t0 + B + 2 * D"
          using kd(2,3) h' n p(4) by simp_all
        ultimately show ?thesis using 1(1) by blast
      qed
    qed
  qed
  from this [OF assms(1)] assms(6-) show ?thesis by simp
qed

lemma usbbusy_in_time:
  assumes "usb_everdrive_usbbusy pi s = Some (late, s')" "clock_law pi now D" "pi_cycles pi 100000 + 3 * D < 2 ^ 32"
    and "answers_in_time pi now D"
  shows "\<not> late"
proof -
  obtain bu B where p: "prompt_law pi now bu B" "B + 3 * D < pi_cycles pi 100000"
    using assms(4) unfolding answers_in_time_def by blast
  obtain s1 where t: "usb_timeout_start pi s = (of_nat (now (us_hw s)), s1)" "s1 = s\<lparr>us_hw := snd (pi_count pi (us_hw s))\<rparr>"
    and n: "now (us_hw s) \<le> now (us_hw s1)" "now (us_hw s1) \<le> now (us_hw s) + D"
    by (rule timeout_startE [OF assms(2)])
  have "bu (us_hw s1) \<le> max (bu (us_hw s)) (now (us_hw s1))" "bu (us_hw s) \<le> now (us_hw s) + B"
    using prompt_lawD(1,4) [OF p(1), of "us_hw s"] by (simp_all add: t(2))
  then have "bu (us_hw s1) \<le> max (now (us_hw s) + B) (now (us_hw s1))" by linarith
  then show ?thesis
    using everdrive_busy_loop_in_time [OF _ assms(2) p assms(3) _ n(1)] n(2) assms(1)
    by (simp add: usb_everdrive_usbbusy_def t(1))
qed

lemma usb_io_read_hw: "usb_io_read pi a s = (v, s') \<Longrightarrow> s' = s\<lparr>us_hw := us_hw s'\<rparr>"
  by (auto simp: usb_io_read_def split: prod.splits)

lemma usb_64drive_wait_ends:
  assumes "clock_law pi now D" "pi_cycles pi 100000 + 2 * D < 2 ^ 32"
  shows "\<exists>late s'. usb_64drive_wait pi s = Some (late, s') \<and> us_didtimeout s' = late \<and>
      (\<not> late \<longrightarrow> (\<exists>s0 v. usb_io_read pi (D64_REG_STATUS s0) s0 = (v, s0\<lparr>us_hw := us_hw s'\<rparr>) \<and>
        s' = s0\<lparr>us_hw := us_hw s', us_didtimeout := False\<rparr> \<and> v AND D64_CI_BUSY = 0))"
proof -
  obtain s1 where t: "usb_timeout_start pi s = (of_nat (now (us_hw s)), s1)" and
    n: "now (us_hw s) \<le> now (us_hw s1)" "now (us_hw s1) \<le> now (us_hw s) + D"
    by (rule timeout_startE [OF assms(1)])
  define reads where "reads = (\<lambda>s'. Some (usb_io_read pi (D64_REG_STATUS s') s'))"
  have "\<exists>r. wait_while pi (of_nat (now (us_hw s))) 100 reads (\<lambda>v. v AND D64_CI_BUSY \<noteq> 0) s1 = Some r"
  proof (rule wait_while_ends [OF assms(1), where duration = 100])
    show "pi_cycles pi (100 * 1000) + 2 * D < 2 ^ 32" using assms(2) by simp
    show "\<exists>v s'. reads s = Some (v, s') \<and> now (us_hw s) \<le> now (us_hw s') \<and> now (us_hw s') \<le> now (us_hw s) + D" for s
      using assms(1) by (auto simp: reads_def usb_io_read_def clock_law_def split: prod.splits) (metis snd_conv)+
  qed (use n in auto)
  then obtain late s' where w: "wait_while pi (of_nat (now (us_hw s))) 100 reads
      (\<lambda>v. v AND D64_CI_BUSY \<noteq> 0) s1 = Some (late, s')" by auto
  have r: "usb_64drive_wait pi s = Some (late, s'\<lparr>us_didtimeout := late\<rparr>)"
    using w by (simp add: usb_64drive_wait_def t reads_def)
  show ?thesis
  proof (cases late)
    case False
    with w have w': "wait_while pi (of_nat (now (us_hw s))) 100 reads
      (\<lambda>v. v AND D64_CI_BUSY \<noteq> 0) s1 = Some (False, s')" by simp
    from wait_while_False [OF w'] obtain s0 v where
      r0: "usb_io_read pi (D64_REG_STATUS s0) s0 = (v, s')" and v: "v AND D64_CI_BUSY = 0" by (auto simp: reads_def)
    have eq: "s' = s0\<lparr>us_hw := us_hw s'\<rparr>" by (rule usb_io_read_hw [OF r0])
    have "s'\<lparr>us_didtimeout := False\<rparr> = s0\<lparr>us_hw := us_hw s', us_didtimeout := False\<rparr>" by (subst eq) simp
    moreover have "usb_io_read pi (D64_REG_STATUS s0) s0 = (v, s0\<lparr>us_hw := us_hw s'\<rparr>)" using r0 eq by metis
    ultimately show ?thesis using r v False by (intro exI [of _ False] exI [of _ "s'\<lparr>us_didtimeout := False\<rparr>"]) auto
  next
    case True
    then show ?thesis using r by (intro exI [of _ True]) simp
  qed
qed

text \<open>
  The two waits that have a time limit come to an end if the clock advances by at most \<open>D\<close> ticks
  between two of its readings: either the cartridge reported that it is ready or the timeout flag is
  set.
\<close>

theorem timed_waits_end:
  assumes "clock_law pi now D" "pi_cycles pi 100000 + 3 * D < 2 ^ 32"
  shows "(\<exists>late s'. usb_64drive_wait pi s = Some (late, s') \<and> us_didtimeout s' = late \<and>
      (\<not> late \<longrightarrow> (\<exists>s0 v. usb_io_read pi (D64_REG_STATUS s0) s0 = (v, s0\<lparr>us_hw := us_hw s'\<rparr>) \<and>
        s' = s0\<lparr>us_hw := us_hw s', us_didtimeout := False\<rparr> \<and> v AND D64_CI_BUSY = 0))) \<and>
    (\<exists>late s'. usb_everdrive_usbbusy pi s = Some (late, s') \<and>
      s' = s\<lparr>us_hw := us_hw s', us_didtimeout := us_didtimeout s \<or> late\<rparr>)"
proof (rule conjI)
  show "\<exists>late s'. usb_64drive_wait pi s = Some (late, s') \<and> us_didtimeout s' = late \<and>
      (\<not> late \<longrightarrow> (\<exists>s0 v. usb_io_read pi (D64_REG_STATUS s0) s0 = (v, s0\<lparr>us_hw := us_hw s'\<rparr>) \<and>
        s' = s0\<lparr>us_hw := us_hw s', us_didtimeout := False\<rparr> \<and> v AND D64_CI_BUSY = 0))"
    using assms by (intro usb_64drive_wait_ends) auto
  show "\<exists>late s'. usb_everdrive_usbbusy pi s = Some (late, s') \<and>
      s' = s\<lparr>us_hw := us_hw s', us_didtimeout := us_didtimeout s \<or> late\<rparr>"
    by (rule usbbusy_ends [OF assms, of s]) (blast dest: usbbusy_shape)
qed

section \<open>The EverDrive's messages\<close>

lemma length_copy_in [simp]: "off + length bs \<le> length buff \<Longrightarrow> length (copy_in off bs buff) = length buff"
  by (simp add: copy_in_def)

lemma take_copy_in: "off + length bs \<le> length buff \<Longrightarrow>
  take (off + length bs) (copy_in off bs buff) = take off buff @ bs"
  by (simp add: copy_in_def)

lemma take_copy_in_more:
  assumes "off + length bs \<le> n" "n \<le> length buff"
  shows "\<exists>pad. take n (copy_in off bs buff) = take off buff @ bs @ pad \<and> length pad = n - (off + length bs)"
  using assms by (intro exI [of _ "take (n - (off + length bs)) (drop (off + length bs) buff)"])
    (simp add: copy_in_def)

lemma ALIGN_2: "ALIGN n 2 = n + n mod 2"
  by (cases "even n") (auto simp: ALIGN_def elim!: evenE oddE)

lemma everdrive_send_ends:
  assumes clock: "clock_law pi now D" "pi_cycles pi 100000 + 3 * D < 2 ^ 32"
    and wire: "wire_law pi sent" and n: "0 < n" "n \<le> BUFFER_SIZE" "BUFFER_SIZE \<le> length (us_buffer s)"
  obtains late s' where "everdrive_send pi n s = Some (late, s')"
    "s' = s\<lparr>us_hw := us_hw s', us_didtimeout := us_didtimeout s \<or> late\<rparr>"
    "\<not> late \<Longrightarrow> sent (us_hw s') = sent (us_hw s) @ take n (us_buffer s)"
proof -
  define baddr :: u32 where "baddr = of_nat (BUFFER_SIZE - n)"
  define s1 where "s1 = usb_io_write pi ED_REG_USBCFG (0xC200 OR baddr)
    (usb_dma_write pi (take n (us_buffer s)) (ED_REG_USBDAT + baddr) (usb_io_write pi ED_REG_USBCFG 0xC000 s))"
  obtain late s' where b: "usb_everdrive_usbbusy pi s1 = Some (late, s')" by (rule usbbusy_ends [OF clock, of s1])
  have l: "length (take n (us_buffer s)) = n" using n by simp
  have "sent (us_hw s1) = sent (us_hw s) @ take n (us_buffer s)"
    using wire [unfolded wire_law_def, THEN conjunct1, rule_format, of "take n (us_buffer s)" "us_hw s"] n
    unfolding s1_def usb_io_write_def usb_dma_write_def l Let_def baddr_def by simp
  moreover have "view_stable pi sent" using wire by (simp add: wire_law_def view_stable_def)
  ultimately have "\<not> late \<Longrightarrow> sent (us_hw s') = sent (us_hw s) @ take n (us_buffer s)"
    using usbbusy_view [OF b, of sent] by simp
  then show thesis using b usbbusy_shape [OF b]
    by (intro that [of late s']) (simp_all add: everdrive_send_def s1_def baddr_def Let_def usb_io_write_def usb_dma_write_def)
qed

text \<open>The result of a send: everything went out, followed by \<open>k\<close> bytes of padding, or a timeout.\<close>

definition sends_or_times_out ::
    "('h \<Rightarrow> byte list) \<Rightarrow> byte list \<Rightarrow> byte list \<Rightarrow> nat \<Rightarrow> (int \<times> 'h usbc) option \<Rightarrow> bool" where
  "sends_or_times_out sent before out k res = (\<exists>r s'. res = Some (r, s') \<and>
     (r = 1 \<and> \<not> us_didtimeout s' \<and> (\<exists>pad. sent (us_hw s') = before @ out @ pad \<and> length pad = k) \<or>
      r = -1 \<and> us_didtimeout s'))"

lemma sends_prepend:
  "sends_or_times_out sent (before @ x) out k res \<Longrightarrow> sends_or_times_out sent before (x @ out) k res"
  by (auto simp: sends_or_times_out_def)

lemma write_loop_send:
  assumes "0 < left" "block = (if BUFFER_SIZE < left + off then BUFFER_SIZE - off else left)"
    "wrotecmp \<or> n + block < sz"
  shows "everdrive_write_loop pi sz wrotecmp src n left off s =
    Option.bind (everdrive_send pi (ALIGN (block + off) 2)
        (s\<lparr>us_buffer := copy_in off (take block (drop n src)) (us_buffer s)\<rparr>)) (\<lambda>(late, s).
      if late then Some (-1, s\<lparr>us_didtimeout := True\<rparr>)
      else everdrive_write_loop pi sz wrotecmp src (n + block) (left - block) 0 s)"
proof -
  have "left \<noteq> 0" "(\<not> wrotecmp \<and> sz \<le> n + block) = False" using assms(1,3) by auto
  then show ?thesis
    by (subst everdrive_write_loop.simps) (simp only: Let_def assms(2) [symmetric] if_False)
qed

lemma write_loop_end:
  assumes "0 < left" "left + off \<le> BUFFER_SIZE" "sz \<le> n + left"
  shows "everdrive_write_loop pi sz False src n left off s =
    everdrive_write_loop pi sz True (str_bytes ''CMPH'') 0 4 (left + off)
      (s\<lparr>us_buffer := copy_in off (take left (drop n src)) (us_buffer s)\<rparr>)"
proof -
  have "left \<noteq> 0" "\<not> BUFFER_SIZE < left + off" "(\<not> False \<and> sz \<le> n + left) = True" using assms by auto
  then show ?thesis
    by (subst everdrive_write_loop.simps) (simp only: Let_def if_False if_True)
qed

lemma write_step:
  assumes clock: "clock_law pi now D" "pi_cycles pi 100000 + 3 * D < 2 ^ 32" and wire: "wire_law pi sent"
    and b: "block = (if BUFFER_SIZE < left + off then BUFFER_SIZE - off else left)" "0 < left"
    and o: "off \<le> BUFFER_SIZE" "length (us_buffer s) = BUFFER_SIZE" "left + n = length src"
    and not_end: "wrotecmp \<or> n + block < sz"
    and tail: "\<And>s'. length (us_buffer s') = BUFFER_SIZE \<Longrightarrow> block < left \<Longrightarrow>
      sends_or_times_out sent (sent (us_hw s')) (drop (n + block) src @ post) k
        (everdrive_write_loop pi sz wrotecmp src (n + block) (left - block) 0 s')"
    and last: "block = left \<Longrightarrow> post = [] \<and> k = (off + left) mod 2"
  shows "sends_or_times_out sent (sent (us_hw s)) (take off (us_buffer s) @ drop n src @ post) k
    (everdrive_write_loop pi sz wrotecmp src n left off s)"
proof -
  have bl: "block \<le> left" "off + block \<le> BUFFER_SIZE" "0 < off + block" using b o by (auto split: if_splits)
  have len: "length (take block (drop n src)) = block" using bl(1) o(3) by simp
  define s1 where "s1 = s\<lparr>us_buffer := copy_in off (take block (drop n src)) (us_buffer s)\<rparr>"
  have l1: "length (us_buffer s1) = BUFFER_SIZE" using len o bl by (simp add: s1_def)
  have al: "ALIGN (block + off) 2 \<le> BUFFER_SIZE" using bl(2) by (simp add: ALIGN_2) presburger
  obtain pad where pad: "take (ALIGN (block + off) 2) (us_buffer s1) =
      take off (us_buffer s) @ take block (drop n src) @ pad" "length pad = (off + block) mod 2"
    using take_copy_in_more [of off "take block (drop n src)" "ALIGN (block + off) 2" "us_buffer s"] len al o(2)
    by (auto simp: s1_def ALIGN_2 add.commute)
  have pos: "0 < ALIGN (block + off) 2" using bl(3) by (auto simp: ALIGN_2)
  obtain late s' where e: "everdrive_send pi (ALIGN (block + off) 2) s1 = Some (late, s')"
    "s' = s1\<lparr>us_hw := us_hw s', us_didtimeout := us_didtimeout s1 \<or> late\<rparr>"
    "\<not> late \<Longrightarrow> sent (us_hw s') = sent (us_hw s1) @ take (ALIGN (block + off) 2) (us_buffer s1)"
    by (rule everdrive_send_ends [OF clock wire pos al, of s1]) (use l1 in auto)
  have u: "everdrive_write_loop pi sz wrotecmp src n left off s =
      (if late then Some (-1, s'\<lparr>us_didtimeout := True\<rparr>)
       else everdrive_write_loop pi sz wrotecmp src (n + block) (left - block) 0 s')"
    using e(1) by (subst write_loop_send [OF b(2,1) not_end]) (simp add: s1_def)
  have lb: "length (us_buffer s') = BUFFER_SIZE" by (subst e(2)) (simp add: l1)
  show ?thesis
  proof (cases "late \<or> block = left")
    case True
    then show ?thesis
    proof (cases late)
      case False
      with True last have "block = left" "post = []" "k = (off + left) mod 2" by auto
      then show ?thesis using u False e(3) pad o(3)
        by (auto simp: sends_or_times_out_def everdrive_write_loop.simps s1_def)
    qed (simp add: u sends_or_times_out_def)
  next
    case False
    then have "block < left" using bl by simp
    then have "off + block = BUFFER_SIZE" using b(1) o(1) by (auto split: if_splits)
    then have "pad = []" using pad(2) by simp
    then have out: "sent (us_hw s') = sent (us_hw s) @ take off (us_buffer s) @ take block (drop n src)"
      using False e(3) pad(1) by (simp add: s1_def)
    have "sends_or_times_out sent (sent (us_hw s))
        ((take off (us_buffer s) @ take block (drop n src)) @ drop (n + block) src @ post) k
        (everdrive_write_loop pi sz wrotecmp src (n + block) (left - block) 0 s')"
      using tail [OF lb \<open>block < left\<close>] unfolding out by (rule sends_prepend)
    moreover have "take block (drop n src) @ drop (n + block) src = drop n src"
      by (metis append_take_drop_id drop_drop add.commute)
    then have "take block (drop n src) @ drop (n + block) src @ post = drop n src @ post"
      by (simp only: append_assoc [symmetric])
    ultimately show ?thesis using u False by simp
  qed
qed

lemma parity_rest:
  assumes "block + off = BUFFER_SIZE" "block < left"
  shows "(left - block) mod 2 = (off + left) mod 2"
proof -
  obtain d where "left = block + d" using assms(2) less_imp_add_positive by blast
  with assms(1) have "off + left = BUFFER_SIZE + d" "left - block = d" by auto
  then show ?thesis by (simp only:) presburger
qed

lemma write_end:
  assumes clock: "clock_law pi now D" "pi_cycles pi 100000 + 3 * D < 2 ^ 32" and wire: "wire_law pi sent"
  shows "0 < left \<Longrightarrow> off \<le> BUFFER_SIZE \<Longrightarrow> length (us_buffer s) = BUFFER_SIZE \<Longrightarrow> left + n = length src \<Longrightarrow>
    sends_or_times_out sent (sent (us_hw s)) (take off (us_buffer s) @ drop n src) ((off + left) mod 2)
      (everdrive_write_loop pi sz True src n left off s)"
proof (induction "left + off" arbitrary: left off n s rule: less_induct)
  case less
  define block where "block = (if BUFFER_SIZE < left + off then BUFFER_SIZE - off else left)"
  have "sends_or_times_out sent (sent (us_hw s)) (take off (us_buffer s) @ drop n src @ []) ((off + left) mod 2)
      (everdrive_write_loop pi sz True src n left off s)"
  proof (rule write_step [OF clock wire block_def less.prems(1-4)])
    fix s' :: "'a usbc" assume s': "length (us_buffer s') = BUFFER_SIZE" "block < left"
    have b: "block + off = BUFFER_SIZE" using s'(2) less.prems(2) by (auto simp: block_def split: if_splits)
    have "sends_or_times_out sent (sent (us_hw s')) (take 0 (us_buffer s') @ drop (n + block) src)
        ((0 + (left - block)) mod 2) (everdrive_write_loop pi sz True src (n + block) (left - block) 0 s')"
      using s' b less.prems by (intro less.hyps) auto
    moreover have "(0 + (left - block)) mod 2 = (off + left) mod 2" using parity_rest [OF b s'(2)] by simp
    ultimately show "sends_or_times_out sent (sent (us_hw s')) (drop (n + block) src @ []) ((off + left) mod 2)
        (everdrive_write_loop pi sz True src (n + block) (left - block) 0 s')" by simp
  qed auto
  then show ?case by simp
qed

lemma write_data:
  assumes clock: "clock_law pi now D" "pi_cycles pi 100000 + 3 * D < 2 ^ 32" and wire: "wire_law pi sent"
  shows "0 < left \<Longrightarrow> off < BUFFER_SIZE \<Longrightarrow> length (us_buffer s) = BUFFER_SIZE \<Longrightarrow> left + n = length src \<Longrightarrow>
    sends_or_times_out sent (sent (us_hw s)) (take off (us_buffer s) @ drop n src @ str_bytes ''CMPH'') ((off + left) mod 2)
      (everdrive_write_loop pi (length src) False src n left off s)"
proof (induction left arbitrary: off n s rule: less_induct)
  case (less left)
  define block where "block = (if BUFFER_SIZE < left + off then BUFFER_SIZE - off else left)"
  show ?case
  proof (cases "block = left")
    case False
    then have b: "block + off = BUFFER_SIZE" "block < left" "0 < block" using less.prems
      by (auto simp: block_def split: if_splits)
    show ?thesis
    proof (rule write_step [OF clock wire block_def less.prems(1) _ less.prems(3,4)])
      fix s' :: "'a usbc" assume s': "length (us_buffer s') = BUFFER_SIZE" "block < left"
      have "sends_or_times_out sent (sent (us_hw s')) (take 0 (us_buffer s') @ drop (n + block) src @ str_bytes ''CMPH'')
          ((0 + (left - block)) mod 2) (everdrive_write_loop pi (length src) False src (n + block) (left - block) 0 s')"
        using s' b less.prems by (intro less.IH) auto
      moreover have "(0 + (left - block)) mod 2 = (off + left) mod 2" using parity_rest [OF b(1,2)] by simp
      ultimately show "sends_or_times_out sent (sent (us_hw s')) (drop (n + block) src @ str_bytes ''CMPH'') ((off + left) mod 2)
          (everdrive_write_loop pi (length src) False src (n + block) (left - block) 0 s')" by simp
    qed (use less.prems b False in auto)
  next
    case True
    define s1 where "s1 = s\<lparr>us_buffer := copy_in off (take left (drop n src)) (us_buffer s)\<rparr>"
    have lo: "left + off \<le> BUFFER_SIZE" using True less.prems by (auto simp: block_def split: if_splits)
    have len: "length (take left (drop n src)) = left" "take left (drop n src) = drop n src" using less.prems by auto
    then have len': "length (drop n src) = left" by simp
    have "everdrive_write_loop pi (length src) False src n left off s =
        everdrive_write_loop pi (length src) True (str_bytes ''CMPH'') 0 4 (left + off) s1"
      unfolding s1_def using less.prems lo by (intro write_loop_end) auto
    moreover have "take (left + off) (us_buffer s1) = take off (us_buffer s) @ drop n src"
      using take_copy_in [of off "drop n src" "us_buffer s", unfolded len'] lo less.prems(3) len(2)
      by (simp add: s1_def add.commute)
    moreover have "sends_or_times_out sent (sent (us_hw s1)) (take (left + off) (us_buffer s1) @ drop 0 (str_bytes ''CMPH''))
        ((left + off + 4) mod 2) (everdrive_write_loop pi (length src) True (str_bytes ''CMPH'') 0 4 (left + off) s1)"
      using lo len less.prems by (intro write_end [OF clock wire]) (auto simp: s1_def)
    moreover have "(left + off + 4) mod 2 = (off + left) mod 2" by presburger
    ultimately show ?thesis by (simp add: s1_def)
  qed
qed

text \<open>What a message looks like on the wire.\<close>

definition everdrive_frame :: "int \<Rightarrow> byte list \<Rightarrow> byte list" where
  "everdrive_frame datatype data = str_bytes ''DMA@'' @ [of_int datatype] @
     [of_nat (length data div 0x10000), of_nat (length data div 0x100), of_nat (length data)] @
     data @ str_bytes ''CMPH''"

lemma everdrive_header_bytes:
  fixes n :: nat and ty :: int
  defines "header \<equiv> (of_nat n AND 0x00FFFFFF) OR push_bit 24 (of_int ty) :: u32"
  shows "(ucast (drop_bit 24 header) :: byte) = of_int ty"
    "(ucast (drop_bit 16 header) :: byte) = of_nat (n div 0x10000)"
    "(ucast (drop_bit 8 header) :: byte) = of_nat (n div 0x100)"
    "(ucast header :: byte) = of_nat n"
proof -
  have d: "n div 0x10000 = drop_bit 16 n" "n div 0x100 = drop_bit 8 n" by (simp_all add: drop_bit_eq_div)
  have m: "(0x00FFFFFF :: u32) = mask 24" by (simp add: mask_eq_exp_minus_1)
  show "(ucast (drop_bit 24 header) :: byte) = of_int ty"
    "(ucast (drop_bit 16 header) :: byte) = of_nat (n div 0x10000)"
    "(ucast (drop_bit 8 header) :: byte) = of_nat (n div 0x100)"
    "(ucast header :: byte) = of_nat n"
    unfolding header_def d m by (rule bit_word_eqI, simp add: bit_simps)+
qed

text \<open>C23: 
  On the EverDrive a message of at least one byte leaves the console as one frame, that is the
  header with its type and length, the data in blocks and the trailer, with a byte of padding if
  its length is odd, and the function returns 1; otherwise it timed out and returns -1.
\<close>

theorem usb_everdrive_write_frames:
  assumes "clock_law pi now D" "pi_cycles pi 100000 + 3 * D < 2 ^ 32" "wire_law pi sent"
    and "length (us_buffer s) = BUFFER_SIZE" "data \<noteq> []"
  shows "\<exists>r s'. usb_everdrive_write pi datatype data s = Some (r, s') \<and>
    (r = 1 \<and> \<not> us_didtimeout s' \<and> (\<exists>pad. length pad = length data mod 2 \<and>
       sent (us_hw s') = sent (us_hw s) @ everdrive_frame datatype data @ pad) \<or>
     r = -1 \<and> us_didtimeout s')"
proof -
  define h where "h = str_bytes ''DMA@'' @ [of_int datatype, of_nat (length data div 0x10000),
    of_nat (length data div 0x100), of_nat (length data)]"
  define s1 where "s1 = s\<lparr>us_buffer := copy_in 0 h (us_buffer s)\<rparr>"
  have h: "length h = 8" by (simp add: h_def)
  have "take 8 (us_buffer s1) = h"
    using take_copy_in [of 0 h "us_buffer s", unfolded h] assms(4) by (simp add: s1_def)
  moreover have "sends_or_times_out sent (sent (us_hw s1))
      (take 8 (us_buffer s1) @ drop 0 data @ str_bytes ''CMPH'') ((8 + length data) mod 2)
      (everdrive_write_loop pi (length data) False data 0 (length data) 8 s1)"
    using assms(4,5) h by (intro write_data [OF assms(1-3)]) (auto simp: s1_def)
  moreover have "(8 + length data) mod 2 = length data mod 2" by presburger
  moreover have "everdrive_frame datatype data = h @ data @ str_bytes ''CMPH''"
    by (simp add: everdrive_frame_def h_def)
  moreover have "usb_everdrive_write pi datatype data s =
      everdrive_write_loop pi (length data) False data 0 (length data) 8 s1"
    by (simp only: usb_everdrive_write_def Let_def everdrive_header_bytes h_def s1_def)
  ultimately show ?thesis by (auto simp: sends_or_times_out_def s1_def)
qed

section \<open>The cartridge's memory\<close>

lemma overwrite_append:
  assumes "length xs + length ys \<le> 2 ^ 32"
  shows "overwrite (a + of_nat (length xs)) ys (overwrite a xs m) = overwrite a (xs @ ys) m"
proof
  fix x
  let ?l = "of_nat (length xs) :: u32"
  show "overwrite (a + ?l) ys (overwrite a xs m) x = overwrite a (xs @ ys) m x"
  proof (cases "ys = []")
    case False
    then have lx: "length xs < 2 ^ 32" using assms by (cases ys) auto
    then have l: "unat ?l = length xs" by (simp add: unat_of_nat take_bit_nat_eq_self)
    have s: "x - (a + ?l) = (x - a) - ?l" by simp
    show ?thesis
    proof (cases "unat (x - a) < length xs")
      case True
      then have "unat (x - (a + ?l)) = unat (x - a) + 2 ^ 32 - length xs"
        unfolding s by (simp only: unat_sub_if' l) simp
      then have "\<not> unat (x - (a + ?l)) < length ys" using assms by linarith
      then show ?thesis using True by (simp add: overwrite_def nth_append)
    next
      case f: False
      then have "unat (x - (a + ?l)) = unat (x - a) - length xs"
        unfolding s by (simp only: unat_sub_if' l) simp
      then show ?thesis using f by (auto simp: overwrite_def nth_append)
    qed
  qed (simp add: overwrite_def)
qed

lemma overwrite_nil [simp]: "overwrite a [] m = m"
  by (simp add: overwrite_def)

lemma mem_bytes_overwrite:
  assumes "length bs \<le> 2 ^ 32" "n \<le> length bs" "mem h = overwrite a bs m"
  shows "mem_bytes mem h a n = take n bs"
proof (rule nth_equalityI)
  fix i assume "i < length (mem_bytes mem h a n)"
  then have i: "i < n" by (simp add: mem_bytes_def)
  then have "unat (of_nat i :: u32) = i" using assms(1,2) by (simp add: unat_of_nat take_bit_nat_eq_self)
  then show "mem_bytes mem h a n ! i = take n bs ! i" using i assms by (simp add: mem_bytes_def overwrite_def)
qed (use assms in \<open>simp add: mem_bytes_def\<close>)

lemma mem_bytes_simps [simp]: "length (mem_bytes mem h a n) = n" "mem_bytes mem h a 0 = []"
  by (simp_all add: mem_bytes_def)

lemma mem_bytes_append: "mem_bytes mem h a (m + n) = mem_bytes mem h a m @ mem_bytes mem h (a + of_nat m) n"
  by (rule nth_equalityI) (auto simp: mem_bytes_def nth_append add.assoc of_nat_diff)

lemma mem_bytes_sub:
  assumes "k + n \<le> N"
  shows "take n (drop k (mem_bytes mem h a N)) = mem_bytes mem h (a + of_nat k) n"
  using assms by (intro nth_equalityI) (auto simp: mem_bytes_def add.assoc)

lemma in_rom_add:
  assumes "in_rom a n" "k \<le> n"
  shows "unat (a + of_nat k) = unat a + k" "in_rom (a + of_nat k) (n - k)" "m \<le> n \<Longrightarrow> in_rom a m"
proof -
  have k: "unat (of_nat k :: u32) = k" using assms by (simp add: in_rom_def unat_of_nat take_bit_nat_eq_self)
  show u: "unat (a + of_nat k) = unat a + k" using assms by (simp add: unat_plus_if' k in_rom_def)
  show "in_rom (a + of_nat k) (n - k)" "m \<le> n \<Longrightarrow> in_rom a m" using assms u by (auto simp: in_rom_def)
qed

lemma ALIGN_4: "ALIGN n 4 = n + (3 - (n + 3) mod 4)"
  by (simp add: ALIGN_def) presburger

lemma even_ALIGN_4: "ALIGN n 4 mod 2 = 0"
proof -
  have "even (ALIGN n 4)" by (simp add: ALIGN_def)
  then show ?thesis by (simp add: even_iff_mod_2_eq_zero)
qed

lemma length_pad4: "length (pad4 bs) = ALIGN (length bs) 4"
  by (simp add: pad4_def ALIGN_4)

lemma pad4_append: "length xs = BUFFER_SIZE \<Longrightarrow> pad4 (xs @ ys) = xs @ pad4 ys"
  by (simp add: pad4_def ALIGN_4) presburger

lemma hw_buffer_trans:
  "t = s\<lparr>us_hw := us_hw t, us_buffer := us_buffer t\<rparr> \<Longrightarrow> u = t\<lparr>us_hw := us_hw u, us_buffer := us_buffer u\<rparr> \<Longrightarrow>
    u = s\<lparr>us_hw := us_hw u, us_buffer := us_buffer u\<rparr>" for s t u :: "'h usbc"
  by (cases s; cases t; cases u) simp

text \<open>One round of the copying loops.\<close>

lemma copy_block:
  assumes "memory_law pi mem" "bs = pad (take BUFFER_SIZE data)" "data \<noteq> []"
    "length bs \<le> BUFFER_SIZE" "length (us_buffer s) = BUFFER_SIZE" "in_rom a (ALIGN (length bs) 2)"
  shows "\<exists>s' junk. copy_blocks pi pad a data s = copy_blocks pi pad (a + of_nat (length bs)) (drop BUFFER_SIZE data) s' \<and>
    s' = s\<lparr>us_hw := us_hw s', us_buffer := us_buffer s'\<rparr> \<and> length (us_buffer s') = BUFFER_SIZE \<and>
    mem (us_hw s') = overwrite a (bs @ junk) (mem (us_hw s)) \<and> length junk = length bs mod 2"
proof -
  define s1 where "s1 = s\<lparr>us_buffer := copy_in 0 bs (us_buffer s)\<rparr>"
  define s2 where "s2 = usb_dma_write pi (take (ALIGN (length bs) 2) (us_buffer s1)) a s1"
  have al: "ALIGN (length bs) 2 \<le> BUFFER_SIZE" using assms(4) by (simp add: ALIGN_2) presburger
  obtain junk where j: "take (ALIGN (length bs) 2) (us_buffer s1) = bs @ junk" "length junk = length bs mod 2"
    using take_copy_in_more [of 0 bs "ALIGN (length bs) 2" "us_buffer s"] al assms(5)
    by (auto simp: s1_def ALIGN_2)
  have "mem (us_hw s2) = overwrite a (bs @ junk) (mem (us_hw s))"
    using assms(1,6) j by (simp add: s2_def s1_def usb_dma_write_def memory_law_def ALIGN_2)
  moreover have "s2 = s\<lparr>us_hw := us_hw s2, us_buffer := us_buffer s2\<rparr>" "length (us_buffer s2) = BUFFER_SIZE"
    using assms(4,5) by (simp_all add: s2_def s1_def usb_dma_write_def)
  moreover have "copy_blocks pi pad a data s = copy_blocks pi pad (a + of_nat (length bs)) (drop BUFFER_SIZE data) s2"
    using assms(3) unfolding s2_def s1_def assms(2)
    by (subst copy_blocks.simps) (simp only: Let_def if_False)
  ultimately show ?thesis using j(2) by blast
qed

lemma copy_blocks_memory:
  assumes law: "memory_law pi mem" and small: "\<And>bs. length bs \<le> BUFFER_SIZE \<Longrightarrow> length (pad bs) \<le> BUFFER_SIZE"
    and pad: "\<And>xs ys. length xs = BUFFER_SIZE \<Longrightarrow> pad (xs @ ys) = xs @ pad ys" and nil: "pad [] = []"
  shows "length (us_buffer s) = BUFFER_SIZE \<Longrightarrow> in_rom a (ALIGN (length (pad data)) 2) \<Longrightarrow>
    \<exists>s' junk. copy_blocks pi pad a data s = s' \<and> s' = s\<lparr>us_hw := us_hw s', us_buffer := us_buffer s'\<rparr> \<and>
      length (us_buffer s') = BUFFER_SIZE \<and>
      mem (us_hw s') = overwrite a (pad data @ junk) (mem (us_hw s)) \<and> length junk = length (pad data) mod 2"
proof (induction "length data" arbitrary: data a s rule: less_induct)
  case less
  show ?case
  proof (cases "length data \<le> BUFFER_SIZE")
    case True
    then have t: "take BUFFER_SIZE data = data" "drop BUFFER_SIZE data = []" by auto
    show ?thesis
    proof (cases "data = []")
      case False
      from copy_block [OF law refl False _ less.prems(1), where pad = pad] less.prems(2) small [OF True]
      obtain s' junk where "copy_blocks pi pad a data s = copy_blocks pi pad (a + of_nat (length (pad data))) [] s'"
        "s' = s\<lparr>us_hw := us_hw s', us_buffer := us_buffer s'\<rparr>" "length (us_buffer s') = BUFFER_SIZE"
        "mem (us_hw s') = overwrite a (pad data @ junk) (mem (us_hw s))" "length junk = length (pad data) mod 2"
        unfolding t by blast
      moreover have "copy_blocks pi pad (a + of_nat (length (pad data))) [] s' = s'" by (simp add: copy_blocks.simps)
      ultimately show ?thesis by metis
    qed (use less.prems in \<open>simp add: copy_blocks.simps nil\<close>)
  next
    case False
    define d1 where "d1 = take BUFFER_SIZE data"
    define d2 where "d2 = drop BUFFER_SIZE data"
    have d: "data = d1 @ d2" "length d1 = BUFFER_SIZE" "data \<noteq> []" "length d2 < length data"
      using False by (auto simp: d1_def d2_def)
    have p: "pad d1 = d1" using pad [OF d(2), of "[]"] nil by simp
    have pd: "pad data = d1 @ pad d2" unfolding d(1) by (rule pad [OF d(2)])
    have al: "ALIGN (length (pad data)) 2 = BUFFER_SIZE + ALIGN (length (pad d2)) 2"
      by (simp add: pd d(2) ALIGN_2) presburger
    have rom: "in_rom a BUFFER_SIZE" "in_rom (a + of_nat BUFFER_SIZE) (ALIGN (length (pad d2)) 2)"
      using in_rom_add(2) [OF less.prems(2), of BUFFER_SIZE] in_rom_add(3) [OF less.prems(2), of 0 BUFFER_SIZE]
      by (simp_all add: al)
    from copy_block [OF law _ d(3) _ less.prems(1), of d1 pad a] rom(1) d(2) p
    obtain s1 where s1: "copy_blocks pi pad a data s = copy_blocks pi pad (a + of_nat BUFFER_SIZE) d2 s1"
      "s1 = s\<lparr>us_hw := us_hw s1, us_buffer := us_buffer s1\<rparr>" "length (us_buffer s1) = BUFFER_SIZE"
      "mem (us_hw s1) = overwrite a d1 (mem (us_hw s))"
      by (auto simp: d1_def [symmetric] d2_def ALIGN_2)
    from less.hyps [OF d(4) s1(3) rom(2)] obtain s' junk where s':
      "copy_blocks pi pad (a + of_nat BUFFER_SIZE) d2 s1 = s'" "s' = s1\<lparr>us_hw := us_hw s', us_buffer := us_buffer s'\<rparr>"
      "length (us_buffer s') = BUFFER_SIZE"
      "mem (us_hw s') = overwrite (a + of_nat BUFFER_SIZE) (pad d2 @ junk) (mem (us_hw s1))"
      "length junk = length (pad d2) mod 2" by auto
    have "length d1 + length (pad d2 @ junk) \<le> 2 ^ 32"
      using less.prems(2) d(2) s'(5) al by (simp add: in_rom_def ALIGN_2)
    then have "mem (us_hw s') = overwrite a (pad data @ junk) (mem (us_hw s))"
      using overwrite_append [of d1 "pad d2 @ junk" a] s'(4) s1(4) d(2) by (simp add: pd)
    moreover have "s' = s\<lparr>us_hw := us_hw s', us_buffer := us_buffer s'\<rparr>" by (rule hw_buffer_trans [OF s1(2) s'(2)])
    moreover have "length junk = length (pad data) mod 2" using s'(5) d(2) by (simp add: pd) presburger
    ultimately show ?thesis using s1(1) s'(1,3) by metis
  qed
qed

text \<open>C24: 
  The loops with which the other two drivers copy a message into the cartridge's memory leave it
  there completely, whatever the number of blocks: the 64Drive's pads it to four bytes, the
  SummerCart's may write one byte more.
\<close>

theorem drivers_place_the_message:
  assumes law: "memory_law pi mem" and s: "length (us_buffer s) = BUFFER_SIZE" "in_rom a (ALIGN (length data) 4)"
  shows "(let s' = d64_copy_loop pi a data s in
      mem (us_hw s') = overwrite a (pad4 data) (mem (us_hw s)) \<and> mem_bytes mem (us_hw s') a (length data) = data) \<and>
    (let s' = sc64_copy_loop pi a data s in
      (\<exists>junk. length junk = length data mod 2 \<and> mem (us_hw s') = overwrite a (data @ junk) (mem (us_hw s))) \<and>
      mem_bytes mem (us_hw s') a (length data) = data)"
proof (rule conjI)
  have l: "length data + 3 < 2 ^ 32" "length data \<le> ALIGN (length data) 4"
    using s(2) by (auto simp: in_rom_def ALIGN_4)
  have p: "ALIGN (length (pad4 data)) 2 = ALIGN (length data) 4" "length (pad4 data) mod 2 = 0"
    by (simp_all add: length_pad4 ALIGN_2 even_ALIGN_4)
  have "\<exists>s' junk. copy_blocks pi pad4 a data s = s' \<and> s' = s\<lparr>us_hw := us_hw s', us_buffer := us_buffer s'\<rparr> \<and>
      length (us_buffer s') = BUFFER_SIZE \<and>
      mem (us_hw s') = overwrite a (pad4 data @ junk) (mem (us_hw s)) \<and> length junk = length (pad4 data) mod 2"
  proof (rule copy_blocks_memory [OF law])
    show "length (pad4 bs) \<le> BUFFER_SIZE" if "length bs \<le> BUFFER_SIZE" for bs
      using that unfolding length_pad4 ALIGN_4 by presburger
  qed (use s p pad4_append in \<open>auto simp: pad4_def ALIGN_4\<close>)
  then have m: "mem (us_hw (d64_copy_loop pi a data s)) = overwrite a (pad4 data) (mem (us_hw s))"
    using p by (auto simp: d64_copy_loop_def)
  moreover have "take (length data) (pad4 data) = data" by (simp add: pad4_def)
  ultimately show "let s' = d64_copy_loop pi a data s in
      mem (us_hw s') = overwrite a (pad4 data) (mem (us_hw s)) \<and> mem_bytes mem (us_hw s') a (length data) = data"
    using mem_bytes_overwrite [of "pad4 data" "length data" mem _ a, OF _ _ m] l by (simp add: length_pad4 ALIGN_4)
next
  have l: "length data + 3 < 2 ^ 32" using s(2) by (auto simp: in_rom_def ALIGN_4)
  have "ALIGN (length data) 2 \<le> ALIGN (length data) 4" unfolding ALIGN_2 ALIGN_4 by presburger
  then have "in_rom a (ALIGN (length data) 2)" using in_rom_add(3) [OF s(2), of 0] by simp
  then have "\<exists>s' junk. copy_blocks pi (\<lambda>bs. bs) a data s = s' \<and> s' = s\<lparr>us_hw := us_hw s', us_buffer := us_buffer s'\<rparr> \<and>
      length (us_buffer s') = BUFFER_SIZE \<and>
      mem (us_hw s') = overwrite a (data @ junk) (mem (us_hw s)) \<and> length junk = length data mod 2"
    using s(1) by (intro copy_blocks_memory [OF law]) auto
  then obtain junk where j: "length junk = length data mod 2"
    "mem (us_hw (sc64_copy_loop pi a data s)) = overwrite a (data @ junk) (mem (us_hw s))"
    by (auto simp: sc64_copy_loop_def)
  moreover have "mem_bytes mem (us_hw (sc64_copy_loop pi a data s)) a (length data) = data"
    using mem_bytes_overwrite [of "data @ junk" "length data" mem _ a, OF _ _ j(2)] l j(1) by simp
  ultimately show "let s' = sc64_copy_loop pi a data s in
      (\<exists>junk. length junk = length data mod 2 \<and> mem (us_hw s') = overwrite a (data @ junk) (mem (us_hw s))) \<and>
      mem_bytes mem (us_hw s') a (length data) = data" by (auto simp: Let_def)
qed

section \<open>Messages from the EverDrive\<close>

text \<open>
  The state after a part of the poll: nothing but the hardware, the buffer and the timeout flag has
  changed, the flag has not been lowered, and unless it is up \<open>n\<close> bytes of input were taken, if there were as many.
\<close>

definition took ::
    "('h \<Rightarrow> byte list) \<Rightarrow> nat \<Rightarrow> 'h usbc \<Rightarrow> 'h usbc \<Rightarrow> bool" where
  "took inp n s s' \<longleftrightarrow>
     s' = s\<lparr>us_hw := us_hw s', us_buffer := us_buffer s', us_didtimeout := us_didtimeout s'\<rparr> \<and>
     length (us_buffer s') = length (us_buffer s) \<and> (us_didtimeout s \<longrightarrow> us_didtimeout s') \<and>
     (\<not> us_didtimeout s' \<and> n \<le> length (inp (us_hw s)) \<longrightarrow> inp (us_hw s') = drop n (inp (us_hw s)))"

lemma took_trans:
  assumes "took inp n s t" "took inp k t u"
  shows "took inp (n + k) s u"
proof -
  have "u = s\<lparr>us_hw := us_hw u, us_buffer := us_buffer u, us_didtimeout := us_didtimeout u\<rparr>"
    using assms unfolding took_def by (cases s; cases t; cases u) simp
  moreover have "inp (us_hw u) = drop (n + k) (inp (us_hw s))"
    if "\<not> us_didtimeout u" "n + k \<le> length (inp (us_hw s))"
  proof -
    have "\<not> us_didtimeout t" using that(1) assms(2) by (auto simp: took_def)
    then have "inp (us_hw t) = drop n (inp (us_hw s))" using that(2) assms(1) by (simp add: took_def)
    moreover from this have "inp (us_hw u) = drop k (inp (us_hw t))" using that assms(2) by (simp add: took_def)
    ultimately show ?thesis by (simp add: add.commute)
  qed
  ultimately show ?thesis using assms unfolding took_def by auto
qed

lemma took_io: "took inp 0 s (s\<lparr>us_hw := h\<rparr>)" if "inp h = inp (us_hw s)"
  using that by (simp add: took_def)

lemma busy_took:
  assumes "usb_everdrive_usbbusy pi s = Some (late, s')" "input_law pi inp fpga" "memory_law pi mem"
  shows "took inp 0 s s'" "mem (us_hw s') = mem (us_hw s)" "us_didtimeout s' = (us_didtimeout s \<or> late)"
    "us_buffer s' = us_buffer s" "inp (us_hw s') = inp (us_hw s)"
proof -
  note sh = usbbusy_shape [OF assms(1)]
  have "view_stable pi inp" "\<forall>h. inp (pi_write pi ED_REG_USBCFG 0xC400 h) = inp h" "view_stable pi mem"
    "\<forall>h. mem (pi_write pi ED_REG_USBCFG 0xC400 h) = mem h"
    using assms(2,3) by (auto simp: input_law_def memory_law_def view_stable_def)
  then have v: "inp (us_hw s') = inp (us_hw s)" "mem (us_hw s') = mem (us_hw s)"
    using usbbusy_view [OF assms(1), of inp] usbbusy_view [OF assms(1), of mem] by auto
  show "mem (us_hw s') = mem (us_hw s)" "inp (us_hw s') = inp (us_hw s)" by (rule v)+
  obtain h d where s': "s' = s\<lparr>us_hw := h, us_didtimeout := d\<rparr>" "d = (us_didtimeout s \<or> late)" using sh by blast
  then show "took inp 0 s s'" "us_didtimeout s' = (us_didtimeout s \<or> late)" "us_buffer s' = us_buffer s"
    using v(1) by (auto simp: took_def)
qed

lemma dma_took:
  assumes "usb_dma_read pi (ED_REG_USBDAT + of_nat (BUFFER_SIZE - n)) n s = (bs, s')" "0 < n" "n \<le> BUFFER_SIZE"
    and "fpga (us_hw s) = Loaded n" and laws: "input_law pi inp fpga" "memory_law pi mem"
  shows "took inp n s s'" "mem (us_hw s') = mem (us_hw s)" "us_buffer s' = us_buffer s" "length bs = n"
    "us_didtimeout s' = us_didtimeout s"
    "n \<le> length (inp (us_hw s)) \<Longrightarrow> bs = take n (inp (us_hw s)) \<and> inp (us_hw s') = drop n (inp (us_hw s))"
proof -
  have read: "fst (pi_dma_read pi (ED_REG_USBDAT + of_nat (BUFFER_SIZE - n)) n (us_hw s)) = take n (inp (us_hw s)) \<and>
      inp (snd (pi_dma_read pi (ED_REG_USBDAT + of_nat (BUFFER_SIZE - n)) n (us_hw s))) = drop n (inp (us_hw s))"
    if "n \<le> length (inp (us_hw s))"
    using laws(1) assms(2-4) that unfolding input_law_def by blast
  obtain h where h: "pi_dma_read pi (ED_REG_USBDAT + of_nat (BUFFER_SIZE - n)) n (us_hw s) = (bs, h)"
    "s' = s\<lparr>us_hw := h\<rparr>" using assms(1) by (auto simp: usb_dma_read_def split: prod.splits)
  show law: "bs = take n (inp (us_hw s)) \<and> inp (us_hw s') = drop n (inp (us_hw s))"
    if "n \<le> length (inp (us_hw s))"
    using read [OF that] by (simp add: h)
  then show "took inp n s s'" by (simp add: took_def h(2))
  have "mem (snd (pi_dma_read pi a n g)) = mem g \<and> length (fst (pi_dma_read pi a n g)) = n" for a n g
    using laws(2) unfolding memory_law_def by blast
  from this [of "ED_REG_USBDAT + of_nat (BUFFER_SIZE - n)" n "us_hw s"]
  show "mem (us_hw s') = mem (us_hw s)" "us_buffer s' = us_buffer s" "length bs = n"
    "us_didtimeout s' = us_didtimeout s" by (simp_all only: h(1)) (simp_all add: h(2))
qed

lemma io_took:
  assumes "usb_io_read pi ED_REG_USBCFG s = (v, s')" "input_law pi inp fpga"
  shows "took inp 0 s s'" "inp (us_hw s') = inp (us_hw s)" "us_didtimeout s' = us_didtimeout s"
    "inp (us_hw s) \<noteq> [] \<Longrightarrow> v AND (ED_USBSTAT_POWER OR ED_USBSTAT_RXF) = ED_USBSTAT_POWER"
proof -
  obtain h where h: "pi_read pi ED_REG_USBCFG (us_hw s) = (v, h)" "s' = s\<lparr>us_hw := h\<rparr>"
    using assms(1) by (auto simp: usb_io_read_def split: prod.splits)
  have "inp (snd (pi_read pi ED_REG_USBCFG g)) = inp g" "inp g \<noteq> [] \<Longrightarrow>
      fst (pi_read pi ED_REG_USBCFG g) AND (ED_USBSTAT_POWER OR ED_USBSTAT_RXF) = ED_USBSTAT_POWER" for g
    using assms(2) unfolding input_law_def by blast+
  from this [of "us_hw s"]
  show "inp (us_hw s') = inp (us_hw s)" "us_didtimeout s' = us_didtimeout s"
    "inp (us_hw s) \<noteq> [] \<Longrightarrow> v AND (ED_USBSTAT_POWER OR ED_USBSTAT_RXF) = ED_USBSTAT_POWER"
    by (simp_all add: h)
  then show "took inp 0 s s'" by (simp add: took_def h(2))
qed

lemma took_cart:
  assumes "took inp n s s'"
  shows "us_cart s' = us_cart s" "us_datatype s' = us_datatype s" "us_datasize s' = us_datasize s"
    "us_dataleft s' = us_dataleft s" "us_readblock s' = us_readblock s" "d64_extendedaddr s' = d64_extendedaddr s"
  using assms unfolding took_def by (cases s; cases s'; simp)+

lemma readusb_takes:
  assumes clock: "clock_law pi now D" "pi_cycles pi 100000 + 3 * D < 2 ^ 32"
    and laws: "input_law pi inp fpga" "memory_law pi mem"
  shows "off + n \<le> length buff \<Longrightarrow>
    \<exists>buff' s'. usb_everdrive_readusb pi buff off n s = Some (buff', s') \<and> took inp n s s' \<and>
      mem (us_hw s') = mem (us_hw s) \<and> us_buffer s' = us_buffer s \<and> length buff' = length buff \<and>
      (\<not> us_didtimeout s' \<and> n \<le> length (inp (us_hw s)) \<longrightarrow> buff' = copy_in off (take n (inp (us_hw s))) buff) \<and>
      (answers_in_time pi now D \<longrightarrow> us_didtimeout s' = us_didtimeout s)"
proof (induction n arbitrary: buff off s rule: less_induct)
  case (less n)
  show ?case
  proof (cases "n = 0")
    case True
    then show ?thesis by (simp add: usb_everdrive_readusb.simps took_def copy_in_def)
  next
    case False
    define block where "block = min BUFFER_SIZE n"
    define a :: u32 where "a = of_nat (BUFFER_SIZE - block)"
    define s1 where "s1 = usb_io_write pi ED_REG_USBCFG (0xC600 OR a) s"
    have s1: "took inp 0 s s1" "mem (us_hw s1) = mem (us_hw s)" "us_buffer s1 = us_buffer s" "inp (us_hw s1) = inp (us_hw s)"
      using laws by (auto simp: s1_def usb_io_write_def took_def input_law_def memory_law_def)
    have b: "0 < block" "block \<le> BUFFER_SIZE" "block \<le> n" using False by (auto simp: block_def)
    have asked: "fpga (us_hw s1) = Asked block"
      using laws(1) b(1,2) unfolding input_law_def by (simp add: s1_def usb_io_write_def a_def)
    obtain late s2 where k: "usb_everdrive_usbbusy pi s1 = Some (late, s2)" by (rule usbbusy_ends [OF clock])
    note s2 = busy_took [OF k laws]
    have t2: "took inp 0 s s2" using took_trans [OF s1(1) s2(1)] by simp
    have flag: "us_didtimeout s2 = (us_didtimeout s \<or> late)" using s2(3) by (simp add: s1_def usb_io_write_def)
    have punctual: "\<not> late" if "answers_in_time pi now D" by (rule usbbusy_in_time [OF k clock that])
    have u: "usb_everdrive_readusb pi buff off n s =
       (if late then Some (buff, s2)
        else case usb_dma_read pi (ED_REG_USBDAT + a) block s2 of (bs, s3) \<Rightarrow>
          usb_everdrive_readusb pi (copy_in off bs buff) (off + block) (n - block) s3)"
      using False k unfolding s1_def a_def block_def
      by (subst usb_everdrive_readusb.simps) (simp add: Let_def)
    show ?thesis
    proof (cases late)
      case True
      then have "us_didtimeout s2" by (simp add: s2(3))
      with t2 have "took inp n s s2" by (simp add: took_def)
      then show ?thesis using u True s1 s2 \<open>us_didtimeout s2\<close> punctual by auto
    next
      case False
      obtain bs s3 where r: "usb_dma_read pi (ED_REG_USBDAT + a) block s2 = (bs, s3)" by fastforce
      have "fpga (us_hw s2) = Loaded block" using usbbusy_loads [OF _ laws(1) asked] k False by simp
      note s3 = dma_took [OF r [unfolded a_def] b(1,2) this laws]
      have t3: "took inp block s s3" using took_trans [OF t2 s3(1)] by simp
      have "off + block + (n - block) \<le> length (copy_in off bs buff)" using less.prems b(3) s3(4) by simp
      from less.IH [OF _ this, of s3] b False \<open>n \<noteq> 0\<close> obtain buff' s' where
        IH: "usb_everdrive_readusb pi (copy_in off bs buff) (off + block) (n - block) s3 = Some (buff', s')"
        "took inp (n - block) s3 s'" "mem (us_hw s') = mem (us_hw s3)" "us_buffer s' = us_buffer s3"
        "length buff' = length (copy_in off bs buff)"
        "\<not> us_didtimeout s' \<and> n - block \<le> length (inp (us_hw s3)) \<longrightarrow>
           buff' = copy_in (off + block) (take (n - block) (inp (us_hw s3))) (copy_in off bs buff)"
        "answers_in_time pi now D \<longrightarrow> us_didtimeout s' = us_didtimeout s3"
        by auto
      have t: "took inp n s s'" using took_trans [OF t3 IH(2)] b(3) by simp
      have "buff' = copy_in off (take n (inp (us_hw s))) buff"
        if "\<not> us_didtimeout s'" "n \<le> length (inp (us_hw s))"
      proof -
        have nt: "\<not> us_didtimeout s3" "\<not> us_didtimeout s2" using that(1) IH(2) s3(5) by (auto simp: took_def)
        have i2: "inp (us_hw s2) = inp (us_hw s)" using t2 nt(2) by (simp add: took_def)
        then have i3: "bs = take block (inp (us_hw s))" "inp (us_hw s3) = drop block (inp (us_hw s))"
          using s3(6) b(3) that(2) by auto
        have "buff' = copy_in (off + block) (take (n - block) (drop block (inp (us_hw s)))) (copy_in off bs buff)"
          using IH(6) that i3(2) by simp
        also have "\<dots> = copy_in off (bs @ take (n - block) (drop block (inp (us_hw s)))) buff"
          using less.prems b(3) s3(4) by (simp add: copy_in_def ac_simps)
        also have "bs @ take (n - block) (drop block (inp (us_hw s))) = take n (inp (us_hw s))"
          unfolding i3(1) using b(3) by (metis le_add_diff_inverse take_add)
        finally show ?thesis .
      qed
      moreover have "usb_everdrive_readusb pi buff off n s = Some (buff', s')" using u False r IH(1) by simp
      moreover have "mem (us_hw s') = mem (us_hw s)" "us_buffer s' = us_buffer s" "length buff' = length buff"
        using IH(3-5) s1 s2 s3 less.prems b(3) by simp_all
      moreover have "answers_in_time pi now D \<longrightarrow> us_didtimeout s' = us_didtimeout s"
        using IH(7) s3(5) flag False by simp
      ultimately show ?thesis using t by blast
    qed
  qed
qed

lemma took_getaddr: "took inp n s s' \<Longrightarrow> usb_getaddr s' = usb_getaddr s"
  unfolding took_def usb_getaddr_def by (cases s; cases s') simp

lemma poll_loop_takes:
  assumes clock: "clock_law pi now D" "pi_cycles pi 100000 + 3 * D < 2 ^ 32"
    and laws: "input_law pi inp fpga" "memory_law pi mem"
  shows "length (us_buffer s) = BUFFER_SIZE \<Longrightarrow> in_rom (CART_BASE + usb_getaddr s) (off + n) \<Longrightarrow>
    \<exists>s'. everdrive_poll_loop pi n off s = Some s' \<and> took inp n s s' \<and>
      (\<not> us_didtimeout s' \<and> n \<le> length (inp (us_hw s)) \<longrightarrow>
        mem (us_hw s') = overwrite (CART_BASE + usb_getaddr s + of_nat off) (take n (inp (us_hw s))) (mem (us_hw s))) \<and>
      (answers_in_time pi now D \<longrightarrow> us_didtimeout s' = us_didtimeout s)"
proof (induction n arbitrary: off s rule: less_induct)
  case (less n)
  show ?case
  proof (cases "n = 0")
    case True
    then show ?thesis by (simp add: everdrive_poll_loop.simps took_def)
  next
    case False
    define block where "block = min BUFFER_SIZE n"
    define base where "base = CART_BASE + usb_getaddr s"
    have b: "0 < block" "block \<le> BUFFER_SIZE" "block \<le> n" using False by (auto simp: block_def)
    obtain buff s1 where r: "usb_everdrive_readusb pi (us_buffer s) 0 block s = Some (buff, s1)"
      "took inp block s s1" "mem (us_hw s1) = mem (us_hw s)" "us_buffer s1 = us_buffer s" "length buff = BUFFER_SIZE"
      "\<not> us_didtimeout s1 \<and> block \<le> length (inp (us_hw s)) \<longrightarrow>
        buff = copy_in 0 (take block (inp (us_hw s))) (us_buffer s)"
      "answers_in_time pi now D \<longrightarrow> us_didtimeout s1 = us_didtimeout s"
      using readusb_takes [OF clock laws, of 0 block "us_buffer s" s] b(2) less.prems(1) by auto
    define s2 where "s2 = usb_dma_write pi (take block buff) (base + of_nat off) (s1\<lparr>us_buffer := buff\<rparr>)"
    have rom: "in_rom (base + of_nat off) block"
      using in_rom_add(2) [OF less.prems(2), of off] b(3) in_rom_add(3) [of "base + of_nat off" n 0 block]
      by (simp add: base_def)
    then have w: "mem (us_hw s2) = overwrite (base + of_nat off) (take block buff) (mem (us_hw s))"
      "inp (us_hw s2) = inp (us_hw s1)"
      using laws r(3,5) b(2) by (simp_all add: s2_def usb_dma_write_def memory_law_def input_law_def)
    have t1: "took inp 0 s1 s2" using r(4,5) w(2) less.prems(1) by (simp add: s2_def usb_dma_write_def took_def)
    have t2: "took inp block s s2" using took_trans [OF r(2) t1] by simp
    have base: "CART_BASE + usb_getaddr s2 = base" using took_getaddr [OF t2] by (simp add: base_def)
    have lb: "length (us_buffer s2) = BUFFER_SIZE" by (simp add: s2_def usb_dma_write_def r(5))
    have u: "everdrive_poll_loop pi n off s = everdrive_poll_loop pi (n - block) (off + block) s2"
      using False r(1) took_getaddr [OF r(2)] unfolding s2_def base_def block_def
      by (subst everdrive_poll_loop.simps) (simp add: Let_def usb_getaddr_def)
    have "in_rom (CART_BASE + usb_getaddr s2) (off + block + (n - block))"
      using less.prems(2) b(3) unfolding base by (simp add: base_def)
    from less.IH [OF _ lb this] b False obtain s' where
      IH: "everdrive_poll_loop pi (n - block) (off + block) s2 = Some s'" "took inp (n - block) s2 s'"
      "\<not> us_didtimeout s' \<and> n - block \<le> length (inp (us_hw s2)) \<longrightarrow> mem (us_hw s') =
         overwrite (base + of_nat (off + block)) (take (n - block) (inp (us_hw s2))) (mem (us_hw s2))"
      "answers_in_time pi now D \<longrightarrow> us_didtimeout s' = us_didtimeout s2"
      unfolding base by auto
    have t: "took inp n s s'" using took_trans [OF t2 IH(2)] b(3) by simp
    have "mem (us_hw s') = overwrite (base + of_nat off) (take n (inp (us_hw s))) (mem (us_hw s))"
      if "\<not> us_didtimeout s'" "n \<le> length (inp (us_hw s))"
    proof -
      have nt: "\<not> us_didtimeout s2" "\<not> us_didtimeout s1" using that(1) IH(2) t1 by (auto simp: took_def)
      define x where "x = take block (inp (us_hw s))"
      define y where "y = take (n - block) (drop block (inp (us_hw s)))"
      have x: "length x = block" "take block buff = x" "inp (us_hw s2) = drop block (inp (us_hw s))"
        using r(6) nt b that(2) t2 take_copy_in [of 0 x "us_buffer s"] less.prems(1)
        by (auto simp: x_def took_def)
      have xy: "x @ y = take n (inp (us_hw s))"
        unfolding x_def y_def using b(3) by (metis le_add_diff_inverse take_add)
      have "base + of_nat (off + block) = base + of_nat off + of_nat (length x)" using x(1) by simp
      then have "mem (us_hw s') = overwrite (base + of_nat off + of_nat (length x)) y
          (overwrite (base + of_nat off) x (mem (us_hw s)))"
        using IH(3) that x w(1) by (simp add: y_def add.assoc)
      also have "\<dots> = overwrite (base + of_nat off) (x @ y) (mem (us_hw s))"
        using that(2) less.prems(2) b(3) x(1)
        by (intro overwrite_append) (simp add: y_def in_rom_def)
      finally show ?thesis by (simp only: xy)
    qed
    moreover have "answers_in_time pi now D \<longrightarrow> us_didtimeout s' = us_didtimeout s"
      using IH(4) r(7) by (simp add: s2_def usb_dma_write_def)
    ultimately show ?thesis using u IH(1) t by (simp add: base_def)
  qed
qed

lemma mem_bytes_cong: "mem h = mem h' \<Longrightarrow> mem_bytes mem h a n = mem_bytes mem h' a n"
  by (simp add: mem_bytes_def)

text \<open>What the PC sends: the data is padded to an even length before the end mark.\<close>

definition everdrive_incoming :: "byte \<Rightarrow> byte list \<Rightarrow> byte list \<Rightarrow> byte list" where
  "everdrive_incoming ty data pad = str_bytes ''DMA@'' @ [ty] @
     [of_nat (length data div 0x10000), of_nat (length data div 0x100), of_nat (length data)] @
     data @ pad @ str_bytes ''CMPH''"

lemma three_bytes:
  assumes "n < 2 ^ 24"
  shows "unat (of_nat (n div 0x10000) :: byte) * 0x10000 + unat (of_nat (n div 0x100) :: byte) * 0x100 +
    unat (of_nat n :: byte) = n"
proof -
  have "unat (of_nat (n div 0x10000) :: byte) = n div 0x10000"
    using assms by (simp add: unat_of_nat take_bit_eq_mod)
  moreover have "unat (of_nat (n div 0x100) :: byte) = n div 0x100 mod 0x100" "unat (of_nat n :: byte) = n mod 0x100"
    by (simp_all add: unat_of_nat take_bit_eq_mod)
  moreover have "n div 0x10000 = n div 0x100 div 0x100" by (simp add: div_mult2_eq [symmetric])
  ultimately show ?thesis using div_mult_mod_eq [of n "0x100"] div_mult_mod_eq [of "n div 0x100" "0x100"]
    by (simp only:)
qed

text \<open>
  A frame that arrives at the EverDrive is taken off the line and its message placed in the
  cartridge's memory, with its type and size in the globals, unless a wait times out, which does
  not happen with an EverDrive that answers in time.
\<close>

theorem usb_everdrive_poll_receives:
  assumes clock: "clock_law pi now D" "pi_cycles pi 100000 + 3 * D < 2 ^ 32"
    and laws: "input_law pi inp fpga" "memory_law pi mem"
    and s: "\<not> us_didtimeout s" "length (us_buffer s) = BUFFER_SIZE" "us_cart s = CartEverDrive" "8 \<le> length buff0"
    and input: "inp (us_hw s) = everdrive_incoming ty data pad @ rest" "length data < 2 ^ 24"
      "length pad = length data mod 2"
  shows "\<exists>r s'. usb_everdrive_poll pi buff0 s = Some (r, s') \<and>
    (us_didtimeout s' \<or>
     r = USBHEADER_CREATE (uint ty) (int (length data)) \<and> us_datatype s' = uint ty \<and>
     us_datasize s' = int (length data) \<and> us_dataleft s' = int (length data) \<and> us_readblock s' = -1 \<and>
     us_cart s' = CartEverDrive \<and> d64_extendedaddr s' = d64_extendedaddr s \<and>
     length (us_buffer s') = BUFFER_SIZE \<and> mem_bytes mem (us_hw s') (CART_BASE + usb_getaddr s') (length data) = data \<and> inp (us_hw s') = rest) \<and>
    (answers_in_time pi now D \<longrightarrow> \<not> us_didtimeout s')"
proof -
  let ?sz = "length data"
  define h where "h = str_bytes ''DMA@'' @ [ty, of_nat (?sz div 0x10000), of_nat (?sz div 0x100), of_nat ?sz]"
  have h: "length h = 8" "take 4 h = str_bytes ''DMA@''" "h ! 4 = ty" "h ! 5 = of_nat (?sz div 0x10000)"
    "h ! 6 = of_nat (?sz div 0x100)" "h ! 7 = of_nat ?sz"
    by (simp_all add: h_def nth_append)
  have i0: "inp (us_hw s) = h @ (data @ pad) @ str_bytes ''CMPH'' @ rest"
    by (simp add: input h_def everdrive_incoming_def)
  have al: "length (data @ pad) = ALIGN ?sz 2" by (simp add: input(3) ALIGN_2)
  obtain late s1 where b1: "usb_everdrive_usbbusy pi s = Some (late, s1)" by (rule usbbusy_ends [OF clock])
  note t1 = busy_took [OF b1 laws]
  show ?thesis
  proof (cases late)
    case True
    then show ?thesis using t1(3) usbbusy_in_time [OF b1 clock] by (auto simp: usb_everdrive_poll_def b1)
  next
    case late: False
    obtain v s2 where v: "usb_io_read pi ED_REG_USBCFG s1 = (v, s2)" by fastforce
    have s2: "took inp 0 s1 s2" "inp (us_hw s2) = inp (us_hw s)" "us_didtimeout s2 = us_didtimeout s1"
      and vr: "v AND (ED_USBSTAT_POWER OR ED_USBSTAT_RXF) = ED_USBSTAT_POWER"
      using io_took [OF v laws(1)] t1(5) i0 by (simp_all add: h_def)
    then have cr: "usb_everdrive_canread pi s1 = (True, s2)" by (simp add: usb_everdrive_canread_def v)
    obtain buff s3 where r3: "usb_everdrive_readusb pi buff0 0 8 s2 = Some (buff, s3)" "took inp 8 s2 s3"
      "length buff = length buff0" "\<not> us_didtimeout s3 \<longrightarrow> buff = copy_in 0 h buff0"
      "answers_in_time pi now D \<longrightarrow> us_didtimeout s3 = us_didtimeout s2"
      using readusb_takes [OF clock laws, of 0 8 buff0 s2] s(4) by (auto simp: s2(2) i0 h(1))
    have t03: "took inp 8 s s3" using took_trans [OF took_trans [OF t1(1) s2(1)] r3(2)] by simp
    define sz where "sz = unat (buff ! 5) * 0x10000 + unat (buff ! 6) * 0x100 + unat (buff ! 7)"
    define s4 where "s4 = s3\<lparr>us_datatype := uint (buff ! 4), us_datasize := int sz, us_dataleft := int sz,
                   us_readblock := -1\<rparr>"
    have s4: "us_didtimeout s4 = us_didtimeout s3" "inp (us_hw s4) = inp (us_hw s3)" "us_cart s4 = CartEverDrive"
      "length (us_buffer s4) = BUFFER_SIZE"
      using took_cart [OF t03] t03 s(2,3) by (simp_all add: s4_def took_def)
    have "sz < 2 ^ 24" using unsigned_less [of "buff ! 5", where ?'a = nat] unsigned_less [of "buff ! 6", where ?'a = nat]
        unsigned_less [of "buff ! 7", where ?'a = nat] unfolding sz_def by simp
    then have rom: "in_rom (CART_BASE + usb_getaddr s4) (0 + ALIGN sz 2)"
      by (simp add: in_rom_def usb_getaddr_def s4(3) ALIGN_2)
    obtain s5 where r5: "everdrive_poll_loop pi (ALIGN sz 2) 0 s4 = Some s5" "took inp (ALIGN sz 2) s4 s5"
      "\<not> us_didtimeout s5 \<and> ALIGN sz 2 \<le> length (inp (us_hw s4)) \<longrightarrow>
        mem (us_hw s5) = overwrite (CART_BASE + usb_getaddr s4) (take (ALIGN sz 2) (inp (us_hw s4))) (mem (us_hw s4))"
      "answers_in_time pi now D \<longrightarrow> us_didtimeout s5 = us_didtimeout s4"
      using poll_loop_takes [OF clock laws s4(4) rom] by auto
    obtain late6 s6 where b6: "usb_everdrive_usbbusy pi s5 = Some (late6, s6)" by (rule usbbusy_ends [OF clock])
    note t6 = busy_took [OF b6 laws]
    obtain buff7 s7 where r7: "usb_everdrive_readusb pi buff 0 4 s6 = Some (buff7, s7)" "took inp 4 s6 s7"
      "mem (us_hw s7) = mem (us_hw s6)"
      "\<not> us_didtimeout s7 \<and> 4 \<le> length (inp (us_hw s6)) \<longrightarrow> buff7 = copy_in 0 (take 4 (inp (us_hw s6))) buff"
      "answers_in_time pi now D \<longrightarrow> us_didtimeout s7 = us_didtimeout s6"
      using readusb_takes [OF clock laws, of 0 4 buff s6] s(4) r3(3) by auto
    have u: "usb_everdrive_poll pi buff0 s =
      (if take 4 buff \<noteq> str_bytes ''DMA@'' then Some (0, s3)
       else if late6 then Some (0, s6)
       else if take 4 buff7 \<noteq> str_bytes ''CMPH''
       then Some (0, s7\<lparr>us_datatype := 0, us_datasize := 0, us_dataleft := 0, us_readblock := -1\<rparr>)
       else Some (USBHEADER_CREATE (us_datatype s7) (us_datasize s7), s7))"
      using late by (simp add: usb_everdrive_poll_def b1 cr r3(1) r5(1) b6 r7(1)
        sz_def [symmetric] s4_def [symmetric] Let_def)
    have flags: "us_didtimeout s3 \<Longrightarrow> us_didtimeout s5" "us_didtimeout s5 \<Longrightarrow> us_didtimeout s6"
      "late6 \<Longrightarrow> us_didtimeout s6" "us_didtimeout s6 \<Longrightarrow> us_didtimeout s7"
      using r5(2) s4(1) t6(3) r7(2) by (auto simp: took_def)
    have punctual: "\<not> us_didtimeout s3 \<and> \<not> us_didtimeout s6 \<and> \<not> us_didtimeout s7" if "answers_in_time pi now D"
      using usbbusy_in_time [OF b1 clock that] usbbusy_in_time [OF b6 clock that] that s(1) t1(3) s2(3) r3(5) s4(1)
        r5(4) t6(3) r7(5) by simp
    have head: "take 8 buff = h" if "\<not> us_didtimeout s3"
      using r3(4) that take_copy_in [of 0 h buff0, unfolded h(1)] s(4) by simp
    then have start: "take 4 buff = str_bytes ''DMA@''" if "\<not> us_didtimeout s3"
      using that h(2) by (metis min.absorb1 numeral_le_iff semiring_norm(68,71,78) take_take)
    have good: "take 4 buff7 = str_bytes ''CMPH'' \<and> inp (us_hw s7) = rest \<and> us_datatype s7 = uint ty \<and>
        us_datasize s7 = int ?sz \<and> us_dataleft s7 = int ?sz \<and> us_readblock s7 = -1 \<and>
        us_cart s7 = CartEverDrive \<and> d64_extendedaddr s7 = d64_extendedaddr s \<and> length (us_buffer s7) = BUFFER_SIZE \<and>
        mem_bytes mem (us_hw s7) (CART_BASE + usb_getaddr s7) ?sz = data" if f7: "\<not> us_didtimeout s7"
    proof -
      have nf: "\<not> us_didtimeout s3" "\<not> us_didtimeout s5" "\<not> us_didtimeout s6" using flags f7 by auto
      have bj: "buff ! j = h ! j" if "j < 8" for j using head [OF nf(1)] that by (metis nth_take)
      have sz: "sz = ?sz" using three_bytes [OF input(2)] bj [of 5] bj [of 6] bj [of 7] by (simp add: sz_def h)
      have i4: "inp (us_hw s4) = (data @ pad) @ str_bytes ''CMPH'' @ rest"
        using t03 nf(1) i0 h(1) unfolding s4(2) by (simp add: took_def)
      have i5: "inp (us_hw s5) = str_bytes ''CMPH'' @ rest"
        using r5(2) nf(2) al unfolding sz took_def i4 by simp
      have i6: "inp (us_hw s6) = str_bytes ''CMPH'' @ rest" using t6(5) i5 by simp
      have b7: "buff7 = copy_in 0 (str_bytes ''CMPH'') buff" using r7(4) f7 i6 by simp
      have c7: "take 4 buff7 = str_bytes ''CMPH''"
        using s(4) r3(3) by (simp add: b7 copy_in_def)
      have t47: "took inp (ALIGN sz 2 + 4) s4 s7"
        using took_trans [OF took_trans [OF r5(2) t6(1)] r7(2)] by simp
      have "mem (us_hw s7) = overwrite (CART_BASE + usb_getaddr s4) (data @ pad) (mem (us_hw s4))"
        using r7(3) t6(2) r5(3) nf(2) al unfolding sz i4 by simp
      then have "mem_bytes mem (us_hw s7) (CART_BASE + usb_getaddr s4) ?sz = take ?sz (data @ pad)"
        using input(2,3) by (intro mem_bytes_overwrite) auto
      moreover have "d64_extendedaddr s7 = d64_extendedaddr s"
        using took_cart(6) [OF t47] took_cart(6) [OF t03] by (simp add: s4_def)
      ultimately show ?thesis using c7 r7(2) f7 i6 took_cart [OF t47] took_getaddr [OF t47] t47 s4(3,4) sz bj [of 4] h(3)
        by (simp add: took_def s4_def)
    qed
    show ?thesis
    proof (cases "take 4 buff = str_bytes ''DMA@''")
      case False
      then have "us_didtimeout s3" using start by blast
      then show ?thesis using False punctual by (auto simp: u)
    next
      case dma: True
      show ?thesis
      proof (cases "us_didtimeout s7")
        case True
        show ?thesis using dma True flags punctual by (cases "late6 \<or> take 4 buff7 = str_bytes ''CMPH''") (auto simp: u)
      next
        case False
        then show ?thesis using dma good [OF False] flags by (auto simp: u)
      qed
    qed
  qed
qed

section \<open>SummerCart64\<close>

lemma spin_until_shape:
  assumes "spin_until pi reg stop s = Some (v, s')"
  shows "s' = s\<lparr>us_hw := us_hw s'\<rparr>"
proof -
  have "snd r = s\<lparr>us_hw := us_hw (snd r)\<rparr>" if "spin_until pi reg stop s = Some r" for r
  proof (rule spin_until.raw_induct [OF _ that, where P = "\<lambda>_ _ _ s r. snd r = s\<lparr>us_hw := us_hw (snd r)\<rparr>"], goal_cases)
    case (1 f pi reg stop s r)
    obtain v h where "pi_read pi reg (us_hw s) = (v, h)" by fastforce
    with 1(2) show ?case by (auto simp: usb_io_read_def split: if_splits dest!: 1(1))
  qed
  from this [OF assms] show ?thesis by simp
qed

lemma execute_cmd_shape:
  assumes "usb_sc64_execute_cmd pi cmd args want s = Some (err, res, s')"
  shows "\<exists>h. s' = s\<lparr>us_hw := h\<rparr>"
proof -
  define s1 where "s1 = usb_io_write pi SC64_REG_SR_CMD (of_char cmd) (case args of None \<Rightarrow> s
       | Some (a0, a1) \<Rightarrow> usb_io_write pi SC64_REG_DATA_1 a1 (usb_io_write pi SC64_REG_DATA_0 a0 s))"
  obtain h1 where s1: "s1 = s\<lparr>us_hw := h1\<rparr>"
    by (cases args) (auto simp: s1_def usb_io_write_def split: prod.splits)
  obtain sr s2 where sp: "spin_until pi SC64_REG_SR_CMD (\<lambda>sr. \<not> bit sr SC64_SR_CMD_BUSY) s1 = Some (sr, s2)"
    using assms by (auto simp: usb_sc64_execute_cmd_def s1_def [symmetric] Let_def bind_eq_Some_conv)
  obtain h2 where s2: "s2 = s\<lparr>us_hw := h2\<rparr>" using spin_until_shape [OF sp] s1 by simp
  show ?thesis using assms
    by (cases want) (auto simp: usb_sc64_execute_cmd_def s1_def [symmetric] sp s2 Let_def usb_io_read_def split: prod.splits)
qed

text \<open>
  When the SummerCart reports a message and then refuses to transfer it, \<open>usb_sc64_poll\<close> returns 0,
  which means that there is nothing, but leaves the type and the size of the message in the globals.
\<close>

theorem sc64_failed_read_leaves_message:
  assumes "usb_sc64_execute_cmd pi (CHR ''u'') None True s = Some (e, (r0, r1), s1)" "r1 AND 0xFFFFFF \<noteq> 0"
    and "usb_sc64_execute_cmd pi (CHR ''m'') (Some (CART_BASE + usb_getaddr s, r1 AND 0xFFFFFF)) False
      (s1\<lparr>us_datatype := uint (r0 AND 0xFF), us_dataleft := uint (r1 AND 0xFFFFFF),
          us_datasize := uint (r1 AND 0xFFFFFF), us_readblock := -1\<rparr>) = Some (True, r, s2)"
  shows "usb_sc64_poll pi s = Some (0, s2) \<and> 0 < us_dataleft s2 \<and>
    us_datatype s2 = uint (r0 AND 0xFF) \<and> us_dataleft s2 = uint (r1 AND 0xFFFFFF)"
proof -
  obtain h1 where s1: "s1 = s\<lparr>us_hw := h1\<rparr>" using execute_cmd_shape [OF assms(1)] by blast
  obtain h2 where s2: "s2 = s1\<lparr>us_datatype := uint (r0 AND 0xFF), us_dataleft := uint (r1 AND 0xFFFFFF),
          us_datasize := uint (r1 AND 0xFFFFFF), us_readblock := -1, us_hw := h2\<rparr>"
    using execute_cmd_shape [OF assms(3)] by blast
  have g: "usb_getaddr (s1\<lparr>us_datatype := uint (r0 AND 0xFF), us_dataleft := uint (r1 AND 0xFFFFFF),
          us_datasize := uint (r1 AND 0xFFFFFF), us_readblock := -1\<rparr>) = usb_getaddr s"
    by (simp add: usb_getaddr_def s1)
  have "usb_sc64_poll pi s = Some (0, s2)"
    using assms(2) by (simp only: usb_sc64_poll_def assms(1) bind.simps prod.case Let_def g assms(3) if_False if_True)
  moreover have "0 < uint (r1 AND 0xFFFFFF)" using assms(2) by (simp add: uint_0_iff order_less_le)
  ultimately show ?thesis by (simp add: s2)
qed

section \<open>64Drive\<close>

text \<open>
  With extended addresses the message area begins where the registers are; without, the two do not
  meet.
\<close>

theorem extended_messages_overlap_registers:
  "(let area = (\<lambda>s :: 'h usbc. unat (CART_BASE + usb_getaddr s)); regs = (\<lambda>s. unat (usb_64drive_get_baseaddr s)) in
    area (s\<lparr>us_cart := Cart64Drive, d64_extendedaddr := True\<rparr>) =
      regs (s\<lparr>us_cart := Cart64Drive, d64_extendedaddr := True\<rparr>) \<and>
    area (s\<lparr>us_cart := Cart64Drive, d64_extendedaddr := False\<rparr>) + unat DEBUG_ADDRESS_SIZE
      \<le> regs (s\<lparr>us_cart := Cart64Drive, d64_extendedaddr := False\<rparr>))"
  by (simp add: usb_getaddr_def usb_64drive_get_baseaddr_def)

section \<open>A cartridge\<close>

text \<open>
  A cartridge for which the laws hold: memory, a clock that advances with every access, and an
  EverDrive's USB that is busy for a while after every request to read.
\<close>

record cart_sim =
  sim_mem :: "u32 \<Rightarrow> byte"
  sim_now :: nat
  sim_dat :: "byte list"
  sim_sent :: "byte list"
  sim_in :: "byte list"
  sim_fpga :: ed_read
  sim_wait :: "5 word"

text \<open>One tick; while the USB is busy it has one less to go.\<close>

definition sim_tick :: "cart_sim \<Rightarrow> cart_sim" where
  "sim_tick h = h\<lparr>sim_now := Suc (sim_now h), sim_wait := (if sim_wait h = 0 then 0 else sim_wait h - 1)\<rparr>"

definition sim_bus :: "cart_sim pi_bus" where
  "sim_bus = \<lparr>
     pi_read = (\<lambda>a h. if a \<noteq> ED_REG_USBCFG then (0, sim_tick h)
       else if sim_wait h \<noteq> 0 then (if sim_in h = [] then 0x1600 else 0x1200, sim_tick h)
       else (if sim_in h = [] then 0x1400 else 0x1000,
         (sim_tick h)\<lparr>sim_fpga := (case sim_fpga h of Asked n \<Rightarrow> Loaded n | p \<Rightarrow> p)\<rparr>)),
     pi_write = (\<lambda>a v h. if a \<noteq> ED_REG_USBCFG then h
       else if v AND 0xFE00 = 0xC200 then h\<lparr>sim_sent := sim_sent h @ sim_dat h, sim_dat := []\<rparr>
       else if v AND 0xFE00 = 0xC600 then h\<lparr>sim_fpga := Asked (BUFFER_SIZE - unat (v AND 0x1FF)), sim_wait := 3\<rparr>
       else h),
     pi_dma_read = (\<lambda>a n h. if \<not> ED_REG_USBDAT \<le> a then (map (\<lambda>i. sim_mem h (a + of_nat i)) [0..<n], h)
       else if sim_fpga h = Loaded n
       then (take n (sim_in h @ replicate n 0), h\<lparr>sim_in := drop n (sim_in h), sim_fpga := Idle\<rparr>)
       else (replicate n 0, h)),
     pi_dma_write = (\<lambda>bs a h. if ED_REG_USBDAT \<le> a then h\<lparr>sim_dat := bs\<rparr>
       else h\<lparr>sim_mem := overwrite a bs (sim_mem h)\<rparr>),
     pi_count = (\<lambda>h. (of_nat (sim_now h), sim_tick h)),
     pi_cycles = (\<lambda>us. us * 46875 div 1000)\<rparr>"

definition sim_start :: "flashcart \<Rightarrow> byte list \<Rightarrow> cart_sim usbc" where
  "sim_start cart incoming = \<lparr>us_cart = cart, us_buffer = replicate BUFFER_SIZE 0, us_didtimeout = False,
     us_datatype = 0, us_datasize = 0, us_dataleft = 0, us_readblock = -1, d64_wasarmed = False,
     d64_extendedaddr = False,
     us_hw = \<lparr>sim_mem = (\<lambda>a. ucast a), sim_now = 0, sim_dat = [], sim_sent = [], sim_in = incoming,
       sim_fpga = Idle, sim_wait = 0\<rparr>\<rparr>"

lemma sim_clock: "clock_law sim_bus sim_now 1" "pi_cycles sim_bus 100000 + 3 * 1 < 2 ^ 32"
  by (simp_all add: clock_law_def sim_bus_def sim_tick_def)

lemma in_rom_below: "in_rom a n \<Longrightarrow> \<not> ED_REG_USBDAT \<le> a"
  by (simp add: in_rom_def word_le_nat_alt)

lemma sim_memory: "memory_law sim_bus sim_mem"
  by (auto simp: memory_law_def sim_bus_def sim_tick_def mem_bytes_def dest!: in_rom_below)

lemma usbdat_addr:
  assumes "n \<le> BUFFER_SIZE"
  shows "ED_REG_USBDAT \<le> ED_REG_USBDAT + of_nat (BUFFER_SIZE - n)"
proof -
  have "unat (of_nat (BUFFER_SIZE - n) :: u32) = BUFFER_SIZE - n"
    by (simp add: unat_of_nat take_bit_nat_eq_self)
  then show ?thesis by (simp add: word_le_nat_alt unat_plus_if')
qed

lemma usbmode_parts:
  assumes "0 < n" "n \<le> BUFFER_SIZE"
  shows "(m OR of_nat (BUFFER_SIZE - n)) AND 0xFE00 = (m :: u32) AND 0xFE00"
    and "m AND 0x1FF = 0 \<Longrightarrow> BUFFER_SIZE - unat ((m OR of_nat (BUFFER_SIZE - n)) AND 0x1FF) = n"
proof -
  let ?w = "of_nat (BUFFER_SIZE - n) :: u32"
  have "take_bit 9 ?w = ?w" using assms(1) by (simp add: take_bit_nat_eq_self flip: of_nat_take_bit)
  moreover have "take_bit 9 ?w = ?w AND 0x1FF" by (simp add: take_bit_eq_mask mask_eq_exp_minus_1)
  ultimately have w: "?w = ?w AND 0x1FF" by (simp only:)
  have "?w AND 0xFE00 = 0" by (subst w) (simp add: and.assoc)
  then show "(m OR ?w) AND 0xFE00 = m AND 0xFE00" by (simp add: bit.conj_disj_distrib2)
  assume "m AND 0x1FF = 0"
  then have "(m OR ?w) AND 0x1FF = ?w" using w by (simp only: bit.conj_disj_distrib2 or.left_neutral)
  moreover have "unat ?w = BUFFER_SIZE - n" by (simp add: unat_of_nat take_bit_nat_eq_self)
  ultimately show "BUFFER_SIZE - unat ((m OR ?w) AND 0x1FF) = n" using assms(2) by simp
qed

lemma sim_wire: "wire_law sim_bus sim_sent"
  using usbdat_addr usbmode_parts(1)
  by (auto simp: wire_law_def sim_bus_def sim_tick_def Let_def simp del: of_nat_diff)

lemma sim_input: "input_law sim_bus sim_in sim_fpga"
  using usbdat_addr usbmode_parts
  by (auto simp: input_law_def sim_bus_def sim_tick_def simp del: of_nat_diff dest!: in_rom_below split: ed_read.split)

lemma sim_in_time: "answers_in_time sim_bus sim_now 1"
proof -
  have dec: "unat (w - 1) = unat w - 1" if "w \<noteq> 0" for w :: "5 word"
    using that by (simp add: unat_minus_one)
  have le: "unat w \<le> 31" for w :: "5 word" using unsigned_less [of w, where 'a = nat] by simp
  have "prompt_law sim_bus sim_now (\<lambda>h. sim_now h + unat (sim_wait h)) 31"
    using le by (auto simp: prompt_law_def sim_bus_def sim_tick_def dec unat_gt_0 split: ed_read.split)
  then show ?thesis unfolding answers_in_time_def by (rule_tac exI conjI | assumption | simp add: sim_bus_def)+
qed

lemma timed_waits_end_witness:
  "\<exists>late s'. usb_everdrive_usbbusy sim_bus (sim_start CartEverDrive []) = Some (late, s')"
  using timed_waits_end [OF sim_clock, of "sim_start CartEverDrive []"] by blast

lemma usb_everdrive_write_frames_witness:
  "\<exists>r s'. usb_everdrive_write sim_bus 2 [1, 2, 3] (sim_start CartEverDrive []) = Some (r, s') \<and>
    (r = 1 \<and> (\<exists>pad. length pad = 1 \<and> sim_sent (us_hw s') =
       str_bytes ''DMA@'' @ [2, 0, 0, 3, 1, 2, 3] @ str_bytes ''CMPH'' @ pad) \<or> r = -1)"
  using usb_everdrive_write_frames [OF sim_clock sim_wire, of "sim_start CartEverDrive []" "[1, 2, 3]" 2]
  by (auto simp: sim_start_def everdrive_frame_def)

lemma drivers_place_the_message_witness:
  "mem_bytes sim_mem (us_hw (d64_copy_loop sim_bus 0x13800000 [7, 8, 9] (sim_start Cart64Drive []))) 0x13800000 3 = [7, 8, 9]"
proof -
  have l: "length [7, 8, 9 :: byte] = 3" by simp
  have "length (us_buffer (sim_start Cart64Drive [])) = BUFFER_SIZE" "in_rom 0x13800000 (ALIGN (length [7, 8, 9 :: byte]) 4)"
    by (simp_all add: sim_start_def in_rom_def ALIGN_def)
  from drivers_place_the_message [OF sim_memory this] show ?thesis unfolding Let_def l by blast
qed

lemma usb_everdrive_poll_receives_witness:
  "\<exists>r s'. usb_everdrive_poll sim_bus (replicate 32 0) (sim_start CartEverDrive (everdrive_incoming 2 [1, 2, 3] [0] @ [])) =
     Some (r, s') \<and> \<not> us_didtimeout s' \<and> r = USBHEADER_CREATE 2 3"
  using usb_everdrive_poll_receives [OF sim_clock sim_input sim_memory,
    of "sim_start CartEverDrive (everdrive_incoming 2 [1, 2, 3] [0] @ [])" "replicate 32 0" 2 "[1, 2, 3]" "[0]" "[]"]
    sim_in_time
  by (auto simp: sim_start_def)

text \<open>A SummerCart64 that announces four bytes and then refuses to hand them over.\<close>

definition refusing_bus :: "u32 pi_bus" where
  "refusing_bus = \<lparr>
     pi_read = (\<lambda>a h. (if a = SC64_REG_SR_CMD then (if h = 0x6D then 0x40000000 else 0)
       else if a = SC64_REG_DATA_0 then 1 else 4, h)),
     pi_write = (\<lambda>a v h. if a = SC64_REG_SR_CMD then v else h),
     pi_dma_read = (\<lambda>a n h. (replicate n 0, h)), pi_dma_write = (\<lambda>bs a h. h),
     pi_count = (\<lambda>h. (0, h)), pi_cycles = (\<lambda>us. us)\<rparr>"

definition refusing_start :: "u32 usbc" where
  "refusing_start = \<lparr>us_cart = CartSC64, us_buffer = replicate BUFFER_SIZE 0, us_didtimeout = False,
     us_datatype = 0, us_datasize = 0, us_dataleft = 0, us_readblock = -1, d64_wasarmed = False,
     d64_extendedaddr = False, us_hw = 0\<rparr>"

lemma refusing_cmds:
  "usb_sc64_execute_cmd refusing_bus (CHR ''u'') None True s = Some (False, (1, 4), s\<lparr>us_hw := 0x75\<rparr>)"
  "usb_sc64_execute_cmd refusing_bus (CHR ''m'') (Some a) False s = Some (True, (0, 0), s\<lparr>us_hw := 0x6D\<rparr>)"
  by (cases a; simp add: usb_sc64_execute_cmd_def spin_until.simps usb_io_read_def usb_io_write_def
    refusing_bus_def of_char_def)+

lemma sc64_failed_read_leaves_message_witness:
  "usb_sc64_poll refusing_bus refusing_start = Some (0, refusing_start\<lparr>us_datatype := 1, us_dataleft := 4,
     us_datasize := 4, us_hw := 0x6D\<rparr>)"
  using sc64_failed_read_leaves_message [OF refusing_cmds(1) _ refusing_cmds(2), of refusing_start]
  by (simp add: refusing_start_def)

end
