(* ===== verification/NL_Usb.thy ===== *)
theory NL_Usb
  imports NL_Flashcart "HOL-Library.Signed_Division"
begin

text \<open>
  The generic layer of \<^verbatim>\<open>usb.c\<close>, over the drivers of \<open>NL_Flashcart\<close>. Its functions have the
  names of the code with \<open>_hw\<close> where \<open>NL_N64\<close> has a simpler one of that name.
\<close>

section \<open>Operations\<close>

text \<open>
  The calls through the function pointers. \<open>buff0\<close> is the uninitialised buffer of the EverDrive's
  poll.
\<close>

definition funcPointer_write :: "'h pi_bus \<Rightarrow> int \<Rightarrow> byte list \<Rightarrow> 'h usbc \<Rightarrow> (int \<times> 'h usbc) option" where
  "funcPointer_write pi datatype data s = (case us_cart s of
     NoCart \<Rightarrow> None
   | Cart64Drive \<Rightarrow> usb_64drive_write pi datatype data s
   | CartEverDrive \<Rightarrow> usb_everdrive_write pi datatype data s
   | CartSC64 \<Rightarrow> usb_sc64_write pi datatype data s)"

definition funcPointer_poll :: "'h pi_bus \<Rightarrow> byte list \<Rightarrow> 'h usbc \<Rightarrow> (u32 \<times> 'h usbc) option" where
  "funcPointer_poll pi buff0 s = (case us_cart s of
     NoCart \<Rightarrow> None
   | Cart64Drive \<Rightarrow> usb_64drive_poll pi s
   | CartEverDrive \<Rightarrow> usb_everdrive_poll pi buff0 s
   | CartSC64 \<Rightarrow> usb_sc64_poll pi s)"

definition usb_write_hw :: "'h pi_bus \<Rightarrow> int \<Rightarrow> byte list \<Rightarrow> 'h usbc \<Rightarrow> (int \<times> 'h usbc) option" where
  "usb_write_hw pi datatype data s =
     (if us_cart s = NoCart then Some (0, s)
      else if us_dataleft s \<noteq> 0 then Some (0, s)
      else funcPointer_write pi datatype data s)"

definition usb_poll_hw :: "'h pi_bus \<Rightarrow> byte list \<Rightarrow> 'h usbc \<Rightarrow> (u32 \<times> 'h usbc) option" where
  "usb_poll_hw pi buff0 s =
     (if us_cart s = NoCart then Some (0, s)
      else let s = (if us_dataleft s \<le> 0
                    then s\<lparr>us_dataleft := 0, us_datatype := 0, us_datasize := 0, us_readblock := -1\<rparr> else s)
        in if us_dataleft s \<noteq> 0 then Some (USBHEADER_CREATE (us_datatype s) (us_dataleft s), s)
           else funcPointer_poll pi buff0 s)"

text \<open>
  The loop of \<open>usb_read\<close> and the bytes it appends to what was read. A block of negative size, which
  \<open>memcpy\<close> takes for a huge one, is \<open>None\<close>; it needs a negative \<open>us_dataleft\<close>.
\<close>

partial_function (option) usb_read_loop ::
    "'h pi_bus \<Rightarrow> int \<Rightarrow> int \<Rightarrow> int \<Rightarrow> int \<Rightarrow> byte list \<Rightarrow> 'h usbc \<Rightarrow> (byte list \<times> 'h usbc) option" where
  "usb_read_loop pi left copystart block blockoffset out s =
     (if left \<le> 0 then Some (out, s)
      else let left = (if us_dataleft s < left then us_dataleft s else left);
               block = (if left < block then left else block);
               s = (if us_readblock s \<noteq> blockoffset then read_block pi (s\<lparr>us_readblock := blockoffset\<rparr>) else s)
           in if block < 0 then None
              else usb_read_loop pi (left - block) 0 (int BUFFER_SIZE) (blockoffset + int BUFFER_SIZE)
                (out @ take (nat block) (drop (nat copystart) (us_buffer s)))
                (s\<lparr>us_dataleft := us_dataleft s - block\<rparr>))"

text \<open>The bytes copied to the caller's buffer; \<open>/\<close> and \<open>%\<close> are those of C.\<close>

definition usb_read_hw :: "'h pi_bus \<Rightarrow> int \<Rightarrow> 'h usbc \<Rightarrow> (byte list \<times> 'h usbc) option" where
  "usb_read_hw pi nbytes s =
     (let off = us_datasize s - us_dataleft s;
          copystart = off smod int BUFFER_SIZE;
          block = int BUFFER_SIZE - copystart;
          blockoffset = (off sdiv int BUFFER_SIZE) * int BUFFER_SIZE
      in if us_cart s = NoCart then Some ([], s)
      else if us_dataleft s = 0 then Some ([], s)
      else do {
        (out, s) \<leftarrow> usb_read_loop pi nbytes copystart block blockoffset [] s;
        if us_dataleft s = 0 \<and> us_cart s = Cart64Drive
        then map_option (\<lambda>(_, s). (out, s)) (usb_64drive_poll pi s)
        else Some (out, s) })"

definition usb_skip_hw :: "'h pi_bus \<Rightarrow> int \<Rightarrow> 'h usbc \<Rightarrow> 'h usbc option" where
  "usb_skip_hw pi nbytes s =
     (let s = s\<lparr>us_dataleft := us_dataleft s - nbytes\<rparr>
      in if us_dataleft s < 0
         then let s = s\<lparr>us_dataleft := 0\<rparr>
           in if us_cart s = Cart64Drive then map_option snd (usb_64drive_poll pi s) else Some s
         else Some s)"

definition usb_rewind :: "int \<Rightarrow> 'h usbc \<Rightarrow> 'h usbc" where
  "usb_rewind nbytes s =
     (let s = s\<lparr>us_dataleft := us_dataleft s + nbytes\<rparr>
      in if us_datasize s < us_dataleft s then s\<lparr>us_dataleft := us_datasize s\<rparr> else s)"

definition usb_purge_hw :: "'h pi_bus \<Rightarrow> 'h usbc \<Rightarrow> 'h usbc option" where
  "usb_purge_hw pi s =
     (let s = s\<lparr>us_dataleft := 0, us_datatype := 0, us_datasize := 0, us_readblock := -1\<rparr>
      in if us_cart s = Cart64Drive then map_option snd (usb_64drive_poll pi s) else Some s)"

definition usb_timedout_hw :: "'h usbc \<Rightarrow> bool" where
  "usb_timedout_hw s = us_didtimeout s"

text \<open>\<open>USBPROTOCOL_VERSION\<close> is 2, \<open>HEARTBEAT_VERSION\<close> 1.\<close>

definition usb_sendheartbeat :: "'h pi_bus \<Rightarrow> 'h usbc \<Rightarrow> 'h usbc option" where
  "usb_sendheartbeat pi s = map_option snd (usb_write_hw pi 0x05 [0, 2, 0, 1] s)"

text \<open>\<open>CHECK_EMULATOR\<close> is 0.\<close>

definition usb_findcart :: "'h pi_bus \<Rightarrow> 'h usbc \<Rightarrow> 'h usbc" where
  "usb_findcart pi s =
     (case usb_io_read pi (D64_REG_MAGIC s) s of (buff, s) \<Rightarrow>
      if buff = D64_MAGIC then s\<lparr>us_cart := Cart64Drive\<rparr> else
      case usb_io_read pi ED_REG_VERSION (usb_io_write pi ED_REG_KEY 0xAA55 s) of (buff, s) \<Rightarrow>
      if buff = ED25_VERSION then s
      else if buff = EDX_VERSION \<or> buff = ED3_VERSION then
        (case usb_io_read pi ED_REG_USBCFG
                (usb_io_write pi ED_REG_USBCFG 0xC400 (usb_io_write pi ED_REG_SYSCFG 0 s)) of (buff, s) \<Rightarrow>
           if buff AND ED_USBSTAT_POWER = 0 then s else s\<lparr>us_cart := CartEverDrive\<rparr>)
      else
      let s = usb_io_write pi SC64_REG_KEY 0x4F434B5F (usb_io_write pi SC64_REG_KEY 0x5F554E4C
                (usb_io_write pi SC64_REG_KEY 0 s))
      in case usb_io_read pi SC64_REG_IDENTIFIER s of (buff, s) \<Rightarrow>
         if buff = SC64_V2_IDENTIFIER then s\<lparr>us_cart := CartSC64\<rparr> else s)"

definition usb_initialize :: "'h pi_bus \<Rightarrow> 'h usbc \<Rightarrow> (bool \<times> 'h usbc) option" where
  "usb_initialize pi s =
     (let s = usb_findcart pi (s\<lparr>us_buffer := replicate BUFFER_SIZE 0\<rparr>)
      in if us_cart s = NoCart then Some (False, s)
         else map_option (\<lambda>s. (True, s)) (usb_sendheartbeat pi s))"

section \<open>Reading a message\<close>

text \<open>
  The library as \<open>NL_N64\<close> sees it: the current message is what the cartridge's memory holds from
  the base address on.
\<close>

definition usb_view :: "('h \<Rightarrow> u32 \<Rightarrow> byte) \<Rightarrow> 'h usbc \<Rightarrow> usb \<Rightarrow> bool" where
  "usb_view mem s u \<longleftrightarrow>
     (usb_cart u = CART_NONE \<longleftrightarrow> us_cart s = NoCart) \<and> usb_datatype u = of_int (us_datatype s) \<and>
     int (usb_datasize u) = us_datasize s \<and> int (usb_dataleft u) = us_dataleft s \<and>
     usb_msg u = mem_bytes mem (us_hw s) (CART_BASE + usb_getaddr s) (usb_datasize u) \<and>
     usb_didtimeout u = us_didtimeout s"

text \<open>The invariant of the reads: the buffer holds the block \<open>us_readblock\<close> says it holds.\<close>

definition usb_cached :: "('h \<Rightarrow> u32 \<Rightarrow> byte) \<Rightarrow> 'h usbc \<Rightarrow> bool" where
  "usb_cached mem s \<longleftrightarrow> length (us_buffer s) = BUFFER_SIZE \<and> \<not> d64_extendedaddr s \<and>
     0 \<le> us_dataleft s \<and> us_dataleft s \<le> us_datasize s \<and> us_datasize s < 2 ^ 24 \<and>
     (us_readblock s = -1 \<or>
      us_buffer s = mem_bytes mem (us_hw s) (CART_BASE + usb_getaddr s + of_int (us_readblock s)) BUFFER_SIZE)"

definition same_message :: "('h \<Rightarrow> u32 \<Rightarrow> byte) \<Rightarrow> 'h usbc \<Rightarrow> 'h usbc \<Rightarrow> bool" where
  "same_message mem s s' \<longleftrightarrow> us_cart s' = us_cart s \<and> us_datatype s' = us_datatype s \<and>
     us_datasize s' = us_datasize s \<and> us_didtimeout s' = us_didtimeout s \<and>
     d64_extendedaddr s' = d64_extendedaddr s \<and> d64_wasarmed s' = d64_wasarmed s \<and> mem (us_hw s') = mem (us_hw s)"

lemma same_messageD: "same_message mem s s' \<Longrightarrow> usb_getaddr s' = usb_getaddr s \<and> mem_bytes mem (us_hw s') = mem_bytes mem (us_hw s)"
  by (auto simp: same_message_def usb_getaddr_def mem_bytes_def fun_eq_iff)

lemma read_block_cached:
  assumes law: "memory_law pi mem" and c: "usb_cached mem s" and b: "int (BUFFER_SIZE * q) \<le> us_datasize s"
  defines "s' \<equiv> (if us_readblock s \<noteq> int (BUFFER_SIZE * q)
    then read_block pi (s\<lparr>us_readblock := int (BUFFER_SIZE * q)\<rparr>) else s)"
  shows "same_message mem s s'" "usb_cached mem s'" "us_dataleft s' = us_dataleft s"
    "us_buffer s' = mem_bytes mem (us_hw s) (CART_BASE + usb_getaddr s + of_nat (BUFFER_SIZE * q)) BUFFER_SIZE"
proof -
  let ?a = "CART_BASE + usb_getaddr s + of_nat (BUFFER_SIZE * q)"
  have ga: "usb_getaddr s = 0x03800000" using c by (simp add: usb_getaddr_def usb_cached_def)
  have rom: "in_rom ?a BUFFER_SIZE"
    using in_rom_add(2) [of "CART_BASE + usb_getaddr s" "BUFFER_SIZE * q + BUFFER_SIZE" "BUFFER_SIZE * q"] b c
    by (simp add: ga in_rom_def usb_cached_def)
  have "same_message mem s s' \<and> usb_cached mem s' \<and> us_dataleft s' = us_dataleft s \<and>
    us_buffer s' = mem_bytes mem (us_hw s) ?a BUFFER_SIZE"
  proof (cases "us_readblock s = int (BUFFER_SIZE * q)")
    case True
    then show ?thesis using c by (simp add: s'_def same_message_def usb_cached_def)
  next
    case False
    obtain bs h where r: "pi_dma_read pi ?a BUFFER_SIZE (us_hw s) = (bs, h)" by fastforce
    have law': "bs = mem_bytes mem (us_hw s) ?a BUFFER_SIZE" "mem h = mem (us_hw s)"
      using law rom r unfolding memory_law_def by (metis fst_conv snd_conv)+
    have s': "s' = s\<lparr>us_readblock := int (BUFFER_SIZE * q), us_hw := h, us_buffer := copy_in 0 bs (us_buffer s)\<rparr>"
      using False r by (simp add: s'_def read_block_def usb_dma_read_def usb_getaddr_def)
    have "copy_in 0 bs (us_buffer s) = bs" using c by (simp add: copy_in_def law'(1) usb_cached_def)
    then show ?thesis using c law' mem_bytes_cong [of mem h "us_hw s"]
      by (simp add: s' same_message_def usb_cached_def usb_getaddr_def)
  qed
  then show "same_message mem s s'" "usb_cached mem s'" "us_dataleft s' = us_dataleft s"
    "us_buffer s' = mem_bytes mem (us_hw s) ?a BUFFER_SIZE" by blast+
qed

lemma same_message_trans:
  "same_message mem s t \<Longrightarrow> same_message mem t u \<Longrightarrow> same_message mem s u"
  by (simp add: same_message_def)

lemma usb_read_loop_reads:
  assumes law: "memory_law pi mem"
  shows "usb_cached mem s \<Longrightarrow> us_datasize s - us_dataleft s = int (BUFFER_SIZE * q + cs) \<Longrightarrow> cs < BUFFER_SIZE \<Longrightarrow>
    \<exists>s'. usb_read_loop pi left (int cs) (int BUFFER_SIZE - int cs) (int (BUFFER_SIZE * q)) out s =
        Some (out @ mem_bytes mem (us_hw s) (CART_BASE + usb_getaddr s + of_nat (BUFFER_SIZE * q + cs))
                (nat (min left (us_dataleft s))), s') \<and>
      same_message mem s s' \<and> usb_cached mem s' \<and>
      us_dataleft s' = us_dataleft s - max 0 (min left (us_dataleft s))"
proof (induction "nat left" arbitrary: left q cs out s rule: less_induct)
  case less
  show ?case
  proof (cases "left \<le> 0")
    case True
    then show ?thesis using less.prems
      by (simp add: usb_read_loop.simps same_message_def usb_cached_def max_def min_def)
  next
    case False
    define l where "l = min left (us_dataleft s)"
    define block where "block = min l (int BUFFER_SIZE - int cs)"
    define s1 where "s1 = (if us_readblock s \<noteq> int (BUFFER_SIZE * q)
      then read_block pi (s\<lparr>us_readblock := int (BUFFER_SIZE * q)\<rparr>) else s)"
    define s2 where "s2 = s1\<lparr>us_dataleft := us_dataleft s1 - block\<rparr>"
    have dl: "0 \<le> us_dataleft s" "us_dataleft s \<le> us_datasize s" using less.prems(1) by (auto simp: usb_cached_def)
    have b: "0 \<le> block" "block \<le> l" "l \<le> us_dataleft s" "0 \<le> l"
      using False dl less.prems(3) by (auto simp: block_def l_def)
    have bb: "int (BUFFER_SIZE * q) \<le> us_datasize s" using less.prems(2) dl by simp
    note s1 = read_block_cached [OF law less.prems(1) bb, folded s1_def]
    let ?a = "CART_BASE + usb_getaddr s + of_nat (BUFFER_SIZE * q)"
    have bs: "take (nat block) (drop (nat (int cs)) (us_buffer s1)) = mem_bytes mem (us_hw s) (?a + of_nat cs) (nat block)"
      unfolding s1(4) using less.prems(3) b by (simp add: block_def mem_bytes_sub)
    have u: "usb_read_loop pi left (int cs) (int BUFFER_SIZE - int cs) (int (BUFFER_SIZE * q)) out s =
        usb_read_loop pi (l - block) 0 (int BUFFER_SIZE) (int (BUFFER_SIZE * q) + int BUFFER_SIZE)
          (out @ mem_bytes mem (us_hw s) (?a + of_nat cs) (nat block)) s2"
    proof -
      have m: "(if us_dataleft s < left then us_dataleft s else left) = l"
        "(if l < int BUFFER_SIZE - int cs then l else int BUFFER_SIZE - int cs) = block"
        by (auto simp: l_def block_def)
      have "\<not> left \<le> 0" "\<not> block < 0" using False b by auto
      then show ?thesis
        by (subst usb_read_loop.simps) (simp only: Let_def m if_False s1_def [symmetric] bs s2_def)
    qed
    have s2: "same_message mem s s2" "us_dataleft s2 = us_dataleft s - block" "usb_cached mem s2"
      using s1(1-3) b dl by (auto simp: s2_def same_message_def usb_cached_def usb_getaddr_def)
    show ?thesis
    proof (cases "block = l")
      case True
      then have "usb_read_loop pi (l - block) 0 (int BUFFER_SIZE) (int (BUFFER_SIZE * q) + int BUFFER_SIZE)
          (out @ mem_bytes mem (us_hw s) (?a + of_nat cs) (nat block)) s2 =
          Some (out @ mem_bytes mem (us_hw s) (?a + of_nat cs) (nat block), s2)"
        by (simp add: usb_read_loop.simps)
      then show ?thesis using s2 b True unfolding u by (simp add: l_def [symmetric] add.assoc)
    next
      case False': False
      then have bl: "block = int BUFFER_SIZE - int cs" "block < l" by (auto simp: block_def min_def split: if_splits)
      then have pos: "0 < block" using less.prems(3) by simp
      have ds: "us_datasize s2 - us_dataleft s2 = int (BUFFER_SIZE * Suc q + 0)"
        using s2(1,2) less.prems(2) bl(1) by (simp add: same_message_def)
      have lt: "nat (l - block) < nat left" using pos b False by (simp add: l_def)
      obtain s' where s': "usb_read_loop pi (l - block) (int 0) (int BUFFER_SIZE - int 0) (int (BUFFER_SIZE * Suc q))
          (out @ mem_bytes mem (us_hw s) (?a + of_nat cs) (nat block)) s2 =
          Some ((out @ mem_bytes mem (us_hw s) (?a + of_nat cs) (nat block)) @
             mem_bytes mem (us_hw s2) (CART_BASE + usb_getaddr s2 + of_nat (BUFFER_SIZE * Suc q + 0))
                (nat (min (l - block) (us_dataleft s2))), s')"
        "same_message mem s2 s'" "usb_cached mem s'"
        "us_dataleft s' = us_dataleft s2 - max 0 (min (l - block) (us_dataleft s2))"
        using less.hyps [OF lt s2(3) ds, of "out @ mem_bytes mem (us_hw s) (?a + of_nat cs) (nat block)"]
        by (metis zero_less_numeral)
      have m: "min (l - block) (us_dataleft s2) = l - block" using s2(2) b(3) by simp
      have n: "nat l = nat block + nat (l - block)" using bl(2) b by simp
      have w: "of_nat (BUFFER_SIZE * Suc q + 0) = of_nat (BUFFER_SIZE * q) + of_nat cs + (of_nat (nat block) :: u32)"
        using bl(1) less.prems(3) by (simp add: of_nat_diff nat_diff_distrib')
      have "mem_bytes mem (us_hw s) (?a + of_nat cs) (nat l) =
          mem_bytes mem (us_hw s) (?a + of_nat cs) (nat block) @
          mem_bytes mem (us_hw s2) (CART_BASE + usb_getaddr s2 + of_nat (BUFFER_SIZE * Suc q + 0)) (nat (l - block))"
        unfolding n mem_bytes_append w using same_messageD [OF s2(1)] by (simp add: add.assoc)
      then have "usb_read_loop pi left (int cs) (int BUFFER_SIZE - int cs) (int (BUFFER_SIZE * q)) out s =
          Some (out @ mem_bytes mem (us_hw s) (?a + of_nat cs) (nat l), s')"
        using s'(1) unfolding u m by (simp add: algebra_simps)
      then show ?thesis using same_message_trans [OF s2(1) s'(2)] s'(3,4) s2(2) b bl(2) m
        by (auto simp: l_def [symmetric] add.assoc)
    qed
  qed
qed

lemma usb_read_hw_reads:
  assumes law: "memory_law pi mem" and c: "usb_cached mem s" and cart: "us_cart s \<noteq> NoCart"
    and no_repoll: "us_cart s \<noteq> Cart64Drive \<or> nbytes < us_dataleft s"
  shows "\<exists>s'. usb_read_hw pi nbytes s = Some (mem_bytes mem (us_hw s)
          (CART_BASE + usb_getaddr s + of_nat (nat (us_datasize s - us_dataleft s))) (nat (min nbytes (us_dataleft s))), s') \<and>
      same_message mem s s' \<and> usb_cached mem s' \<and>
      us_dataleft s' = us_dataleft s - max 0 (min nbytes (us_dataleft s))"
proof (cases "us_dataleft s = 0")
  case True
  then have "usb_read_hw pi nbytes s = Some ([], s)" by (simp add: usb_read_hw_def Let_def)
  then show ?thesis using True c by (simp add: same_message_def)
next
  case False
  define k where "k = nat (us_datasize s - us_dataleft s)"
  have dl: "0 < us_dataleft s" "us_dataleft s \<le> us_datasize s" using c False by (auto simp: usb_cached_def)
  have k: "us_datasize s - us_dataleft s = int k" using dl by (simp add: k_def)
  have q: "int k smod 512 = int (k mod BUFFER_SIZE)" "int k sdiv 512 = int (k div BUFFER_SIZE)"
    by (cases k; simp add: signed_divide_int_def signed_modulo_int_def zdiv_int zmod_int)+
  have e: "us_datasize s - us_dataleft s = int (BUFFER_SIZE * (k div BUFFER_SIZE) + k mod BUFFER_SIZE)"
    unfolding k by simp
  have cs: "k mod BUFFER_SIZE < BUFFER_SIZE" by simp
  obtain s' where s': "usb_read_loop pi nbytes (int (k mod BUFFER_SIZE)) (int BUFFER_SIZE - int (k mod BUFFER_SIZE))
        (int (BUFFER_SIZE * (k div BUFFER_SIZE))) [] s =
      Some ([] @ mem_bytes mem (us_hw s) (CART_BASE + usb_getaddr s + of_nat (BUFFER_SIZE * (k div BUFFER_SIZE) + k mod BUFFER_SIZE))
                (nat (min nbytes (us_dataleft s))), s')"
      "same_message mem s s'" "usb_cached mem s'"
      "us_dataleft s' = us_dataleft s - max 0 (min nbytes (us_dataleft s))"
    using usb_read_loop_reads [OF law c e cs, of nbytes "[]"] by blast
  have nr: "\<not> (us_dataleft s' = 0 \<and> us_cart s' = Cart64Drive)"
    using no_repoll s'(2,4) dl by (auto simp: same_message_def max_def min_def)
  show ?thesis using s' cart False nr
    by (auto simp add: usb_read_hw_def Let_def k q mult.commute [of "int (k div BUFFER_SIZE)"] k_def [symmetric]
        del: of_nat_mod of_nat_div zmod_int zdiv_int)
qed

text \<open>C22: 
  \<open>usb_read\<close> with its block buffer, its alignment and its offset into the cartridge's memory refines
  the generic layer that \<^verbatim>\<open>netlib.c\<close> is modelled over: it takes the same bytes off the message and
  leaves the same rest. The exception is the 64Drive, which polls again when the message is used up.
\<close>

theorem usb_read_refines:
  assumes law: "memory_law pi mem" and s: "usb_cached mem s" "usb_view mem s u"
    and no_repoll: "us_cart s \<noteq> Cart64Drive \<or> nbytes < us_dataleft s"
  shows "\<exists>s'. usb_read_hw pi nbytes s = Some (fst (usb_read (nat nbytes) u), s') \<and>
    usb_view mem s' (snd (usb_read (nat nbytes) u)) \<and> usb_cached mem s'"
proof (cases "us_cart s = NoCart")
  case True
  then show ?thesis using s by (simp add: usb_read_hw_def Let_def usb_view_def usb_read_def)
next
  case False
  obtain s' where s': "usb_read_hw pi nbytes s = Some (mem_bytes mem (us_hw s)
          (CART_BASE + usb_getaddr s + of_nat (nat (us_datasize s - us_dataleft s))) (nat (min nbytes (us_dataleft s))), s')"
      "same_message mem s s'" "usb_cached mem s'"
      "us_dataleft s' = us_dataleft s - max 0 (min nbytes (us_dataleft s))"
    using usb_read_hw_reads [OF law s(1) False no_repoll] by blast
  have v: "us_dataleft s = int (usb_dataleft u)" "us_datasize s = int (usb_datasize u)" "usb_cart u \<noteq> CART_NONE"
    "usb_dataleft u \<le> usb_datasize u"
    "usb_msg u = mem_bytes mem (us_hw s) (CART_BASE + usb_getaddr s) (usb_datasize u)"
    using s False by (auto simp: usb_view_def usb_cached_def)
  let ?n = "min (nat nbytes) (usb_dataleft u)"
  have n: "nat (min nbytes (us_dataleft s)) = ?n" by (simp add: v(1) min_def nat_le_iff)
  have "fst (usb_read (nat nbytes) u) = mem_bytes mem (us_hw s)
      (CART_BASE + usb_getaddr s + of_nat (usb_datasize u - usb_dataleft u)) ?n"
    using v(3-5) by (auto simp: usb_read_def Let_def mem_bytes_sub)
  moreover have "nat (us_datasize s - us_dataleft s) = usb_datasize u - usb_dataleft u"
    using v(1,2,4) by simp
  ultimately have out: "usb_read_hw pi nbytes s = Some (fst (usb_read (nat nbytes) u), s')" using s'(1) n by simp
  have "snd (usb_read (nat nbytes) u) = u\<lparr>usb_dataleft := usb_dataleft u - ?n\<rparr>"
    using v(3) by (auto simp: usb_read_def Let_def)
  moreover have "int (usb_dataleft u - ?n) = us_dataleft s'"
    using s'(4) v(1) by (auto simp: max_def min_def of_nat_diff)
  ultimately have "usb_view mem s' (snd (usb_read (nat nbytes) u))"
    using s(2) s'(2) same_messageD [OF s'(2)] by (simp add: usb_view_def same_message_def)
  with out s'(3) show ?thesis by blast
qed

text \<open>C3: 
  A frame on the EverDrive's line that holds a message is found by \<open>usb_poll\<close>, which returns its type
  and size in one word, and \<open>usb_read\<close> gives exactly its data, unless a wait times out; with an
  EverDrive that answers in time no wait does. The hardware hands over bytes only to a program that
  asks for them and waits (\<open>input_law\<close>).
\<close>

theorem everdrive_message_is_read:
  assumes clock: "clock_law pi now D" "pi_cycles pi 100000 + 3 * D < 2 ^ 32"
    and laws: "input_law pi inp fpga" "memory_law pi mem"
    and s: "\<not> us_didtimeout s" "length (us_buffer s) = BUFFER_SIZE" "us_cart s = CartEverDrive" "us_dataleft s = 0"
      "\<not> d64_extendedaddr s" "8 \<le> length buff0"
    and input: "inp (us_hw s) = everdrive_incoming ty data pad @ rest" "length data < 2 ^ 24"
      "length pad = length data mod 2"
  shows "\<exists>r s1. usb_poll_hw pi buff0 s = Some (r, s1) \<and>
    (us_didtimeout s1 \<or> r = USBHEADER_CREATE (uint ty) (int (length data)) \<and>
      (\<exists>s2. usb_read_hw pi (int (length data)) s1 = Some (data, s2) \<and> us_dataleft s2 = 0 \<and>
         us_datatype s2 = uint ty)) \<and>
    (answers_in_time pi now D \<longrightarrow> \<not> us_didtimeout s1)"
proof -
  let ?s = "s\<lparr>us_dataleft := 0, us_datatype := 0, us_datasize := 0, us_readblock := -1\<rparr>"
  have u: "usb_poll_hw pi buff0 s = usb_everdrive_poll pi buff0 ?s"
    using s(3,4) by (simp add: usb_poll_hw_def funcPointer_poll_def)
  obtain r s1 where r: "usb_everdrive_poll pi buff0 ?s = Some (r, s1)"
    "us_didtimeout s1 \<or> r = USBHEADER_CREATE (uint ty) (int (length data)) \<and> us_datatype s1 = uint ty \<and>
     us_datasize s1 = int (length data) \<and> us_dataleft s1 = int (length data) \<and> us_readblock s1 = -1 \<and>
     us_cart s1 = CartEverDrive \<and> d64_extendedaddr s1 = d64_extendedaddr s \<and>
     length (us_buffer s1) = BUFFER_SIZE \<and> mem_bytes mem (us_hw s1) (CART_BASE + usb_getaddr s1) (length data) = data"
    "answers_in_time pi now D \<longrightarrow> \<not> us_didtimeout s1"
    using usb_everdrive_poll_receives [OF clock laws, of ?s buff0 ty data pad rest] s input by auto
  show ?thesis
  proof (cases "us_didtimeout s1")
    case True
    then show ?thesis using u r(1,3) by auto
  next
    case False
    with r(2) have ok: "r = USBHEADER_CREATE (uint ty) (int (length data))" "us_datatype s1 = uint ty"
     "us_datasize s1 = int (length data)" "us_dataleft s1 = int (length data)" "us_readblock s1 = -1"
     "us_cart s1 = CartEverDrive" "\<not> d64_extendedaddr s1" "length (us_buffer s1) = BUFFER_SIZE"
     "mem_bytes mem (us_hw s1) (CART_BASE + usb_getaddr s1) (length data) = data" using s(5) by auto
    then have "usb_cached mem s1" using input(2) by (simp add: usb_cached_def)
    from usb_read_hw_reads [OF laws(2) this, of "int (length data)"] ok
    obtain s2 where "usb_read_hw pi (int (length data)) s1 = Some (data, s2)" "us_dataleft s2 = 0" "us_datatype s2 = uint ty"
      by (auto simp: same_message_def)
    then show ?thesis using u r(1) ok(1) False by auto
  qed
qed

section \<open>Witnesses\<close>

definition sim_message :: "nat \<Rightarrow> cart_sim usbc" where
  "sim_message left = (sim_start CartSC64 [])\<lparr>us_datatype := 2, us_datasize := 1000, us_dataleft := int left\<rparr>"

definition sim_usb :: "nat \<Rightarrow> usb" where
  "sim_usb left = \<lparr>usb_cart = 3, usb_datatype = 2, usb_datasize = 1000, usb_dataleft = left,
     usb_msg = mem_bytes sim_mem (us_hw (sim_message left)) 0x13800000 1000, usb_waiting = [], usb_written = [],
     usb_driver = (\<lambda>_ _. (1, False)), usb_didtimeout = False\<rparr>"

lemma usb_read_refines_witness:
  "\<exists>s'. usb_read_hw sim_bus 20 (sim_message 500) = Some (fst (usb_read 20 (sim_usb 500)), s') \<and>
    usb_view sim_mem s' (snd (usb_read 20 (sim_usb 500)))"
proof -
  have "usb_cached sim_mem (sim_message 500)" by (simp add: usb_cached_def sim_message_def sim_start_def)
  moreover have "usb_view sim_mem (sim_message 500) (sim_usb 500)"
    by (simp add: usb_view_def sim_message_def sim_usb_def sim_start_def usb_getaddr_def CART_NONE_def)
  moreover have "us_cart (sim_message 500) \<noteq> Cart64Drive \<or> 20 < us_dataleft (sim_message 500)"
    by (simp add: sim_message_def)
  ultimately show ?thesis using usb_read_refines [OF sim_memory, of "sim_message 500" "sim_usb 500" 20] by auto
qed

lemma everdrive_message_is_read_witness:
  "\<exists>r s1. usb_poll_hw sim_bus (replicate 32 0) (sim_start CartEverDrive (everdrive_incoming 2 [1, 2, 3] [0] @ [])) =
     Some (r, s1) \<and> \<not> us_didtimeout s1 \<and> r = USBHEADER_CREATE 2 3 \<and>
     (\<exists>s2. usb_read_hw sim_bus 3 s1 = Some ([1, 2, 3], s2))"
  using everdrive_message_is_read [OF sim_clock sim_input sim_memory,
    of "sim_start CartEverDrive (everdrive_incoming 2 [1, 2, 3] [0] @ [])" "replicate 32 0" 2 "[1, 2, 3]" "[0]" "[]"]
    sim_in_time
  by (auto simp: sim_start_def)

end
