(* ===== verification/NL_Lists.thy ===== *)
theory NL_Lists
  imports NL_Prelude "HOL-Library.Monad_Syntax" "HOL-Library.Signed_Division"
begin

text \<open>
  The containers of the example games (\<^verbatim>\<open>datastructs.c\<close>): singly linked lists, dictionaries and
  hash tables, over an explicit heap. The lemmas relate each operation to the list of the nodes
  that hang off the head, and say where an operation leaves a list that is none.
\<close>

section \<open>The heap\<close>

text \<open>
  A pointer is an address or \<open>NULL\<close>. The structures and nodes are kept apart by type;
  \<open>hp_data\<close> are the blocks behind \<open>void*\<close> that are allocated. An operation is \<open>None\<close> when it goes
  through a pointer to nothing (\<open>NULL\<close> included), frees what is not allocated, or does not return.
\<close>

type_synonym ptr = "nat option"

record listNode =
  ln_data :: ptr
  ln_next :: ptr

record linkedList =
  ll_size :: int
  ll_head :: ptr
  ll_tail :: ptr

record dictNode =
  dn_key :: int
  dn_value :: ptr
  dn_next :: ptr

record heap =
  hp_nodes :: "nat \<rightharpoonup> listNode"
  hp_lists :: "nat \<rightharpoonup> linkedList"
  hp_dnodes :: "nat \<rightharpoonup> dictNode"
  hp_dicts :: "nat \<rightharpoonup> linkedList"
  hp_data :: "nat set"

definition EMPTY_LINKEDLIST :: linkedList where
  "EMPTY_LINKEDLIST = \<lparr>ll_size = 0, ll_head = None, ll_tail = None\<rparr>"

definition set_node :: "nat \<Rightarrow> listNode \<Rightarrow> 'a heap_scheme \<Rightarrow> 'a heap_scheme" where
  "set_node a n h = h\<lparr>hp_nodes := (hp_nodes h)(a \<mapsto> n)\<rparr>"

definition set_list :: "nat \<Rightarrow> linkedList \<Rightarrow> 'a heap_scheme \<Rightarrow> 'a heap_scheme" where
  "set_list l L h = h\<lparr>hp_lists := (hp_lists h)(l \<mapsto> L)\<rparr>"

definition set_dnode :: "nat \<Rightarrow> dictNode \<Rightarrow> 'a heap_scheme \<Rightarrow> 'a heap_scheme" where
  "set_dnode a n h = h\<lparr>hp_dnodes := (hp_dnodes h)(a \<mapsto> n)\<rparr>"

definition set_dict :: "nat \<Rightarrow> linkedList \<Rightarrow> 'a heap_scheme \<Rightarrow> 'a heap_scheme" where
  "set_dict l L h = h\<lparr>hp_dicts := (hp_dicts h)(l \<mapsto> L)\<rparr>"

text \<open>\<open>free\<close> of a node and of what a \<open>void*\<close> points to; \<open>free(NULL)\<close> does nothing.\<close>

definition free_node :: "ptr \<Rightarrow> 'a heap_scheme \<Rightarrow> 'a heap_scheme option" where
  "free_node p h = (case p of None \<Rightarrow> Some h
     | Some a \<Rightarrow> if hp_nodes h a = None then None else Some (h\<lparr>hp_nodes := (hp_nodes h)(a := None)\<rparr>))"

definition free_dnode :: "ptr \<Rightarrow> 'a heap_scheme \<Rightarrow> 'a heap_scheme option" where
  "free_dnode p h = (case p of None \<Rightarrow> Some h
     | Some a \<Rightarrow> if hp_dnodes h a = None then None else Some (h\<lparr>hp_dnodes := (hp_dnodes h)(a := None)\<rparr>))"

definition free_data :: "ptr \<Rightarrow> 'a heap_scheme \<Rightarrow> 'a heap_scheme option" where
  "free_data p h = (case p of None \<Rightarrow> Some h
     | Some a \<Rightarrow> if a \<in> hp_data h then Some (h\<lparr>hp_data := hp_data h - {a}\<rparr>) else None)"

section \<open>Linked lists\<close>

text \<open>
  \<open>alloc\<close> is \<open>calloc\<close>: the address it gives for the nodes allocated so far, \<open>None\<close> being \<open>NULL\<close>. Its
  law is that it gives no address twice.
\<close>

definition fresh_alloc :: "((nat \<rightharpoonup> 'n) \<Rightarrow> ptr) \<Rightarrow> bool" where
  "fresh_alloc alloc \<longleftrightarrow> (\<forall>N a. alloc N = Some a \<longrightarrow> N a = None)"

definition list_append ::
    "((nat \<rightharpoonup> listNode) \<Rightarrow> ptr) \<Rightarrow> ptr \<Rightarrow> ptr \<Rightarrow> 'a heap_scheme \<Rightarrow> (ptr \<times> 'a heap_scheme) option" where
  "list_append alloc list data h = do {
     a \<leftarrow> alloc (hp_nodes h);
     let h = set_node a \<lparr>ln_data = data, ln_next = None\<rparr> h;
     l \<leftarrow> list;
     L \<leftarrow> hp_lists h l;
     h \<leftarrow> (case ll_head L of
        None \<Rightarrow> Some (set_list l (L\<lparr>ll_head := Some a\<rparr>) h)
      | Some _ \<Rightarrow> do { t \<leftarrow> ll_tail L; n \<leftarrow> hp_nodes h t; Some (set_node t (n\<lparr>ln_next := Some a\<rparr>) h) });
     L \<leftarrow> hp_lists h l;
     Some (Some a, set_list l (L\<lparr>ll_tail := Some a, ll_size := ll_size L + 1\<rparr>) h) }"

definition list_combine :: "ptr \<Rightarrow> ptr \<Rightarrow> 'a heap_scheme \<Rightarrow> 'a heap_scheme option" where
  "list_combine dest list h =
     (if list = None \<or> dest = None \<or> dest = list then Some h
      else do {
        d \<leftarrow> dest; l \<leftarrow> list;
        D \<leftarrow> hp_lists h d; L \<leftarrow> hp_lists h l;
        h \<leftarrow> (case ll_head D of
           Some _ \<Rightarrow> do { t \<leftarrow> ll_tail D; n \<leftarrow> hp_nodes h t;
             Some (set_list d (D\<lparr>ll_tail := ll_tail L\<rparr>) (set_node t (n\<lparr>ln_next := ll_head L\<rparr>) h)) }
         | None \<Rightarrow> Some (set_list d (D\<lparr>ll_head := ll_head L, ll_tail := ll_tail L\<rparr>) h));
        D \<leftarrow> hp_lists h d;
        Some (set_list d (D\<lparr>ll_size := ll_size D + ll_size L\<rparr>) h) })"

text \<open>What \<open>list_remove\<close> does with the node \<open>a\<close> it found; \<open>lastnode\<close> is the one before it.\<close>

definition list_unlink :: "nat \<Rightarrow> ptr \<Rightarrow> nat \<Rightarrow> listNode \<Rightarrow> 'a heap_scheme \<Rightarrow> (ptr \<times> 'a heap_scheme) option" where
  "list_unlink l lastnode a n h = do {
     L \<leftarrow> hp_lists h l;
     h \<leftarrow> (if Some a = ll_head L then
            (let L' = L\<lparr>ll_head := ln_next n\<rparr>
             in Some (set_list l (if Some a = ll_tail L then L'\<lparr>ll_tail := None\<rparr> else L') h))
          else if Some a = ll_tail L then do {
            p \<leftarrow> lastnode; m \<leftarrow> hp_nodes h p;
            Some (set_list l (L\<lparr>ll_tail := lastnode\<rparr>) (set_node p (m\<lparr>ln_next := None\<rparr>) h)) }
          else do {
            p \<leftarrow> lastnode; m \<leftarrow> hp_nodes h p;
            Some (set_node p (m\<lparr>ln_next := ln_next n\<rparr>) h) });
     L \<leftarrow> hp_lists h l;
     Some (Some a, set_list l (L\<lparr>ll_size := ll_size L - 1\<rparr>) h) }"

partial_function (option) remove_loop ::
    "nat \<Rightarrow> ptr \<Rightarrow> 'a heap_scheme \<Rightarrow> ptr \<Rightarrow> ptr \<Rightarrow> (ptr \<times> 'a heap_scheme) option" where
  "remove_loop l data h lastnode thisnode =
     (case thisnode of None \<Rightarrow> Some (None, h)
      | Some a \<Rightarrow> Option.bind (hp_nodes h a) (\<lambda>n.
          if ln_data n = data then list_unlink l lastnode a n h
          else remove_loop l data h (Some a) (ln_next n)))"

definition list_remove :: "ptr \<Rightarrow> ptr \<Rightarrow> 'a heap_scheme \<Rightarrow> (ptr \<times> 'a heap_scheme) option" where
  "list_remove list data h = (case list of None \<Rightarrow> Some (None, h)
     | Some l \<Rightarrow> do { L \<leftarrow> hp_lists h l; remove_loop l data h None (ll_head L) })"

partial_function (option) destroy_loop :: "bool \<Rightarrow> ptr \<Rightarrow> 'a heap_scheme \<Rightarrow> 'a heap_scheme option" where
  "destroy_loop deep curnode h =
     (case curnode of None \<Rightarrow> Some h
      | Some a \<Rightarrow> Option.bind (hp_nodes h a) (\<lambda>n.
          Option.bind (if deep then free_data (ln_data n) h else Some h) (\<lambda>h.
          Option.bind (free_node (Some a) h) (\<lambda>h. destroy_loop deep (ln_next n) h))))"

definition list_destroy :: "ptr \<Rightarrow> 'a heap_scheme \<Rightarrow> 'a heap_scheme option" where
  "list_destroy list h = (case list of None \<Rightarrow> Some h
     | Some l \<Rightarrow> do { L \<leftarrow> hp_lists h l; h \<leftarrow> destroy_loop False (ll_head L) h;
         Some (set_list l EMPTY_LINKEDLIST h) })"

definition list_destroy_deep :: "ptr \<Rightarrow> 'a heap_scheme \<Rightarrow> 'a heap_scheme option" where
  "list_destroy_deep list h = (case list of None \<Rightarrow> Some h
     | Some l \<Rightarrow> do { L \<leftarrow> hp_lists h l; h \<leftarrow> destroy_loop True (ll_head L) h;
         Some (set_list l EMPTY_LINKEDLIST h) })"

fun index_loop :: "nat \<Rightarrow> ptr \<Rightarrow> 'a heap_scheme \<Rightarrow> ptr option" where
  "index_loop (Suc i) (Some a) h = do { n \<leftarrow> hp_nodes h a; index_loop i (ln_next n) h }"
| "index_loop _ curnode h = Some curnode"

definition list_node_from_index :: "ptr \<Rightarrow> int \<Rightarrow> 'a heap_scheme \<Rightarrow> ptr option" where
  "list_node_from_index list index h = do { l \<leftarrow> list; L \<leftarrow> hp_lists h l; index_loop (nat index) (ll_head L) h }"

text \<open>The search of \<open>list_swapindex_withlist\<close>: the node at the index and the one before it.\<close>

fun swap_find :: "nat \<Rightarrow> ptr \<Rightarrow> ptr \<Rightarrow> 'a heap_scheme \<Rightarrow> (ptr \<times> ptr) option" where
  "swap_find _ previous None h = Some (previous, None)"
| "swap_find 0 previous (Some a) h = Some (previous, Some a)"
| "swap_find (Suc i) previous (Some a) h = do { n \<leftarrow> hp_nodes h a; swap_find i (Some a) (ln_next n) h }"

definition list_swapindex_withlist :: "ptr \<Rightarrow> int \<Rightarrow> ptr \<Rightarrow> 'a heap_scheme \<Rightarrow> (ptr \<times> 'a heap_scheme) option" where
  "list_swapindex_withlist dest index list h =
     (if dest = None \<or> list = None \<or> index < 0 then Some (None, h) else do {
        d \<leftarrow> dest; l \<leftarrow> list;
        D \<leftarrow> hp_lists h d; L \<leftarrow> hp_lists h l;
        if ll_size D = 0 \<or> ll_size L = 0 then Some (None, h)
        else if index = 0 then do {
          t \<leftarrow> ll_tail L; n \<leftarrow> hp_nodes h t; a \<leftarrow> ll_head D; m \<leftarrow> hp_nodes h a;
          let h = set_node t (n\<lparr>ln_next := ln_next m\<rparr>) h;
          Some (ll_head L, set_list d (D\<lparr>ll_head := ll_head L, ll_size := ll_size D + (ll_size L - 1)\<rparr>) h) }
        else do {
          (previous, curnode) \<leftarrow> swap_find (nat index) None (ll_head D) h;
          case curnode of None \<Rightarrow> Some (None, h)
          | Some c \<Rightarrow> do {
              p \<leftarrow> previous; m \<leftarrow> hp_nodes h p;
              let h = set_node p (m\<lparr>ln_next := ll_head L\<rparr>) h;
              t \<leftarrow> ll_tail L; n \<leftarrow> hp_nodes h t; k \<leftarrow> hp_nodes h c;
              let h = set_node t (n\<lparr>ln_next := ln_next k\<rparr>) h;
              let D = D\<lparr>ll_size := ll_size D + (ll_size L - 1)\<rparr>;
              let D = (if ll_head D = Some c then D\<lparr>ll_head := ll_head L\<rparr> else D);
              let D = (if ll_tail D = Some c then D\<lparr>ll_tail := ll_tail L\<rparr> else D);
              Some (Some c, set_list d D h) } } })"

section \<open>Dictionaries and hash tables\<close>

text \<open>A \<open>Dictionary\<close> has the fields of a list.\<close>

definition dict_append ::
    "((nat \<rightharpoonup> dictNode) \<Rightarrow> ptr) \<Rightarrow> nat \<Rightarrow> int \<Rightarrow> ptr \<Rightarrow> 'a heap_scheme \<Rightarrow> (ptr \<times> 'a heap_scheme) option" where
  "dict_append alloc dict key val h = do {
     a \<leftarrow> alloc (hp_dnodes h);
     let h = set_dnode a \<lparr>dn_key = key, dn_value = val, dn_next = None\<rparr> h;
     L \<leftarrow> hp_dicts h dict;
     h \<leftarrow> (case ll_head L of
        None \<Rightarrow> Some (set_dict dict (L\<lparr>ll_head := Some a\<rparr>) h)
      | Some _ \<Rightarrow> do { t \<leftarrow> ll_tail L; n \<leftarrow> hp_dnodes h t; Some (set_dnode t (n\<lparr>dn_next := Some a\<rparr>) h) });
     L \<leftarrow> hp_dicts h dict;
     Some (Some a, set_dict dict (L\<lparr>ll_tail := Some a, ll_size := ll_size L + 1\<rparr>) h) }"

partial_function (option) get_loop :: "int \<Rightarrow> ptr \<Rightarrow> 'a heap_scheme \<Rightarrow> ptr option" where
  "get_loop key curnode h =
     (case curnode of None \<Rightarrow> Some None
      | Some a \<Rightarrow> Option.bind (hp_dnodes h a) (\<lambda>n.
          if dn_key n = key then Some (Some a) else get_loop key (dn_next n) h))"

definition dict_get :: "ptr \<Rightarrow> int \<Rightarrow> 'a heap_scheme \<Rightarrow> ptr option" where
  "dict_get dict key h = (case dict of None \<Rightarrow> Some None
     | Some d \<Rightarrow> do { L \<leftarrow> hp_dicts h d; get_loop key (ll_head L) h })"

partial_function (option) dict_destroy_loop :: "bool \<Rightarrow> ptr \<Rightarrow> 'a heap_scheme \<Rightarrow> 'a heap_scheme option" where
  "dict_destroy_loop deep curnode h =
     (case curnode of None \<Rightarrow> Some h
      | Some a \<Rightarrow> Option.bind (hp_dnodes h a) (\<lambda>n.
          Option.bind (if deep then free_data (dn_value n) h else Some h) (\<lambda>h.
          Option.bind (free_dnode (Some a) h) (\<lambda>h. dict_destroy_loop deep (dn_next n) h))))"

definition dict_destroy :: "bool \<Rightarrow> nat \<Rightarrow> 'a heap_scheme \<Rightarrow> 'a heap_scheme option" where
  "dict_destroy deep dict h = do { L \<leftarrow> hp_dicts h dict; h \<leftarrow> dict_destroy_loop deep (ll_head L) h;
     Some (set_dict dict EMPTY_LINKEDLIST h) }"

text \<open>
  A hash table: its size and the addresses of its 32 dictionaries. The remainder of a negative key
  is negative, and the index out of the table.
\<close>

abbreviation HASHTABLE_SIZE :: nat where "HASHTABLE_SIZE \<equiv> 32"

record hashTable =
  ht_size :: int
  ht_table :: "nat list"

definition htable_slot :: "hashTable \<Rightarrow> int \<Rightarrow> nat option" where
  "htable_slot t key = (let i = key smod int HASHTABLE_SIZE in if i < 0 then None else Some (ht_table t ! nat i))"

definition htable_append ::
    "((nat \<rightharpoonup> dictNode) \<Rightarrow> ptr) \<Rightarrow> hashTable \<Rightarrow> int \<Rightarrow> ptr \<Rightarrow> 'a heap_scheme \<Rightarrow>
      (ptr \<times> hashTable \<times> 'a heap_scheme) option" where
  "htable_append alloc t key val h = do {
     d \<leftarrow> htable_slot t key; (a, h) \<leftarrow> dict_append alloc d key val h;
     Some (a, t\<lparr>ht_size := ht_size t + 1\<rparr>, h) }"

definition htable_get :: "hashTable \<Rightarrow> int \<Rightarrow> 'a heap_scheme \<Rightarrow> ptr option" where
  "htable_get t key h = do { d \<leftarrow> htable_slot t key; dict_get (Some d) key h }"

fun htable_destroy_loop :: "bool \<Rightarrow> nat list \<Rightarrow> 'a heap_scheme \<Rightarrow> 'a heap_scheme option" where
  "htable_destroy_loop deep [] h = Some h"
| "htable_destroy_loop deep (d # ds) h = do { h \<leftarrow> dict_destroy deep d h; htable_destroy_loop deep ds h }"

definition htable_destroy :: "bool \<Rightarrow> hashTable \<Rightarrow> 'a heap_scheme \<Rightarrow> (hashTable \<times> 'a heap_scheme) option" where
  "htable_destroy deep t h = do { h \<leftarrow> htable_destroy_loop deep (ht_table t) h; Some (t\<lparr>ht_size := 0\<rparr>, h) }"

section \<open>Chains of nodes\<close>

text \<open>
  The nodes from a pointer on, and the list they make: its data, with head, tail and size as they
  ought to be.
\<close>

fun chain :: "(nat \<rightharpoonup> listNode) \<Rightarrow> ptr \<Rightarrow> nat list \<Rightarrow> bool" where
  "chain N p [] = (p = None)"
| "chain N p (a # as) = (p = Some a \<and> (case N a of None \<Rightarrow> False | Some n \<Rightarrow> chain N (ln_next n) as))"

definition data_of :: "(nat \<rightharpoonup> listNode) \<Rightarrow> nat list \<Rightarrow> ptr list" where
  "data_of N as = map (\<lambda>a. ln_data (the (N a))) as"

definition last_ptr :: "nat list \<Rightarrow> ptr" where
  "last_ptr as = (if as = [] then None else Some (last as))"

definition is_list :: "'a heap_scheme \<Rightarrow> nat \<Rightarrow> nat list \<Rightarrow> bool" where
  "is_list h l as \<longleftrightarrow> (\<exists>p. chain (hp_nodes h) p as \<and>
     hp_lists h l = Some \<lparr>ll_size = int (length as), ll_head = p, ll_tail = last_ptr as\<rparr>)"

lemma chain_Cons [simp]:
  "chain N p (a # as) \<longleftrightarrow> p = Some a \<and> (\<exists>n. N a = Some n \<and> chain N (ln_next n) as)"
  by (auto split: option.splits)

declare chain.simps(2) [simp del]

lemma chain_None [simp]: "chain N None as \<longleftrightarrow> as = []"
  by (cases as) auto

lemma chain_Some: "chain N (Some a) as \<Longrightarrow> \<exists>n bs. as = a # bs \<and> N a = Some n \<and> chain N (ln_next n) bs"
  by (cases as) auto

lemma chain_fun: "chain N p as \<Longrightarrow> chain N p bs \<Longrightarrow> as = bs"
  by (induction as arbitrary: p bs) (auto dest!: chain_Some)

lemma chain_dom: "chain N p as \<Longrightarrow> a \<in> set as \<Longrightarrow> \<exists>n. N a = Some n"
  by (induction as arbitrary: p) auto

lemma chain_cong: "chain N p as \<Longrightarrow> (\<And>a. a \<in> set as \<Longrightarrow> N' a = N a) \<Longrightarrow> chain N' p as"
  by (induction as arbitrary: p) auto

lemma data_of_cong: "(\<And>a. a \<in> set as \<Longrightarrow> N' a = N a) \<Longrightarrow> data_of N' as = data_of N as"
  by (simp add: data_of_def)

lemma chain_upd [simp]: "a \<notin> set as \<Longrightarrow> chain (N(a := v)) p as = chain N p as"
  by (auto elim!: chain_cong)

lemma data_of_simps [simp]:
  "data_of N [] = []" "data_of N (a # as) = ln_data (the (N a)) # data_of N as"
  "data_of N (as @ bs) = data_of N as @ data_of N bs" "length (data_of N as) = length as"
  "a \<notin> set as \<Longrightarrow> data_of (N(a := v)) as = data_of N as"
  by (auto simp: data_of_def)

text \<open>A segment that ends in a pointer \<open>q\<close>; a chain splits at any of its nodes.\<close>

fun seg :: "(nat \<rightharpoonup> listNode) \<Rightarrow> ptr \<Rightarrow> nat list \<Rightarrow> ptr \<Rightarrow> bool" where
  "seg N p [] q = (p = q)"
| "seg N p (a # as) q = (p = Some a \<and> (\<exists>n. N a = Some n \<and> seg N (ln_next n) as q))"

lemma chain_append: "chain N p (as @ bs) \<longleftrightarrow> (\<exists>q. seg N p as q \<and> chain N q bs)"
  by (induction as arbitrary: p) auto

lemma seg_append: "seg N p (as @ bs) r \<longleftrightarrow> (\<exists>q. seg N p as q \<and> seg N q bs r)"
  by (induction as arbitrary: p) auto

lemma seg_upd [simp]: "a \<notin> set as \<Longrightarrow> seg (N(a := v)) p as q = seg N p as q"
  by (induction as arbitrary: p) auto

lemma seg_snoc: "seg N p (as @ [a]) q \<longleftrightarrow> seg N p as (Some a) \<and> (\<exists>n. N a = Some n \<and> ln_next n = q)"
  by (auto simp: seg_append)

lemma seg_cong: "seg N p as q \<Longrightarrow> (\<And>a. a \<in> set as \<Longrightarrow> N' a = N a) \<Longrightarrow> seg N' p as q"
  by (induction as arbitrary: p) auto

lemma chain_distinct: "chain N p as \<Longrightarrow> distinct as"
proof (induction as arbitrary: p)
  case (Cons a as)
  then obtain n where n: "N a = Some n" "chain N (ln_next n) as" by auto
  have "a \<notin> set as"
  proof
    assume "a \<in> set as"
    then obtain bs cs where as: "as = bs @ a # cs" by (meson split_list)
    with n(2) have "chain N (Some a) (a # cs)" by (auto simp: chain_append)
    with n as have "a # cs = a # as" using chain_fun [of N "Some a" "a # cs" "a # as"] by simp
    then show False using as by simp
  qed
  with Cons.IH n(2) show ?case by simp
qed simp

text \<open>Pointing the last node of a segment elsewhere.\<close>

lemma seg_redirect:
  assumes "seg N p (as @ [a]) q" "N a = Some n" "a \<notin> set as"
  shows "seg (N(a \<mapsto> n\<lparr>ln_next := r\<rparr>)) p (as @ [a]) r"
  using assms by (simp add: seg_snoc)

lemma last_ptr_simps [simp]: "last_ptr [] = None" "last_ptr (as @ [a]) = Some a" "last_ptr as = None \<longleftrightarrow> as = []"
  "last_ptr (a # as) = Some (last (a # as))" "last_ptr (as @ b # bs) = Some (last (b # bs))"
  by (auto simp: last_ptr_def)

lemma is_listD:
  assumes "is_list h l as"
  obtains p where "chain (hp_nodes h) p as" "distinct as"
    "hp_lists h l = Some \<lparr>ll_size = int (length as), ll_head = p, ll_tail = last_ptr as\<rparr>"
  using assms chain_distinct by (auto simp: is_list_def)

text \<open>An operation leaves the lists it does not touch alone.\<close>

lemma is_list_frame:
  assumes "is_list h l as" "hp_lists h' l = hp_lists h l" "\<And>a. a \<in> set as \<Longrightarrow> hp_nodes h' a = hp_nodes h a"
  shows "is_list h' l as" "data_of (hp_nodes h') as = data_of (hp_nodes h) as"
  using assms data_of_cong [of as "hp_nodes h'" "hp_nodes h"]
  by (auto simp: is_list_def elim!: chain_cong)

section \<open>Appending and combining\<close>

lemmas heap_ops = set_node_def set_list_def

text \<open>
  Appending to a list leaves every other list on the heap as it was.
\<close>

theorem list_append_appends:
  assumes "fresh_alloc alloc" "alloc (hp_nodes h) = Some a" "is_list h l as"
  shows "\<exists>h'. list_append alloc (Some l) d h = Some (Some a, h') \<and> is_list h' l (as @ [a]) \<and>
    data_of (hp_nodes h') (as @ [a]) = data_of (hp_nodes h) as @ [d] \<and>
    (\<forall>l' bs. l' \<noteq> l \<longrightarrow> is_list h l' bs \<longrightarrow> set bs \<inter> set as = {} \<longrightarrow>
      is_list h' l' bs \<and> data_of (hp_nodes h') bs = data_of (hp_nodes h) bs)"
proof -
  obtain p where p: "chain (hp_nodes h) p as" "distinct as"
    "hp_lists h l = Some \<lparr>ll_size = int (length as), ll_head = p, ll_tail = last_ptr as\<rparr>"
    using assms(3) by (rule is_listD)
  have new: "hp_nodes h a = None" using assms(1,2) by (simp add: fresh_alloc_def)
  then have na: "a \<notin> set as" using chain_dom [OF p(1), of a] by auto
  have nb: "a \<notin> set bs" if "is_list h l' bs" for l' bs
    using that new chain_dom by (fastforce simp: is_list_def)
  show ?thesis
  proof (cases as rule: rev_cases)
    case Nil
    then show ?thesis using p assms(2) nb
      by (auto simp: list_append_def Let_def heap_ops is_list_def last_ptr_def)
  next
    case (snoc cs t)
    then obtain n where t: "hp_nodes h t = Some n" using chain_dom [OF p(1), of t] by auto
    have pt: "p \<noteq> None" using p(1) snoc by (cases p) auto
    have "t \<noteq> a" "t \<notin> set cs" "a \<notin> set cs" using na snoc p(2) by auto
    then show ?thesis using p t pt snoc assms(2) nb
      by (auto simp: list_append_def Let_def heap_ops is_list_def chain_append seg_append)
  qed
qed

theorem list_combine_concatenates:
  assumes "is_list h d as" "is_list h l bs" "set as \<inter> set bs = {}" "d \<noteq> l" "bs \<noteq> [] \<or> as = []"
  shows "\<exists>h'. list_combine (Some d) (Some l) h = Some h' \<and> is_list h' d (as @ bs) \<and>
    data_of (hp_nodes h') (as @ bs) = data_of (hp_nodes h) (as @ bs) \<and> is_list h' l bs"
proof -
  obtain p where p: "chain (hp_nodes h) p as" "distinct as"
    "hp_lists h d = Some \<lparr>ll_size = int (length as), ll_head = p, ll_tail = last_ptr as\<rparr>"
    using assms(1) by (rule is_listD)
  obtain q where q: "chain (hp_nodes h) q bs" "distinct bs"
    "hp_lists h l = Some \<lparr>ll_size = int (length bs), ll_head = q, ll_tail = last_ptr bs\<rparr>"
    using assms(2) by (rule is_listD)
  show ?thesis
  proof (cases as rule: rev_cases)
    case Nil
    then show ?thesis using p q assms(4)
      by (auto simp: list_combine_def heap_ops is_list_def)
  next
    case (snoc cs t)
    then obtain n where t: "hp_nodes h t = Some n" using chain_dom [OF p(1), of t] by auto
    have pt: "p \<noteq> None" using p(1) snoc by (cases p) auto
    obtain b bs' where bs: "bs = b # bs'" using assms(5) snoc by (cases bs) auto
    have tc: "t \<notin> set cs" "t \<notin> set bs" using snoc p(2) assms(3) by auto
    have "seg (hp_nodes h) p cs (Some t)" using p(1) snoc by (auto simp: chain_append)
    then have s: "seg ((hp_nodes h)(t \<mapsto> n\<lparr>ln_next := q\<rparr>)) p (cs @ [t]) q" using tc by (simp add: seg_append)
    have c: "chain ((hp_nodes h)(t \<mapsto> n\<lparr>ln_next := q\<rparr>)) q bs" using q(1) tc by simp
    define h' where "h' = set_list d \<lparr>ll_size = int (length as) + int (length bs), ll_head = p, ll_tail = last_ptr bs\<rparr>
       (set_node t (n\<lparr>ln_next := q\<rparr>) h)"
    have "list_combine (Some d) (Some l) h = Some h'"
      using p(3) q(3) t pt snoc assms(4) unfolding h'_def by (auto simp: list_combine_def heap_ops)
    moreover have "chain ((hp_nodes h)(t \<mapsto> n\<lparr>ln_next := q\<rparr>)) p (as @ bs)"
      unfolding chain_append snoc using s c by blast
    then have "is_list h' d (as @ bs)" using bs by (simp add: is_list_def h'_def heap_ops)
    moreover have "data_of (hp_nodes h') (as @ bs) = data_of (hp_nodes h) (as @ bs)"
      using snoc tc t by (simp add: h'_def heap_ops)
    moreover have "is_list h' l bs" using c q(3) assms(4) by (simp add: is_list_def h'_def heap_ops)
    ultimately show ?thesis by blast
  qed
qed

text \<open>
  With nothing to attach the tail is lost, and the next append goes through it.
\<close>

theorem combine_with_empty_loses_tail:
  assumes "is_list h d as" "is_list h l []" "as \<noteq> []" "d \<noteq> l"
  shows "\<exists>h'. list_combine (Some d) (Some l) h = Some h' \<and>
    (\<exists>D. hp_lists h' d = Some D \<and> ll_head D \<noteq> None \<and> ll_tail D = None) \<and>
    list_append alloc (Some d) x h' = None"
proof -
  obtain p where p: "chain (hp_nodes h) p as"
    "hp_lists h d = Some \<lparr>ll_size = int (length as), ll_head = p, ll_tail = last_ptr as\<rparr>"
    using assms(1) by (rule is_listD)
  have q: "hp_lists h l = Some \<lparr>ll_size = 0, ll_head = None, ll_tail = None\<rparr>"
    using assms(2) by (simp add: is_list_def)
  obtain n where t: "hp_nodes h (last as) = Some n" using chain_dom [OF p(1), of "last as"] assms(3) by auto
  obtain a where pt: "p = Some a" using p(1) assms(3) by (cases p) auto
  define h' where "h' = set_list d \<lparr>ll_size = int (length as), ll_head = p, ll_tail = None\<rparr>
     (set_node (last as) (n\<lparr>ln_next := None\<rparr>) h)"
  have "list_combine (Some d) (Some l) h = Some h'"
    using p(2) q t pt assms(3,4) unfolding h'_def by (auto simp: list_combine_def heap_ops last_ptr_def)
  moreover have "list_append alloc (Some d) x h' = None"
    using pt by (cases "alloc (hp_nodes h')") (auto simp: list_append_def heap_ops h'_def Let_def)
  ultimately show ?thesis using pt by (auto simp: h'_def heap_ops)
qed

section \<open>Removing\<close>

lemma remove_loop_absent:
  "chain (hp_nodes h) p as \<Longrightarrow> d \<notin> set (data_of (hp_nodes h) as) \<Longrightarrow> remove_loop l d h prev p = Some (None, h)"
proof (induction as arbitrary: prev p)
  case (Cons a as)
  then show ?case by (subst remove_loop.simps) auto
qed (simp add: remove_loop.simps)

lemma remove_loop_skip:
  "seg (hp_nodes h) p as q \<Longrightarrow> d \<notin> set (data_of (hp_nodes h) as) \<Longrightarrow>
    remove_loop l d h prev p = remove_loop l d h (if as = [] then prev else last_ptr as) q"
proof (induction as arbitrary: prev p)
  case (Cons a as)
  then obtain n where n: "p = Some a" "hp_nodes h a = Some n" "seg (hp_nodes h) (ln_next n) as q" "ln_data n \<noteq> d"
    by auto
  then have "remove_loop l d h prev p = remove_loop l d h (Some a) (ln_next n)"
    by (subst remove_loop.simps) simp
  with Cons.IH [OF n(3), of "Some a"] Cons.prems(2) show ?case by (auto simp: last_ptr_def)
qed simp

text \<open>
  \<open>list_remove\<close> takes the first node with the given data out of the list and returns it.
\<close>

theorem list_remove_removes:
  assumes "is_list h l as" "data_of (hp_nodes h) as = ds"
  shows "(d \<notin> set ds \<longrightarrow> list_remove (Some l) d h = Some (None, h)) \<and>
    (d \<in> set ds \<longrightarrow> (\<exists>xs a ys h'. as = xs @ a # ys \<and> list_remove (Some l) d h = Some (Some a, h') \<and>
       ln_data (the (hp_nodes h a)) = d \<and>
       is_list h' l (xs @ ys) \<and> data_of (hp_nodes h') (xs @ ys) = remove1 d ds \<and>
       (\<forall>b. b \<notin> set as \<longrightarrow> hp_nodes h' b = hp_nodes h b)))"
proof (intro conjI impI)
  obtain p where p: "chain (hp_nodes h) p as" "distinct as"
    "hp_lists h l = Some \<lparr>ll_size = int (length as), ll_head = p, ll_tail = last_ptr as\<rparr>"
    using assms(1) by (rule is_listD)
  show "list_remove (Some l) d h = Some (None, h)" if "d \<notin> set ds"
    using remove_loop_absent [OF p(1), of d] that p(3) assms(2) by (simp add: list_remove_def)
  assume "d \<in> set ds"
  then obtain es fs where e: "ds = es @ d # fs" "d \<notin> set es" by (meson split_list_first)
  define xs where "xs = take (length es) as"
  define a where "a = as ! length es"
  define ys where "ys = drop (Suc (length es)) as"
  have len: "length as = length ds" using assms(2) by auto
  then have as: "as = xs @ a # ys" using e(1) by (simp add: xs_def a_def ys_def id_take_nth_drop)
  have dat: "data_of (hp_nodes h) xs = es" "ln_data (the (hp_nodes h a)) = d" "data_of (hp_nodes h) ys = fs"
  proof -
    have "data_of (hp_nodes h) xs @ ln_data (the (hp_nodes h a)) # data_of (hp_nodes h) ys = es @ d # fs"
      using assms(2) e(1) by (simp add: as)
    moreover have "length (data_of (hp_nodes h) xs) = length es" using len e(1) by (simp add: xs_def)
    ultimately show "data_of (hp_nodes h) xs = es" "ln_data (the (hp_nodes h a)) = d" "data_of (hp_nodes h) ys = fs"
      by simp_all
  qed
  obtain n where n: "hp_nodes h a = Some n" "ln_data n = d" "seg (hp_nodes h) p xs (Some a)" "chain (hp_nodes h) (ln_next n) ys"
    using p(1) dat(2) unfolding as by (auto simp: chain_append)
  have ns: "a \<notin> set xs" "a \<notin> set ys" "set xs \<inter> set ys = {}" "distinct xs" using p(2) as by auto
  have la: "ys \<noteq> [] \<Longrightarrow> last ys \<noteq> a" using ns(2) last_in_set by metis
  have r: "list_remove (Some l) d h = list_unlink l (last_ptr xs) a n h"
    using remove_loop_skip [OF n(3), of d l None] dat(1) e(2) n(1,2) p(3)
    by (simp add: list_remove_def remove_loop.simps [of l d h _ "Some a"] last_ptr_def split: if_splits)
  have ds: "remove1 d ds = es @ fs" using e by (simp add: remove1_append)
  have "\<exists>h'. list_unlink l (last_ptr xs) a n h = Some (Some a, h') \<and> is_list h' l (xs @ ys) \<and>
      data_of (hp_nodes h') (xs @ ys) = es @ fs \<and> (\<forall>b. b \<notin> set as \<longrightarrow> hp_nodes h' b = hp_nodes h b)"
  proof (cases xs rule: rev_cases)
    case Nil
    then show ?thesis using p n dat as ns la
      by (cases ys) (auto simp: list_unlink_def heap_ops is_list_def Let_def split: if_splits)
  next
    case (snoc zs z)
    then obtain m where m: "hp_nodes h z = Some m" "seg (hp_nodes h) p zs (Some z)" "ln_next m = Some a"
      using n(3) by (auto simp: seg_append)
    have z: "z \<noteq> a" "z \<notin> set zs" "z \<notin> set ys" using ns snoc by auto
    have pa: "p \<noteq> Some a" using n(3) snoc ns z by (cases zs) auto
    show ?thesis
    proof (cases ys)
      case Nil
      then show ?thesis using p n dat as ns snoc m z pa
        by (auto simp: list_unlink_def heap_ops is_list_def chain_append)
    next
      case (Cons y ys')
      then have "last (y # ys') \<noteq> a" using la by simp
      then show ?thesis using p n dat as ns snoc m z pa Cons
        by (auto simp: list_unlink_def heap_ops is_list_def chain_append seg_append)
    qed
  qed
  with r as ds dat(2) show "\<exists>xs a ys h'. as = xs @ a # ys \<and> list_remove (Some l) d h = Some (Some a, h') \<and>
       ln_data (the (hp_nodes h a)) = d \<and>
       is_list h' l (xs @ ys) \<and> data_of (hp_nodes h') (xs @ ys) = remove1 d ds \<and>
       (\<forall>b. b \<notin> set as \<longrightarrow> hp_nodes h' b = hp_nodes h b)" by metis
qed

text \<open>
  Removing changes nothing but nodes and this list. \<open>other_memory\<close> is what lists are not made of.
\<close>

definition other_memory :: "'a heap_scheme \<Rightarrow> 'a heap_scheme \<Rightarrow> bool" where
  "other_memory h h' \<longleftrightarrow> hp_dnodes h' = hp_dnodes h \<and> hp_dicts h' = hp_dicts h \<and> heap.more h' = heap.more h"

lemma other_memory_refl [simp]: "other_memory h h"
  by (simp add: other_memory_def)

lemma other_memory_trans: "other_memory h k \<Longrightarrow> other_memory k m \<Longrightarrow> other_memory h m"
  by (simp add: other_memory_def)

lemma other_memory_upd [simp]:
  "other_memory h (k\<lparr>hp_nodes := N\<rparr>) = other_memory h k" "other_memory h (k\<lparr>hp_lists := M\<rparr>) = other_memory h k"
  "other_memory h (k\<lparr>hp_data := D\<rparr>) = other_memory h k"
  by (simp_all add: other_memory_def)

lemma list_append_frame:
  "list_append alloc (Some l) d h = Some (r, h') \<Longrightarrow>
    other_memory h h' \<and> hp_data h' = hp_data h \<and> (\<forall>l'. l' \<noteq> l \<longrightarrow> hp_lists h' l' = hp_lists h l')"
  by (auto simp: list_append_def bind_eq_Some_conv heap_ops Let_def split: option.splits)

lemma list_unlink_frame:
  "list_unlink l prev a n h = Some (r, h') \<Longrightarrow>
    other_memory h h' \<and> hp_data h' = hp_data h \<and> (\<forall>l'. l' \<noteq> l \<longrightarrow> hp_lists h' l' = hp_lists h l') \<and>
    (\<forall>b. hp_nodes h' b = None \<longleftrightarrow> hp_nodes h b = None)"
  by (auto simp: list_unlink_def bind_eq_Some_conv heap_ops Let_def split: if_splits)

lemma remove_loop_frame:
  assumes "remove_loop l d h prev p = Some r"
  shows "other_memory h (snd r) \<and> hp_data (snd r) = hp_data h \<and>
    (\<forall>l'. l' \<noteq> l \<longrightarrow> hp_lists (snd r) l' = hp_lists h l') \<and>
      (\<forall>b. hp_nodes (snd r) b = None \<longleftrightarrow> hp_nodes h b = None)"
proof (rule remove_loop.raw_induct [OF _ assms])
  fix remove_loop :: "nat \<Rightarrow> ptr \<Rightarrow> 'a heap_scheme \<Rightarrow> ptr \<Rightarrow> ptr \<Rightarrow> (ptr \<times> 'a heap_scheme) option"
    and l d h prev p r
  assume IH: "\<And>l d h prev p r. remove_loop l d h prev p = Some r \<Longrightarrow>
      other_memory h (snd r) \<and> hp_data (snd r) = hp_data h \<and> (\<forall>l'. l' \<noteq> l \<longrightarrow> hp_lists (snd r) l' = hp_lists h l') \<and>
      (\<forall>b. hp_nodes (snd r) b = None \<longleftrightarrow> hp_nodes h b = None)"
    and "(case p of None \<Rightarrow> Some (None, h)
      | Some a \<Rightarrow> Option.bind (hp_nodes h a) (\<lambda>n.
          if ln_data n = d then list_unlink l prev a n h
          else remove_loop l d h (Some a) (ln_next n))) = Some r"
  then show "other_memory h (snd r) \<and> hp_data (snd r) = hp_data h \<and>
      (\<forall>l'. l' \<noteq> l \<longrightarrow> hp_lists (snd r) l' = hp_lists h l') \<and>
      (\<forall>b. hp_nodes (snd r) b = None \<longleftrightarrow> hp_nodes h b = None)"
    by (cases r) (auto simp: bind_eq_Some_conv split: option.splits if_splits dest!: list_unlink_frame IH)
qed

lemma list_remove_frame:
  "list_remove (Some l) d h = Some (r, h') \<Longrightarrow>
    other_memory h h' \<and> hp_data h' = hp_data h \<and> (\<forall>l'. l' \<noteq> l \<longrightarrow> hp_lists h' l' = hp_lists h l') \<and>
    (\<forall>b. hp_nodes h' b = None \<longleftrightarrow> hp_nodes h b = None)"
  by (auto simp: list_remove_def bind_eq_Some_conv dest!: remove_loop_frame)

section \<open>Destroying\<close>

lemma destroy_loop_frees:
  "chain (hp_nodes h) p as \<Longrightarrow> distinct as \<Longrightarrow>
    (deep \<longrightarrow> distinct (filter (\<lambda>d. d \<noteq> None) (data_of (hp_nodes h) as)) \<and>
       set (data_of (hp_nodes h) as) \<subseteq> insert None (Some ` hp_data h)) \<Longrightarrow>
    destroy_loop deep p h = Some (h\<lparr>hp_nodes := (\<lambda>a. if a \<in> set as then None else hp_nodes h a),
      hp_data := (if deep then {b \<in> hp_data h. Some b \<notin> set (data_of (hp_nodes h) as)} else hp_data h)\<rparr>)"
proof (induction as arbitrary: p h)
  case Nil
  then show ?case by (simp add: destroy_loop.simps)
next
  case (Cons a as)
  then obtain n where n: "p = Some a" "hp_nodes h a = Some n" "chain (hp_nodes h) (ln_next n) as" "a \<notin> set as" by auto
  define h1 where "h1 = (if deep then h\<lparr>hp_data := {b \<in> hp_data h. Some b \<noteq> ln_data n}\<rparr> else h)"
  define h2 where "h2 = h1\<lparr>hp_nodes := (hp_nodes h)(a := None)\<rparr>"
  have f: "(if deep then free_data (ln_data n) h else Some h) = Some h1"
    using Cons.prems(3) n(2) by (cases "ln_data n") (auto simp: h1_def free_data_def set_diff_eq)
  have f2: "free_node (Some a) h1 = Some h2" using n(2) by (simp add: free_node_def h2_def h1_def)
  have u: "destroy_loop deep p h = destroy_loop deep (ln_next n) h2"
    using n f f2 by (subst destroy_loop.simps) simp
  have "destroy_loop deep (ln_next n) h2 = Some (h2\<lparr>hp_nodes := (\<lambda>a. if a \<in> set as then None else hp_nodes h2 a),
      hp_data := (if deep then {b \<in> hp_data h2. Some b \<notin> set (data_of (hp_nodes h2) as)} else hp_data h2)\<rparr>)"
  proof (rule Cons.IH)
    show "chain (hp_nodes h2) (ln_next n) as" "distinct as" using n(3,4) Cons.prems(2) by (simp_all add: h2_def)
    show "deep \<longrightarrow> distinct (filter (\<lambda>d. d \<noteq> None) (data_of (hp_nodes h2) as)) \<and>
       set (data_of (hp_nodes h2) as) \<subseteq> insert None (Some ` hp_data h2)"
      using Cons.prems(3) n(2,4) by (auto simp: h2_def h1_def split: if_splits)
  qed
  then show ?case unfolding u using n(2,4) by (auto simp: h2_def h1_def fun_eq_iff)
qed

text \<open>
  Destroying a list frees its nodes, and with \<open>list_destroy_deep\<close> the data too, and leaves it empty.
\<close>

theorem list_destroy_frees:
  assumes "is_list h l as"
  shows "(\<exists>h'. list_destroy (Some l) h = Some h' \<and> is_list h' l [] \<and> hp_data h' = hp_data h \<and>
      hp_nodes h' = (\<lambda>a. if a \<in> set as then None else hp_nodes h a)) \<and>
    (data_of (hp_nodes h) as = map Some ds \<and> distinct ds \<and> set ds \<subseteq> hp_data h \<longrightarrow>
      (\<exists>h'. list_destroy_deep (Some l) h = Some h' \<and> is_list h' l [] \<and> hp_data h' = hp_data h - set ds \<and>
        hp_nodes h' = (\<lambda>a. if a \<in> set as then None else hp_nodes h a)))"
proof -
  obtain p where p: "chain (hp_nodes h) p as" "distinct as"
    "hp_lists h l = Some \<lparr>ll_size = int (length as), ll_head = p, ll_tail = last_ptr as\<rparr>"
    using assms by (rule is_listD)
  have "distinct (filter (\<lambda>d. d \<noteq> None) (map Some ds)) \<and> set (map Some ds) \<subseteq> insert None (Some ` hp_data h)"
    if "distinct ds" "set ds \<subseteq> hp_data h" using that by (auto simp: filter_map comp_def distinct_map)
  then show ?thesis
    using destroy_loop_frees [OF p(1,2), of False] destroy_loop_frees [OF p(1,2), of True] p(3)
    by (auto simp: list_destroy_def list_destroy_deep_def is_list_def heap_ops EMPTY_LINKEDLIST_def)
qed

text \<open>After \<open>list_combine\<close> the attached list still has its nodes: they must not be freed twice.\<close>

theorem combined_lists_share_nodes:
  assumes "is_list h d as" "is_list h l bs" "set as \<inter> set bs = {}" "d \<noteq> l" "bs \<noteq> []"
  shows "\<exists>h1 h2. list_combine (Some d) (Some l) h = Some h1 \<and> list_destroy (Some d) h1 = Some h2 \<and>
    list_destroy (Some l) h2 = None"
proof -
  obtain h1 where h1: "list_combine (Some d) (Some l) h = Some h1" "is_list h1 d (as @ bs)" "is_list h1 l bs"
    using list_combine_concatenates [OF assms(1-4)] assms(5) by blast
  obtain p q where p: "chain (hp_nodes h1) p (as @ bs)"
    "hp_lists h1 d = Some \<lparr>ll_size = int (length (as @ bs)), ll_head = p, ll_tail = last_ptr (as @ bs)\<rparr>" and
    q: "chain (hp_nodes h1) q bs" "hp_lists h1 l = Some \<lparr>ll_size = int (length bs), ll_head = q, ll_tail = last_ptr bs\<rparr>"
    using h1 by (auto simp: is_list_def)
  define h2 where "h2 = set_list d EMPTY_LINKEDLIST (h1\<lparr>hp_nodes := (\<lambda>a. if a \<in> set (as @ bs) then None else hp_nodes h1 a)\<rparr>)"
  have "list_destroy (Some d) h1 = Some h2"
    using destroy_loop_frees [OF p(1) chain_distinct [OF p(1)], of False] p(2)
    by (simp add: list_destroy_def h2_def)
  moreover have "list_destroy (Some l) h2 = None"
    using q assms(4,5) by (cases bs) (auto simp: list_destroy_def h2_def heap_ops destroy_loop.simps)
  ultimately show ?thesis using h1(1) by blast
qed

section \<open>Access by index\<close>

lemma index_loop_chain: "chain (hp_nodes h) p as \<Longrightarrow> index_loop i p h = Some (if i < length as then Some (as ! i) else None)"
proof (induction as arbitrary: p i)
  case (Cons a as)
  then show ?case by (cases i) auto
qed (cases i; simp)

theorem list_node_from_index_nth:
  assumes "is_list h l as"
  shows "list_node_from_index (Some l) i h =
    Some (if as = [] then None else if i < 0 then Some (hd as) else if nat i < length as then Some (as ! nat i) else None)"
proof -
  obtain p where p: "chain (hp_nodes h) p as"
    "hp_lists h l = Some \<lparr>ll_size = int (length as), ll_head = p, ll_tail = last_ptr as\<rparr>"
    using assms by (auto simp: is_list_def)
  show ?thesis using index_loop_chain [OF p(1), of "nat i"] p(2)
    by (auto simp: list_node_from_index_def hd_conv_nth)
qed

section \<open>Replacing an element by a list\<close>

lemma swap_find_seg:
  "seg (hp_nodes h) p as (Some c) \<Longrightarrow> swap_find (length as) prev p h = Some (if as = [] then prev else last_ptr as, Some c)"
proof (induction as arbitrary: p prev)
  case (Cons a as)
  then show ?case by (cases as) (auto simp: last_ptr_def)
qed simp

lemma swap_find_beyond:
  "chain (hp_nodes h) p as \<Longrightarrow> length as \<le> i \<Longrightarrow> \<exists>prev'. swap_find i prev p h = Some (prev', None)"
proof (induction as arbitrary: p prev i)
  case (Cons a as)
  then show ?case by (cases i) auto
qed simp

text \<open>Putting the chain \<open>bs\<close> between two parts of another.\<close>

lemma chain_splice:
  assumes "seg N p xs (Some c)" "chain N r ys" "chain N q bs" "bs \<noteq> []" "set xs \<inter> set bs = {}"
    "last bs \<notin> set ys" "xs \<noteq> []" "distinct xs" "set xs \<inter> set ys = {}" "distinct bs" "N (last xs) = Some m" "N (last bs) = Some n"
  shows "chain (N(last xs \<mapsto> m\<lparr>ln_next := q\<rparr>, last bs \<mapsto> n\<lparr>ln_next := r\<rparr>)) p (xs @ bs @ ys)"
proof -
  obtain zs z where xs: "xs = zs @ [z]" using assms(7) by (cases xs rule: rev_cases) auto
  obtain cs b where bs: "bs = cs @ [b]" using assms(4) by (cases bs rule: rev_cases) auto
  have n: "z \<notin> set zs" "z \<notin> set bs" "z \<notin> set ys" "b \<notin> set xs" "b \<notin> set cs" "b \<notin> set ys" "b \<noteq> z" "b \<notin> set zs" "z \<notin> set cs"
    using assms(5,6,8-10) xs bs by auto
  let ?N = "N(z \<mapsto> m\<lparr>ln_next := q\<rparr>, b \<mapsto> n\<lparr>ln_next := r\<rparr>)"
  have "seg ?N p xs q" using assms(1) n unfolding xs by (simp add: seg_append)
  moreover have "seg ?N q bs r" using assms(3) n unfolding bs by (simp add: chain_append seg_append)
  moreover have "chain ?N r ys" using assms(2) n by simp
  ultimately show ?thesis unfolding chain_append using xs bs by auto
qed

text \<open>C34: 
  At a positive index \<open>list_swapindex_withlist\<close> puts the elements of the other list in the place of
  the element there, and returns the node it took out.
\<close>

theorem list_swapindex_replaces:
  assumes "is_list h d as" "is_list h l bs" "set as \<inter> set bs = {}" "d \<noteq> l" "bs \<noteq> []" "0 < i" "i < length as"
  shows "\<exists>h'. list_swapindex_withlist (Some d) (int i) (Some l) h = Some (Some (as ! i), h') \<and>
    is_list h' d (take i as @ bs @ drop (Suc i) as) \<and>
    data_of (hp_nodes h') (take i as @ bs @ drop (Suc i) as) =
      take i (data_of (hp_nodes h) as) @ data_of (hp_nodes h) bs @ drop (Suc i) (data_of (hp_nodes h) as)"
proof -
  obtain p where p: "chain (hp_nodes h) p as" "distinct as"
    "hp_lists h d = Some \<lparr>ll_size = int (length as), ll_head = p, ll_tail = last_ptr as\<rparr>"
    using assms(1) by (rule is_listD)
  obtain q where q: "chain (hp_nodes h) q bs" "distinct bs"
    "hp_lists h l = Some \<lparr>ll_size = int (length bs), ll_head = q, ll_tail = last_ptr bs\<rparr>"
    using assms(2) by (rule is_listD)
  define xs where "xs = take i as"
  define c where "c = as ! i"
  define ys where "ys = drop (Suc i) as"
  have as: "as = xs @ c # ys" "length xs = i" "xs \<noteq> []"
    using assms(6,7) by (auto simp: xs_def c_def ys_def id_take_nth_drop)
  obtain k where k: "hp_nodes h c = Some k" "seg (hp_nodes h) p xs (Some c)" "chain (hp_nodes h) (ln_next k) ys"
    using p(1) unfolding as(1) by (auto simp: chain_append)
  obtain m where m: "hp_nodes h (last xs) = Some m" using chain_dom [OF p(1), of "last xs"] as by auto
  obtain n where n: "hp_nodes h (last bs) = Some n" using chain_dom [OF q(1), of "last bs"] assms(5) by auto
  have lx: "last xs \<in> set xs" "last bs \<in> set bs" using as(3) assms(5) by auto
  have ne: "last xs \<noteq> last bs" "last xs \<noteq> c" "last bs \<noteq> c" "last bs \<notin> set ys" "last bs \<notin> set xs" "last xs \<notin> set bs" "last xs \<notin> set ys"
    using lx assms(3) p(2) as(1) by auto
  define N where "N = (hp_nodes h)(last xs \<mapsto> m\<lparr>ln_next := q\<rparr>, last bs \<mapsto> n\<lparr>ln_next := ln_next k\<rparr>)"
  define D where "D = \<lparr>ll_size = int (length as) + (int (length bs) - 1), ll_head = p,
     ll_tail = (if ys = [] then last_ptr bs else last_ptr as)\<rparr>"
  define h' where "h' = set_list d D (h\<lparr>hp_nodes := N\<rparr>)"
  have hc: "p \<noteq> Some c" using k(2) as p(2) by (cases xs) auto
  have tc: "last_ptr as = Some c \<longleftrightarrow> ys = []" using as p(2) by (auto simp: last_ptr_def)
  have f: "swap_find i None p h = Some (Some (last xs), Some c)"
    using swap_find_seg [OF k(2), of None] as(2,3) by (simp add: last_ptr_def)
  have lp: "last_ptr bs = Some (last bs)" using assms(5) by (simp add: last_ptr_def)
  have "list_swapindex_withlist (Some d) (int i) (Some l) h = Some (Some c, h')"
    using assms(5,6) p(3) q(3) f m n k(1) ne hc tc lp as(1)
    by (auto simp: list_swapindex_withlist_def heap_ops h'_def N_def D_def Let_def)
  moreover have "chain N p (xs @ bs @ ys)" unfolding N_def
    using p(2) as(1) q(2) assms(3) by (intro chain_splice [OF k(2,3) q(1) assms(5) _ ne(4) as(3) _ _ q(2) m n]) auto
  then have "is_list h' d (xs @ bs @ ys)"
    using as(1) assms(5) by (auto simp: is_list_def h'_def heap_ops D_def last_ptr_def)
  moreover have "data_of (hp_nodes h') (xs @ bs @ ys) = data_of (hp_nodes h) (xs @ bs @ ys)"
    using m n by (auto simp: data_of_def h'_def heap_ops N_def)
  moreover have "data_of (hp_nodes h) xs = take i (data_of (hp_nodes h) as)"
    "data_of (hp_nodes h) ys = drop (Suc i) (data_of (hp_nodes h) as)"
    by (simp_all add: data_of_def xs_def ys_def take_map drop_map)
  ultimately show ?thesis by (auto simp: xs_def ys_def c_def)
qed

text \<open>
  At index 0 the tail is not corrected. In a list of one node it stays at the node that was
  replaced, and what is appended next is not in the list.
\<close>

theorem swap_of_single_element_loses_appends:
  assumes "is_list h d [c]" "is_list h l bs" "c \<notin> set bs" "d \<noteq> l" "bs \<noteq> []"
    and "fresh_alloc alloc" "alloc (hp_nodes h) = Some a"
  shows "\<exists>h1 h2 D. list_swapindex_withlist (Some d) 0 (Some l) h = Some (Some (hd bs), h1) \<and>
    list_append alloc (Some d) x h1 = Some (Some a, h2) \<and> hp_lists h2 d = Some D \<and>
    ll_size D = int (length bs) + 1 \<and> chain (hp_nodes h2) (ll_head D) bs \<and> a \<notin> set bs"
proof -
  obtain q where q: "chain (hp_nodes h) q bs" "distinct bs"
    "hp_lists h l = Some \<lparr>ll_size = int (length bs), ll_head = q, ll_tail = last_ptr bs\<rparr>"
    using assms(2) by (rule is_listD)
  obtain k where c: "hp_nodes h c = Some k" "ln_next k = None"
    "hp_lists h d = Some \<lparr>ll_size = 1, ll_head = Some c, ll_tail = Some c\<rparr>"
    using assms(1) by (auto simp: is_list_def)
  obtain n where n: "hp_nodes h (last bs) = Some n" using chain_dom [OF q(1), of "last bs"] assms(5) by auto
  have nn: "ln_next n = None" using q(1) assms(5) n
    by (cases bs rule: rev_cases) (auto simp: chain_append)
  have same: "(hp_nodes h)(last bs \<mapsto> n\<lparr>ln_next := None\<rparr>) = hp_nodes h" using n nn by (auto simp: fun_eq_iff)
  obtain b bs' where bs: "bs = b # bs'" "q = Some b" using q(1) assms(5) by (cases bs) auto
  define h1 where "h1 = set_list d \<lparr>ll_size = 1 + (int (length bs) - 1), ll_head = q, ll_tail = Some c\<rparr> h"
  have s: "list_swapindex_withlist (Some d) 0 (Some l) h = Some (Some (hd bs), h1)"
    using c q(3) n assms(5) bs same
    by (auto simp: list_swapindex_withlist_def heap_ops h1_def last_ptr_def Let_def)
  have a: "alloc (hp_nodes h) = Some a" "hp_nodes h a = None" using assms(6,7) unfolding fresh_alloc_def by auto
  have na: "a \<noteq> c" "a \<notin> set bs" using a(2) c(1) chain_dom [OF q(1), of a] by auto
  define h2 where "h2 = set_list d \<lparr>ll_size = int (length bs) + 1, ll_head = q, ll_tail = Some a\<rparr>
    (h\<lparr>hp_nodes := (hp_nodes h)(a \<mapsto> \<lparr>ln_data = x, ln_next = None\<rparr>, c \<mapsto> k\<lparr>ln_next := Some a\<rparr>)\<rparr>)"
  have "list_append alloc (Some d) x h1 = Some (Some a, h2)"
    using a na bs c(1) by (auto simp: list_append_def heap_ops h1_def h2_def Let_def)
  moreover have "chain (hp_nodes h2) q bs" using q(1) na(2) assms(3) by (simp add: h2_def heap_ops)
  ultimately show ?thesis using s na(2) by (auto simp: h2_def heap_ops)
qed

section \<open>Dictionaries\<close>

text \<open>The nodes of a dictionary seen as nodes of a list, and its entries in order.\<close>

definition as_nodes :: "(nat \<rightharpoonup> dictNode) \<Rightarrow> nat \<rightharpoonup> listNode" where
  "as_nodes N a = map_option (\<lambda>n. \<lparr>ln_data = dn_value n, ln_next = dn_next n\<rparr>) (N a)"

definition entries_of :: "(nat \<rightharpoonup> dictNode) \<Rightarrow> nat list \<Rightarrow> (int \<times> ptr) list" where
  "entries_of N as = map (\<lambda>a. (dn_key (the (N a)), dn_value (the (N a)))) as"

definition is_dict :: "'a heap_scheme \<Rightarrow> nat \<Rightarrow> nat list \<Rightarrow> bool" where
  "is_dict h d as \<longleftrightarrow> (\<exists>p. chain (as_nodes (hp_dnodes h)) p as \<and>
     hp_dicts h d = Some \<lparr>ll_size = int (length as), ll_head = p, ll_tail = last_ptr as\<rparr>)"

lemma as_nodes_simps [simp]:
  "as_nodes (N(a \<mapsto> n)) = (as_nodes N)(a \<mapsto> \<lparr>ln_data = dn_value n, ln_next = dn_next n\<rparr>)"
  "as_nodes N a = None \<longleftrightarrow> N a = None"
  by (auto simp: as_nodes_def fun_eq_iff)

lemma as_nodes_SomeD: "as_nodes N a = Some m \<Longrightarrow> \<exists>n. N a = Some n \<and> m = \<lparr>ln_data = dn_value n, ln_next = dn_next n\<rparr>"
  by (auto simp: as_nodes_def)

lemma entries_of_simps [simp]:
  "entries_of N [] = []" "entries_of N (a # as) = (dn_key (the (N a)), dn_value (the (N a))) # entries_of N as"
  "entries_of N (as @ bs) = entries_of N as @ entries_of N bs"
  "a \<notin> set as \<Longrightarrow> entries_of (N(a := v)) as = entries_of N as"
  by (auto simp: entries_of_def)

lemmas dict_ops = set_dnode_def set_dict_def

lemma dict_append_appends:
  assumes "fresh_alloc alloc" "alloc (hp_dnodes h) = Some a" "is_dict h d as"
  shows "\<exists>h'. dict_append alloc d k v h = Some (Some a, h') \<and> is_dict h' d (as @ [a]) \<and>
    entries_of (hp_dnodes h') (as @ [a]) = entries_of (hp_dnodes h) as @ [(k, v)] \<and>
    (\<forall>d' bs. d' \<noteq> d \<longrightarrow> is_dict h d' bs \<longrightarrow> set bs \<inter> set as = {} \<longrightarrow>
      is_dict h' d' bs \<and> entries_of (hp_dnodes h') bs = entries_of (hp_dnodes h) bs \<and> a \<notin> set bs)"
proof -
  obtain p where p: "chain (as_nodes (hp_dnodes h)) p as"
    "hp_dicts h d = Some \<lparr>ll_size = int (length as), ll_head = p, ll_tail = last_ptr as\<rparr>"
    using assms(3) by (auto simp: is_dict_def)
  have dist: "distinct as" by (rule chain_distinct [OF p(1)])
  have new: "as_nodes (hp_dnodes h) a = None" using assms(1,2) by (simp add: fresh_alloc_def)
  then have na: "a \<notin> set as" using chain_dom [OF p(1), of a] by (auto simp del: as_nodes_simps)
  have nb: "a \<notin> set bs" if "is_dict h d' bs" for d' bs
    using that new chain_dom [of "as_nodes (hp_dnodes h)" _ bs a] by (auto simp: is_dict_def simp del: as_nodes_simps)
  show ?thesis
  proof (cases as rule: rev_cases)
    case Nil
    then show ?thesis using p assms(2) nb
      by (auto simp: dict_append_def Let_def dict_ops is_dict_def)
  next
    case (snoc cs t)
    obtain n where t: "hp_dnodes h t = Some n" using chain_dom [OF p(1), of t] snoc by (auto dest: as_nodes_SomeD)
    then have t': "as_nodes (hp_dnodes h) t = Some \<lparr>ln_data = dn_value n, ln_next = dn_next n\<rparr>" by (simp add: as_nodes_def)
    have pt: "p \<noteq> None" using p(1) snoc by (cases p) auto
    have "t \<noteq> a" "t \<notin> set cs" "a \<notin> set cs" using na snoc dist by auto
    then show ?thesis using p t t' pt snoc assms(2) nb
      by (auto simp: dict_append_def Let_def dict_ops is_dict_def chain_append seg_append)
  qed
qed

lemma get_loop_map_of:
  "chain (as_nodes (hp_dnodes h)) p as \<Longrightarrow> \<exists>r. get_loop k p h = Some r \<and>
    map_option (\<lambda>a. dn_value (the (hp_dnodes h a))) r = map_of (entries_of (hp_dnodes h) as) k"
proof (induction as arbitrary: p)
  case (Cons a as)
  then obtain n where n: "p = Some a" "hp_dnodes h a = Some n" "chain (as_nodes (hp_dnodes h)) (dn_next n) as"
    by (auto dest: as_nodes_SomeD)
  with Cons.IH [OF n(3)] show ?case by (subst get_loop.simps) auto
qed (simp add: get_loop.simps)

theorem dict_get_finds_first:
  assumes "is_dict h d as"
  shows "\<exists>r. dict_get (Some d) k h = Some r \<and>
    map_option (\<lambda>a. dn_value (the (hp_dnodes h a))) r = map_of (entries_of (hp_dnodes h) as) k"
  using assms get_loop_map_of by (fastforce simp: is_dict_def dict_get_def)

section \<open>Hash tables\<close>

text \<open>
  A table of well-formed dictionaries that share no node and hold the keys of their slot; \<open>ass\<close> are
  their nodes. It stands for a map from the keys to what was added first.
\<close>

definition is_htable :: "'a heap_scheme \<Rightarrow> hashTable \<Rightarrow> (nat \<Rightarrow> nat list) \<Rightarrow> bool" where
  "is_htable h t ass \<longleftrightarrow> length (ht_table t) = HASHTABLE_SIZE \<and> distinct (ht_table t) \<and>
     (\<forall>i<HASHTABLE_SIZE. is_dict h (ht_table t ! i) (ass i)) \<and>
     (\<forall>i<HASHTABLE_SIZE. \<forall>j<HASHTABLE_SIZE. i \<noteq> j \<longrightarrow> set (ass i) \<inter> set (ass j) = {}) \<and>
     (\<forall>i<HASHTABLE_SIZE. \<forall>(k, v)\<in>set (entries_of (hp_dnodes h) (ass i)). k mod int HASHTABLE_SIZE = int i) \<and>
     ht_size t = int (\<Sum>i<HASHTABLE_SIZE. length (ass i))"

definition htable_map :: "'a heap_scheme \<Rightarrow> (nat \<Rightarrow> nat list) \<Rightarrow> int \<rightharpoonup> ptr" where
  "htable_map h ass k = map_of (entries_of (hp_dnodes h) (ass (nat (k mod int HASHTABLE_SIZE)))) k"

lemma smod_nonneg: "0 \<le> k \<Longrightarrow> k smod 32 = k mod (32 :: int)"
  by (cases "k = 0") (simp_all add: signed_modulo_int_def)

theorem htable_get_looks_up:
  assumes "is_htable h t ass" "0 \<le> k"
  shows "\<exists>r. htable_get t k h = Some r \<and> map_option (\<lambda>a. dn_value (the (hp_dnodes h a))) r = htable_map h ass k"
proof -
  let ?i = "nat (k mod int HASHTABLE_SIZE)"
  have i: "?i < HASHTABLE_SIZE" by (simp add: nat_less_iff)
  then have "is_dict h (ht_table t ! ?i) (ass ?i)" using assms(1) by (simp add: is_htable_def)
  moreover have "htable_slot t k = Some (ht_table t ! ?i)" using assms(2) by (simp add: htable_slot_def smod_nonneg Let_def)
  ultimately show ?thesis using dict_get_finds_first by (fastforce simp: htable_get_def htable_map_def)
qed

text \<open>
  \<open>htable_append\<close> adds an entry to the map that the table represents; if the key is there already,
  the map stays as it was, since the look-up finds the older entry first.
\<close>

theorem htable_append_adds:
  assumes "is_htable h t ass" "0 \<le> k" "fresh_alloc alloc" "alloc (hp_dnodes h) = Some a"
  shows "\<exists>t' h' ass'. htable_append alloc t k v h = Some (Some a, t', h') \<and> is_htable h' t' ass' \<and>
    htable_map h' ass' = (if htable_map h ass k = None then (htable_map h ass)(k \<mapsto> v) else htable_map h ass)"
proof -
  let ?i = "nat (k mod int HASHTABLE_SIZE)"
  define ass' where "ass' = ass(?i := ass ?i @ [a])"
  have i: "?i < HASHTABLE_SIZE" by (simp add: nat_less_iff)
  have d: "is_dict h (ht_table t ! ?i) (ass ?i)" using assms(1) i by (simp add: is_htable_def)
  have sl: "htable_slot t k = Some (ht_table t ! ?i)" using assms(2) by (simp add: htable_slot_def smod_nonneg Let_def)
  obtain h' where h': "dict_append alloc (ht_table t ! ?i) k v h = Some (Some a, h')"
    "is_dict h' (ht_table t ! ?i) (ass ?i @ [a])"
    "entries_of (hp_dnodes h') (ass ?i @ [a]) = entries_of (hp_dnodes h) (ass ?i) @ [(k, v)]"
    "\<And>d' bs. d' \<noteq> ht_table t ! ?i \<Longrightarrow> is_dict h d' bs \<Longrightarrow> set bs \<inter> set (ass ?i) = {} \<Longrightarrow>
      is_dict h' d' bs \<and> entries_of (hp_dnodes h') bs = entries_of (hp_dnodes h) bs \<and> a \<notin> set bs"
    using dict_append_appends [OF assms(3,4) d] by blast
  have other: "is_dict h' (ht_table t ! j) (ass j) \<and> entries_of (hp_dnodes h') (ass j) = entries_of (hp_dnodes h) (ass j) \<and> a \<notin> set (ass j)"
    if "j < HASHTABLE_SIZE" "j \<noteq> ?i" for j
    using that i assms(1) by (intro h'(4)) (auto simp: is_htable_def nth_eq_iff_index_eq)
  have sum: "(\<Sum>j<HASHTABLE_SIZE. length (ass' j)) = Suc (\<Sum>j<HASHTABLE_SIZE. length (ass j))"
  proof -
    have "(\<Sum>j<HASHTABLE_SIZE. length (ass' j)) = (\<Sum>j<HASHTABLE_SIZE. length (ass j) + (if j = ?i then 1 else 0))"
      by (rule sum.cong) (auto simp: ass'_def)
    also have "\<dots> = Suc (\<Sum>j<HASHTABLE_SIZE. length (ass j))" using i by (simp add: sum.distrib del: sum.lessThan_Suc)
    finally show ?thesis .
  qed
  have keys: "k' mod int HASHTABLE_SIZE = int j" if "j < HASHTABLE_SIZE" "(k', v') \<in> set (entries_of (hp_dnodes h) (ass j))" for j k' v'
    using assms(1) that unfolding is_htable_def by blast
  have ent: "entries_of (hp_dnodes h') (ass' j) =
      (if j = ?i then entries_of (hp_dnodes h) (ass j) @ [(k, v)] else entries_of (hp_dnodes h) (ass j))"
    if "j < HASHTABLE_SIZE" for j using h'(3) other [OF that] by (auto simp: ass'_def)
  have "is_htable h' (t\<lparr>ht_size := ht_size t + 1\<rparr>) ass'"
    unfolding is_htable_def
  proof (intro conjI allI impI ballI)
    show "length (ht_table (t\<lparr>ht_size := ht_size t + 1\<rparr>)) = HASHTABLE_SIZE" "distinct (ht_table (t\<lparr>ht_size := ht_size t + 1\<rparr>))"
      using assms(1) by (simp_all add: is_htable_def)
    show "is_dict h' (ht_table (t\<lparr>ht_size := ht_size t + 1\<rparr>) ! j) (ass' j)" if "j < HASHTABLE_SIZE" for j
      using that other h'(2) by (auto simp: ass'_def)
    show "set (ass' j) \<inter> set (ass' j') = {}" if "j < HASHTABLE_SIZE" "j' < HASHTABLE_SIZE" "j \<noteq> j'" for j j'
    proof -
      have "set (ass j) \<inter> set (ass j') = {}" using assms(1) that by (simp add: is_htable_def)
      then show ?thesis using other [of j] other [of j'] that by (auto simp: ass'_def)
    qed
    show "case kv of (k', v') \<Rightarrow> k' mod int HASHTABLE_SIZE = int j"
      if "j < HASHTABLE_SIZE" "kv \<in> set (entries_of (hp_dnodes h') (ass' j))" for j kv
    proof -
      obtain k' v' where kv: "kv = (k', v')" by fastforce
      have "kv \<in> set (entries_of (hp_dnodes h) (ass j)) \<or> j = ?i \<and> kv = (k, v)"
        using that(2) unfolding ent [OF that(1)] by (auto simp only: set_append list.set Un_iff empty_iff insert_iff split: if_splits)
      then show ?thesis
      proof
        assume "kv \<in> set (entries_of (hp_dnodes h) (ass j))"
        then show ?thesis using keys [OF that(1), of k' v'] kv by simp
      qed (simp add: kv)
    qed
    show "ht_size (t\<lparr>ht_size := ht_size t + 1\<rparr>) = int (\<Sum>j<HASHTABLE_SIZE. length (ass' j))"
      using assms(1) sum by (simp add: is_htable_def)
  qed
  moreover have "htable_map h' ass' = (if htable_map h ass k = None then (htable_map h ass)(k \<mapsto> v) else htable_map h ass)"
  proof
    fix k'
    let ?j = "nat (k' mod int HASHTABLE_SIZE)"
    have j: "?j < HASHTABLE_SIZE" by (simp add: nat_less_iff)
    show "htable_map h' ass' k' = (if htable_map h ass k = None then (htable_map h ass)(k \<mapsto> v) else htable_map h ass) k'"
    proof (cases "?j = ?i")
      case True
      then show ?thesis using h'(3)
        by (auto simp: htable_map_def ass'_def map_of_append map_add_def split: option.splits)
    next
      case False
      then have "k' \<noteq> k" by auto
      then show ?thesis using False other [OF j False] by (simp add: htable_map_def ass'_def)
    qed
  qed
  ultimately show ?thesis using h'(1) sl by (fastforce simp: htable_append_def)
qed

text \<open>A negative key that is no multiple of 32 has no slot: the code reads before the table.\<close>

theorem negative_key_has_no_slot:
  "htable_slot t k = None \<longleftrightarrow> k < 0 \<and> k mod int HASHTABLE_SIZE \<noteq> 0"
proof (cases "k < 0")
  case True
  have "k smod 32 = - (- k mod 32)" using True by (simp add: signed_modulo_int_def signed_divide_int_def minus_div_mult_eq_mod [symmetric])
  moreover have "- k mod 32 = 0 \<longleftrightarrow> k mod 32 = 0" by (simp add: mod_eq_0_iff_dvd)
  moreover have "0 \<le> - k mod 32" by simp
  ultimately show ?thesis using True by (auto simp: htable_slot_def Let_def)
qed (simp add: htable_slot_def Let_def smod_nonneg not_less)

section \<open>Witnesses\<close>

text \<open>
  A heap with the lists \<open>[21, 22, 23]\<close> at 100, \<open>[24, 25]\<close> at 200 and \<open>[26]\<close> at 300, and 32 empty
  dictionaries; the allocator gives address 9 while it is free.
\<close>

definition sample_heap :: heap where
  "sample_heap = \<lparr>hp_nodes = [21 \<mapsto> \<lparr>ln_data = Some 11, ln_next = Some 22\<rparr>, 22 \<mapsto> \<lparr>ln_data = Some 12, ln_next = Some 23\<rparr>,
       23 \<mapsto> \<lparr>ln_data = Some 13, ln_next = None\<rparr>, 24 \<mapsto> \<lparr>ln_data = Some 14, ln_next = Some 25\<rparr>,
       25 \<mapsto> \<lparr>ln_data = Some 15, ln_next = None\<rparr>, 26 \<mapsto> \<lparr>ln_data = Some 16, ln_next = None\<rparr>],
     hp_lists = [100 \<mapsto> \<lparr>ll_size = 3, ll_head = Some 21, ll_tail = Some 23\<rparr>,
       200 \<mapsto> \<lparr>ll_size = 2, ll_head = Some 24, ll_tail = Some 25\<rparr>, 300 \<mapsto> \<lparr>ll_size = 1, ll_head = Some 26, ll_tail = Some 26\<rparr>],
     hp_dnodes = Map.empty, hp_dicts = (\<lambda>d. if d < 32 then Some EMPTY_LINKEDLIST else None), hp_data = {11, 12, 13}\<rparr>"

definition sample_alloc :: "(nat \<rightharpoonup> 'n) \<Rightarrow> ptr" where
  "sample_alloc N = (if N 9 = None then Some 9 else None)"

lemma sample_alloc_fresh [simp]: "fresh_alloc sample_alloc"
  by (auto simp: fresh_alloc_def sample_alloc_def split: if_splits)

lemma sample_lists [simp]:
  "is_list sample_heap 100 [21, 22, 23]" "is_list sample_heap 200 [24, 25]" "is_list sample_heap 300 [26]"
  "sample_alloc (hp_nodes sample_heap) = Some 9" "sample_alloc (hp_dnodes sample_heap) = Some 9"
  "data_of (hp_nodes sample_heap) [21, 22, 23] = [Some 11, Some 12, Some 13]"
  by (simp_all add: is_list_def sample_heap_def last_ptr_def sample_alloc_def data_of_def)

lemma sample_table [simp]: "is_htable sample_heap \<lparr>ht_size = 0, ht_table = [0..<32]\<rparr> (\<lambda>_. [])"
  by (auto simp: is_htable_def is_dict_def sample_heap_def EMPTY_LINKEDLIST_def last_ptr_def entries_of_def)

theorem list_append_appends_witness:
  "\<exists>h'. list_append sample_alloc (Some 100) (Some 17) sample_heap = Some (Some 9, h') \<and> is_list h' 100 [21, 22, 23, 9]"
  using list_append_appends [OF sample_alloc_fresh sample_lists(4,1), of "Some 17"] by auto

theorem list_remove_removes_witness:
  "\<exists>a h' cs. list_remove (Some 100) (Some 12) sample_heap = Some (Some a, h') \<and>
    is_list h' 100 cs \<and> data_of (hp_nodes h') cs = [Some 11, Some 13]"
proof -
  have "data_of (hp_nodes sample_heap) [21, 22, 23] = [Some 11, Some 12, Some 13]" by (rule sample_lists(6))
  from list_remove_removes [OF sample_lists(1) this, of "Some 12"] show ?thesis by fastforce
qed

theorem list_destroy_frees_witness:
  "\<exists>h'. list_destroy_deep (Some 100) sample_heap = Some h' \<and> is_list h' 100 [] \<and> hp_data h' = {}"
  using list_destroy_frees [OF sample_lists(1), of "[11, 12, 13]"] by (auto simp: sample_heap_def)

theorem list_swapindex_replaces_witness:
  "\<exists>h'. list_swapindex_withlist (Some 100) 1 (Some 200) sample_heap = Some (Some 22, h') \<and> is_list h' 100 [21, 24, 25, 23]"
  using list_swapindex_replaces [OF sample_lists(1,2), of 1] by auto

theorem swap_of_single_element_loses_appends_witness:
  "\<exists>h1 h2 D. list_swapindex_withlist (Some 300) 0 (Some 200) sample_heap = Some (Some 24, h1) \<and>
    list_append sample_alloc (Some 300) x h1 = Some (Some 9, h2) \<and> hp_lists h2 300 = Some D \<and>
    ll_size D = 3 \<and> chain (hp_nodes h2) (ll_head D) [24, 25]"
  using swap_of_single_element_loses_appends [OF sample_lists(3,2) _ _ _ sample_alloc_fresh sample_lists(4), of x] by simp

theorem htable_append_adds_witness:
  "\<exists>t' h' ass'. htable_append sample_alloc \<lparr>ht_size = 0, ht_table = [0..<32]\<rparr> 37 (Some 2) sample_heap = Some (Some 9, t', h') \<and>
    is_htable h' t' ass' \<and> htable_map h' ass' 37 = Some (Some 2)"
  using htable_append_adds [OF sample_table _ sample_alloc_fresh sample_lists(5), of 37 "Some 2"]
  by (fastforce simp: htable_map_def [of sample_heap])

end
