(* ===== verification/NL_Game.thy ===== *)
theory NL_Game
  imports NL_N64
begin

text \<open>
  What the example games share in their use of \<^verbatim>\<open>netlib.c\<close>: the heartbeat callback of their
  \<^verbatim>\<open>packets.c\<close>, checked access to arrays, and the locale of games whose callbacks keep an
  invariant, with the facts about \<open>netlib_poll\<close> that follow.
\<close>

section \<open>Sequencing and arrays\<close>

definition rob :: "'a result option \<Rightarrow> ('a \<Rightarrow> 'b result option) \<Rightarrow> 'b result option" where
  "rob r f = (case r of None \<Rightarrow> None | Some (Inl e) \<Rightarrow> Some (Inl e) | Some (Inr a) \<Rightarrow> f a)"

lemma rob_simps [simp]:
  "rob None f = None" "rob (Some (Inl e)) f = Some (Inl e)" "rob (Some (Inr a)) f = f a"
  by (simp_all add: rob_def)

lemma rob_Some [simp]: "rob (Some r) (\<lambda>a. Some (f a)) = Some (rbind r f)"
  by (simp add: rob_def rbind_def split: sum.splits)

text \<open>Reading and writing an array at an index computed as a C \<open>int\<close>.\<close>

definition aget :: "'a list \<Rightarrow> int \<Rightarrow> 'a result" where
  "aget xs i = (if 0 \<le> i \<and> nat i < length xs then Inr (xs ! nat i) else Inl OutOfBounds)"

definition aput :: "'a list \<Rightarrow> int \<Rightarrow> 'a \<Rightarrow> 'a list result" where
  "aput xs i v = (if 0 \<le> i \<and> nat i < length xs then Inr (xs[nat i := v]) else Inl OutOfBounds)"

lemma aget_inside [simp]: "0 \<le> i \<Longrightarrow> nat i < length xs \<Longrightarrow> aget xs i = Inr (xs ! nat i)"
  by (simp add: aget_def)

lemma aput_inside [simp]: "0 \<le> i \<Longrightarrow> nat i < length xs \<Longrightarrow> aput xs i v = Inr (xs[nat i := v])"
  by (simp add: aput_def)

section \<open>The heartbeat callback\<close>

text \<open>\<open>netlib_readbyte\<close> into a variable of one byte that holds \<open>old\<close>.\<close>

definition read8 :: "byte \<Rightarrow> 'a n64_scheme \<Rightarrow> byte \<times> 'a n64_scheme" where
  "read8 old g = (case netlib_readbyte [old] g of (bs, g) \<Rightarrow> (bs ! 0, g))"

definition PACKETID_ACKBEAT :: byte where
  "PACKETID_ACKBEAT = 0"

text \<open>The answer is sent from inside \<open>netlib_poll\<close>, so the poll is entered again.\<close>

definition netcallback_heartbeat ::
    "nat \<Rightarrow> 'a game \<Rightarrow> u64 \<Rightarrow> 'a n64_scheme \<Rightarrow> 'a n64_scheme result option" where
  "netcallback_heartbeat fuel game curtime g =
     netlib_sendtoserver fuel game curtime (netlib_start PACKETID_ACKBEAT g)"

section \<open>The library's own state\<close>

text \<open>
  \<open>lib_ok\<close> holds from \<open>netlib_initialize\<close> on. \<open>lib_part\<close> changes only what belongs to the
  library: the USB state, the packet being written, the time of the last packet.
\<close>

definition lib_ok :: "'a n64_scheme \<Rightarrow> bool" where
  "lib_ok g \<longleftrightarrow> ready g \<and> usb_cart (n64_usb g) \<noteq> CART_NONE \<and>
     (global_sendafterpoll g \<longrightarrow> unat (global_writecursize g) \<le> 4096)"

definition same_game :: "'a n64_scheme \<Rightarrow> 'a n64_scheme \<Rightarrow> bool" where
  "same_game g g' \<longleftrightarrow> g' = g\<lparr>global_writecursize := global_writecursize g', global_writebuffer := global_writebuffer g',
     global_lastpkt := global_lastpkt g', global_sendafterpoll := global_sendafterpoll g',
     global_disconnected := global_disconnected g', n64_usb := n64_usb g'\<rparr>"

lemma same_gameI:
  "global_timeouttime g' = global_timeouttime g \<Longrightarrow> global_clnumber g' = global_clnumber g \<Longrightarrow>
   global_funcptr_disconnect g' = global_funcptr_disconnect g \<Longrightarrow> global_funcptr_reconnect g' = global_funcptr_reconnect g \<Longrightarrow>
   global_funcptrs g' = global_funcptrs g \<Longrightarrow> n64.more g' = n64.more g \<Longrightarrow> same_game g g'"
  by (cases g; cases g') (simp add: same_game_def)

lemma same_gameD:
  assumes "same_game g g'"
  shows "global_timeouttime g' = global_timeouttime g" "global_clnumber g' = global_clnumber g"
    "global_funcptr_disconnect g' = global_funcptr_disconnect g" "global_funcptr_reconnect g' = global_funcptr_reconnect g"
    "global_funcptrs g' = global_funcptrs g" "n64.more g' = n64.more g"
  by (subst assms [unfolded same_game_def], simp)+

lemma same_game_refl [simp]: "same_game g g" by (rule same_gameI) simp_all

lemma same_game_trans: "same_game g h \<Longrightarrow> same_game h k \<Longrightarrow> same_game g k"
  by (rule same_gameI) (simp_all add: same_gameD)

lemma same_rest_same_game: "same_rest g g' \<Longrightarrow> same_game g g'"
  unfolding same_rest_def by (cases g; cases g') (simp add: same_game_def)

text \<open>Messages from the cartridge: anything that is no net packet, or a packet for a callback.\<close>

definition message_ok :: "(byte \<Rightarrow> byte list \<Rightarrow> bool) \<Rightarrow> byte \<times> byte list \<Rightarrow> bool" where
  "message_ok good m \<longleftrightarrow> fst m \<noteq> 0 \<and> (fst m = DATATYPE_NETPACKET \<longrightarrow>
     (\<exists>pkt. NetLib_wf pkt \<and> snd m = NetLib_wire pkt \<and> unat (NetLibPacket_GetType pkt) < MAX_UNIQUEPACKETS \<and>
        good (NetLibPacket_GetType pkt) (m_Data pkt)))"

abbreviation waiting :: "'a n64_scheme \<Rightarrow> (byte \<times> byte list) list" where
  "waiting g \<equiv> usb_waiting (n64_usb g)"

text \<open>The server's messages reach the cartridge.\<close>

definition messages_arrive :: "(byte \<times> byte list) list \<Rightarrow> 'a n64_scheme \<Rightarrow> 'a n64_scheme" where
  "messages_arrive ms g = g\<lparr>n64_usb := (n64_usb g)\<lparr>usb_waiting := waiting g @ ms\<rparr>\<rparr>"

lemma warn_same [simp]:
  "same_game g (warn m g)" "lib_ok (warn m g) = lib_ok g" "waiting (warn m g) = waiting g"
  "usb_dataleft (n64_usb (warn m g)) = usb_dataleft (n64_usb g)"
  by (auto intro!: same_gameI simp: warn_def on_usb_def usb_write_def lib_ok_def ready_def fixed_header_def split: prod.split)

lemma on_usb_same [simp]: "same_game g (on_usb f g)"
  by (rule same_gameI) (simp_all add: on_usb_def)

lemma set_usb_same [simp]: "same_game g (g\<lparr>n64_usb := u\<rparr>)"
  by (rule same_gameI) simp_all

lemma ready_cong:
  assumes "global_writebuffer g' = global_writebuffer g" "global_funcptrs g' = global_funcptrs g"
  shows "ready g' = ready g"
  using assms by (simp add: ready_def fixed_header_def)

lemma lib_ok_cong:
  assumes "global_writebuffer g' = global_writebuffer g" "global_funcptrs g' = global_funcptrs g"
    "usb_cart (n64_usb g') = usb_cart (n64_usb g)" "global_writecursize g' = global_writecursize g"
    "global_sendafterpoll g' \<longrightarrow> global_sendafterpoll g" "lib_ok g"
  shows "lib_ok g'"
  using assms ready_cong [OF assms(1,2)] by (auto simp: lib_ok_def)

lemma send_queued_ok:
  assumes "lib_ok g"
  shows "\<exists>g'. send_queued g = Inr g' \<and> lib_ok g' \<and> same_game g g' \<and> waiting g' = waiting g \<and>
    usb_dataleft (n64_usb g') = usb_dataleft (n64_usb g)"
proof (cases "global_sendafterpoll g")
  case True
  have "rdn (global_writebuffer g) 0 (unat (global_writecursize g)) =
      Inr (take (unat (global_writecursize g)) (global_writebuffer g))"
    using assms True by (simp add: lib_ok_def ready_def rdn_def)
  then show ?thesis using assms True
    by (auto simp: send_queued_def usb_write_def intro!: same_gameI elim!: lib_ok_cong [rotated -1] split: prod.split)
qed (use assms in \<open>simp add: send_queued_def\<close>)

section \<open>Building packets\<close>

lemma start_ok:
  assumes "lib_ok g"
  shows "n64_inv (netlib_setflags fl (netlib_start ty g))" "lib_ok (netlib_setflags fl (netlib_start ty g))"
    "same_game g (netlib_setflags fl (netlib_start ty g))"
    "n64_usb (netlib_setflags fl (netlib_start ty g)) = n64_usb g"
    "global_writecursize (netlib_setflags fl (netlib_start ty g)) = 18"
proof -
  let ?h = "netlib_setflags fl (netlib_start ty g)"
  have r: "ready g" "usb_cart (n64_usb g) \<noteq> CART_NONE" using assms by (simp_all add: lib_ok_def)
  note st = ready_start [OF r(1), of fl ty]
  show "n64_inv ?h" "global_writecursize ?h = 18" by (rule st)+
  show u: "n64_usb ?h = n64_usb g" by (simp add: netlib_setflags_def netlib_start_def)
  show "lib_ok ?h" using st(1,2,6) r(2) u by (simp add: lib_ok_def ready_def n64_inv_def)
  show "same_game g ?h" by (rule same_gameI) (simp_all add: netlib_setflags_def netlib_start_def)
qed

lemma start_is_setflags: "length (global_writebuffer g) = 4096 \<Longrightarrow> netlib_start ty g = netlib_setflags 0 (netlib_start ty g)"
  by (simp add: netlib_start_def netlib_setflags_def)

lemma build_ok:
  assumes "lib_ok g" "length (concat (map write_bytes ws)) \<le> 4078"
  shows "\<exists>g'. netlib_write_all ws (netlib_setflags fl (netlib_start ty g)) = Inr g' \<and> n64_inv g' \<and> fixed_header g' \<and>
    lib_ok g' \<and> same_game g g' \<and> n64_usb g' = n64_usb g \<and>
    global_disconnected g' = global_disconnected g \<and> global_lastpkt g' = global_lastpkt g \<and>
    (\<forall>r. built_packet r g' = (console_pkt ty fl (concat (map write_bytes ws)))\<lparr>m_Derived := NetLib ty r\<rparr>)"
proof -
  let ?h = "netlib_setflags fl (netlib_start ty g)"
  have r: "ready g" "usb_cart (n64_usb g) \<noteq> CART_NONE" using assms(1) by (simp_all add: lib_ok_def)
  note st = start_ok [OF assms(1), of fl ty]
  from netlib_write_all_fits [OF st(1), of ws] assms(2) st(5)
  obtain g' where g': "netlib_write_all ws ?h = Inr g'" "n64_inv g'" "same_rest ?h g'"
    "unat (global_writecursize g') = 18 + length (concat (map write_bytes ws))" by auto
  note c = console_packet [OF r(1) assms(2) g'(1)]
  have u: "n64_usb g' = n64_usb g" using same_rest_start(1) [OF g'(3)] .
  have "lib_ok g'" using g'(2,4) c r(2) u assms(2) by (simp add: lib_ok_def ready_def n64_inv_def)
  moreover have "same_game g g'" by (rule same_game_trans [OF st(3) same_rest_same_game [OF g'(3)]])
  moreover have "global_disconnected g' = global_disconnected g" "global_lastpkt g' = global_lastpkt g"
    by (subst g'(3) [unfolded same_rest_def], simp add: netlib_setflags_def netlib_start_def)+
  ultimately show ?thesis using g'(1,2) c u by (auto simp: console_pkt_def)
qed

lemma put_header_ok:
  assumes "lib_ok g" "n64_inv g" "fixed_header g"
  shows "lib_ok (put_header r g)" "same_game g (put_header r g)" "n64_usb (put_header r g) = n64_usb g"
proof -
  have b: "length (global_writebuffer g) = 4096" using assms(2) by (simp add: n64_inv_def)
  have "fixed_header (put_header r g)" using assms(3) b
    by (simp add: fixed_header_def put_header_def Let_def drop_take)
  then show "lib_ok (put_header r g)" using assms b
    by (simp add: lib_ok_def ready_def n64_inv_def put_header_def Let_def be32_def be16_def)
  show "same_game g (put_header r g)" by (rule same_gameI) (simp_all add: put_header_def Let_def)
  show "n64_usb (put_header r g) = n64_usb g" by (simp add: put_header_def Let_def)
qed

text \<open>
  A poll at a moment when no callback on the connection is due: with nothing waiting it only
  writes the queued packet.
\<close>

definition calm :: "u64 \<Rightarrow> 'a n64_scheme \<Rightarrow> bool" where
  "calm t g \<longleftrightarrow> (if global_disconnected g then \<not> global_lastpkt g + ucast (global_timeouttime g) > t
     else \<not> global_lastpkt g + ucast (global_timeouttime g) < t \<and> \<not> usb_timedout (n64_usb g))"

lemma poll_connection_calm: "calm t g \<Longrightarrow> poll_connection game t g = Some (Inr g)"
  by (auto simp: calm_def poll_connection_def)

definition sent_out :: "byte list \<Rightarrow> 'a n64_scheme \<Rightarrow> 'a n64_scheme" where
  "sent_out bs g = g\<lparr>n64_usb := (n64_usb g)\<lparr>usb_datatype := 0, usb_datasize := 0, usb_didtimeout := False,
     usb_written := usb_written (n64_usb g) @ [(DATATYPE_NETPACKET, bs)]\<rparr>, global_sendafterpoll := False\<rparr>"

lemma poll_delivers_after:
  assumes "n64_inv g" "fixed_header g" "usb_cart (n64_usb g) \<noteq> CART_NONE" "waiting g = []" "usb_dataleft (n64_usb g) = 0"
    and "\<forall>d. usb_accepts (n64_usb g) DATATYPE_NETPACKET d"
    and "poll_connection game t (put_header r g) = Some (Inr ((put_header r g)\<lparr>global_disconnected := d\<rparr>))"
  shows "netlib_poll fuel game t (put_header r g) =
    Some (Inr (sent_out (NetLib_wire (built_packet r g)) ((put_header r g)\<lparr>global_disconnected := d\<rparr>)))"
proof -
  let ?h = "put_header r g"
  have s: "global_sendafterpoll ?h" "global_writecursize ?h = global_writecursize g" "n64_usb ?h = n64_usb g"
    by (simp_all add: put_header_def Let_def)
  have p: "usb_poll (n64_usb g) = (0, (n64_usb g)\<lparr>usb_datatype := 0, usb_datasize := 0\<rparr>)"
    using assms(3-5) by (simp add: usb_poll_def)
  have l: "poll_loop fuel game t 0 k = Some (Inr (True, k))" for k by (cases fuel) simp_all
  show ?thesis using assms(3-6)
    by (simp add: netlib_poll_def assms(7) s p l send_queued_def put_header_wire [OF assms(1,2)] usb_write_def usb_accepts_def sent_out_def Let_def)
qed

lemma poll_delivers:
  assumes "lib_ok g" "n64_inv g" "fixed_header g" "calm t g" "waiting g = []" "usb_dataleft (n64_usb g) = 0"
    and "\<forall>d. usb_accepts (n64_usb g) DATATYPE_NETPACKET d"
  shows "netlib_poll fuel game t (put_header r g) =
    Some (Inr (sent_out (NetLib_wire (built_packet r g)) (put_header r g)))"
proof -
  have "calm t (put_header r g)" using assms(4) by (simp add: calm_def put_header_def Let_def)
  then have "poll_connection game t (put_header r g) =
      Some (Inr ((put_header r g)\<lparr>global_disconnected := global_disconnected (put_header r g)\<rparr>))"
    using poll_connection_calm by simp
  moreover have "usb_cart (n64_usb g) \<noteq> CART_NONE" using assms(1) by (simp add: lib_ok_def)
  ultimately show ?thesis using poll_delivers_after [OF assms(2,3) _ assms(5-7), of game t r _ fuel] by fastforce
qed

text \<open>
  The same poll while one heartbeat waits to be read and the game answers it from its callback:
  the answer takes the buffer and the send flag of the packet that was to go out. Only the answer
  is written.
\<close>

lemma calm_cong:
  assumes "calm t g" "same_game g g'" "global_disconnected g' = global_disconnected g" "global_lastpkt g' = global_lastpkt g"
    "usb_didtimeout (n64_usb g') = usb_didtimeout (n64_usb g)"
  shows "calm t g'"
  using assms(1,3-5) same_gameD(1) [OF assms(2)] by (cases "global_disconnected g") (simp_all add: calm_def usb_timedout_def)

lemma reply_destroys_packet:
  assumes "lib_ok g" "n64_inv g" "fixed_header g" "calm t g" "usb_dataleft (n64_usb g) = 0"
    and "\<forall>d. usb_accepts (n64_usb g) DATATYPE_NETPACKET d"
    and "waiting g = [(DATATYPE_NETPACKET, NetLib_wire hb)]" "NetLib_wf hb"
    and "NetLibPacket_GetType hb = PACKETID_ACKBEAT" "m_Data hb = []" "global_funcptrs g ! 0 = Some f"
    and "\<And>sz gd. game_on_packet game f sz gd = netcallback_heartbeat fuel' game' t gd"
  shows "\<exists>g'. netlib_poll (Suc fuel) game t (put_header r g) = Some (Inr g') \<and> same_game g g' \<and>
    usb_written (n64_usb g') = usb_written (n64_usb g) @ [(DATATYPE_NETPACKET, NetLib_wire (console_pkt PACKETID_ACKBEAT 0 []))]"
proof -
  let ?h = "put_header r g"
  note h = put_header_ok [OF assms(1-3), of r]
  have cart: "usb_cart (n64_usb g) \<noteq> CART_NONE" using assms(1) by (simp add: lib_ok_def)
  have ch: "calm t ?h" using h(3) by (intro calm_cong [OF assms(4) h(2)]) (simp_all add: put_header_def Let_def)
  let ?u = "(n64_usb g)\<lparr>usb_datatype := DATATYPE_NETPACKET, usb_datasize := length (NetLib_wire hb),
    usb_dataleft := length (NetLib_wire hb), usb_msg := NetLib_wire hb, usb_waiting := []\<rparr>"
  have p: "usb_poll (n64_usb ?h) = (DATATYPE_NETPACKET, ?u)" using cart assms(5,7) by (simp add: usb_poll_def h(3))
  let ?q = "?h\<lparr>n64_usb := ?u\<rparr>"
  have okq: "lib_ok ?q" by (rule lib_ok_cong [OF _ _ _ _ _ h(1)]) (simp_all add: h(3))
  have at: "usb_at (n64_usb ?q) (NetLib_wire hb)" using cart by (simp add: usb_at_def)
  have len: "unat (NetLibPacket_GetType hb) < length (global_funcptrs ?q)"
    using okq by (simp add: lib_ok_def ready_def assms(9) PACKETID_ACKBEAT_def)
  let ?d = "on_usb (\<lambda>u. u\<lparr>usb_dataleft := length (m_Data hb)\<rparr>) ?q"
  have fp: "global_funcptrs ?q ! unat (NetLibPacket_GetType hb) = Some f"
    using assms(11) same_gameD(5) [OF h(2)] by (simp add: assms(9) PACKETID_ACKBEAT_def)
  have okd: "lib_ok ?d" by (rule lib_ok_cong [OF _ _ _ _ _ okq]) (simp_all add: on_usb_def)
  let ?b = "netlib_setflags 0 (netlib_start PACKETID_ACKBEAT ?d)"
  have b: "netlib_start PACKETID_ACKBEAT ?d = ?b"
    using okd by (intro start_is_setflags) (simp add: lib_ok_def ready_def)
  note st = start_ok [OF okd, of 0 PACKETID_ACKBEAT]
  have bp: "built_packet 0 ?b = console_pkt PACKETID_ACKBEAT 0 []"
    using console_packet [of ?d "[]" 0 PACKETID_ACKBEAT ?b 0] okd by (simp add: lib_ok_def console_pkt_def)
  have fb: "fixed_header ?b" using st(2) by (simp add: lib_ok_def ready_def)
  have "same_game g ?d" by (rule same_game_trans [OF same_game_trans [OF h(2) set_usb_same] on_usb_same])
  then have sb: "same_game g ?b" using st(3) by (rule same_game_trans)
  have cb: "calm t ?b"
    using st(4) by (intro calm_cong [OF assms(4) sb])
      (simp_all add: netlib_setflags_def netlib_start_def on_usb_def put_header_def Let_def)
  have ub: "n64_usb ?b = ?u\<lparr>usb_dataleft := 0\<rparr>" using st(4) by (simp add: assms(10) on_usb_def)
  let ?r = "sent_out (NetLib_wire (console_pkt PACKETID_ACKBEAT 0 [])) (put_header 0 ?b)"
  have "netlib_poll fuel' game' t (put_header 0 ?b) = Some (Inr ?r)"
    using poll_delivers [OF st(2,1) fb cb, of fuel' game' 0] ub assms(6) by (simp add: bp)
  then have pp: "poll_packet game t ?q = Some (Inr (True, ?r\<lparr>global_lastpkt := t\<rparr>))"
    using poll_packet_call(2) [OF assms(8) at len, of game t] fp b
    by (simp add: assms(12) netcallback_heartbeat_def netlib_sendtoserver_def)
  have ur: "n64_usb ?r = ?u\<lparr>usb_dataleft := 0, usb_datatype := 0, usb_datasize := 0, usb_didtimeout := False,
      usb_written := usb_written (n64_usb g) @ [(DATATYPE_NETPACKET, NetLib_wire (console_pkt PACKETID_ACKBEAT 0 []))]\<rparr>"
    using put_header_ok(3) [OF st(2,1) fb, of 0] ub by (simp add: sent_out_def)
  have sr: "same_game g ?r"
    by (rule same_game_trans [OF sb same_game_trans [OF put_header_ok(2) [OF st(2,1) fb]]], rule same_gameI)
      (simp_all add: sent_out_def)
  let ?e = "?r\<lparr>global_lastpkt := t, n64_usb := n64_usb ?r\<rparr>"
  have l: "poll_loop fuel game t 0 k = Some (Inr (True, k))" for k by (cases fuel) simp_all
  have pe: "usb_poll (usb_purge (n64_usb ?r)) = (0, n64_usb ?r)" using cart ur by (simp add: usb_poll_def usb_purge_def)
  have nz: "DATATYPE_NETPACKET \<noteq> 0" by (simp add: DATATYPE_NETPACKET_def)
  have "poll_loop (Suc fuel) game t DATATYPE_NETPACKET ?q = Some (Inr (True, ?e))"
    using pp pe nz by (simp add: l on_usb_def)
  moreover have "send_queued ?e = Inr ?e" by (simp add: send_queued_def sent_out_def)
  ultimately have "netlib_poll (Suc fuel) game t ?h = Some (Inr ?e)"
    using poll_connection_calm [OF ch, of game] p by (simp add: netlib_poll_def)
  moreover have "same_game g ?e" by (rule same_game_trans [OF sr], rule same_gameI) simp_all
  ultimately show ?thesis using ur by auto
qed

section \<open>Games that keep an invariant\<close>

text \<open>
  A game whose callbacks return for every admitted packet and keep the invariant \<open>I\<close>, while at
  most \<open>n\<close> messages are waiting behind it; \<open>good\<close> says which data a packet type may have. The
  callbacks may poll again, so messages may be gone when they return.
\<close>

definition consumed :: "'a n64_scheme \<Rightarrow> 'a n64_scheme \<Rightarrow> bool" where
  "consumed g g' \<longleftrightarrow> (\<exists>k. waiting g' = drop k (waiting g))"

lemma consumed_refl [simp]: "consumed g g" by (simp add: consumed_def exI [of _ 0])

lemma consumed_eq: "waiting g' = waiting g \<Longrightarrow> consumed g g'" by (simp add: consumed_def exI [of _ 0])

lemma consumed_trans: "consumed g h \<Longrightarrow> consumed h k \<Longrightarrow> consumed g k"
  by (auto simp: consumed_def)

lemma consumedD:
  assumes "consumed g g'" "list_all P (waiting g)"
  shows "list_all P (waiting g')" "length (waiting g') \<le> length (waiting g)"
proof -
  obtain k where k: "waiting g' = drop k (waiting g)" using assms(1) by (auto simp: consumed_def)
  have "set (waiting g') \<subseteq> set (waiting g)" unfolding k by (rule set_drop_subset)
  then show "list_all P (waiting g')" using assms(2) by (auto simp only: list_all_iff)
  show "length (waiting g') \<le> length (waiting g)" by (simp add: k)
qed

locale game_keeps =
  fixes game :: "'a game" and t :: u64 and n :: nat
    and I :: "'a n64_scheme \<Rightarrow> bool" and good :: "byte \<Rightarrow> byte list \<Rightarrow> bool"
  assumes I_same: "same_game g g' \<Longrightarrow> I g \<Longrightarrow> I g'"
    and event: "lib_ok g \<Longrightarrow> I g \<Longrightarrow> global_funcptr_disconnect g = Some f \<or> global_funcptr_reconnect g = Some f \<Longrightarrow>
      \<exists>g'. game_on_event game f g = Some (Inr g') \<and> lib_ok g' \<and> I g' \<and> n64_usb g' = n64_usb g"
    and packet: "lib_ok g \<Longrightarrow> I g \<Longrightarrow> unat ty < MAX_UNIQUEPACKETS \<Longrightarrow> global_funcptrs g ! unat ty = Some f \<Longrightarrow>
      good ty d \<Longrightarrow> usb_at (n64_usb g) d \<Longrightarrow> list_all (message_ok good) (waiting g) \<Longrightarrow> length (waiting g) < n \<Longrightarrow>
      \<exists>g'. game_on_packet game f sz g = Some (Inr g') \<and> lib_ok g' \<and> I g' \<and> consumed g g'"
begin

lemma connection_keeps:
  assumes "lib_ok g" "I g"
  shows "\<exists>g'. poll_connection game t g = Some (Inr g') \<and> lib_ok g' \<and> I g' \<and> n64_usb g' = n64_usb g"
proof -
  have s: "lib_ok (g\<lparr>global_disconnected := d\<rparr>)" "I (g\<lparr>global_disconnected := d\<rparr>)" for d
    using assms by (auto intro: lib_ok_cong I_same [OF same_gameI])
  show ?thesis
    using assms event [OF s, of True] event [OF s, of False] s
    by (auto simp: poll_connection_def Let_def split: option.splits) 
qed

lemma packet_keeps:
  assumes "lib_ok g" "I g" "usb_at (n64_usb g) bs" "message_ok good (DATATYPE_NETPACKET, bs)"
    and "list_all (message_ok good) (waiting g)" "length (waiting g) < n"
  shows "\<exists>b g'. poll_packet game t g = Some (Inr (b, g')) \<and> lib_ok g' \<and> I g' \<and> consumed g g' \<and>
    (\<not> b \<longrightarrow> usb_dataleft (n64_usb g') = 0)"
proof -
  obtain pkt where pkt: "NetLib_wf pkt" "bs = NetLib_wire pkt" "unat (NetLibPacket_GetType pkt) < MAX_UNIQUEPACKETS"
    "good (NetLibPacket_GetType pkt) (m_Data pkt)" using assms(4) by (auto simp: message_ok_def)
  have len: "unat (NetLibPacket_GetType pkt) < length (global_funcptrs g)"
    using pkt(3) assms(1) by (simp add: lib_ok_def ready_def MAX_UNIQUEPACKETS_def)
  let ?gd = "on_usb (\<lambda>u. u\<lparr>usb_dataleft := length (m_Data pkt)\<rparr>) g"
  note at = poll_packet_call(1) [OF pkt(1) assms(3) [unfolded pkt(2)] len]
    and call = poll_packet_call(2) [OF pkt(1) assms(3) [unfolded pkt(2)] len, of game t]
  have ok: "lib_ok ?gd" "I ?gd" "waiting ?gd = waiting g"
    using assms(1) I_same [OF on_usb_same assms(2)] by (auto simp: on_usb_def intro: lib_ok_cong)
  show ?thesis
  proof (cases "global_funcptrs g ! unat (NetLibPacket_GetType pkt)")
    case None
    let ?w = "warn (''Warning: Tried calling unregistered function!'' @ [CHR 0x0A, CHR 0x00]) (on_usb usb_purge ?gd)"
    have "lib_ok (on_usb usb_purge ?gd)" using assms(1) by (auto simp: on_usb_def usb_purge_def intro: lib_ok_cong)
    moreover have "same_game ?gd ?w" by (rule same_game_trans [OF on_usb_same warn_same(1)])
    then have "I ?w" using ok(2) by (rule I_same)
    moreover have "waiting ?w = waiting g" "usb_dataleft (n64_usb ?w) = 0" by (simp_all add: on_usb_def usb_purge_def)
    ultimately show ?thesis using call None consumed_eq [of ?w g] by auto
  next
    case (Some f)
    then obtain g' where g': "game_on_packet game f (ucast (m_Size pkt)) ?gd = Some (Inr g')" "lib_ok g'" "I g'" "consumed ?gd g'"
      using packet [OF ok(1,2) pkt(3) _ pkt(4) at, of f "ucast (m_Size pkt)"] assms(5,6) ok(3) by auto
    have "lib_ok (g'\<lparr>global_lastpkt := t\<rparr>)" "I (g'\<lparr>global_lastpkt := t\<rparr>)"
      using g'(2,3) by (auto intro: lib_ok_cong I_same [OF same_gameI])
    then show ?thesis using call Some g'(1,4) ok(3) by (auto simp: consumed_def)
  qed
qed

text \<open>The messages behind the current one are fewer than the fuel, so the loop returns.\<close>

lemma loop_keeps:
  assumes "lib_ok g" "I g" "list_all (message_ok good) (waiting g)"
    and "if header = 0 then usb_dataleft (n64_usb g) = 0
      else usb_at (n64_usb g) bs \<and> message_ok good (header, bs) \<and> length (waiting g) < n \<and> length (waiting g) < fuel"
  shows "\<exists>b g'. poll_loop fuel game t header g = Some (Inr (b, g')) \<and> lib_ok g' \<and> I g' \<and> consumed g g' \<and>
    usb_dataleft (n64_usb g') = 0"
  using assms
proof (induction fuel arbitrary: g header bs)
  case 0
  then show ?case by (auto split: if_splits intro: consumed_refl)
next
  case (Suc fuel)
  show ?case
  proof (cases "header = 0")
    case True
    then show ?thesis using Suc.prems by (auto intro: consumed_refl)
  next
    case False
    then have cur: "usb_at (n64_usb g) bs" "message_ok good (header, bs)" "length (waiting g) < n" "length (waiting g) < Suc fuel"
      using Suc.prems(4) by auto
    have "\<exists>b g'. (if header = DATATYPE_NETPACKET then poll_packet game t g else Some (Inr (True, g))) = Some (Inr (b, g')) \<and>
        lib_ok g' \<and> I g' \<and> consumed g g' \<and> (\<not> b \<longrightarrow> usb_dataleft (n64_usb g') = 0)"
      using packet_keeps [OF Suc.prems(1,2) cur(1) _ Suc.prems(3) cur(3)] cur(2) Suc.prems(1,2) by auto
    then obtain b g1 where g1: "(if header = DATATYPE_NETPACKET then poll_packet game t g else Some (Inr (True, g))) = Some (Inr (b, g1))"
      "lib_ok g1" "I g1" "consumed g g1" "\<not> b \<longrightarrow> usb_dataleft (n64_usb g1) = 0" by blast
    show ?thesis
    proof (cases b)
      case False
      then show ?thesis using g1 \<open>header \<noteq> 0\<close> by auto
    next
      case True
      let ?p = "on_usb usb_purge g1"
      obtain h u where u: "usb_poll (n64_usb ?p) = (h, u)" by fastforce
      let ?q = "?p\<lparr>n64_usb := u\<rparr>"
      have cart: "usb_cart (n64_usb g1) \<noteq> CART_NONE" using g1(2) by (simp add: lib_ok_def)
      have ok1: "list_all (message_ok good) (waiting g1)" "length (waiting g1) \<le> length (waiting g)"
        using consumedD [OF g1(4) Suc.prems(3)] .
      have same: "same_game g1 ?q" by (rule same_game_trans [of _ ?p]) simp_all
      have "lib_ok ?q"
        using u cart by (intro lib_ok_cong [OF _ _ _ _ _ g1(2)])
          (auto simp: on_usb_def usb_poll_def usb_purge_def split: list.splits if_splits)
      moreover have "I ?q" by (rule I_same [OF same g1(3)])
      moreover have con: "consumed g1 ?q" using u cart
        by (auto simp: consumed_def on_usb_def usb_poll_def usb_purge_def split: list.splits if_splits
            intro: exI [of _ 0] exI [of _ 1])
      moreover have "list_all (message_ok good) (waiting ?q)" using consumedD(1) [OF con ok1(1)] .
      moreover have "if h = 0 then usb_dataleft (n64_usb ?q) = 0
          else usb_at (n64_usb ?q) (usb_msg u) \<and> message_ok good (h, usb_msg u) \<and> length (waiting ?q) < n \<and> length (waiting ?q) < fuel"
      proof (cases "waiting g1")
        case Nil
        then show ?thesis using u cart by (auto simp: on_usb_def usb_poll_def usb_purge_def)
      next
        case (Cons m ms)
        then have "h = fst m" "u = (n64_usb ?p)\<lparr>usb_datatype := fst m, usb_datasize := length (snd m),
            usb_dataleft := length (snd m), usb_msg := snd m, usb_waiting := ms\<rparr>"
          using u cart by (auto simp: on_usb_def usb_poll_def usb_purge_def split: prod.splits)
        then show ?thesis using ok1 Cons cart cur(3,4)
          by (auto simp: usb_at_def on_usb_def usb_purge_def message_ok_def)
      qed
      ultimately obtain b' g' where "poll_loop fuel game t h ?q = Some (Inr (b', g'))" "lib_ok g'" "I g'" "consumed ?q g'"
        "usb_dataleft (n64_usb g') = 0" using Suc.IH [of ?q h "usb_msg u"] by blast
      moreover from this(4) have "consumed g g'" using g1(4) con by (meson consumed_trans)
      ultimately show ?thesis using g1(1) True \<open>header \<noteq> 0\<close> u by (auto simp: Let_def)
    qed
  qed
qed

lemma poll_keeps:
  assumes "lib_ok g" "I g" "list_all (message_ok good) (waiting g)" "usb_dataleft (n64_usb g) = 0"
    and "length (waiting g) \<le> n" "length (waiting g) \<le> fuel"
  shows "\<exists>g'. netlib_poll fuel game t g = Some (Inr g') \<and> lib_ok g' \<and> I g' \<and> consumed g g' \<and>
    usb_dataleft (n64_usb g') = 0"
proof -
  obtain g1 where g1: "poll_connection game t g = Some (Inr g1)" "lib_ok g1" "I g1" "n64_usb g1 = n64_usb g"
    using connection_keeps [OF assms(1,2)] by blast
  obtain h u where u: "usb_poll (n64_usb g1) = (h, u)" by fastforce
  let ?q = "g1\<lparr>n64_usb := u\<rparr>"
  have cart: "usb_cart (n64_usb g) \<noteq> CART_NONE" using assms(1) by (simp add: lib_ok_def)
  have "lib_ok ?q" using u cart assms(4) g1(4)
    by (intro lib_ok_cong [OF _ _ _ _ _ g1(2)]) (auto simp: usb_poll_def split: list.splits)
  moreover have "I ?q" by (rule I_same [OF set_usb_same g1(3)])
  moreover have con: "consumed g ?q" using u cart assms(4) g1(4)
    by (auto simp: consumed_def usb_poll_def split: list.splits intro: exI [of _ 0] exI [of _ 1])
  moreover have "list_all (message_ok good) (waiting ?q)" using consumedD(1) [OF con assms(3)] .
  moreover have "if h = 0 then usb_dataleft (n64_usb ?q) = 0
      else usb_at (n64_usb ?q) (usb_msg u) \<and> message_ok good (h, usb_msg u) \<and> length (waiting ?q) < n \<and> length (waiting ?q) < fuel"
    using u cart assms(3-6) g1(4)
    by (auto simp: usb_poll_def usb_at_def message_ok_def split: list.splits)
  ultimately obtain b g2 where g2: "poll_loop fuel game t h ?q = Some (Inr (b, g2))" "lib_ok g2" "I g2" "consumed ?q g2"
    "usb_dataleft (n64_usb g2) = 0" using loop_keeps [of ?q h "usb_msg u" fuel] by blast
  have cg2: "consumed g g2" using con g2(4) by (rule consumed_trans)
  show ?thesis
  proof (cases b)
    case True
    obtain g3 where "send_queued g2 = Inr g3" "lib_ok g3" "same_game g2 g3" "waiting g3 = waiting g2"
      "usb_dataleft (n64_usb g3) = usb_dataleft (n64_usb g2)" using send_queued_ok [OF g2(2)] by blast
    then show ?thesis using g1(1) u g2 True cg2 I_same
      by (auto simp: netlib_poll_def consumed_def)
  qed (use g1(1) u g2 cg2 in \<open>simp add: netlib_poll_def\<close>)
qed

text \<open>Building a packet and sending it to anyone polls, so the game goes on as after a poll.\<close>

lemma send_keeps:
  assumes "lib_ok g" "I g" "list_all (message_ok good) (waiting g)" "usb_dataleft (n64_usb g) = 0"
    and "length (waiting g) \<le> n" "length (waiting g) \<le> fuel" "length (concat (map write_bytes ws)) \<le> 4078"
  shows "\<exists>g1 g'. netlib_write_all ws (netlib_setflags fl (netlib_start ty g)) = Inr g1 \<and>
    netlib_poll fuel game t (put_header r g1) = Some (Inr g') \<and> lib_ok g' \<and> I g' \<and> consumed g g' \<and>
    usb_dataleft (n64_usb g') = 0"
proof -
  obtain g1 where g1: "netlib_write_all ws (netlib_setflags fl (netlib_start ty g)) = Inr g1" "n64_inv g1" "fixed_header g1"
    "lib_ok g1" "same_game g g1" "n64_usb g1 = n64_usb g" using build_ok [OF assms(1,7)] by blast
  note h = put_header_ok [OF g1(4,2,3), of r]
  have I: "I (put_header r g1)" by (rule I_same [OF same_game_trans [OF g1(5) h(2)] assms(2)])
  show ?thesis using poll_keeps [OF h(1) I] assms(3-6) h(3) g1(1,6) by (auto simp: consumed_def)
qed

lemma heartbeat_keeps:
  assumes "lib_ok g" "I g" "list_all (message_ok good) (waiting g)" "usb_dataleft (n64_usb g) = 0"
    and "length (waiting g) \<le> n" "length (waiting g) \<le> fuel"
  shows "\<exists>g'. netcallback_heartbeat fuel game t g = Some (Inr g') \<and> lib_ok g' \<and> I g' \<and> consumed g g'"
  using send_keeps [OF assms, of "[]" 0 PACKETID_ACKBEAT 0] start_is_setflags [of g PACKETID_ACKBEAT] assms(1)
  by (auto simp: netcallback_heartbeat_def netlib_sendtoserver_def lib_ok_def ready_def)

end

end
