(* ===== verification/NL_TicTacToe.thy ===== *)
theory NL_TicTacToe
  imports NL_Game "HOL-Library.Signed_Division"
begin

text \<open>
  The example game Tic Tac Toe on the console (\<^verbatim>\<open>Examples/Tic Tac Toe/Client\<close>: \<^verbatim>\<open>main.c\<close>,
  \<^verbatim>\<open>packets.c\<close> and the stages): its state, the callbacks of its packets, and the stages' updates.
  The screen is the list of the calls to \<^verbatim>\<open>text.c\<close>; drawing keeps no state of the game.
\<close>

section \<open>State\<close>

datatype font = font_default | font_small

datatype textAlign = ALIGN_LEFT | ALIGN_CENTER

datatype text_call =
    text_cleanup
  | text_setfont font
  | text_setalign textAlign
  | text_setcolor byte byte byte byte
  | text_create string int int

datatype StageNum = STAGE_NONE | STAGE_INIT | STAGE_LOBBY | STAGE_GAME | STAGE_DISCONNECTED

record Player =
  connected :: byte
  ready_state :: byte

text \<open>The controller: the buttons held, and those pressed since the last reading.\<close>

record NUContData =
  button :: u16
  trigger :: u16

abbreviation A_BUTTON :: u16 where "A_BUTTON \<equiv> 0x8000"
abbreviation U_JPAD :: u16 where "U_JPAD \<equiv> 0x0800"
abbreviation D_JPAD :: u16 where "D_JPAD \<equiv> 0x0400"
abbreviation L_JPAD :: u16 where "L_JPAD \<equiv> 0x0200"
abbreviation R_JPAD :: u16 where "R_JPAD \<equiv> 0x0100"

type_synonym s8 = "8 word"

text \<open>
  The static variables of the files; \<open>init_disconnected\<close>, \<open>lobby_contdata\<close> and \<open>game_contdata\<close> are
  those that have one name in several files.
\<close>

record ttt = n64 +
  global_curstage :: StageNum
  global_nextstage :: StageNum
  global_players :: "Player list"
  init_disconnected :: bool
  lobby_contdata :: NUContData
  global_isready :: byte
  global_gamestarting :: byte
  game_contdata :: NUContData
  global_playerturn :: byte
  global_gamestate :: byte
  global_gridstate_large :: "byte list list"
  global_gridstate_small :: "byte list list list"
  global_forcedboard :: byte
  global_selectionx :: byte
  global_selectiony :: byte
  global_opponentx :: s8
  global_opponenty :: s8
  couldplaybefore :: bool
  movingframes :: byte
  text_calls :: "text_call list"

definition put_text :: "text_call list \<Rightarrow> ttt \<Rightarrow> ttt" where
  "put_text cs g = g\<lparr>text_calls := text_calls g @ cs\<rparr>"

definition PACKETID_CLIENTCONNECT :: byte where "PACKETID_CLIENTCONNECT = 1"
definition PACKETID_PLAYERINFO :: byte where "PACKETID_PLAYERINFO = 2"
definition PACKETID_PLAYERDISCONNECT :: byte where "PACKETID_PLAYERDISCONNECT = 3"
definition PACKETID_SERVERFULL :: byte where "PACKETID_SERVERFULL = 4"
definition PACKETID_PLAYERREADY :: byte where "PACKETID_PLAYERREADY = 5"
definition PACKETID_GAMESTATECHANGE :: byte where "PACKETID_GAMESTATECHANGE = 6"
definition PACKETID_PLAYERTURN :: byte where "PACKETID_PLAYERTURN = 7"
definition PACKETID_PLAYERMOVE :: byte where "PACKETID_PLAYERMOVE = 8"
definition PACKETID_PLAYERCURSOR :: byte where "PACKETID_PLAYERCURSOR = 9"
definition PACKETID_BOARDCOMPLETED :: byte where "PACKETID_BOARDCOMPLETED = 10"

lemmas packet_ids = PACKETID_ACKBEAT_def PACKETID_CLIENTCONNECT_def PACKETID_PLAYERINFO_def PACKETID_PLAYERDISCONNECT_def
  PACKETID_SERVERFULL_def PACKETID_PLAYERREADY_def PACKETID_GAMESTATECHANGE_def PACKETID_PLAYERTURN_def
  PACKETID_PLAYERMOVE_def PACKETID_PLAYERCURSOR_def PACKETID_BOARDCOMPLETED_def

definition GAMESTATE_LOBBY :: byte where "GAMESTATE_LOBBY = 0"
definition GAMESTATE_READY :: byte where "GAMESTATE_READY = 1"
definition GAMESTATE_PLAYING :: byte where "GAMESTATE_PLAYING = 2"
definition GAMESTATE_ENDED_WINNER_1 :: byte where "GAMESTATE_ENDED_WINNER_1 = 3"
definition GAMESTATE_ENDED_WINNER_2 :: byte where "GAMESTATE_ENDED_WINNER_2 = 4"
definition GAMESTATE_ENDED_TIE :: byte where "GAMESTATE_ENDED_TIE = 5"
definition GAMESTATE_ENDED_DISCONNECT :: byte where "GAMESTATE_ENDED_DISCONNECT = 6"

definition stages_changeto :: "StageNum \<Rightarrow> ttt \<Rightarrow> ttt" where
  "stages_changeto num g = (if num = STAGE_NONE then g else g\<lparr>global_nextstage := num\<rparr>)"

definition stages_getcurrent :: "ttt \<Rightarrow> StageNum" where
  "stages_getcurrent g = global_curstage g"

text \<open>An assignment to a member of \<open>global_players[i]\<close>.\<close>

definition set_player :: "int \<Rightarrow> (Player \<Rightarrow> Player) \<Rightarrow> ttt \<Rightarrow> ttt result" where
  "set_player i f g = rbind (aget (global_players g) i) (\<lambda>p.
     rbind (aput (global_players g) i (f p)) (\<lambda>ps. Inr (g\<lparr>global_players := ps\<rparr>)))"

section \<open>The text on the screen\<close>

text \<open>A white, centred text, and the colour of a line about the player \<open>n\<close>.\<close>

definition refresh_gametext :: "ttt \<Rightarrow> ttt" where
  "refresh_gametext g =
     (let st = global_gamestate g; turn = global_playerturn g; me = netlib_getclient g in
      put_text ([text_cleanup, text_setalign ALIGN_CENTER, text_setcolor 255 255 255 255, text_setfont font_default] @
        (if st = GAMESTATE_PLAYING \<and> turn > 0
         then (if turn = me then [text_create ''Your turn'' 160 184] else [text_create (''Opponent'' @ [CHR 0x27] @ ''s turn'') 160 184])
         else if st > GAMESTATE_PLAYING then [text_create ''Game Over'' 160 184] else []) @
        [text_setfont font_small] @
        (if turn \<noteq> 0 \<and> st = GAMESTATE_PLAYING \<and> global_forcedboard g \<noteq> 0
         then [text_create ''Forced to play in highlighted board'' 160 208]
         else if st = GAMESTATE_ENDED_DISCONNECT then [text_create ''Player disconnected'' 160 208]
         else if st = GAMESTATE_ENDED_TIE then [text_create ''Tie game'' 160 208]
         else if me = 1 \<and> st = GAMESTATE_ENDED_WINNER_1 \<or> me = 2 \<and> st = GAMESTATE_ENDED_WINNER_2
         then [text_create ''You win'' 160 208]
         else if st = GAMESTATE_ENDED_WINNER_1 \<or> st = GAMESTATE_ENDED_WINNER_2
         then [text_create ''Opponent wins'' 160 208] else [])) g)"

definition lobby_line :: "byte \<Rightarrow> Player \<Rightarrow> string \<Rightarrow> int \<Rightarrow> byte \<Rightarrow> text_call list" where
  "lobby_line n p name y me =
     (if me = n then [text_setcolor 255 255 0 255] else []) @ [text_create name 32 y] @
     [text_create (if connected p \<noteq> 0 then (if ready_state p \<noteq> 0 then ''Ready'' else ''Not ready'') else ''Not connected'') 128 y,
      text_setcolor 255 255 255 255]"

definition refresh_lobbytext :: "ttt \<Rightarrow> ttt" where
  "refresh_lobbytext g =
     (let p = global_players g ! 0; q = global_players g ! 1 in
      put_text ([text_cleanup, text_setfont font_default, text_setalign ALIGN_CENTER, text_setcolor 255 255 255 255,
         text_create ''Player Lobby'' 160 32] @
        (if global_gamestarting g \<noteq> 0 then [text_create ''Game starting...'' 160 80] else []) @
        [text_setfont font_small, text_setalign ALIGN_LEFT] @
        lobby_line 1 p ''Player 1'' 136 (netlib_getclient g) @ lobby_line 2 q ''Player 2'' 168 (netlib_getclient g) @
        (if connected p \<noteq> 0 \<and> connected q \<noteq> 0 \<and> global_gamestarting g = 0
         then [text_setalign ALIGN_CENTER, text_create ''Press A to toggle ready'' 160 208] else [])) g)"

section \<open>What the stages do with packets\<close>

definition stage_init_serverfull :: "ttt \<Rightarrow> ttt" where
  "stage_init_serverfull g =
     put_text [text_cleanup, text_setfont font_default, text_setalign ALIGN_CENTER, text_setcolor 255 255 255 255,
       text_create ''Disconnected'' 160 56, text_setfont font_small, text_create ''Server full'' 160 136]
     (g\<lparr>init_disconnected := True\<rparr>)"

text \<open>The statement that only names \<open>global_players[..].ready\<close> does nothing.\<close>

definition stage_lobby_playerchange :: "ttt \<Rightarrow> ttt" where
  "stage_lobby_playerchange g = refresh_lobbytext (g\<lparr>global_isready := 0\<rparr>)"

text \<open>\<open>stk\<close> is what a local variable holds before it is assigned.\<close>

definition stage_lobby_statechange :: "byte \<Rightarrow> ttt \<Rightarrow> ttt" where
  "stage_lobby_statechange stk g =
     (let (st, g) = read8 stk g;
          g = (if st = GAMESTATE_READY then refresh_lobbytext (g\<lparr>global_gamestarting := 1\<rparr>) else g)
      in if st = GAMESTATE_PLAYING then stages_changeto STAGE_GAME g else g)"

definition stage_game_statechange :: "ttt \<Rightarrow> ttt" where
  "stage_game_statechange g =
     (let (st, g) = read8 (global_gamestate g) g; g = g\<lparr>global_gamestate := st\<rparr> in
      refresh_gametext
       (if st = GAMESTATE_LOBBY then stages_changeto STAGE_LOBBY g
        else if st \<ge> GAMESTATE_ENDED_WINNER_1 \<or> st \<le> GAMESTATE_ENDED_DISCONNECT
        then g\<lparr>global_playerturn := 0, global_forcedboard := 0, global_opponentx := -1, global_opponenty := -1\<rparr>
        else g))"

definition stage_game_playerturn :: "ttt \<Rightarrow> ttt" where
  "stage_game_playerturn g =
     (let (turn, g) = read8 (global_playerturn g) g; g = g\<lparr>global_playerturn := turn\<rparr>;
          (board, g) = read8 (global_forcedboard g) g
      in refresh_gametext (g\<lparr>global_forcedboard := board\<rparr>))"

definition stage_game_playercursor :: "ttt \<Rightarrow> ttt" where
  "stage_game_playercursor g =
     (let (x, g) = read8 (global_opponentx g) g; g = g\<lparr>global_opponentx := x\<rparr>;
          (y, g) = read8 (global_opponenty g) g
      in g\<lparr>global_opponenty := y\<rparr>)"

text \<open>A field of the boards.\<close>

definition small :: "ttt \<Rightarrow> int \<Rightarrow> int \<Rightarrow> int \<Rightarrow> byte result" where
  "small g b x y = rbind (aget (global_gridstate_small g) b) (\<lambda>board. rbind (aget board x) (\<lambda>col. aget col y))"

definition set_small :: "int \<Rightarrow> int \<Rightarrow> int \<Rightarrow> byte \<Rightarrow> ttt \<Rightarrow> ttt result" where
  "set_small b x y v g = rbind (aget (global_gridstate_small g) b) (\<lambda>board. rbind (aget board x) (\<lambda>col.
     rbind (aput col y v) (\<lambda>col. rbind (aput board x col) (\<lambda>board.
     rbind (aput (global_gridstate_small g) b board) (\<lambda>grid. Inr (g\<lparr>global_gridstate_small := grid\<rparr>))))))"

definition large :: "ttt \<Rightarrow> int \<Rightarrow> int \<Rightarrow> byte result" where
  "large g x y = rbind (aget (global_gridstate_large g) x) (\<lambda>col. aget col y)"

definition set_large :: "int \<Rightarrow> int \<Rightarrow> byte \<Rightarrow> ttt \<Rightarrow> ttt result" where
  "set_large x y v g = rbind (aget (global_gridstate_large g) x) (\<lambda>col. rbind (aput col y v) (\<lambda>col.
     rbind (aput (global_gridstate_large g) x col) (\<lambda>grid. Inr (g\<lparr>global_gridstate_large := grid\<rparr>))))"

definition stage_game_makemove :: "byte \<Rightarrow> ttt \<Rightarrow> ttt result" where
  "stage_game_makemove stk g =
     (let (ply, g) = read8 stk g; (board, g) = read8 stk g; (posx, g) = read8 stk g; (posy, g) = read8 stk g in
      rbind (set_small (uint board - 1) (uint posx) (uint posy) ply g) (\<lambda>g.
        Inr (g\<lparr>global_opponentx := -1, global_opponenty := -1, global_playerturn := 0\<rparr>)))"

definition stage_game_boardcompleted :: "byte \<Rightarrow> ttt \<Rightarrow> ttt result" where
  "stage_game_boardcompleted stk g =
     (let (board, g) = read8 stk g; (state, g) = read8 stk g in
      set_large ((uint board - 1) smod 3) ((uint board - 1) sdiv 3) state g)"

section \<open>The callbacks\<close>

definition netcallback_playerconnect :: "byte \<Rightarrow> ttt \<Rightarrow> ttt result" where
  "netcallback_playerconnect stk g =
     (let (plynum, g) = read8 stk g; g = netlib_setclient plynum g in
      set_player (uint plynum - 1) (\<lambda>p. p\<lparr>ready_state := 0, connected := 1\<rparr>) g)"

definition lobby_changed :: "ttt \<Rightarrow> ttt" where
  "lobby_changed g = (if stages_getcurrent g = STAGE_LOBBY then stage_lobby_playerchange g else g)"

definition netcallback_playerinfo :: "byte \<Rightarrow> ttt \<Rightarrow> ttt result" where
  "netcallback_playerinfo stk g =
     (let (plynum, g) = read8 stk g in
      rbind (set_player (uint plynum - 1) (\<lambda>p. p\<lparr>ready_state := 0, connected := 1\<rparr>) g) (\<lambda>g. Inr (lobby_changed g)))"

definition netcallback_disconnect :: "byte \<Rightarrow> ttt \<Rightarrow> ttt result" where
  "netcallback_disconnect stk g =
     (let (plynum, g) = read8 stk g in
      rbind (set_player (uint plynum - 1) (\<lambda>p. p\<lparr>connected := 0, ready_state := 0\<rparr>) g) (\<lambda>g. Inr (lobby_changed g)))"

definition netcallback_serverfull :: "ttt \<Rightarrow> ttt" where
  "netcallback_serverfull g = (if stages_getcurrent g = STAGE_INIT then stage_init_serverfull g else g)"

definition netcallback_playerready :: "byte \<Rightarrow> ttt \<Rightarrow> ttt result" where
  "netcallback_playerready stk g =
     (let (plynum, g) = read8 stk g; (rdy, g) = read8 stk g in
      rbind (set_player (uint plynum - 1) (\<lambda>p. p\<lparr>ready_state := rdy\<rparr>) g) (\<lambda>g. Inr (lobby_changed g)))"

definition netcallback_gamestate :: "byte \<Rightarrow> ttt \<Rightarrow> ttt" where
  "netcallback_gamestate stk g =
     (if stages_getcurrent g = STAGE_LOBBY then stage_lobby_statechange stk g
      else if stages_getcurrent g = STAGE_GAME then stage_game_statechange g else g)"

text \<open>
  A callback's number is the packet type \<open>netcallback_initall\<close> registers it for; 11 and 12 are the
  callbacks on losing and regaining the connection. The size is not used.
\<close>

definition callback_disconnect :: "ttt \<Rightarrow> ttt" where
  "callback_disconnect g = stages_changeto STAGE_DISCONNECTED (netlib_setclient 0 g)"

definition callback_reconnect :: "ttt \<Rightarrow> ttt" where
  "callback_reconnect g = stages_changeto STAGE_INIT g"

definition ttt_packet :: "byte \<Rightarrow> (ttt \<Rightarrow> ttt result option) \<Rightarrow> nat \<Rightarrow> ttt \<Rightarrow> ttt result option" where
  "ttt_packet stk heartbeat f g =
     (if f = 0 then heartbeat g
      else if f = 1 then Some (netcallback_playerconnect stk g)
      else if f = 2 then Some (netcallback_playerinfo stk g)
      else if f = 3 then Some (netcallback_disconnect stk g)
      else if f = 4 then Some (Inr (netcallback_serverfull g))
      else if f = 5 then Some (netcallback_playerready stk g)
      else if f = 6 then Some (Inr (netcallback_gamestate stk g))
      else if f = 7 then Some (Inr (stage_game_playerturn g))
      else if f = 8 then Some (stage_game_makemove stk g)
      else if f = 9 then Some (Inr (stage_game_playercursor g))
      else if f = 10 then Some (stage_game_boardcompleted stk g)
      else Some (Inl NullPointer))"

definition ttt_event :: "nat \<Rightarrow> ttt \<Rightarrow> ttt result option" where
  "ttt_event f g = (if f = 11 then Some (Inr (callback_disconnect g))
     else if f = 12 then Some (Inr (callback_reconnect g)) else Some (Inl NullPointer))"

text \<open>
  The game as \<open>netlib_poll\<close> sees it. The heartbeat callback polls again, to a depth of \<open>n\<close>; the
  clock is taken not to advance in between.
\<close>

primrec ttt_game :: "nat \<Rightarrow> u64 \<Rightarrow> byte \<Rightarrow> unit ttt_ext game" where
  "ttt_game 0 t stk = \<lparr>game_on_packet = (\<lambda>f sz. ttt_packet stk (\<lambda>_. None) f), game_on_event = ttt_event, junk = stk\<rparr>"
| "ttt_game (Suc n) t stk =
     \<lparr>game_on_packet = (\<lambda>f sz. ttt_packet stk (netcallback_heartbeat n (ttt_game n t stk) t) f),
      game_on_event = ttt_event, junk = stk\<rparr>"

definition netcallback_initall :: "ttt \<Rightarrow> ttt result" where
  "netcallback_initall g = fold (\<lambda>f r. rbind r (netlib_register f (Some (unat f))))
     [PACKETID_ACKBEAT, PACKETID_CLIENTCONNECT, PACKETID_PLAYERINFO, PACKETID_PLAYERDISCONNECT, PACKETID_SERVERFULL,
      PACKETID_PLAYERREADY, PACKETID_GAMESTATECHANGE, PACKETID_PLAYERTURN, PACKETID_PLAYERMOVE, PACKETID_PLAYERCURSOR,
      PACKETID_BOARDCOMPLETED] (Inr g)"

section \<open>The stages\<close>

text \<open>A packet to the server: \<open>netlib_start\<close>, the writes, \<open>netlib_sendtoserver\<close>.\<close>

definition to_server :: "nat \<Rightarrow> u64 \<Rightarrow> byte \<Rightarrow> byte \<Rightarrow> write_op list \<Rightarrow> ttt \<Rightarrow> ttt result option" where
  "to_server n t stk type ws g =
     rob (Some (netlib_write_all ws (netlib_start type g))) (netlib_sendtoserver n (ttt_game n t stk) t)"

definition stage_init_init :: "nat \<Rightarrow> u64 \<Rightarrow> byte \<Rightarrow> ttt \<Rightarrow> ttt result option" where
  "stage_init_init n t stk g =
     rob (Some (rbind (set_player 0 (\<lambda>p. p\<lparr>connected := 0, ready_state := 0\<rparr>) g)
       (set_player 1 (\<lambda>p. p\<lparr>connected := 0, ready_state := 0\<rparr>)))) (\<lambda>g.
     let g = put_text [text_setfont font_default, text_setalign ALIGN_CENTER, text_setcolor 255 255 255 255,
       text_create ''Connecting to Server...'' 160 56, text_setfont font_small,
       text_create ''Ensure the USB is connected'' 160 136, text_create ''and the client is running'' 160 152] g
     in rob (to_server n t stk PACKETID_CLIENTCONNECT [] g) (\<lambda>g. Some (Inr (g\<lparr>init_disconnected := False\<rparr>))))"

definition stage_init_update :: "ttt \<Rightarrow> ttt" where
  "stage_init_update g =
     (if \<not> init_disconnected g \<and> netlib_getclient g \<noteq> 0 then stages_changeto STAGE_LOBBY g else g)"

definition stage_lobby_init :: "ttt \<Rightarrow> ttt" where
  "stage_lobby_init g = refresh_lobbytext (g\<lparr>global_isready := 0, global_gamestarting := 0\<rparr>)"

text \<open>\<open>pad\<close> is what \<open>nuContDataGetEx\<close> reads.\<close>

definition stage_lobby_update :: "nat \<Rightarrow> u64 \<Rightarrow> byte \<Rightarrow> NUContData \<Rightarrow> ttt \<Rightarrow> ttt result option" where
  "stage_lobby_update n t stk pad g =
     rob (Some (rbind (aget (global_players g) 0) (\<lambda>p. rbind (aget (global_players g) 1) (\<lambda>q. Inr (p, q))))) (\<lambda>(p, q).
     if connected p \<noteq> 0 \<and> connected q \<noteq> 0 \<and> global_gamestarting g = 0
     then let g = g\<lparr>lobby_contdata := pad\<rparr> in
       (if trigger pad AND A_BUTTON \<noteq> 0
        then let g = g\<lparr>global_isready := (if global_isready g \<noteq> 0 then 0 else 1)\<rparr> in
          rob (Some (set_player (uint (netlib_getclient g) - 1) (\<lambda>p. p\<lparr>ready_state := global_isready g\<rparr>) g)) (\<lambda>g.
          rob (to_server n t stk PACKETID_PLAYERREADY [W8 (global_isready g)] g) (\<lambda>g. Some (Inr (refresh_lobbytext g))))
        else Some (Inr g))
     else Some (rbind (set_player 0 (\<lambda>p. p\<lparr>ready_state := 0\<rparr>) (g\<lparr>global_isready := 0\<rparr>)) (set_player 1 (\<lambda>p. p\<lparr>ready_state := 0\<rparr>))))"

definition stage_disconnected_init :: "ttt \<Rightarrow> ttt" where
  "stage_disconnected_init g = put_text [text_setfont font_default, text_setalign ALIGN_CENTER, text_setcolor 255 255 255 255,
     text_create ''You have been disconnected'' 160 88, text_create ''Press A to retry'' 160 136] g"

definition stage_disconnected_update :: "NUContData \<Rightarrow> ttt \<Rightarrow> ttt" where
  "stage_disconnected_update pad g = (if button pad AND A_BUTTON \<noteq> 0 then stages_changeto STAGE_INIT g else g)"

definition stage_game_init :: "ttt \<Rightarrow> ttt" where
  "stage_game_init g = refresh_gametext (g\<lparr>global_playerturn := 0, global_forcedboard := 0,
     global_gamestate := GAMESTATE_PLAYING, global_selectionx := 4, global_selectiony := 4,
     global_opponentx := -1, global_opponenty := -1, global_gridstate_large := replicate 3 (replicate 3 0),
     global_gridstate_small := replicate 9 (replicate 3 (replicate 3 0))\<rparr>)"

text \<open>The two nested loops over the fields \<open>(x, y)\<close> of a board, row by row.\<close>

definition fields :: "(int \<times> int) list" where
  "fields = [(0, 0), (1, 0), (2, 0), (0, 1), (1, 1), (2, 1), (0, 2), (1, 2), (2, 2)]"

fun toboard_loop :: "byte \<Rightarrow> (int \<times> int) list \<Rightarrow> ttt \<Rightarrow> ttt result" where
  "toboard_loop board [] g = Inr g"
| "toboard_loop board ((tsx, tsy) # fs) g = rbind (small g (uint board - 1) tsx tsy) (\<lambda>v.
     if v = 0 then Inr (g\<lparr>global_selectionx := word_of_int (uint (word_of_int ((uint board - 1) smod 3) :: byte) * 3 + tsx),
                          global_selectiony := word_of_int (uint (word_of_int ((uint board - 1) sdiv 3) :: byte) * 3 + tsy)\<rparr>)
     else toboard_loop board fs g)"

definition cursor_toboard :: "byte \<Rightarrow> ttt \<Rightarrow> ttt result" where
  "cursor_toboard board g =
     (let csx = uint (global_selectionx g) mod 3; csy = uint (global_selectiony g) mod 3 in
      rbind (small g (uint board - 1) csx csy) (\<lambda>v.
        if v = 0 then Inr (g\<lparr>global_selectionx := word_of_int (uint (word_of_int ((uint board - 1) smod 3) :: byte) * 3 + 1),
                             global_selectiony := word_of_int (uint (word_of_int ((uint board - 1) sdiv 3) :: byte) * 3 + 1)\<rparr>)
        else toboard_loop board fields g))"

text \<open>The loops over the boards \<open>(x, y)\<close>: the cursor goes to the first that is not completed.\<close>

fun firstboard_loop :: "(int \<times> int) list \<Rightarrow> ttt \<Rightarrow> ttt result" where
  "firstboard_loop [] g = Inr g"
| "firstboard_loop ((tbx, tby) # fs) g = rbind (large g tbx tby) (\<lambda>v.
     if v = 0 then cursor_toboard (word_of_int (1 + tbx + tby * 3)) g else firstboard_loop fs g)"

definition place_cursor :: "ttt \<Rightarrow> ttt result" where
  "place_cursor g =
     (let cbx = uint (global_selectionx g) div 3; cby = uint (global_selectiony g) div 3;
          fbx = uint (word_of_int ((uint (global_forcedboard g) - 1) smod 3) :: byte);
          fby = uint (word_of_int ((uint (global_forcedboard g) - 1) sdiv 3) :: byte)
      in if global_forcedboard g \<noteq> 0 \<and> (cbx \<noteq> fbx \<or> cby \<noteq> fby) then cursor_toboard (global_forcedboard g) g
         else rbind (large g cbx cby) (\<lambda>v.
           if v \<noteq> 0 then rbind (large g 1 1) (\<lambda>c. if c \<noteq> 0 then firstboard_loop fields g else cursor_toboard 5 g)
           else Inr g))"

definition clamp :: "s8 \<Rightarrow> s8 \<Rightarrow> s8 \<Rightarrow> s8" where
  "clamp val lo hi = (if sint val < sint lo then hi else if sint val > sint hi then lo else val)"

text \<open>The direction of the buttons held.\<close>

definition pad_direction :: "u16 \<Rightarrow> s8 \<times> s8" where
  "pad_direction b =
     (let L = b AND L_JPAD \<noteq> 0; R = b AND R_JPAD \<noteq> 0; U = b AND U_JPAD \<noteq> 0; D = b AND D_JPAD \<noteq> 0 in
      if L \<and> U then (-1, -1) else if L \<and> D then (-1, 1) else if R \<and> D then (1, 1) else if R \<and> U then (1, -1)
      else if L then (-1, 0) else if R then (1, 0) else if U then (0, -1) else if D then (0, 1) else (0, 0))"

definition move_forced :: "s8 \<times> s8 \<Rightarrow> ttt \<Rightarrow> ttt" where
  "move_forced d g =
     (let fbx = word_of_int ((uint (global_forcedboard g) - 1) smod 3) :: s8;
          fby = word_of_int ((uint (global_forcedboard g) - 1) sdiv 3) :: s8
      in g\<lparr>global_selectionx := clamp (global_selectionx g + fst d) (fbx * 3) (fbx * 3 + 2),
           global_selectiony := clamp (global_selectiony g + snd d) (fby * 3) (fby * 3 + 2)\<rparr>)"

text \<open>The free movement skips completed boards; it need not end.\<close>

definition move_free :: "s8 \<times> s8 \<Rightarrow> ttt \<Rightarrow> ttt" where
  "move_free d g = g\<lparr>global_selectionx := clamp (global_selectionx g + fst d) 0 8,
     global_selectiony := clamp (global_selectiony g + snd d) 0 8\<rparr>"

partial_function (option) move_loop :: "s8 \<times> s8 \<Rightarrow> ttt \<Rightarrow> ttt result option" where
  "move_loop d g =
     (let g = move_free d g in
      case large g (uint (global_selectionx g) div 3) (uint (global_selectiony g) div 3) of
        Inl e \<Rightarrow> Some (Inl e)
      | Inr v \<Rightarrow> if v \<noteq> 0 then move_loop d g else Some (Inr g))"

definition send_cursor :: "env \<Rightarrow> nat \<Rightarrow> u64 \<Rightarrow> byte \<Rightarrow> (ttt \<Rightarrow> ttt) \<Rightarrow> ttt \<Rightarrow> ttt result option" where
  "send_cursor env n t stk flags g =
     rob (Some (netlib_write_all [W8 (global_selectionx g), W8 (global_selectiony g)]
       (flags (netlib_start PACKETID_PLAYERCURSOR g)))) (netlib_broadcast env n (ttt_game n t stk) t)"

definition inputbuffer :: byte where "inputbuffer = 5"

definition controller_movement :: "env \<Rightarrow> nat \<Rightarrow> u64 \<Rightarrow> byte \<Rightarrow> NUContData \<Rightarrow> ttt \<Rightarrow> ttt result option" where
  "controller_movement env n t stk pad g =
     (let g = g\<lparr>game_contdata := pad, movingframes :=
            (if button pad AND (L_JPAD OR R_JPAD OR U_JPAD OR D_JPAD) \<noteq> 0 then movingframes g + 1 else 0)\<rparr> in
      if movingframes g = inputbuffer
      then let d = pad_direction (button pad) in
        rob (if global_forcedboard g > 0 then Some (Inr (move_forced d g)) else move_loop d g)
          (send_cursor env n t stk (netlib_setflags FLAG_UNRELIABLE))
      else Some (Inr g))"

definition make_own_move :: "nat \<Rightarrow> u64 \<Rightarrow> byte \<Rightarrow> ttt \<Rightarrow> ttt result option" where
  "make_own_move n t stk g =
     (let cbx = uint (global_selectionx g) div 3; cby = uint (global_selectiony g) div 3;
          isx = uint (global_selectionx g) mod 3; isy = uint (global_selectiony g) mod 3; cb = cbx + cby * 3
      in rob (Some (small g cb isx isy)) (\<lambda>v.
         if v = 0 then
           rob (Some (set_small cb isx isy (netlib_getclient g) g)) (\<lambda>g.
           rob (to_server n t stk PACKETID_PLAYERMOVE
             [W8 (word_of_int cbx), W8 (word_of_int cby), W8 (word_of_int isx), W8 (word_of_int isy)] g) (\<lambda>g.
           Some (Inr (refresh_gametext (g\<lparr>global_playerturn := 0\<rparr>)))))
         else Some (Inr g)))"

definition stage_game_update :: "env \<Rightarrow> nat \<Rightarrow> u64 \<Rightarrow> byte \<Rightarrow> NUContData \<Rightarrow> ttt \<Rightarrow> ttt result option" where
  "stage_game_update env n t stk pad g =
     (if global_gamestate g = GAMESTATE_PLAYING \<and> global_playerturn g = netlib_getclient g
      then
        rob (if \<not> couldplaybefore g
             then rob (Some (place_cursor g)) (\<lambda>g. rob (send_cursor env n t stk id g) (\<lambda>g. Some (Inr (g\<lparr>couldplaybefore := True\<rparr>))))
             else Some (Inr g)) (\<lambda>g.
        rob (controller_movement env n t stk pad g) (\<lambda>g.
        if trigger (game_contdata g) AND A_BUTTON \<noteq> 0 then make_own_move n t stk g else Some (Inr g)))
      else Some (Inr (g\<lparr>couldplaybefore := False\<rparr>)))"

section \<open>The program\<close>

definition stage_init :: "nat \<Rightarrow> u64 \<Rightarrow> byte \<Rightarrow> StageNum \<Rightarrow> ttt \<Rightarrow> ttt result option" where
  "stage_init n t stk s g = (case s of
      STAGE_INIT \<Rightarrow> stage_init_init n t stk g
    | STAGE_LOBBY \<Rightarrow> Some (Inr (stage_lobby_init g))
    | STAGE_GAME \<Rightarrow> Some (Inr (stage_game_init g))
    | STAGE_DISCONNECTED \<Rightarrow> Some (Inr (stage_disconnected_init g))
    | STAGE_NONE \<Rightarrow> Some (Inl OutOfBounds))"

definition stage_update :: "env \<Rightarrow> nat \<Rightarrow> u64 \<Rightarrow> byte \<Rightarrow> NUContData \<Rightarrow> StageNum \<Rightarrow> ttt \<Rightarrow> ttt result option" where
  "stage_update env n t stk pad s g = (case s of
      STAGE_INIT \<Rightarrow> Some (Inr (stage_init_update g))
    | STAGE_LOBBY \<Rightarrow> stage_lobby_update n t stk pad g
    | STAGE_GAME \<Rightarrow> stage_game_update env n t stk pad g
    | STAGE_DISCONNECTED \<Rightarrow> Some (Inr (stage_disconnected_update pad g))
    | STAGE_NONE \<Rightarrow> Some (Inl OutOfBounds))"

text \<open>A frame on the graphics thread, and what the main thread does once a stage is to change.\<close>

definition callback_vsync :: "env \<Rightarrow> nat \<Rightarrow> u64 \<Rightarrow> byte \<Rightarrow> NUContData \<Rightarrow> ttt \<Rightarrow> ttt result option" where
  "callback_vsync env n t stk pad g =
     rob (netlib_poll n (ttt_game n t stk) t g) (\<lambda>g. stage_update env n t stk pad (global_curstage g) g)"

definition change_stage :: "nat \<Rightarrow> u64 \<Rightarrow> byte \<Rightarrow> ttt \<Rightarrow> ttt result option" where
  "change_stage n t stk g =
     (let g = put_text [text_cleanup] g; g = g\<lparr>global_curstage := global_nextstage g, global_nextstage := STAGE_NONE\<rparr>
      in stage_init n t stk (global_curstage g) g)"

definition mainproc_start :: "(nat option \<Rightarrow> nat option) \<Rightarrow> (u32 \<Rightarrow> u64) \<Rightarrow> usb \<Rightarrow> nat \<Rightarrow> u64 \<Rightarrow> byte \<Rightarrow> ttt \<Rightarrow> ttt result option" where
  "mainproc_start clobber to_cycles u n t stk g =
     rob (Some (netcallback_initall (netlib_callback_reconnect (Some 12)
       (netlib_callback_disconnect to_cycles (1000 * 5) (Some 11) (netlib_initialize clobber u g)))))
     (\<lambda>g. stage_init n t stk (global_curstage g) g)"

end
