(* ===== verification/NL_Board.thy ===== *)
theory NL_Board
  imports NL_TicTacToe
begin

text \<open>
  The moves of Tic Tac Toe: where the cursor goes, when the free movement ends, which moves are
  offered and sent, and what incoming packets do to the board.
\<close>

section \<open>Shapes and bounds\<close>

definition board_inv :: "ttt \<Rightarrow> bool" where
  "board_inv g \<longleftrightarrow> length (global_gridstate_large g) = 3 \<and> list_all (\<lambda>c. length c = 3) (global_gridstate_large g) \<and>
     length (global_gridstate_small g) = 9 \<and> list_all (\<lambda>b. length b = 3 \<and> list_all (\<lambda>c. length c = 3) b) (global_gridstate_small g) \<and>
     global_selectionx g \<le> 8 \<and> global_selectiony g \<le> 8 \<and> global_forcedboard g \<le> 9"

definition large_at :: "ttt \<Rightarrow> int \<Rightarrow> int \<Rightarrow> byte" where
  "large_at g x y = global_gridstate_large g ! nat x ! nat y"

definition small_at :: "ttt \<Rightarrow> int \<Rightarrow> int \<Rightarrow> int \<Rightarrow> byte" where
  "small_at g b x y = global_gridstate_small g ! nat b ! nat x ! nat y"

lemma list_all_nth: "list_all P xs \<Longrightarrow> i < length xs \<Longrightarrow> P (xs ! i)"
  by (simp add: list_all_length)

lemma large_inside [simp]:
  assumes "board_inv g" "0 \<le> x" "x < 3" "0 \<le> y" "y < 3"
  shows "large g x y = Inr (large_at g x y)"
proof -
  have "nat x < 3" "nat y < 3" using assms by auto
  moreover from this have "length (global_gridstate_large g ! nat x) = 3"
    using assms(1) by (auto simp: board_inv_def dest: list_all_nth)
  ultimately show ?thesis using assms by (simp add: large_def large_at_def board_inv_def)
qed

lemma small_inside [simp]:
  assumes "board_inv g" "0 \<le> b" "b < 9" "0 \<le> x" "x < 3" "0 \<le> y" "y < 3"
  shows "small g b x y = Inr (small_at g b x y)"
proof -
  have "nat b < 9" "nat x < 3" "nat y < 3" using assms by auto
  moreover from this(1) have "length (global_gridstate_small g ! nat b) = 3" "list_all (\<lambda>c. length c = 3) (global_gridstate_small g ! nat b)"
    using assms(1) by (auto simp: board_inv_def dest: list_all_nth)
  moreover from this \<open>nat x < 3\<close> have "length (global_gridstate_small g ! nat b ! nat x) = 3" by (auto dest: list_all_nth)
  ultimately show ?thesis using assms by (simp add: small_def small_at_def board_inv_def)
qed

section \<open>The free movement\<close>

definition directions :: "(s8 \<times> s8) set" where
  "directions = {-1, 0, 1} \<times> {-1, 0, 1}"

lemma clamp_wraps:
  assumes "x \<le> 8" "d \<in> {-1, 0, 1}"
  shows "clamp (x + d) 0 8 = word_of_int ((uint x + sint d) mod 9)"
proof -
  have "unat x \<in> {0..<9}" using assms(1) by (simp add: word_le_nat_alt)
  then have "x \<in> of_nat ` {0..<9}" by (rule image_eqI [rotated]) simp
  moreover have "\<forall>x \<in> of_nat ` {0..<9}. \<forall>d \<in> {-1, 0, 1}. clamp (x + d) 0 8 = word_of_int ((uint x + sint d) mod 9)"
    by code_simp
  ultimately show ?thesis using assms(2) by blast
qed

text \<open>The position after \<open>k\<close> steps.\<close>

definition cursor_cell :: "byte \<Rightarrow> s8 \<Rightarrow> nat \<Rightarrow> byte" where
  "cursor_cell x d k = word_of_int ((uint x + int k * sint d) mod 9)"

lemma uint_mod9 [simp]: "uint (word_of_int (i mod 9) :: byte) = i mod 9"
proof -
  have "0 \<le> i mod 9" "i mod 9 < 9" by simp_all
  then show ?thesis by (simp add: uint_word_of_int take_bit_int_eq_self)
qed

lemma cursor_cell_le: "cursor_cell x d k \<le> 8"
proof -
  have "(uint x + int k * sint d) mod 9 < 9" by simp
  then show ?thesis by (simp add: cursor_cell_def word_le_def)
qed

lemma cursor_cell_Suc:
  assumes "d \<in> {-1, 0, 1}"
  shows "clamp (cursor_cell x d k + d) 0 8 = cursor_cell x d (Suc k)"
proof -
  have "((uint x + int k * sint d) mod 9 + sint d) mod 9 = (uint x + int (Suc k) * sint d) mod 9"
    by (simp add: mod_simps algebra_simps)
  then show ?thesis unfolding clamp_wraps [OF cursor_cell_le assms] by (simp add: cursor_cell_def)
qed

lemma cursor_cell_0: "x \<le> 8 \<Longrightarrow> cursor_cell x d 0 = x"
proof -
  assume "x \<le> 8"
  then have "uint x mod 9 = uint x" by (simp add: word_le_def)
  then show ?thesis by (simp add: cursor_cell_def)
qed

lemma cursor_cell_period: "cursor_cell x d (k + 9 * j) = cursor_cell x d k"
proof -
  have "(uint x + int (k + 9 * j) * sint d) mod 9 = (uint x + int k * sint d + 9 * (int j * sint d)) mod 9"
    by (simp add: algebra_simps)
  then show ?thesis by (simp add: cursor_cell_def)
qed

definition cursor_moved :: "s8 \<times> s8 \<Rightarrow> nat \<Rightarrow> ttt \<Rightarrow> ttt" where
  "cursor_moved d k g = g\<lparr>global_selectionx := cursor_cell (global_selectionx g) (fst d) k,
     global_selectiony := cursor_cell (global_selectiony g) (snd d) k\<rparr>"

definition closed_after :: "s8 \<times> s8 \<Rightarrow> ttt \<Rightarrow> nat \<Rightarrow> bool" where
  "closed_after d g k \<longleftrightarrow> large_at g (uint (cursor_cell (global_selectionx g) (fst d) k) div 3)
     (uint (cursor_cell (global_selectiony g) (snd d) k) div 3) \<noteq> 0"

lemma cursor_cell_div3: "0 \<le> uint (cursor_cell x d k) div 3" "uint (cursor_cell x d k) div 3 < 3"
proof -
  have "uint (cursor_cell x d k) \<le> 8" using cursor_cell_le [of x d k] by (simp add: word_le_def)
  then show "uint (cursor_cell x d k) div 3 < 3" by simp
  have "0 \<le> uint (cursor_cell x d k)" by simp
  then show "0 \<le> uint (cursor_cell x d k) div 3" by (simp only: pos_imp_zdiv_nonneg_iff)
qed

lemma move_free_moved:
  assumes "d \<in> directions"
  shows "move_free d (cursor_moved d k g) = cursor_moved d (Suc k) g"
proof -
  have d: "fst d \<in> {-1, 0, 1}" "snd d \<in> {-1, 0, 1}" using assms by (auto simp: directions_def)
  show ?thesis by (simp add: move_free_def cursor_moved_def cursor_cell_Suc [OF d(1)] cursor_cell_Suc [OF d(2)])
qed

lemma cursor_moved_simps [simp]:
  "large (cursor_moved d k g) x y = large g x y" "board_inv g \<Longrightarrow> board_inv (cursor_moved d k g)"
  by (simp_all add: cursor_moved_def large_def board_inv_def cursor_cell_le)

lemma move_loop_step:
  assumes "board_inv g" "d \<in> directions"
  shows "move_loop d (cursor_moved d k g) =
    (if closed_after d g (Suc k) then move_loop d (cursor_moved d (Suc k) g) else Some (Inr (cursor_moved d (Suc k) g)))"
proof -
  have "large g (uint (global_selectionx (cursor_moved d (Suc k) g)) div 3) (uint (global_selectiony (cursor_moved d (Suc k) g)) div 3) =
      Inr (large_at g (uint (cursor_cell (global_selectionx g) (fst d) (Suc k)) div 3) (uint (cursor_cell (global_selectiony g) (snd d) (Suc k)) div 3))"
    using assms(1) cursor_cell_div3 by (simp add: cursor_moved_def)
  then show ?thesis
    by (subst move_loop.simps) (simp add: move_free_moved [OF assms(2)] closed_after_def Let_def)
qed

lemma move_loop_ends:
  assumes "board_inv g" "d \<in> directions" "\<not> closed_after d g (Suc (k + j))" "\<forall>i<j. closed_after d g (Suc (k + i))"
  shows "move_loop d (cursor_moved d k g) = Some (Inr (cursor_moved d (Suc (k + j)) g))"
  using assms(3,4)
proof (induction j arbitrary: k)
  case 0
  then show ?case by (simp add: move_loop_step [OF assms(1,2)])
next
  case (Suc j)
  have "closed_after d g (Suc k)" using Suc.prems(2) by (auto dest: spec [of _ 0])
  moreover have "move_loop d (cursor_moved d (Suc k) g) = Some (Inr (cursor_moved d (Suc (Suc k + j)) g))"
    using Suc.prems by (intro Suc.IH) (auto dest: spec [of _ "Suc i" for i])
  ultimately show ?case by (simp add: move_loop_step [OF assms(1,2)])
qed

lemma move_loop_open:
  assumes "move_loop d h = Some r" "board_inv g" "d \<in> directions" "h = cursor_moved d k g"
  shows "\<exists>j. \<not> closed_after d g j"
proof -
  let ?P = "\<lambda>d h. \<forall>k. d \<in> directions \<longrightarrow> h = cursor_moved d k g \<longrightarrow> (\<exists>j. \<not> closed_after d g j)"
  have "?P d h"
  proof (rule move_loop.raw_induct [OF _ assms(1), of "\<lambda>d h r. ?P d h"], intro allI impI)
    fix loop d h r k
    assume IH: "\<And>d h r. loop d h = Some r \<Longrightarrow> ?P d h" and d: "d \<in> directions" and h: "h = cursor_moved d k g"
      and r: "(let h = move_free d h in
        case large h (uint (global_selectionx h) div 3) (uint (global_selectiony h) div 3) of
          Inl e \<Rightarrow> Some (Inl e) | Inr v \<Rightarrow> if v \<noteq> 0 then loop d h else Some (Inr h)) = Some r"
    have "large g (uint (global_selectionx (cursor_moved d (Suc k) g)) div 3) (uint (global_selectiony (cursor_moved d (Suc k) g)) div 3) =
        Inr (large_at g (uint (cursor_cell (global_selectionx g) (fst d) (Suc k)) div 3) (uint (cursor_cell (global_selectiony g) (snd d) (Suc k)) div 3))"
      using assms(2) cursor_cell_div3 by (simp add: cursor_moved_def)
    then show "\<exists>j. \<not> closed_after d g j"
      using r IH [of d "cursor_moved d (Suc k) g" r] d
      by (auto simp: h move_free_moved [OF d] closed_after_def Let_def split: if_splits)
  qed
  then show ?thesis using assms(3,4) by blast
qed

text \<open>
  Off the first button press the cursor steps on until it stands in a board that is not
  completed, wrapping at the edge; after nine steps it is where it was, so when all boards it
  passes are completed the function never returns.
\<close>

lemma free_move_returns_iff:
  assumes "board_inv g" "d \<in> directions"
  shows "move_loop d g = (case find (\<lambda>k. \<not> closed_after d g k) [1..<10] of
    None \<Rightarrow> None | Some k \<Rightarrow> Some (Inr (cursor_moved d k g)))"
proof -
  have g0: "cursor_moved d 0 g = g" using assms(1) by (simp add: cursor_moved_def cursor_cell_0 board_inv_def)
  show ?thesis
  proof (cases "find (\<lambda>k. \<not> closed_after d g k) [1..<10]")
    case None
    then have c: "\<forall>k\<in>{1..<10}. closed_after d g k" by (auto simp: find_None_iff)
    have "closed_after d g k" for k
    proof -
      have k: "k = (k - 1) mod 9 + 1 + 9 * ((k - 1) div 9) \<or> k = 0" by (cases k) simp_all
      have "closed_after d g (k' + 9 * j) = closed_after d g k'" for k' j
        by (simp add: closed_after_def cursor_cell_period)
      moreover have "closed_after d g ((k - 1) mod 9 + 1)" using c by simp
      moreover have "closed_after d g 9" using c by simp
      ultimately show ?thesis using k by (metis add_0 mult_1_right)
    qed
    then show ?thesis using move_loop_open [OF _ assms, of g _ 0] g0 None by (cases "move_loop d g") auto
  next
    case (Some k)
    then obtain i where i: "i < 9" "k = Suc i" "\<not> closed_after d g (Suc i)" "\<forall>j<i. closed_after d g (Suc j)"
      by (auto simp: find_Some_iff)
    then show ?thesis using move_loop_ends [OF assms, of 0 i] g0 Some by simp
  qed
qed

section \<open>Placing the cursor\<close>

lemma c_div_nonneg: "0 \<le> i \<Longrightarrow> i smod 3 = i mod (3 :: int)" "0 \<le> i \<Longrightarrow> i sdiv 3 = i div (3 :: int)"
  by (cases "i = 0"; simp add: signed_modulo_int_def signed_divide_int_def)+

definition cursor_at :: "int \<Rightarrow> int \<Rightarrow> ttt \<Rightarrow> ttt" where
  "cursor_at x y g = g\<lparr>global_selectionx := word_of_int x, global_selectiony := word_of_int y\<rparr>"

lemma small_byte: "0 \<le> i \<Longrightarrow> i < 256 \<Longrightarrow> uint (word_of_int i :: byte) = i"
  by (simp add: uint_word_of_int take_bit_int_eq_self)

lemma board_number:
  assumes "1 \<le> board" "board \<le> (9 :: byte)"
  shows "0 \<le> uint board - 1" "uint board - 1 < 9" "0 \<le> (uint board - 1) mod 3" "(uint board - 1) mod 3 < 3"
    "0 \<le> (uint board - 1) div 3" "(uint board - 1) div 3 < 3"
proof -
  have b: "1 \<le> uint board" "uint board \<le> 9" using assms by (simp_all add: word_le_def)
  then show "0 \<le> uint board - 1" "uint board - 1 < 9" by simp_all
  then show "0 \<le> (uint board - 1) div 3" by (simp only: pos_imp_zdiv_nonneg_iff)
  show "(uint board - 1) div 3 < 3" using b by simp
qed simp_all

text \<open>The field of the board the search finds: row by row.\<close>

definition first_free :: "ttt \<Rightarrow> int \<Rightarrow> (int \<times> int) option" where
  "first_free g b = find (\<lambda>(x, y). small_at g b x y = 0) fields"

lemma toboard_loop_find:
  assumes "board_inv g" "1 \<le> board" "board \<le> 9" "set fs \<subseteq> set fields"
  shows "toboard_loop board fs g = Inr (case find (\<lambda>(x, y). small_at g (uint board - 1) x y = 0) fs of None \<Rightarrow> g
    | Some (x, y) \<Rightarrow> cursor_at ((uint board - 1) mod 3 * 3 + x) ((uint board - 1) div 3 * 3 + y) g)"
  using assms(4)
proof (induction fs)
  case (Cons f fs)
  note b = board_number [OF assms(2,3)]
  obtain x y where f: "f = (x, y)" by fastforce
  then have "0 \<le> x" "x < 3" "0 \<le> y" "y < 3" using Cons.prems by (auto simp: fields_def)
  then show ?case using Cons b assms(1)
    by (simp add: f c_div_nonneg small_byte cursor_at_def)
qed simp

lemma first_free_inside: "first_free g b = Some (x, y) \<Longrightarrow> 0 \<le> x \<and> x < 3 \<and> 0 \<le> y \<and> y < 3 \<and> small_at g b x y = 0"
proof -
  assume "first_free g b = Some (x, y)"
  then have "(x, y) \<in> set fields" "small_at g b x y = 0"
    by (auto simp: first_free_def find_Some_iff) (metis nth_mem)
  then show ?thesis by (auto simp: fields_def)
qed

lemma selection_bounds:
  assumes "board_inv g"
  shows "0 \<le> uint (global_selectionx g) div 3" "uint (global_selectionx g) div 3 < 3"
    "0 \<le> uint (global_selectiony g) div 3" "uint (global_selectiony g) div 3 < 3"
    "0 \<le> uint (global_selectionx g) mod 3" "uint (global_selectionx g) mod 3 < 3"
    "0 \<le> uint (global_selectiony g) mod 3" "uint (global_selectiony g) mod 3 < 3"
proof -
  have u: "0 \<le> uint (global_selectionx g)" "0 \<le> uint (global_selectiony g)"
    "uint (global_selectionx g) \<le> 8" "uint (global_selectiony g) \<le> 8"
    using assms by (simp_all add: board_inv_def word_le_def)
  show "0 \<le> uint (global_selectionx g) div 3" "0 \<le> uint (global_selectiony g) div 3"
    using u(1,2) by (simp_all only: pos_imp_zdiv_nonneg_iff)
  show "uint (global_selectionx g) div 3 < 3" "uint (global_selectiony g) div 3 < 3" using u(3,4) by simp_all
qed simp_all

text \<open>
  The test before the move to the centre looks at the field the cursor's position has in the new
  board, not at the centre: the cursor goes to the centre when that field is free, whatever is in
  the centre, and otherwise to the first free field, even if the centre is free.
\<close>

lemma cursor_toboard_exact:
  assumes "board_inv g" "1 \<le> board" "board \<le> 9"
  shows "cursor_toboard board g = Inr
    (if small_at g (uint board - 1) (uint (global_selectionx g) mod 3) (uint (global_selectiony g) mod 3) = 0
     then cursor_at ((uint board - 1) mod 3 * 3 + 1) ((uint board - 1) div 3 * 3 + 1) g
     else case first_free g (uint board - 1) of None \<Rightarrow> g
       | Some (x, y) \<Rightarrow> cursor_at ((uint board - 1) mod 3 * 3 + x) ((uint board - 1) div 3 * 3 + y) g)"
  using board_number [OF assms(2,3)] selection_bounds [OF assms(1)] assms(1)
  by (simp add: cursor_toboard_def c_div_nonneg small_byte toboard_loop_find [OF assms] first_free_def cursor_at_def Let_def)

section \<open>Playable boards\<close>

text \<open>The boards a player may play in: not completed and, if one is forced, that one.\<close>

definition choice :: "ttt \<Rightarrow> int \<Rightarrow> int \<Rightarrow> bool" where
  "choice g bx by \<longleftrightarrow> large_at g bx by = 0 \<and>
     (global_forcedboard g = 0 \<or> uint (global_forcedboard g) = 1 + bx + 3 * by)"

definition has_field :: "ttt \<Rightarrow> int \<Rightarrow> bool" where
  "has_field g b \<longleftrightarrow> first_free g b \<noteq> None"

lemma fields_iff: "(x, y) \<in> set fields \<longleftrightarrow> 0 \<le> x \<and> x < 3 \<and> 0 \<le> y \<and> y < 3"
proof
  assume "0 \<le> x \<and> x < 3 \<and> 0 \<le> y \<and> y < 3"
  then have "x \<in> {0, 1, 2}" "y \<in> {0, 1, 2}" by auto
  then show "(x, y) \<in> set fields" by (auto simp: fields_def)
qed (auto simp: fields_def)

lemma cursor_at_simps [simp]:
  "large_at (cursor_at x y g) = large_at g" "choice (cursor_at x y g) = choice g"
  "first_free (cursor_at x y g) = first_free g" "global_forcedboard (cursor_at x y g) = global_forcedboard g"
  by (simp_all add: cursor_at_def large_at_def choice_def first_free_def small_at_def fun_eq_iff)

lemma forced_pos: "1 \<le> b \<longleftrightarrow> b \<noteq> (0 :: byte)" "0 < b \<longleftrightarrow> b \<noteq> (0 :: byte)"
proof -
  show z: "0 < b \<longleftrightarrow> b \<noteq> 0" using word_gt_0 [of b] by auto
  have "1 \<le> b \<longleftrightarrow> 1 \<le> uint b" by (simp add: word_le_def)
  also have "\<dots> \<longleftrightarrow> 0 < b" by (simp add: word_less_def int_one_le_iff_zero_less)
  finally show "1 \<le> b \<longleftrightarrow> b \<noteq> 0" by (simp only: z)
qed

text \<open>Sent to a board with a free field, the cursor lands in that board.\<close>

lemma cursor_toboard_lands:
  assumes "board_inv g" "0 \<le> bx" "bx < 3" "0 \<le> by" "by < 3" "has_field g (bx + 3 * by)" "uint board = 1 + bx + 3 * by"
  shows "\<exists>x y. cursor_toboard board g = Inr (cursor_at x y g) \<and> 0 \<le> x \<and> x \<le> 8 \<and> 0 \<le> y \<and> y \<le> 8 \<and>
    x div 3 = bx \<and> y div 3 = by"
proof -
  have b: "1 \<le> board" "board \<le> 9" using assms(2-5,7) by (simp_all add: word_le_def)
  have q: "(uint board - 1) mod 3 = bx" "(uint board - 1) div 3 = by" using assms(2-5,7) by simp_all
  obtain x y where f: "first_free g (uint board - 1) = Some (x, y)"
    using assms(6,7) by (auto simp: has_field_def)
  have xy: "0 \<le> x" "x < 3" "0 \<le> y" "y < 3" using first_free_inside [OF f] by auto
  let ?t = "small_at g (uint board - 1) (uint (global_selectionx g) mod 3) (uint (global_selectiony g) mod 3) = 0"
  show ?thesis
  proof (intro exI conjI)
    show "cursor_toboard board g = Inr (cursor_at (bx * 3 + (if ?t then 1 else x)) (by * 3 + (if ?t then 1 else y)) g)"
      using f unfolding cursor_toboard_exact [OF assms(1) b] q by simp
  qed (use xy assms(2-5) in auto)
qed

lemma firstboard_lands:
  assumes "board_inv g" "set fs \<subseteq> set fields" "\<exists>(bx, by)\<in>set fs. large_at g bx by = 0"
    and "\<And>bx by. (bx, by) \<in> set fields \<Longrightarrow> large_at g bx by = 0 \<Longrightarrow> has_field g (bx + 3 * by)"
  shows "\<exists>x y. firstboard_loop fs g = Inr (cursor_at x y g) \<and> 0 \<le> x \<and> x \<le> 8 \<and> 0 \<le> y \<and> y \<le> 8 \<and>
    large_at g (x div 3) (y div 3) = 0"
  using assms(2,3)
proof (induction fs)
  case (Cons f fs)
  obtain bx by' where f: "f = (bx, by')" by fastforce
  then have b: "(bx, by') \<in> set fields" "0 \<le> bx" "bx < 3" "0 \<le> by'" "by' < 3" using Cons.prems(1) by (auto simp: fields_iff)
  show ?case
  proof (cases "large_at g bx by' = 0")
    case True
    have "uint (word_of_int (1 + bx + by' * 3) :: byte) = 1 + bx + by' * 3"
      by (rule small_byte) (use b in auto)
    then show ?thesis
      using cursor_toboard_lands [OF assms(1) b(2-5) assms(4) [OF b(1) True], of "word_of_int (1 + bx + by' * 3)"] True b assms(1)
      by (auto simp: f)
  qed (use Cons b assms(1) in \<open>auto simp: f\<close>)
qed simp

text \<open>
  When the turn begins, the cursor is placed in a board the player may play in, provided there is
  one and every such board has a free field.
\<close>

theorem place_cursor_playable:
  assumes "board_inv g" "\<exists>(bx, by)\<in>set fields. choice g bx by"
    and "\<forall>(bx, by)\<in>set fields. choice g bx by \<longrightarrow> has_field g (bx + 3 * by)"
  shows "\<exists>x y. place_cursor g = Inr (cursor_at x y g) \<and> 0 \<le> x \<and> x \<le> 8 \<and> 0 \<le> y \<and> y \<le> 8 \<and>
    choice g (x div 3) (y div 3)"
proof -
  let ?cx = "uint (global_selectionx g) div 3" and ?cy = "uint (global_selectiony g) div 3"
  note c = selection_bounds [OF assms(1)]
  have u: "0 \<le> uint (global_selectionx g)" "uint (global_selectionx g) \<le> 8" "0 \<le> uint (global_selectiony g)" "uint (global_selectiony g) \<le> 8"
    using assms(1) by (simp_all add: board_inv_def word_le_def)
  have stay: "g = cursor_at (uint (global_selectionx g)) (uint (global_selectiony g)) g" by (simp add: cursor_at_def)
  show ?thesis
  proof (cases "global_forcedboard g = 0")
    case True
    then have ch: "choice g bx by = (large_at g bx by = 0)" for bx "by" by (simp add: choice_def)
    have mid: "(1, 1) \<in> set fields" by (simp add: fields_def)
    consider (unfinished) "large_at g ?cx ?cy = 0" | (mid) "large_at g ?cx ?cy \<noteq> 0" "large_at g 1 1 = 0"
      | (search) "large_at g ?cx ?cy \<noteq> 0" "large_at g 1 1 \<noteq> 0" by blast
    then show ?thesis
    proof cases
      case unfinished
      then have "place_cursor g = Inr g" using True c assms(1) by (simp add: place_cursor_def Let_def)
      then show ?thesis using unfinished ch u stay by metis
    next
      case mid
      then have "place_cursor g = cursor_toboard 5 g" using True c assms(1) by (simp add: place_cursor_def Let_def)
      moreover have "has_field g (1 + 3 * 1)" using assms(3) mid(2) ch \<open>(1, 1) \<in> set fields\<close> by blast
      ultimately obtain x y where "place_cursor g = Inr (cursor_at x y g)" "0 \<le> x" "x \<le> 8" "0 \<le> y" "y \<le> 8"
        "x div 3 = 1" "y div 3 = 1" using cursor_toboard_lands [OF assms(1), of 1 1 5] by auto
      then show ?thesis using mid(2) ch by metis
    next
      case search
      then have "place_cursor g = firstboard_loop fields g" using True c assms(1) by (simp add: place_cursor_def Let_def)
      moreover have "\<And>bx by. (bx, by) \<in> set fields \<Longrightarrow> large_at g bx by = 0 \<Longrightarrow> has_field g (bx + 3 * by)"
        using assms(3) ch by blast
      ultimately show ?thesis using firstboard_lands [OF assms(1) subset_refl] assms(2) ch by auto
    qed
  next
    case False
    let ?f = "uint (global_forcedboard g) - 1"
    have one: "1 \<le> global_forcedboard g" "global_forcedboard g \<le> 9"
      using False assms(1) by (simp_all add: board_inv_def forced_pos)
    note fb = board_number [OF one]
    have f: "?f = ?f mod 3 + 3 * (?f div 3)" by simp
    obtain bx by' where b: "(bx, by') \<in> set fields" "choice g bx by'" using assms(2) by auto
    then have bf: "bx = ?f mod 3" "by' = ?f div 3" using False by (auto simp: choice_def fields_iff)
    have place: "place_cursor g = (if ?cx \<noteq> bx \<or> ?cy \<noteq> by' then cursor_toboard (global_forcedboard g) g else Inr g)"
      using False fb c assms(1) b(2) bf by (auto simp: place_cursor_def c_div_nonneg small_byte choice_def Let_def)
    have uf: "uint (global_forcedboard g) = 1 + bx + 3 * by'" using f bf by simp
    show ?thesis
    proof (cases "?cx \<noteq> bx \<or> ?cy \<noteq> by'")
      case True
      then show ?thesis
        using place cursor_toboard_lands [OF assms(1) _ _ _ _ _ uf] assms(3) b by (fastforce simp: fields_iff)
    next
      case False
      then show ?thesis using place b(2) u stay by metis
    qed
  qed
qed

text \<open>
  Moving keeps it there: with a forced board the cursor stays in that board from wherever it is,
  and without one the movement, if it returns, ends in a board that is not completed.
\<close>

lemma clamp_between: "sint lo \<le> sint hi \<Longrightarrow> sint lo \<le> sint (clamp v lo hi) \<and> sint (clamp v lo hi) \<le> sint hi"
  by (auto simp: clamp_def)

lemma clamp_board:
  fixes v :: s8
  assumes "a \<in> {0, 1, 2}"
  defines "c \<equiv> clamp v (word_of_int a * 3) (word_of_int a * 3 + 2)"
  shows "uint c div 3 = a" "c \<le> 8"
proof -
  have lh: "sint (word_of_int a * 3 :: s8) = a * 3" "sint (word_of_int a * 3 + 2 :: s8) = a * 3 + 2"
    using assms(1) by auto
  have "a * 3 \<le> sint c" "sint c \<le> a * 3 + 2"
    using clamp_between [of "word_of_int a * 3" "word_of_int a * 3 + 2" v] lh by (simp_all add: c_def)
  then have "sint c \<in> {a * 3, a * 3 + 1, a * 3 + 2}" by auto
  moreover have w: "word_of_int (sint c) = c" by simp
  ultimately have "word_of_int (sint c) \<in> {word_of_int (a * 3), word_of_int (a * 3 + 1), word_of_int (a * 3 + 2 :: int) :: s8}"
    by (auto simp only: insert_iff)
  then have "c \<in> {word_of_int (a * 3), word_of_int (a * 3 + 1), word_of_int (a * 3 + 2)}"
    by (simp only: w)
  then show "uint c div 3 = a" "c \<le> 8" using assms(1) by auto
qed

theorem movement_stays_playable:
  assumes "board_inv g" "d \<in> directions" "if global_forcedboard g > 0 then r = Some (Inr (move_forced d g)) else r = move_loop d g"
    and "r = Some (Inr g')" "\<exists>(bx, by)\<in>set fields. choice g bx by"
  shows "board_inv g' \<and> choice g' (uint (global_selectionx g') div 3) (uint (global_selectiony g') div 3)"
proof (cases "global_forcedboard g = 0")
  case True
  then have "move_loop d g = Some (Inr g')" using assms(3,4) by simp
  then obtain k where k: "g' = cursor_moved d k g" "\<not> closed_after d g k"
    using free_move_returns_iff [OF assms(1,2)] by (auto simp: find_Some_iff split: option.splits)
  then show ?thesis using assms(1) True by (simp add: closed_after_def choice_def cursor_moved_def large_at_def board_inv_def cursor_cell_le)
next
  case False
  let ?f = "uint (global_forcedboard g) - 1"
  have one: "1 \<le> global_forcedboard g" "global_forcedboard g \<le> 9"
    using False assms(1) by (simp_all add: board_inv_def forced_pos)
  note fb = board_number [OF one]
  have r: "?f mod 3 \<in> {0, 1, 2}" "?f div 3 \<in> {0, 1, 2}" using fb(3-6) by auto
  have g': "g' = move_forced d g" using assms(3,4) False by (simp add: forced_pos)
  have c: "uint (global_selectionx g') div 3 = ?f mod 3" "uint (global_selectiony g') div 3 = ?f div 3"
    "global_selectionx g' \<le> 8" "global_selectiony g' \<le> 8"
    using clamp_board [OF r(1)] clamp_board [OF r(2)] fb(1) by (simp_all add: g' move_forced_def c_div_nonneg Let_def)
  obtain bx by' where b: "(bx, by') \<in> set fields" "choice g bx by'" using assms(5) by auto
  then have bf: "bx = ?f mod 3" "by' = ?f div 3" using False by (auto simp: choice_def fields_iff)
  show ?thesis unfolding c(1,2) bf [symmetric] using b(2) assms(1) c(3,4)
    by (simp add: g' move_forced_def choice_def large_at_def board_inv_def Let_def)
qed

section \<open>Making a move\<close>

lemma list_all_update: "list_all P xs \<Longrightarrow> P v \<Longrightarrow> list_all P (xs[i := v])"
  using set_update_subset_insert by (fastforce simp: list_all_iff)

lemma same_game_ttt:
  assumes "same_game g g'"
  shows "global_curstage g' = global_curstage g" "global_nextstage g' = global_nextstage g"
    "global_players g' = global_players g" "global_isready g' = global_isready g"
    "global_gamestarting g' = global_gamestarting g" "game_contdata g' = game_contdata g"
    "global_playerturn g' = global_playerturn g" "global_gamestate g' = global_gamestate g"
    "global_gridstate_large g' = global_gridstate_large g" "global_gridstate_small g' = global_gridstate_small g"
    "global_forcedboard g' = global_forcedboard g" "global_selectionx g' = global_selectionx g"
    "global_selectiony g' = global_selectiony g" "couldplaybefore g' = couldplaybefore g"
    "init_disconnected g' = init_disconnected g" "text_calls g' = text_calls g" "netlib_getclient g' = netlib_getclient g"
  by (subst assms [unfolded same_game_def], simp add: netlib_getclient_def)+

lemma small_at_cong: "global_gridstate_small g' = global_gridstate_small g \<Longrightarrow> small_at g' = small_at g"
  by (simp add: small_at_def fun_eq_iff)

lemma set_small_inside:
  assumes "board_inv g" "0 \<le> b" "b < 9" "0 \<le> x" "x < 3" "0 \<le> y" "y < 3"
  shows "\<exists>S. set_small b x y v g = Inr (g\<lparr>global_gridstate_small := S\<rparr>) \<and> board_inv (g\<lparr>global_gridstate_small := S\<rparr>) \<and>
    S ! nat b ! nat x ! nat y = v"
proof -
  let ?S = "global_gridstate_small g"
  have n: "nat b < 9" "nat x < 3" "nat y < 3" using assms by auto
  then have l: "length (?S ! nat b) = 3" "list_all (\<lambda>c. length c = 3) (?S ! nat b)"
    using assms(1) by (auto simp: board_inv_def dest: list_all_nth)
  then have c: "length (?S ! nat b ! nat x) = 3" using n by (auto dest: list_all_nth)
  let ?C = "(?S ! nat b ! nat x)[nat y := v]"
  let ?B = "(?S ! nat b)[nat x := ?C]"
  have "list_all (\<lambda>b. length b = 3 \<and> list_all (\<lambda>c. length c = 3) b) (?S[nat b := ?B])"
    using assms(1) l c by (intro list_all_update conjI) (simp_all add: board_inv_def list_all_update)
  then show ?thesis using assms n l c
    by (intro exI [of _ "?S[nat b := ?B]"]) (simp add: set_small_def board_inv_def)
qed

lemma to_server_sends:
  assumes "lib_ok g" "calm t g" "waiting g = []" "usb_dataleft (n64_usb g) = 0"
    and "\<forall>d. usb_accepts (n64_usb g) DATATYPE_NETPACKET d" "length (concat (map write_bytes ws)) \<le> 4078"
  shows "\<exists>g'. to_server n t stk ty ws g = Some (Inr g') \<and> same_game g g' \<and> usb_written (n64_usb g') =
    usb_written (n64_usb g) @ [(DATATYPE_NETPACKET, NetLib_wire (console_pkt ty 0 (concat (map write_bytes ws))))]"
proof -
  obtain g1 where g1: "netlib_write_all ws (netlib_setflags 0 (netlib_start ty g)) = Inr g1" "n64_inv g1" "fixed_header g1"
    "lib_ok g1" "same_game g g1" "n64_usb g1 = n64_usb g" "global_disconnected g1 = global_disconnected g"
    "global_lastpkt g1 = global_lastpkt g"
    "built_packet 0 g1 = (console_pkt ty 0 (concat (map write_bytes ws)))\<lparr>m_Derived := NetLib ty 0\<rparr>"
    using build_ok [OF assms(1,6)] by blast
  have b: "built_packet 0 g1 = console_pkt ty 0 (concat (map write_bytes ws))" using g1(9) by (simp add: console_pkt_def)
  have st: "netlib_start ty g = netlib_setflags 0 (netlib_start ty g)"
    using assms(1) by (intro start_is_setflags) (simp add: lib_ok_def ready_def)
  have "calm t g1" using g1(6-8) by (intro calm_cong [OF assms(2) g1(5)]) simp_all
  note p = poll_delivers [OF g1(4,2,3) this, of n "ttt_game n t stk" 0, unfolded b]
  note h = put_header_ok [OF g1(4,2,3), of 0]
  have "same_game g (sent_out bs (put_header 0 g1))" for bs
    by (rule same_game_trans [OF g1(5) same_game_trans [OF h(2)]], rule same_gameI) (simp_all add: sent_out_def)
  then show ?thesis using p g1(1,6) st assms(3-5) h(3)
    by (simp add: to_server_def netlib_sendtoserver_def sent_out_def)
qed

lemma board_inv_cong:
  assumes "global_gridstate_large g' = global_gridstate_large g" "global_gridstate_small g' = global_gridstate_small g"
    "global_forcedboard g' = global_forcedboard g" "global_selectionx g' = global_selectionx g"
    "global_selectiony g' = global_selectiony g"
  shows "board_inv g' = board_inv g"
  using assms by (simp add: board_inv_def)

text \<open>The move of the cursor: its board, and the field in it.\<close>

definition cursor_move :: "ttt \<Rightarrow> byte list" where
  "cursor_move g = [global_selectionx g div 3, global_selectiony g div 3, global_selectionx g mod 3, global_selectiony g mod 3]"

definition cursor_field :: "ttt \<Rightarrow> byte" where
  "cursor_field g = small_at g (uint (global_selectionx g) div 3 + uint (global_selectiony g) div 3 * 3)
     (uint (global_selectionx g) mod 3) (uint (global_selectiony g) mod 3)"

lemma cursor_board_bounds:
  assumes "board_inv g"
  shows "0 \<le> uint (global_selectionx g) div 3 + uint (global_selectiony g) div 3 * 3"
    "uint (global_selectionx g) div 3 + uint (global_selectiony g) div 3 * 3 < 9"
  using selection_bounds [OF assms] by simp_all

lemma make_own_move_marks:
  assumes "board_inv g" "cursor_field g = 0"
  obtains h where "board_inv h" "n64_usb h = n64_usb g" "h = g\<lparr>global_gridstate_small := global_gridstate_small h\<rparr>"
    "cursor_field h = netlib_getclient g"
    "make_own_move n t stk g = rob (to_server n t stk PACKETID_PLAYERMOVE (map W8 (cursor_move g)) h)
       (\<lambda>g. Some (Inr (refresh_gametext (g\<lparr>global_playerturn := 0\<rparr>))))"
proof -
  note b = selection_bounds [OF assms(1)] and c = cursor_board_bounds [OF assms(1)]
  let ?b = "uint (global_selectionx g) div 3 + uint (global_selectiony g) div 3 * 3"
  let ?x = "uint (global_selectionx g) mod 3" and ?y = "uint (global_selectiony g) mod 3"
  obtain S where S: "set_small ?b ?x ?y (netlib_getclient g) g = Inr (g\<lparr>global_gridstate_small := S\<rparr>)"
    "board_inv (g\<lparr>global_gridstate_small := S\<rparr>)" "S ! nat ?b ! nat ?x ! nat ?y = netlib_getclient g"
    using set_small_inside [OF assms(1) c b(5-8)] by blast
  have w: "word_of_int (uint (global_selectionx g) div 3) = global_selectionx g div 3" "word_of_int ?x = global_selectionx g mod 3"
    "word_of_int (uint (global_selectiony g) div 3) = global_selectiony g div 3" "word_of_int ?y = global_selectiony g mod 3"
    by (simp_all add: word_div_def word_mod_def)
  show ?thesis
  proof (rule that)
    show "cursor_field (g\<lparr>global_gridstate_small := S\<rparr>) = netlib_getclient g"
      using S(3) by (simp add: cursor_field_def small_at_def)
    show "make_own_move n t stk g = rob (to_server n t stk PACKETID_PLAYERMOVE (map W8 (cursor_move g)) (g\<lparr>global_gridstate_small := S\<rparr>))
       (\<lambda>g. Some (Inr (refresh_gametext (g\<lparr>global_playerturn := 0\<rparr>))))"
      using S(1) b c assms by (simp add: make_own_move_def cursor_field_def cursor_move_def w Let_def)
  qed (use S(2) in simp_all)
qed

lemma W8_bytes: "concat (map write_bytes (map W8 bs)) = bs" "concat (map (write_bytes \<circ> W8) bs) = bs"
  by (induction bs) simp_all

lemma marked_lib:
  assumes "h = g\<lparr>global_gridstate_small := S\<rparr>"
  shows "lib_ok h = lib_ok g" "calm t h = calm t g" "global_funcptrs h = global_funcptrs g"
  by (simp_all add: assms lib_ok_def ready_def fixed_header_def calm_def)

lemma cursor_field_cong:
  assumes "same_game g g'"
  shows "cursor_field g' = cursor_field g"
  using same_game_ttt(12,13) [OF assms] small_at_cong [OF same_game_ttt(10) [OF assms]] by (simp add: cursor_field_def)

lemma refresh_simps [simp]:
  "n64_usb (refresh_gametext g) = n64_usb g" "global_playerturn (refresh_gametext g) = global_playerturn g"
  by (simp_all add: refresh_gametext_def put_text_def Let_def)

lemma refresh_cursor_field: "cursor_field (refresh_gametext (g\<lparr>global_playerturn := v\<rparr>)) = cursor_field g"
  by (simp add: refresh_gametext_def put_text_def cursor_field_def small_at_def Let_def)

lemma cursor_field_at:
  "0 \<le> x \<Longrightarrow> x < 256 \<Longrightarrow> 0 \<le> y \<Longrightarrow> y < 256 \<Longrightarrow>
     cursor_field (cursor_at x y g) = small_at g (x div 3 + y div 3 * 3) (x mod 3) (y mod 3)"
  by (simp add: cursor_field_def cursor_at_def small_byte small_at_def)

text \<open>
  The defect in \<open>cursor_toboard\<close> that its comment rules out: sent to a board whose centre is taken,
  the cursor goes to that centre if the field at its old position in the board is free.
\<close>

theorem cursor_sent_to_taken_field:
  assumes "board_inv g" "1 \<le> board" "board \<le> 9" "small_at g (uint board - 1) 1 1 \<noteq> 0"
    and "small_at g (uint board - 1) (uint (global_selectionx g) mod 3) (uint (global_selectiony g) mod 3) = 0"
  shows "\<exists>g'. cursor_toboard board g = Inr g' \<and> cursor_field g' \<noteq> 0"
proof -
  note b = board_number [OF assms(2,3)]
  let ?x = "(uint board - 1) mod 3 * 3 + 1" and ?y = "(uint board - 1) div 3 * 3 + 1"
  have r: "0 \<le> ?x" "?x < 256" "0 \<le> ?y" "?y < 256" using b(3-6) by linarith+
  have "?x div 3 = (uint board - 1) mod 3" "?y div 3 = (uint board - 1) div 3" "?x mod 3 = 1" "?y mod 3 = 1" by simp_all
  moreover have "(uint board - 1) mod 3 + (uint board - 1) div 3 * 3 = uint board - 1" by simp
  ultimately have "cursor_field (cursor_at ?x ?y g) = small_at g (uint board - 1) 1 1"
    by (simp only: cursor_field_at [OF r])
  then show ?thesis using cursor_toboard_exact [OF assms(1-3)] assms(4,5) by simp
qed

text \<open>C28: a move on a free field while nothing waits to be read is marked, sent, and ends the turn.\<close>

theorem own_move_sent:
  assumes "lib_ok g" "board_inv g" "calm t g" "waiting g = []" "usb_dataleft (n64_usb g) = 0"
    and "\<forall>d. usb_accepts (n64_usb g) DATATYPE_NETPACKET d" "cursor_field g = 0"
  shows "\<exists>g'. make_own_move n t stk g = Some (Inr g') \<and> cursor_field g' = netlib_getclient g \<and> global_playerturn g' = 0 \<and>
    usb_written (n64_usb g') = usb_written (n64_usb g) @
      [(DATATYPE_NETPACKET, NetLib_wire (console_pkt PACKETID_PLAYERMOVE 0 (cursor_move g)))]"
proof -
  obtain h where h: "n64_usb h = n64_usb g" "h = g\<lparr>global_gridstate_small := global_gridstate_small h\<rparr>"
    "cursor_field h = netlib_getclient g"
    "make_own_move n t stk g = rob (to_server n t stk PACKETID_PLAYERMOVE (map W8 (cursor_move g)) h)
       (\<lambda>g. Some (Inr (refresh_gametext (g\<lparr>global_playerturn := 0\<rparr>))))"
    using make_own_move_marks [OF assms(2,7), of n t stk] by metis
  note l = marked_lib [OF h(2)]
  obtain g' where g': "to_server n t stk PACKETID_PLAYERMOVE (map W8 (cursor_move g)) h = Some (Inr g')" "same_game h g'"
    "usb_written (n64_usb g') = usb_written (n64_usb g) @
      [(DATATYPE_NETPACKET, NetLib_wire (console_pkt PACKETID_PLAYERMOVE 0 (cursor_move g)))]"
    using to_server_sends [of h t "map W8 (cursor_move g)" n stk PACKETID_PLAYERMOVE] assms l h(1) by (auto simp: W8_bytes cursor_move_def)
  show ?thesis using h(3,4) g' by (simp add: refresh_cursor_field cursor_field_cong [OF g'(2)] refresh_simps)
qed

text \<open>C27: 
  When the player moves while a heartbeat is waiting to be read, the field is marked and the turn is over,
  but only the answer to the heartbeat leaves the console. The move never reaches the server.
\<close>

theorem heartbeat_swallows_move:
  assumes "lib_ok g" "board_inv g" "calm t g" "usb_dataleft (n64_usb g) = 0"
    and "\<forall>d. usb_accepts (n64_usb g) DATATYPE_NETPACKET d" "cursor_field g = 0" "global_funcptrs g ! 0 = Some 0"
    and "waiting g = [(DATATYPE_NETPACKET, NetLib_wire hb)]" "NetLib_wf hb"
    and "NetLibPacket_GetType hb = PACKETID_ACKBEAT" "m_Data hb = []"
  shows "\<exists>g'. make_own_move (Suc n) t stk g = Some (Inr g') \<and> cursor_field g' = netlib_getclient g \<and> global_playerturn g' = 0 \<and>
    usb_written (n64_usb g') = usb_written (n64_usb g) @
      [(DATATYPE_NETPACKET, NetLib_wire (console_pkt PACKETID_ACKBEAT 0 []))]"
proof -
  obtain h where h: "n64_usb h = n64_usb g" "h = g\<lparr>global_gridstate_small := global_gridstate_small h\<rparr>"
    "cursor_field h = netlib_getclient g"
    "make_own_move (Suc n) t stk g = rob (to_server (Suc n) t stk PACKETID_PLAYERMOVE (map W8 (cursor_move g)) h)
       (\<lambda>g. Some (Inr (refresh_gametext (g\<lparr>global_playerturn := 0\<rparr>))))"
    using make_own_move_marks [OF assms(2,6), of "Suc n" t stk] by metis
  note l = marked_lib [OF h(2)]
  have ok: "lib_ok h" "length (concat (map write_bytes (map W8 (cursor_move g)))) \<le> 4078"
    using l(1) assms(1) by (simp_all add: W8_bytes cursor_move_def)
  obtain g1 where g1: "netlib_write_all (map W8 (cursor_move g)) (netlib_setflags 0 (netlib_start PACKETID_PLAYERMOVE h)) = Inr g1"
    "n64_inv g1" "fixed_header g1" "lib_ok g1" "same_game h g1" "n64_usb g1 = n64_usb h"
    "global_disconnected g1 = global_disconnected h" "global_lastpkt g1 = global_lastpkt h"
    using build_ok [OF ok] by metis
  have st: "netlib_start PACKETID_PLAYERMOVE h = netlib_setflags 0 (netlib_start PACKETID_PLAYERMOVE h)"
    using ok(1) by (intro start_is_setflags) (simp add: lib_ok_def ready_def)
  have c: "calm t g1" using g1(6-8) l(2) assms(3) by (intro calm_cong [OF _ g1(5)]) simp_all
  have f: "global_funcptrs g1 ! 0 = Some 0" using same_gameD(5) [OF g1(5)] l(3) assms(7) by simp
  have hb: "game_on_packet (ttt_game (Suc n) t stk) 0 sz gd = netcallback_heartbeat n (ttt_game n t stk) t gd" for sz gd
    by (simp add: ttt_packet_def)
  obtain g' where g': "netlib_poll (Suc n) (ttt_game (Suc n) t stk) t (put_header 0 g1) = Some (Inr g')" "same_game g1 g'"
    "usb_written (n64_usb g') = usb_written (n64_usb g) @ [(DATATYPE_NETPACKET, NetLib_wire (console_pkt PACKETID_ACKBEAT 0 []))]"
    using reply_destroys_packet [OF g1(4,2,3) c _ _ _ assms(9-11) f hb, of n 0] assms(4,5,8) g1(6) h(1) by auto
  have "to_server (Suc n) t stk PACKETID_PLAYERMOVE (map W8 (cursor_move g)) h = Some (Inr g')"
    using g1(1) g'(1) st by (simp add: to_server_def netlib_sendtoserver_def)
  then show ?thesis using h(3,4) g'(3) same_game_trans [OF g1(5) g'(2)]
    by (simp add: refresh_cursor_field cursor_field_cong refresh_simps)
qed

end
