(* ===== verification/NL_TttRun.thy ===== *)
theory NL_TttRun
  imports NL_Board
begin

text \<open>
  Whole runs of Tic Tac Toe: every frame returns, except for two defects that are spelled out, and
  every reachable state keeps the cursor and the boards in shape, as long as the server's packets
  carry numbers in their range.
\<close>

section \<open>The server's packets\<close>

definition ttt_good :: "byte \<Rightarrow> byte list \<Rightarrow> bool" where
  "ttt_good ty d \<longleftrightarrow>
     (if ty = PACKETID_ACKBEAT then d = []
      else if ty \<in> {PACKETID_CLIENTCONNECT, PACKETID_PLAYERINFO, PACKETID_PLAYERDISCONNECT, PACKETID_PLAYERREADY}
      then 2 \<le> length d \<and> 1 \<le> d ! 0 \<and> d ! 0 \<le> 2 \<or> ty \<noteq> PACKETID_PLAYERREADY \<and> length d = 1 \<and> 1 \<le> d ! 0 \<and> d ! 0 \<le> 2
      else if ty = PACKETID_GAMESTATECHANGE then 1 \<le> length d
      else if ty = PACKETID_PLAYERTURN then 2 \<le> length d \<and> d ! 1 \<le> 9
      else if ty = PACKETID_PLAYERMOVE then 4 \<le> length d \<and> 1 \<le> d ! 1 \<and> d ! 1 \<le> 9 \<and> d ! 2 \<le> 2 \<and> d ! 3 \<le> 2
      else if ty = PACKETID_PLAYERCURSOR then 2 \<le> length d
      else if ty = PACKETID_BOARDCOMPLETED then 2 \<le> length d \<and> 1 \<le> d ! 0 \<and> d ! 0 \<le> 9
      else True)"

definition ttt_inv :: "ttt \<Rightarrow> bool" where
  "ttt_inv g \<longleftrightarrow> board_inv g \<and> length (global_players g) = 2 \<and> netlib_getclient g \<le> 2 \<and>
     global_funcptr_disconnect g \<in> {None, Some 11} \<and> global_funcptr_reconnect g \<in> {None, Some 12} \<and>
     (\<forall>ty f. global_funcptrs g ! unat ty = Some f \<longrightarrow> unat ty < MAX_UNIQUEPACKETS \<longrightarrow> f = unat (ty :: byte) \<and> f \<le> 10) \<and>
     global_curstage g \<noteq> STAGE_NONE"

lemma ttt_inv_same: "same_game g g' \<Longrightarrow> ttt_inv g \<Longrightarrow> ttt_inv g'"
  by (simp add: ttt_inv_def same_game_ttt same_gameD board_inv_cong [of g' g])

lemma ttt_invI:
  assumes "ttt_inv g" "board_inv g'" "length (global_players g') = 2" "netlib_getclient g' \<le> 2"
    "global_funcptr_disconnect g' = global_funcptr_disconnect g" "global_funcptr_reconnect g' = global_funcptr_reconnect g"
    "global_funcptrs g' = global_funcptrs g" "global_curstage g' = global_curstage g"
  shows "ttt_inv g'"
  using assms by (simp add: ttt_inv_def)

section \<open>The callbacks keep the invariant\<close>

lemma read8_at:
  assumes "usb_at (n64_usb g) (b # rest)"
  shows "\<And>old. read8 old g = (b, on_usb (\<lambda>u. u\<lparr>usb_dataleft := length rest\<rparr>) g)"
    "usb_at (n64_usb (on_usb (\<lambda>u. u\<lparr>usb_dataleft := length rest\<rparr>) g)) rest"
  using usb_read_at [of "n64_usb g" "[b]" rest] assms
  by (simp_all add: read8_def netlib_readbyte_def netlib_readbytes_def on_usb_def)

text \<open>What a callback may change besides the game: the bytes read, and the client's number.\<close>

definition lib_kept :: "ttt \<Rightarrow> ttt \<Rightarrow> bool" where
  "lib_kept g g' \<longleftrightarrow> global_writebuffer g' = global_writebuffer g \<and> global_funcptrs g' = global_funcptrs g \<and>
     usb_cart (n64_usb g') = usb_cart (n64_usb g) \<and> global_writecursize g' = global_writecursize g \<and>
     global_sendafterpoll g' = global_sendafterpoll g \<and> waiting g' = waiting g \<and>
     global_funcptr_disconnect g' = global_funcptr_disconnect g \<and> global_funcptr_reconnect g' = global_funcptr_reconnect g \<and>
     global_curstage g' = global_curstage g"

lemma lib_kept_ok: "lib_kept g g' \<Longrightarrow> lib_ok g \<Longrightarrow> lib_ok g' \<and> consumed g g'"
  by (auto simp: lib_kept_def intro: consumed_eq elim!: lib_ok_cong [rotated -1])

lemma lib_kept_inv:
  "lib_kept g g' \<Longrightarrow> ttt_inv g \<Longrightarrow> board_inv g' \<Longrightarrow> length (global_players g') = 2 \<Longrightarrow> netlib_getclient g' \<le> 2 \<Longrightarrow> ttt_inv g'"
  by (erule ttt_invI) (simp_all add: lib_kept_def)

lemma set_player_inside:
  "length (global_players g) = 2 \<Longrightarrow> 0 \<le> i \<Longrightarrow> i < 2 \<Longrightarrow>
     set_player i f g = Inr (g\<lparr>global_players := (global_players g)[nat i := f (global_players g ! nat i)]\<rparr>)"
  by (simp add: set_player_def)

lemmas screen_defs = refresh_gametext_def refresh_lobbytext_def put_text_def Let_def

lemma player_index:
  assumes "1 \<le> b" "b \<le> (2 :: byte)"
  shows "0 \<le> uint b - 1" "uint b - 1 < 2"
  using assms by (simp_all add: word_le_def)

lemma set_large_inside:
  assumes "board_inv g" "0 \<le> x" "x < 3" "0 \<le> y" "y < 3"
  shows "\<exists>S. set_large x y v g = Inr (g\<lparr>global_gridstate_large := S\<rparr>) \<and> board_inv (g\<lparr>global_gridstate_large := S\<rparr>)"
proof -
  have n: "nat x < 3" "nat y < 3" using assms by auto
  then have "length (global_gridstate_large g ! nat x) = 3" using assms(1) by (auto simp: board_inv_def dest: list_all_nth)
  then show ?thesis using assms n
    by (intro exI [of _ "(global_gridstate_large g)[nat x := (global_gridstate_large g ! nat x)[nat y := v]]"])
      (simp add: set_large_def board_inv_def list_all_update)
qed

lemma board_inv_on_usb [simp]: "board_inv (on_usb f g) = board_inv g"
  by (rule board_inv_cong) (simp_all add: on_usb_def)

lemma lib_kept_reads [simp]:
  "lib_kept g (on_usb (\<lambda>u. u\<lparr>usb_dataleft := k\<rparr>) g)"
  by (simp add: lib_kept_def on_usb_def)

lemma lib_kept_read: "lib_kept g h \<Longrightarrow> lib_kept g (on_usb (\<lambda>u. u\<lparr>usb_dataleft := k\<rparr>) h)"
  by (simp add: lib_kept_def on_usb_def)

lemma list_two:
  obtains "xs = []" | a where "xs = [a]" | a b ys where "xs = a # b # ys"
  by (cases xs rule: remdups_adj.cases) auto

lemma list_four:
  obtains "length xs < 4" | a b c d ys where "xs = a # b # c # d # ys"
  by (cases xs; cases "tl xs"; cases "tl (tl xs)"; cases "tl (tl (tl xs))") auto

text \<open>One lemma per callback, each in a state with the packet's data still to be read.\<close>

lemma player_kept:
  fixes b :: byte
  assumes "ttt_inv h" "lib_kept g h" "ttt_inv g" "1 \<le> b" "b \<le> 2"
  shows "\<exists>g'. rbind (set_player (uint b - 1) f h) (\<lambda>g. Inr (lobby_changed g)) = Inr g' \<and> lib_kept g g' \<and> ttt_inv g'"
proof -
  note i = player_index [OF assms(4,5)]
  have l: "length (global_players h) = 2" using assms(1) by (simp add: ttt_inv_def)
  let ?h = "h\<lparr>global_players := (global_players h)[nat (uint b - 1) := f (global_players h ! nat (uint b - 1))]\<rparr>"
  have h: "ttt_inv ?h" using l by (intro ttt_invI [OF assms(1)]) (use assms(1) in \<open>simp_all add: ttt_inv_def board_inv_def netlib_getclient_def\<close>)
  have "ttt_inv (lobby_changed ?h)"
    by (rule ttt_invI [OF h]) (use h in \<open>simp_all add: ttt_inv_def lobby_changed_def stage_lobby_playerchange_def screen_defs
        board_inv_def netlib_getclient_def\<close>)
  moreover have "lib_kept g (lobby_changed ?h)" using assms(2)
    by (simp add: lib_kept_def lobby_changed_def stage_lobby_playerchange_def screen_defs)
  ultimately show ?thesis using set_player_inside [OF l i, of f] by simp
qed

lemma read_inv: "ttt_inv g \<Longrightarrow> ttt_inv (on_usb f g)"
  by (rule ttt_inv_same [OF on_usb_same])

lemma lib_kept_trans: "lib_kept g h \<Longrightarrow> lib_kept h k \<Longrightarrow> lib_kept g k"
  by (simp add: lib_kept_def)

lemma good_player:
  assumes "ttt_good ty d" "ty \<in> {PACKETID_CLIENTCONNECT, PACKETID_PLAYERINFO, PACKETID_PLAYERDISCONNECT, PACKETID_PLAYERREADY}"
  obtains b rest where "d = b # rest" "1 \<le> b" "b \<le> 2"
  using assms by (cases d) (auto simp: ttt_good_def packet_ids)

lemma playerconnect_kept:
  assumes "ttt_inv g" "usb_at (n64_usb g) d" "ttt_good PACKETID_CLIENTCONNECT d"
  shows "\<exists>g'. netcallback_playerconnect stk g = Inr g' \<and> lib_kept g g' \<and> ttt_inv g'"
proof -
  obtain b rest where d: "d = b # rest" "1 \<le> b" "b \<le> 2" using assms(3) by (rule good_player) simp
  note r = read8_at [OF assms(2) [unfolded d(1)]] and i = player_index [OF d(2,3)]
  let ?h = "netlib_setclient b (on_usb (\<lambda>u. u\<lparr>usb_dataleft := length rest\<rparr>) g)"
  let ?f = "\<lambda>p. p\<lparr>ready_state := 0, connected := 1\<rparr>"
  have l: "length (global_players ?h) = 2" using assms(1) by (simp add: ttt_inv_def netlib_setclient_def on_usb_def)
  show ?thesis using r i assms(1) d(3)
    by (simp add: netcallback_playerconnect_def set_player_inside [OF l i])
      (auto simp: lib_kept_def ttt_inv_def netlib_setclient_def netlib_getclient_def on_usb_def board_inv_def)
qed

lemma playerinfo_kept:
  assumes "ttt_inv g" "usb_at (n64_usb g) d" "ttt_good PACKETID_PLAYERINFO d"
  shows "\<exists>g'. netcallback_playerinfo stk g = Inr g' \<and> lib_kept g g' \<and> ttt_inv g'"
proof -
  obtain b rest where d: "d = b # rest" "1 \<le> b" "b \<le> 2" using assms(3) by (rule good_player) simp
  note r = read8_at [OF assms(2) [unfolded d(1)]]
  show ?thesis using player_kept [OF read_inv [OF assms(1)] lib_kept_reads assms(1) d(2,3)] r
    by (simp add: netcallback_playerinfo_def)
qed

lemma disconnect_kept:
  assumes "ttt_inv g" "usb_at (n64_usb g) d" "ttt_good PACKETID_PLAYERDISCONNECT d"
  shows "\<exists>g'. netcallback_disconnect stk g = Inr g' \<and> lib_kept g g' \<and> ttt_inv g'"
proof -
  obtain b rest where d: "d = b # rest" "1 \<le> b" "b \<le> 2" using assms(3) by (rule good_player) simp
  note r = read8_at [OF assms(2) [unfolded d(1)]]
  show ?thesis using player_kept [OF read_inv [OF assms(1)] lib_kept_reads assms(1) d(2,3)] r
    by (simp add: netcallback_disconnect_def)
qed

lemma playerready_kept:
  assumes "ttt_inv g" "usb_at (n64_usb g) d" "ttt_good PACKETID_PLAYERREADY d"
  shows "\<exists>g'. netcallback_playerready stk g = Inr g' \<and> lib_kept g g' \<and> ttt_inv g'"
proof -
  obtain b c rest where d: "d = b # c # rest" "1 \<le> b" "b \<le> 2"
    using assms(3) by (cases d rule: list_two) (auto simp: ttt_good_def packet_ids)
  note r1 = read8_at [OF assms(2) [unfolded d(1)]]
  note r2 = read8_at [OF r1(2)]
  have k: "lib_kept g (on_usb (\<lambda>u. u\<lparr>usb_dataleft := length rest\<rparr>) (on_usb (\<lambda>u. u\<lparr>usb_dataleft := length (c # rest)\<rparr>) g))"
    by (rule lib_kept_trans [OF lib_kept_reads lib_kept_reads])
  show ?thesis using player_kept [OF read_inv [OF read_inv [OF assms(1)]] k assms(1) d(2,3)] r1(1) r2(1)
    by (simp add: netcallback_playerready_def del: on_usb_simps)
qed

lemma gamestate_kept:
  assumes "ttt_inv g" "usb_at (n64_usb g) d" "ttt_good PACKETID_GAMESTATECHANGE d"
  shows "lib_kept g (netcallback_gamestate stk g) \<and> ttt_inv (netcallback_gamestate stk g)"
proof -
  obtain b rest where d: "d = b # rest" using assms(3) by (cases d) (auto simp: ttt_good_def packet_ids)
  note r = read8_at(1) [OF assms(2) [unfolded d(1)]]
  let ?h = "on_usb (\<lambda>u. u\<lparr>usb_dataleft := length rest\<rparr>) g"
  have "lib_kept ?h (netcallback_gamestate stk g) \<and> ttt_inv (netcallback_gamestate stk g)" if "ttt_inv ?h" 
    using that assms(1)
    by (auto simp: netcallback_gamestate_def stage_lobby_statechange_def stage_game_statechange_def r stages_changeto_def screen_defs
        lib_kept_def on_usb_def ttt_inv_def board_inv_def netlib_getclient_def)
  then show ?thesis using read_inv [OF assms(1)] lib_kept_trans [OF lib_kept_reads] by blast
qed

lemma playerturn_kept:
  assumes "ttt_inv g" "usb_at (n64_usb g) d" "ttt_good PACKETID_PLAYERTURN d"
  shows "lib_kept g (stage_game_playerturn g) \<and> ttt_inv (stage_game_playerturn g)"
proof -
  obtain b c rest where d: "d = b # c # rest" "c \<le> 9"
    using assms(3) by (cases d rule: list_two) (auto simp: ttt_good_def packet_ids)
  note r1 = read8_at [OF assms(2) [unfolded d(1)]]
  let ?g = "(on_usb (\<lambda>u. u\<lparr>usb_dataleft := length (c # rest)\<rparr>) g)\<lparr>global_playerturn := b\<rparr>"
  have "usb_at (n64_usb ?g) (c # rest)" using r1(2) by simp
  note r2 = read8_at(1) [OF this]
  show ?thesis using assms(1) d(2)
    by (simp add: stage_game_playerturn_def r1(1) r2 del: on_usb_simps list.size)
      (auto simp: screen_defs lib_kept_def on_usb_def ttt_inv_def board_inv_def netlib_getclient_def)
qed

lemma playercursor_kept:
  assumes "ttt_inv g" "usb_at (n64_usb g) d" "ttt_good PACKETID_PLAYERCURSOR d"
  shows "lib_kept g (stage_game_playercursor g) \<and> ttt_inv (stage_game_playercursor g)"
proof -
  obtain b c rest where d: "d = b # c # rest"
    using assms(3) by (cases d rule: list_two) (auto simp: ttt_good_def packet_ids)
  note r1 = read8_at [OF assms(2) [unfolded d]]
  let ?g = "(on_usb (\<lambda>u. u\<lparr>usb_dataleft := length (c # rest)\<rparr>) g)\<lparr>global_opponentx := b\<rparr>"
  have "usb_at (n64_usb ?g) (c # rest)" using r1(2) by simp
  note r2 = read8_at(1) [OF this]
  show ?thesis using assms(1)
    by (simp add: stage_game_playercursor_def r1(1) r2 del: on_usb_simps list.size)
      (auto simp: lib_kept_def on_usb_def ttt_inv_def board_inv_def netlib_getclient_def)
qed

lemma makemove_kept:
  assumes "ttt_inv g" "usb_at (n64_usb g) d" "ttt_good PACKETID_PLAYERMOVE d"
  shows "\<exists>g'. stage_game_makemove stk g = Inr g' \<and> lib_kept g g' \<and> ttt_inv g' \<and>
    small_at g' (uint (d ! 1) - 1) (uint (d ! 2)) (uint (d ! 3)) = d ! 0 \<and> global_playerturn g' = 0"
proof -
  obtain p b x y rest where d: "d = p # b # x # y # rest" "1 \<le> b" "b \<le> 9" "x \<le> 2" "y \<le> 2"
    using assms(3) by (cases d rule: list_four) (auto simp: ttt_good_def packet_ids)
  note r1 = read8_at [OF assms(2) [unfolded d(1)]]
  note r2 = read8_at [OF r1(2)]
  note r3 = read8_at [OF r2(2)]
  note r4 = read8_at [OF r3(2)]
  let ?h = "on_usb (\<lambda>u. u\<lparr>usb_dataleft := length rest\<rparr>) (on_usb (\<lambda>u. u\<lparr>usb_dataleft := length (y # rest)\<rparr>)
    (on_usb (\<lambda>u. u\<lparr>usb_dataleft := length (x # y # rest)\<rparr>) (on_usb (\<lambda>u. u\<lparr>usb_dataleft := length (b # x # y # rest)\<rparr>) g)))"
  have inv: "ttt_inv ?h" by (intro read_inv assms(1))
  have "lib_kept g ?h" by (intro lib_kept_read lib_kept_reads)
  moreover obtain S where S: "set_small (uint b - 1) (uint x) (uint y) p ?h = Inr (?h\<lparr>global_gridstate_small := S\<rparr>)"
    "board_inv (?h\<lparr>global_gridstate_small := S\<rparr>)" "S ! nat (uint b - 1) ! nat (uint x) ! nat (uint y) = p"
    using set_small_inside [of ?h "uint b - 1" "uint x" "uint y" p] inv board_number [OF d(2,3)] d(4,5)
    by (auto simp: ttt_inv_def word_le_def)
  let ?g' = "?h\<lparr>global_gridstate_small := S, global_opponentx := -1, global_opponenty := -1, global_playerturn := 0\<rparr>"
  have "stage_game_makemove stk g = Inr ?g'" using S(1)
    by (simp add: stage_game_makemove_def r1(1) r2(1) r3(1) r4(1) del: on_usb_simps list.size)
  moreover have "ttt_inv ?g'" using S(2) inv
    by (intro ttt_invI [OF inv]) (simp_all add: board_inv_def ttt_inv_def netlib_getclient_def)
  ultimately show ?thesis using S(3) d(1) by (auto simp: lib_kept_def small_at_def)
qed

lemma boardcompleted_kept:
  assumes "ttt_inv g" "usb_at (n64_usb g) d" "ttt_good PACKETID_BOARDCOMPLETED d"
  shows "\<exists>g'. stage_game_boardcompleted stk g = Inr g' \<and> lib_kept g g' \<and> ttt_inv g'"
proof -
  obtain b c rest where d: "d = b # c # rest" "1 \<le> b" "b \<le> 9"
    using assms(3) by (cases d rule: list_two) (auto simp: ttt_good_def packet_ids)
  note r1 = read8_at [OF assms(2) [unfolded d(1)]]
  note r2 = read8_at [OF r1(2)]
  let ?h = "on_usb (\<lambda>u. u\<lparr>usb_dataleft := length rest\<rparr>) (on_usb (\<lambda>u. u\<lparr>usb_dataleft := length (c # rest)\<rparr>) g)"
  have inv: "ttt_inv ?h" by (intro read_inv assms(1))
  note n = board_number [OF d(2,3)]
  obtain S where S: "set_large ((uint b - 1) mod 3) ((uint b - 1) div 3) c ?h = Inr (?h\<lparr>global_gridstate_large := S\<rparr>)"
    "board_inv (?h\<lparr>global_gridstate_large := S\<rparr>)"
    using set_large_inside [of ?h "(uint b - 1) mod 3" "(uint b - 1) div 3" c] inv n by (auto simp: ttt_inv_def)
  have "stage_game_boardcompleted stk g = Inr (?h\<lparr>global_gridstate_large := S\<rparr>)" using S(1) n
    by (simp add: stage_game_boardcompleted_def r1(1) r2(1) c_div_nonneg del: on_usb_simps list.size)
  moreover have "ttt_inv (?h\<lparr>global_gridstate_large := S\<rparr>)" using S(2)
    by (intro ttt_invI [OF inv]) (use inv in \<open>simp_all add: ttt_inv_def netlib_getclient_def\<close>)
  moreover have "lib_kept g ?h" by (intro lib_kept_read lib_kept_reads)
  ultimately show ?thesis by (auto simp: lib_kept_def)
qed

lemma serverfull_kept:
  assumes "ttt_inv g"
  shows "lib_kept g (netcallback_serverfull g) \<and> ttt_inv (netcallback_serverfull g)"
  using assms by (auto simp: netcallback_serverfull_def stage_init_serverfull_def put_text_def lib_kept_def ttt_inv_def
      board_inv_def netlib_getclient_def)

section \<open>The game keeps its invariant\<close>

lemma event_kept:
  assumes "lib_ok g" "ttt_inv g" "global_funcptr_disconnect g = Some f \<or> global_funcptr_reconnect g = Some f"
  shows "\<exists>g'. ttt_event f g = Some (Inr g') \<and> lib_ok g' \<and> ttt_inv g' \<and> n64_usb g' = n64_usb g"
proof -
  have e: "lib_ok (callback_disconnect g)" "lib_ok (callback_reconnect g)"
    by (rule lib_ok_cong [OF _ _ _ _ _ assms(1)];
      simp add: callback_disconnect_def callback_reconnect_def stages_changeto_def netlib_setclient_def)+
  have "ttt_inv (callback_disconnect g)" "ttt_inv (callback_reconnect g)"
    using assms(2) by (simp_all add: callback_disconnect_def callback_reconnect_def stages_changeto_def netlib_setclient_def
        ttt_inv_def board_inv_def netlib_getclient_def)
  moreover have "n64_usb (callback_disconnect g) = n64_usb g" "n64_usb (callback_reconnect g) = n64_usb g"
    by (simp_all add: callback_disconnect_def callback_reconnect_def stages_changeto_def netlib_setclient_def)
  moreover have "f = 11 \<or> f = 12" using assms(2,3) by (auto simp: ttt_inv_def)
  ultimately show ?thesis using e by (auto simp: ttt_event_def)
qed

lemma packet_kept:
  assumes "lib_ok g" "ttt_inv g" "usb_at (n64_usb g) d" "ttt_good ty d" "f = unat ty" "0 < f" "f \<le> 10"
  shows "\<exists>g'. ttt_packet stk hb f g = Some (Inr g') \<and> lib_ok g' \<and> ttt_inv g' \<and> consumed g g'"
proof -
  have "f = 1 \<or> f = 2 \<or> f = 3 \<or> f = 4 \<or> f = 5 \<or> f = 6 \<or> f = 7 \<or> f = 8 \<or> f = 9 \<or> f = 10" using assms(6,7) by presburger
  then have f: "f \<in> {1, 2, 3, 4, 5, 6, 7, 8, 9, 10}" by (elim disjE) simp_all
  have ty: "ty = of_nat f" using assms(5) by simp
  have "\<exists>g'. ttt_packet stk hb f g = Some (Inr g') \<and> lib_kept g g' \<and> ttt_inv g'"
    using f playerconnect_kept [OF assms(2,3)] playerinfo_kept [OF assms(2,3)] disconnect_kept [OF assms(2,3)]
      serverfull_kept [OF assms(2)] playerready_kept [OF assms(2,3)] gamestate_kept [OF assms(2,3)]
      playerturn_kept [OF assms(2,3)] makemove_kept [OF assms(2,3)] playercursor_kept [OF assms(2,3)]
      boardcompleted_kept [OF assms(2,3)] assms(4)
    by (elim insertE) (simp_all add: ttt_packet_def ty packet_ids, blast+)
  then show ?thesis using lib_kept_ok [OF _ assms(1)] by blast
qed

lemma ttt_keeps: "game_keeps (ttt_game n t stk) n ttt_inv ttt_good"
proof (induction n)
  case 0
  show ?case
  proof
    show "\<exists>g'. game_on_event (ttt_game 0 t stk) f g = Some (Inr g') \<and> lib_ok g' \<and> ttt_inv g' \<and> n64_usb g' = n64_usb g"
      if "lib_ok g" "ttt_inv g" "global_funcptr_disconnect g = Some f \<or> global_funcptr_reconnect g = Some f" for g f
      using event_kept [OF that] by simp
  qed (use ttt_inv_same in simp_all)
next
  case (Suc n)
  show ?case
  proof
    show "\<exists>g'. game_on_event (ttt_game (Suc n) t stk) f g = Some (Inr g') \<and> lib_ok g' \<and> ttt_inv g' \<and> n64_usb g' = n64_usb g"
      if "lib_ok g" "ttt_inv g" "global_funcptr_disconnect g = Some f \<or> global_funcptr_reconnect g = Some f" for g f
      using event_kept [OF that] by simp
    show "\<exists>g'. game_on_packet (ttt_game (Suc n) t stk) f sz g = Some (Inr g') \<and> lib_ok g' \<and> ttt_inv g' \<and> consumed g g'"
      if g: "lib_ok g" "ttt_inv g" "unat ty < MAX_UNIQUEPACKETS" "global_funcptrs g ! unat ty = Some f" "ttt_good ty d"
        "usb_at (n64_usb g) d" "list_all (message_ok ttt_good) (waiting g)" "length (waiting g) < Suc n" for g ty f d sz
    proof -
      have f: "f = unat ty" "f \<le> 10" using g(2-4) by (auto simp: ttt_inv_def)
      show ?thesis
      proof (cases "f = 0")
        case True
        then have "ty = PACKETID_ACKBEAT" using f(1) by (simp add: PACKETID_ACKBEAT_def unat_eq_0)
        then have "usb_dataleft (n64_usb g) = 0" using g(5,6) by (simp add: ttt_good_def usb_at_def)
        then show ?thesis using game_keeps.heartbeat_keeps [OF Suc.IH g(1,2,7)] g(8) True by (simp add: ttt_packet_def)
      next
        case False
        then show ?thesis using packet_kept [OF g(1,2,6,5) f(1) _ f(2)] by simp
      qed
    qed
  qed (rule ttt_inv_same)
qed

interpretation ttt: game_keeps "ttt_game n t stk" t n ttt_inv ttt_good for n t stk
  by (rule ttt_keeps)

section \<open>Frames\<close>

text \<open>The state between two frames.\<close>

definition between_frames :: "ttt \<Rightarrow> bool" where
  "between_frames g \<longleftrightarrow> lib_ok g \<and> ttt_inv g \<and> list_all (message_ok ttt_good) (waiting g) \<and> usb_dataleft (n64_usb g) = 0"

lemma between_consumed:
  assumes "lib_ok g'" "ttt_inv g'" "consumed g g'" "usb_dataleft (n64_usb g') = 0" "between_frames g"
  shows "between_frames g'" "length (waiting g') \<le> length (waiting g)"
  using assms consumedD [OF assms(3), of "message_ok ttt_good"] by (simp_all add: between_frames_def)

text \<open>A change of the game's own variables that leaves the library alone.\<close>

lemma between_cong:
  assumes "between_frames g" "global_writebuffer g' = global_writebuffer g" "global_funcptrs g' = global_funcptrs g"
    "global_writecursize g' = global_writecursize g" "global_sendafterpoll g' = global_sendafterpoll g" "n64_usb g' = n64_usb g"
    and "ttt_inv g'"
  shows "between_frames g'"
  using assms lib_ok_cong [of g' g] by (simp add: between_frames_def)

lemma send_returns:
  assumes "between_frames g" "length (waiting g) \<le> n" "length (concat (map write_bytes ws)) \<le> 4078"
  shows "\<exists>g'. rob (Some (netlib_write_all ws (netlib_setflags fl (netlib_start ty g)))) (\<lambda>g. netlib_poll n (ttt_game n t stk) t (put_header r g))
    = Some (Inr g') \<and> between_frames g' \<and> length (waiting g') \<le> length (waiting g)"
proof -
  have b: "lib_ok g" "ttt_inv g" "list_all (message_ok ttt_good) (waiting g)" "usb_dataleft (n64_usb g) = 0"
    using assms(1) by (simp_all add: between_frames_def)
  show ?thesis using ttt.send_keeps [OF b assms(2,2,3), of fl ty t stk r] between_consumed [OF _ _ _ _ assms(1)] by fastforce
qed

lemma start_flags: "between_frames g \<Longrightarrow> netlib_start ty g = netlib_setflags 0 (netlib_start ty g)"
  by (intro start_is_setflags) (simp add: between_frames_def lib_ok_def ready_def)

lemma to_server_returns:
  assumes "between_frames g" "length (waiting g) \<le> n" "length (concat (map write_bytes ws)) \<le> 4078"
  shows "\<exists>g'. to_server n t stk ty ws g = Some (Inr g') \<and> between_frames g' \<and> length (waiting g') \<le> length (waiting g)"
proof -
  have "netlib_sendtoserver n (ttt_game n t stk) t = (\<lambda>g. netlib_poll n (ttt_game n t stk) t (put_header 0 g))"
    by (simp add: netlib_sendtoserver_def fun_eq_iff)
  then show ?thesis using send_returns [OF assms, of 0 ty t stk 0] start_flags [OF assms(1), of ty]
    by (simp add: to_server_def)
qed

lemma netlib_poll_clnumber: "netlib_broadcast env n game t g = netlib_poll n game t
    (put_header (0xFFFFFFFF AND NOT (c_shl1 env (uint (global_clnumber g) - 1))) g)"
  by (simp add: netlib_broadcast_def)

lemma send_cursor_returns:
  assumes "between_frames g" "length (waiting g) \<le> n" "flags = id \<or> flags = netlib_setflags FLAG_UNRELIABLE"
  shows "\<exists>g'. send_cursor env n t stk flags g = Some (Inr g') \<and> between_frames g' \<and> length (waiting g') \<le> length (waiting g)"
proof -
  obtain fl where fl: "flags (netlib_start PACKETID_PLAYERCURSOR g) = netlib_setflags fl (netlib_start PACKETID_PLAYERCURSOR g)"
    using assms(3) start_flags [OF assms(1), of PACKETID_PLAYERCURSOR] by auto
  let ?w = "netlib_write_all [W8 (global_selectionx g), W8 (global_selectiony g)] (netlib_setflags fl (netlib_start PACKETID_PLAYERCURSOR g))"
  show ?thesis
  proof (cases ?w)
    case (Inl e)
    then show ?thesis using send_returns [OF assms(1,2), of "[W8 (global_selectionx g), W8 (global_selectiony g)]" fl PACKETID_PLAYERCURSOR t stk 0]
      by simp
  next
    case (Inr h)
    let ?m = "0xFFFFFFFF AND NOT (c_shl1 env (uint (global_clnumber h) - 1))"
    show ?thesis
      using send_returns [OF assms(1,2), of "[W8 (global_selectionx g), W8 (global_selectiony g)]" fl PACKETID_PLAYERCURSOR t stk ?m] Inr
      by (simp add: send_cursor_def fl netlib_poll_clnumber)
  qed
qed

text \<open>The updates of the stages.\<close>

lemma direction: "pad_direction b \<in> directions"
  by (simp add: pad_direction_def directions_def Let_def)

definition goes_on :: "ttt \<Rightarrow> ttt result option \<Rightarrow> bool" where
  "goes_on g r \<longleftrightarrow> (\<exists>g'. r = Some (Inr g') \<and> between_frames g' \<and> length (waiting g') \<le> length (waiting g))"

lemma goes_on_then:
  assumes "goes_on g r" "\<And>h. r = Some (Inr h) \<Longrightarrow> between_frames h \<Longrightarrow> length (waiting h) \<le> length (waiting g) \<Longrightarrow> goes_on h (f h)"
  shows "goes_on g (rob r f)"
  using assms by (fastforce simp: goes_on_def)

lemma between_set [simp]:
  "between_frames (g\<lparr>game_contdata := a, movingframes := b\<rparr>) = between_frames g"
  "between_frames (g\<lparr>couldplaybefore := c\<rparr>) = between_frames g"
  "between_frames (g\<lparr>global_playerturn := e\<rparr>) = between_frames g"
  "between_frames (g\<lparr>lobby_contdata := l\<rparr>) = between_frames g"
  "between_frames (g\<lparr>global_isready := i\<rparr>) = between_frames g"
  "between_frames (g\<lparr>init_disconnected := v\<rparr>) = between_frames g"
  "between_frames (g\<lparr>text_calls := cs\<rparr>) = between_frames g"
  "between_frames (g\<lparr>global_nextstage := st\<rparr>) = between_frames g"
  by (simp_all add: between_frames_def lib_ok_def ready_def fixed_header_def ttt_inv_def board_inv_def netlib_getclient_def)

lemma between_screen [simp]:
  "between_frames (refresh_gametext g) = between_frames g" "between_frames (refresh_lobbytext g) = between_frames g"
  "between_frames (stages_changeto s g) = between_frames g" "between_frames (put_text cs g) = between_frames g"
  "waiting (refresh_gametext g) = waiting g" "waiting (refresh_lobbytext g) = waiting g"
  "waiting (stages_changeto s g) = waiting g" "waiting (put_text cs g) = waiting g"
  by (simp_all add: screen_defs stages_changeto_def)

lemma own_move_returns:
  assumes "between_frames g" "length (waiting g) \<le> n"
  shows "goes_on g (make_own_move n t stk g)"
proof -
  have b: "board_inv g" using assms(1) by (simp add: between_frames_def ttt_inv_def)
  show ?thesis
  proof (cases "cursor_field g = 0")
    case True
    obtain h where h: "board_inv h" "n64_usb h = n64_usb g" "h = g\<lparr>global_gridstate_small := global_gridstate_small h\<rparr>"
      "cursor_field h = netlib_getclient g"
      "make_own_move n t stk g = rob (to_server n t stk PACKETID_PLAYERMOVE (map W8 (cursor_move g)) h)
         (\<lambda>g. Some (Inr (refresh_gametext (g\<lparr>global_playerturn := 0\<rparr>))))"
      by (rule make_own_move_marks [OF b True, of n t stk])
    have f: "global_players h = global_players g" "netlib_getclient h = netlib_getclient g" "global_curstage h = global_curstage g"
      "global_funcptr_disconnect h = global_funcptr_disconnect g" "global_funcptr_reconnect h = global_funcptr_reconnect g"
      "global_funcptrs h = global_funcptrs g" "n64_usb h = n64_usb g" "global_writebuffer h = global_writebuffer g"
      "global_writecursize h = global_writecursize g" "global_sendafterpoll h = global_sendafterpoll g"
      by (subst h(3), simp add: netlib_getclient_def)+
    have "ttt_inv h" using h(1) f assms(1) by (simp add: between_frames_def ttt_inv_def)
    then have bf: "between_frames h" using f by (intro between_cong [OF assms(1)])
    have w: "waiting h = waiting g" using f(7) by simp
    have "length (concat (map write_bytes (map W8 (cursor_move g)))) \<le> 4078" by (simp add: W8_bytes cursor_move_def)
    from to_server_returns [OF bf _ this, of n t stk PACKETID_PLAYERMOVE] assms(2) w
    obtain g' where g': "to_server n t stk PACKETID_PLAYERMOVE (map W8 (cursor_move g)) h = Some (Inr g')" "between_frames g'"
      "length (waiting g') \<le> length (waiting g)" by auto
    then show ?thesis using h(5) by (simp add: goes_on_def)
  next
    case False
    then show ?thesis using selection_bounds [OF b] cursor_board_bounds [OF b] b assms(1)
      by (simp add: make_own_move_def cursor_field_def goes_on_def Let_def)
  qed
qed

lemma cursor_at_between:
  assumes "between_frames g" "0 \<le> x" "x \<le> 8" "0 \<le> y" "y \<le> 8"
  shows "between_frames (cursor_at x y g)"
proof -
  have "ttt_inv (cursor_at x y g)" using assms
    by (simp add: cursor_at_def between_frames_def ttt_inv_def board_inv_def netlib_getclient_def word_le_def small_byte)
  then show ?thesis by (intro between_cong [OF assms(1)]) (simp_all add: cursor_at_def)
qed

text \<open>Even without a board to play in, placing the cursor stays inside the arrays.\<close>

lemma cursor_toboard_total:
  assumes "board_inv g" "1 \<le> board" "board \<le> 9"
  shows "cursor_toboard board g = Inr g \<or> (\<exists>x y. cursor_toboard board g = Inr (cursor_at x y g) \<and> 0 \<le> x \<and> x \<le> 8 \<and> 0 \<le> y \<and> y \<le> 8)"
proof -
  note b = board_number [OF assms(2,3)]
  let ?t = "small_at g (uint board - 1) (uint (global_selectionx g) mod 3) (uint (global_selectiony g) mod 3) = 0"
  show ?thesis
  proof (cases "first_free g (uint board - 1)")
    case None
    then show ?thesis using b unfolding cursor_toboard_exact [OF assms] by (cases ?t) (auto intro!: exI)
  next
    case (Some p)
    obtain x y where p: "p = (x, y)" by fastforce
    have "cursor_toboard board g = Inr (cursor_at ((uint board - 1) mod 3 * 3 + (if ?t then 1 else x))
        ((uint board - 1) div 3 * 3 + (if ?t then 1 else y)) g)"
      unfolding cursor_toboard_exact [OF assms] using Some by (simp add: p)
    moreover have "0 \<le> (if ?t then 1 else x)" "(if ?t then 1 else x) \<le> 2" "0 \<le> (if ?t then 1 else y)" "(if ?t then 1 else y) \<le> 2"
      using first_free_inside [OF Some [unfolded p]] by auto
    then have "0 \<le> (uint board - 1) mod 3 * 3 + (if ?t then 1 else x)" "(uint board - 1) mod 3 * 3 + (if ?t then 1 else x) \<le> 8"
      "0 \<le> (uint board - 1) div 3 * 3 + (if ?t then 1 else y)" "(uint board - 1) div 3 * 3 + (if ?t then 1 else y) \<le> 8"
      using b(3-6) by linarith+
    ultimately show ?thesis by blast
  qed
qed

lemma firstboard_total:
  assumes "board_inv g" "set fs \<subseteq> set fields"
  shows "firstboard_loop fs g = Inr g \<or> (\<exists>x y. firstboard_loop fs g = Inr (cursor_at x y g) \<and> 0 \<le> x \<and> x \<le> 8 \<and> 0 \<le> y \<and> y \<le> 8)"
  using assms(2)
proof (induction fs)
  case (Cons f fs)
  obtain bx by' where f: "f = (bx, by')" by fastforce
  then have b: "0 \<le> bx" "bx < 3" "0 \<le> by'" "by' < 3" using Cons.prems by (auto simp: fields_iff)
  have "uint (word_of_int (1 + bx + by' * 3) :: byte) = 1 + bx + by' * 3" by (rule small_byte) (use b in auto)
  then have "1 \<le> (word_of_int (1 + bx + by' * 3) :: byte)" "word_of_int (1 + bx + by' * 3) \<le> (9 :: byte)"
    using b by (simp_all add: word_le_def)
  then show ?case using cursor_toboard_total [OF assms(1), of "word_of_int (1 + bx + by' * 3)"] Cons b assms(1)
    by (cases "large_at g bx by' = 0") (simp_all add: f)
qed simp

lemma place_cursor_total:
  assumes "board_inv g"
  shows "place_cursor g = Inr g \<or> (\<exists>x y. place_cursor g = Inr (cursor_at x y g) \<and> 0 \<le> x \<and> x \<le> 8 \<and> 0 \<le> y \<and> y \<le> 8)"
proof -
  note c = selection_bounds [OF assms]
  have f: "1 \<le> global_forcedboard g \<longleftrightarrow> global_forcedboard g \<noteq> 0" "global_forcedboard g \<le> 9"
    using assms by (simp_all add: forced_pos board_inv_def)
  consider "place_cursor g = Inr g" | "place_cursor g = cursor_toboard 5 g" | "place_cursor g = firstboard_loop fields g"
    | "global_forcedboard g \<noteq> 0" "place_cursor g = cursor_toboard (global_forcedboard g) g"
  proof -
    have "place_cursor g = (if global_forcedboard g \<noteq> 0 \<and> (uint (global_selectionx g) div 3 \<noteq> uint (word_of_int ((uint (global_forcedboard g) - 1) smod 3) :: byte) \<or>
        uint (global_selectiony g) div 3 \<noteq> uint (word_of_int ((uint (global_forcedboard g) - 1) sdiv 3) :: byte))
      then cursor_toboard (global_forcedboard g) g
      else if large_at g (uint (global_selectionx g) div 3) (uint (global_selectiony g) div 3) \<noteq> 0
      then if large_at g 1 1 \<noteq> 0 then firstboard_loop fields g else cursor_toboard 5 g else Inr g)"
      using c assms by (simp add: place_cursor_def Let_def)
    then show thesis using that by presburger
  qed
  then show ?thesis
  proof cases
    case 2
    have "1 \<le> (5 :: byte)" "5 \<le> (9 :: byte)" by simp_all
    then show ?thesis using cursor_toboard_total [OF assms] 2 by metis
  next
    case 3
    then show ?thesis using firstboard_total [OF assms subset_refl] by metis
  next
    case 4
    then show ?thesis using cursor_toboard_total [OF assms] f by metis
  qed simp
qed

lemma goes_onI [intro]:
  "between_frames g' \<Longrightarrow> length (waiting g') \<le> length (waiting g) \<Longrightarrow> goes_on g (Some (Inr g'))"
  by (simp add: goes_on_def)

lemma place_cursor_returns:
  assumes "between_frames g"
  shows "\<exists>h. place_cursor g = Inr h \<and> between_frames h \<and> waiting h = waiting g"
proof -
  have "board_inv g" using assms by (simp add: between_frames_def ttt_inv_def)
  moreover have "waiting (cursor_at x y g) = waiting g" for x y by (simp add: cursor_at_def)
  ultimately show ?thesis using place_cursor_total [of g] cursor_at_between [OF assms] assms by blast
qed

lemma move_forced_inv:
  assumes "board_inv g" "global_forcedboard g \<noteq> 0"
  shows "board_inv (move_forced d g)"
proof -
  have one: "1 \<le> global_forcedboard g" "global_forcedboard g \<le> 9"
    using assms by (simp_all add: board_inv_def forced_pos)
  note fb = board_number [OF one]
  have r: "(uint (global_forcedboard g) - 1) mod 3 \<in> {0, 1, 2}" "(uint (global_forcedboard g) - 1) div 3 \<in> {0, 1, 2}"
    using fb(3-6) by auto
  show ?thesis using clamp_board(2) [OF r(1)] clamp_board(2) [OF r(2)] fb(1) assms(1)
    by (simp add: move_forced_def c_div_nonneg board_inv_def Let_def)
qed

lemma between_selection:
  assumes "between_frames g" "board_inv (g\<lparr>global_selectionx := x, global_selectiony := y\<rparr>)"
  shows "between_frames (g\<lparr>global_selectionx := x, global_selectiony := y\<rparr>)"
  using assms by (simp add: between_frames_def lib_ok_def ready_def fixed_header_def ttt_inv_def netlib_getclient_def)

text \<open>
  What the cursor's movement depends on: a direction has been held for five frames, no board is
  forced, and every board the cursor passes in that direction is completed.
\<close>

definition blocked :: "NUContData \<Rightarrow> ttt \<Rightarrow> bool" where
  "blocked pad g \<longleftrightarrow> button pad AND (L_JPAD OR R_JPAD OR U_JPAD OR D_JPAD) \<noteq> 0 \<and>
     movingframes g + 1 = inputbuffer \<and> global_forcedboard g = 0 \<and>
     (\<forall>k\<in>{1..<10}. closed_after (pad_direction (button pad)) g k)"

lemma movement_outcome:
  assumes "between_frames g" "length (waiting g) \<le> n"
  shows "if blocked pad g then controller_movement env n t stk pad g = None
    else goes_on g (controller_movement env n t stk pad g)"
proof -
  define h where "h = g\<lparr>game_contdata := pad, movingframes :=
      (if button pad AND (L_JPAD OR R_JPAD OR U_JPAD OR D_JPAD) \<noteq> 0 then movingframes g + 1 else 0)\<rparr>"
  let ?d = "pad_direction (button pad)"
  let ?r = "if global_forcedboard h > 0 then Some (Inr (move_forced ?d h)) else move_loop ?d h"
  have h: "between_frames h" "waiting h = waiting g"
    using assms(1) by (simp_all add: h_def)
  then have b: "ttt_inv h" "board_inv h" by (simp_all add: between_frames_def ttt_inv_def)
  have bl: "blocked pad g \<longleftrightarrow> movingframes h = inputbuffer \<and> global_forcedboard h = 0 \<and>
      (\<forall>k\<in>{1..<10}. closed_after ?d h k)"
    by (simp add: blocked_def h_def inputbuffer_def closed_after_def large_at_def)
  show ?thesis
  proof (cases "movingframes h = inputbuffer")
    case False
    then have "controller_movement env n t stk pad g = Some (Inr h)" by (simp add: controller_movement_def h_def Let_def)
    then show ?thesis using h(1,2) False bl by auto
  next
    case True
    then have c: "controller_movement env n t stk pad g = rob ?r (send_cursor env n t stk (netlib_setflags FLAG_UNRELIABLE))"
      by (simp add: controller_movement_def h_def Let_def)
    have sent: "goes_on g (controller_movement env n t stk pad g)" if "?r = Some (Inr k)" "between_frames k" "waiting k = waiting g" for k
      using send_cursor_returns [OF that(2), of n "netlib_setflags FLAG_UNRELIABLE" env t stk] assms(2) that(1,3) c
      by (auto simp: goes_on_def)
    show ?thesis
    proof (cases "global_forcedboard h = 0")
      case False
      have "between_frames (move_forced ?d h)"
        using move_forced_inv [OF b(2) False] between_selection [OF h(1)] by (simp add: move_forced_def Let_def)
      then show ?thesis using sent [of "move_forced ?d h"] False h(2) bl by (simp add: forced_pos move_forced_def Let_def)
    next
      case free: True
      note iff = free_move_returns_iff [OF b(2) direction, of "button pad"]
      show ?thesis
      proof (cases "find (\<lambda>k. \<not> closed_after ?d h k) [1..<10]")
        case None
        then have "\<forall>k\<in>{1..<10}. closed_after ?d h k" by (auto simp: find_None_iff)
        moreover have "controller_movement env n t stk pad g = None" using c iff None free by simp
        ultimately show ?thesis using bl True free by simp
      next
        case (Some k)
        then have "\<not> blocked pad g" unfolding bl by (auto simp: find_Some_iff)
        moreover have "between_frames (cursor_moved ?d k h)"
          using cursor_moved_simps(2) [OF b(2), of ?d k] between_selection [OF h(1)] by (simp add: cursor_moved_def)
        ultimately show ?thesis using sent [of "cursor_moved ?d k h"] iff Some free h(2) by (simp add: cursor_moved_def)
      qed
    qed
  qed
qed

text \<open>C26: 
  The function that moves the cursor returns unless the movement is blocked: then its loop skips
  one completed board after the other and comes round to where it was.
\<close>

theorem movement_hangs_iff_blocked:
  assumes "between_frames g" "length (waiting g) \<le> n"
  shows "controller_movement env n t stk pad g = None \<longleftrightarrow> blocked pad g"
  using movement_outcome [OF assms, of pad env t stk] by (auto simp: goes_on_def split: if_splits)

text \<open>
  Where a frame can hang: in the game, when it is the client's turn and the cursor's movement is
  blocked in the state that this frame reaches before it moves the cursor.
\<close>

definition before_movement :: "env \<Rightarrow> nat \<Rightarrow> u64 \<Rightarrow> byte \<Rightarrow> ttt \<Rightarrow> ttt result option" where
  "before_movement env n t stk g =
     (if \<not> couldplaybefore g
      then rob (Some (place_cursor g)) (\<lambda>g. rob (send_cursor env n t stk id g) (\<lambda>g. Some (Inr (g\<lparr>couldplaybefore := True\<rparr>))))
      else Some (Inr g))"

definition game_hangs :: "env \<Rightarrow> nat \<Rightarrow> u64 \<Rightarrow> byte \<Rightarrow> NUContData \<Rightarrow> ttt \<Rightarrow> bool" where
  "game_hangs env n t stk pad g \<longleftrightarrow> global_gamestate g = GAMESTATE_PLAYING \<and> global_playerturn g = netlib_getclient g \<and>
     (case before_movement env n t stk g of Some (Inr h) \<Rightarrow> blocked pad h | _ \<Rightarrow> False)"

lemma game_update_outcome:
  assumes "between_frames g" "length (waiting g) \<le> n"
  shows "if game_hangs env n t stk pad g then stage_game_update env n t stk pad g = None
    else goes_on g (stage_game_update env n t stk pad g)"
proof (cases "global_gamestate g = GAMESTATE_PLAYING \<and> global_playerturn g = netlib_getclient g")
  case False
  then have "\<not> game_hangs env n t stk pad g" by (auto simp: game_hangs_def)
  moreover have "goes_on g (stage_game_update env n t stk pad g)"
    unfolding stage_game_update_def if_not_P [OF False] using assms(1) by auto
  ultimately show ?thesis by simp
next
  case True
  have "goes_on g (before_movement env n t stk g)"
  proof (cases "couldplaybefore g")
    case False
    obtain h where h: "place_cursor g = Inr h" "between_frames h" "waiting h = waiting g"
      using place_cursor_returns [OF assms(1)] by blast
    obtain g1 where "send_cursor env n t stk id h = Some (Inr g1)" "between_frames g1" "length (waiting g1) \<le> length (waiting h)"
      using send_cursor_returns [OF h(2), of n id env t stk] assms(2) h(3) by auto
    then show ?thesis using False h by (auto simp: before_movement_def)
  qed (use assms(1) in \<open>auto simp: before_movement_def\<close>)
  then obtain h where h: "before_movement env n t stk g = Some (Inr h)" "between_frames h" "length (waiting h) \<le> length (waiting g)"
    by (auto simp: goes_on_def)
  then have hn: "length (waiting h) \<le> n" using assms(2) by simp
  have hangs: "game_hangs env n t stk pad g \<longleftrightarrow> blocked pad h" using True h(1) by (simp add: game_hangs_def)
  let ?own = "\<lambda>g. if trigger (game_contdata g) AND A_BUTTON \<noteq> 0 then make_own_move n t stk g else Some (Inr g)"
  have u: "stage_game_update env n t stk pad g = rob (controller_movement env n t stk pad h) ?own"
    using h(1) unfolding stage_game_update_def if_P [OF True] before_movement_def by simp
  note m = movement_outcome [OF h(2) hn, of pad env t stk]
  show ?thesis
  proof (cases "blocked pad h")
    case True
    then show ?thesis using m hangs u by simp
  next
    case False
    then have "goes_on h (controller_movement env n t stk pad h)" using m by simp
    then have "goes_on h (rob (controller_movement env n t stk pad h) ?own)"
    proof (rule goes_on_then)
      fix k assume k: "between_frames k" "length (waiting k) \<le> length (waiting h)"
      then show "goes_on k (?own k)" using own_move_returns [OF k(1), of n t stk] hn by auto
    qed
    then have "goes_on g (rob (controller_movement env n t stk pad h) ?own)" using h(3) by (auto simp: goes_on_def)
    then show ?thesis using False hangs u by simp
  qed
qed

text \<open>
  In the lobby the ready button writes \<open>global_players[-1]\<close> when the client's number is 0: after a
  lost connection, until the stage has changed.
\<close>

definition lobby_fault :: "NUContData \<Rightarrow> ttt \<Rightarrow> bool" where
  "lobby_fault pad g \<longleftrightarrow> global_curstage g = STAGE_LOBBY \<and> netlib_getclient g = 0 \<and> trigger pad AND A_BUTTON \<noteq> 0 \<and>
     connected (global_players g ! 0) \<noteq> 0 \<and> connected (global_players g ! 1) \<noteq> 0 \<and> global_gamestarting g = 0"

lemma between_players:
  assumes "between_frames g" "length ps = 2"
  shows "between_frames (g\<lparr>global_players := ps\<rparr>)"
  using assms by (simp add: between_frames_def lib_ok_def ready_def fixed_header_def ttt_inv_def board_inv_def netlib_getclient_def)

lemma lobby_update_returns:
  assumes "between_frames g" "length (waiting g) \<le> n" "global_curstage g = STAGE_LOBBY"
  shows "if lobby_fault pad g then stage_lobby_update n t stk pad g = Some (Inl OutOfBounds)
    else goes_on g (stage_lobby_update n t stk pad g)"
proof -
  have l: "length (global_players g) = 2" "netlib_getclient g \<le> 2" using assms(1) by (simp_all add: between_frames_def ttt_inv_def)
  let ?go = "connected (global_players g ! 0) \<noteq> 0 \<and> connected (global_players g ! 1) \<noteq> 0 \<and> global_gamestarting g = 0"
  have zero: "set_player 0 f h = Inr (h\<lparr>global_players := (global_players h)[0 := f (global_players h ! 0)]\<rparr>)"
    "set_player 1 f h = Inr (h\<lparr>global_players := (global_players h)[1 := f (global_players h ! 1)]\<rparr>)"
    if "length (global_players h) = 2" for f h
    using set_player_inside [OF that, of 0] set_player_inside [OF that, of 1] by simp_all
  have idx: "aget (global_players g) 0 = Inr (global_players g ! 0)" "aget (global_players g) 1 = Inr (global_players g ! 1)"
    using l by simp_all
  show ?thesis
  proof (cases ?go)
    case False
    let ?ps = "(global_players g)[0 := (global_players g ! 0)\<lparr>ready_state := 0\<rparr>]"
    let ?g' = "g\<lparr>global_isready := 0, global_players := ?ps[1 := (?ps ! 1)\<lparr>ready_state := 0\<rparr>]\<rparr>"
    have "stage_lobby_update n t stk pad g = Some (Inr ?g')"
      using False l by (auto simp: stage_lobby_update_def idx zero)
    moreover have "between_frames ?g'" using assms(1) l by (intro between_players) simp_all
    ultimately show ?thesis using False by (auto simp: lobby_fault_def)
  next
    case go: True
    show ?thesis
    proof (cases "trigger pad AND A_BUTTON = 0")
      case True
      then have "stage_lobby_update n t stk pad g = Some (Inr (g\<lparr>lobby_contdata := pad\<rparr>))"
        using go by (simp add: stage_lobby_update_def idx Let_def)
      then show ?thesis using True assms(1) by (auto simp: lobby_fault_def)
    next
      case a: False
      let ?v = "if global_isready g \<noteq> 0 then 0 else 1"
      let ?h = "g\<lparr>lobby_contdata := pad, global_isready := ?v\<rparr>"
      have u: "stage_lobby_update n t stk pad g =
          rob (Some (set_player (uint (netlib_getclient g) - 1) (\<lambda>p. p\<lparr>ready_state := ?v\<rparr>) ?h)) (\<lambda>g.
          rob (to_server n t stk PACKETID_PLAYERREADY [W8 (global_isready g)] g) (\<lambda>g. Some (Inr (refresh_lobbytext g))))"
        using go a by (simp add: stage_lobby_update_def idx netlib_getclient_def Let_def)
      show ?thesis
      proof (cases "netlib_getclient g = 0")
        case True
        then have "stage_lobby_update n t stk pad g = Some (Inl OutOfBounds)"
          by (simp add: u set_player_def aget_def)
        then show ?thesis using True go a assms(3) by (simp add: lobby_fault_def)
      next
        case False
        then have "1 \<le> netlib_getclient g" by (simp add: forced_pos)
        note i = player_index [OF this l(2)]
        have lh: "length (global_players ?h) = 2" using l(1) by simp
        let ?k = "?h\<lparr>global_players := (global_players ?h)[nat (uint (netlib_getclient g) - 1) :=
          (global_players ?h ! nat (uint (netlib_getclient g) - 1))\<lparr>ready_state := ?v\<rparr>]\<rparr>"
        have k: "between_frames ?k" "waiting ?k = waiting g" using assms(1) l(1) by (auto intro!: between_players)
        obtain g' where "to_server n t stk PACKETID_PLAYERREADY [W8 (global_isready ?k)] ?k = Some (Inr g')" "between_frames g'"
          "length (waiting g') \<le> length (waiting g)"
          using to_server_returns [OF k(1), of n "[W8 (global_isready ?k)]" t stk PACKETID_PLAYERREADY] assms(2) k(2) by auto
        then have "goes_on g (stage_lobby_update n t stk pad g)"
          using set_player_inside [OF lh i] by (auto simp: u)
        then show ?thesis using False by (simp add: lobby_fault_def)
      qed
    qed
  qed
qed

lemma frame_outcome:
  assumes "between_frames g" "length (waiting g) \<le> n"
  shows "\<exists>g1. netlib_poll n (ttt_game n t stk) t g = Some (Inr g1) \<and> between_frames g1 \<and>
    (if global_curstage g1 = STAGE_GAME \<and> game_hangs env n t stk pad g1 then callback_vsync env n t stk pad g = None
     else if lobby_fault pad g1 then callback_vsync env n t stk pad g = Some (Inl OutOfBounds)
     else goes_on g (callback_vsync env n t stk pad g))"
proof -
  have b: "lib_ok g" "ttt_inv g" "list_all (message_ok ttt_good) (waiting g)" "usb_dataleft (n64_usb g) = 0"
    using assms(1) by (simp_all add: between_frames_def)
  obtain g1 where g1: "netlib_poll n (ttt_game n t stk) t g = Some (Inr g1)" "lib_ok g1" "ttt_inv g1" "consumed g g1"
    "usb_dataleft (n64_usb g1) = 0" using ttt.poll_keeps [OF b assms(2,2)] by blast
  note k = between_consumed [OF g1(2-5) assms(1)]
  have n1: "length (waiting g1) \<le> n" using k(2) assms(2) by simp
  have v: "callback_vsync env n t stk pad g = stage_update env n t stk pad (global_curstage g1) g1"
    using g1(1) by (simp add: callback_vsync_def)
  have sub: "goes_on g r" if "goes_on g1 r" for r using that k(2) by (auto simp: goes_on_def)
  have "if global_curstage g1 = STAGE_GAME \<and> game_hangs env n t stk pad g1 then callback_vsync env n t stk pad g = None
     else if lobby_fault pad g1 then callback_vsync env n t stk pad g = Some (Inl OutOfBounds)
     else goes_on g (callback_vsync env n t stk pad g)"
  proof (cases "global_curstage g1")
    case STAGE_NONE
    then show ?thesis using g1(3) by (simp add: ttt_inv_def)
  next
    case STAGE_INIT
    then have "goes_on g1 (stage_update env n t stk pad (global_curstage g1) g1)" "\<not> lobby_fault pad g1"
      using k(1) by (auto simp: stage_update_def stage_init_update_def lobby_fault_def)
    then show ?thesis using STAGE_INIT sub v by simp
  next
    case STAGE_LOBBY
    then show ?thesis using lobby_update_returns [OF k(1) n1 STAGE_LOBBY, of pad t stk] v sub
      by (cases "lobby_fault pad g1") (simp_all add: stage_update_def)
  next
    case STAGE_GAME
    then have "\<not> lobby_fault pad g1" by (simp add: lobby_fault_def)
    then show ?thesis using game_update_outcome [OF k(1) n1, of env t stk pad] v sub STAGE_GAME
      by (cases "game_hangs env n t stk pad g1") (simp_all add: stage_update_def)
  next
    case STAGE_DISCONNECTED
    then have "goes_on g1 (stage_update env n t stk pad (global_curstage g1) g1)" "\<not> lobby_fault pad g1"
      using k(1) by (auto simp: stage_update_def stage_disconnected_update_def lobby_fault_def)
    then show ?thesis using STAGE_DISCONNECTED sub v by simp
  qed
  then show ?thesis using g1(1) k(1) by blast
qed

text \<open>C25: 
  Every frame comes to an end and leaves the cursor, the boards and the library in shape, as long
  as the server's packets are well-formed, with exactly two exceptions, each told from the state
  that the frame's poll leaves: in the game, on the client's turn, when the cursor is to move and
  every board on its way is completed, the frame does not return; in the lobby of a client that
  has lost its connection, the ready button writes outside the array of players.
\<close>

theorem frame_returns:
  assumes "between_frames g" "length (waiting g) \<le> n"
  shows "\<exists>g1. netlib_poll n (ttt_game n t stk) t g = Some (Inr g1) \<and> between_frames g1 \<and>
    (if global_curstage g1 = STAGE_GAME \<and> game_hangs env n t stk pad g1 then callback_vsync env n t stk pad g = None
     else if lobby_fault pad g1 then callback_vsync env n t stk pad g = Some (Inl OutOfBounds)
     else goes_on g (callback_vsync env n t stk pad g))"
  by (rule frame_outcome [OF assms])

section \<open>Runs\<close>

inductive ttt_step :: "ttt \<Rightarrow> ttt \<Rightarrow> bool" where
  frame: "list_all (message_ok ttt_good) ms \<Longrightarrow> length (waiting (messages_arrive ms g)) \<le> n \<Longrightarrow>
    callback_vsync env n t stk pad (messages_arrive ms g) = Some (Inr g') \<Longrightarrow> ttt_step g g'"
| change: "global_nextstage g \<noteq> STAGE_NONE \<Longrightarrow> list_all (message_ok ttt_good) ms \<Longrightarrow> length (waiting (messages_arrive ms g)) \<le> n \<Longrightarrow>
    change_stage n t stk (messages_arrive ms g) = Some (Inr g') \<Longrightarrow> ttt_step g g'"

text \<open>The state the program starts in: static variables are zero.\<close>

definition ttt_static :: "usb \<Rightarrow> ttt" where
  "ttt_static u = \<lparr>global_timeouttime = 0, global_writecursize = 0, global_writebuffer = replicate 4096 0,
     global_clnumber = 0, global_lastpkt = 0, global_sendafterpoll = False, global_disconnected = False,
     global_funcptr_disconnect = None, global_funcptr_reconnect = None, global_funcptrs = replicate 64 None, n64_usb = u,
     global_curstage = STAGE_INIT, global_nextstage = STAGE_NONE,
     global_players = replicate 2 \<lparr>connected = 0, ready_state = 0\<rparr>, init_disconnected = False,
     lobby_contdata = \<lparr>button = 0, trigger = 0\<rparr>, global_isready = 0, global_gamestarting = 0,
     game_contdata = \<lparr>button = 0, trigger = 0\<rparr>, global_playerturn = 0, global_gamestate = 0,
     global_gridstate_large = replicate 3 (replicate 3 0), global_gridstate_small = replicate 9 (replicate 3 (replicate 3 0)),
     global_forcedboard = 0, global_selectionx = 0, global_selectiony = 0, global_opponentx = 0, global_opponenty = 0,
     couldplaybefore = False, movingframes = 0, text_calls = []\<rparr>"

inductive ttt_reachable :: "ttt \<Rightarrow> bool" where
  start: "usb_cart u \<noteq> CART_NONE \<Longrightarrow> usb_dataleft u = 0 \<Longrightarrow> list_all (message_ok ttt_good) (usb_waiting u) \<Longrightarrow>
    length (usb_waiting u) \<le> n \<Longrightarrow> mainproc_start id to_cycles u n t stk (ttt_static u) = Some (Inr g) \<Longrightarrow> ttt_reachable g"
| step: "ttt_reachable g \<Longrightarrow> ttt_step g g' \<Longrightarrow> ttt_reachable g'"

definition registered :: "nat option list" where
  "registered = map Some [0..<11] @ replicate 53 None"

lemma initall_registers:
  assumes "global_funcptrs g = replicate 64 None"
  shows "netcallback_initall g = Inr (g\<lparr>global_funcptrs := registered\<rparr>)"
proof -
  have r: "replicate 64 None = None # None # None # None # None # None # None # None # None # None # None # replicate 53 (None :: nat option)"
    by (simp add: numeral_eq_Suc)
  have "registered = (replicate 64 None)[0 := Some 0, 1 := Some 1, 2 := Some 2, 3 := Some 3, 4 := Some 4, 5 := Some 5,
      6 := Some 6, 7 := Some 7, 8 := Some 8, 9 := Some 9, 10 := Some 10]"
    unfolding r registered_def by (simp add: list_update_numeral upt_rec numeral_eq_Suc)
  then show ?thesis using assms
    by (simp add: netcallback_initall_def netlib_register_def packet_ids MAX_UNIQUEPACKETS_def)
qed

lemma registered_nth: "registered ! i = Some f \<Longrightarrow> i < 64 \<Longrightarrow> f = i \<and> f \<le> 10"
  by (auto simp: registered_def nth_append split: if_splits)

lemma init_init_returns:
  assumes "between_frames g" "length (waiting g) \<le> n"
  shows "goes_on g (stage_init_init n t stk g)"
proof -
  have l: "length (global_players g) = 2" using assms(1) by (simp add: between_frames_def ttt_inv_def)
  let ?f = "\<lambda>p. p\<lparr>connected := 0, ready_state := 0\<rparr>"
  obtain ps where ps: "rbind (set_player 0 ?f g) (set_player 1 ?f) = Inr (g\<lparr>global_players := ps\<rparr>)" "length ps = 2"
  proof -
    let ?g1 = "g\<lparr>global_players := (global_players g)[0 := ?f (global_players g ! 0)]\<rparr>"
    have l1: "length (global_players ?g1) = 2" using l by simp
    have "set_player 0 ?f g = Inr ?g1" using set_player_inside [OF l, of 0 ?f] by simp
    then have "rbind (set_player 0 ?f g) (set_player 1 ?f) =
        Inr (?g1\<lparr>global_players := (global_players ?g1)[nat 1 := ?f (global_players ?g1 ! nat 1)]\<rparr>)"
      using set_player_inside [OF l1, of 1 ?f] by simp
    then have "rbind (set_player 0 ?f g) (set_player 1 ?f) =
        Inr (g\<lparr>global_players := (global_players ?g1)[nat 1 := ?f (global_players ?g1 ! nat 1)]\<rparr>)" by simp
    then show thesis by (rule that) (simp add: l)
  qed
  let ?cs = "[text_setfont font_default, text_setalign ALIGN_CENTER, text_setcolor 255 255 255 255,
       text_create ''Connecting to Server...'' 160 56, text_setfont font_small,
       text_create ''Ensure the USB is connected'' 160 136, text_create ''and the client is running'' 160 152]"
  let ?h = "put_text ?cs (g\<lparr>global_players := ps\<rparr>)"
  have h: "between_frames ?h" "waiting ?h = waiting g" using between_players [OF assms(1) ps(2)] by simp_all
  obtain g' where "to_server n t stk PACKETID_CLIENTCONNECT [] ?h = Some (Inr g')" "between_frames g'" "length (waiting g') \<le> length (waiting g)"
    using to_server_returns [OF h(1), of n "[]" t stk PACKETID_CLIENTCONNECT] h(2) assms(2) by auto
  then show ?thesis by (auto simp: stage_init_init_def ps(1))
qed

lemma start_returns:
  assumes "usb_cart u \<noteq> CART_NONE" "usb_dataleft u = 0" "list_all (message_ok ttt_good) (usb_waiting u)" "length (usb_waiting u) \<le> n"
  shows "\<exists>g. mainproc_start id to_cycles u n t stk (ttt_static u) = Some (Inr g) \<and> between_frames g \<and>
    length (waiting g) \<le> length (usb_waiting u)"
proof -
  let ?i = "netlib_callback_reconnect (Some 12) (netlib_callback_disconnect to_cycles (1000 * 5) (Some 11) (netlib_initialize id u (ttt_static u)))"
  let ?g = "?i\<lparr>global_funcptrs := registered\<rparr>"
  have "(replicate 64 None)[0 := None] = replicate 64 (None :: nat option)" by (simp add: numeral_eq_Suc)
  then have f: "global_funcptrs ?i = replicate 64 None"
    by (simp add: netlib_callback_reconnect_def netlib_callback_disconnect_def netlib_initialize_def ttt_static_def Let_def)
  have rd: "ready (netlib_initialize id u (ttt_static u))" by (rule initialize_ready) (simp_all add: ttt_static_def)
  have "length registered = 64" by (simp add: registered_def)
  then have "ready ?g" using rd
    by (simp add: ready_def fixed_header_def netlib_callback_reconnect_def netlib_callback_disconnect_def)
  then have "lib_ok ?g" using assms(1)
    by (simp add: lib_ok_def netlib_callback_reconnect_def netlib_callback_disconnect_def netlib_initialize_def Let_def)
  moreover have "ttt_inv ?g" using registered_nth
    by (simp add: ttt_inv_def netlib_callback_reconnect_def netlib_callback_disconnect_def netlib_initialize_def ttt_static_def
        board_inv_def netlib_getclient_def MAX_UNIQUEPACKETS_def list_all_iff Let_def)
  moreover have u: "n64_usb ?g = u" "global_curstage ?g = STAGE_INIT"
    by (simp_all add: netlib_callback_reconnect_def netlib_callback_disconnect_def netlib_initialize_def ttt_static_def Let_def)
  ultimately have "between_frames ?g" using assms(2,3) by (simp add: between_frames_def)
  from init_init_returns [OF this, of n t stk] u assms(4) initall_registers [OF f] show ?thesis
    by (simp add: mainproc_start_def stage_init_def goes_on_def)
qed

lemma messages_arrive_between:
  assumes "between_frames g" "list_all (message_ok ttt_good) ms"
  shows "between_frames (messages_arrive ms g)"
proof -
  have "lib_ok g" using assms(1) by (simp add: between_frames_def)
  then have "lib_ok (messages_arrive ms g)" by (rule lib_ok_cong [rotated 5]) (simp_all add: messages_arrive_def)
  moreover have "same_game g (messages_arrive ms g)" by (rule same_gameI) (simp_all add: messages_arrive_def)
  then have "ttt_inv (messages_arrive ms g)" using assms(1) by (auto simp: between_frames_def intro: ttt_inv_same)
  ultimately show ?thesis using assms by (simp add: between_frames_def messages_arrive_def)
qed

lemma game_init_between:
  assumes "between_frames h"
  shows "between_frames (stage_game_init h)"
  unfolding stage_game_init_def between_screen using assms
  by (simp add: between_frames_def lib_ok_def ready_def fixed_header_def ttt_inv_def board_inv_def netlib_getclient_def list_all_iff)

lemma change_returns:
  assumes "between_frames g" "length (waiting g) \<le> n" "global_nextstage g \<noteq> STAGE_NONE"
  shows "goes_on g (change_stage n t stk g)"
proof -
  let ?h = "(put_text [text_cleanup] g)\<lparr>global_curstage := global_nextstage (put_text [text_cleanup] g), global_nextstage := STAGE_NONE\<rparr>"
  have s: "global_curstage ?h = global_nextstage g" "waiting ?h = waiting g" by (simp_all add: put_text_def)
  have h: "between_frames ?h" using assms(1,3)
    by (simp add: between_frames_def lib_ok_def ready_def fixed_header_def ttt_inv_def board_inv_def netlib_getclient_def put_text_def)
  note game = game_init_between [OF h]
  have c: "change_stage n t stk g = stage_init n t stk (global_nextstage g) ?h"
    by (simp add: change_stage_def put_text_def Let_def)
  show ?thesis
  proof (cases "global_nextstage g")
    case STAGE_INIT
    then show ?thesis using init_init_returns [OF h, of n t stk] assms(2) s(2) c by (simp add: stage_init_def goes_on_def)
  next
    case STAGE_LOBBY
    have "between_frames (?h\<lparr>global_isready := 0, global_gamestarting := 0\<rparr>)" using h
      by (simp add: between_frames_def lib_ok_def ready_def fixed_header_def ttt_inv_def board_inv_def netlib_getclient_def)
    then show ?thesis using c s(2) by (simp add: stage_init_def STAGE_LOBBY stage_lobby_init_def goes_on_def)
  next
    case STAGE_GAME
    then show ?thesis using c s(2) game by (simp add: stage_init_def goes_on_def stage_game_init_def)
  next
    case STAGE_DISCONNECTED
    then show ?thesis using c s(2) h by (simp add: stage_init_def goes_on_def stage_disconnected_init_def)
  qed (use assms(3) in simp)
qed

text \<open>C4: 
  In every state the program reaches between two frames, the library is in order, the packets
  waiting are well-formed, the two players and the boards have their shape, the cursor is on the
  grid, and the callbacks are the registered ones.
\<close>

theorem reachable_states:
  assumes "ttt_reachable g"
  shows "between_frames g"
  using assms
proof (induction rule: ttt_reachable.induct)
  case (start u n to_cycles t stk g)
  then show ?case using start_returns [OF start(1-4), of to_cycles t stk] by auto
next
  case (step g g')
  from step.hyps(2) show ?case
  proof (cases rule: ttt_step.cases)
    case (frame ms n env t stk pad)
    note b = messages_arrive_between [OF step.IH frame(1)]
    show ?thesis using frame_outcome [OF b frame(2), of t stk env pad] frame(3)
      by (auto simp: goes_on_def split: if_splits)
  next
    case (change ms n t stk)
    have "global_nextstage (messages_arrive ms g) \<noteq> STAGE_NONE" using change(1) by (simp add: messages_arrive_def)
    from change_returns [OF messages_arrive_between [OF step.IH change(2)] change(3) this, of t stk] change(4) show ?thesis
      by (simp add: goes_on_def)
  qed
qed

section \<open>The ready button\<close>

text \<open>
  A change of any player resets \<open>global_isready\<close> but not the player's own ready state: a player who
  was ready and presses the button to withdraw sends once more that he is ready.
\<close>

theorem ready_not_withdrawn:
  assumes "lib_ok g" "ttt_inv g" "calm t g" "waiting g = []" "usb_dataleft (n64_usb g) = 0"
    and "\<forall>d. usb_accepts (n64_usb g) DATATYPE_NETPACKET d"
    and "netlib_getclient g \<noteq> 0" "connected (global_players g ! 0) \<noteq> 0" "connected (global_players g ! 1) \<noteq> 0"
    and "global_gamestarting g = 0" "trigger pad AND A_BUTTON \<noteq> 0"
  shows "\<exists>g'. stage_lobby_update n t stk pad (stage_lobby_playerchange g) = Some (Inr g') \<and>
    usb_written (n64_usb g') = usb_written (n64_usb g) @
      [(DATATYPE_NETPACKET, NetLib_wire (console_pkt PACKETID_PLAYERREADY 0 [1]))]"
proof -
  let ?c = "stage_lobby_playerchange g"
  have c: "global_players ?c = global_players g" "netlib_getclient ?c = netlib_getclient g" "global_isready ?c = 0"
    "global_gamestarting ?c = 0" "n64_usb ?c = n64_usb g"
    using assms(10) by (simp_all add: stage_lobby_playerchange_def screen_defs netlib_getclient_def)
  have l: "length (global_players g) = 2" "1 \<le> netlib_getclient g" "netlib_getclient g \<le> 2"
    using assms(2,7) by (simp_all add: ttt_inv_def forced_pos)
  note i = player_index [OF l(2,3)]
  define ps where "ps = (global_players g)[nat (uint (netlib_getclient g) - 1) :=
    (global_players g ! nat (uint (netlib_getclient g) - 1))\<lparr>ready_state := 1\<rparr>]"
  let ?h = "?c\<lparr>lobby_contdata := pad, global_isready := 1\<rparr>"
  have lh: "length (global_players ?h) = 2" using l(1) c(1) by simp
  have sp: "set_player (uint (netlib_getclient ?h) - 1) (\<lambda>p. p\<lparr>ready_state := 1\<rparr>) ?h = Inr (?h\<lparr>global_players := ps\<rparr>)"
    using set_player_inside [OF lh, of "uint (netlib_getclient g) - 1"] i c(1,2) by (simp add: ps_def netlib_getclient_def)
  let ?k = "?h\<lparr>global_players := ps\<rparr>"
  have f: "global_writebuffer ?k = global_writebuffer g" "global_funcptrs ?k = global_funcptrs g" "n64_usb ?k = n64_usb g"
    "global_writecursize ?k = global_writecursize g" "global_sendafterpoll ?k = global_sendafterpoll g"
    "global_disconnected ?k = global_disconnected g" "global_lastpkt ?k = global_lastpkt g" "global_timeouttime ?k = global_timeouttime g"
    by (simp_all add: stage_lobby_playerchange_def screen_defs)
  have ok: "lib_ok ?k" by (rule lib_ok_cong [OF _ _ _ _ _ assms(1)]) (simp_all only: f simp_thms)
  have calm: "calm t ?k" using assms(3) unfolding calm_def f .
  obtain g' where g': "to_server n t stk PACKETID_PLAYERREADY [W8 1] ?k = Some (Inr g')"
    "usb_written (n64_usb g') = usb_written (n64_usb ?k) @ [(DATATYPE_NETPACKET, NetLib_wire (console_pkt PACKETID_PLAYERREADY 0 [1]))]"
    using to_server_sends [OF ok calm, of "[W8 1]" n stk PACKETID_PLAYERREADY] assms(4-6) f(3) by auto
  have "stage_lobby_update n t stk pad ?c = Some (Inr (refresh_lobbytext g'))"
    using assms(8-11) c l(1) sp g'(1) by (simp add: stage_lobby_update_def Let_def)
  then show ?thesis using g'(2) f(3) by (simp add: screen_defs)
qed

section \<open>Witnesses\<close>

text \<open>A state in which player 1 is to move, and one whose top row of boards is completed.\<close>

definition sample_ttt :: ttt where
  "sample_ttt = (netlib_initialize id sample_usb (ttt_static sample_usb))\<lparr>global_funcptrs := registered, global_clnumber := 1,
     global_gamestate := GAMESTATE_PLAYING, global_playerturn := 1, global_selectionx := 4, global_selectiony := 4,
     global_players := [\<lparr>connected = 1, ready_state = 1\<rparr>, \<lparr>connected = 1, ready_state = 0\<rparr>]\<rparr>"

definition full_row :: ttt where
  "full_row = sample_ttt\<lparr>global_selectiony := 1, global_gridstate_large := [[1, 0, 0], [2, 0, 0], [1, 0, 0]]\<rparr>"

lemma sample_ttt_fields [simp]:
  "global_selectionx sample_ttt = 4" "global_selectiony sample_ttt = 4" "global_forcedboard sample_ttt = 0"
  "global_gridstate_large sample_ttt = replicate 3 (replicate 3 0)"
  "global_gridstate_small sample_ttt = replicate 9 (replicate 3 (replicate 3 0))"
  "global_funcptrs sample_ttt = registered" "n64_usb sample_ttt = sample_usb" "global_clnumber sample_ttt = 1"
  "global_players sample_ttt = [\<lparr>connected = 1, ready_state = 1\<rparr>, \<lparr>connected = 1, ready_state = 0\<rparr>]"
  "global_gamestarting sample_ttt = 0" "global_curstage sample_ttt = STAGE_INIT"
  "global_funcptr_disconnect sample_ttt = None" "global_funcptr_reconnect sample_ttt = None"
  by (simp_all add: sample_ttt_def netlib_initialize_def ttt_static_def Let_def)

lemma sample_ttt_ok: "lib_ok sample_ttt" "ttt_inv sample_ttt" "board_inv sample_ttt" "calm 0 sample_ttt"
proof -
  have "ready (netlib_initialize id sample_usb (ttt_static sample_usb))" by (rule initialize_ready) (simp_all add: ttt_static_def)
  moreover have "length registered = 64" by (simp add: registered_def)
  ultimately have "ready sample_ttt" by (simp add: sample_ttt_def ready_def fixed_header_def)
  moreover have "\<not> global_sendafterpoll sample_ttt" by (simp add: sample_ttt_def netlib_initialize_def Let_def)
  ultimately show "lib_ok sample_ttt" by (simp add: lib_ok_def sample_usb_def CART_NONE_def)
  show b: "board_inv sample_ttt" by (simp add: board_inv_def list_all_iff)
  then show "ttt_inv sample_ttt" using registered_nth by (simp add: ttt_inv_def netlib_getclient_def MAX_UNIQUEPACKETS_def)
  show "calm 0 sample_ttt"
    by (simp add: calm_def sample_ttt_def netlib_initialize_def usb_timedout_def sample_usb_def Let_def)
qed

lemma sample_usb_fields [simp]:
  "usb_waiting sample_usb = []" "usb_dataleft sample_usb = 0" "usb_written sample_usb = []" "usb_accepts sample_usb b d"
  "usb_cart sample_usb \<noteq> CART_NONE"
  by (simp_all add: sample_usb_def usb_accepts_def CART_NONE_def)

theorem movement_hangs_iff_blocked_witness:
  "\<forall>env. controller_movement env 0 0 0 \<lparr>button = R_JPAD, trigger = 0\<rparr> (full_row\<lparr>movingframes := 4\<rparr>) = None"
proof
  fix env
  let ?pad = "\<lparr>button = R_JPAD, trigger = 0\<rparr>" and ?g = "full_row\<lparr>movingframes := 4\<rparr>"
  have "board_inv ?g" using sample_ttt_ok(3) by (simp add: full_row_def board_inv_def)
  then have b: "between_frames ?g" using sample_ttt_ok(1,2)
    by (simp add: between_frames_def full_row_def lib_ok_def ready_def fixed_header_def ttt_inv_def netlib_getclient_def)
  have d: "pad_direction R_JPAD = (1, 0)" by (simp add: pad_direction_def Let_def)
  have "[1..<10] = [1, 2, 3, 4, 5, 6, 7, 8, 9 :: nat]" by code_simp
  then have k: "{1..<10} = {1, 2, 3, 4, 5, 6, 7, 8, 9 :: nat}" by (metis list.set(1,2) set_upt)
  have "\<forall>k\<in>{1..<10}. closed_after (1, 0) ?g k"
    unfolding k by (simp add: closed_after_def cursor_cell_def full_row_def large_at_def)
  then have "blocked ?pad ?g" by (simp add: blocked_def inputbuffer_def d full_row_def)
  moreover have "length (waiting ?g) \<le> 0" by (simp add: full_row_def)
  ultimately show "controller_movement env 0 0 0 ?pad ?g = None" using movement_hangs_iff_blocked [OF b] by blast
qed

theorem movement_stays_playable_witness:
  "\<exists>g'. move_loop (1, 0) sample_ttt = Some (Inr g') \<and> board_inv g' \<and>
    choice g' (uint (global_selectionx g') div 3) (uint (global_selectiony g') div 3)"
proof -
  have d: "(1, 0) \<in> directions" by (simp add: directions_def)
  have "\<not> closed_after (1, 0) sample_ttt 1" by (simp add: closed_after_def cursor_cell_def large_at_def)
  moreover have "[1..<10] = 1 # [2..<10 :: nat]" by code_simp
  ultimately have m: "move_loop (1, 0) sample_ttt = Some (Inr (cursor_moved (1, 0) 1 sample_ttt))"
    using free_move_returns_iff [OF sample_ttt_ok(3) d] by simp
  have "choice sample_ttt 0 0" by (simp add: choice_def large_at_def)
  then have "\<exists>(bx, by)\<in>set fields. choice sample_ttt bx by" by (auto simp: fields_def)
  from movement_stays_playable [OF sample_ttt_ok(3) d _ m this] m show ?thesis by simp
qed

lemma sample_free: "first_free sample_ttt b = Some (0, 0)" if "0 \<le> b" "b < 9"
proof -
  have "nat b < 9" using that by simp
  then show ?thesis by (simp add: first_free_def fields_def small_at_def)
qed

theorem place_cursor_playable_witness:
  "\<exists>x y. place_cursor sample_ttt = Inr (cursor_at x y sample_ttt) \<and> choice sample_ttt (x div 3) (y div 3)"
proof -
  have c: "choice sample_ttt bx by" if "(bx, by) \<in> set fields" for bx "by"
  proof -
    have "nat bx < 3" "nat by < 3" using that by (auto simp: fields_iff)
    then show ?thesis by (simp add: choice_def large_at_def)
  qed
  have 1: "\<exists>(bx, by)\<in>set fields. choice sample_ttt bx by" using c [of 0 0] by (auto simp: fields_def)
  have 2: "\<forall>(bx, by)\<in>set fields. choice sample_ttt bx by \<longrightarrow> has_field sample_ttt (bx + 3 * by)"
    using sample_free by (auto simp: has_field_def fields_iff)
  show ?thesis using place_cursor_playable [OF sample_ttt_ok(3) 1 2] by blast
qed

lemma sample_field: "cursor_field sample_ttt = 0" "cursor_move sample_ttt = [1, 1, 1, 1]"
  by (simp_all add: cursor_field_def small_at_def cursor_move_def)

theorem cursor_sent_to_taken_field_witness:
  "\<exists>g'. cursor_toboard 5 (sample_ttt\<lparr>global_selectionx := 0, global_gridstate_small :=
      (replicate 9 (replicate 3 (replicate 3 0)))[4 := [[0, 0, 0], [0, 1, 0], [0, 0, 0]]]\<rparr>) = Inr g' \<and> cursor_field g' \<noteq> 0"
proof -
  let ?g = "sample_ttt\<lparr>global_selectionx := 0, global_gridstate_small :=
      (replicate 9 (replicate 3 (replicate 3 0)))[4 := [[0, 0, 0], [0, 1, 0], [0, 0, 0]]]\<rparr>"
  have "board_inv ?g" using sample_ttt_ok(3)
    by (auto simp: board_inv_def list_all_iff dest!: set_update_subset_insert [THEN subsetD])
  then show ?thesis using cursor_sent_to_taken_field [of ?g 5] by (simp add: small_at_def)
qed

theorem own_move_sent_witness:
  "\<exists>g'. make_own_move 0 0 0 sample_ttt = Some (Inr g') \<and> cursor_field g' = 1 \<and>
    usb_written (n64_usb g') = [(DATATYPE_NETPACKET, NetLib_wire (console_pkt PACKETID_PLAYERMOVE 0 [1, 1, 1, 1]))]"
  using own_move_sent [OF sample_ttt_ok(1,3,4), of 0 0] by (fastforce simp: sample_field netlib_getclient_def)

definition sample_heartbeat :: AbstractPacket where
  "sample_heartbeat = console_pkt PACKETID_ACKBEAT 0 []"

theorem heartbeat_swallows_move_witness:
  "\<exists>g'. make_own_move 1 0 0 (sample_ttt\<lparr>n64_usb := sample_usb\<lparr>usb_waiting := [(DATATYPE_NETPACKET, NetLib_wire sample_heartbeat)]\<rparr>\<rparr>) = Some (Inr g') \<and>
    cursor_field g' = 1 \<and> global_playerturn g' = 0 \<and>
    usb_written (n64_usb g') = [(DATATYPE_NETPACKET, NetLib_wire (console_pkt PACKETID_ACKBEAT 0 []))]"
proof -
  let ?g = "sample_ttt\<lparr>n64_usb := sample_usb\<lparr>usb_waiting := [(DATATYPE_NETPACKET, NetLib_wire sample_heartbeat)]\<rparr>\<rparr>"
  have "lib_ok ?g" by (rule lib_ok_cong [OF _ _ _ _ _ sample_ttt_ok(1)]) simp_all
  moreover have "board_inv ?g" using sample_ttt_ok(3) by (simp add: board_inv_def)
  moreover have "calm 0 ?g" using sample_ttt_ok(4) by (simp add: calm_def usb_timedout_def sample_usb_def)
  moreover have "cursor_field ?g = 0" using sample_field by (simp add: cursor_field_def small_at_def)
  moreover have "global_funcptrs ?g ! 0 = Some 0" by (simp add: registered_def nth_append)
  moreover have "NetLib_wf sample_heartbeat" "NetLibPacket_GetType sample_heartbeat = PACKETID_ACKBEAT" "m_Data sample_heartbeat = []"
    by (simp_all add: sample_heartbeat_def console_pkt_def NetLib_wf_def pkt_inv_def NETLIBPACKET_VERSION_def NetLibPacket_GetType_def)
  ultimately show ?thesis using heartbeat_swallows_move [of ?g 0 sample_heartbeat 0 0] by (simp add: netlib_getclient_def)
qed

theorem ready_not_withdrawn_witness:
  "\<exists>g'. stage_lobby_update 0 0 0 \<lparr>button = A_BUTTON, trigger = A_BUTTON\<rparr> (stage_lobby_playerchange sample_ttt) = Some (Inr g') \<and>
    usb_written (n64_usb g') = [(DATATYPE_NETPACKET, NetLib_wire (console_pkt PACKETID_PLAYERREADY 0 [1]))]"
  using ready_not_withdrawn [OF sample_ttt_ok(1,2,4), of "\<lparr>button = A_BUTTON, trigger = A_BUTTON\<rparr>" 0 0]
  by (simp add: netlib_getclient_def)

text \<open>A frame in which the row of the cursor is full, and the same state with the pad at rest.\<close>

definition full_row_frame :: ttt where
  "full_row_frame = full_row\<lparr>movingframes := 4, couldplaybefore := True, global_curstage := STAGE_GAME\<rparr>"

lemma full_row_between: "between_frames full_row_frame" "waiting full_row_frame = []"
proof -
  have "board_inv full_row_frame" using sample_ttt_ok(3) by (simp add: full_row_frame_def full_row_def board_inv_def)
  then show "between_frames full_row_frame" using sample_ttt_ok(1,2)
    by (simp add: between_frames_def full_row_frame_def full_row_def lib_ok_def ready_def fixed_header_def ttt_inv_def netlib_getclient_def)
qed (simp add: full_row_frame_def full_row_def)

lemma full_row_poll:
  "\<exists>u. netlib_poll 0 (ttt_game 0 0 0) 0 full_row_frame = Some (Inr (full_row_frame\<lparr>n64_usb := u\<rparr>))"
proof -
  have f: "calm 0 full_row_frame" "\<not> global_sendafterpoll full_row_frame" "n64_usb full_row_frame = sample_usb"
    using sample_ttt_ok(4) by (simp_all add: calm_def full_row_frame_def full_row_def sample_ttt_def netlib_initialize_def
      ttt_static_def Let_def)
  then show ?thesis
    by (intro exI [of _ "snd (usb_poll sample_usb)"])
      (simp add: netlib_poll_def poll_connection_calm usb_poll_def send_queued_def)
qed

theorem frame_returns_witness:
  "callback_vsync env_x86 0 0 0 \<lparr>button = R_JPAD, trigger = 0\<rparr> full_row_frame = None \<and>
   (\<exists>g'. callback_vsync env_x86 0 0 0 \<lparr>button = 0, trigger = 0\<rparr> full_row_frame = Some (Inr g') \<and> between_frames g' \<and>
      waiting g' = [])"
proof (rule conjI)
  let ?g = full_row_frame
  obtain u where u: "netlib_poll 0 (ttt_game 0 0 0) 0 ?g = Some (Inr (?g\<lparr>n64_usb := u\<rparr>))" using full_row_poll by blast
  have w: "length (waiting ?g) \<le> 0" using full_row_between(2) by simp
  note frame = frame_returns [OF full_row_between(1) w, of 0 0 env_x86]
  show "callback_vsync env_x86 0 0 0 \<lparr>button = R_JPAD, trigger = 0\<rparr> ?g = None"
  proof -
    have d: "pad_direction R_JPAD = (1, 0)" by (simp add: pad_direction_def Let_def)
    have "[1..<10] = [1, 2, 3, 4, 5, 6, 7, 8, 9 :: nat]" by code_simp
    then have k: "{1..<10} = {1, 2, 3, 4, 5, 6, 7, 8, 9 :: nat}" by (metis list.set(1,2) set_upt)
    have "\<forall>k\<in>{1..<10}. closed_after (1, 0) (?g\<lparr>n64_usb := u\<rparr>) k"
      unfolding k by (simp add: closed_after_def cursor_cell_def full_row_frame_def full_row_def large_at_def)
    then have "blocked \<lparr>button = R_JPAD, trigger = 0\<rparr> (?g\<lparr>n64_usb := u\<rparr>)"
      by (simp add: blocked_def inputbuffer_def d full_row_frame_def full_row_def)
    then have "game_hangs env_x86 0 0 0 \<lparr>button = R_JPAD, trigger = 0\<rparr> (?g\<lparr>n64_usb := u\<rparr>)"
      by (simp add: game_hangs_def before_movement_def full_row_frame_def full_row_def sample_ttt_def netlib_getclient_def)
    then show ?thesis using frame [of "\<lparr>button = R_JPAD, trigger = 0\<rparr>"] u
      by (auto simp: full_row_frame_def split: if_splits)
  qed
  have "\<not> game_hangs env_x86 0 0 0 \<lparr>button = 0, trigger = 0\<rparr> h" "\<not> lobby_fault \<lparr>button = 0, trigger = 0\<rparr> h" for h
    by (auto simp: game_hangs_def blocked_def lobby_fault_def split: option.split sum.split)
  then show "\<exists>g'. callback_vsync env_x86 0 0 0 \<lparr>button = 0, trigger = 0\<rparr> ?g = Some (Inr g') \<and> between_frames g' \<and> waiting g' = []"
    using frame [of "\<lparr>button = 0, trigger = 0\<rparr>"] full_row_between(2) by (auto simp: goes_on_def)
qed

theorem reachable_states_witness: "\<exists>g. ttt_reachable g \<and> between_frames g"
proof -
  obtain g where "mainproc_start id (\<lambda>_. 0) sample_usb 0 0 0 (ttt_static sample_usb) = Some (Inr g)"
    using start_returns [of sample_usb 0 "\<lambda>_. 0" 0 0] by auto
  then have "ttt_reachable g" by (intro ttt_reachable.start [of sample_usb 0 "\<lambda>_. 0" 0 0]) simp_all
  then show ?thesis using reachable_states by blast
qed

end
