(* ===== verification/NL_Owned.thy ===== *)
theory NL_Owned
  imports NL_Lists
begin

text \<open>
  Lists of \<^verbatim>\<open>datastructs.c\<close> that own what their nodes point to, as the Realtime game and the text library
  use them: appending, removing and freeing, combining and destroying such lists.
\<close>

section \<open>Removing and freeing\<close>

text \<open>\<open>free(list_remove(list, p)); free(p)\<close>, which the Realtime game has for objects and for inputs.\<close>

definition remove_and_free :: "nat \<Rightarrow> ptr \<Rightarrow> 'a heap_scheme \<Rightarrow> 'a heap_scheme option" where
  "remove_and_free l p h = do {
     (node, h) \<leftarrow> list_remove (Some l) p h; h \<leftarrow> free_node node h; free_data p h }"

section \<open>Lists that own their data\<close>

text \<open>A list whose nodes hold the distinct live blocks \<open>ds\<close>.\<close>

definition holds :: "'a heap_scheme \<Rightarrow> nat \<Rightarrow> nat list \<Rightarrow> nat list \<Rightarrow> bool" where
  "holds h l as ds \<longleftrightarrow> is_list h l as \<and> data_of (hp_nodes h) as = map Some ds \<and> distinct ds \<and> set ds \<subseteq> hp_data h"

lemma holds_frame:
  assumes "holds h l as ds" "hp_lists h' l = hp_lists h l" "\<And>a. a \<in> set as \<Longrightarrow> hp_nodes h' a = hp_nodes h a"
    "set ds \<subseteq> hp_data h'"
  shows "holds h' l as ds"
  using assms is_list_frame [of h l as h'] by (simp add: holds_def)

lemma holds_Nil: "holds h l [] ds \<longleftrightarrow> ds = [] \<and> is_list h l []"
  by (auto simp: holds_def)

lemma remove_and_free_node:
  assumes "holds h l as ds" "d \<in> set ds"
  shows "\<exists>xs a ys h'. as = xs @ a # ys \<and> ln_data (the (hp_nodes h a)) = Some d \<and>
    remove_and_free l (Some d) h = Some h' \<and> holds h' l (xs @ ys) (remove1 d ds) \<and> hp_nodes h' a = None \<and>
    hp_data h' = hp_data h - {d} \<and> (\<forall>b. b \<notin> set as \<longrightarrow> hp_nodes h' b = hp_nodes h b) \<and>
    (\<forall>l'. l' \<noteq> l \<longrightarrow> hp_lists h' l' = hp_lists h l') \<and> other_memory h h'"
proof -
  have l: "is_list h l as" "data_of (hp_nodes h) as = map Some ds" "distinct ds" "set ds \<subseteq> hp_data h"
    using assms(1) by (simp_all add: holds_def)
  have "distinct as" using l(1) by (auto elim: is_listD)
  obtain xs a ys k where k: "as = xs @ a # ys" "list_remove (Some l) (Some d) h = Some (Some a, k)"
    "ln_data (the (hp_nodes h a)) = Some d" "is_list k l (xs @ ys)" "data_of (hp_nodes k) (xs @ ys) = remove1 (Some d) (map Some ds)"
    "\<forall>b. b \<notin> set as \<longrightarrow> hp_nodes k b = hp_nodes h b"
    using list_remove_removes [OF l(1,2), of "Some d"] assms(2) by auto
  note f = list_remove_frame [OF k(2)]
  have "\<exists>n. hp_nodes h a = Some n"
    using l(1) k(1) chain_dom [of "hp_nodes h" _ as a] by (auto elim!: is_listD)
  then obtain n where n: "hp_nodes k a = Some n" using f by (metis option.exhaust)
  let ?h = "k\<lparr>hp_nodes := (hp_nodes k)(a := None), hp_data := hp_data k - {d}\<rparr>"
  have a: "a \<notin> set (xs @ ys)" using \<open>distinct as\<close> k(1) by auto
  have r: "remove_and_free l (Some d) h = Some ?h"
    using k(2) n f assms(2) l(4) by (auto simp: remove_and_free_def free_node_def free_data_def)
  have "holds ?h l (xs @ ys) (remove1 d ds)"
  proof -
    have "remove1 (Some d) (map Some ds) = map Some (remove1 d ds)" by (induction ds) auto
    then have "holds (k\<lparr>hp_data := hp_data k - {d}\<rparr>) l (xs @ ys) (remove1 d ds)"
      using k(4,5) l(3,4) f by (auto simp: holds_def is_list_def)
    then show ?thesis by (rule holds_frame) (use a l(3,4) f in auto)
  qed
  then show ?thesis using r k(1,3,6) f by (intro exI [of _ xs] exI [of _ a] exI [of _ ys] exI [of _ ?h]) auto
qed

lemma chain_head: "chain N p as \<Longrightarrow> p = (case as of [] \<Rightarrow> None | a # _ \<Rightarrow> Some a)"
  by (cases as) auto

lemma holds_lengths: "holds h l as ds \<Longrightarrow> length as = length ds"
  unfolding holds_def data_of_def by (metis length_map)

text \<open>Which node goes when a block in the middle is removed.\<close>

lemma remove_and_free_at:
  assumes "holds h l (as1 @ a # as2) (ds1 @ d # ds2)" "length as1 = length ds1"
  shows "\<exists>h'. remove_and_free l (Some d) h = Some h' \<and> holds h' l (as1 @ as2) (ds1 @ ds2) \<and>
    (\<forall>n. hp_nodes h a = Some n \<longrightarrow> chain (hp_nodes h') (ln_next n) as2) \<and> hp_data h' = hp_data h - {d} \<and>
    (\<forall>b. b \<notin> set (as1 @ a # as2) \<longrightarrow> hp_nodes h' b = hp_nodes h b) \<and>
    (\<forall>l'. l' \<noteq> l \<longrightarrow> hp_lists h' l' = hp_lists h l') \<and> other_memory h h'"
proof -
  let ?as = "as1 @ a # as2" and ?d = "\<lambda>a. ln_data (the (hp_nodes h a))"
  have l: "is_list h l ?as" "map ?d ?as = map Some (ds1 @ d # ds2)" "distinct (ds1 @ d # ds2)"
    using assms(1) by (simp_all add: holds_def data_of_def)
  have "distinct ?as" using l(1) by (rule is_listD)
  have "map ?d as1 @ ?d a # map ?d as2 = map Some ds1 @ Some d # map Some ds2" using l(2) by simp
  then have ad: "?d a = Some d" using assms(2) by simp
  have inj: "inj_on ?d (set ?as)"
    using l(2,3) distinct_map [of ?d ?as] distinct_map [of Some "ds1 @ d # ds2"] by (metis inj_Some inj_on_subset subset_UNIV)
  obtain xs b ys h' where r: "?as = xs @ b # ys" "?d b = Some d" "remove_and_free l (Some d) h = Some h'"
    "holds h' l (xs @ ys) (remove1 d (ds1 @ d # ds2))" "hp_data h' = hp_data h - {d}"
    "\<forall>b. b \<notin> set ?as \<longrightarrow> hp_nodes h' b = hp_nodes h b" "\<forall>l'. l' \<noteq> l \<longrightarrow> hp_lists h' l' = hp_lists h l'" "other_memory h h'"
    using remove_and_free_node [OF assms(1), of d, OF in_set_conv_decomp [THEN iffD2]] by blast
  have "b \<in> set ?as" unfolding r(1) by simp
  moreover have "a \<in> set ?as" by simp
  ultimately have "b = a" using inj_onD [OF inj, of b a] ad r(2) by simp
  moreover have "a \<notin> set as1" "a \<notin> set as2" using \<open>distinct ?as\<close> by simp_all
  ultimately have "xs = as1" "ys = as2" using r(1) append_Cons_eq_iff [of a as1 as2 xs ys] by metis+
  moreover have "remove1 d (ds1 @ d # ds2) = ds1 @ ds2" using l(3) by (simp add: remove1_append)
  ultimately have h': "holds h' l (as1 @ as2) (ds1 @ ds2)" using r(4) by simp
  obtain p p' where p: "chain (hp_nodes h) p ?as" "chain (hp_nodes h') p' (as1 @ as2)"
    using l(1) h' by (auto simp: holds_def elim!: is_listD)
  obtain q where q: "chain (hp_nodes h') q as2" using p(2) by (auto simp: chain_append)
  have "chain (hp_nodes h') (ln_next n) as2" if "hp_nodes h a = Some n" for n
  proof -
    have "chain (hp_nodes h) (ln_next n) as2" using p(1) that by (auto simp: chain_append)
    then show ?thesis using q chain_head [OF q] chain_head by metis
  qed
  then show ?thesis using r(3,5-8) h' by blast
qed

lemma append_owned:
  assumes "fresh_alloc alloc" "alloc (hp_nodes h) = Some a" "holds h l as ds" "d \<notin> set ds" "d \<in> hp_data h"
  shows "\<exists>h'. list_append alloc (Some l) (Some d) h = Some (Some a, h') \<and> holds h' l (as @ [a]) (ds @ [d]) \<and>
    other_memory h h' \<and> hp_data h' = hp_data h \<and> (\<forall>l'. l' \<noteq> l \<longrightarrow> hp_lists h' l' = hp_lists h l') \<and>
    (\<forall>l' bs es. l' \<noteq> l \<longrightarrow> holds h l' bs es \<longrightarrow> set bs \<inter> set as = {} \<longrightarrow> holds h' l' bs es) \<and> hp_nodes h a = None"
proof -
  have l: "is_list h l as" "data_of (hp_nodes h) as = map Some ds" using assms(3) by (simp_all add: holds_def)
  obtain h' where h': "list_append alloc (Some l) (Some d) h = Some (Some a, h')" "is_list h' l (as @ [a])"
    "data_of (hp_nodes h') (as @ [a]) = data_of (hp_nodes h) as @ [Some d]"
    "\<forall>l' bs. l' \<noteq> l \<longrightarrow> is_list h l' bs \<longrightarrow> set bs \<inter> set as = {} \<longrightarrow>
      is_list h' l' bs \<and> data_of (hp_nodes h') bs = data_of (hp_nodes h) bs"
    using list_append_appends [OF assms(1,2) l(1)] by blast
  note f = list_append_frame [OF h'(1)]
  have "hp_nodes h a = None" using assms(1,2) by (simp add: fresh_alloc_def)
  moreover have "holds h' l (as @ [a]) (ds @ [d])"
    using h'(2,3) l(2) f assms(3-5) by (simp add: holds_def)
  moreover have "holds h' l' bs es" if "l' \<noteq> l" "holds h l' bs es" "set bs \<inter> set as = {}" for l' bs es
    using that h'(4) f by (simp add: holds_def)
  ultimately show ?thesis using h'(1) f by blast
qed

lemma list_combine_frame:
  "list_combine (Some d) (Some l) h = Some h' \<Longrightarrow>
    other_memory h h' \<and> hp_data h' = hp_data h \<and> (\<forall>l'. l' \<noteq> d \<longrightarrow> hp_lists h' l' = hp_lists h l')"
  by (auto simp: list_combine_def bind_eq_Some_conv heap_ops Let_def split: option.splits if_splits)

lemma combine_owned:
  assumes "holds h d as ds" "holds h l bs es" "set as \<inter> set bs = {}" "set ds \<inter> set es = {}" "d \<noteq> l" "es \<noteq> []"
  shows "\<exists>h'. list_combine (Some d) (Some l) h = Some h' \<and> holds h' d (as @ bs) (ds @ es) \<and>
    hp_data h' = hp_data h \<and> other_memory h h'"
proof -
  have "bs \<noteq> []" using holds_lengths [OF assms(2)] assms(6) by auto
  then obtain h' where h': "list_combine (Some d) (Some l) h = Some h'" "is_list h' d (as @ bs)"
    "data_of (hp_nodes h') (as @ bs) = data_of (hp_nodes h) (as @ bs)"
    using list_combine_concatenates [of h d as l bs] assms(1-3,5) by (auto simp: holds_def)
  have "data_of (hp_nodes h) (as @ bs) = map Some (ds @ es)" using assms(1,2) by (simp add: holds_def data_of_def)
  then have "data_of (hp_nodes h') (as @ bs) = map Some (ds @ es)" using h'(3) by simp
  then show ?thesis using list_combine_frame [OF h'(1)] assms(1,2,4) h'(1,2)
    by (intro exI [of _ h']) (auto simp: holds_def)
qed

lemma destroy_owned:
  assumes "holds h l as ds"
  shows "list_destroy_deep (Some l) h = Some (set_list l EMPTY_LINKEDLIST
    (h\<lparr>hp_nodes := (\<lambda>a. if a \<in> set as then None else hp_nodes h a), hp_data := hp_data h - set ds\<rparr>))"
proof -
  have l: "is_list h l as" "data_of (hp_nodes h) as = map Some ds" "distinct ds" "set ds \<subseteq> hp_data h"
    using assms by (simp_all add: holds_def)
  obtain p where p: "chain (hp_nodes h) p as" "distinct as"
    "hp_lists h l = Some \<lparr>ll_size = int (length as), ll_head = p, ll_tail = last_ptr as\<rparr>"
    using l(1) by (rule is_listD)
  have "distinct (filter (\<lambda>d. d \<noteq> None) (map Some ds)) \<and> set (map Some ds) \<subseteq> insert None (Some ` hp_data h)"
    using l(3,4) by (auto simp: filter_map comp_def distinct_map)
  moreover have "{b \<in> hp_data h. Some b \<notin> set (map Some ds)} = hp_data h - set ds" by auto
  ultimately show ?thesis using destroy_loop_frees [OF p(1,2), of True] l(2) p(3)
    by (simp add: list_destroy_deep_def)
qed

end
