(* ===== verification/NL_Objects.thy ===== *)
theory NL_Objects
  imports NL_Owned
begin

text \<open>
  The object system of the Realtime game (\<^verbatim>\<open>objects.c\<close>, \<^verbatim>\<open>mathtypes.c\<close>): the objects behind a
  linked list on the heap, their movement, and the timeline of transforms a client keeps of each.
  The lemmas show what synchronising makes of a timeline, that an object is found, created and
  destroyed as in a list of objects, and that destroying all of them goes through a bad pointer.
\<close>

section \<open>Data\<close>

text \<open>
  A \<open>float\<close> is the 32 bits of its representation; the arithmetic on it is that of the console's
  floating-point unit, which is a parameter. \<open>f_of_int\<close> is the conversion of an \<open>int\<close>.
\<close>

type_synonym f32 = u32

record fpu =
  f_add :: "f32 \<Rightarrow> f32 \<Rightarrow> f32"
  f_sub :: "f32 \<Rightarrow> f32 \<Rightarrow> f32"
  f_mul :: "f32 \<Rightarrow> f32 \<Rightarrow> f32"
  f_div :: "f32 \<Rightarrow> f32 \<Rightarrow> f32"
  f_lt :: "f32 \<Rightarrow> f32 \<Rightarrow> bool"
  f_eq :: "f32 \<Rightarrow> f32 \<Rightarrow> bool"
  f_neg :: "f32 \<Rightarrow> f32"
  f_sqrt :: "f32 \<Rightarrow> f32"
  f_of_int :: "int \<Rightarrow> f32"

record Vector2D =
  vx :: f32
  vy :: f32

record Color =
  col_r :: byte
  col_g :: byte
  col_b :: byte
  col_a :: byte

record Transform =
  tr_pos :: Vector2D
  tr_dir :: Vector2D
  tr_size :: Vector2D
  tr_speed :: f32
  tr_col :: Color
  tr_timestamp :: u64

record GameObject =
  go_id :: u32
  go_bounce :: byte
  cl_trans :: Transform
  sv_trans :: Transform
  old_trans :: "Transform list"

text \<open>The controller and a buffered input; \<open>sint\<close> of a position of the stick is its value.\<close>

record ContData =
  cd_button :: u16
  cd_trigger :: u16
  stick_x :: byte
  stick_y :: byte

record InputToAck =
  in_time :: u64
  in_contdata :: ContData
  in_dt :: f32

record RtPlayer =
  rp_connected :: byte
  rp_obj :: ptr

text \<open>
  The heap with what the \<open>void*\<close> of the game point to, and the array of the players. A block is
  live while its address is in \<open>hp_data\<close>.
\<close>

record rheap = heap +
  hp_objects :: "nat \<rightharpoonup> GameObject"
  hp_inputs :: "nat \<rightharpoonup> InputToAck"
  rt_players :: "RtPlayer list"

abbreviation TICKSTOKEEP :: nat where "TICKSTOKEEP \<equiv> 5"
abbreviation MAXPLAYERS :: nat where "MAXPLAYERS \<equiv> 32"
abbreviation MAXSTICK :: int where "MAXSTICK \<equiv> 80"
abbreviation MINSTICK :: int where "MINSTICK \<equiv> 5"

text \<open>The address of \<open>global_levelobjects\<close>.\<close>

abbreviation LEVELOBJECTS :: nat where "LEVELOBJECTS \<equiv> 100"

text \<open>
  The conversions of libultra to its ticks of 46.875 MHz, and the two times the game computes from
  \<open>DELTATIME\<close>, a fifth of a second.
\<close>

definition OS_USEC_TO_CYCLES :: "u64 \<Rightarrow> u64" where
  "OS_USEC_TO_CYCLES n = n * 3000 div 64"

definition OS_NSEC_TO_CYCLES :: "u64 \<Rightarrow> u64" where
  "OS_NSEC_TO_CYCLES n = n * 3 div 64"

definition TICK :: u64 where "TICK = OS_USEC_TO_CYCLES 200000"
definition MAXGAP :: u64 where "MAXGAP = OS_USEC_TO_CYCLES 300000"

section \<open>Movement\<close>

definition vector_normalize :: "fpu \<Rightarrow> Vector2D \<Rightarrow> Vector2D" where
  "vector_normalize fp v =
     (let mag = f_sqrt fp (f_add fp (f_mul fp (vx v) (vx v)) (f_mul fp (vy v) (vy v)))
      in if f_eq fp mag (f_of_int fp 0) then v\<lparr>vx := f_of_int fp 0, vy := f_of_int fp 0\<rparr>
         else let mag = f_div fp (f_of_int fp 1) mag
              in v\<lparr>vx := f_mul fp (vx v) mag, vy := f_mul fp (vy v) mag\<rparr>)"

text \<open>The dead zone and the limit of one axis of the stick.\<close>

definition deadzone :: "byte \<Rightarrow> byte" where
  "deadzone s =
     (if sint s < MINSTICK \<and> sint s > - MINSTICK then 0
      else if sint s > MAXSTICK \<or> sint s < - MAXSTICK
      then (if sint s > 0 then word_of_int MAXSTICK else word_of_int (- MAXSTICK)) else s)"

definition apply_stick :: "ContData \<Rightarrow> ContData" where
  "apply_stick c = c\<lparr>stick_x := deadzone (stick_x c), stick_y := deadzone (stick_y c)\<rparr>"

definition applycont :: "fpu \<Rightarrow> ContData \<Rightarrow> GameObject \<Rightarrow> GameObject" where
  "applycont fp contdata ob =
     (let c = apply_stick contdata; x = sint (stick_x c); y = sint (stick_y c)
      in ob\<lparr>cl_trans := (cl_trans ob)\<lparr>
           tr_dir := vector_normalize fp \<lparr>vx = f_of_int fp x, vy = f_of_int fp (- y)\<rparr>,
           tr_speed := f_mul fp (f_div fp (f_sqrt fp (f_of_int fp (x * x + y * y))) (f_of_int fp MAXSTICK))
             (f_of_int fp 50)\<rparr>\<rparr>)"

text \<open>
  The two walls of one axis: the offset is mirrored, and the direction turned if the object
  bounces. \<open>far\<close> is the wall at the end of the axis.
\<close>

definition far_wall :: "fpu \<Rightarrow> bool \<Rightarrow> f32 \<Rightarrow> f32 \<Rightarrow> int \<Rightarrow> f32 \<times> f32 \<Rightarrow> f32 \<times> f32" where
  "far_wall fp bounce pos sz far = (\<lambda>(off, dir).
     let reach = f_add fp (f_add fp pos (f_div fp sz (f_of_int fp 2))) off
     in if f_lt fp (f_of_int fp far) reach
        then (f_sub fp off (f_mul fp (f_of_int fp 2) (f_sub fp reach (f_of_int fp far))),
              if bounce then f_neg fp dir else dir)
        else (off, dir))"

definition near_wall :: "fpu \<Rightarrow> bool \<Rightarrow> f32 \<Rightarrow> f32 \<Rightarrow> f32 \<times> f32 \<Rightarrow> f32 \<times> f32" where
  "near_wall fp bounce pos sz = (\<lambda>(off, dir).
     let reach = f_add fp (f_sub fp pos (f_div fp sz (f_of_int fp 2))) off
     in if f_lt fp reach (f_of_int fp 0)
        then (f_sub fp off (f_mul fp (f_of_int fp 2) (f_sub fp reach (f_of_int fp 0))),
              if bounce then f_neg fp dir else dir)
        else (off, dir))"

definition applyphys :: "fpu \<Rightarrow> f32 \<Rightarrow> GameObject \<Rightarrow> GameObject" where
  "applyphys fp dt ob =
     (let t = cl_trans ob; p = tr_pos t; d = tr_dir t; z = tr_size t; b = go_bounce ob \<noteq> 0;
          (ox, dx) = near_wall fp b (vx p) (vx z) (far_wall fp b (vx p) (vx z) 320
                       (f_mul fp (f_mul fp (vx d) (tr_speed t)) dt, vx d));
          (oy, dy) = near_wall fp b (vy p) (vy z) (far_wall fp b (vy p) (vy z) 240
                       (f_mul fp (f_mul fp (vy d) (tr_speed t)) dt, vy d))
      in ob\<lparr>cl_trans := t\<lparr>tr_pos := \<lparr>vx = f_add fp (vx p) ox, vy = f_add fp (vy p) oy\<rparr>,
           tr_dir := \<lparr>vx = dx, vy = dy\<rparr>\<rparr>\<rparr>)"

section \<open>Timelines\<close>

text \<open>The loops go through the array by index, as the code's do.\<close>

definition push_old :: "GameObject \<Rightarrow> GameObject" where
  "push_old ob = ob\<lparr>old_trans :=
     (foldl (\<lambda>os i. os[i := os ! (i - 1)]) (old_trans ob) (rev [1..<TICKSTOKEEP]))[0 := sv_trans ob]\<rparr>"

text \<open>
  One turn of the loop of \<open>objects_synctransforms\<close>, on the server's transform followed by the old
  ones; the flag is \<open>propagate\<close>.
\<close>

definition sync_step :: "bool \<times> Transform list \<Rightarrow> nat \<Rightarrow> bool \<times> Transform list" where
  "sync_step = (\<lambda>(propagate, ts) i.
     let newer = ts ! i; older = ts ! Suc i; delta = tr_timestamp newer - tr_timestamp older;
         propagate = (propagate \<or> delta > MAXGAP)
     in (propagate, if propagate then ts[Suc i := newer\<lparr>tr_timestamp := tr_timestamp newer - TICK\<rparr>] else ts))"

definition timeline :: "GameObject \<Rightarrow> Transform list" where
  "timeline ob = sv_trans ob # old_trans ob"

definition sync_object :: "GameObject \<Rightarrow> GameObject" where
  "sync_object ob =
     ob\<lparr>cl_trans := sv_trans ob, old_trans := tl (snd (foldl sync_step (False, timeline ob) [0..<TICKSTOKEEP]))\<rparr>"

section \<open>Objects on the heap\<close>

text \<open>
  An operation is \<open>None\<close> where the code goes through a bad pointer or out of the array, or does
  not return. A member of an object is written with \<open>on_object\<close>.
\<close>

definition get_object :: "ptr \<Rightarrow> rheap \<Rightarrow> GameObject option" where
  "get_object p h = Option.bind p (\<lambda>a. if a \<in> hp_data h then hp_objects h a else None)"

definition on_object :: "ptr \<Rightarrow> (GameObject \<Rightarrow> GameObject) \<Rightarrow> rheap \<Rightarrow> rheap option" where
  "on_object p f h = do { a \<leftarrow> p; ob \<leftarrow> get_object p h; Some (h\<lparr>hp_objects := (hp_objects h)(a \<mapsto> f ob)\<rparr>) }"

text \<open>
  The allocator: \<open>calloc\<close> for the nodes of lists, \<open>malloc\<close> for the rest, and what a new block
  happens to contain.
\<close>

record allocator =
  al_node :: "(nat \<rightharpoonup> listNode) \<Rightarrow> ptr"
  al_data :: "nat set \<Rightarrow> ptr"
  al_object :: GameObject

definition objects_initsystem :: "rheap \<Rightarrow> rheap" where
  "objects_initsystem h = set_list LEVELOBJECTS EMPTY_LINKEDLIST
     (h\<lparr>rt_players := replicate MAXPLAYERS \<lparr>rp_connected = 0, rp_obj = None\<rparr>\<rparr>)"

definition objects_create :: "allocator \<Rightarrow> rheap \<Rightarrow> (ptr \<times> rheap) option" where
  "objects_create al h = do {
     let p = al_data al (hp_data h);
     let h = (case p of None \<Rightarrow> h | Some a \<Rightarrow>
       h\<lparr>hp_data := insert a (hp_data h), hp_objects := (hp_objects h)(a \<mapsto> al_object al)\<rparr>);
     (_, h) \<leftarrow> list_append (al_node al) (Some LEVELOBJECTS) p h;
     Some (p, h) }"

partial_function (option) find_loop :: "u32 \<Rightarrow> ptr \<Rightarrow> rheap \<Rightarrow> ptr option" where
  "find_loop objid listit h =
     (case listit of None \<Rightarrow> Some None
      | Some a \<Rightarrow> Option.bind (hp_nodes h a) (\<lambda>n.
          Option.bind (get_object (ln_data n) h) (\<lambda>ob.
            if go_id ob = objid then Some (ln_data n) else find_loop objid (ln_next n) h)))"

definition objects_findbyid :: "u32 \<Rightarrow> rheap \<Rightarrow> ptr option" where
  "objects_findbyid objid h = do { L \<leftarrow> hp_lists h LEVELOBJECTS; find_loop objid (ll_head L) h }"

definition objects_getall :: nat where
  "objects_getall = LEVELOBJECTS"

definition objects_destroy :: "ptr \<Rightarrow> rheap \<Rightarrow> rheap option" where
  "objects_destroy obj h = remove_and_free LEVELOBJECTS obj h"

partial_function (option) destroyall_loop :: "ptr \<Rightarrow> rheap \<Rightarrow> rheap option" where
  "destroyall_loop listit h =
     (case listit of None \<Rightarrow> Some h
      | Some a \<Rightarrow> Option.bind (hp_nodes h a) (\<lambda>n.
          Option.bind (ln_next n) (\<lambda>b.
          Option.bind (hp_nodes h b) (\<lambda>m.
          Option.bind (objects_destroy (ln_data m) h) (\<lambda>h. destroyall_loop (Some b) h)))))"

definition objects_destroyall :: "rheap \<Rightarrow> rheap option" where
  "objects_destroyall h = do {
     L \<leftarrow> hp_lists h LEVELOBJECTS; h \<leftarrow> destroyall_loop (ll_head L) h; list_destroy (Some LEVELOBJECTS) h }"

text \<open>Players are numbered from 1; the index is computed as an \<open>int\<close>.\<close>

definition player :: "byte \<Rightarrow> rheap \<Rightarrow> RtPlayer option" where
  "player num h = (let i = uint num - 1 in
     if 0 \<le> i \<and> nat i < length (rt_players h) then Some (rt_players h ! nat i) else None)"

definition set_player_rt :: "byte \<Rightarrow> RtPlayer \<Rightarrow> rheap \<Rightarrow> rheap" where
  "set_player_rt num p h = h\<lparr>rt_players := (rt_players h)[nat (uint num - 1) := p]\<rparr>"

definition objects_connectplayer :: "byte \<Rightarrow> ptr \<Rightarrow> rheap \<Rightarrow> rheap option" where
  "objects_connectplayer num obj h = do {
     _ \<leftarrow> player num h; Some (set_player_rt num \<lparr>rp_connected = 1, rp_obj = obj\<rparr> h) }"

definition objects_disconnectplayer :: "byte \<Rightarrow> rheap \<Rightarrow> rheap option" where
  "objects_disconnectplayer num h = do {
     p \<leftarrow> player num h;
     h \<leftarrow> objects_destroy (rp_obj p) (set_player_rt num (p\<lparr>rp_connected := 0\<rparr>) h);
     Some (set_player_rt num \<lparr>rp_connected = 0, rp_obj = None\<rparr> h) }"

definition objects_applycont :: "fpu \<Rightarrow> ptr \<Rightarrow> ContData \<Rightarrow> rheap \<Rightarrow> rheap option" where
  "objects_applycont fp obj contdata h = on_object obj (applycont fp contdata) h"

definition objects_applyphys :: "fpu \<Rightarrow> ptr \<Rightarrow> f32 \<Rightarrow> rheap \<Rightarrow> rheap option" where
  "objects_applyphys fp obj dt h = on_object obj (applyphys fp dt) h"

definition objects_pusholdtransforms :: "ptr \<Rightarrow> rheap \<Rightarrow> rheap option" where
  "objects_pusholdtransforms obj h = (if obj = None then Some h else on_object obj push_old h)"

definition objects_synctransforms :: "ptr \<Rightarrow> rheap \<Rightarrow> rheap option" where
  "objects_synctransforms obj h = (if obj = None then Some h else on_object obj sync_object h)"


section \<open>What synchronising does\<close>

lemma push_old_shifts:
  assumes "length (old_trans ob) = TICKSTOKEEP"
  shows "push_old ob = ob\<lparr>old_trans := sv_trans ob # take 4 (old_trans ob)\<rparr>"
proof -
  obtain a b c d e where "old_trans ob = [a, b, c, d, e]"
    using assms by (auto simp: numeral_eq_Suc length_Suc_conv)
  moreover have "rev [1..<TICKSTOKEEP] = [4, 3, 2, 1]" by code_simp
  ultimately show ?thesis by (simp add: push_old_def)
qed

text \<open>The loop as a recursion on the older transforms.\<close>

fun sync_older :: "bool \<Rightarrow> Transform \<Rightarrow> Transform list \<Rightarrow> Transform list" where
  "sync_older p newer [] = []"
| "sync_older p newer (older # ts) =
     (let p = (p \<or> tr_timestamp newer - tr_timestamp older > MAXGAP);
          older = (if p then newer\<lparr>tr_timestamp := tr_timestamp newer - TICK\<rparr> else older)
      in older # sync_older p older ts)"

lemma sync_steps: "snd (foldl sync_step (p, pre @ newer # ts) [length pre..<length pre + length ts]) =
    pre @ newer # sync_older p newer ts"
proof (induction ts arbitrary: p pre newer)
  case (Cons older ts)
  let ?p = "p \<or> tr_timestamp newer - tr_timestamp older > MAXGAP"
  let ?o = "if ?p then newer\<lparr>tr_timestamp := tr_timestamp newer - TICK\<rparr> else older"
  have u: "[length pre..<length pre + length (older # ts)] = length pre # [length (pre @ [newer])..<length (pre @ [newer]) + length ts]"
    by (simp add: upt_rec)
  have "sync_step (p, pre @ newer # older # ts) (length pre) = (?p, (pre @ [newer]) @ ?o # ts)"
    by (simp add: sync_step_def nth_append list_update_append Let_def)
  then show ?case using Cons.IH [of ?p "pre @ [newer]" ?o] unfolding u by (simp add: Let_def)
qed simp

text \<open>How many of the older transforms follow without a gap.\<close>

definition steady :: "Transform \<Rightarrow> Transform list \<Rightarrow> nat" where
  "steady newer ts = length (takeWhile (\<lambda>(n, k). tr_timestamp n - tr_timestamp k \<le> MAXGAP) (zip (newer # ts) ts))"

definition before :: "Transform \<Rightarrow> nat \<Rightarrow> Transform" where
  "before t j = t\<lparr>tr_timestamp := tr_timestamp t - of_nat j * TICK\<rparr>"

lemma before_Suc: "before (before t 1) j = before t (Suc j)"
  by (simp add: before_def algebra_simps)

lemma sync_older_filled: "sync_older True t ts = map (before t) [1..<Suc (length ts)]"
proof (induction ts arbitrary: t)
  case (Cons k ts)
  have "[1..<Suc (length (k # ts))] = 1 # map Suc [1..<Suc (length ts)]"
    using upt_conv_Cons [of 1 "Suc (length (k # ts))"] by (simp add: map_Suc_upt del: upt_Suc)
  moreover have "sync_older True t (k # ts) = before t 1 # sync_older True (before t 1) ts" by (simp add: before_def Let_def)
  ultimately show ?case by (simp only: Cons.IH list.map map_map before_Suc o_def)
qed simp

lemma sync_older_eq:
  "sync_older False t ts = take (steady t ts) ts @ map (before ((t # ts) ! steady t ts)) [1..<Suc (length ts - steady t ts)]"
proof (induction ts arbitrary: t)
  case (Cons k ts)
  show ?case
  proof (cases "tr_timestamp t - tr_timestamp k > MAXGAP")
    case True
    then have "steady t (k # ts) = 0" by (simp add: steady_def not_le)
    moreover have "sync_older False t (k # ts) = sync_older True t (k # ts)" using True by simp
    ultimately show ?thesis by (simp add: sync_older_filled del: sync_older.simps)
  next
    case False
    then have "steady t (k # ts) = Suc (steady k ts)" by (simp add: steady_def not_less)
    then show ?thesis using False Cons.IH [of k] by simp
  qed
qed (simp add: steady_def)

lemma sync_object_older:
  "length (old_trans ob) = TICKSTOKEEP \<Longrightarrow>
    sync_object ob = ob\<lparr>cl_trans := sv_trans ob, old_trans := sync_older False (sv_trans ob) (old_trans ob)\<rparr>"
  using sync_steps [of False "[]" "sv_trans ob" "old_trans ob"] by (simp add: sync_object_def timeline_def)

lemma sync_older_gaps:
  "Suc i < length (t # sync_older p t ts) \<Longrightarrow>
    tr_timestamp ((t # sync_older p t ts) ! i) - tr_timestamp ((t # sync_older p t ts) ! Suc i) \<le> MAXGAP"
proof (induction ts arbitrary: p t i)
  case (Cons k ts)
  let ?p = "p \<or> tr_timestamp t - tr_timestamp k > MAXGAP"
  let ?k = "if ?p then t\<lparr>tr_timestamp := tr_timestamp t - TICK\<rparr> else k"
  have t: "TICK \<le> MAXGAP" by (simp add: TICK_def MAXGAP_def OS_USEC_TO_CYCLES_def)
  show ?case
  proof (cases i)
    case 0
    then show ?thesis using t by (auto simp: Let_def not_less)
  next
    case (Suc j)
    then show ?thesis using Cons.IH [of j ?k ?p] Cons.prems by (simp add: Let_def)
  qed
qed simp

text \<open>C11: 
  Synchronising an object shows it where the server has it, keeps the part of its timeline that
  has no gaps of more than one and a half ticks, and fills up the rest in steps of one tick from
  the last transform before the gap. No gap is left.
\<close>

theorem sync_fills_gaps:
  assumes "length (old_trans ob) = TICKSTOKEEP"
  shows "let k = steady (sv_trans ob) (old_trans ob); ob' = sync_object ob in
    cl_trans ob' = sv_trans ob \<and> sv_trans ob' = sv_trans ob \<and>
    old_trans ob' = take k (old_trans ob) @ map (before (timeline ob ! k)) [1..<Suc (TICKSTOKEEP - k)] \<and>
    (\<forall>i<TICKSTOKEEP. tr_timestamp (timeline ob' ! i) - tr_timestamp (timeline ob' ! Suc i) \<le> MAXGAP)"
proof -
  have "length (sync_older False (sv_trans ob) (old_trans ob)) = TICKSTOKEEP"
    using assms by (simp add: sync_older_eq steady_def min_def) (use length_takeWhile_le [of _ "zip (sv_trans ob # old_trans ob) (old_trans ob)"] in auto)
  then show ?thesis using sync_older_gaps [of _ "sv_trans ob" False "old_trans ob"] assms
    by (auto simp add: sync_object_older [OF assms] timeline_def sync_older_eq Let_def simp del: upt_Suc)
qed


section \<open>The level's objects\<close>

text \<open>The objects behind the list, in its order, with their addresses.\<close>

definition level :: "rheap \<Rightarrow> nat list \<Rightarrow> nat list \<Rightarrow> bool" where
  "level h as ds \<longleftrightarrow> holds h LEVELOBJECTS as ds \<and> (\<forall>d\<in>set ds. hp_objects h d \<noteq> None)"

definition object_list :: "rheap \<Rightarrow> nat list \<Rightarrow> (nat \<times> GameObject) list" where
  "object_list h ds = map (\<lambda>d. (d, the (hp_objects h d))) ds"

lemma find_loop_finds:
  "chain (hp_nodes h) p as \<Longrightarrow> data_of (hp_nodes h) as = map Some ds \<Longrightarrow>
   \<forall>d\<in>set ds. d \<in> hp_data h \<and> hp_objects h d \<noteq> None \<Longrightarrow>
   find_loop i p h = Some (map_option fst (find (\<lambda>(_, ob). go_id ob = i) (object_list h ds)))"
proof (induction as arbitrary: p ds)
  case Nil
  then show ?case by (simp add: find_loop.simps object_list_def)
next
  case (Cons a as)
  then obtain n d ds' where n: "p = Some a" "hp_nodes h a = Some n" "chain (hp_nodes h) (ln_next n) as"
    "ds = d # ds'" "ln_data n = Some d" "data_of (hp_nodes h) as = map Some ds'" by (cases ds) auto
  obtain ob where ob: "get_object (Some d) h = Some ob" "hp_objects h d = Some ob"
    using Cons.prems(3) n(4) by (auto simp: get_object_def)
  show ?case using Cons.IH [OF n(3,6)] Cons.prems(3) n(1,2,4,5) ob
    by (subst find_loop.simps) (simp add: object_list_def)
qed

text \<open>\<open>objects_findbyid\<close> gives the address of the first object of the list with that number, or \<open>NULL\<close>.\<close>

theorem findbyid_finds_first:
  assumes "level h as ds"
  shows "objects_findbyid i h = Some (map_option fst (find (\<lambda>(_, ob). go_id ob = i) (object_list h ds)))"
proof -
  have l: "is_list h LEVELOBJECTS as" "data_of (hp_nodes h) as = map Some ds" "\<forall>d\<in>set ds. d \<in> hp_data h \<and> hp_objects h d \<noteq> None"
    using assms by (auto simp: level_def holds_def)
  obtain p where p: "chain (hp_nodes h) p as"
    "hp_lists h LEVELOBJECTS = Some \<lparr>ll_size = int (length as), ll_head = p, ll_tail = last_ptr as\<rparr>"
    using l(1) by (rule is_listD)
  show ?thesis using find_loop_finds [OF p(1) l(2,3)] p(2) by (simp add: objects_findbyid_def)
qed

lemma other_memory_rheap:
  fixes h h' :: rheap
  assumes "other_memory h h'"
  shows "hp_objects h' = hp_objects h" "hp_inputs h' = hp_inputs h" "rt_players h' = rt_players h"
  using assms by (cases h; cases h'; simp add: other_memory_def)+

text \<open>The laws of the allocator: it gives no address that is in use.\<close>

definition allocator_ok :: "allocator \<Rightarrow> bool" where
  "allocator_ok al \<longleftrightarrow> fresh_alloc (al_node al) \<and> (\<forall>D a. al_data al D = Some a \<longrightarrow> a \<notin> D)"

text \<open>A new object is the last of the list; it is what the memory it got happened to hold.\<close>

theorem create_appends:
  assumes "allocator_ok al" "level h as ds" "al_node al (hp_nodes h) = Some a" "al_data al (hp_data h) = Some d"
  shows "\<exists>h'. objects_create al h = Some (Some d, h') \<and> level h' (as @ [a]) (ds @ [d]) \<and> d \<notin> set ds \<and>
    object_list h' (ds @ [d]) = object_list h ds @ [(d, al_object al)] \<and> hp_data h' = insert d (hp_data h) \<and>
    hp_inputs h' = hp_inputs h \<and> rt_players h' = rt_players h \<and>
    (\<forall>l' bs es. l' \<noteq> LEVELOBJECTS \<longrightarrow> holds h l' bs es \<longrightarrow> set bs \<inter> set as = {} \<longrightarrow> holds h' l' bs es)"
proof -
  let ?k = "h\<lparr>hp_data := insert d (hp_data h), hp_objects := (hp_objects h)(d \<mapsto> al_object al)\<rparr>"
  have al: "fresh_alloc (al_node al)" "d \<notin> hp_data h" using assms(1,4) by (simp_all add: allocator_ok_def)
  have h: "holds h LEVELOBJECTS as ds" "\<forall>d\<in>set ds. hp_objects h d \<noteq> None" using assms(2) by (simp_all add: level_def)
  then have d: "d \<notin> set ds" using al(2) by (auto simp: holds_def)
  have keep: "holds ?k l' bs es" if "holds h l' bs es" for l' bs es
    using that by (rule holds_frame) (use that in \<open>auto simp: holds_def\<close>)
  obtain h' where h': "list_append (al_node al) (Some LEVELOBJECTS) (Some d) ?k = Some (Some a, h')"
    "holds h' LEVELOBJECTS (as @ [a]) (ds @ [d])" "other_memory ?k h'" "hp_data h' = insert d (hp_data h)"
    "\<forall>l' bs es. l' \<noteq> LEVELOBJECTS \<longrightarrow> holds ?k l' bs es \<longrightarrow> set bs \<inter> set as = {} \<longrightarrow> holds h' l' bs es"
    using append_owned [OF al(1) _ keep [OF h(1)] d, of a] assms(3) by auto
  note m = other_memory_rheap [OF h'(3)]
  have "object_list h' (ds @ [d]) = object_list h ds @ [(d, al_object al)]"
    using d m(1) by (auto simp: object_list_def)
  moreover have "level h' (as @ [a]) (ds @ [d])" using h'(2) m(1) h(2) by (auto simp: level_def)
  ultimately show ?thesis using h'(1,4,5) m assms(4) d keep by (simp add: objects_create_def Let_def)
qed

text \<open>
  Destroying all objects works on an empty list only. The loop advances before it destroys: it
  spares the first object, and then either goes through \<open>NULL\<close> or reads the node it has freed.
\<close>

theorem destroyall_fails_iff:
  assumes "level h as ds"
  shows "objects_destroyall h = None \<longleftrightarrow> ds \<noteq> []"
proof -
  have h: "holds h LEVELOBJECTS as ds" using assms by (simp add: level_def)
  then have l: "is_list h LEVELOBJECTS as" "data_of (hp_nodes h) as = map Some ds" by (simp_all add: holds_def)
  obtain p where p: "chain (hp_nodes h) p as" "distinct as"
    "hp_lists h LEVELOBJECTS = Some \<lparr>ll_size = int (length as), ll_head = p, ll_tail = last_ptr as\<rparr>"
    using l(1) by (rule is_listD)
  show ?thesis
  proof (cases as)
    case Nil
    then show ?thesis using l p list_destroy_frees [OF l(1), of "[]"] by (auto simp: objects_destroyall_def destroyall_loop.simps)
  next
    case (Cons a bs)
    have "destroyall_loop p h = None"
    proof (cases bs)
      case Nil
      then show ?thesis using p(1) Cons by (auto simp: destroyall_loop.simps)
    next
      case two: (Cons b cs)
      obtain n m where n: "p = Some a" "hp_nodes h a = Some n" "ln_next n = Some b" "hp_nodes h b = Some m"
        using p(1) Cons two by auto
      obtain d where d: "ln_data m = Some d" "d \<in> set ds" using l(2) Cons two n(4) by (cases ds; cases "tl ds") auto
      obtain xs c ys k where k: "as = xs @ c # ys" "ln_data (the (hp_nodes h c)) = Some d"
        "remove_and_free LEVELOBJECTS (Some d) h = Some k" "hp_nodes k c = None"
        using remove_and_free_node [OF h d(2)] by blast
      have "c = b"
      proof -
        have "inj_on (\<lambda>a. ln_data (the (hp_nodes h a))) (set as)"
          using l(2) h distinct_map [of "\<lambda>a. ln_data (the (hp_nodes h a))" as]
          by (simp add: holds_def data_of_def distinct_map)
        moreover have "c \<in> set as" using k(1) by simp
        moreover have "b \<in> set as" using Cons two by simp
        ultimately show ?thesis using k(2) n(4) d(1) by (auto dest: inj_onD [of _ _ c b])
      qed
      then show ?thesis using n d(1) k(3,4)
        by (subst destroyall_loop.simps) (simp add: objects_destroy_def destroyall_loop.simps [of "Some b"])
    qed
    then show ?thesis using p(3) l(2) Cons by (auto simp: objects_destroyall_def)
  qed
qed

end
