(* ===== verification/NL_Realtime.thy ===== *)
theory NL_Realtime
  imports NL_TicTacToe NL_Objects
begin

text \<open>
  The Realtime game on the console (\<^verbatim>\<open>Examples/Realtime/Client\<close>: \<^verbatim>\<open>main.c\<close>, \<^verbatim>\<open>packets.c\<close> and the
  stages) over its object system: its state, the callbacks of its packets with the parser of object
  updates, and the stages with the buffered inputs. As in the other game the screen is the list of
  calls to \<^verbatim>\<open>text.c\<close>. Names that both games use end in \<open>_rt\<close> here.
\<close>

section \<open>State\<close>

datatype RtStage = RT_NONE | RT_INIT | RT_GAME | RT_DISCONNECTED

datatype ConnectState = CONNSTATE_UNCONNECTED | CONNSTATE_SYNCING | CONNSTATE_PLYINFO | CONNSTATE_CONNECTED

abbreviation CLOCKCOUNT :: nat where "CLOCKCOUNT \<equiv> 5"
abbreviation MAXPACKETSTOACK :: int where "MAXPACKETSTOACK \<equiv> 100"
abbreviation INPUTSTOACK :: nat where "INPUTSTOACK \<equiv> 101"
abbreviation INPUTSTOSEND :: nat where "INPUTSTOSEND \<equiv> 102"

abbreviation Z_TRIG :: u16 where "Z_TRIG \<equiv> 0x2000"
abbreviation L_TRIG :: u16 where "L_TRIG \<equiv> 0x0020"
abbreviation R_TRIG :: u16 where "R_TRIG \<equiv> 0x0010"

text \<open>
  The static variables of the files, with the heap in \<open>rt_mem\<close>. \<open>rt_clock\<close> is by how much
  \<open>osSetTime\<close> has moved the clock.
\<close>

record rt = n64 +
  rt_curstage :: RtStage
  rt_nextstage :: RtStage
  rt_mem :: rheap
  global_connectionstate :: ConnectState
  global_clocksdone :: byte
  global_clocksent :: bool
  global_latencytests :: "u64 list"
  rt_contdata :: ContData
  disc_contdata :: ContData
  global_nextsend :: u64
  global_prediction :: bool
  global_reconciliation :: bool
  global_interpolation :: bool
  vsync_accumulator :: u64
  vsync_lastupdate :: u64
  rt_clock :: u64
  rt_text_calls :: "text_call list"

text \<open>
  What the game gets from outside: the floating-point unit and its conversions of 64-bit numbers,
  the C library's allocator, \<open>qsort\<close> and \<open>powf\<close>, what a local variable holds before it is
  assigned, how long the arithmetic on the clock takes, and how much memory is free.
\<close>

record console =
  co_fpu :: fpu
  co_of_u64 :: "u64 \<Rightarrow> f32"
  co_to_u64 :: "f32 \<Rightarrow> u64"
  co_powf :: "f32 \<Rightarrow> f32 \<Rightarrow> f32"
  co_qsort :: "(u64 \<Rightarrow> u64 \<Rightarrow> int) \<Rightarrow> u64 list \<Rightarrow> u64 list"
  co_alloc :: allocator
  co_stk :: byte
  co_lag :: u64
  co_freemem :: "rheap \<Rightarrow> int"
  co_seconds :: "u64 \<Rightarrow> f32"
  co_ratio :: "u64 \<Rightarrow> u64 \<Rightarrow> f32"

definition osGetTime :: "u64 \<Rightarrow> rt \<Rightarrow> u64" where
  "osGetTime t g = t + rt_clock g"

definition osSetTime :: "u64 \<Rightarrow> u64 \<Rightarrow> rt \<Rightarrow> rt" where
  "osSetTime t v g = g\<lparr>rt_clock := v - t\<rparr>"

definition put_text_rt :: "text_call list \<Rightarrow> rt \<Rightarrow> rt" where
  "put_text_rt cs g = g\<lparr>rt_text_calls := rt_text_calls g @ cs\<rparr>"

definition PACKETID_CLIENTCONNECT_rt :: byte where "PACKETID_CLIENTCONNECT_rt = 1"
definition PACKETID_SERVERFULL_rt :: byte where "PACKETID_SERVERFULL_rt = 2"
definition PACKETID_CLOCKSYNC :: byte where "PACKETID_CLOCKSYNC = 3"
definition PACKETID_DONESYNC :: byte where "PACKETID_DONESYNC = 4"
definition PACKETID_CLIENTINFO :: byte where "PACKETID_CLIENTINFO = 5"
definition PACKETID_PLAYERINFO_rt :: byte where "PACKETID_PLAYERINFO_rt = 6"
definition PACKETID_PLAYERDISCONNECT_rt :: byte where "PACKETID_PLAYERDISCONNECT_rt = 7"
definition PACKETID_CLIENTINPUT :: byte where "PACKETID_CLIENTINPUT = 8"
definition PACKETID_OBJECTCREATE :: byte where "PACKETID_OBJECTCREATE = 9"
definition PACKETID_OBJECTUPDATE :: byte where "PACKETID_OBJECTUPDATE = 10"
definition PACKETID_PLAYERUPDATE :: byte where "PACKETID_PLAYERUPDATE = 11"

definition stages_changeto_rt :: "RtStage \<Rightarrow> rt \<Rightarrow> rt" where
  "stages_changeto_rt num g = (if num = RT_NONE then g else g\<lparr>rt_nextstage := num\<rparr>)"

definition stages_getcurrent_rt :: "rt \<Rightarrow> RtStage" where
  "stages_getcurrent_rt g = rt_curstage g"

text \<open>
  An operation on the heap. It is \<open>None\<close> where it is on the heap: a bad pointer, an index out of
  the array of players, or no return.
\<close>

definition on_mem :: "(rheap \<Rightarrow> rheap option) \<Rightarrow> rt \<Rightarrow> rt option" where
  "on_mem f g = map_option (\<lambda>h. g\<lparr>rt_mem := h\<rparr>) (f (rt_mem g))"

section \<open>Reading numbers\<close>

text \<open>A number is its bytes, most significant first; what cannot be read stays as it was.\<close>

definition of_be :: "byte list \<Rightarrow> 'a :: len word" where
  "of_be bs = foldl (\<lambda>w b. push_bit 8 w OR ucast b) 0 bs"

definition read32 :: "u32 \<Rightarrow> 'a n64_scheme \<Rightarrow> u32 \<times> 'a n64_scheme" where
  "read32 old g = (case netlib_readdword (be32 old) g of (bs, g) \<Rightarrow> (of_be bs, g))"

definition read64 :: "u64 \<Rightarrow> 'a n64_scheme \<Rightarrow> u64 \<times> 'a n64_scheme" where
  "read64 old g = (case netlib_readqword (be64 old) g of (bs, g) \<Rightarrow> (of_be bs, g))"

definition readf :: "f32 \<Rightarrow> 'a n64_scheme \<Rightarrow> f32 \<times> 'a n64_scheme" where
  "readf old g = (case netlib_readfloat (be32 old) g of (bs, g) \<Rightarrow> (of_be bs, g))"

definition read_vector :: "Vector2D \<Rightarrow> 'a n64_scheme \<Rightarrow> Vector2D \<times> 'a n64_scheme" where
  "read_vector v g = (let (x, g) = readf (vx v) g; (y, g) = readf (vy v) g in (\<lparr>vx = x, vy = y\<rparr>, g))"

text \<open>A local variable that is read before it is set holds bytes of the stack.\<close>

definition junk32 :: "console \<Rightarrow> u32" where "junk32 co = of_be (replicate 4 (co_stk co))"
definition junk64 :: "console \<Rightarrow> u64" where "junk64 co = of_be (replicate 8 (co_stk co))"

section \<open>Objects in packets\<close>

text \<open>
  A function that reads members of the object behind a pointer from the packet. Reading does not
  touch the heap, so the members are written together.
\<close>

definition read_into :: "ptr \<Rightarrow> (GameObject \<Rightarrow> rt \<Rightarrow> GameObject \<times> rt) \<Rightarrow> rt \<Rightarrow> rt option" where
  "read_into p f g = do {
     ob \<leftarrow> get_object p (rt_mem g);
     let (ob, g) = f ob g;
     on_mem (on_object p (\<lambda>_. ob)) g }"

definition object_members :: "u64 \<Rightarrow> GameObject \<Rightarrow> rt \<Rightarrow> GameObject \<times> rt" where
  "object_members t ob g =
     (let s = sv_trans ob;
          (p, g) = read_vector (tr_pos s) g; (d, g) = read_vector (tr_dir s) g;
          (z, g) = read_vector (tr_size s) g; (v, g) = readf (tr_speed s) g;
          (b, g) = read8 (go_bounce ob) g;
          (cr, g) = read8 (col_r (tr_col s)) g; (cg, g) = read8 (col_g (tr_col s)) g;
          (cb, g) = read8 (col_b (tr_col s)) g
      in (ob\<lparr>sv_trans := s\<lparr>tr_pos := p, tr_dir := d, tr_size := z, tr_speed := v,
              tr_col := (tr_col s)\<lparr>col_r := cr, col_g := cg, col_b := cb\<rparr>, tr_timestamp := osGetTime t g\<rparr>,
            go_bounce := b,
            old_trans := map (\<lambda>(i, tr). if i < TICKSTOKEEP - 1 then tr\<lparr>tr_timestamp := 0\<rparr> else tr)
              (zip [0..<length (old_trans ob)] (old_trans ob))\<rparr>, g))"

definition packet_readobject :: "console \<Rightarrow> u64 \<Rightarrow> rt \<Rightarrow> (ptr \<times> rt) option" where
  "packet_readobject co t g = do {
     let (objid, g) = read32 (junk32 co) g;
     p \<leftarrow> objects_findbyid objid (rt_mem g);
     (p, g) \<leftarrow> (if p = None then do {
         (p, h) \<leftarrow> objects_create (co_alloc co) (rt_mem g);
         h \<leftarrow> on_object p (\<lambda>ob. ob\<lparr>go_id := objid\<rparr>) h;
         Some (p, g\<lparr>rt_mem := h\<rparr>) }
       else Some (p, g));
     g \<leftarrow> read_into p (object_members t) g;
     g \<leftarrow> on_mem (objects_synctransforms p) g;
     Some (p, g) }"

text \<open>One member of an update; the size is an \<open>u8\<close> and wraps.\<close>

definition update_member :: "byte \<Rightarrow> GameObject \<Rightarrow> rt \<Rightarrow> GameObject \<times> rt" where
  "update_member ty ob g =
     (let s = sv_trans ob in
      if ty = 0 then (case read_vector (tr_pos s) g of (v, g) \<Rightarrow> (ob\<lparr>sv_trans := s\<lparr>tr_pos := v\<rparr>\<rparr>, g))
      else if ty = 1 then (case read_vector (tr_dir s) g of (v, g) \<Rightarrow> (ob\<lparr>sv_trans := s\<lparr>tr_dir := v\<rparr>\<rparr>, g))
      else if ty = 2 then (case read_vector (tr_size s) g of (v, g) \<Rightarrow> (ob\<lparr>sv_trans := s\<lparr>tr_size := v\<rparr>\<rparr>, g))
      else (case readf (tr_speed s) g of (v, g) \<Rightarrow> (ob\<lparr>sv_trans := s\<lparr>tr_speed := v\<rparr>\<rparr>, g)))"

definition member_size :: "byte \<Rightarrow> nat" where
  "member_size ty = (if ty \<le> 2 then 8 else if ty = 3 then 4 else 0)"

text \<open>\<open>datatype\<close> has no initial value; the variable is taken to keep its place on the stack.\<close>

partial_function (option) packet_readobjectupdate :: "ptr \<Rightarrow> byte \<Rightarrow> byte \<Rightarrow> rt \<Rightarrow> rt option" where
  "packet_readobjectupdate p datatype sz g =
     (if sz = 0 then Some g
      else let (ty, g) = read8 datatype g; sz = sz - 1 in
        if ty \<le> 3
        then Option.bind (if p \<noteq> None then read_into p (update_member ty) g
                          else Some (netlib_skipbytes (member_size ty) g))
               (\<lambda>g. packet_readobjectupdate p ty (sz - of_nat (member_size ty)) g)
        else packet_readobjectupdate p ty sz g)"


section \<open>The buffered inputs\<close>

definition get_input :: "ptr \<Rightarrow> rheap \<Rightarrow> InputToAck option" where
  "get_input p h = Option.bind p (\<lambda>a. if a \<in> hp_data h then hp_inputs h a else None)"

text \<open>
  The loop of \<open>stage_game_ackinput\<close>: it takes the next node before it frees the current one.
\<close>

partial_function (option) ack_loop :: "fpu \<Rightarrow> ptr \<Rightarrow> u64 \<Rightarrow> bool \<Rightarrow> ptr \<Rightarrow> rheap \<Rightarrow> rheap option" where
  "ack_loop fp plyobj t reconcile node h =
     (case node of None \<Rightarrow> Some h
      | Some a \<Rightarrow> Option.bind (hp_nodes h a) (\<lambda>n.
          Option.bind (get_input (ln_data n) h) (\<lambda>i.
          Option.bind
            (if in_time i \<le> t then remove_and_free INPUTSTOACK (ln_data n) h
             else if reconcile
             then Option.bind (objects_applycont fp plyobj (in_contdata i) h) (objects_applyphys fp plyobj (in_dt i))
             else Some h)
            (\<lambda>h. ack_loop fp plyobj t reconcile (ln_next n) h))))"

definition stage_game_ackinput :: "console \<Rightarrow> u64 \<Rightarrow> bool \<Rightarrow> rt \<Rightarrow> rt option" where
  "stage_game_ackinput co t reconcile g =
     (if global_reconciliation g then do {
        ply \<leftarrow> player (netlib_getclient g) (rt_mem g);
        L \<leftarrow> hp_lists (rt_mem g) INPUTSTOACK;
        on_mem (ack_loop (co_fpu co) (rp_obj ply) t reconcile (ll_head L)) g }
      else Some g)"

section \<open>The clock\<close>

text \<open>
  \<open>OSTime\<close> is unsigned, so a latency below the mean makes the difference that is squared wrap
  round. The comparison function cuts a difference to an \<open>int\<close>.
\<close>

definition timecompare :: "u64 \<Rightarrow> u64 \<Rightarrow> int" where
  "timecompare a b = sint (ucast (a - b) :: u32)"

definition fifth :: "console \<Rightarrow> u64 \<Rightarrow> u64" where
  "fifth co v = co_to_u64 co (f_mul (co_fpu co) (co_of_u64 co v)
     (f_div (co_fpu co) (f_of_int (co_fpu co) 1) (f_of_int (co_fpu co) (int CLOCKCOUNT))))"

definition deviation :: "console \<Rightarrow> u64 \<Rightarrow> u64 list \<Rightarrow> u64" where
  "deviation co mean ls =
     co_to_u64 co (f_sqrt (co_fpu co) (co_of_u64 co (fifth co
       (foldl (\<lambda>stdev l. co_to_u64 co (f_add (co_fpu co) (co_of_u64 co stdev)
          (co_powf co (co_of_u64 co (l - mean)) (f_of_int (co_fpu co) 2)))) 0 ls))))"

definition samples :: "u64 \<Rightarrow> u64 \<Rightarrow> u64 list \<Rightarrow> u64 list" where
  "samples median stdev ls = filter (\<lambda>l. l < median + stdev) ls"

definition latency :: "console \<Rightarrow> u64 list \<Rightarrow> u64" where
  "latency co ls =
     (let median = ls ! (CLOCKCOUNT div 2); mean = fifth co (foldl (+) 0 ls);
          ss = samples median (deviation co mean ls) ls
      in co_to_u64 co (f_div (co_fpu co) (co_of_u64 co (foldl (+) 0 ss)) (f_of_int (co_fpu co) (int (length ss)))))"

definition stage_init_clockpacket :: "console \<Rightarrow> u64 \<Rightarrow> rt \<Rightarrow> rt result" where
  "stage_init_clockpacket co t g =
     (let curtime = osGetTime t g; (clocktime, g) = read64 (junk64 co) g;
          g = g\<lparr>global_clocksent := False\<rparr>; i = uint (global_clocksdone g)
      in rbind (aget (global_latencytests g) i) (\<lambda>l.
         rbind (aput (global_latencytests g) i ((curtime - l) div 2)) (\<lambda>ls.
         let g = g\<lparr>global_latencytests := ls, global_clocksdone := global_clocksdone g + 1\<rparr>
         in if uint (global_clocksdone g) = int CLOCKCOUNT
            then let ls = co_qsort co timecompare ls
                 in Inr (osSetTime t (OS_NSEC_TO_CYCLES clocktime + latency co ls + co_lag co)
                      (g\<lparr>global_latencytests := ls\<rparr>))
            else Inr g)))"

section \<open>What the first stage does with packets\<close>

definition stage_init_connectpacket :: "rt \<Rightarrow> rt" where
  "stage_init_connectpacket g =
     put_text_rt [text_cleanup, text_setfont font_default, text_setalign ALIGN_CENTER, text_setcolor 255 255 255 255,
       text_create ''Connecting to server...'' 160 120] (g\<lparr>global_connectionstate := CONNSTATE_SYNCING\<rparr>)"

definition stage_init_serverfull_rt :: "rt \<Rightarrow> rt" where
  "stage_init_serverfull_rt g =
     put_text_rt [text_cleanup, text_setfont font_default, text_setalign ALIGN_CENTER, text_setcolor 255 255 255 255,
       text_create ''Unable to connect'' 160 56, text_create ''Server is full'' 160 120] g"

section \<open>The callbacks\<close>

definition netcallback_clientinfo :: "console \<Rightarrow> u64 \<Rightarrow> rt \<Rightarrow> rt option" where
  "netcallback_clientinfo co t g = do {
     let (plynum, g) = read8 (co_stk co) g;
     (p, g) \<leftarrow> packet_readobject co t g;
     g \<leftarrow> on_mem (objects_connectplayer plynum p) (netlib_setclient plynum g);
     Some (stages_changeto_rt RT_GAME g) }"

definition netcallback_playerinfo_rt :: "console \<Rightarrow> u64 \<Rightarrow> rt \<Rightarrow> rt option" where
  "netcallback_playerinfo_rt co t g = do {
     let (plynum, g) = read8 (co_stk co) g;
     (p, g) \<leftarrow> packet_readobject co t g;
     on_mem (objects_connectplayer plynum p) g }"

definition netcallback_playerdisconnect :: "console \<Rightarrow> rt \<Rightarrow> rt option" where
  "netcallback_playerdisconnect co g =
     (let (plynum, g) = read8 (co_stk co) g in on_mem (objects_disconnectplayer plynum) g)"

definition netcallback_createobject :: "console \<Rightarrow> u64 \<Rightarrow> rt \<Rightarrow> rt option" where
  "netcallback_createobject co t g = map_option snd (packet_readobject co t g)"

text \<open>One object of an update; \<open>p\<close> may be \<open>NULL\<close>.\<close>

definition update_object :: "console \<Rightarrow> u64 \<Rightarrow> ptr \<Rightarrow> byte \<Rightarrow> rt \<Rightarrow> rt option" where
  "update_object co time p datasize g = do {
     g \<leftarrow> on_mem (objects_pusholdtransforms p) g;
     g \<leftarrow> packet_readobjectupdate p (co_stk co) datasize g;
     if p \<noteq> None then do {
       g \<leftarrow> on_mem (on_object p (\<lambda>ob. ob\<lparr>sv_trans := (sv_trans ob)\<lparr>tr_timestamp := time\<rparr>\<rparr>)) g;
       on_mem (objects_synctransforms p) g }
     else Some g }"

primrec update_objects :: "console \<Rightarrow> u64 \<Rightarrow> nat \<Rightarrow> rt \<Rightarrow> rt option" where
  "update_objects co ctime 0 g = Some g"
| "update_objects co ctime (Suc objcount) g = do {
     let (objid, g) = read32 (junk32 co) g;
     let (datasize, g) = read8 (co_stk co) g;
     p \<leftarrow> objects_findbyid objid (rt_mem g);
     g \<leftarrow> update_object co ctime p datasize g;
     update_objects co ctime objcount g }"

definition netcallback_updateobject :: "console \<Rightarrow> rt \<Rightarrow> rt option" where
  "netcallback_updateobject co g =
     (let (objcount, g) = read8 (co_stk co) g; (time, g) = read64 (junk64 co) g
      in update_objects co (OS_NSEC_TO_CYCLES time) (unat objcount) g)"

primrec update_players :: "console \<Rightarrow> u64 \<Rightarrow> ptr \<Rightarrow> nat \<Rightarrow> bool \<Rightarrow> rt \<Rightarrow> (bool \<times> rt) option" where
  "update_players co time clobj 0 reconcile g = Some (reconcile, g)"
| "update_players co time clobj (Suc objcount) reconcile g = do {
     let (plynum, g) = read8 (co_stk co) g;
     let (datasize, g) = read8 (co_stk co) g;
     ply \<leftarrow> player plynum (rt_mem g);
     g \<leftarrow> update_object co time (rp_obj ply) datasize g;
     update_players co time clobj objcount (reconcile \<or> rp_obj ply = clobj) g }"

definition netcallback_updateplayer :: "console \<Rightarrow> rt \<Rightarrow> rt option" where
  "netcallback_updateplayer co g = do {
     ply \<leftarrow> player (netlib_getclient g) (rt_mem g);
     let (objcount, g) = read8 (co_stk co) g;
     let (time, g) = read64 (junk64 co) g;
     (reconcile, g) \<leftarrow> update_players co time (rp_obj ply) (unat objcount) False g;
     stage_game_ackinput co time reconcile g }"

definition callback_disconnect_rt :: "rt \<Rightarrow> rt" where
  "callback_disconnect_rt g = stages_changeto_rt RT_DISCONNECTED g"

text \<open>
  A callback's number is the packet type it is registered for; 12 is the one on losing the
  connection.
\<close>

definition rt_packet :: "console \<Rightarrow> u64 \<Rightarrow> (rt \<Rightarrow> rt result option) \<Rightarrow> nat \<Rightarrow> rt \<Rightarrow> rt result option" where
  "rt_packet co t heartbeat f g =
     (if f = 0 then heartbeat g
      else if f = 1 then Some (Inr (stage_init_connectpacket g))
      else if f = 2 then Some (Inr (stage_init_serverfull_rt g))
      else if f = 3 then Some (stage_init_clockpacket co t g)
      else map_option Inr
       (if f = 5 then netcallback_clientinfo co t g
        else if f = 6 then netcallback_playerinfo_rt co t g
        else if f = 7 then netcallback_playerdisconnect co g
        else if f = 9 then netcallback_createobject co t g
        else if f = 10 then netcallback_updateobject co g
        else if f = 11 then netcallback_updateplayer co g
        else None))"

definition rt_event :: "nat \<Rightarrow> rt \<Rightarrow> rt result option" where
  "rt_event f g = (if f = 12 then Some (Inr (callback_disconnect_rt g)) else Some (Inl NullPointer))"

primrec rt_game :: "console \<Rightarrow> nat \<Rightarrow> u64 \<Rightarrow> unit rt_ext game" where
  "rt_game co 0 t = \<lparr>game_on_packet = (\<lambda>f sz. rt_packet co t (\<lambda>_. None) f), game_on_event = rt_event, junk = co_stk co\<rparr>"
| "rt_game co (Suc n) t =
     \<lparr>game_on_packet = (\<lambda>f sz. rt_packet co t (\<lambda>g. netcallback_heartbeat n (rt_game co n t) (osGetTime t g) g) f),
      game_on_event = rt_event, junk = co_stk co\<rparr>"

definition netcallback_initall_rt :: "rt \<Rightarrow> rt result" where
  "netcallback_initall_rt g = fold (\<lambda>f r. rbind r (netlib_register f (Some (unat f))))
     [PACKETID_ACKBEAT, PACKETID_CLIENTCONNECT_rt, PACKETID_SERVERFULL_rt, PACKETID_CLOCKSYNC, PACKETID_CLIENTINFO,
      PACKETID_PLAYERINFO_rt, PACKETID_PLAYERDISCONNECT_rt, PACKETID_OBJECTCREATE, PACKETID_OBJECTUPDATE,
      PACKETID_PLAYERUPDATE] (Inr g)"

section \<open>The stages\<close>

definition poll_rt :: "console \<Rightarrow> nat \<Rightarrow> u64 \<Rightarrow> rt \<Rightarrow> rt result option" where
  "poll_rt co n t g = netlib_poll n (rt_game co n t) (osGetTime t g) g"

definition to_server_rt :: "console \<Rightarrow> nat \<Rightarrow> u64 \<Rightarrow> byte \<Rightarrow> write_op list \<Rightarrow> rt \<Rightarrow> rt result option" where
  "to_server_rt co n t type ws g =
     rob (Some (netlib_write_all ws (netlib_start type g)))
       (\<lambda>g. netlib_sendtoserver n (rt_game co n t) (osGetTime t g) g)"

definition stage_init_init_rt :: "console \<Rightarrow> nat \<Rightarrow> u64 \<Rightarrow> rt \<Rightarrow> rt result option" where
  "stage_init_init_rt co n t g =
     to_server_rt co n t PACKETID_CLIENTCONNECT_rt []
       ((put_text_rt [text_setfont font_default, text_setalign ALIGN_CENTER, text_setcolor 255 255 255 255,
          text_create ''Establishing connection'' 160 56, text_create ''to server...'' 160 76, text_setfont font_small,
          text_create ''Ensure the USB is connected'' 160 136, text_create ''and the client is running'' 160 152]
          (g\<lparr>global_connectionstate := CONNSTATE_UNCONNECTED\<rparr>))\<lparr>global_clocksdone := 0, global_clocksent := False\<rparr>)"

text \<open>The loop that burns some time before a clock packet is left out.\<close>

definition stage_init_update_rt :: "console \<Rightarrow> nat \<Rightarrow> u64 \<Rightarrow> rt \<Rightarrow> rt result option" where
  "stage_init_update_rt co n t g =
     (if global_connectionstate g = CONNSTATE_SYNCING
      then if uint (global_clocksdone g) = int CLOCKCOUNT
           then rob (to_server_rt co n t PACKETID_DONESYNC [] g)
             (\<lambda>g. Some (Inr (g\<lparr>global_connectionstate := CONNSTATE_PLYINFO\<rparr>)))
           else if \<not> global_clocksent g
           then rob (Some (aput (global_latencytests g) (uint (global_clocksdone g)) (osGetTime t g))) (\<lambda>ls.
             rob (to_server_rt co n t PACKETID_CLOCKSYNC [] (g\<lparr>global_latencytests := ls\<rparr>))
               (\<lambda>g. Some (Inr (g\<lparr>global_clocksent := True\<rparr>))))
           else Some (Inr g)
      else Some (Inr g))"

definition stage_disconnected_init_rt :: "rt \<Rightarrow> rt" where
  "stage_disconnected_init_rt g =
     put_text_rt [text_setfont font_default, text_setalign ALIGN_CENTER, text_setcolor 255 255 255 255,
       text_create ''You have been disconnected'' 160 88, text_create ''Press A to retry'' 160 136] (netlib_setclient 0 g)"

definition stage_disconnected_update_rt :: "ContData \<Rightarrow> rt \<Rightarrow> rt" where
  "stage_disconnected_update_rt pad g =
     (let g = g\<lparr>disc_contdata := pad\<rparr>
      in if cd_button pad AND A_BUTTON \<noteq> 0 then stages_changeto_rt RT_INIT g else g)"

definition stage_game_updatetext :: "console \<Rightarrow> rt \<Rightarrow> rt option" where
  "stage_game_updatetext co g = do {
     L \<leftarrow> hp_lists (rt_mem g) INPUTSTOACK;
     Some (put_text_rt [text_cleanup, text_setfont font_small, text_setalign ALIGN_LEFT, text_setcolor 0 0 0 255,
       text_create (if global_prediction g then ''Prediction: Enabled'' else ''Prediction: Disabled'') 32 32,
       text_create (if global_reconciliation g then ''Reconciliation: Enabled'' else ''Reconciliation: Disabled'') 32 48,
       text_create (if global_interpolation g then ''Interpolation: Enabled'' else ''Interpolation: Disabled'') 32 64,
       text_create (''Unacked inputs '' @ dec_int (ll_size L)) 32 80,
       text_create (''Free mem '' @ dec_int (co_freemem co (rt_mem g))) 32 96] g) }"

definition stage_game_init_rt :: "console \<Rightarrow> u64 \<Rightarrow> rt \<Rightarrow> rt option" where
  "stage_game_init_rt co t g = stage_game_updatetext co
     (g\<lparr>global_nextsend := osGetTime t g, global_prediction := False, global_reconciliation := False,
       global_interpolation := False,
       rt_mem := set_list INPUTSTOSEND EMPTY_LINKEDLIST (set_list INPUTSTOACK EMPTY_LINKEDLIST (rt_mem g))\<rparr>)"

text \<open>The input of this frame goes to the end of the buffer; \<open>malloc\<close> is not checked.\<close>

definition buffer_input :: "allocator \<Rightarrow> InputToAck \<Rightarrow> rheap \<Rightarrow> rheap option" where
  "buffer_input al i h = do {
     a \<leftarrow> al_data al (hp_data h);
     let h = h\<lparr>hp_data := insert a (hp_data h), hp_inputs := (hp_inputs h)(a \<mapsto> i)\<rparr>;
     map_option snd (list_append (al_node al) (Some INPUTSTOSEND) (Some a) h) }"

definition destroy_unless :: "bool \<Rightarrow> rheap \<Rightarrow> rheap option" where
  "destroy_unless keep h = do {
     L \<leftarrow> hp_lists h INPUTSTOACK;
     if \<not> keep \<and> ll_size L > 0 then list_destroy_deep (Some INPUTSTOACK) h else Some h }"

definition toggle_modes :: "u16 \<Rightarrow> rt \<Rightarrow> rt option" where
  "toggle_modes trg g = do {
     g \<leftarrow> (if trg AND R_TRIG \<noteq> 0
       then let g = g\<lparr>global_reconciliation := \<not> global_reconciliation g\<rparr>
            in if global_reconciliation g \<and> \<not> global_prediction g then Some (g\<lparr>global_prediction := True\<rparr>)
               else on_mem (destroy_unless (global_reconciliation g)) g
       else Some g);
     g \<leftarrow> (if trg AND L_TRIG \<noteq> 0
       then let g = g\<lparr>global_prediction := \<not> global_prediction g\<rparr>;
                g = (if \<not> global_prediction g \<and> global_reconciliation g then g\<lparr>global_reconciliation := False\<rparr> else g)
            in on_mem (destroy_unless (global_reconciliation g)) g
       else Some g);
     Some (if trg AND Z_TRIG \<noteq> 0 then g\<lparr>global_interpolation := \<not> global_interpolation g\<rparr> else g) }"

text \<open>The inputs behind a pointer, as the loop that writes them into the packet meets them.\<close>

partial_function (option) inputs_from :: "ptr \<Rightarrow> rheap \<Rightarrow> InputToAck list option" where
  "inputs_from node h =
     (case node of None \<Rightarrow> Some []
      | Some a \<Rightarrow> Option.bind (hp_nodes h a) (\<lambda>n. Option.bind (get_input (ln_data n) h) (\<lambda>i.
          Option.bind (inputs_from (ln_next n) h) (\<lambda>is. Some (i # is)))))"

definition input_writes :: "InputToAck \<Rightarrow> write_op list" where
  "input_writes i = [W64 (in_time i), WFloat (in_dt i), W8 (stick_x (in_contdata i)), W8 (stick_y (in_contdata i))]"

partial_function (option) trim_loop :: "rheap \<Rightarrow> rheap option" where
  "trim_loop h = Option.bind (hp_lists h INPUTSTOACK) (\<lambda>L.
     if ll_size L > MAXPACKETSTOACK
     then Option.bind (ll_head L) (\<lambda>a. Option.bind (hp_nodes h a) (\<lambda>n.
       Option.bind (remove_and_free INPUTSTOACK (ln_data n) h) trim_loop))
     else Some h)"

definition keep_sent :: "bool \<Rightarrow> rheap \<Rightarrow> rheap option" where
  "keep_sent reconciliation h =
     (if reconciliation then do {
        h \<leftarrow> list_combine (Some INPUTSTOACK) (Some INPUTSTOSEND) h;
        h \<leftarrow> trim_loop h;
        Some (set_list INPUTSTOSEND EMPTY_LINKEDLIST h) }
      else list_destroy_deep (Some INPUTSTOSEND) h)"

text \<open>The time between two packets, a fifteenth of a second, as single precision gives it.\<close>

definition SENDTIME :: u64 where "SENDTIME = OS_USEC_TO_CYCLES 66666"

definition send_inputs :: "console \<Rightarrow> nat \<Rightarrow> u64 \<Rightarrow> u64 \<Rightarrow> rt \<Rightarrow> rt result option" where
  "send_inputs co n t curtime g =
     (case Option.bind (hp_lists (rt_mem g) INPUTSTOSEND)
         (\<lambda>L. map_option (Pair (ll_size L)) (inputs_from (ll_head L) (rt_mem g))) of
        None \<Rightarrow> None
      | Some (sz, is) \<Rightarrow>
        rob (to_server_rt co n t PACKETID_CLIENTINPUT (W8 (word_of_int sz) # concat (map input_writes is)) g) (\<lambda>g.
          map_option Inr (on_mem (keep_sent (global_reconciliation g)) (g\<lparr>global_nextsend := curtime + SENDTIME\<rparr>))))"

definition stage_game_update_rt :: "console \<Rightarrow> nat \<Rightarrow> u64 \<Rightarrow> f32 \<Rightarrow> ContData \<Rightarrow> rt \<Rightarrow> rt result option" where
  "stage_game_update_rt co n t dt pad g =
     (case do {
         ply \<leftarrow> player (netlib_getclient g) (rt_mem g);
         let c = apply_stick pad;
         let g = g\<lparr>rt_contdata := c\<rparr>;
         g \<leftarrow> on_mem (buffer_input (co_alloc co) \<lparr>in_time = osGetTime t g, in_contdata = c, in_dt = dt\<rparr>) g;
         g \<leftarrow> (if global_prediction g
               then on_mem (\<lambda>h. Option.bind (objects_applycont (co_fpu co) (rp_obj ply) c h)
                 (objects_applyphys (co_fpu co) (rp_obj ply) dt)) g
               else Some g);
         toggle_modes (cd_trigger c) g } of
        None \<Rightarrow> None
      | Some g' \<Rightarrow>
        rob (if global_nextsend g' < osGetTime t g then send_inputs co n t (osGetTime t g) g' else Some (Inr g')) (\<lambda>g.
          map_option Inr (stage_game_updatetext co g)))"

text \<open>
  What drawing changes of the objects. The view lags behind by two fifths of a second; between the
  two transforms around its time the position is interpolated. \<open>co_ratio\<close> is the quotient of two
  times in double precision. The commands for the display processor are left out.
\<close>

definition VIEWLAG_CYCLES :: u64 where "VIEWLAG_CYCLES = OS_USEC_TO_CYCLES 400000"

definition flerp :: "fpu \<Rightarrow> f32 \<Rightarrow> f32 \<Rightarrow> f32 \<Rightarrow> f32" where
  "flerp fp a b f = f_add fp a (f_mul fp f (f_sub fp b a))"

definition clamp_unit :: "fpu \<Rightarrow> f32 \<Rightarrow> f32" where
  "clamp_unit fp v = (let m = (if f_lt fp (f_of_int fp 1) v then f_of_int fp 1 else v)
     in if f_lt fp m (f_of_int fp 0) then f_of_int fp 0 else m)"

definition view_points :: "u64 \<Rightarrow> GameObject \<Rightarrow> Transform \<times> Transform" where
  "view_points time ob =
     (let os = old_trans ob
      in if tr_timestamp (os ! 0) \<le> time then (os ! 0, sv_trans ob)
         else let i = (case find (\<lambda>i. tr_timestamp (os ! Suc i) \<le> time) [0..<TICKSTOKEEP - 1] of
                         Some i \<Rightarrow> i | None \<Rightarrow> TICKSTOKEEP - 2)
              in (os ! Suc i, os ! i))"

definition interpolate :: "console \<Rightarrow> u64 \<Rightarrow> GameObject \<Rightarrow> GameObject" where
  "interpolate co time ob =
     (let fp = co_fpu co; (before, after) = view_points time ob;
          f = clamp_unit fp (co_ratio co (time - tr_timestamp before) (tr_timestamp after - tr_timestamp before));
          p = tr_pos before; q = tr_pos after
      in ob\<lparr>cl_trans := (cl_trans ob)\<lparr>tr_pos := \<lparr>vx = flerp fp (vx p) (vx q) f, vy = flerp fp (vy p) (vy q) f\<rparr>\<rparr>\<rparr>)"

partial_function (option) draw_loop :: "console \<Rightarrow> u64 \<Rightarrow> rt \<Rightarrow> ptr \<Rightarrow> rheap \<Rightarrow> rheap option" where
  "draw_loop co curtime g listit h =
     (case listit of None \<Rightarrow> Some h
      | Some a \<Rightarrow> Option.bind (hp_nodes h a) (\<lambda>n.
          Option.bind (get_object (ln_data n) h) (\<lambda>_.
          Option.bind
            (if global_interpolation g
             then Option.bind (player (netlib_getclient g) h) (\<lambda>ply.
               if ln_data n \<noteq> rp_obj ply then on_object (ln_data n) (interpolate co (curtime - VIEWLAG_CYCLES)) h
               else Some h)
             else Some h)
            (\<lambda>h. draw_loop co curtime g (ln_next n) h))))"

definition stage_game_draw :: "console \<Rightarrow> u64 \<Rightarrow> rt \<Rightarrow> rt option" where
  "stage_game_draw co t g = do {
     L \<leftarrow> hp_lists (rt_mem g) objects_getall;
     on_mem (draw_loop co (osGetTime t g) g (ll_head L)) g }"

definition stage_game_cleanup :: "rt \<Rightarrow> rt option" where
  "stage_game_cleanup g = do {
     g \<leftarrow> on_mem objects_destroyall g;
     g \<leftarrow> on_mem (\<lambda>h. Some (h\<lparr>rt_players := replicate MAXPLAYERS \<lparr>rp_connected = 0, rp_obj = None\<rparr>\<rparr>)) g;
     let g = put_text_rt [text_cleanup] g;
     g \<leftarrow> on_mem (list_destroy_deep (Some INPUTSTOACK)) g;
     on_mem (list_destroy_deep (Some INPUTSTOSEND)) g }"

section \<open>The program\<close>

definition stage_init_rt :: "console \<Rightarrow> nat \<Rightarrow> u64 \<Rightarrow> RtStage \<Rightarrow> rt \<Rightarrow> rt result option" where
  "stage_init_rt co n t s g = (case s of
      RT_INIT \<Rightarrow> stage_init_init_rt co n t g
    | RT_GAME \<Rightarrow> map_option Inr (stage_game_init_rt co t g)
    | RT_DISCONNECTED \<Rightarrow> Some (Inr (stage_disconnected_init_rt g))
    | RT_NONE \<Rightarrow> Some (Inl OutOfBounds))"

definition stage_update_rt :: "console \<Rightarrow> nat \<Rightarrow> u64 \<Rightarrow> f32 \<Rightarrow> ContData \<Rightarrow> RtStage \<Rightarrow> rt \<Rightarrow> rt result option" where
  "stage_update_rt co n t dt pad s g = (case s of
      RT_INIT \<Rightarrow> stage_init_update_rt co n t g
    | RT_GAME \<Rightarrow> stage_game_update_rt co n t dt pad g
    | RT_DISCONNECTED \<Rightarrow> Some (Inr (stage_disconnected_update_rt pad g))
    | RT_NONE \<Rightarrow> Some (Inl OutOfBounds))"

definition stage_cleanup_rt :: "RtStage \<Rightarrow> rt \<Rightarrow> rt result option" where
  "stage_cleanup_rt s g = (case s of
      RT_GAME \<Rightarrow> map_option Inr (stage_game_cleanup g)
    | RT_NONE \<Rightarrow> Some (Inl OutOfBounds)
    | _ \<Rightarrow> Some (Inr (put_text_rt [text_cleanup] g)))"

text \<open>No stage has a function for the fixed update, so its loop only takes the ticks off.\<close>

function drain :: "u64 \<Rightarrow> u64" where
  "drain acc = (if acc \<ge> TICK then drain (acc - TICK) else acc)"
  by pat_completeness auto

termination drain
  by (relation "measure unat") (auto simp: TICK_def OS_USEC_TO_CYCLES_def word_le_nat_alt unat_sub)

definition stage_draw_rt :: "console \<Rightarrow> u64 \<Rightarrow> RtStage \<Rightarrow> rt \<Rightarrow> rt option" where
  "stage_draw_rt co t s g = (if s = RT_GAME then stage_game_draw co t g else Some g)"

definition callback_vsync_rt :: "console \<Rightarrow> nat \<Rightarrow> u64 \<Rightarrow> ContData \<Rightarrow> int \<Rightarrow> rt \<Rightarrow> rt result option" where
  "callback_vsync_rt co n t pad tasksleft g =
     (let curtime = osGetTime t g;
          last = (if vsync_lastupdate g = 0 then curtime else vsync_lastupdate g);
          frametime = curtime - last
      in rob (poll_rt co n t (g\<lparr>vsync_lastupdate := curtime\<rparr>)) (\<lambda>g.
         let g = g\<lparr>vsync_accumulator := drain (vsync_accumulator g + frametime)\<rparr>
         in rob (stage_update_rt co n t (co_seconds co frametime) pad (rt_curstage g) g) (\<lambda>g.
              if tasksleft < 1 \<and> rt_nextstage g = RT_NONE
              then map_option Inr (stage_draw_rt co t (rt_curstage g) g) else Some (Inr g))))"

definition change_stage_rt :: "console \<Rightarrow> nat \<Rightarrow> u64 \<Rightarrow> rt \<Rightarrow> rt result option" where
  "change_stage_rt co n t g =
     rob (stage_cleanup_rt (rt_curstage g) g) (\<lambda>g.
       let g = g\<lparr>rt_curstage := rt_nextstage g, rt_nextstage := RT_NONE\<rparr>
       in stage_init_rt co n t (rt_curstage g) g)"

definition mainproc_start_rt ::
    "(nat option \<Rightarrow> nat option) \<Rightarrow> (u32 \<Rightarrow> u64) \<Rightarrow> usb \<Rightarrow> console \<Rightarrow> nat \<Rightarrow> u64 \<Rightarrow> rt \<Rightarrow> rt result option" where
  "mainproc_start_rt clobber to_cycles u co n t g =
     rob (Some (rbind (netcallback_initall_rt (netlib_initialize clobber u (g\<lparr>rt_mem := objects_initsystem (rt_mem g)\<rparr>)))
       (\<lambda>g. Inr (netlib_callback_disconnect to_cycles (1000 * 5) (Some 12) g))))
     (\<lambda>g. stage_init_rt co n t (rt_curstage g) g)"

end
