(* ===== verification/NL_RtPackets.thy ===== *)
theory NL_RtPackets
  imports NL_Realtime
begin

text \<open>
  What the Realtime game makes of the packets about objects: the parser of updates returns for
  every packet and applies what the server encodes, and the callbacks that create and update
  objects refine operations on the list of the level's objects.
\<close>

section \<open>Reading\<close>

lemma join_bytes:
  fixes w :: "'a :: len word"
  shows "push_bit 8 (drop_bit (n + 8) w) OR ucast (ucast (drop_bit n w) :: byte) = drop_bit n w"
proof (rule bit_word_eqI)
  fix m
  assume "m < LENGTH('a)"
  show "bit (push_bit 8 (drop_bit (n + 8) w) OR ucast (ucast (drop_bit n w) :: byte)) m = bit (drop_bit n w) m"
  proof (cases "m < 8")
    case True
    then show ?thesis using \<open>m < LENGTH('a)\<close> by (simp add: bit_simps)
  next
    case False
    then have "n + 8 + (m - 8) = n + m" by simp
    with False show ?thesis using \<open>m < LENGTH('a)\<close> by (auto simp add: bit_simps add.commute)
  qed
qed

lemma top_byte: "LENGTH('a) = n + 8 \<Longrightarrow> ucast (ucast (drop_bit n w) :: byte) = drop_bit n (w :: 'a :: len word)"
  by (rule bit_word_eqI) (auto simp: bit_simps dest: bit_imp_le_length)

lemma of_be32 [simp]: "of_be (be32 w) = (w :: u32)"
  using top_byte [where n = 24 and w = w] join_bytes [of 16 w] join_bytes [of 8 w] join_bytes [of 0 w]
  by (simp add: of_be_def be32_def)

lemma of_be64 [simp]: "of_be (be64 w) = (w :: u64)"
  using top_byte [where n = 56 and w = w] join_bytes [of 48 w] join_bytes [of 40 w] join_bytes [of 32 w]
    join_bytes [of 24 w] join_bytes [of 16 w] join_bytes [of 8 w] join_bytes [of 0 w]
  by (simp add: of_be_def be64_def)

text \<open>The state after reading up to \<open>rest\<close>.\<close>

definition upto_rest :: "byte list \<Rightarrow> 'a n64_scheme \<Rightarrow> 'a n64_scheme" where
  "upto_rest rest g = on_usb (\<lambda>u. u\<lparr>usb_dataleft := length rest\<rparr>) g"

lemma upto_rest_simps [simp]:
  fixes g :: rt
  shows "upto_rest r (upto_rest s g) = upto_rest r g" "rt_mem (upto_rest r g) = rt_mem g"
    "upto_rest r (g\<lparr>rt_mem := h\<rparr>) = (upto_rest r g)\<lparr>rt_mem := h\<rparr>"
    "osGetTime t (upto_rest r g) = osGetTime t g" "global_clnumber (upto_rest r g) = global_clnumber g"
  by (simp_all add: upto_rest_def on_usb_def osGetTime_def)

lemma usb_at_upto: "usb_at (n64_usb g) (xs @ rest) \<Longrightarrow> usb_at (n64_usb (upto_rest rest g)) rest"
  using usb_read_at [of "n64_usb g" xs rest] by (simp add: upto_rest_def on_usb_def)

lemma readbytes_at:
  assumes "usb_at (n64_usb g) (xs @ rest)" "length xs = n" "length old = n"
  shows "netlib_readbytes old n g = (xs, upto_rest rest g)"
  using usb_read_at [OF assms(1)] assms(2,3) by (simp add: netlib_readbytes_def upto_rest_def on_usb_def)

lemma read8_front: "usb_at (n64_usb g) (b # rest) \<Longrightarrow> read8 old g = (b, upto_rest rest g)"
  using readbytes_at [of g "[b]" rest 1 "[old]"] by (simp add: read8_def netlib_readbyte_def)

lemma read32_at: "usb_at (n64_usb g) (be32 w @ rest) \<Longrightarrow> read32 old g = (w, upto_rest rest g)"
  using readbytes_at [of g "be32 w" rest 4 "be32 old"] by (simp add: read32_def netlib_readdword_def)

lemma readf_at: "usb_at (n64_usb g) (be32 w @ rest) \<Longrightarrow> readf old g = (w, upto_rest rest g)"
  using readbytes_at [of g "be32 w" rest 4 "be32 old"] by (simp add: readf_def netlib_readfloat_def)

lemma read64_at: "usb_at (n64_usb g) (be64 w @ rest) \<Longrightarrow> read64 old g = (w, upto_rest rest g)"
  using readbytes_at [of g "be64 w" rest 8 "be64 old"] by (simp add: read64_def netlib_readqword_def)

definition vector_bytes :: "Vector2D \<Rightarrow> byte list" where
  "vector_bytes v = be32 (vx v) @ be32 (vy v)"

lemma read_vector_at:
  fixes g :: rt
  assumes "usb_at (n64_usb g) (vector_bytes v @ rest)"
  shows "read_vector old g = (v, upto_rest rest g)"
proof -
  have a: "usb_at (n64_usb g) (be32 (vx v) @ be32 (vy v) @ rest)" using assms by (simp add: vector_bytes_def)
  show ?thesis using readf_at [OF a, of "vx old"] readf_at [OF usb_at_upto [OF a], of "vy old"]
    by (simp add: read_vector_def)
qed

section \<open>Every update packet comes to an end\<close>

text \<open>What is left to read; a read takes from it, and leaves everything as it is when nothing is left.\<close>

definition unread :: "'a n64_scheme \<Rightarrow> nat" where
  "unread g = (if usb_cart (n64_usb g) = CART_NONE then 0 else usb_dataleft (n64_usb g))"

lemma unread_mem [simp]: "unread (g\<lparr>rt_mem := h\<rparr>) = unread g"
  by (simp add: unread_def)

lemma readbytes_unread:
  fixes g :: rt
  assumes "netlib_readbytes old n g = (bs, g')"
  shows "unread g' = unread g - n" "rt_mem g' = rt_mem g" "unread g = 0 \<Longrightarrow> bs = old \<and> g' = g"
  using assms by (auto simp: netlib_readbytes_def usb_read_def unread_def Let_def split: if_splits)

lemma read8_unread:
  fixes g :: rt
  assumes "read8 old g = (b, g')"
  shows "unread g' = unread g - 1" "rt_mem g' = rt_mem g" "unread g = 0 \<Longrightarrow> b = old \<and> g' = g"
  using assms readbytes_unread [of "[old]" 1 g] by (auto simp: read8_def netlib_readbyte_def split: prod.splits)

lemma readf_unread:
  fixes g :: rt
  assumes "readf old g = (v, g')"
  shows "unread g' \<le> unread g" "rt_mem g' = rt_mem g"
  using assms readbytes_unread(1,2) [of "be32 old" 4 g] by (auto simp: readf_def netlib_readfloat_def split: prod.splits)

lemma read_vector_unread:
  fixes g :: rt
  assumes "read_vector old g = (v, g')"
  shows "unread g' \<le> unread g" "rt_mem g' = rt_mem g"
  using assms readf_unread [of "vx old" g] readf_unread [of "vy old"]
  by (fastforce simp: read_vector_def split: prod.splits)+

lemma skip_unread:
  fixes g :: rt
  shows "unread (netlib_skipbytes n g) \<le> unread g" "rt_mem (netlib_skipbytes n g) = rt_mem g"
  by (auto simp: netlib_skipbytes_def usb_skip_def unread_def on_usb_def)

lemma update_member_unread:
  assumes "update_member ty ob g = (ob', g')"
  shows "unread g' \<le> unread g" "rt_mem g' = rt_mem g"
  using assms read_vector_unread [of _ g] readf_unread [of _ g]
  by (auto simp: update_member_def Let_def split: if_splits prod.splits)

text \<open>The pointer the parser works on: \<open>NULL\<close> or an object.\<close>

definition object_or_null :: "ptr \<Rightarrow> rt \<Rightarrow> bool" where
  "object_or_null p g \<longleftrightarrow> p = None \<or> get_object p (rt_mem g) \<noteq> None"

lemma get_object_upd [simp]:
  "get_object (Some a) (h\<lparr>hp_objects := N\<rparr>) = (if a \<in> hp_data h then N a else None)"
  by (simp add: get_object_def)

lemma get_object_live: "get_object (Some a) h = Some ob \<Longrightarrow> a \<in> hp_data h \<and> hp_objects h a = Some ob"
  by (simp add: get_object_def split: if_splits)

lemma read_into_object:
  assumes "get_object (Some a) (rt_mem g) = Some ob" "f ob g = (ob', g')" "rt_mem g' = rt_mem g"
  shows "read_into (Some a) f g = Some (g'\<lparr>rt_mem := (rt_mem g)\<lparr>hp_objects := (hp_objects (rt_mem g))(a \<mapsto> ob')\<rparr>\<rparr>)"
  using assms by (auto simp: read_into_def on_mem_def on_object_def)

lemma update_step:
  assumes "object_or_null p g"
  obtains g' where "(if p \<noteq> None then read_into p (update_member ty) g else Some (netlib_skipbytes (member_size ty) g)) = Some g'"
    "object_or_null p g'" "unread g' \<le> unread g"
proof (cases p)
  case None
  then show thesis using that skip_unread [of _ g] by (simp add: object_or_null_def)
next
  case (Some a)
  then obtain ob where ob: "get_object (Some a) (rt_mem g) = Some ob" using assms by (auto simp: object_or_null_def)
  obtain ob' g' where u: "update_member ty ob g = (ob', g')" by (cases "update_member ty ob g")
  note un = update_member_unread [OF u]
  show thesis using that read_into_object [where f = "update_member ty", OF ob u un(2)] un(1) get_object_live [OF ob] Some
    by (simp add: object_or_null_def)
qed

text \<open>With nothing left to read the size still shrinks by an odd number, and so meets 0.\<close>

lemma exhausted_returns:
  "unread g = 0 \<Longrightarrow> object_or_null p g \<Longrightarrow> sz = of_nat n * (1 + of_nat (member_size ty)) \<Longrightarrow>
    \<exists>g'. packet_readobjectupdate p ty sz g = Some g'"
proof (induction n arbitrary: sz g)
  case 0
  then show ?case by (subst packet_readobjectupdate.simps) simp
next
  case (Suc n)
  have r: "read8 ty g = (ty, g)" using Suc.prems(1) read8_unread(3) by (cases "read8 ty g") auto
  have d: "sz - 1 - of_nat (member_size ty) = of_nat n * (1 + of_nat (member_size ty))"
    using Suc.prems(3) by (simp add: algebra_simps)
  show ?case
  proof (cases "sz = 0")
    case True
    then show ?thesis by (subst packet_readobjectupdate.simps) simp
  next
    case False
    show ?thesis
    proof (cases "ty \<le> 3")
      case True
      obtain g' where g': "(if p \<noteq> None then read_into p (update_member ty) g else Some (netlib_skipbytes (member_size ty) g)) = Some g'"
        "object_or_null p g'" "unread g' \<le> unread g" using update_step [OF Suc.prems(2)] by blast
      show ?thesis using Suc.IH [OF _ g'(2) d] Suc.prems(1) False True r g'
        by (subst packet_readobjectupdate.simps) (simp add: Let_def)
    next
      case big: False
      then have "member_size ty = 0" by (auto simp: member_size_def word_le_nat_alt)
      then show ?thesis using Suc.IH [OF Suc.prems(1,2) d] False big r
        by (subst packet_readobjectupdate.simps) (simp add: Let_def)
    qed
  qed
qed

lemma odd_size_reaches_zero: "\<exists>n. sz = of_nat n * (1 + of_nat (member_size ty) :: byte)"
proof -
  define s where "s = (1 + of_nat (member_size ty) :: byte)"
  have "s = 9 \<or> s = 5 \<or> s = 1" by (auto simp: s_def member_size_def)
  then have "\<exists>i :: byte. i * s = 1"
    by (elim disjE) (rule exI [of _ 57] exI [of _ 205] exI [of _ 1], simp)+
  then obtain i :: byte where "i * s = 1" by blast
  then have "of_nat (unat (sz * i)) * s = sz" by (simp add: mult.assoc)
  then show ?thesis unfolding s_def by metis
qed

text \<open>C12: 
  The parser of an update returns for every packet, every size and whatever was on the stack,
  though a size that does not fit the members wraps round and the packet may have been used up.
\<close>

theorem objectupdate_returns:
  assumes "object_or_null p g"
  shows "\<exists>g'. packet_readobjectupdate p ty sz g = Some g'"
  using assms
proof (induction "unread g" arbitrary: g ty sz rule: less_induct)
  case less
  show ?case
  proof (cases "unread g = 0")
    case True
    then show ?thesis using exhausted_returns [OF True less.prems] odd_size_reaches_zero by blast
  next
    case more: False
    show ?thesis
    proof (cases "sz = 0")
      case True
      then show ?thesis by (subst packet_readobjectupdate.simps) simp
    next
      case False
      obtain ty' g1 where r: "read8 ty g = (ty', g1)" by (cases "read8 ty g")
      note u = read8_unread(1,2) [OF r]
      have o1: "object_or_null p g1" using less.prems u(2) by (simp add: object_or_null_def)
      obtain g' where g': "(if p \<noteq> None then read_into p (update_member ty') g1 else Some (netlib_skipbytes (member_size ty') g1)) = Some g'"
        "object_or_null p g'" "unread g' \<le> unread g1" using update_step [OF o1] by blast
      have "unread g1 < unread g" "unread g' < unread g" using u(1) more g'(3) by auto
      then show ?thesis using less.hyps [OF _ o1] less.hyps [OF _ g'(2)] False r g'(1)
        by (subst packet_readobjectupdate.simps) (simp add: Let_def)
    qed
  qed
qed


section \<open>What an update packet does\<close>

text \<open>What the server encodes in an update, and its effect on an object.\<close>

datatype member_update = UPos Vector2D | UDir Vector2D | USize Vector2D | USpeed f32

fun update_bytes :: "member_update \<Rightarrow> byte list" where
  "update_bytes (UPos v) = 0 # vector_bytes v"
| "update_bytes (UDir v) = 1 # vector_bytes v"
| "update_bytes (USize v) = 2 # vector_bytes v"
| "update_bytes (USpeed f) = 3 # be32 f"

definition updates_bytes :: "member_update list \<Rightarrow> byte list" where
  "updates_bytes us = concat (map update_bytes us)"

fun apply_update :: "member_update \<Rightarrow> Transform \<Rightarrow> Transform" where
  "apply_update (UPos v) s = s\<lparr>tr_pos := v\<rparr>"
| "apply_update (UDir v) s = s\<lparr>tr_dir := v\<rparr>"
| "apply_update (USize v) s = s\<lparr>tr_size := v\<rparr>"
| "apply_update (USpeed f) s = s\<lparr>tr_speed := f\<rparr>"

definition with_server :: "(Transform \<Rightarrow> Transform) \<Rightarrow> GameObject \<Rightarrow> GameObject" where
  "with_server f ob = ob\<lparr>sv_trans := f (sv_trans ob)\<rparr>"

definition set_object :: "ptr \<Rightarrow> (GameObject \<Rightarrow> GameObject) \<Rightarrow> rt \<Rightarrow> rt" where
  "set_object p f g = (case p of None \<Rightarrow> g
     | Some a \<Rightarrow> g\<lparr>rt_mem := (rt_mem g)\<lparr>hp_objects := (hp_objects (rt_mem g))(a \<mapsto> f (the (hp_objects (rt_mem g) a)))\<rparr>\<rparr>)"

lemma length_vector_bytes [simp]: "length (vector_bytes v) = 8"
  by (simp add: vector_bytes_def)

lemma update_bytes_split:
  obtains ty bs where "update_bytes u = ty # bs" "ty \<le> 3" "length bs = member_size ty"
  by (cases u) (auto simp: member_size_def)

lemma update_member_at:
  assumes "update_bytes u = ty # bs" "usb_at (n64_usb g) (bs @ rest)"
  shows "update_member ty ob g = (with_server (apply_update u) ob, upto_rest rest g)"
  using assms read_vector_at [of g _ rest] readf_at [of g _ rest]
  by (cases u) (auto simp: update_member_def with_server_def Let_def)

lemma skip_at:
  assumes "usb_at (n64_usb g) (bs @ rest)" "length bs = n"
  shows "netlib_skipbytes n g = upto_rest rest g"
  using assms by (auto simp: netlib_skipbytes_def upto_rest_def on_usb_def usb_skip_def usb_at_def)

lemma set_object_simps [simp]:
  "n64_usb (set_object p f g) = n64_usb g" "upto_rest r (set_object p f g) = set_object p f (upto_rest r g)"
  "osGetTime t (set_object p f g) = osGetTime t g" "unread (set_object p f g) = unread g"
  by (auto simp: set_object_def osGetTime_def unread_def split: option.splits)

lemma set_object_id: "object_or_null p g \<Longrightarrow> set_object p (\<lambda>ob. ob) g = g"
proof (cases p)
  case (Some a)
  moreover assume "object_or_null p g"
  ultimately obtain ob where "hp_objects (rt_mem g) a = Some ob"
    by (auto simp: object_or_null_def dest: get_object_live)
  then show ?thesis using Some by (simp add: set_object_def map_upd_triv)
qed (simp add: set_object_def)

lemma set_object_comp [simp]: "set_object p f (set_object p h g) = set_object p (f \<circ> h) g"
  by (simp add: set_object_def split: option.splits)

lemma object_or_null_set [simp]:
  "object_or_null p g \<Longrightarrow> object_or_null p (set_object p f g)"
  "object_or_null p (upto_rest r g) = object_or_null p g"
  by (auto simp: set_object_def object_or_null_def get_object_def split: option.splits if_splits)

lemma step_at:
  assumes "object_or_null p g" "update_bytes u = ty # bs" "usb_at (n64_usb g) (bs @ rest)"
  shows "(if p \<noteq> None then read_into p (update_member ty) g else Some (netlib_skipbytes (member_size ty) g)) =
    Some (set_object p (with_server (apply_update u)) (upto_rest rest g))"
proof (cases p)
  case None
  have "length bs = member_size ty" using update_bytes_split [of u] assms(2) by auto
  then show ?thesis using None skip_at [OF assms(3)] by (simp add: set_object_def)
next
  case (Some a)
  then obtain ob where ob: "get_object (Some a) (rt_mem g) = Some ob" using assms(1) by (auto simp: object_or_null_def)
  show ?thesis using Some get_object_live [OF ob] read_into_object [where f = "update_member ty", OF ob update_member_at [OF assms(2,3)]]
    by (simp add: set_object_def)
qed

text \<open>
  The parser applies the updates in the order of the packet and leaves what follows them; without
  an object it reads over them.
\<close>

theorem objectupdate_applies:
  assumes "object_or_null p g" "usb_at (n64_usb g) (updates_bytes us @ rest)" "length (updates_bytes us) < 256"
  shows "packet_readobjectupdate p ty (of_nat (length (updates_bytes us))) g =
    Some (set_object p (with_server (fold apply_update us)) (upto_rest rest g))"
  using assms
proof (induction us arbitrary: ty g)
  case Nil
  have "upto_rest rest g = g" using Nil.prems(2) by (simp add: updates_bytes_def upto_rest_def on_usb_def usb_at_def)
  moreover have "with_server (fold apply_update []) = (\<lambda>ob. ob)" by (simp add: with_server_def id_def fun_eq_iff)
  ultimately show ?case using set_object_id [OF Nil.prems(1)]
    by (subst packet_readobjectupdate.simps) (simp add: updates_bytes_def)
next
  case (Cons u us)
  obtain ty' bs where u: "update_bytes u = ty' # bs" "ty' \<le> 3" "length bs = member_size ty'"
    by (rule update_bytes_split)
  have at: "usb_at (n64_usb g) (ty' # (bs @ updates_bytes us @ rest))" using Cons.prems(2) u(1) by (simp add: updates_bytes_def)
  let ?g1 = "upto_rest (bs @ updates_bytes us @ rest) g"
  have at1: "usb_at (n64_usb ?g1) (bs @ updates_bytes us @ rest)" using usb_at_upto [of g "[ty']"] at by simp
  let ?g2 = "set_object p (with_server (apply_update u)) (upto_rest (updates_bytes us @ rest) g)"
  have st: "(if p \<noteq> None then read_into p (update_member ty') ?g1 else Some (netlib_skipbytes (member_size ty') ?g1)) = Some ?g2"
    using step_at [OF _ u(1) at1] Cons.prems(1) by simp
  have at2: "usb_at (n64_usb ?g2) (updates_bytes us @ rest)" using usb_at_upto [OF at1] by simp
  have len: "length (updates_bytes (u # us)) = Suc (member_size ty' + length (updates_bytes us))"
    using u(1,3) by (simp add: updates_bytes_def)
  have "unat (of_nat (length (updates_bytes (u # us))) :: byte) = length (updates_bytes (u # us))"
    using Cons.prems(3) by (simp add: unat_of_nat)
  then have nz: "(of_nat (length (updates_bytes (u # us))) :: byte) \<noteq> 0" using len by (metis nat.distinct(1) unat_0)
  have sz: "of_nat (length (updates_bytes (u # us))) - 1 - of_nat (member_size ty') = (of_nat (length (updates_bytes us)) :: byte)"
    by (simp add: len)
  have "packet_readobjectupdate p ty (of_nat (length (updates_bytes (u # us)))) g =
      packet_readobjectupdate p ty' (of_nat (length (updates_bytes us))) ?g2"
    using st u(2) read8_front [OF at, of ty] nz sz
    by (subst packet_readobjectupdate.simps) (simp add: Let_def del: of_nat_Suc)
  also have "\<dots> = Some (set_object p (with_server (fold apply_update us)) (upto_rest rest ?g2))"
    using Cons.IH [OF _ at2] Cons.prems(1,3) len by simp
  also have "\<dots> = Some (set_object p (with_server (fold apply_update us) \<circ> with_server (apply_update u)) (upto_rest rest g))"
    by simp
  also have "with_server (fold apply_update us) \<circ> with_server (apply_update u) = with_server (fold apply_update (u # us))"
    by (auto simp: with_server_def)
  finally show ?case .
qed


section \<open>Updates of the level's objects\<close>

text \<open>What an update of an object with the server's time amounts to.\<close>

definition finish :: "u64 \<Rightarrow> member_update list \<Rightarrow> GameObject \<Rightarrow> GameObject" where
  "finish time us ob = sync_object (with_server (\<lambda>s. s\<lparr>tr_timestamp := time\<rparr>)
     (with_server (fold apply_update us) (push_old ob)))"

lemma on_mem_object:
  assumes "object_or_null p g"
  shows "p \<noteq> None \<Longrightarrow> on_mem (on_object p f) g = Some (set_object p f g)"
    "on_mem (objects_pusholdtransforms p) g = Some (set_object p push_old g)"
    "on_mem (objects_synctransforms p) g = Some (set_object p sync_object g)"
proof -
  have o: "on_mem (on_object p f) g = Some (set_object p f g)" if pn: "p \<noteq> None" for f
  proof -
    obtain a ob where "p = Some a" "get_object (Some a) (rt_mem g) = Some ob"
      using assms pn by (auto simp: object_or_null_def)
    then show ?thesis using get_object_live [of a "rt_mem g" ob] by (simp add: on_mem_def on_object_def set_object_def)
  qed
  show "p \<noteq> None \<Longrightarrow> on_mem (on_object p f) g = Some (set_object p f g)" by (rule o)
  have n: "on_mem (\<lambda>h. Some h) g = Some (set_object None f g)" for f
    by (simp add: on_mem_def set_object_def)
  show "on_mem (objects_pusholdtransforms p) g = Some (set_object p push_old g)"
  proof (cases p)
    case None
    then show ?thesis using n by (simp add: objects_pusholdtransforms_def [abs_def])
  next
    case (Some a)
    then show ?thesis using o [of push_old] by (simp add: objects_pusholdtransforms_def [abs_def])
  qed
  show "on_mem (objects_synctransforms p) g = Some (set_object p sync_object g)"
  proof (cases p)
    case None
    then show ?thesis using n by (simp add: objects_synctransforms_def [abs_def])
  next
    case (Some a)
    then show ?thesis using o [of sync_object] by (simp add: objects_synctransforms_def [abs_def])
  qed
qed

lemma update_object_at:
  assumes "object_or_null p g" "usb_at (n64_usb g) (updates_bytes us @ rest)" "length (updates_bytes us) < 256"
  shows "update_object co time p (of_nat (length (updates_bytes us))) g =
    Some (set_object p (finish time us) (upto_rest rest g))"
proof -
  let ?g1 = "set_object p push_old g"
  have a: "packet_readobjectupdate p (co_stk co) (of_nat (length (updates_bytes us))) ?g1 =
      Some (set_object p (with_server (fold apply_update us)) (upto_rest rest ?g1))"
    using objectupdate_applies [of p ?g1 us rest] assms by simp
  have f: "finish time us = sync_object \<circ> (with_server (\<lambda>s. s\<lparr>tr_timestamp := time\<rparr>) \<circ> (with_server (fold apply_update us) \<circ> push_old))"
    by (simp add: finish_def fun_eq_iff)
  show ?thesis
  proof (cases "p = None")
    case True
    then show ?thesis using a on_mem_object(2) [OF assms(1)] by (simp add: update_object_def set_object_def)
  next
    case False
    have "(\<lambda>ob. ob\<lparr>sv_trans := (sv_trans ob)\<lparr>tr_timestamp := time\<rparr>\<rparr>) = with_server (\<lambda>s. s\<lparr>tr_timestamp := time\<rparr>)"
      by (simp add: with_server_def fun_eq_iff)
    then show ?thesis using False a assms(1) on_mem_object
      by (simp add: update_object_def f comp_assoc)
  qed
qed

text \<open>The first object with a number in a list of objects.\<close>

fun update_first :: "u32 \<Rightarrow> (GameObject \<Rightarrow> GameObject) \<Rightarrow> (nat \<times> GameObject) list \<Rightarrow> (nat \<times> GameObject) list" where
  "update_first i f [] = []"
| "update_first i f ((d, ob) # obs) = (if go_id ob = i then (d, f ob) # obs else (d, ob) # update_first i f obs)"

lemma object_list_upd:
  "a \<notin> set ds \<Longrightarrow> object_list (h\<lparr>hp_objects := (hp_objects h)(a \<mapsto> ob)\<rparr>) ds = object_list h ds"
  by (auto simp: object_list_def)

lemma object_list_update_first:
  "distinct ds \<Longrightarrow> map_option fst (find (\<lambda>(_, ob). go_id ob = i) (object_list h ds)) = Some a \<Longrightarrow>
    object_list (h\<lparr>hp_objects := (hp_objects h)(a \<mapsto> f (the (hp_objects h a)))\<rparr>) ds = update_first i f (object_list h ds)"
proof (induction ds)
  case (Cons d ds)
  show ?case
  proof (cases "go_id (the (hp_objects h d)) = i")
    case True
    then have "a = d" using Cons.prems(2) by (simp add: object_list_def)
    then show ?thesis using True Cons.prems(1) object_list_upd [of d ds h] by (simp add: object_list_def)
  next
    case False
    then have f: "map_option fst (find (\<lambda>(_, ob). go_id ob = i) (object_list h ds)) = Some a"
      using Cons.prems(2) by (simp add: object_list_def)
    then have "a \<in> set ds" by (auto simp: object_list_def find_Some_iff)
    then show ?thesis using False Cons f by (auto simp: object_list_def)
  qed
qed (simp add: object_list_def)

lemma update_first_absent:
  "find (\<lambda>(_, ob). go_id ob = i) obs = None \<Longrightarrow> update_first i f obs = obs"
  by (induction i f obs rule: update_first.induct) (auto split: if_splits)

lemma level_upd:
  assumes "level h as ds"
  shows "level (h\<lparr>hp_objects := (hp_objects h)(a \<mapsto> ob)\<rparr>) as ds"
  using assms by (auto simp: level_def holds_def is_list_def)

text \<open>An operation on the object found by its number is one on the list of objects.\<close>

lemma found_object:
  assumes "level (rt_mem g) as ds"
  obtains p where "objects_findbyid i (rt_mem g) = Some p" "object_or_null p g"
    "level (rt_mem (set_object p f g)) as ds" "p = None \<longleftrightarrow> find (\<lambda>(_, ob). go_id ob = i) (object_list (rt_mem g) ds) = None"
    "object_list (rt_mem (set_object p f g)) ds = update_first i f (object_list (rt_mem g) ds)"
    "\<exists>H. rt_mem (set_object p f g) = (rt_mem g)\<lparr>hp_objects := H\<rparr>"
proof -
  let ?p = "map_option fst (find (\<lambda>(_, ob). go_id ob = i) (object_list (rt_mem g) ds))"
  have d: "distinct ds" "\<forall>d\<in>set ds. d \<in> hp_data (rt_mem g) \<and> hp_objects (rt_mem g) d \<noteq> None"
    using assms by (auto simp: level_def holds_def)
  have e: "\<exists>H. rt_mem g = (rt_mem g)\<lparr>hp_objects := H\<rparr>" by (rule exI [of _ "hp_objects (rt_mem g)"]) simp
  show thesis
  proof (cases ?p)
    case None
    then show thesis using that [of None] findbyid_finds_first [OF assms, of i] assms update_first_absent [of i _ f] e
      by (simp add: set_object_def object_or_null_def)
  next
    case (Some a)
    then have "a \<in> set ds" by (auto simp: object_list_def find_Some_iff)
    then have "object_or_null (Some a) g" using d(2) by (auto simp: object_or_null_def get_object_def)
    then show thesis using that [of "Some a"] findbyid_finds_first [OF assms, of i] Some level_upd [OF assms]
        object_list_update_first [OF d(1) Some, of f]
      by (auto simp: set_object_def)
  qed
qed

definition object_bytes :: "u32 \<times> member_update list \<Rightarrow> byte list" where
  "object_bytes = (\<lambda>(i, us). be32 i @ of_nat (length (updates_bytes us)) # updates_bytes us)"

lemma update_objects_at:
  assumes "level (rt_mem g) as ds" "usb_at (n64_usb g) (concat (map object_bytes os))"
    and "\<forall>(i, us)\<in>set os. length (updates_bytes us) < 256"
  shows "\<exists>g'. update_objects co ctime (length os) g = Some g' \<and> level (rt_mem g') as ds \<and>
    object_list (rt_mem g') ds = fold (\<lambda>(i, us). update_first i (finish ctime us)) os (object_list (rt_mem g) ds) \<and>
    (\<exists>H. rt_mem g' = (rt_mem g)\<lparr>hp_objects := H\<rparr>) \<and> usb_at (n64_usb g') []"
  using assms
proof (induction os arbitrary: g)
  case Nil
  then show ?case by (auto intro: exI [of _ "hp_objects (rt_mem g)"])
next
  case (Cons x os)
  obtain i us where x: "x = (i, us)" by (cases x)
  let ?r = "concat (map object_bytes os)" and ?n = "of_nat (length (updates_bytes us)) :: byte"
  have at: "usb_at (n64_usb g) (be32 i @ ?n # updates_bytes us @ ?r)" using Cons.prems(2) by (simp add: x object_bytes_def)
  let ?g1 = "upto_rest (?n # updates_bytes us @ ?r) g"
  have at1: "usb_at (n64_usb ?g1) (?n # updates_bytes us @ ?r)" using usb_at_upto [OF at] .
  let ?g2 = "upto_rest (updates_bytes us @ ?r) g"
  have at2: "usb_at (n64_usb ?g2) (updates_bytes us @ ?r)" using usb_at_upto [of ?g1 "[?n]"] at1 by simp
  have l2: "level (rt_mem ?g2) as ds" using Cons.prems(1) by simp
  obtain p where p: "objects_findbyid i (rt_mem ?g2) = Some p" "object_or_null p ?g2"
    "level (rt_mem (set_object p (finish ctime us) ?g2)) as ds"
    "object_list (rt_mem (set_object p (finish ctime us) ?g2)) ds = update_first i (finish ctime us) (object_list (rt_mem ?g2) ds)"
    "\<exists>H. rt_mem (set_object p (finish ctime us) ?g2) = (rt_mem ?g2)\<lparr>hp_objects := H\<rparr>"
    using found_object [OF l2, of i "finish ctime us"] by metis
  let ?g3 = "set_object p (finish ctime us) (upto_rest ?r g)"
  have u: "update_object co ctime p ?n ?g2 = Some ?g3"
    using update_object_at [OF p(2) at2] Cons.prems(3) x by simp
  have at3: "usb_at (n64_usb ?g3) ?r" using usb_at_upto [OF at2] by simp
  have m: "rt_mem ?g3 = rt_mem (set_object p (finish ctime us) ?g2)"
    by (simp add: set_object_def split: option.splits)
  obtain g' where g': "update_objects co ctime (length os) ?g3 = Some g'" "level (rt_mem g') as ds"
    "object_list (rt_mem g') ds = fold (\<lambda>(i, us). update_first i (finish ctime us)) os (object_list (rt_mem ?g3) ds)"
    "\<exists>H. rt_mem g' = (rt_mem ?g3)\<lparr>hp_objects := H\<rparr>" "usb_at (n64_usb g') []"
    using Cons.IH [of ?g3] p(3) m at3 Cons.prems(3) by auto
  have s: "update_objects co ctime (length (x # os)) g = update_objects co ctime (length os) ?g3"
    using read32_at [OF at, of "junk32 co"] read8_front [OF at1, of "co_stk co"] p(1) u by simp
  show ?case unfolding s using g' m p(4,5) x by auto
qed

text \<open>C6: 
  An update packet refines an update of the list of objects: each encoded object that is known is
  moved on by its members and the time of the packet, in the order of the packet, and the packet
  is read to its end.
\<close>

theorem updateobject_refines:
  assumes "level (rt_mem g) as ds"
    and "usb_at (n64_usb g) (of_nat (length os) # be64 time @ concat (map object_bytes os))"
    and "length os < 256" "\<forall>(i, us)\<in>set os. length (updates_bytes us) < 256"
  shows "\<exists>g'. netcallback_updateobject co g = Some g' \<and> level (rt_mem g') as ds \<and>
    object_list (rt_mem g') ds =
      fold (\<lambda>(i, us). update_first i (finish (OS_NSEC_TO_CYCLES time) us)) os (object_list (rt_mem g) ds) \<and>
    (\<exists>H. rt_mem g' = (rt_mem g)\<lparr>hp_objects := H\<rparr>) \<and> usb_at (n64_usb g') []"
proof -
  let ?r = "concat (map object_bytes os)"
  let ?g1 = "upto_rest (be64 time @ ?r) g" and ?g2 = "upto_rest ?r g"
  have at1: "usb_at (n64_usb ?g1) (be64 time @ ?r)" using usb_at_upto [of g "[of_nat (length os)]"] assms(2) by simp
  have at2: "usb_at (n64_usb ?g2) ?r" using usb_at_upto [OF at1] by simp
  have n: "unat (of_nat (length os) :: byte) = length os" using assms(3) by (simp add: unat_of_nat)
  have "netcallback_updateobject co g = update_objects co (OS_NSEC_TO_CYCLES time) (length os) ?g2"
    using read8_front [OF assms(2), of "co_stk co"] read64_at [OF at1, of "junk64 co"] n
    by (simp add: netcallback_updateobject_def)
  then show ?thesis using update_objects_at [of ?g2 as ds os co "OS_NSEC_TO_CYCLES time"] assms(1,4) at2 by simp
qed

section \<open>Creating objects\<close>

text \<open>What the server encodes of a whole object: its transform without the time, and whether it bounces.\<close>

definition whole_bytes :: "Transform \<times> byte \<Rightarrow> byte list" where
  "whole_bytes = (\<lambda>(s, b). vector_bytes (tr_pos s) @ vector_bytes (tr_dir s) @ vector_bytes (tr_size s) @
     be32 (tr_speed s) @ [b, col_r (tr_col s), col_g (tr_col s), col_b (tr_col s)])"

definition members_of :: "Transform \<times> byte \<Rightarrow> u64 \<Rightarrow> GameObject \<Rightarrow> GameObject" where
  "members_of = (\<lambda>(s, b) time ob. ob\<lparr>sv_trans := s\<lparr>tr_timestamp := time,
       tr_col := (tr_col s)\<lparr>col_a := col_a (tr_col (sv_trans ob))\<rparr>\<rparr>, go_bounce := b,
     old_trans := map (\<lambda>(i, tr). if i < TICKSTOKEEP - 1 then tr\<lparr>tr_timestamp := 0\<rparr> else tr)
       (zip [0..<length (old_trans ob)] (old_trans ob))\<rparr>)"

lemma object_members_at:
  assumes "usb_at (n64_usb g) (whole_bytes w @ rest)"
  shows "object_members t ob g = (members_of w (osGetTime t g) ob, upto_rest rest g)"
proof -
  obtain s b where w: "w = (s, b)" by (cases w)
  let ?c = "[b, col_r (tr_col s), col_g (tr_col s), col_b (tr_col s)] @ rest"
  have a0: "usb_at (n64_usb g) (vector_bytes (tr_pos s) @ vector_bytes (tr_dir s) @ vector_bytes (tr_size s) @ be32 (tr_speed s) @ ?c)"
    using assms by (simp add: w whole_bytes_def)
  note a1 = usb_at_upto [OF a0]
  note a2 = usb_at_upto [OF a1, simplified]
  note a3 = usb_at_upto [OF a2, simplified]
  note a4 = usb_at_upto [OF a3, simplified]
  note a5 = usb_at_upto [of _ "[b]", simplified, OF a4, simplified]
  note a6 = usb_at_upto [of _ "[col_r (tr_col s)]", simplified, OF a5, simplified]
  note a7 = usb_at_upto [of _ "[col_g (tr_col s)]", simplified, OF a6, simplified]
  show ?thesis
    using read_vector_at [OF a0] read_vector_at [OF a1] read_vector_at [OF a2] readf_at [OF a3]
      read8_front [OF a4] read8_front [OF a5] read8_front [OF a6] read8_front [OF a7]
    by (simp add: object_members_def members_of_def w Let_def)
qed

lemma read_members_at:
  assumes "object_or_null (Some a) g" "usb_at (n64_usb g) (whole_bytes w @ rest)"
  shows "Option.bind (read_into (Some a) (object_members t) g) (on_mem (objects_synctransforms (Some a))) =
    Some (set_object (Some a) (sync_object \<circ> members_of w (osGetTime t g)) (upto_rest rest g))"
proof -
  obtain ob where ob: "get_object (Some a) (rt_mem g) = Some ob" using assms(1) by (auto simp: object_or_null_def)
  let ?g = "set_object (Some a) (members_of w (osGetTime t g)) (upto_rest rest g)"
  have "read_into (Some a) (object_members t) g = Some ?g"
    using read_into_object [where f = "object_members t", OF ob object_members_at [OF assms(2)]] get_object_live [OF ob]
    by (simp add: set_object_def)
  moreover have "object_or_null (Some a) ?g" using assms(1) by simp
  ultimately show ?thesis using on_mem_object(3) [of "Some a" ?g] by simp
qed

text \<open>C7: 
  A packet with a whole object refines an update of the list of objects: the object with its
  number is overwritten where it stands, and if there is none a new one is added at the end.
\<close>

theorem readobject_refines:
  assumes "level (rt_mem g) as ds" "usb_at (n64_usb g) (be32 i @ whole_bytes w @ rest)"
    and "allocator_ok (co_alloc co)" "al_node (co_alloc co) (hp_nodes (rt_mem g)) = Some a"
    "al_data (co_alloc co) (hp_data (rt_mem g)) = Some d"
  shows "let obs = object_list (rt_mem g) ds; F = sync_object \<circ> members_of w (osGetTime t g) in
    \<exists>p g' as' ds'. packet_readobject co t g = Some (Some p, g') \<and> level (rt_mem g') as' ds' \<and>
      usb_at (n64_usb g') rest \<and>
      object_list (rt_mem g') ds' =
        (if find (\<lambda>(_, ob). go_id ob = i) obs = None then obs @ [(d, F ((al_object (co_alloc co))\<lparr>go_id := i\<rparr>))]
         else update_first i F obs)"
proof -
  let ?obs = "object_list (rt_mem g) ds" and ?F = "sync_object \<circ> members_of w (osGetTime t g)"
  let ?g1 = "upto_rest (whole_bytes w @ rest) g"
  have at1: "usb_at (n64_usb ?g1) (whole_bytes w @ rest)" using usb_at_upto [OF assms(2)] .
  have fin: "usb_at (n64_usb (upto_rest rest g)) rest" using usb_at_upto [OF at1] by simp
  have l1: "level (rt_mem ?g1) as ds" using assms(1) by simp
  obtain p where p: "objects_findbyid i (rt_mem ?g1) = Some p" "object_or_null p ?g1"
    "level (rt_mem (set_object p ?F ?g1)) as ds" "p = None \<longleftrightarrow> find (\<lambda>(_, ob). go_id ob = i) (object_list (rt_mem ?g1) ds) = None"
    "object_list (rt_mem (set_object p ?F ?g1)) ds = update_first i ?F (object_list (rt_mem ?g1) ds)"
    using found_object [OF l1, of i ?F] by metis
  show ?thesis
  proof (cases p)
    case (Some b)
    let ?g2 = "set_object (Some b) ?F (upto_rest rest g)"
    have "packet_readobject co t g = Some (Some b, ?g2)"
      using read32_at [OF assms(2), of "junk32 co"] p(1,2) Some read_members_at [of b ?g1 w rest t] at1
      by (simp add: packet_readobject_def bind_eq_Some_conv)
    moreover have "rt_mem ?g2 = rt_mem (set_object p ?F ?g1)" by (simp add: Some set_object_def)
    ultimately show ?thesis using p(3-5) Some fin by (auto simp: Let_def)
  next
    case None
    obtain h where h: "objects_create (co_alloc co) (rt_mem ?g1) = Some (Some d, h)" "level h (as @ [a]) (ds @ [d])" "d \<notin> set ds"
      "object_list h (ds @ [d]) = ?obs @ [(d, al_object (co_alloc co))]"
      using create_appends [OF assms(3) l1, of a d] assms(4,5) by auto
    let ?k = "?g1\<lparr>rt_mem := h\<rparr>" and ?id = "\<lambda>ob. ob\<lparr>go_id := i\<rparr>"
    have ok: "object_or_null (Some d) ?k" using h(2) by (auto simp: object_or_null_def get_object_def level_def holds_def)
    then obtain ob where ob: "get_object (Some d) h = Some ob" by (auto simp: object_or_null_def)
    have k: "on_object (Some d) ?id h = Some (rt_mem (set_object (Some d) ?id ?k))"
      using ob get_object_live [OF ob] by (simp add: on_object_def set_object_def)
    let ?g2 = "set_object (Some d) ?id ?k" and ?g3 = "set_object (Some d) (?F \<circ> ?id) ((upto_rest rest g)\<lparr>rt_mem := h\<rparr>)"
    have g2: "?g1\<lparr>rt_mem := rt_mem ?g2\<rparr> = ?g2" by (simp add: set_object_def)
    have "osGetTime t (k\<lparr>rt_mem := h\<rparr>) = osGetTime t k" for k by (simp add: osGetTime_def)
    then have "packet_readobject co t g = Some (Some d, ?g3)"
      using read32_at [OF assms(2), of "junk32 co"] p(1) None h(1) k g2 read_members_at [of d ?g2 w rest t] ok at1
      by (simp add: packet_readobject_def bind_eq_Some_conv)
    moreover have "level (rt_mem ?g3) (as @ [a]) (ds @ [d])" using level_upd [OF h(2)] by (simp add: set_object_def)
    moreover have "object_list (rt_mem ?g3) (ds @ [d]) = ?obs @ [(d, (?F \<circ> ?id) (al_object (co_alloc co)))]"
      using h(3,4) object_list_upd [of d ds h] by (simp add: set_object_def object_list_def)
    moreover have "usb_at (n64_usb ?g3) rest" using fin by simp
    ultimately show ?thesis using None p(4) by (auto simp: Let_def)
  qed
qed

end
