(* ===== verification/NL_RtRun.thy ===== *)
theory NL_RtRun
  imports NL_RtPackets
begin

text \<open>
  The inputs of the Realtime game and its stages: what acknowledging, keeping and sending inputs
  make of the two buffers, how the modes depend on each other, what synchronising the clock does
  with one packet too many, and that the game stage cannot be left while there is an object.
\<close>

section \<open>Buffered inputs\<close>

text \<open>A buffer is a list that owns inputs.\<close>

definition buffer :: "rheap \<Rightarrow> nat \<Rightarrow> nat list \<Rightarrow> nat list \<Rightarrow> bool" where
  "buffer h l as ds \<longleftrightarrow> holds h l as ds \<and> (\<forall>d\<in>set ds. hp_inputs h d \<noteq> None)"

definition inputs_of :: "rheap \<Rightarrow> nat list \<Rightarrow> InputToAck list" where
  "inputs_of h ds = map (\<lambda>d. the (hp_inputs h d)) ds"

text \<open>The blocks of a buffer with the inputs after a time.\<close>

definition unacked :: "u64 \<Rightarrow> rheap \<Rightarrow> nat list \<Rightarrow> nat list" where
  "unacked t h ds = filter (\<lambda>d. t < in_time (the (hp_inputs h d))) ds"

definition reapply :: "fpu \<Rightarrow> InputToAck \<Rightarrow> GameObject \<Rightarrow> GameObject" where
  "reapply fp i ob = applyphys fp (in_dt i) (applycont fp (in_contdata i) ob)"

lemma holds_upd_objects [simp]: "holds (h\<lparr>hp_objects := N\<rparr>) l as ds = holds h l as ds"
  by (simp add: holds_def is_list_def)

lemma player_upd [simp]: "player n (h\<lparr>hp_objects := N\<rparr>) = player n h"
  by (simp add: player_def Let_def)

section \<open>Acknowledging inputs\<close>

lemma ack_loop_acks:
  assumes "holds h INPUTSTOACK (as1 @ as2) (ds1 @ ds2)" "length as1 = length ds1"
    and "chain (hp_nodes h) node as2" "\<forall>d\<in>set ds2. hp_inputs h d \<noteq> None"
    and "p \<in> hp_data h" "p \<notin> set (ds1 @ ds2)" "hp_objects h p = Some ob"
  shows "\<exists>h' as'. ack_loop fp (Some p) t r node h = Some h' \<and> holds h' INPUTSTOACK as' (ds1 @ unacked t h ds2) \<and>
      hp_objects h' = (hp_objects h)(p \<mapsto> if r then fold (reapply fp) (inputs_of h (unacked t h ds2)) ob else ob) \<and>
      hp_data h' = hp_data h - (set ds2 - set (unacked t h ds2)) \<and> hp_inputs h' = hp_inputs h \<and> rt_players h' = rt_players h \<and>
      (\<forall>b. b \<notin> set (as1 @ as2) \<longrightarrow> hp_nodes h' b = hp_nodes h b) \<and>
      (\<forall>l'. l' \<noteq> INPUTSTOACK \<longrightarrow> hp_lists h' l' = hp_lists h l')"
  using assms
proof (induction as2 arbitrary: h as1 ds1 ds2 node ob)
  case Nil
  then have "ds2 = []" using holds_lengths [OF Nil.prems(1)] by simp
  then show ?case using Nil.prems by (auto simp: ack_loop.simps inputs_of_def unacked_def fun_upd_idem)
next
  case (Cons a as)
  obtain d ds where ds2: "ds2 = d # ds" using holds_lengths [OF Cons.prems(1)] Cons.prems(2) by (cases ds2) auto
  obtain n where n: "node = Some a" "hp_nodes h a = Some n" "chain (hp_nodes h) (ln_next n) as" using Cons.prems(3) by auto
  have h: "data_of (hp_nodes h) (as1 @ a # as) = map Some (ds1 @ d # ds)" "distinct (ds1 @ d # ds)" "set (ds1 @ d # ds) \<subseteq> hp_data h"
    using Cons.prems(1) by (simp_all add: holds_def ds2)
  have nd: "ln_data n = Some d" using h(1) Cons.prems(2) n(2) by (simp add: data_of_def)
  obtain i where i: "hp_inputs h d = Some i" using Cons.prems(4) ds2 by auto
  then have gi: "get_input (ln_data n) h = Some i" using nd h(3) by (simp add: get_input_def)
  show ?case
  proof (cases "in_time i \<le> t")
    case True
    obtain k where k: "remove_and_free INPUTSTOACK (Some d) h = Some k" "holds k INPUTSTOACK (as1 @ as) (ds1 @ ds)"
      "chain (hp_nodes k) (ln_next n) as" "hp_data k = hp_data h - {d}" "\<forall>b. b \<notin> set (as1 @ a # as) \<longrightarrow> hp_nodes k b = hp_nodes h b"
      "\<forall>l'. l' \<noteq> INPUTSTOACK \<longrightarrow> hp_lists k l' = hp_lists h l'" "other_memory h k"
      using remove_and_free_at [of h INPUTSTOACK as1 a as ds1 d ds] Cons.prems(1,2) n(2) ds2 by auto
    note m = other_memory_rheap [OF k(7)]
    have s: "ack_loop fp (Some p) t r node h = ack_loop fp (Some p) t r (ln_next n) k"
      using n(1,2) gi True k(1) nd by (subst ack_loop.simps) simp
    have io: "inputs_of k = inputs_of h" "unacked t k = unacked t h" using m by (simp_all add: inputs_of_def unacked_def fun_eq_iff)
    have "\<forall>d\<in>set ds. hp_inputs k d \<noteq> None" "p \<in> hp_data k" "p \<notin> set (ds1 @ ds)" "hp_objects k p = Some ob"
      using Cons.prems(4-7) k(4) m ds2 by auto
    from Cons.IH [OF k(2) Cons.prems(2) k(3) this]
    obtain h' as' where h': "ack_loop fp (Some p) t r (ln_next n) k = Some h'"
      "holds h' INPUTSTOACK as' (ds1 @ unacked t h ds)"
      "hp_objects h' = (hp_objects h)(p \<mapsto> if r then fold (reapply fp) (inputs_of h (unacked t h ds)) ob else ob)"
      "hp_data h' = hp_data k - (set ds - set (unacked t h ds))"
      "hp_inputs h' = hp_inputs h" "rt_players h' = rt_players h"
      "\<forall>b. b \<notin> set (as1 @ as) \<longrightarrow> hp_nodes h' b = hp_nodes k b"
      "\<forall>l'. l' \<noteq> INPUTSTOACK \<longrightarrow> hp_lists h' l' = hp_lists k l'"
      unfolding m io by (elim exE conjE) (rule that, assumption+)
    have dd: "hp_data h' = hp_data h - (set ds2 - set (unacked t h ds2))"
      unfolding h'(4) k(4) ds2 using i True by (auto simp: unacked_def)
    have f: "unacked t h ds2 = unacked t h ds"
      using ds2 i True by (simp add: unacked_def)
    show ?thesis unfolding s
      by (rule exI [of _ h'], rule exI [of _ as']) (use h' k(5,6) dd f in auto)
  next
    case False
    let ?ob = "if r then reapply fp i ob else ob"
    let ?k = "h\<lparr>hp_objects := (hp_objects h)(p \<mapsto> ?ob)\<rparr>"
    have s: "ack_loop fp (Some p) t r node h = ack_loop fp (Some p) t r (ln_next n) ?k"
      using n(1,2) gi False Cons.prems(5,7)
      by (subst ack_loop.simps)
        (simp add: objects_applycont_def objects_applyphys_def on_object_def get_object_def reapply_def fun_upd_idem)
    have k: "holds ?k INPUTSTOACK ((as1 @ [a]) @ as) ((ds1 @ [d]) @ ds)" using Cons.prems(1) ds2 by simp
    have io: "inputs_of ?k = inputs_of h" "unacked t ?k = unacked t h" by (simp_all add: inputs_of_def unacked_def fun_eq_iff)
    have "length (as1 @ [a]) = length (ds1 @ [d])" "chain (hp_nodes ?k) (ln_next n) as" "\<forall>d\<in>set ds. hp_inputs ?k d \<noteq> None"
      "p \<in> hp_data ?k" "p \<notin> set ((ds1 @ [d]) @ ds)" "hp_objects ?k p = Some ?ob"
      using Cons.prems(2,4-7) n(3) ds2 by auto
    from Cons.IH [OF k this]
    obtain h' as' where h': "ack_loop fp (Some p) t r (ln_next n) ?k = Some h'"
      "holds h' INPUTSTOACK as' ((ds1 @ [d]) @ unacked t h ds)"
      "hp_objects h' = (hp_objects ?k)(p \<mapsto> if r then fold (reapply fp) (inputs_of h (unacked t h ds)) ?ob else ?ob)"
      "hp_data h' = hp_data h - (set ds - set (unacked t h ds))"
      "hp_inputs h' = hp_inputs h" "rt_players h' = rt_players h"
      "\<forall>b. b \<notin> set ((as1 @ [a]) @ as) \<longrightarrow> hp_nodes h' b = hp_nodes h b"
      "\<forall>l'. l' \<noteq> INPUTSTOACK \<longrightarrow> hp_lists h' l' = hp_lists h l'"
      unfolding io by (elim exE conjE) (rule that, (simp del: fun_upd_apply; fail)+)
    have f: "unacked t h ds2 = d # unacked t h ds"
      using ds2 i False by (simp add: unacked_def)
    have dd: "hp_data h' = hp_data h - (set ds2 - set (unacked t h ds2))"
      unfolding h'(4) f using h(2) ds2 by auto
    have oo: "hp_objects h' = (hp_objects h)(p \<mapsto> if r then fold (reapply fp) (inputs_of h (unacked t h ds2)) ob else ob)"
      using h'(3) i unfolding f by (auto simp: inputs_of_def)
    show ?thesis unfolding s
      by (rule exI [of _ h'], rule exI [of _ as']) (use h' dd f oo in auto)
  qed
qed


text \<open>C8: 
  Acknowledging drops the inputs up to a time from the buffer and frees them, in whatever order
  they are, keeps the others in their order, and, to reconcile, moves the player's object on by
  the ones that are left.
\<close>

theorem ackinput_reconciles:
  assumes "buffer (rt_mem g) INPUTSTOACK as ds" "global_reconciliation g"
    and "player (netlib_getclient g) (rt_mem g) = Some ply" "rp_obj ply = Some p"
    and "get_object (Some p) (rt_mem g) = Some ob" "p \<notin> set ds"
  shows "\<exists>h as'. stage_game_ackinput co t r g = Some (g\<lparr>rt_mem := h\<rparr>) \<and>
    buffer h INPUTSTOACK as' (unacked t (rt_mem g) ds) \<and>
    inputs_of h (unacked t (rt_mem g) ds) = filter (\<lambda>i. t < in_time i) (inputs_of (rt_mem g) ds) \<and>
    hp_data h = hp_data (rt_mem g) - (set ds - set (unacked t (rt_mem g) ds)) \<and>
    hp_objects h = (hp_objects (rt_mem g))(p \<mapsto>
      if r then fold (reapply (co_fpu co)) (filter (\<lambda>i. t < in_time i) (inputs_of (rt_mem g) ds)) ob else ob)"
proof -
  let ?h = "rt_mem g"
  have b: "holds ?h INPUTSTOACK as ds" "\<forall>d\<in>set ds. hp_inputs ?h d \<noteq> None" using assms(1) by (auto simp: buffer_def)
  then have "is_list ?h INPUTSTOACK as" by (simp add: holds_def)
  then obtain q where q: "chain (hp_nodes ?h) q as"
    "hp_lists ?h INPUTSTOACK = Some \<lparr>ll_size = int (length as), ll_head = q, ll_tail = last_ptr as\<rparr>"
    by (rule is_listD)
  have o: "p \<in> hp_data ?h" "hp_objects ?h p = Some ob" using get_object_live [OF assms(5)] by simp_all
  obtain h as' where h: "ack_loop (co_fpu co) (Some p) t r q ?h = Some h" "holds h INPUTSTOACK as' (unacked t ?h ds)"
    "hp_objects h = (hp_objects ?h)(p \<mapsto> if r then fold (reapply (co_fpu co)) (inputs_of ?h (unacked t ?h ds)) ob else ob)"
    "hp_data h = hp_data ?h - (set ds - set (unacked t ?h ds))" "hp_inputs h = hp_inputs ?h"
    using ack_loop_acks [of ?h "[]" as "[]" ds q p ob "co_fpu co" t r] b q(1) o assms(6) by auto
  have f: "inputs_of h' (unacked t ?h ds) = filter (\<lambda>i. t < in_time i) (inputs_of ?h ds)"
    if "hp_inputs h' = hp_inputs ?h" for h'
    using that by (simp add: inputs_of_def unacked_def filter_map comp_def)
  have "buffer h INPUTSTOACK as' (unacked t ?h ds)" using h(2,5) b(2) by (auto simp: buffer_def unacked_def)
  then show ?thesis using h f assms(2-4) q(2) by (auto simp: stage_game_ackinput_def on_mem_def)
qed

section \<open>Keeping inputs that were sent\<close>

lemma trim_loop_trims:
  "holds h INPUTSTOACK as ds \<Longrightarrow> \<exists>h' as'. trim_loop h = Some h' \<and>
    holds h' INPUTSTOACK as' (drop (length ds - 100) ds) \<and> hp_data h' = hp_data h - set (take (length ds - 100) ds) \<and>
    (\<forall>l'. l' \<noteq> INPUTSTOACK \<longrightarrow> hp_lists h' l' = hp_lists h l') \<and> other_memory h h'"
proof (induction ds arbitrary: h as)
  case Nil
  then have "as = []" using holds_lengths by fastforce
  then have "trim_loop h = Some h" using Nil by (subst trim_loop.simps) (auto simp: holds_def is_list_def)
  then show ?case using Nil by auto
next
  case (Cons d ds)
  obtain a as2 where as: "as = a # as2" using holds_lengths [OF Cons.prems] by (cases as) auto
  have l: "is_list h INPUTSTOACK as" "data_of (hp_nodes h) as = map Some (d # ds)" using Cons.prems by (simp_all add: holds_def)
  obtain p where p: "chain (hp_nodes h) p as"
    "hp_lists h INPUTSTOACK = Some \<lparr>ll_size = int (length as), ll_head = p, ll_tail = last_ptr as\<rparr>"
    using l(1) by (rule is_listD)
  obtain n where n: "p = Some a" "hp_nodes h a = Some n" "ln_data n = Some d" using p(1) as l(2) by auto
  show ?case
  proof (cases "length (d # ds) > 100")
    case True
    obtain k where k: "remove_and_free INPUTSTOACK (Some d) h = Some k" "holds k INPUTSTOACK as2 ds"
      "hp_data k = hp_data h - {d}" "\<forall>l'. l' \<noteq> INPUTSTOACK \<longrightarrow> hp_lists k l' = hp_lists h l'" "other_memory h k"
      using remove_and_free_at [of h INPUTSTOACK "[]" a as2 "[]" d ds] Cons.prems as by auto
    have s: "trim_loop h = trim_loop k"
      using p(2) n k(1) True holds_lengths [OF Cons.prems] by (subst trim_loop.simps) simp
    obtain h' as' where h': "trim_loop k = Some h'" "holds h' INPUTSTOACK as' (drop (length ds - 100) ds)"
      "hp_data h' = hp_data k - set (take (length ds - 100) ds)"
      "\<forall>l'. l' \<noteq> INPUTSTOACK \<longrightarrow> hp_lists h' l' = hp_lists k l'" "other_memory k h'"
      using Cons.IH [OF k(2)] by blast
    have e: "length (d # ds) - 100 = Suc (length ds - 100)" using True by simp
    show ?thesis unfolding s e
      by (rule exI [of _ h'], rule exI [of _ as']) (use h' k(3-5) other_memory_trans in auto)
  next
    case False
    then have "trim_loop h = Some h" using p(2) holds_lengths [OF Cons.prems] by (subst trim_loop.simps) simp
    then show ?thesis using False Cons.prems by auto
  qed
qed

text \<open>C9: 
  What becomes of the inputs that were sent: with reconciliation they follow the ones that wait to
  be acknowledged, of which the latest hundred stay, else they are freed. The buffer of the inputs
  to send is empty after it.
\<close>

theorem keep_sent_keeps_latest:
  assumes "buffer h INPUTSTOACK as ds" "buffer h INPUTSTOSEND bs es"
    and "set as \<inter> set bs = {}" "set ds \<inter> set es = {}" "es \<noteq> []"
  shows "let waiting = (if r then ds @ es else ds); n = (if r then length waiting - 100 else 0) in
    \<exists>h' as'. keep_sent r h = Some h' \<and> buffer h' INPUTSTOACK as' (drop n waiting) \<and> buffer h' INPUTSTOSEND [] [] \<and>
      hp_data h' = hp_data h - (if r then set (take n waiting) else set es) \<and> hp_inputs h' = hp_inputs h \<and>
      hp_objects h' = hp_objects h"
proof (cases r)
  case True
  have b: "holds h INPUTSTOACK as ds" "holds h INPUTSTOSEND bs es" "\<forall>d\<in>set (ds @ es). hp_inputs h d \<noteq> None"
    using assms(1,2) by (auto simp: buffer_def)
  obtain k where k: "list_combine (Some INPUTSTOACK) (Some INPUTSTOSEND) h = Some k" "holds k INPUTSTOACK (as @ bs) (ds @ es)"
    "hp_data k = hp_data h" "other_memory h k"
    using combine_owned [OF b(1,2) assms(3,4) _ assms(5)] by auto
  obtain h' as' where h': "trim_loop k = Some h'" "holds h' INPUTSTOACK as' (drop (length (ds @ es) - 100) (ds @ es))"
    "hp_data h' = hp_data k - set (take (length (ds @ es) - 100) (ds @ es))" "other_memory k h'"
    using trim_loop_trims [OF k(2)] by blast
  note m = other_memory_rheap [OF other_memory_trans [OF k(4) h'(4)]]
  let ?h = "set_list INPUTSTOSEND EMPTY_LINKEDLIST h'"
  have e: "holds ?h INPUTSTOSEND [] []" "holds ?h INPUTSTOACK as' (drop (length (ds @ es) - 100) (ds @ es))"
    using h'(2) by (auto simp: holds_def is_list_def heap_ops EMPTY_LINKEDLIST_def)
  have i: "\<forall>d\<in>set (drop (length (ds @ es) - 100) (ds @ es)). hp_inputs ?h d \<noteq> None"
    using b(3) m(2) in_set_dropD by (fastforce simp: heap_ops)
  have s: "keep_sent r h = Some ?h" "hp_data ?h = hp_data h'" "hp_inputs ?h = hp_inputs h" "hp_objects ?h = hp_objects h"
    using k(1) h'(1) True m by (simp_all add: keep_sent_def heap_ops)
  show ?thesis unfolding Let_def using True s e i h'(3) k(3) by (auto simp: buffer_def simp del: drop_append take_append)
next
  case False
  have b: "holds h INPUTSTOACK as ds" "holds h INPUTSTOSEND bs es" "\<forall>d\<in>set ds. hp_inputs h d \<noteq> None"
    using assms(1,2) by (auto simp: buffer_def)
  let ?h = "set_list INPUTSTOSEND EMPTY_LINKEDLIST
    (h\<lparr>hp_nodes := (\<lambda>a. if a \<in> set bs then None else hp_nodes h a), hp_data := hp_data h - set es\<rparr>)"
  have s: "keep_sent r h = Some ?h" using destroy_owned [OF b(2)] False by (simp add: keep_sent_def)
  have "holds ?h INPUTSTOACK as ds"
    by (rule holds_frame [OF b(1)]) (use b(1) assms(3,4) in \<open>auto simp: heap_ops holds_def\<close>)
  moreover have "holds ?h INPUTSTOSEND [] []" by (simp add: holds_def is_list_def heap_ops EMPTY_LINKEDLIST_def)
  ultimately show ?thesis unfolding Let_def using False s b(3) by (auto simp: buffer_def heap_ops)
qed


section \<open>The modes\<close>

lemma destroy_unless_empties:
  assumes "buffer h INPUTSTOACK as ds"
  shows "\<exists>h'. destroy_unless keep h = Some h' \<and> buffer h' INPUTSTOACK (if keep then as else []) (if keep then ds else []) \<and>
    hp_data h' = hp_data h - (if keep then {} else set ds) \<and> hp_objects h' = hp_objects h \<and> hp_inputs h' = hp_inputs h \<and>
    (\<forall>l bs es. l \<noteq> INPUTSTOACK \<longrightarrow> buffer h l bs es \<longrightarrow> set as \<inter> set bs = {} \<longrightarrow> set ds \<inter> set es = {} \<longrightarrow> buffer h' l bs es)"
proof -
  have b: "holds h INPUTSTOACK as ds" using assms by (simp add: buffer_def)
  obtain L where L: "hp_lists h INPUTSTOACK = Some L" "ll_size L = int (length as)" "as = [] \<longrightarrow> ll_head L = None"
    using b by (auto simp: holds_def elim!: is_listD dest!: chain_head)
  show ?thesis
  proof (cases "\<not> keep \<and> as \<noteq> []")
    case False
    then have "destroy_unless keep h = Some h" using L by (auto simp: destroy_unless_def)
    moreover have "ds = []" if "\<not> keep" using False that holds_lengths [OF b] by simp
    ultimately show ?thesis using False assms by auto
  next
    case True
    let ?h = "set_list INPUTSTOACK EMPTY_LINKEDLIST
      (h\<lparr>hp_nodes := (\<lambda>a. if a \<in> set as then None else hp_nodes h a), hp_data := hp_data h - set ds\<rparr>)"
    have "destroy_unless keep h = Some ?h" using L destroy_owned [OF b] True by (simp add: destroy_unless_def)
    moreover have "buffer ?h INPUTSTOACK [] []" by (simp add: buffer_def holds_def is_list_def heap_ops EMPTY_LINKEDLIST_def)
    moreover have "buffer ?h l bs es" if "l \<noteq> INPUTSTOACK" "buffer h l bs es" "set as \<inter> set bs = {}" "set ds \<inter> set es = {}" for l bs es
    proof -
      have "holds h l bs es" using that(2) by (simp add: buffer_def)
      then have "holds ?h l bs es"
        by (rule holds_frame) (use that in \<open>auto simp: heap_ops buffer_def holds_def\<close>)
      then show ?thesis using that(2) by (simp add: buffer_def heap_ops)
    qed
    ultimately show ?thesis using True by (auto simp: heap_ops)
  qed
qed

text \<open>Reconciling needs prediction, and without it nothing waits to be acknowledged.\<close>

definition modes_ok :: "rt \<Rightarrow> nat list \<Rightarrow> bool" where
  "modes_ok g ds \<longleftrightarrow> (global_reconciliation g \<longrightarrow> global_prediction g) \<and> (\<not> global_reconciliation g \<longrightarrow> ds = [])"

definition press_R :: "bool \<times> bool \<Rightarrow> bool \<times> bool" where
  "press_R = (\<lambda>(rec, pred). (\<not> rec, \<not> rec \<or> pred))"

definition press_L :: "bool \<times> bool \<Rightarrow> bool \<times> bool" where
  "press_L = (\<lambda>(rec, pred). (rec \<and> \<not> pred, \<not> pred))"

text \<open>C10: 
  The triggers keep the modes consistent: switching reconciliation on switches prediction on,
  switching prediction off switches reconciliation off, and with reconciliation off the inputs that
  wait to be acknowledged are freed.
\<close>

theorem toggle_keeps_modes:
  assumes "buffer (rt_mem g) INPUTSTOACK as ds" "modes_ok g ds"
  shows "let (rec, pred) = (if trg AND L_TRIG \<noteq> 0 then press_L else id)
      ((if trg AND R_TRIG \<noteq> 0 then press_R else id) (global_reconciliation g, global_prediction g));
      ds' = (if rec then ds else []) in
    \<exists>g' as'. toggle_modes trg g = Some g' \<and> global_reconciliation g' = rec \<and> global_prediction g' = pred \<and>
      global_interpolation g' = (global_interpolation g \<noteq> (trg AND Z_TRIG \<noteq> 0)) \<and>
      buffer (rt_mem g') INPUTSTOACK as' ds' \<and> modes_ok g' ds' \<and> hp_data (rt_mem g') = hp_data (rt_mem g) - (set ds - set ds')"
proof -
  obtain h where h: "destroy_unless False (rt_mem g) = Some h" "buffer h INPUTSTOACK [] []" "hp_data h = hp_data (rt_mem g) - set ds"
    using destroy_unless_empties [OF assms(1), of False] by auto
  have k: "destroy_unless True (rt_mem g) = Some (rt_mem g)"
    using assms(1) by (auto simp: destroy_unless_def buffer_def holds_def is_list_def)
  have e: "destroy_unless False h = Some h"
    using h(2) by (auto simp: destroy_unless_def buffer_def holds_def is_list_def)
  have n: "\<not> global_reconciliation g \<Longrightarrow> ds = []" "global_reconciliation g \<Longrightarrow> global_prediction g"
    using assms(2) by (auto simp: modes_ok_def)
  have z: "g\<lparr>rt_mem := rt_mem g\<rparr> = g" by simp
  show ?thesis
    by (cases "global_reconciliation g"; cases "global_prediction g"; cases "trg AND R_TRIG = 0"; cases "trg AND L_TRIG = 0")
      (use assms h k e n in \<open>auto simp: toggle_modes_def press_R_def press_L_def on_mem_def modes_ok_def Let_def\<close>)
qed

section \<open>Leaving the game\<close>

text \<open>C13: 
  The game stage cannot be left while the level has an object, and a player has one: its cleanup
  goes through a bad pointer.
\<close>

theorem leaving_game_fails:
  assumes "level (rt_mem g) as ds" "ds \<noteq> []" "rt_curstage g = RT_GAME"
  shows "change_stage_rt co n t g = None"
proof -
  have "objects_destroyall (rt_mem g) = None" using destroyall_fails_iff [OF assms(1)] assms(2) by simp
  then show ?thesis using assms(3)
    by (simp add: change_stage_rt_def stage_cleanup_rt_def stage_game_cleanup_def on_mem_def rob_def)
qed

section \<open>The clock\<close>

text \<open>
  The answers to clock packets go to the array of latencies in turn, and the last of the five sets
  the clock; one more goes past the end of the array.
\<close>

theorem clockpacket_bounds:
  assumes "length (global_latencytests g) = CLOCKCOUNT"
  shows "stage_init_clockpacket co t g = Inl OutOfBounds \<longleftrightarrow> unat (global_clocksdone g) \<ge> CLOCKCOUNT"
proof (cases "unat (global_clocksdone g) \<ge> CLOCKCOUNT")
  case True
  then show ?thesis using assms
    by (auto simp: stage_init_clockpacket_def aget_def Let_def read64_def netlib_readqword_def netlib_readbytes_def on_usb_def split: prod.splits)
next
  case False
  then show ?thesis using assms
    by (auto simp: stage_init_clockpacket_def aget_def aput_def Let_def read64_def netlib_readqword_def netlib_readbytes_def on_usb_def split: prod.splits)
qed

text \<open>The loop of the fixed update leaves the remainder of the time by the length of a tick.\<close>

theorem drain_remainder: "drain acc = acc mod TICK"
proof (induction acc rule: drain.induct)
  case (1 acc)
  show ?case
  proof (cases "acc \<ge> TICK")
    case True
    then have "drain acc = (acc - TICK) mod TICK" using 1 by (subst drain.simps) simp
    also have "\<dots> = acc mod TICK"
      using True by (simp add: word_unat_eq_iff unat_mod unat_sub word_le_nat_alt flip: le_mod_geq)
    finally show ?thesis .
  next
    case False
    then show ?thesis by (subst drain.simps) (simp add: word_unat_eq_iff unat_mod word_le_nat_alt)
  qed
qed


section \<open>Drawing between two transforms\<close>

text \<open>
  The two transforms a view is between are neighbours on the timeline: the first pair whose older
  one is not after the time of the view, or else the two oldest.
\<close>

theorem view_points_surround:
  assumes "length (old_trans ob) = TICKSTOKEEP"
  shows "\<exists>k<TICKSTOKEEP. view_points time ob = (timeline ob ! Suc k, timeline ob ! k) \<and>
    (\<forall>j<k. time < tr_timestamp (timeline ob ! Suc j)) \<and>
    (tr_timestamp (timeline ob ! Suc k) \<le> time \<or> k = TICKSTOKEEP - 1)"
proof (cases "tr_timestamp (old_trans ob ! 0) \<le> time")
  case True
  then show ?thesis by (intro exI [of _ 0]) (simp add: view_points_def timeline_def)
next
  case False
  let ?os = "old_trans ob" and ?f = "find (\<lambda>i. tr_timestamp (old_trans ob ! Suc i) \<le> time) [0..<TICKSTOKEEP - 1]"
  have v: "view_points time ob = (case case ?f of Some i \<Rightarrow> i | None \<Rightarrow> TICKSTOKEEP - 2 of i \<Rightarrow> (?os ! Suc i, ?os ! i))"
    using False by (simp add: view_points_def Let_def del: upt_Suc upt_rec_numeral)
  show ?thesis
  proof (cases ?f)
    case None
    then have "\<forall>i<4. time < tr_timestamp (?os ! Suc i)" by (simp add: find_None_iff not_le del: upt_Suc upt_rec_numeral)
    then have "\<forall>j<4. time < tr_timestamp (?os ! j)" using False by (metis not_le gr0_conv_Suc Suc_lessD not_gr0)
    then show ?thesis using None v by (intro exI [of _ 4]) (simp add: timeline_def del: upt_Suc upt_rec_numeral)
  next
    case (Some i)
    then have i: "i < 4" "tr_timestamp (?os ! Suc i) \<le> time" "\<forall>j<i. time < tr_timestamp (?os ! Suc j)"
      by (auto simp: find_Some_iff not_le simp del: upt_Suc upt_rec_numeral)
    have "time < tr_timestamp (?os ! j)" if "j < Suc i" for j
      using that i(3) False by (cases j) (auto simp: not_le)
    then show ?thesis using Some v i(1,2)
      by (intro exI [of _ "Suc i"]) (simp add: timeline_def del: upt_Suc upt_rec_numeral)
  qed
qed

lemma draw_loop_draws:
  assumes "global_interpolation g \<longrightarrow> player (netlib_getclient g) h = Some ply"
  shows "chain (hp_nodes h) p as \<Longrightarrow> data_of (hp_nodes h) as = map Some ds \<Longrightarrow> distinct ds \<Longrightarrow>
    \<forall>d\<in>set ds. d \<in> hp_data h \<and> hp_objects h d \<noteq> None \<Longrightarrow>
    draw_loop co c g p h = Some (h\<lparr>hp_objects := (\<lambda>d. if d \<in> set ds \<and> global_interpolation g \<and> rp_obj ply \<noteq> Some d
      then Some (interpolate co (c - VIEWLAG_CYCLES) (the (hp_objects h d))) else hp_objects h d)\<rparr>)"
  using assms
proof (induction as arbitrary: p ds h)
  case Nil
  then show ?case by (simp add: draw_loop.simps)
next
  case (Cons a as)
  obtain n d ds' where n: "p = Some a" "hp_nodes h a = Some n" "chain (hp_nodes h) (ln_next n) as"
    "ds = d # ds'" "ln_data n = Some d" "data_of (hp_nodes h) as = map Some ds'" using Cons.prems(1,2) by (cases ds) auto
  obtain ob where ob: "d \<in> hp_data h" "hp_objects h d = Some ob" using Cons.prems(4) n(4) by auto
  let ?c = "global_interpolation g \<and> rp_obj ply \<noteq> Some d"
  let ?k = "if ?c then h\<lparr>hp_objects := (hp_objects h)(d \<mapsto> interpolate co (c - VIEWLAG_CYCLES) ob)\<rparr> else h"
  have s: "draw_loop co c g p h = draw_loop co c g (ln_next n) ?k"
    using n(1,2,5) ob Cons.prems(5) by (subst draw_loop.simps) (auto simp: get_object_def on_object_def)
  have k: "chain (hp_nodes ?k) (ln_next n) as" "data_of (hp_nodes ?k) as = map Some ds'" "distinct ds'"
    "\<forall>d\<in>set ds'. d \<in> hp_data ?k \<and> hp_objects ?k d \<noteq> None"
    "global_interpolation g \<longrightarrow> player (netlib_getclient g) ?k = Some ply"
    using n(3,4,6) Cons.prems(3-5) by auto
  have "d \<notin> set ds'" using Cons.prems(3) n(4) by simp
  then show ?case unfolding s Cons.IH [OF k] using n(4) ob by (auto simp: fun_eq_iff)
qed

text \<open>
  With interpolation drawing shows every object but the player's own where it was at the time of
  the view, and changes nothing else; without it nothing changes.
\<close>

theorem draw_interpolates_others:
  assumes "level (rt_mem g) as ds" "player (netlib_getclient g) (rt_mem g) = Some ply"
  shows "\<exists>h. stage_game_draw co t g = Some (g\<lparr>rt_mem := h\<rparr>) \<and> level h as ds \<and> (\<exists>H. h = (rt_mem g)\<lparr>hp_objects := H\<rparr>) \<and>
    object_list h ds = map (\<lambda>(d, ob). (d, if global_interpolation g \<and> rp_obj ply \<noteq> Some d
      then interpolate co (osGetTime t g - VIEWLAG_CYCLES) ob else ob)) (object_list (rt_mem g) ds)"
proof -
  let ?h = "rt_mem g"
  have l: "is_list ?h LEVELOBJECTS as" "data_of (hp_nodes ?h) as = map Some ds" "distinct ds"
    "\<forall>d\<in>set ds. d \<in> hp_data ?h \<and> hp_objects ?h d \<noteq> None"
    using assms(1) by (auto simp: level_def holds_def)
  obtain p where p: "chain (hp_nodes ?h) p as"
    "hp_lists ?h LEVELOBJECTS = Some \<lparr>ll_size = int (length as), ll_head = p, ll_tail = last_ptr as\<rparr>"
    using l(1) by (rule is_listD)
  let ?H = "\<lambda>d. if d \<in> set ds \<and> global_interpolation g \<and> rp_obj ply \<noteq> Some d
    then Some (interpolate co (osGetTime t g - VIEWLAG_CYCLES) (the (hp_objects ?h d))) else hp_objects ?h d"
  have "stage_game_draw co t g = Some (g\<lparr>rt_mem := ?h\<lparr>hp_objects := ?H\<rparr>\<rparr>)"
    using draw_loop_draws [of g ?h ply p as ds co "osGetTime t g"] assms(2) p l
    by (simp add: stage_game_draw_def objects_getall_def on_mem_def)
  moreover have "level (?h\<lparr>hp_objects := ?H\<rparr>) as ds" using assms(1) by (auto simp: level_def)
  moreover have "object_list (?h\<lparr>hp_objects := ?H\<rparr>) ds = map (\<lambda>(d, ob). (d, if global_interpolation g \<and> rp_obj ply \<noteq> Some d
      then interpolate co (osGetTime t g - VIEWLAG_CYCLES) ob else ob)) (object_list ?h ds)"
    by (auto simp: object_list_def l(4))
  ultimately show ?thesis by blast
qed


section \<open>Sample states\<close>

definition sample_fpu :: fpu where
  "sample_fpu = \<lparr>f_add = (+), f_sub = (-), f_mul = (*), f_div = (div), f_lt = (<), f_eq = (=), f_neg = uminus,
     f_sqrt = (\<lambda>v. v), f_of_int = word_of_int\<rparr>"

definition sample_transform :: "u64 \<Rightarrow> Transform" where
  "sample_transform t = \<lparr>tr_pos = \<lparr>vx = 160, vy = 120\<rparr>, tr_dir = \<lparr>vx = 0, vy = 0\<rparr>, tr_size = \<lparr>vx = 32, vy = 32\<rparr>,
     tr_speed = 0, tr_col = \<lparr>col_r = 255, col_g = 0, col_b = 0, col_a = 255\<rparr>, tr_timestamp = t\<rparr>"

definition sample_object :: GameObject where
  "sample_object = \<lparr>go_id = 3, go_bounce = 0, cl_trans = sample_transform 100000000, sv_trans = sample_transform 100000000,
     old_trans = map sample_transform [90000000, 80000000, 0, 0, 0]\<rparr>"

definition sample_input :: "u64 \<Rightarrow> InputToAck" where
  "sample_input t = \<lparr>in_time = t, in_contdata = \<lparr>cd_button = 0, cd_trigger = 0, stick_x = 40, stick_y = 0\<rparr>, in_dt = 1\<rparr>"

definition sample_console :: console where
  "sample_console = \<lparr>co_fpu = sample_fpu, co_of_u64 = ucast, co_to_u64 = ucast, co_powf = (\<lambda>x _. x * x),
     co_qsort = (\<lambda>_. sort), co_alloc = \<lparr>al_node = sample_alloc, al_data = (\<lambda>D. if 20 \<in> D then None else Some 20),
       al_object = sample_object\<rparr>, co_stk = 0, co_lag = 0, co_freemem = (\<lambda>_. 0), co_seconds = ucast, co_ratio = (\<lambda>_ _. 0)\<rparr>"

text \<open>A player's object, two inputs to be acknowledged and one to be sent.\<close>

definition sample_rheap :: rheap where
  "sample_rheap = \<lparr>hp_nodes = [6 \<mapsto> \<lparr>ln_data = Some 11, ln_next = None\<rparr>, 2 \<mapsto> \<lparr>ln_data = Some 12, ln_next = Some 3\<rparr>,
       3 \<mapsto> \<lparr>ln_data = Some 13, ln_next = None\<rparr>, 4 \<mapsto> \<lparr>ln_data = Some 14, ln_next = None\<rparr>],
     hp_lists = [LEVELOBJECTS \<mapsto> \<lparr>ll_size = 1, ll_head = Some 6, ll_tail = Some 6\<rparr>,
       INPUTSTOACK \<mapsto> \<lparr>ll_size = 2, ll_head = Some 2, ll_tail = Some 3\<rparr>,
       INPUTSTOSEND \<mapsto> \<lparr>ll_size = 1, ll_head = Some 4, ll_tail = Some 4\<rparr>],
     hp_dnodes = Map.empty, hp_dicts = Map.empty, hp_data = {11, 12, 13, 14}, hp_objects = [11 \<mapsto> sample_object],
     hp_inputs = [12 \<mapsto> sample_input 5, 13 \<mapsto> sample_input 20, 14 \<mapsto> sample_input 30],
     rt_players = (replicate MAXPLAYERS \<lparr>rp_connected = 0, rp_obj = None\<rparr>)[0 := \<lparr>rp_connected = 1, rp_obj = Some 11\<rparr>]\<rparr>"

definition sample_rt :: "byte list \<Rightarrow> rt" where
  "sample_rt bs = n64.extend
     (sample_n64\<lparr>global_clnumber := 1, n64_usb := sample_usb\<lparr>usb_msg := bs, usb_datasize := length bs, usb_dataleft := length bs\<rparr>\<rparr>)
     (rt.fields RT_GAME RT_NONE sample_rheap CONNSTATE_CONNECTED 5 False (replicate CLOCKCOUNT 0)
       (in_contdata (sample_input 0)) (in_contdata (sample_input 0)) 0 True True True 0 0 0 [])"

lemma sample_rt_simps [simp]:
  "rt_mem (sample_rt bs) = sample_rheap" "rt_curstage (sample_rt bs) = RT_GAME" "global_clnumber (sample_rt bs) = 1"
  "global_reconciliation (sample_rt bs)" "global_prediction (sample_rt bs)" "global_interpolation (sample_rt bs)"
  "global_latencytests (sample_rt bs) = replicate CLOCKCOUNT 0" "global_clocksdone (sample_rt bs) = 5"
  by (simp_all add: sample_rt_def n64.defs rt.defs)

lemma sample_rt_usb [simp]: "usb_at (n64_usb (sample_rt bs)) bs"
  by (simp add: sample_rt_def n64.defs usb_at_def sample_usb_def CART_NONE_def)

lemma sample_lists_owned [simp]:
  "level sample_rheap [6] [11]" "buffer sample_rheap INPUTSTOACK [2, 3] [12, 13]" "buffer sample_rheap INPUTSTOSEND [4] [14]"
  by (simp_all add: level_def buffer_def holds_def is_list_def sample_rheap_def last_ptr_def data_of_def)

lemma sample_rheap_simps [simp]:
  "hp_nodes sample_rheap 5 = None" "hp_data sample_rheap = {11, 12, 13, 14}" "get_object (Some 11) sample_rheap = Some sample_object"
  "object_list sample_rheap [11] = [(11, sample_object)]" "player 1 sample_rheap = Some \<lparr>rp_connected = 1, rp_obj = Some 11\<rparr>"
  by (simp_all add: sample_rheap_def get_object_def object_list_def player_def Let_def)

lemma sample_old [simp]: "length (old_trans sample_object) = TICKSTOKEEP" "go_id sample_object = 3"
  by (simp_all add: sample_object_def)


section \<open>The theorems at the samples\<close>

theorem objectupdate_returns_witness: "\<exists>g'. packet_readobjectupdate (Some 11) 0 200 (sample_rt []) = Some g'"
  by (rule objectupdate_returns) (simp add: object_or_null_def)

theorem updateobject_refines_witness:
  "let msg = 1 # be64 9 @ concat (map object_bytes [(3, [USpeed 7])]) in
   \<exists>g'. netcallback_updateobject sample_console (sample_rt msg) = Some g' \<and>
     object_list (rt_mem g') [11] = [(11, finish (OS_NSEC_TO_CYCLES 9) [USpeed 7] sample_object)]"
  unfolding Let_def
  using updateobject_refines [of "sample_rt (1 # be64 9 @ concat (map object_bytes [(3, [USpeed 7])]))" "[6]" "[11]"
      "[(3, [USpeed 7])]" 9 sample_console]
  by (auto simp: updates_bytes_def be32_def)

theorem readobject_refines_witness:
  "let msg = be32 4 @ whole_bytes (sample_transform 0, 1) @ [5]; F = sync_object \<circ> members_of (sample_transform 0, 1) (osGetTime 0 (sample_rt msg)) in
   \<exists>p g' ds'. packet_readobject sample_console 0 (sample_rt msg) = Some (Some p, g') \<and> usb_at (n64_usb g') [5] \<and>
     object_list (rt_mem g') ds' = [(11, sample_object), (20, F (sample_object\<lparr>go_id := 4\<rparr>))]"
proof -
  let ?msg = "be32 4 @ whole_bytes (sample_transform 0, 1) @ [5]"
  have al: "allocator_ok (co_alloc sample_console)" "al_node (co_alloc sample_console) (hp_nodes sample_rheap) = Some 9"
    "al_data (co_alloc sample_console) (hp_data sample_rheap) = Some 20" "al_object (co_alloc sample_console) = sample_object"
    by (auto simp: sample_console_def allocator_ok_def sample_alloc_def sample_rheap_def split: if_splits)
  show ?thesis
    using readobject_refines [of "sample_rt ?msg" "[6]" "[11]" 4 "(sample_transform 0, 1)" "[5]" sample_console 9 20 0] al
    by (auto simp: Let_def)
qed

theorem sync_fills_gaps_witness:
  "map tr_timestamp (old_trans (sync_object sample_object)) = [90000000, 80000000, 80000000 - TICK, 80000000 - 2 * TICK, 80000000 - 3 * TICK]"
proof -
  have s: "steady (sv_trans sample_object) (old_trans sample_object) = 2"
    by (simp add: steady_def sample_object_def sample_transform_def MAXGAP_def OS_USEC_TO_CYCLES_def)
  have u: "[1..<Suc (TICKSTOKEEP - 2)] = [1, 2, 3]" by (simp add: upt_rec)
  show ?thesis using sync_fills_gaps [of sample_object] unfolding Let_def s u
    by (simp add: before_def timeline_def sample_object_def sample_transform_def)
qed

theorem ackinput_reconciles_witness:
  "\<exists>h as'. stage_game_ackinput sample_console 10 True (sample_rt []) = Some ((sample_rt [])\<lparr>rt_mem := h\<rparr>) \<and>
    buffer h INPUTSTOACK as' [13] \<and> hp_data h = {11, 13, 14} \<and>
    hp_objects h 11 = Some (reapply sample_fpu (sample_input 20) sample_object)"
proof -
  have u: "unacked 10 sample_rheap [12, 13] = [13]" "inputs_of sample_rheap [12, 13] = [sample_input 5, sample_input 20]"
    by (simp_all add: unacked_def inputs_of_def sample_rheap_def sample_input_def)
  have f: "filter (\<lambda>i. 10 < in_time i) [sample_input 5, sample_input 20] = [sample_input 20]" by (simp add: sample_input_def)
  have c: "co_fpu sample_console = sample_fpu" by (simp add: sample_console_def)
  have pre: "buffer (rt_mem (sample_rt [])) INPUTSTOACK [2, 3] [12, 13]" "global_reconciliation (sample_rt [])"
    "player (netlib_getclient (sample_rt [])) (rt_mem (sample_rt [])) = Some \<lparr>rp_connected = 1, rp_obj = Some 11\<rparr>"
    "rp_obj \<lparr>rp_connected = 1, rp_obj = Some 11\<rparr> = Some 11" "get_object (Some 11) (rt_mem (sample_rt [])) = Some sample_object"
    "11 \<notin> set [12, 13 :: nat]"
    by (simp_all add: netlib_getclient_def)
  obtain h as' where h: "stage_game_ackinput sample_console 10 True (sample_rt []) = Some ((sample_rt [])\<lparr>rt_mem := h\<rparr>)"
    "buffer h INPUTSTOACK as' [13]" "hp_data h = hp_data sample_rheap - (set [12, 13] - set [13])"
    "hp_objects h = (hp_objects sample_rheap)(11 \<mapsto> if True then fold (reapply sample_fpu) [sample_input 20] sample_object else sample_object)"
    using ackinput_reconciles [OF pre, of sample_console 10 True] unfolding sample_rt_simps u f c
    by (elim exE conjE) (rule that, assumption+)
  have "hp_data h = {11, 13, 14}" unfolding h(3) by (simp add: insert_Diff_if)
  moreover have "hp_objects h 11 = Some (reapply sample_fpu (sample_input 20) sample_object)" unfolding h(4) by simp
  ultimately show ?thesis using h(1,2) by blast
qed

theorem keep_sent_keeps_latest_witness:
  "\<exists>h' as'. keep_sent True sample_rheap = Some h' \<and> buffer h' INPUTSTOACK as' [12, 13, 14] \<and> buffer h' INPUTSTOSEND [] []"
  using keep_sent_keeps_latest [of sample_rheap "[2, 3]" "[12, 13]" "[4]" "[14]" True] by (auto simp: Let_def)

theorem toggle_keeps_modes_witness:
  "\<exists>g' as'. toggle_modes R_TRIG (sample_rt []) = Some g' \<and> \<not> global_reconciliation g' \<and> global_prediction g' \<and>
    buffer (rt_mem g') INPUTSTOACK as' [] \<and> hp_data (rt_mem g') = {11, 14}"
  using toggle_keeps_modes [of "sample_rt []" "[2, 3]" "[12, 13]" R_TRIG]
  by (auto simp: modes_ok_def press_R_def Let_def)

theorem leaving_game_fails_witness: "change_stage_rt sample_console 1 0 (sample_rt []) = None"
  by (rule leaving_game_fails [of _ "[6]" "[11]"]) simp_all

end
