(* ===== verification/NL_Text.thy ===== *)
theory NL_Text
  imports NL_TicTacToe NL_Objects
begin

text \<open>
  The text library of the example games (\<^verbatim>\<open>text.c\<close>), on which the recorded calls of the games are run:
  letters on the heap, sorted by their texture into lists that are found through a dictionary. The
  lemmas show which letters a text adds and where, what rendering draws, and that clearing frees
  everything.
\<close>

section \<open>Data\<close>

text \<open>The fonts are data of the games; a font is named by its variable.\<close>

datatype fontid = FONT_DEFAULT | FONT_DEFAULT_BOLD | FONT_SMALL | FONT_TITLE

datatype align = A_LEFT | A_CENTER | A_RIGHT

record charDef =
  ch_w :: byte
  ch_h :: byte
  ch_offsetx :: u16
  ch_offsety :: u16
  ch_tex :: ptr
  ch_xpadding :: u32

record fontDef =
  fd_w :: byte
  fd_h :: byte
  fd_spacesize :: byte
  fd_packed :: bool
  fd_ch :: "charDef list"

record letterDef =
  lt_x :: u16
  lt_y :: u16
  lt_r :: byte
  lt_g :: byte
  lt_b :: byte
  lt_a :: byte
  lt_cdef :: charDef
  lt_fdef :: fontid

record theap = heap +
  hp_letters :: "nat \<rightharpoonup> letterDef"

text \<open>
  The static variables; \<open>textrender_startx\<close> and \<open>textrender_starty\<close> are read as signed numbers. The
  dictionary and the lists have the addresses below.
\<close>

record textlib =
  textrender_font :: fontid
  textrender_align :: align
  textrender_startx :: u16
  textrender_starty :: u16
  textrender_r :: byte
  textrender_g :: byte
  textrender_b :: byte
  textrender_a :: byte
  textrender_fontkey :: nat
  tx_mem :: theap

abbreviation MAXMIMUM_FONTTEXTURES :: nat where "MAXMIMUM_FONTTEXTURES \<equiv> 32"
abbreviation ADDRESSMAP :: nat where "ADDRESSMAP \<equiv> 300"
abbreviation LOADLIST :: nat where "LOADLIST \<equiv> 400"

text \<open>What the library gets from outside: the fonts, the allocator and one texture.\<close>

record textenv =
  te_font :: "fontid \<Rightarrow> fontDef"
  te_dnode :: "(nat \<rightharpoonup> dictNode) \<Rightarrow> ptr"
  te_node :: "(nat \<rightharpoonup> listNode) \<Rightarrow> ptr"
  te_data :: "nat set \<Rightarrow> ptr"
  font_default_tex7 :: ptr

section \<open>Settings\<close>

definition text_setfont_t :: "fontid \<Rightarrow> textlib \<Rightarrow> textlib" where
  "text_setfont_t f t = t\<lparr>textrender_font := f\<rparr>"

definition text_setalign_t :: "align \<Rightarrow> textlib \<Rightarrow> textlib" where
  "text_setalign_t a t = t\<lparr>textrender_align := a\<rparr>"

definition text_setpos :: "u16 \<Rightarrow> u16 \<Rightarrow> textlib \<Rightarrow> textlib" where
  "text_setpos x y t = t\<lparr>textrender_startx := x, textrender_starty := y\<rparr>"

definition text_setcolor_t :: "byte \<Rightarrow> byte \<Rightarrow> byte \<Rightarrow> byte \<Rightarrow> textlib \<Rightarrow> textlib" where
  "text_setcolor_t r g b a t = t\<lparr>textrender_r := r, textrender_g := g, textrender_b := b, textrender_a := a\<rparr>"

definition text_getx :: "textlib \<Rightarrow> u16" where "text_getx t = textrender_startx t"
definition text_gety :: "textlib \<Rightarrow> u16" where "text_gety t = textrender_starty t"

definition text_reset :: "textlib \<Rightarrow> textlib" where
  "text_reset t = text_setcolor_t 0 0 0 255 (text_setpos 0 0 (text_setalign_t A_LEFT (text_setfont_t FONT_DEFAULT t)))"

definition text_initialize :: "textlib \<Rightarrow> textlib" where
  "text_initialize t = text_reset (t\<lparr>textrender_fontkey := 0, tx_mem := (tx_mem t)\<lparr>
     hp_dicts := (hp_dicts (tx_mem t))(ADDRESSMAP \<mapsto> EMPTY_LINKEDLIST),
     hp_lists := (\<lambda>l. if LOADLIST \<le> l \<and> l < LOADLIST + MAXMIMUM_FONTTEXTURES then Some EMPTY_LINKEDLIST
       else hp_lists (tx_mem t) l)\<rparr>\<rparr>)"

section \<open>Creating text\<close>

text \<open>
  A \<open>char\<close> is signed. A character outside the font's table is a read out of its bounds, which is
  \<open>None\<close> like every bad access here; one without a texture is skipped, since \<open>debug_printf\<close> is
  compiled out.
\<close>

definition char_at :: "textenv \<Rightarrow> fontid \<Rightarrow> char \<Rightarrow> charDef option" where
  "char_at e f c = (let i = sint (of_char c :: byte) - 33; cs = fd_ch (te_font e f)
     in if 0 \<le> i \<and> nat i < length cs then Some (cs ! nat i) else None)"

definition spacesize :: "textenv \<Rightarrow> fontid \<Rightarrow> u32" where
  "spacesize e f = ucast (fd_spacesize (te_font e f))"

definition bullet :: "textenv \<Rightarrow> fontid \<Rightarrow> char \<Rightarrow> u32" where
  "bullet e f c = (if c = CHR ''['' then spacesize e f else if c = CHR '']'' then spacesize e f * 3
     else if c = CHR ''^'' then spacesize e f * 7 else 0)"

definition advance :: "charDef \<Rightarrow> u32" where
  "advance cd = ucast (ch_w cd) + ch_xpadding cd"

definition bold_font :: "bool \<Rightarrow> fontid" where
  "bold_font bold = (if bold then FONT_DEFAULT_BOLD else FONT_DEFAULT)"

text \<open>The key of a texture is stored as a pointer.\<close>

definition key_ptr :: "nat \<Rightarrow> ptr" where "key_ptr k = (if k = 0 then None else Some k)"
definition ptr_key :: "ptr \<Rightarrow> nat" where "ptr_key p = (case p of None \<Rightarrow> 0 | Some k \<Rightarrow> k)"

fun measure_loop :: "textenv \<Rightarrow> string \<Rightarrow> bool \<Rightarrow> u32 \<Rightarrow> textlib \<Rightarrow> (u32 \<times> textlib) option" where
  "measure_loop e [] bold hsize t = Some (hsize, t)"
| "measure_loop e (c # str) bold hsize t =
     (let f = textrender_font t in
      if c = CHR '' '' then measure_loop e str bold (hsize + spacesize e f) t
      else if c = CHR 0x5C then measure_loop e str (\<not> bold) hsize (t\<lparr>textrender_font := bold_font (\<not> bold)\<rparr>)
      else case char_at e f c of None \<Rightarrow> None
       | Some cdef \<Rightarrow>
         let hsize = hsize + bullet e f c in
         case ch_tex cdef of None \<Rightarrow> measure_loop e str bold hsize t
         | Some tex \<Rightarrow> Option.bind (dict_get (Some ADDRESSMAP) (int tex) (tx_mem t)) (\<lambda>node.
             Option.bind (if node = None
                 then map_option (\<lambda>(_, h). t\<lparr>tx_mem := h, textrender_fontkey := Suc (textrender_fontkey t)\<rparr>)
                   (dict_append (te_dnode e) ADDRESSMAP (int tex) (key_ptr (textrender_fontkey t)) (tx_mem t))
                 else Some t)
               (\<lambda>t. measure_loop e str bold (hsize + advance cdef) t)))"

definition align_x :: "align \<Rightarrow> u16 \<Rightarrow> u32 \<Rightarrow> u32" where
  "align_x al x hsize = (case al of A_LEFT \<Rightarrow> ucast x
     | A_CENTER \<Rightarrow> ucast x - word_of_int (sint hsize sdiv 2) | A_RIGHT \<Rightarrow> ucast x - hsize)"

text \<open>For a packed font the offset is taken within half the texture's height.\<close>

definition letter_y :: "textenv \<Rightarrow> fontid \<Rightarrow> charDef \<Rightarrow> u16 \<Rightarrow> u16 option" where
  "letter_y e f cdef y =
     (let half = fd_h (te_font e f) div 2 in
      if \<not> fd_packed (te_font e f) then Some (y + ch_offsety cdef)
      else if half = 0 then None else Some (y + ch_offsety cdef mod ucast half))"

definition new_letter :: "textlib \<Rightarrow> charDef \<Rightarrow> u16 \<Rightarrow> u16 \<Rightarrow> letterDef" where
  "new_letter t cdef x y = \<lparr>lt_x = x, lt_y = y, lt_r = textrender_r t, lt_g = textrender_g t, lt_b = textrender_b t,
     lt_a = textrender_a t, lt_cdef = cdef, lt_fdef = textrender_font t\<rparr>"

text \<open>A letter at the end of the list of its texture; the node and the letter are allocated.\<close>

definition add_letter :: "textenv \<Rightarrow> charDef \<Rightarrow> nat \<Rightarrow> u32 \<Rightarrow> u16 \<Rightarrow> textlib \<Rightarrow> textlib option" where
  "add_letter e cdef tex x y t = do {
     node \<leftarrow> dict_get (Some ADDRESSMAP) (int tex) (tx_mem t);
     a \<leftarrow> node;
     n \<leftarrow> hp_dnodes (tx_mem t) a;
     d \<leftarrow> te_data e (hp_data (tx_mem t));
     y \<leftarrow> letter_y e (textrender_font t) cdef y;
     let h = (tx_mem t)\<lparr>hp_data := insert d (hp_data (tx_mem t)),
           hp_letters := (hp_letters (tx_mem t))(d \<mapsto> new_letter t cdef (ucast x) y)\<rparr>;
     if ptr_key (dn_value n) < MAXMIMUM_FONTTEXTURES
     then map_option (\<lambda>(_, h). t\<lparr>tx_mem := h\<rparr>)
       (list_append (te_node e) (Some (LOADLIST + ptr_key (dn_value n))) (Some d) h)
     else None }"

fun place_loop :: "textenv \<Rightarrow> u16 \<Rightarrow> string \<Rightarrow> bool \<Rightarrow> u32 \<Rightarrow> textlib \<Rightarrow> textlib option" where
  "place_loop e y [] bold xreal t = Some t"
| "place_loop e y (c # str) bold xreal t =
     (let f = textrender_font t in
      if c = CHR '' '' then place_loop e y str bold (xreal + spacesize e f) t
      else if c = CHR 0x5C then place_loop e y str (\<not> bold) xreal (t\<lparr>textrender_font := bold_font (\<not> bold)\<rparr>)
      else case char_at e f c of None \<Rightarrow> None
       | Some cdef \<Rightarrow>
         let xreal = xreal + bullet e f c in
         case ch_tex cdef of None \<Rightarrow> place_loop e y str bold xreal t
         | Some tex \<Rightarrow> Option.bind (add_letter e cdef tex xreal y t) (\<lambda>t. place_loop e y str bold (xreal + advance cdef) t))"

definition text_create_t :: "textenv \<Rightarrow> string \<Rightarrow> u16 \<Rightarrow> u16 \<Rightarrow> textlib \<Rightarrow> textlib option" where
  "text_create_t e str x y t = do {
     (hsize, t) \<leftarrow> measure_loop e str False 0 t;
     place_loop e y str False (align_x (textrender_align t) x hsize) t }"

section \<open>Rendering and clearing\<close>

text \<open>
  Of the commands for the display processor those that depend on the text: the texture that is
  loaded with its size, the colour, and the rectangle on the screen with its place in the texture.
\<close>

datatype draw =
    LoadTexture ptr byte byte
  | PrimColor byte byte byte byte
  | TextureRectangle int int int int int int

definition draw_letter :: "textlib \<Rightarrow> letterDef \<Rightarrow> draw list" where
  "draw_letter t l =
     (let cdef = lt_cdef l; x = sint (textrender_startx t) + uint (lt_x l); y = sint (textrender_starty t) + uint (lt_y l)
      in [PrimColor (lt_r l) (lt_g l) (lt_b l) (lt_a l),
          TextureRectangle (x * 4) (y * 4) ((x + uint (ch_w cdef)) * 4) ((y + uint (ch_h cdef)) * 4)
            (uint (ch_offsetx cdef) * 32) (uint (ch_offsety cdef) * 32)])"

definition get_letter :: "ptr \<Rightarrow> theap \<Rightarrow> letterDef option" where
  "get_letter p h = Option.bind p (\<lambda>a. if a \<in> hp_data h then hp_letters h a else None)"

partial_function (option) render_letters :: "textlib \<Rightarrow> ptr \<Rightarrow> draw list option" where
  "render_letters t node =
     (case node of None \<Rightarrow> Some []
      | Some a \<Rightarrow> Option.bind (hp_nodes (tx_mem t) a) (\<lambda>n. Option.bind (get_letter (ln_data n) (tx_mem t)) (\<lambda>l.
          Option.bind (render_letters t (ln_next n)) (\<lambda>ds. Some (draw_letter t l @ ds)))))"

definition render_list :: "textenv \<Rightarrow> textlib \<Rightarrow> nat \<Rightarrow> draw list option" where
  "render_list e t i = do {
     L \<leftarrow> hp_lists (tx_mem t) (LOADLIST + i);
     if ll_size L = 0 then Some []
     else do {
       a \<leftarrow> ll_head L;
       n \<leftarrow> hp_nodes (tx_mem t) a;
       l \<leftarrow> get_letter (ln_data n) (tx_mem t);
       ds \<leftarrow> render_letters t (Some a);
       let f = te_font e (textrender_font t);
       Some (LoadTexture (ch_tex (lt_cdef l)) (fd_w f) (fd_h f) # ds) } }"

definition text_render :: "textenv \<Rightarrow> textlib \<Rightarrow> draw list option" where
  "text_render e t = foldr (\<lambda>i r. Option.bind (render_list e t i) (\<lambda>ds. map_option ((@) ds) r))
     [0..<MAXMIMUM_FONTTEXTURES] (Some [])"

fun number_loop :: "textenv \<Rightarrow> string \<Rightarrow> u16 \<Rightarrow> u16 \<Rightarrow> int \<Rightarrow> draw list option" where
  "number_loop e [] x y xoffset = Some []"
| "number_loop e (c # str) x y xoffset =
     Option.bind (char_at e FONT_DEFAULT c) (\<lambda>cdef.
     Option.bind (number_loop e str x y (xoffset + uint (ch_w cdef))) (\<lambda>ds.
       Some (TextureRectangle ((uint x + xoffset) * 4) (uint y * 4) ((uint x + xoffset + uint (ch_w cdef)) * 4)
          ((uint y + uint (ch_h cdef)) * 4) (uint (ch_offsetx cdef) * 32) (uint (ch_offsety cdef) * 32) # ds)))"

definition text_rendernumber :: "textenv \<Rightarrow> int \<Rightarrow> u16 \<Rightarrow> u16 \<Rightarrow> textlib \<Rightarrow> draw list option" where
  "text_rendernumber e num x y t =
     (let f = te_font e (textrender_font t)
      in map_option (\<lambda>ds. LoadTexture (font_default_tex7 e) (fd_w f) (fd_h f) # PrimColor 0 0 0 255 # ds)
           (number_loop e (dec_int num) x y 0))"

definition cleanup_step :: "nat \<Rightarrow> theap \<Rightarrow> theap option" where
  "cleanup_step i h = do {
     L \<leftarrow> hp_lists h (LOADLIST + i);
     if ll_size L \<noteq> 0 then list_destroy_deep (Some (LOADLIST + i)) h else Some h }"

definition text_cleanup_t :: "textlib \<Rightarrow> textlib option" where
  "text_cleanup_t t = map_option (\<lambda>h. t\<lparr>tx_mem := h\<rparr>)
     (fold (\<lambda>i r. Option.bind r (cleanup_step i)) [0..<MAXMIMUM_FONTTEXTURES] (Some (tx_mem t)))"

section \<open>The calls of the games\<close>

definition run_text_call :: "textenv \<Rightarrow> text_call \<Rightarrow> textlib \<Rightarrow> textlib option" where
  "run_text_call e c t = (case c of
      text_cleanup \<Rightarrow> text_cleanup_t t
    | text_setfont f \<Rightarrow> Some (text_setfont_t (case f of font_default \<Rightarrow> FONT_DEFAULT | font_small \<Rightarrow> FONT_SMALL) t)
    | text_setalign a \<Rightarrow> Some (text_setalign_t (case a of ALIGN_LEFT \<Rightarrow> A_LEFT | ALIGN_CENTER \<Rightarrow> A_CENTER) t)
    | text_setcolor r g b a \<Rightarrow> Some (text_setcolor_t r g b a t)
    | text_create str x y \<Rightarrow> text_create_t e str (word_of_int x) (word_of_int y) t)"

definition run_text_calls :: "textenv \<Rightarrow> text_call list \<Rightarrow> textlib \<Rightarrow> textlib option" where
  "run_text_calls e cs t = fold (\<lambda>c r. Option.bind r (run_text_call e c)) cs (Some t)"

section \<open>What a text consists of\<close>

text \<open>The letters of a text from a position on, with their place, font and definition, and where the text ends.\<close>

type_synonym glyph = "u32 \<times> fontid \<times> charDef"

fun layout :: "textenv \<Rightarrow> string \<Rightarrow> bool \<Rightarrow> fontid \<Rightarrow> u32 \<Rightarrow> glyph list \<times> u32" where
  "layout e [] bold f x = ([], x)"
| "layout e (c # str) bold f x =
     (if c = CHR '' '' then layout e str bold f (x + spacesize e f)
      else if c = CHR 0x5C then layout e str (\<not> bold) (bold_font (\<not> bold)) x
      else case char_at e f c of None \<Rightarrow> ([], x)
       | Some cdef \<Rightarrow>
         let x = x + bullet e f c in
         if ch_tex cdef = None then layout e str bold f x
         else case layout e str bold f (x + advance cdef) of (gs, end_x) \<Rightarrow> ((x, f, cdef) # gs, end_x))"

fun font_after :: "string \<Rightarrow> bool \<Rightarrow> fontid \<Rightarrow> fontid" where
  "font_after [] bold f = f"
| "font_after (c # str) bold f = (if c = CHR 0x5C then font_after str (\<not> bold) (bold_font (\<not> bold)) else font_after str bold f)"

text \<open>Every character is in the table of the font it is drawn in.\<close>

fun drawable :: "textenv \<Rightarrow> string \<Rightarrow> bool \<Rightarrow> fontid \<Rightarrow> bool" where
  "drawable e [] bold f \<longleftrightarrow> True"
| "drawable e (c # str) bold f \<longleftrightarrow>
     (if c = CHR '' '' then drawable e str bold f
      else if c = CHR 0x5C then drawable e str (\<not> bold) (bold_font (\<not> bold))
      else char_at e f c \<noteq> None \<and> drawable e str bold f)"

definition textures :: "glyph list \<Rightarrow> nat list" where
  "textures gs = map (\<lambda>(_, _, cdef). the (ch_tex cdef)) gs"

definition add_tex :: "nat \<Rightarrow> nat list \<Rightarrow> nat list" where
  "add_tex tex ts = (if tex \<in> set ts then ts else ts @ [tex])"

definition text_width :: "textenv \<Rightarrow> string \<Rightarrow> fontid \<Rightarrow> u32" where
  "text_width e str f = snd (layout e str False f 0)"

lemma layout_end: "snd (layout e str bold f x) = x + snd (layout e str bold f 0)"
proof (induction str arbitrary: bold f x)
  case (Cons c str)
  show ?case
  proof (cases "c = CHR '' '' \<or> c = CHR 0x5C \<or> char_at e f c = None")
    case True
    then show ?thesis using Cons [of bold f "x + spacesize e f"] Cons [of bold f "spacesize e f"] Cons [of "\<not> bold" "bold_font (\<not> bold)" x]
      by auto
  next
    case False
    then obtain cd where cd: "char_at e f c = Some cd" "c \<noteq> CHR '' ''" "c \<noteq> CHR 0x5C" by auto
    show ?thesis using cd Cons [of bold f "x + bullet e f c"] Cons [of bold f "bullet e f c"]
        Cons [of bold f "x + bullet e f c + advance cd"] Cons [of bold f "bullet e f c + advance cd"]
      by (auto simp: Let_def split: prod.splits)
  qed
qed simp

lemma layout_textures: "textures (fst (layout e str bold f x)) = textures (fst (layout e str bold f y))"
proof (induction str arbitrary: bold f x y)
  case (Cons c str)
  show ?case
  proof (cases "c = CHR '' '' \<or> c = CHR 0x5C \<or> char_at e f c = None")
    case True
    then show ?thesis using Cons [of bold f "x + spacesize e f" "y + spacesize e f"] Cons [of "\<not> bold" "bold_font (\<not> bold)" x y] by auto
  next
    case False
    then obtain cd where cd: "char_at e f c = Some cd" "c \<noteq> CHR '' ''" "c \<noteq> CHR 0x5C" by auto
    show ?thesis using cd Cons [of bold f "x + bullet e f c" "y + bullet e f c"]
        Cons [of bold f "x + bullet e f c + advance cd" "y + bullet e f c + advance cd"]
      by (auto simp: Let_def textures_def split: prod.splits)
  qed
qed simp

section \<open>The dictionary of textures\<close>

text \<open>It maps every texture that was used to its place in the order of their first use.\<close>

definition texture_map :: "theap \<Rightarrow> nat list \<Rightarrow> bool" where
  "texture_map h ts \<longleftrightarrow> distinct ts \<and> finite (dom (hp_dnodes h)) \<and>
     (\<exists>bs. is_dict h ADDRESSMAP bs \<and> entries_of (hp_dnodes h) bs = zip (map int ts) (map key_ptr [0..<length ts]))"

lemma ptr_key_ptr [simp]: "ptr_key (key_ptr k) = k"
  by (simp add: ptr_key_def key_ptr_def)

lemma get_loop_node: "chain (as_nodes (hp_dnodes h)) p as \<Longrightarrow> get_loop k p h = Some (Some a) \<Longrightarrow> hp_dnodes h a \<noteq> None"
proof (induction as arbitrary: p)
  case (Cons b as)
  then obtain n where n: "p = Some b" "hp_dnodes h b = Some n" "chain (as_nodes (hp_dnodes h)) (dn_next n) as"
    by (auto dest: as_nodes_SomeD)
  show ?case
  proof (cases "dn_key n = k")
    case True
    then show ?thesis using Cons.prems(2) n by (simp add: get_loop.simps)
  next
    case False
    then have "get_loop k (dn_next n) h = Some (Some a)" using Cons.prems(2) n by (simp add: get_loop.simps [of k "Some b"])
    then show ?thesis using Cons.IH [OF n(3)] by blast
  qed
qed (simp add: get_loop.simps)

lemma texture_found:
  assumes "texture_map h ts" "k < length ts"
  shows "\<exists>a n. dict_get (Some ADDRESSMAP) (int (ts ! k)) h = Some (Some a) \<and> hp_dnodes h a = Some n \<and> ptr_key (dn_value n) = k"
proof -
  obtain bs where bs: "is_dict h ADDRESSMAP bs" "entries_of (hp_dnodes h) bs = zip (map int ts) (map key_ptr [0..<length ts])"
    and d: "distinct ts" using assms(1) by (auto simp: texture_map_def)
  have "map_of (zip (map int ts) (map key_ptr [0..<length ts])) (map int ts ! k) = Some (map key_ptr [0..<length ts] ! k)"
    by (rule map_of_zip_nth) (use assms(2) d in \<open>auto simp: distinct_map\<close>)
  then have m: "map_of (entries_of (hp_dnodes h) bs) (int (ts ! k)) = Some (key_ptr k)" using assms(2) bs(2) by simp
  obtain r where r: "dict_get (Some ADDRESSMAP) (int (ts ! k)) h = Some r"
    "map_option (\<lambda>a. dn_value (the (hp_dnodes h a))) r = Some (key_ptr k)"
    using dict_get_finds_first [OF bs(1), of "int (ts ! k)"] m by auto
  then obtain a where a: "r = Some a" "dn_value (the (hp_dnodes h a)) = key_ptr k" by auto
  have "hp_dnodes h a \<noteq> None" using bs(1) r(1) a(1) get_loop_node by (fastforce simp: is_dict_def dict_get_def)
  then show ?thesis using r(1) a by auto
qed

lemma texture_missing:
  assumes "texture_map h ts" "tex \<notin> set ts"
  shows "dict_get (Some ADDRESSMAP) (int tex) h = Some None"
proof -
  obtain bs where bs: "is_dict h ADDRESSMAP bs" "entries_of (hp_dnodes h) bs = zip (map int ts) (map key_ptr [0..<length ts])"
    using assms(1) by (auto simp: texture_map_def)
  have "map_of (entries_of (hp_dnodes h) bs) (int tex) = None"
    unfolding bs(2) map_of_eq_None_iff
  proof
    assume "int tex \<in> fst ` set (zip (map int ts) (map key_ptr [0..<length ts]))"
    then obtain b where "(int tex, b) \<in> set (zip (map int ts) (map key_ptr [0..<length ts]))" by auto
    from set_zip_leftD [OF this] show False using assms(2) by auto
  qed
  then show ?thesis using dict_get_finds_first [OF bs(1), of "int tex"] by auto
qed

text \<open>The laws of the allocator: it gives no address in use, and while a finite number is in use it gives one.\<close>

definition textenv_ok :: "textenv \<Rightarrow> bool" where
  "textenv_ok e \<longleftrightarrow> fresh_alloc (te_dnode e) \<and> fresh_alloc (te_node e) \<and> (\<forall>D a. te_data e D = Some a \<longrightarrow> a \<notin> D) \<and>
     (\<forall>N. finite (dom N) \<longrightarrow> te_dnode e N \<noteq> None) \<and> (\<forall>N. finite (dom N) \<longrightarrow> te_node e N \<noteq> None) \<and>
     (\<forall>D. finite D \<longrightarrow> te_data e D \<noteq> None) \<and> (\<forall>f. 1 < fd_h (te_font e f))"

lemma dict_append_frame:
  "dict_append alloc d k v h = Some (r, h') \<Longrightarrow>
    \<exists>N M. h' = h\<lparr>hp_dnodes := N, hp_dicts := M\<rparr> \<and> (finite (dom (hp_dnodes h)) \<longrightarrow> finite (dom N))"
  by (auto simp: dict_append_def bind_eq_Some_conv dict_ops Let_def split: option.splits)

lemma texture_added:
  assumes "textenv_ok e" "texture_map h ts" "tex \<notin> set ts"
  shows "\<exists>a h'. dict_append (te_dnode e) ADDRESSMAP (int tex) (key_ptr (length ts)) h = Some (Some a, h') \<and>
    texture_map h' (ts @ [tex]) \<and> (\<exists>N M. h' = h\<lparr>hp_dnodes := N, hp_dicts := M\<rparr>)"
proof -
  obtain bs where bs: "is_dict h ADDRESSMAP bs" "entries_of (hp_dnodes h) bs = zip (map int ts) (map key_ptr [0..<length ts])"
    and d: "distinct ts" "finite (dom (hp_dnodes h))" using assms(2) by (auto simp: texture_map_def)
  obtain a where a: "te_dnode e (hp_dnodes h) = Some a" using assms(1) d(2) by (auto simp: textenv_ok_def)
  have f: "fresh_alloc (te_dnode e)" using assms(1) by (simp add: textenv_ok_def)
  obtain h' where h': "dict_append (te_dnode e) ADDRESSMAP (int tex) (key_ptr (length ts)) h = Some (Some a, h')"
    "is_dict h' ADDRESSMAP (bs @ [a])"
    "entries_of (hp_dnodes h') (bs @ [a]) = entries_of (hp_dnodes h) bs @ [(int tex, key_ptr (length ts))]"
    using dict_append_appends [OF f a bs(1)] by blast
  obtain N M where n: "h' = h\<lparr>hp_dnodes := N, hp_dicts := M\<rparr>" "finite (dom N)"
    using dict_append_frame [OF h'(1)] d(2) by auto
  have "texture_map h' (ts @ [tex])" unfolding texture_map_def
    using d assms(3) h'(2,3) bs(2) n by (auto intro!: exI [of _ "bs @ [a]"])
  then show ?thesis using h'(1) n(1) by blast
qed

lemma add_tex_present: "tex \<in> set ts \<Longrightarrow> add_tex tex ts = ts"
  by (simp add: add_tex_def)

lemma measure_loop_measures:
  assumes "textenv_ok e"
  shows "texture_map (tx_mem t) ts \<Longrightarrow> textrender_fontkey t = length ts \<Longrightarrow> drawable e str bold (textrender_font t) \<Longrightarrow>
    ts' = fold add_tex (textures (fst (layout e str bold (textrender_font t) hs))) ts \<Longrightarrow>
    \<exists>N M. measure_loop e str bold hs t = Some (snd (layout e str bold (textrender_font t) hs),
        t\<lparr>textrender_font := font_after str bold (textrender_font t), textrender_fontkey := length ts',
          tx_mem := (tx_mem t)\<lparr>hp_dnodes := N, hp_dicts := M\<rparr>\<rparr>) \<and>
      texture_map ((tx_mem t)\<lparr>hp_dnodes := N, hp_dicts := M\<rparr>) ts'"
proof (induction str arbitrary: bold hs t ts)
  case Nil
  then show ?case by (intro exI [of _ "hp_dnodes (tx_mem t)"] exI [of _ "hp_dicts (tx_mem t)"]) (simp add: textures_def)
next
  case (Cons c str)
  let ?f = "textrender_font t"
  consider "c = CHR '' ''" | "c = CHR 0x5C" | cd where "c \<noteq> CHR '' ''" "c \<noteq> CHR 0x5C" "char_at e ?f c = Some cd"
    using Cons.prems(3) by (auto split: if_splits)
  then show ?case
  proof cases
    case 1
    then show ?thesis using Cons.IH [OF Cons.prems(1,2), of bold "hs + spacesize e ?f"] Cons.prems(3,4) by simp
  next
    case 2
    let ?t = "t\<lparr>textrender_font := bold_font (\<not> bold)\<rparr>"
    show ?thesis using 2 Cons.IH [of ?t ts "\<not> bold" hs] Cons.prems by simp
  next
    case 3
    note c = 3
    have dr: "drawable e str bold ?f" using Cons.prems(3) c by simp
    show ?thesis
    proof (cases "ch_tex cd")
      case None
      then show ?thesis using c Cons.IH [OF Cons.prems(1,2) dr, of "hs + bullet e ?f c"] Cons.prems(4) by simp
    next
      case (Some tex)
      let ?x = "hs + bullet e ?f c + advance cd"
      have lay: "layout e (c # str) bold ?f hs = (let (gs, w) = layout e str bold ?f ?x in ((hs + bullet e ?f c, ?f, cd) # gs, w))"
        using c Some by (simp add: Let_def)
      have ts': "ts' = fold add_tex (textures (fst (layout e str bold ?f ?x))) (add_tex tex ts)"
        using Cons.prems(4) unfolding lay by (simp add: textures_def Some split: prod.splits)
      have w: "snd (layout e (c # str) bold ?f hs) = snd (layout e str bold ?f ?x)" unfolding lay by (simp split: prod.splits)
      have fa: "font_after (c # str) bold ?f = font_after str bold ?f" using c(2) by simp
      show ?thesis
      proof (cases "tex \<in> set ts")
        case True
        then obtain k where "k < length ts" "ts ! k = tex" by (auto simp: in_set_conv_nth)
        then obtain a where "dict_get (Some ADDRESSMAP) (int tex) (tx_mem t) = Some (Some a)"
          using texture_found [OF Cons.prems(1)] by blast
        then have s: "measure_loop e (c # str) bold hs t = measure_loop e str bold ?x t"
          using c Some by (simp add: Let_def)
        show ?thesis unfolding s w fa using Cons.IH [OF Cons.prems(1,2) dr, of ?x] ts'
          by (simp add: True add_tex_present)
      next
        case False
        obtain a h N M where h: "dict_append (te_dnode e) ADDRESSMAP (int tex) (key_ptr (length ts)) (tx_mem t) = Some (Some a, h)"
          "texture_map h (ts @ [tex])" "h = (tx_mem t)\<lparr>hp_dnodes := N, hp_dicts := M\<rparr>"
          using texture_added [OF assms Cons.prems(1) False] by blast
        let ?t = "t\<lparr>tx_mem := h, textrender_fontkey := Suc (textrender_fontkey t)\<rparr>"
        have s: "measure_loop e (c # str) bold hs t = measure_loop e str bold ?x ?t"
          using c Some texture_missing [OF Cons.prems(1) False] h(1) Cons.prems(2) by (simp add: Let_def)
        have "add_tex tex ts = ts @ [tex]" using False by (simp add: add_tex_def)
        then show ?thesis unfolding s w fa using Cons.IH [of ?t "ts @ [tex]" bold ?x] h(2,3) dr ts' Cons.prems(2) by simp
      qed
    qed
  qed
qed

section \<open>Placing letters\<close>

text \<open>
  The lists of the letters: each owns its letters, and they share neither nodes nor letters.
\<close>

definition letters_ok :: "theap \<Rightarrow> (nat \<Rightarrow> nat list) \<Rightarrow> (nat \<Rightarrow> nat list) \<Rightarrow> bool" where
  "letters_ok h ass ds \<longleftrightarrow> (\<forall>i<MAXMIMUM_FONTTEXTURES. holds h (LOADLIST + i) (ass i) (ds i)) \<and>
     (\<forall>i<MAXMIMUM_FONTTEXTURES. \<forall>j<MAXMIMUM_FONTTEXTURES. i \<noteq> j \<longrightarrow>
       set (ass i) \<inter> set (ass j) = {} \<and> set (ds i) \<inter> set (ds j) = {}) \<and>
     (\<forall>i<MAXMIMUM_FONTTEXTURES. \<forall>d\<in>set (ds i). hp_letters h d \<noteq> None) \<and> finite (dom (hp_nodes h)) \<and> finite (hp_data h)"

definition shown :: "theap \<Rightarrow> (nat \<Rightarrow> nat list) \<Rightarrow> nat \<Rightarrow> letterDef list" where
  "shown h ds i = map (\<lambda>d. the (hp_letters h d)) (ds i)"

lemma texture_map_cong:
  "hp_dnodes h' = hp_dnodes h \<Longrightarrow> hp_dicts h' = hp_dicts h \<Longrightarrow> texture_map h' ts = texture_map h ts"
  by (simp add: texture_map_def is_dict_def)

lemma letters_ok_dict [simp]: "letters_ok (h\<lparr>hp_dnodes := N, hp_dicts := M\<rparr>) ass ds = letters_ok h ass ds"
  "shown (h\<lparr>hp_dnodes := N, hp_dicts := M\<rparr>) ds = shown h ds"
  by (simp_all add: letters_ok_def holds_def is_list_def shown_def fun_eq_iff)

lemma list_append_finite:
  "list_append alloc (Some l) d h = Some (r, h') \<Longrightarrow> finite (dom (hp_nodes h)) \<Longrightarrow> finite (dom (hp_nodes h'))"
  by (auto simp: list_append_def bind_eq_Some_conv heap_ops Let_def split: option.splits)

lemma other_memory_theap:
  fixes h h' :: theap
  assumes "other_memory h h'"
  shows "hp_letters h' = hp_letters h" "hp_dnodes h' = hp_dnodes h" "hp_dicts h' = hp_dicts h"
  using assms by (cases h; cases h'; simp add: other_memory_def)+

lemma holds_nodes: "holds h l as ds \<Longrightarrow> a \<in> set as \<Longrightarrow> hp_nodes h a \<noteq> None"
  using chain_dom by (fastforce simp: holds_def elim!: is_listD)

lemma letters_append:
  assumes "letters_ok h ass ds" "k < MAXMIMUM_FONTTEXTURES" "textenv_ok e" "d \<notin> hp_data h"
  shows "\<exists>a h'. list_append (te_node e) (Some (LOADLIST + k)) (Some d)
      (h\<lparr>hp_data := insert d (hp_data h), hp_letters := (hp_letters h)(d \<mapsto> l)\<rparr>) = Some (Some a, h') \<and>
    letters_ok h' (ass(k := ass k @ [a])) (ds(k := ds k @ [d])) \<and> hp_letters h' = (hp_letters h)(d \<mapsto> l) \<and>
    hp_dnodes h' = hp_dnodes h \<and> hp_dicts h' = hp_dicts h"
proof -
  let ?k = "h\<lparr>hp_data := insert d (hp_data h), hp_letters := (hp_letters h)(d \<mapsto> l)\<rparr>"
  have i: "\<forall>i<32. holds h (LOADLIST + i) (ass i) (ds i)"
    "\<forall>i<32. \<forall>j<32. i \<noteq> j \<longrightarrow> set (ass i) \<inter> set (ass j) = {} \<and> set (ds i) \<inter> set (ds j) = {}"
    "\<forall>i<32. \<forall>d\<in>set (ds i). hp_letters h d \<noteq> None" "finite (dom (hp_nodes h))" "finite (hp_data h)"
    using assms(1) by (simp_all add: letters_ok_def)
  have keep: "holds ?k (LOADLIST + i) (ass i) (ds i)" if "i < 32" for i
    by (rule holds_frame [of h]) (use i(1) that in \<open>auto simp: holds_def\<close>)
  have new: "d \<notin> set (ds i)" if "i < 32" for i using i(1) that assms(4) by (auto simp: holds_def)
  obtain a where a: "te_node e (hp_nodes h) = Some a" using assms(3) i(4) by (auto simp: textenv_ok_def)
  have f: "fresh_alloc (te_node e)" using assms(3) by (simp add: textenv_ok_def)
  obtain h' where h': "list_append (te_node e) (Some (LOADLIST + k)) (Some d) ?k = Some (Some a, h')"
    "holds h' (LOADLIST + k) (ass k @ [a]) (ds k @ [d])" "other_memory ?k h'" "hp_data h' = insert d (hp_data h)"
    "\<forall>l' bs es. l' \<noteq> LOADLIST + k \<longrightarrow> holds ?k l' bs es \<longrightarrow> set bs \<inter> set (ass k) = {} \<longrightarrow> holds h' l' bs es" "hp_nodes h a = None"
    using append_owned [OF f _ keep [OF assms(2)] new [OF assms(2)], of a] a by auto
  note m = other_memory_theap [OF h'(3)]
  have an: "a \<notin> set (ass i)" if "i < 32" for i using holds_nodes i(1) that h'(6) by fastforce
  have "letters_ok h' (ass(k := ass k @ [a])) (ds(k := ds k @ [d]))"
    unfolding letters_ok_def
  proof (intro conjI allI impI)
    fix i j :: nat
    assume i32: "i < 32"
    show "holds h' (LOADLIST + i) ((ass(k := ass k @ [a])) i) ((ds(k := ds k @ [d])) i)"
      using h'(2,5) keep [OF i32] i(2) i32 assms(2) by (cases "i = k") auto
    assume "j < 32" "i \<noteq> j"
    then show "set ((ass(k := ass k @ [a])) i) \<inter> set ((ass(k := ass k @ [a])) j) = {}"
      "set ((ds(k := ds k @ [d])) i) \<inter> set ((ds(k := ds k @ [d])) j) = {}"
      using i(2) i32 an new by auto
  next
    show "\<forall>d'\<in>set ((ds(k := ds k @ [d])) i). hp_letters h' d' \<noteq> None" if "i < 32" for i
      using i(3) that m(1) by auto
    show "finite (dom (hp_nodes h'))" using list_append_finite [OF h'(1)] i(4) by simp
    show "finite (hp_data h')" using h'(4) i(5) by simp
  qed
  then show ?thesis using h'(1) m by auto
qed

definition glyph_letter :: "textenv \<Rightarrow> textlib \<Rightarrow> u16 \<Rightarrow> glyph \<Rightarrow> letterDef" where
  "glyph_letter e t y = (\<lambda>(x, f, cdef). new_letter (t\<lparr>textrender_font := f\<rparr>) cdef (ucast x) (the (letter_y e f cdef y)))"

definition with_texture :: "nat list \<Rightarrow> nat \<Rightarrow> glyph list \<Rightarrow> glyph list" where
  "with_texture ts k gs = filter (\<lambda>(_, _, cdef). k < length ts \<and> ch_tex cdef = Some (ts ! k)) gs"

lemma letter_y_some: "textenv_ok e \<Longrightarrow> letter_y e f cd y \<noteq> None"
proof -
  assume "textenv_ok e"
  then have "1 < fd_h (te_font e f)" by (simp add: textenv_ok_def)
  then have "unat (fd_h (te_font e f) div 2) \<noteq> 0" by (simp add: unat_div word_less_nat_alt)
  then have "fd_h (te_font e f) div 2 \<noteq> 0" by (metis unat_0)
  then show ?thesis by (simp add: letter_y_def Let_def)
qed

lemma add_letter_adds:
  assumes "textenv_ok e" "texture_map (tx_mem t) ts" "k < length ts" "length ts \<le> MAXMIMUM_FONTTEXTURES" "letters_ok (tx_mem t) ass ds"
  shows "\<exists>h ass' ds'. add_letter e cd (ts ! k) x y t = Some (t\<lparr>tx_mem := h\<rparr>) \<and> texture_map h ts \<and>
    letters_ok h ass' ds' \<and>
    (\<forall>i<MAXMIMUM_FONTTEXTURES. shown h ds' i = shown (tx_mem t) ds i @
      (if i = k then [glyph_letter e t y (x, textrender_font t, cd)] else []))"
proof -
  let ?h = "tx_mem t"
  obtain a n where a: "dict_get (Some ADDRESSMAP) (int (ts ! k)) ?h = Some (Some a)" "hp_dnodes ?h a = Some n" "ptr_key (dn_value n) = k"
    using texture_found [OF assms(2,3)] by blast
  have k: "k < 32" using assms(3,4) by simp
  obtain d where d: "te_data e (hp_data ?h) = Some d" "d \<notin> hp_data ?h"
    using assms(1,5) by (auto simp: textenv_ok_def letters_ok_def)
  obtain ly where ly: "letter_y e (textrender_font t) cd y = Some ly" using letter_y_some [OF assms(1)] by blast
  let ?l = "new_letter t cd (ucast x) ly"
  obtain b h where h: "list_append (te_node e) (Some (LOADLIST + k)) (Some d)
      (?h\<lparr>hp_data := insert d (hp_data ?h), hp_letters := (hp_letters ?h)(d \<mapsto> ?l)\<rparr>) = Some (Some b, h)"
    "letters_ok h (ass(k := ass k @ [b])) (ds(k := ds k @ [d]))" "hp_letters h = (hp_letters ?h)(d \<mapsto> ?l)"
    "hp_dnodes h = hp_dnodes ?h" "hp_dicts h = hp_dicts ?h"
    using letters_append [OF assms(5) k assms(1) d(2)] by blast
  have s: "add_letter e cd (ts ! k) x y t = Some (t\<lparr>tx_mem := h\<rparr>)"
    using a d(1) ly h(1) k by (simp add: add_letter_def Let_def)
  have "d \<notin> set (ds i)" if "i < 32" for i using assms(5) d(2) that by (auto simp: letters_ok_def holds_def)
  then have "\<forall>i<32. shown h (ds(k := ds k @ [d])) i = shown ?h ds i @ (if i = k then [?l] else [])"
    using h(3) by (auto simp: shown_def)
  moreover have "glyph_letter e t y (x, textrender_font t, cd) = ?l" using ly by (simp add: glyph_letter_def)
  moreover have "texture_map h ts" using texture_map_cong [OF h(4,5)] assms(2) by simp
  ultimately show ?thesis using s h(2) by (intro exI [of _ h] exI [of _ "ass(k := ass k @ [b])"] exI [of _ "ds(k := ds k @ [d])"]) simp
qed

lemma glyph_letter_font [simp]:
  "glyph_letter e (t\<lparr>textrender_font := f\<rparr>) = glyph_letter e t" "glyph_letter e (t\<lparr>tx_mem := h\<rparr>) = glyph_letter e t"
  "glyph_letter e (t\<lparr>textrender_fontkey := k\<rparr>) = glyph_letter e t"
  by (simp_all add: glyph_letter_def new_letter_def fun_eq_iff)

lemma place_loop_places:
  assumes "textenv_ok e" "length ts \<le> MAXMIMUM_FONTTEXTURES"
  shows "texture_map (tx_mem t) ts \<Longrightarrow> letters_ok (tx_mem t) ass ds \<Longrightarrow> drawable e str bold (textrender_font t) \<Longrightarrow>
    set (textures (fst (layout e str bold (textrender_font t) x))) \<subseteq> set ts \<Longrightarrow>
    \<exists>h ass' ds'. place_loop e y str bold x t = Some (t\<lparr>textrender_font := font_after str bold (textrender_font t), tx_mem := h\<rparr>) \<and>
      texture_map h ts \<and> letters_ok h ass' ds' \<and>
      (\<forall>i<MAXMIMUM_FONTTEXTURES. shown h ds' i = shown (tx_mem t) ds i @
        map (glyph_letter e t y) (with_texture ts i (fst (layout e str bold (textrender_font t) x))))"
proof (induction str arbitrary: bold x t ass ds)
  case Nil
  have "place_loop e y [] bold x t = Some (t\<lparr>textrender_font := font_after [] bold (textrender_font t), tx_mem := tx_mem t\<rparr>)" by simp
  moreover have "with_texture ts i (fst (layout e [] bold (textrender_font t) x)) = []" for i by (simp add: with_texture_def)
  ultimately show ?case using Nil.prems(1,2) by fastforce
next
  case (Cons c str)
  let ?f = "textrender_font t"
  consider "c = CHR '' ''" | "c = CHR 0x5C" | cd where "c \<noteq> CHR '' ''" "c \<noteq> CHR 0x5C" "char_at e ?f c = Some cd"
    using Cons.prems(3) by (auto split: if_splits)
  then show ?case
  proof cases
    case 1
    then show ?thesis using Cons.IH [OF Cons.prems(1,2), of bold "x + spacesize e ?f"] Cons.prems(3,4) by simp
  next
    case 2
    then show ?thesis using Cons.IH [of "t\<lparr>textrender_font := bold_font (\<not> bold)\<rparr>" ass ds "\<not> bold" x] Cons.prems by simp
  next
    case 3
    note c = 3
    have dr: "drawable e str bold ?f" using Cons.prems(3) c by simp
    show ?thesis
    proof (cases "ch_tex cd")
      case None
      then show ?thesis using c Cons.IH [OF Cons.prems(1,2) dr, of "x + bullet e ?f c"] Cons.prems(4) by simp
    next
      case (Some tex)
      let ?x = "x + bullet e ?f c" and ?gs = "fst (layout e str bold ?f (x + bullet e ?f c + advance cd))"
      have lay: "fst (layout e (c # str) bold ?f x) = (?x, ?f, cd) # ?gs"
        using c Some by (simp add: Let_def split: prod.splits)
      have sub: "tex \<in> set ts" "set (textures ?gs) \<subseteq> set ts" using Cons.prems(4) unfolding lay by (simp_all add: textures_def Some)
      obtain k where k: "k < length ts" "ts ! k = tex" using sub(1) by (auto simp: in_set_conv_nth)
      have dist: "distinct ts" using Cons.prems(1) by (simp add: texture_map_def)
      obtain h ass' D where h: "add_letter e cd tex ?x y t = Some (t\<lparr>tx_mem := h\<rparr>)" "texture_map h ts"
        "letters_ok h ass' D"
        "\<forall>i<32. shown h D i = shown (tx_mem t) ds i @ (if i = k then [glyph_letter e t y (?x, ?f, cd)] else [])"
        using add_letter_adds [OF assms(1) Cons.prems(1) k(1) assms(2) Cons.prems(2), of cd ?x y] k(2) by auto
      let ?t = "t\<lparr>tx_mem := h\<rparr>"
      have s: "place_loop e y (c # str) bold x t = place_loop e y str bold (?x + advance cd) ?t"
        using c Some h(1) by (simp add: Let_def)
      obtain h' ass2 ds2 where h': "place_loop e y str bold (?x + advance cd) ?t =
          Some (?t\<lparr>textrender_font := font_after str bold ?f, tx_mem := h'\<rparr>)" "texture_map h' ts" "letters_ok h' ass2 ds2"
        "\<forall>i<32. shown h' ds2 i = shown h D i @ map (glyph_letter e t y) (with_texture ts i ?gs)"
        using Cons.IH [of ?t ass' D bold "?x + advance cd"] h(2,3) dr sub(2) by auto
      have w: "with_texture ts i ((?x, ?f, cd) # ?gs) = (if i = k then [(?x, ?f, cd)] else []) @ with_texture ts i ?gs" for i
        using Some k dist by (auto simp: with_texture_def nth_eq_iff_index_eq)
      have fa: "font_after (c # str) bold ?f = font_after str bold ?f" using c(2) by simp
      have "\<forall>i<32. shown h' ds2 i = shown (tx_mem t) ds i @ map (glyph_letter e t y) (with_texture ts i ((?x, ?f, cd) # ?gs))"
        using h'(4) h(4) by (simp add: w)
      then show ?thesis unfolding s lay fa using h'(1-3) by (intro exI [of _ h'] exI [of _ ass2] exI [of _ ds2]) simp
    qed
  qed
qed

section \<open>A text on the screen\<close>

lemma fold_add_tex: "\<exists>new. fold add_tex xs ts = ts @ new \<and> set (fold add_tex xs ts) = set ts \<union> set xs"
proof (induction xs arbitrary: ts)
  case (Cons x xs)
  have a: "\<exists>new. add_tex x ts = ts @ new" "set (add_tex x ts) = insert x (set ts)" by (auto simp: add_tex_def)
  obtain n where n: "fold add_tex xs (add_tex x ts) = add_tex x ts @ n"
    "set (fold add_tex xs (add_tex x ts)) = set (add_tex x ts) \<union> set xs" using Cons [of "add_tex x ts"] by blast
  have "\<exists>new. fold add_tex (x # xs) ts = ts @ new" using a(1) n(1) by (metis append.assoc comp_apply fold_simps(2))
  moreover have "set (fold add_tex (x # xs) ts) = set ts \<union> set (x # xs)" using a(2) n(2) by auto
  ultimately show ?case by blast
qed simp

text \<open>The state of the library: \<open>ts\<close> are the textures it has used, \<open>ds\<close> the letters of each list.\<close>

definition text_inv :: "textlib \<Rightarrow> nat list \<Rightarrow> (nat \<Rightarrow> nat list) \<Rightarrow> bool" where
  "text_inv t ts ds \<longleftrightarrow> texture_map (tx_mem t) ts \<and> textrender_fontkey t = length ts \<and> length ts \<le> MAXMIMUM_FONTTEXTURES \<and>
     (\<exists>ass. letters_ok (tx_mem t) ass ds) \<and>
     (\<forall>i<MAXMIMUM_FONTTEXTURES. \<forall>l\<in>set (shown (tx_mem t) ds i). i < length ts \<and> ch_tex (lt_cdef l) = Some (ts ! i))"

lemma create_places:
  assumes "textenv_ok e" "text_inv t ts ds" "drawable e str False (textrender_font t)"
    and "font_after str False (textrender_font t) = textrender_font t"
    and "gs = fst (layout e str False (textrender_font t) (align_x (textrender_align t) x (text_width e str (textrender_font t))))"
    and "ts' = fold add_tex (textures gs) ts" "length ts' \<le> MAXMIMUM_FONTTEXTURES"
  shows "\<exists>h ds'. text_create_t e str x y t = Some (t\<lparr>textrender_fontkey := length ts', tx_mem := h\<rparr>) \<and>
    text_inv (t\<lparr>textrender_fontkey := length ts', tx_mem := h\<rparr>) ts' ds' \<and>
    (\<forall>i<MAXMIMUM_FONTTEXTURES. shown h ds' i = shown (tx_mem t) ds i @ map (glyph_letter e t y) (with_texture ts' i gs))"
proof -
  let ?f = "textrender_font t" and ?w = "text_width e str (textrender_font t)"
  have i: "texture_map (tx_mem t) ts" "textrender_fontkey t = length ts" "length ts \<le> 32"
    "\<forall>i<32. \<forall>l\<in>set (shown (tx_mem t) ds i). i < length ts \<and> ch_tex (lt_cdef l) = Some (ts ! i)"
    using assms(2) by (simp_all add: text_inv_def)
  obtain ass where ass: "letters_ok (tx_mem t) ass ds" using assms(2) by (auto simp: text_inv_def)
  have ts': "ts' = fold add_tex (textures (fst (layout e str False ?f 0))) ts"
    using assms(6) layout_textures unfolding assms(5) by metis
  let ?t = "\<lambda>h. t\<lparr>textrender_font := font_after str False ?f, textrender_fontkey := length ts', tx_mem := h\<rparr>"
  obtain N M where m: "measure_loop e str False 0 t = Some (?w, ?t ((tx_mem t)\<lparr>hp_dnodes := N, hp_dicts := M\<rparr>))"
    "texture_map ((tx_mem t)\<lparr>hp_dnodes := N, hp_dicts := M\<rparr>) ts'"
    using measure_loop_measures [OF assms(1) i(1,2) assms(3) ts'] unfolding text_width_def by blast
  let ?h = "(tx_mem t)\<lparr>hp_dnodes := N, hp_dicts := M\<rparr>"
  let ?x = "align_x (textrender_align t) x ?w"
  obtain new where n: "ts' = ts @ new" "set ts' = set ts \<union> set (textures gs)" using fold_add_tex [of "textures gs" ts] assms(6) by auto
  have mem: "tx_mem (?t ?h) = ?h" "textrender_font (?t ?h) = ?f" using assms(4) by simp_all
  obtain h ass' ds' where h: "place_loop e y str False ?x (?t ?h) = Some (?t ?h\<lparr>textrender_font := font_after str False ?f, tx_mem := h\<rparr>)"
    "texture_map h ts'" "letters_ok h ass' ds'"
    "\<forall>i<32. shown h ds' i = shown ?h ds i @ map (glyph_letter e (?t ?h) y) (with_texture ts' i gs)"
    using place_loop_places [OF assms(1,7), of "?t ?h" ass ds str False ?x y] m(2) ass assms(3) n(2) unfolding mem assms(5) by auto
  have f: "?t ?h\<lparr>textrender_font := font_after str False ?f, tx_mem := h\<rparr> = t\<lparr>textrender_fontkey := length ts', tx_mem := h\<rparr>"
    using assms(4) by simp
  have c: "text_create_t e str x y t = Some (t\<lparr>textrender_fontkey := length ts', tx_mem := h\<rparr>)"
    using m(1) h(1) f by (simp add: text_create_t_def)
  have g: "glyph_letter e (?t ?h) y = glyph_letter e t y" by simp
  have new: "i < length ts' \<and> ch_tex (lt_cdef l) = Some (ts' ! i)" if "i < 32" "l \<in> set (shown h ds' i)" for i l
    using h(4) that i(4) n(1) by (auto simp: with_texture_def glyph_letter_def new_letter_def nth_append)
  have inv: "text_inv (t\<lparr>textrender_fontkey := length ts', tx_mem := h\<rparr>) ts' ds'"
    using h(2,3) assms(7) new by (auto simp: text_inv_def)
  show ?thesis by (rule exI [of _ h], rule exI [of _ ds']) (use c inv h(4) g in simp)
qed

section \<open>Clearing\<close>

lemma cleanup_step_frees:
  assumes "letters_ok h ass ds" "k < MAXMIMUM_FONTTEXTURES"
  shows "\<exists>h'. cleanup_step k h = Some h' \<and> letters_ok h' (ass(k := [])) (ds(k := [])) \<and> hp_data h' = hp_data h - set (ds k) \<and>
    hp_letters h' = hp_letters h \<and> hp_dnodes h' = hp_dnodes h \<and> hp_dicts h' = hp_dicts h"
proof -
  have k: "holds h (LOADLIST + k) (ass k) (ds k)" using assms by (simp add: letters_ok_def)
  obtain p where p: "hp_lists h (LOADLIST + k) = Some \<lparr>ll_size = int (length (ass k)), ll_head = p, ll_tail = last_ptr (ass k)\<rparr>"
    using k by (auto simp: holds_def elim!: is_listD)
  show ?thesis
  proof (cases "ass k = []")
    case True
    then have "ds k = []" using holds_lengths [OF k] by simp
    then have "ass(k := []) = ass" "ds(k := []) = ds" using True by auto
    then show ?thesis using p True assms(1) \<open>ds k = []\<close> by (simp add: cleanup_step_def)
  next
    case False
    let ?h = "set_list (LOADLIST + k) EMPTY_LINKEDLIST
      (h\<lparr>hp_nodes := (\<lambda>a. if a \<in> set (ass k) then None else hp_nodes h a), hp_data := hp_data h - set (ds k)\<rparr>)"
    have s: "cleanup_step k h = Some ?h" using p False destroy_owned [OF k] by (simp add: cleanup_step_def)
    have "holds ?h (LOADLIST + i) ((ass(k := [])) i) ((ds(k := [])) i)" if "i < 32" for i
    proof (cases "i = k")
      case True
      then show ?thesis by (simp add: holds_def is_list_def heap_ops EMPTY_LINKEDLIST_def)
    next
      case False
      have hi: "holds h (LOADLIST + i) (ass i) (ds i)" "set (ass i) \<inter> set (ass k) = {}" "set (ds i) \<inter> set (ds k) = {}"
        using assms that False by (simp_all add: letters_ok_def)
      then have "holds ?h (LOADLIST + i) (ass i) (ds i)"
        by (intro holds_frame [OF hi(1)]) (use False in \<open>auto simp: heap_ops holds_def\<close>)
      then show ?thesis using False by simp
    qed
    moreover have "finite (dom (hp_nodes ?h))"
      by (rule finite_subset [of _ "dom (hp_nodes h)"]) (use assms(1) in \<open>auto simp: letters_ok_def heap_ops split: if_splits\<close>)
    ultimately have "letters_ok ?h (ass(k := [])) (ds(k := []))"
      using assms(1) by (auto simp: letters_ok_def heap_ops)
    then show ?thesis using s by (auto simp: heap_ops)
  qed
qed

lemma cleanup_frees:
  assumes "letters_ok h ass ds" "n \<le> MAXMIMUM_FONTTEXTURES"
  shows "\<exists>h'. fold (\<lambda>i r. Option.bind r (cleanup_step i)) [0..<n] (Some h) = Some h' \<and>
    letters_ok h' (\<lambda>i. if i < n then [] else ass i) (\<lambda>i. if i < n then [] else ds i) \<and>
    hp_data h' = hp_data h - (\<Union>i<n. set (ds i)) \<and> hp_dnodes h' = hp_dnodes h \<and> hp_dicts h' = hp_dicts h"
  using assms(2)
proof (induction n)
  case 0
  then show ?case using assms(1) by simp
next
  case (Suc n)
  then obtain h' where h': "fold (\<lambda>i r. Option.bind r (cleanup_step i)) [0..<n] (Some h) = Some h'"
    "letters_ok h' (\<lambda>i. if i < n then [] else ass i) (\<lambda>i. if i < n then [] else ds i)"
    "hp_data h' = hp_data h - (\<Union>i<n. set (ds i))" "hp_dnodes h' = hp_dnodes h" "hp_dicts h' = hp_dicts h" by auto
  obtain k where k: "cleanup_step n h' = Some k"
    "letters_ok k ((\<lambda>i. if i < n then [] else ass i)(n := [])) ((\<lambda>i. if i < n then [] else ds i)(n := []))"
    "hp_data k = hp_data h' - set (ds n)" "hp_dnodes k = hp_dnodes h'" "hp_dicts k = hp_dicts h'"
    using cleanup_step_frees [OF h'(2), of n] Suc.prems by auto
  have e: "(\<lambda>i. if i < n then [] else f i)(n := []) = (\<lambda>i. if i < Suc n then [] else f i)" for f :: "nat \<Rightarrow> nat list"
    by (auto simp: fun_eq_iff)
  have "hp_data k = hp_data h - (\<Union>i<Suc n. set (ds i))" using k(3) h'(3) by (auto simp: lessThan_Suc)
  then show ?case using h'(1,4,5) k(1,2,4,5) unfolding e by simp
qed

text \<open>Starting the library and clearing it leave no letters; clearing frees what was there.\<close>

lemma initialize_inv:
  assumes "finite (dom (hp_nodes (tx_mem t)))" "finite (dom (hp_dnodes (tx_mem t)))" "finite (hp_data (tx_mem t))"
  shows "text_inv (text_initialize t) [] (\<lambda>_. [])"
  using assms by (auto simp: text_inv_def text_initialize_def text_reset_def text_setcolor_t_def text_setpos_def text_setalign_t_def
      text_setfont_t_def texture_map_def is_dict_def letters_ok_def holds_def is_list_def shown_def EMPTY_LINKEDLIST_def
      intro!: exI [of _ "[]"] exI [of _ "\<lambda>_. []"])

lemma cleanup_all:
  assumes "text_inv t ts ds"
  shows "\<exists>h. text_cleanup_t t = Some (t\<lparr>tx_mem := h\<rparr>) \<and> text_inv (t\<lparr>tx_mem := h\<rparr>) ts (\<lambda>_. []) \<and>
    hp_data h = hp_data (tx_mem t) - (\<Union>i<MAXMIMUM_FONTTEXTURES. set (ds i))"
proof -
  obtain ass where ass: "letters_ok (tx_mem t) ass ds" using assms by (auto simp: text_inv_def)
  obtain h where h: "fold (\<lambda>i r. Option.bind r (cleanup_step i)) [0..<32] (Some (tx_mem t)) = Some h"
    "letters_ok h (\<lambda>i. if i < 32 then [] else ass i) (\<lambda>i. if i < 32 then [] else ds i)"
    "hp_data h = hp_data (tx_mem t) - (\<Union>i<32. set (ds i))" "hp_dnodes h = hp_dnodes (tx_mem t)" "hp_dicts h = hp_dicts (tx_mem t)"
    using cleanup_frees [OF ass order.refl] by blast
  have "letters_ok h (\<lambda>_. []) (\<lambda>_. [])" using h(2) by (simp add: letters_ok_def)
  then have "text_inv (t\<lparr>tx_mem := h\<rparr>) ts (\<lambda>_. [])"
    using assms texture_map_cong [OF h(4,5)] by (auto simp: text_inv_def shown_def)
  then show ?thesis using h(1,3)
    by (intro exI [of _ h]) (simp add: text_cleanup_t_def del: upt_Suc upt_rec_numeral)
qed

section \<open>Rendering\<close>

lemma render_letters_draws:
  "chain (hp_nodes (tx_mem t)) p as \<Longrightarrow> data_of (hp_nodes (tx_mem t)) as = map Some ds \<Longrightarrow> set ds \<subseteq> hp_data (tx_mem t) \<Longrightarrow>
   \<forall>d\<in>set ds. hp_letters (tx_mem t) d \<noteq> None \<Longrightarrow>
   render_letters t p = Some (concat (map (\<lambda>d. draw_letter t (the (hp_letters (tx_mem t) d))) ds))"
proof (induction as arbitrary: p ds)
  case Nil
  then show ?case by (simp add: render_letters.simps)
next
  case (Cons a as)
  obtain n d ds' where n: "p = Some a" "hp_nodes (tx_mem t) a = Some n" "chain (hp_nodes (tx_mem t)) (ln_next n) as"
    "ds = d # ds'" "ln_data n = Some d" "data_of (hp_nodes (tx_mem t)) as = map Some ds'" using Cons.prems(1,2) by (cases ds) auto
  obtain l where l: "hp_letters (tx_mem t) d = Some l" "d \<in> hp_data (tx_mem t)" using Cons.prems(3,4) n(4) by auto
  show ?case using Cons.IH [OF n(3,6)] Cons.prems(3,4) n(1,2,4,5) l
    by (subst render_letters.simps) (simp add: get_letter_def)
qed

definition list_draws :: "textenv \<Rightarrow> textlib \<Rightarrow> letterDef list \<Rightarrow> draw list" where
  "list_draws e t ls = (case ls of [] \<Rightarrow> []
     | l # _ \<Rightarrow> LoadTexture (ch_tex (lt_cdef l)) (fd_w (te_font e (textrender_font t))) (fd_h (te_font e (textrender_font t)))
         # concat (map (draw_letter t) ls))"

lemma render_list_draws:
  assumes "letters_ok (tx_mem t) ass ds" "i < MAXMIMUM_FONTTEXTURES"
  shows "render_list e t i = Some (list_draws e t (shown (tx_mem t) ds i))"
proof -
  let ?h = "tx_mem t"
  have h: "holds ?h (LOADLIST + i) (ass i) (ds i)" "\<forall>d\<in>set (ds i). hp_letters ?h d \<noteq> None"
    using assms by (simp_all add: letters_ok_def)
  have d: "data_of (hp_nodes ?h) (ass i) = map Some (ds i)" "set (ds i) \<subseteq> hp_data ?h" using h(1) by (simp_all add: holds_def)
  obtain p where p: "chain (hp_nodes ?h) p (ass i)"
    "hp_lists ?h (LOADLIST + i) = Some \<lparr>ll_size = int (length (ass i)), ll_head = p, ll_tail = last_ptr (ass i)\<rparr>"
    using h(1) by (auto simp: holds_def elim!: is_listD)
  show ?thesis
  proof (cases "ds i")
    case Nil
    then show ?thesis using p holds_lengths [OF h(1)] by (simp add: render_list_def list_draws_def shown_def)
  next
    case (Cons d es)
    then obtain a bs where a: "ass i = a # bs" using holds_lengths [OF h(1)] by (cases "ass i") auto
    obtain n where n: "p = Some a" "hp_nodes ?h a = Some n" "ln_data n = Some d" using p(1) d(1) a Cons by auto
    obtain l where l: "hp_letters ?h d = Some l" "d \<in> hp_data ?h" using h(2) d(2) Cons by auto
    show ?thesis using render_letters_draws [OF p(1) d h(2)] p(2) n l a Cons
      by (simp add: render_list_def get_letter_def list_draws_def shown_def comp_def Let_def)
  qed
qed

lemma foldr_collects:
  "(\<And>i. i \<in> set xs \<Longrightarrow> f i = Some (g i)) \<Longrightarrow>
    foldr (\<lambda>i r. Option.bind (f i) (\<lambda>ds. map_option ((@) ds) r)) xs (Some []) = Some (concat (map g xs))"
  by (induction xs) auto

lemma text_render_draws:
  assumes "text_inv t ts ds"
  shows "text_render e t = Some (concat (map (\<lambda>i. list_draws e t (shown (tx_mem t) ds i)) [0..<MAXMIMUM_FONTTEXTURES]))"
proof -
  obtain ass where ass: "letters_ok (tx_mem t) ass ds" using assms by (auto simp: text_inv_def)
  show ?thesis unfolding text_render_def
    by (rule foldr_collects) (use render_list_draws [OF ass] in auto)
qed

lemma text_inv_settings [simp]:
  "text_inv (text_setfont_t f t) = text_inv t" "text_inv (text_setalign_t a t) = text_inv t"
  "text_inv (text_setcolor_t r g b c t) = text_inv t" "text_inv (text_setpos x y t) = text_inv t"
  by (simp_all add: text_inv_def text_setfont_t_def text_setalign_t_def text_setcolor_t_def text_setpos_def fun_eq_iff)

text \<open>The alignments in numbers, for a text that is not wider than its position: the text begins
  at the position, its middle is there, or it ends there.\<close>

theorem alignment_places_text:
  assumes "unat w \<le> unat x"
  shows "unat (align_x A_LEFT x w) = unat x \<and>
    unat (align_x A_CENTER x w) + unat w div 2 = unat x \<and> unat (align_x A_RIGHT x w) + unat w = unat x"
proof -
  have x: "unat (ucast x :: u32) = unat x" "unat x < 65536"
    using unsigned_less [of x, where 'a = nat] by (simp_all add: unsigned_ucast_eq take_bit_nat_eq_self)
  have "unat w < 65536" using assms x(2) by linarith
  then have "int (unat w) < 65536" by linarith
  then have u: "uint w < 65536" unfolding uint_nat .
  have "- (2 ^ 31) \<le> uint w" by (rule order_trans [of _ 0]) simp_all
  moreover have "uint w < 2 ^ 31" using u by simp
  ultimately have "signed_take_bit 31 (uint w) = uint w" by (rule signed_take_bit_int_eq_self)
  then have s: "sint w = int (unat w)" unfolding uint_nat [symmetric] by (simp only: sint_uint, simp)
  have sd: "int n sdiv 2 = int (n div 2)" for n by (cases n) (simp_all add: signed_divide_int_def zdiv_int)
  have half: "word_of_int (sint w sdiv 2) = (word_of_nat (unat w div 2) :: u32)"
    unfolding s sd by (simp only: of_int_of_nat_eq)
  have h: "unat (word_of_nat (unat w div 2) :: u32) = unat w div 2"
    using \<open>unat w < 65536\<close> by (simp add: unat_of_nat)
  have "unat (ucast x - w) = unat x - unat w" "unat (ucast x - word_of_nat (unat w div 2) :: u32) = unat x - unat w div 2"
    using assms x(1) h by (simp_all add: unat_sub word_le_nat_alt)
  then show ?thesis using assms by (simp add: align_x_def half x(1))
qed

lemma alignment_places_text_witness: "align_x A_CENTER 160 18 = 151 \<and> align_x A_RIGHT 160 18 = 142"
proof -
  have "unat (18 :: u32) \<le> unat (160 :: u16)" by simp
  from alignment_places_text [OF this] show ?thesis by (simp add: word_unat_eq_iff)
qed

text \<open>C14: a screen that is cleared, set up and given a text shows that text and nothing else: each texture
  the text needs is loaded once, and each letter is drawn once with its colour, place and image,
  left to right within its texture, at the place the alignment and the width of the text give.\<close>

theorem screen_shows_text:
  assumes "textenv_ok e" "text_inv t ts ds"
    and "drawable e str False f" "font_after str False f = f"
    and "s = text_setcolor_t r g b a (text_setalign_t al (text_setfont_t f t))"
    and "gs = fst (layout e str False f (align_x al x (text_width e str f)))"
    and "ts' = fold add_tex (textures gs) ts" "length ts' \<le> MAXMIMUM_FONTTEXTURES"
  shows "\<exists>t' ds'. Option.bind (text_cleanup_t t) (\<lambda>t. text_create_t e str x y
      (text_setcolor_t r g b a (text_setalign_t al (text_setfont_t f t)))) = Some t' \<and> text_inv t' ts' ds' \<and>
    text_render e t' = Some (concat (map (\<lambda>i. list_draws e s (map (glyph_letter e s y) (with_texture ts' i gs))) [0..<MAXMIMUM_FONTTEXTURES]))"
proof -
  obtain ass where ass: "letters_ok (tx_mem t) ass ds" using assms(2) by (auto simp: text_inv_def)
  obtain h where h: "text_cleanup_t t = Some (t\<lparr>tx_mem := h\<rparr>)" "text_inv (t\<lparr>tx_mem := h\<rparr>) ts (\<lambda>_. [])"
    using cleanup_all [OF assms(2)] by blast
  let ?s = "text_setcolor_t r g b a (text_setalign_t al (text_setfont_t f (t\<lparr>tx_mem := h\<rparr>)))"
  have sf: "textrender_font ?s = f" "textrender_align ?s = al" "tx_mem ?s = h"
    by (simp_all add: text_setcolor_t_def text_setalign_t_def text_setfont_t_def)
  have eq: "?s = s\<lparr>tx_mem := h\<rparr>" by (simp add: assms(5) text_setcolor_t_def text_setalign_t_def text_setfont_t_def)
  obtain k ds' where k: "text_create_t e str x y ?s = Some (?s\<lparr>textrender_fontkey := length ts', tx_mem := k\<rparr>)"
    "text_inv (?s\<lparr>textrender_fontkey := length ts', tx_mem := k\<rparr>) ts' ds'"
    "\<forall>i<32. shown k ds' i = shown (tx_mem ?s) (\<lambda>_. []) i @ map (glyph_letter e ?s y) (with_texture ts' i gs)"
    using create_places [OF assms(1), of ?s ts "\<lambda>_. []" str gs x ts' y] h(2) assms(3,4,6-8) by (auto simp: sf)
  let ?t = "?s\<lparr>textrender_fontkey := length ts', tx_mem := k\<rparr>"
  have g: "glyph_letter e ?s y = glyph_letter e s y" unfolding eq by simp
  have "draw_letter ?t = draw_letter s" unfolding eq by (simp add: draw_letter_def fun_eq_iff Let_def)
  then have "list_draws e ?t ls = list_draws e s ls" for ls unfolding eq by (cases ls) (simp_all add: list_draws_def)
  then have d: "list_draws e ?t = list_draws e s" by (rule ext)
  have "text_render e ?t = Some (concat (map (\<lambda>i. list_draws e ?t (shown k ds' i)) [0..<32]))"
    using text_render_draws [OF k(2)] by simp
  also have "map (\<lambda>i. list_draws e ?t (shown k ds' i)) [0..<32] =
      map (\<lambda>i. list_draws e s (map (glyph_letter e s y) (with_texture ts' i gs))) [0..<32]"
    using k(3) unfolding d g by (intro map_cong) (auto simp: shown_def)
  finally show ?thesis using h(1) k(1,2) by auto
qed

section \<open>Where the library goes wrong\<close>

text \<open>
  After an odd number of the characters that toggle bold text, the second pass begins in the font
  the first one ended in: a letter whose texture in that font has not been used goes through the
  node that is not found.
\<close>

theorem odd_bold_fails:
  assumes "textenv_ok e" "text_inv t ts ds" "textrender_font t = FONT_DEFAULT" "c \<noteq> CHR '' ''" "c \<noteq> CHR 0x5C"
    and "char_at e FONT_DEFAULT c = Some cd" "ch_tex cd = Some tex"
    and "char_at e FONT_DEFAULT_BOLD c = Some cb" "ch_tex cb = Some btex" "btex \<noteq> tex" "btex \<notin> set ts"
  shows "text_create_t e [c, CHR 0x5C] x y t = None"
proof -
  have i: "texture_map (tx_mem t) ts" "textrender_fontkey t = length ts" using assms(2) by (simp_all add: text_inv_def)
  have lay: "textures (fst (layout e [c, CHR 0x5C] False FONT_DEFAULT 0)) = [tex]"
    using assms(4-7) by (simp add: textures_def Let_def)
  obtain N M w where m: "measure_loop e [c, CHR 0x5C] False 0 t = Some (w, t\<lparr>textrender_font := FONT_DEFAULT_BOLD,
      textrender_fontkey := length (add_tex tex ts), tx_mem := (tx_mem t)\<lparr>hp_dnodes := N, hp_dicts := M\<rparr>\<rparr>)"
    "texture_map ((tx_mem t)\<lparr>hp_dnodes := N, hp_dicts := M\<rparr>) (add_tex tex ts)"
    using measure_loop_measures [OF assms(1) i, of "[c, CHR 0x5C]" False "add_tex tex ts" 0] assms(3-6) lay by (auto simp: bold_font_def)
  have "btex \<notin> set (add_tex tex ts)" using assms(10,11) by (simp add: add_tex_def)
  then have "dict_get (Some ADDRESSMAP) (int btex) ((tx_mem t)\<lparr>hp_dnodes := N, hp_dicts := M\<rparr>) = Some None"
    by (rule texture_missing [OF m(2)])
  then show ?thesis using m(1) assms(4,5,8,9) by (simp add: text_create_t_def add_letter_def Let_def)
qed

text \<open>A character outside the font's table is looked up out of its bounds.\<close>

theorem newline_out_of_bounds:
  "text_create_t e [CHR 0x0A] x y t = None"
  by (simp add: text_create_t_def char_at_def Let_def)

section \<open>A sample\<close>

definition sample_char :: "nat \<Rightarrow> charDef" where
  "sample_char i = \<lparr>ch_w = 8, ch_h = 16, ch_offsetx = 0, ch_offsety = 0, ch_tex = Some (if i < 50 then 1 else 2), ch_xpadding = 1\<rparr>"

definition sample_textenv :: textenv where
  "sample_textenv = \<lparr>te_font = (\<lambda>f. \<lparr>fd_w = 128, fd_h = 32, fd_spacesize = 6, fd_packed = False,
       fd_ch = map (\<lambda>i. sample_char (if f = FONT_DEFAULT_BOLD then i + 50 else i)) [0..<90]\<rparr>),
     te_dnode = (\<lambda>N. if finite (dom N) then Some (Suc (Max (insert 0 (dom N)))) else None),
     te_node = (\<lambda>N. if finite (dom N) then Some (Suc (Max (insert 0 (dom N)))) else None),
     te_data = (\<lambda>D. if finite D then Some (Suc (Max (insert 0 D))) else None), font_default_tex7 = Some 3\<rparr>"

definition sample_text :: textlib where
  "sample_text = text_initialize \<lparr>textrender_font = FONT_SMALL, textrender_align = A_LEFT, textrender_startx = 0,
     textrender_starty = 0, textrender_r = 0, textrender_g = 0, textrender_b = 0, textrender_a = 0, textrender_fontkey = 0,
     tx_mem = \<lparr>hp_nodes = Map.empty, hp_lists = Map.empty, hp_dnodes = Map.empty, hp_dicts = Map.empty, hp_data = {},
       hp_letters = Map.empty\<rparr>\<rparr>"

lemma suc_max_fresh:
  assumes "finite D"
  shows "Suc (Max (insert 0 D)) \<notin> D"
proof
  assume D: "Suc (Max (insert 0 D)) \<in> D"
  then have "Suc (Max (insert 0 D)) \<le> Max (insert 0 D)" using assms by (intro Max_ge) simp_all
  then show False by simp
qed

lemma sample_textenv_ok [simp]: "textenv_ok sample_textenv"
  using suc_max_fresh [of "dom N" for N :: "nat \<rightharpoonup> dictNode"] suc_max_fresh [of "dom N" for N :: "nat \<rightharpoonup> listNode"] suc_max_fresh
  by (auto simp: textenv_ok_def sample_textenv_def fresh_alloc_def split: if_splits)

lemma sample_text_inv [simp]: "text_inv sample_text [] (\<lambda>_. [])"
  unfolding sample_text_def by (rule initialize_inv) simp_all

text \<open>The text \<open>Hi\<close> in the middle of the screen: two letters with one texture, then one with another.\<close>

lemma sample_chars [simp]:
  "char_at sample_textenv FONT_DEFAULT (CHR ''H'') = Some (sample_char 39)"
  "char_at sample_textenv FONT_DEFAULT (CHR ''i'') = Some (sample_char 72)"
  "char_at sample_textenv FONT_DEFAULT_BOLD (CHR ''H'') = Some (sample_char 89)"
  by (simp_all add: char_at_def sample_textenv_def Let_def)

lemma sample_tex: "ch_tex (sample_char i) = Some (if i < 50 then 1 else 2)"
  by (simp add: sample_char_def)

theorem screen_shows_text_witness:
  "\<exists>t'. Option.bind (text_cleanup_t sample_text) (\<lambda>t. text_create_t sample_textenv ''Hi'' 160 120
      (text_setcolor_t 255 255 255 255 (text_setalign_t A_CENTER (text_setfont_t FONT_DEFAULT t)))) = Some t' \<and>
    text_render sample_textenv t' = Some
     [LoadTexture (Some 1) 128 32, PrimColor 255 255 255 255, TextureRectangle 604 480 636 544 0 0,
      LoadTexture (Some 2) 128 32, PrimColor 255 255 255 255, TextureRectangle 640 480 672 544 0 0]"
proof -
  let ?s = "text_setcolor_t 255 255 255 255 (text_setalign_t A_CENTER (text_setfont_t FONT_DEFAULT sample_text))"
  let ?gs = "[(151, FONT_DEFAULT, sample_char 39), (160, FONT_DEFAULT, sample_char 72)]"
  have a: "spacesize sample_textenv f = 6" "bullet sample_textenv FONT_DEFAULT (CHR ''H'') = 0"
    "bullet sample_textenv FONT_DEFAULT (CHR ''i'') = 0" "advance (sample_char i) = 9" for f i
    by (simp_all add: spacesize_def bullet_def advance_def sample_textenv_def sample_char_def)
  have lay: "layout sample_textenv ''Hi'' False FONT_DEFAULT x =
      ([(x, FONT_DEFAULT, sample_char 39), (x + 9, FONT_DEFAULT, sample_char 72)], x + 18)" for x
    by (simp add: a Let_def sample_tex)
  have w: "text_width sample_textenv ''Hi'' FONT_DEFAULT = 18" unfolding text_width_def lay by simp
  have x: "align_x A_CENTER 160 18 = 151" by (simp add: align_x_def)
  have gs: "?gs = fst (layout sample_textenv ''Hi'' False FONT_DEFAULT (align_x A_CENTER 160 (text_width sample_textenv ''Hi'' FONT_DEFAULT)))"
    unfolding w x lay by simp
  have ts: "[1, 2] = fold add_tex (textures ?gs) []" by (simp add: textures_def sample_char_def add_tex_def)
  obtain t' where t': "Option.bind (text_cleanup_t sample_text) (\<lambda>t. text_create_t sample_textenv ''Hi'' 160 120
      (text_setcolor_t 255 255 255 255 (text_setalign_t A_CENTER (text_setfont_t FONT_DEFAULT t)))) = Some t'"
    "text_render sample_textenv t' = Some (concat (map (\<lambda>i. list_draws sample_textenv ?s
      (map (glyph_letter sample_textenv ?s 120) (with_texture [1, 2] i ?gs))) [0..<32]))"
    using screen_shows_text [OF sample_textenv_ok sample_text_inv _ _ refl gs ts, where r = 255 and g = 255 and b = 255 and a = 255 and y = 120] by auto
  have g: "with_texture [1, 2] 0 ?gs = [(151, FONT_DEFAULT, sample_char 39)]"
    "with_texture [1, 2] 1 ?gs = [(160, FONT_DEFAULT, sample_char 72)]" "\<And>i. 1 < i \<Longrightarrow> with_texture [1, 2] i ?gs = []"
    by (simp_all add: with_texture_def sample_char_def)
  define F where "F i = list_draws sample_textenv ?s (map (glyph_letter sample_textenv ?s 120) (with_texture [1, 2] i ?gs))" for i
  have u: "[0..<32] = 0 # 1 # [2..<32]" by code_simp
  have e: "F i = []" if "1 < i" for i using g(3) that by (simp add: F_def list_draws_def)
  have "concat (map F [2..<32]) = []" using e by (simp del: upt_Suc upt_rec_numeral)
  then have c: "concat (map F [0..<32]) = F 0 @ F 1" unfolding u by (simp only: list.map concat.simps append_Nil2)
  have "F 0 = [LoadTexture (Some 1) 128 32, PrimColor 255 255 255 255, TextureRectangle 604 480 636 544 0 0]"
    "F 1 = [LoadTexture (Some 2) 128 32, PrimColor 255 255 255 255, TextureRectangle 640 480 672 544 0 0]"
    unfolding F_def g(1,2)
    by (simp_all add: list_draws_def draw_letter_def glyph_letter_def new_letter_def letter_y_def sample_char_def sample_textenv_def
        text_setcolor_t_def text_setalign_t_def text_setfont_t_def sample_text_def text_initialize_def text_reset_def text_setpos_def Let_def)
  then show ?thesis using t' c unfolding F_def [symmetric] by simp
qed

theorem odd_bold_fails_witness:
  "text_create_t sample_textenv [CHR ''H'', CHR 0x5C] 0 0 (text_setfont_t FONT_DEFAULT sample_text) = None"
  by (rule odd_bold_fails [OF sample_textenv_ok, of _ "[]" "\<lambda>_. []" _ "sample_char 39" 1 "sample_char 89" 2])
    (simp_all only: text_inv_settings sample_text_inv sample_chars sample_tex, simp_all add: text_setfont_t_def)

end
