(* ===== verification/NL_Hello.thy ===== *)
theory NL_Hello
  imports NL_RtPackets NL_Text
begin

text \<open>
  The Hello World game (\<^verbatim>\<open>main.c\<close>, \<^verbatim>\<open>packets.c\<close>, \<^verbatim>\<open>stage_hello.c\<close>): it asks the server for a
  number and puts the number on the screen. The model composes the net library and the text
  library: a frame polls the one, its callback calls the other, and drawing the frame gives the
  commands the text library issues.
\<close>

section \<open>The game\<close>

record hello = n64 +
  hello_text :: textlib

definition PACKETID_CLIENTCONNECT_hello :: byte where
  "PACKETID_CLIENTCONNECT_hello = 1"

text \<open>A bad access of the text library.\<close>

definition deref :: "'a option \<Rightarrow> 'a result" where
  "deref r = (case r of None \<Rightarrow> Inl NullPointer | Some a \<Rightarrow> Inr a)"

definition on_text :: "(textlib \<Rightarrow> textlib option) \<Rightarrow> hello \<Rightarrow> hello result" where
  "on_text f g = deref (map_option (\<lambda>t. g\<lparr>hello_text := t\<rparr>) (f (hello_text g)))"

definition wait_screen :: "textenv \<Rightarrow> textlib \<Rightarrow> textlib option" where
  "wait_screen e t = do {
     let t = text_setcolor_t 255 255 255 255 (text_setalign_t A_CENTER (text_setfont_t FONT_DEFAULT t));
     t \<leftarrow> text_create_t e ''Connecting to Server...'' 160 56 t;
     let t = text_setfont_t FONT_SMALL t;
     t \<leftarrow> text_create_t e ''Ensure the USB is connected'' 160 136 t;
     text_create_t e ''and the client is running'' 160 152 t }"

definition reply_screen :: "textenv \<Rightarrow> u32 \<Rightarrow> textlib \<Rightarrow> textlib option" where
  "reply_screen e read t = do {
     t \<leftarrow> text_cleanup_t t;
     let t = text_setcolor_t 255 255 255 255 (text_setalign_t A_CENTER (text_setfont_t FONT_DEFAULT t));
     t \<leftarrow> text_create_t e ''Server replied back with:'' 160 56 t;
     text_create_t e (dec_int (sint read)) 160 136 t }"

text \<open>\<open>stk\<close> is what the variable on the stack holds before the packet is read into it.\<close>

definition stage_hello_connectpacket :: "textenv \<Rightarrow> u32 \<Rightarrow> hello \<Rightarrow> hello result" where
  "stage_hello_connectpacket e stk g =
     (case read32 stk g of (read, g) \<Rightarrow> on_text (reply_screen e read) g)"

text \<open>The callbacks, numbered by the packet type they are registered for.\<close>

definition hello_packet :: "textenv \<Rightarrow> u32 \<Rightarrow> (hello \<Rightarrow> hello result option) \<Rightarrow> nat \<Rightarrow> hello \<Rightarrow> hello result option" where
  "hello_packet e stk heartbeat f g =
     (if f = 0 then heartbeat g
      else if f = 1 then Some (stage_hello_connectpacket e stk g)
      else Some (Inl NullPointer))"

primrec hello_game :: "textenv \<Rightarrow> u32 \<Rightarrow> nat \<Rightarrow> u64 \<Rightarrow> unit hello_ext game" where
  "hello_game e stk 0 t =
     \<lparr>game_on_packet = (\<lambda>f sz. hello_packet e stk (\<lambda>_. None) f), game_on_event = (\<lambda>_ _. Some (Inl NullPointer)), junk = ucast stk\<rparr>"
| "hello_game e stk (Suc n) t =
     \<lparr>game_on_packet = (\<lambda>f sz. hello_packet e stk (netcallback_heartbeat n (hello_game e stk n t) t) f),
      game_on_event = (\<lambda>_ _. Some (Inl NullPointer)), junk = ucast stk\<rparr>"

definition netcallback_initall_hello :: "hello \<Rightarrow> hello result" where
  "netcallback_initall_hello g =
     rbind (netlib_register PACKETID_ACKBEAT (Some 0) g) (netlib_register PACKETID_CLIENTCONNECT_hello (Some 1))"

definition stage_hello_init :: "textenv \<Rightarrow> u32 \<Rightarrow> nat \<Rightarrow> u64 \<Rightarrow> hello \<Rightarrow> hello result option" where
  "stage_hello_init e stk n t g =
     rob (Some (on_text (wait_screen e) g)) (\<lambda>g.
       netlib_sendtoserver n (hello_game e stk n t) t (netlib_start PACKETID_CLIENTCONNECT_hello g))"

definition mainproc_start_hello ::
    "(nat option \<Rightarrow> nat option) \<Rightarrow> usb \<Rightarrow> textenv \<Rightarrow> u32 \<Rightarrow> nat \<Rightarrow> u64 \<Rightarrow> hello \<Rightarrow> hello result option" where
  "mainproc_start_hello clobber u e stk n t g =
     rob (Some (rbind (netcallback_initall_hello (netlib_initialize clobber u g))
       (\<lambda>g. Inr (g\<lparr>hello_text := text_initialize (hello_text g)\<rparr>))))
     (stage_hello_init e stk n t)"

text \<open>What the frame draws besides the cleared screen.\<close>

definition stage_hello_draw :: "textenv \<Rightarrow> hello \<Rightarrow> draw list option" where
  "stage_hello_draw e g = text_render e (hello_text g)"

definition callback_vsync_hello ::
    "textenv \<Rightarrow> u32 \<Rightarrow> nat \<Rightarrow> u64 \<Rightarrow> int \<Rightarrow> hello \<Rightarrow> (hello \<times> draw list) result option" where
  "callback_vsync_hello e stk n t tasksleft g =
     rob (netlib_poll n (hello_game e stk n t) t g) (\<lambda>g.
       Some (deref (map_option (Pair g) (if tasksleft < 1 then stage_hello_draw e g else Some []))))"

section \<open>Several texts\<close>

type_synonym item = "string \<times> u16 \<times> u16"

definition item_glyphs :: "textenv \<Rightarrow> textlib \<Rightarrow> item \<Rightarrow> glyph list" where
  "item_glyphs e s = (\<lambda>(str, x, y). fst (layout e str False (textrender_font s)
     (align_x (textrender_align s) x (text_width e str (textrender_font s)))))"

definition item_letters :: "textenv \<Rightarrow> textlib \<Rightarrow> nat list \<Rightarrow> nat \<Rightarrow> item \<Rightarrow> letterDef list" where
  "item_letters e s ts i it = map (glyph_letter e s (snd (snd it))) (with_texture ts i (item_glyphs e s it))"

definition items_textures :: "textenv \<Rightarrow> textlib \<Rightarrow> item list \<Rightarrow> nat list \<Rightarrow> nat list" where
  "items_textures e s its ts = fold (\<lambda>it. fold add_tex (textures (item_glyphs e s it))) its ts"

definition plain :: "textenv \<Rightarrow> fontid \<Rightarrow> string \<Rightarrow> bool" where
  "plain e f str \<longleftrightarrow> drawable e str False f \<and> font_after str False f = f"

definition create_items :: "textenv \<Rightarrow> item list \<Rightarrow> textlib \<Rightarrow> textlib option" where
  "create_items e its t = fold (\<lambda>(str, x, y) r. Option.bind r (text_create_t e str x y)) its (Some t)"

lemma create_items_Nil [simp]: "create_items e [] = Some" by (simp add: create_items_def fun_eq_iff)

lemma bind_fold_None: "fold (\<lambda>(str, x, y) r. Option.bind r (F str x y)) its None = None"
  by (induction its) auto

lemma create_items_Cons [simp]:
  "create_items e ((str, x, y) # its) = (\<lambda>t. Option.bind (text_create_t e str x y t) (create_items e its))"
proof
  fix t
  show "create_items e ((str, x, y) # its) t = Option.bind (text_create_t e str x y t) (create_items e its)"
    by (cases "text_create_t e str x y t") (simp_all add: create_items_def bind_fold_None)
qed

text \<open>A texture that a later text adds is in none of the earlier glyphs.\<close>

lemma with_texture_later:
  assumes "distinct (ts @ new)" "set (textures gs) \<subseteq> set ts" "\<forall>(x, f, cd)\<in>set gs. ch_tex cd \<noteq> None"
  shows "with_texture (ts @ new) i gs = with_texture ts i gs"
  unfolding with_texture_def
proof (rule filter_cong [OF refl], clarify)
  fix x f cd
  assume g: "(x, f, cd) \<in> set gs"
  then have "the (ch_tex cd) \<in> set ts" "ch_tex cd \<noteq> None" using assms(2,3) by (force simp: textures_def)+
  moreover have "ch_tex cd \<noteq> Some (new ! (i - length ts))" if "\<not> i < length ts" "i < length ts + length new"
  proof -
    have "new ! (i - length ts) \<in> set new" using that by (intro nth_mem) simp
    then have "new ! (i - length ts) \<notin> set ts" using assms(1) by auto
    then show ?thesis using calculation(1) by auto
  qed
  ultimately show "(i < length (ts @ new) \<and> ch_tex cd = Some ((ts @ new) ! i)) = (i < length ts \<and> ch_tex cd = Some (ts ! i))"
    by (cases "i < length ts") (auto simp: nth_append)
qed

lemma layout_has_textures: "(x', f', cd) \<in> set (fst (layout e str bold f x)) \<Longrightarrow> ch_tex cd \<noteq> None"
  by (induction e str bold f x rule: layout.induct) (auto split: if_splits option.splits prod.splits simp: Let_def)

lemma items_textures_extends: "\<exists>new. items_textures e s its ts = ts @ new"
proof (induction its arbitrary: ts)
  case (Cons it its)
  obtain new where "fold add_tex (textures (item_glyphs e s it)) ts = ts @ new" using fold_add_tex by blast
  then show ?case using Cons.IH [of "ts @ new"] by (auto simp: items_textures_def)
qed (simp add: items_textures_def)

lemma item_glyphs_state [simp]:
  "item_glyphs e (t\<lparr>textrender_fontkey := k\<rparr>) = item_glyphs e t" "item_glyphs e (t\<lparr>tx_mem := h\<rparr>) = item_glyphs e t"
  by (simp_all add: item_glyphs_def)

lemma item_letters_state [simp]:
  "item_letters e (t\<lparr>textrender_fontkey := k\<rparr>) = item_letters e t" "item_letters e (t\<lparr>tx_mem := h\<rparr>) = item_letters e t"
  by (simp_all add: item_letters_def fun_eq_iff)

lemma items_textures_state [simp]:
  "items_textures e (t\<lparr>textrender_fontkey := k\<rparr>) = items_textures e t" "items_textures e (t\<lparr>tx_mem := h\<rparr>) = items_textures e t"
  by (simp_all add: items_textures_def fun_eq_iff)

lemma create_items_shows:
  assumes "textenv_ok e" "text_inv t ts ds" "list_all (\<lambda>it. plain e (textrender_font t) (fst it)) its"
    and "ts' = items_textures e t its ts" "length ts' \<le> MAXMIMUM_FONTTEXTURES"
  shows "\<exists>h ds'. create_items e its t = Some (t\<lparr>textrender_fontkey := length ts', tx_mem := h\<rparr>) \<and>
    text_inv (t\<lparr>textrender_fontkey := length ts', tx_mem := h\<rparr>) ts' ds' \<and>
    (\<forall>i<MAXMIMUM_FONTTEXTURES. shown h ds' i = shown (tx_mem t) ds i @ concat (map (item_letters e t ts' i) its))"
  using assms(2-5)
proof (induction its arbitrary: t ts ds)
  case Nil
  then have "t\<lparr>textrender_fontkey := length ts', tx_mem := tx_mem t\<rparr> = t" "ts' = ts"
    by (simp_all add: text_inv_def items_textures_def)
  then show ?case using Nil.prems(1) by (intro exI [of _ "tx_mem t"] exI [of _ ds]) simp
next
  case (Cons it its)
  obtain str x y where it: "it = (str, x, y)" by (cases it)
  let ?gs = "item_glyphs e t it"
  let ?ts = "fold add_tex (textures ?gs) ts"
  have t': "ts' = items_textures e t its ?ts" using Cons.prems(3) by (simp add: items_textures_def)
  obtain new where new: "ts' = ?ts @ new" using items_textures_extends t' by blast
  obtain old where old: "set ?ts = set ts \<union> set (textures ?gs)" using fold_add_tex [of "textures ?gs" ts] by blast
  obtain h ds1 where h: "text_create_t e str x y t = Some (t\<lparr>textrender_fontkey := length ?ts, tx_mem := h\<rparr>)"
    "text_inv (t\<lparr>textrender_fontkey := length ?ts, tx_mem := h\<rparr>) ?ts ds1"
    "\<forall>i<32. shown h ds1 i = shown (tx_mem t) ds i @ map (glyph_letter e t y) (with_texture ?ts i ?gs)"
    using create_places [OF assms(1) Cons.prems(1), of str ?gs x ?ts y] Cons.prems(2,4) new
    by (auto simp: it plain_def item_glyphs_def)
  let ?t = "t\<lparr>textrender_fontkey := length ?ts, tx_mem := h\<rparr>"
  obtain k ds' where k: "create_items e its ?t = Some (?t\<lparr>textrender_fontkey := length ts', tx_mem := k\<rparr>)"
    "text_inv (?t\<lparr>textrender_fontkey := length ts', tx_mem := k\<rparr>) ts' ds'"
    "\<forall>i<32. shown k ds' i = shown h ds1 i @ concat (map (item_letters e t ts' i) its)"
    using Cons.IH [OF h(2)] Cons.prems(2,4) t' by auto
  have "distinct ts'" using k(2) by (simp add: text_inv_def texture_map_def)
  then have "with_texture ts' i ?gs = with_texture ?ts i ?gs" for i
    unfolding new using old layout_has_textures
    by (intro with_texture_later) (auto simp: it item_glyphs_def)
  then have l: "item_letters e t ts' i it = map (glyph_letter e t y) (with_texture ?ts i ?gs)" for i
    by (simp add: item_letters_def it)
  have "shown k ds' i = shown (tx_mem t) ds i @ concat (map (item_letters e t ts' i) (it # its))" if "i < 32" for i
    using k(3) h(3) that l by simp
  then show ?case using h(1) k(1,2) by (intro exI [of _ k] exI [of _ ds']) (simp add: it)
qed

section \<open>The screens\<close>

definition white :: "fontid \<Rightarrow> textlib \<Rightarrow> textlib" where
  "white f t = text_setcolor_t 255 255 255 255 (text_setalign_t A_CENTER (text_setfont_t f t))"

definition wait_title :: "item list" where
  "wait_title = [(''Connecting to Server...'', 160, 56)]"

definition wait_hints :: "item list" where
  "wait_hints = [(''Ensure the USB is connected'', 160, 136), (''and the client is running'', 160, 152)]"

definition reply_items :: "u32 \<Rightarrow> item list" where
  "reply_items w = [(''Server replied back with:'', 160, 56), (dec_int (sint w), 160, 136)]"

text \<open>What a screen with these texts draws: texture by texture, the letters of all its texts.\<close>

definition screen_draws :: "textenv \<Rightarrow> textlib \<Rightarrow> nat list \<Rightarrow> item list \<Rightarrow> draw list" where
  "screen_draws e s ts its =
     concat (map (\<lambda>i. list_draws e s (concat (map (item_letters e s ts i) its))) [0..<MAXMIMUM_FONTTEXTURES])"

lemma white_simps [simp]:
  "textrender_font (white f t) = f" "text_inv (white f t) = text_inv t" "tx_mem (white f t) = tx_mem t"
  "white f (t\<lparr>textrender_fontkey := k\<rparr>) = (white f t)\<lparr>textrender_fontkey := k\<rparr>"
  "white f (t\<lparr>tx_mem := h\<rparr>) = (white f t)\<lparr>tx_mem := h\<rparr>"
  "text_setfont_t f (white f' t) = white f t" "white f (white f' t) = white f t"
  by (simp_all add: white_def) (simp_all add: text_setcolor_t_def text_setalign_t_def text_setfont_t_def)

lemma setfont_state [simp]:
  "text_setfont_t f (t\<lparr>textrender_fontkey := k, tx_mem := h\<rparr>) = (text_setfont_t f t)\<lparr>textrender_fontkey := k, tx_mem := h\<rparr>"
  by (simp add: text_setfont_t_def)

lemma list_draws_state [simp]: "list_draws e (t\<lparr>textrender_fontkey := k, tx_mem := h\<rparr>) = list_draws e t"
proof
  fix ls
  have "draw_letter (t\<lparr>textrender_fontkey := k, tx_mem := h\<rparr>) = draw_letter t" by (simp add: draw_letter_def fun_eq_iff Let_def)
  then show "list_draws e (t\<lparr>textrender_fontkey := k, tx_mem := h\<rparr>) ls = list_draws e t ls"
    by (cases ls) (simp_all add: list_draws_def)
qed

lemma wait_screen_items:
  "wait_screen e t = Option.bind (create_items e wait_title (white FONT_DEFAULT t)) (\<lambda>t. create_items e wait_hints (text_setfont_t FONT_SMALL t))"
  by (simp add: wait_screen_def wait_title_def wait_hints_def white_def Let_def)

lemma reply_screen_items:
  "reply_screen e w t = Option.bind (text_cleanup_t t) (\<lambda>t. create_items e (reply_items w) (white FONT_DEFAULT t))"
  by (simp add: reply_screen_def reply_items_def white_def Let_def)

definition wait_textures :: "textenv \<Rightarrow> textlib \<Rightarrow> nat list" where
  "wait_textures e t = items_textures e (white FONT_SMALL t) wait_hints (items_textures e (white FONT_DEFAULT t) wait_title [])"

lemma wait_screen_ok:
  assumes "textenv_ok e" "text_inv t [] (\<lambda>_. [])"
    and "list_all (\<lambda>it. plain e FONT_DEFAULT (fst it)) wait_title" "list_all (\<lambda>it. plain e FONT_SMALL (fst it)) wait_hints"
    and "length (wait_textures e t) \<le> MAXMIMUM_FONTTEXTURES"
  shows "\<exists>h ds. wait_screen e t = Some ((white FONT_SMALL t)\<lparr>textrender_fontkey := length (wait_textures e t), tx_mem := h\<rparr>) \<and>
    text_inv ((white FONT_SMALL t)\<lparr>textrender_fontkey := length (wait_textures e t), tx_mem := h\<rparr>) (wait_textures e t) ds"
proof -
  let ?ts = "items_textures e (white FONT_DEFAULT t) wait_title []"
  have le: "length ?ts \<le> 32" using items_textures_extends [of e "white FONT_SMALL t" wait_hints ?ts] assms(5) by (auto simp: wait_textures_def)
  obtain h ds where h: "create_items e wait_title (white FONT_DEFAULT t) =
      Some ((white FONT_DEFAULT t)\<lparr>textrender_fontkey := length ?ts, tx_mem := h\<rparr>)"
    "text_inv ((white FONT_DEFAULT t)\<lparr>textrender_fontkey := length ?ts, tx_mem := h\<rparr>) ?ts ds"
    using create_items_shows [OF assms(1), of "white FONT_DEFAULT t" "[]" "\<lambda>_. []" wait_title ?ts] assms(2,3) le by auto
  let ?t = "(white FONT_SMALL t)\<lparr>textrender_fontkey := length ?ts, tx_mem := h\<rparr>"
  have "text_inv ?t ?ts ds" using h(2) by (simp add: text_inv_def)
  then obtain k ds' where "create_items e wait_hints ?t = Some (?t\<lparr>textrender_fontkey := length (wait_textures e t), tx_mem := k\<rparr>)"
    "text_inv (?t\<lparr>textrender_fontkey := length (wait_textures e t), tx_mem := k\<rparr>) (wait_textures e t) ds'"
    using create_items_shows [OF assms(1), of ?t ?ts ds wait_hints "wait_textures e t"] assms(4,5) by (auto simp: wait_textures_def)
  then show ?thesis using h(1) by (auto simp: wait_screen_items)
qed

lemma reply_screen_shows:
  assumes "textenv_ok e" "text_inv t ts ds" "list_all (\<lambda>it. plain e FONT_DEFAULT (fst it)) (reply_items w)"
    and "s = white FONT_DEFAULT t" "ts' = items_textures e s (reply_items w) ts" "length ts' \<le> MAXMIMUM_FONTTEXTURES"
  shows "\<exists>t'. reply_screen e w t = Some t' \<and> text_render e t' = Some (screen_draws e s ts' (reply_items w))"
proof -
  obtain h where h: "text_cleanup_t t = Some (t\<lparr>tx_mem := h\<rparr>)" "text_inv (t\<lparr>tx_mem := h\<rparr>) ts (\<lambda>_. [])"
    using cleanup_all [OF assms(2)] by blast
  let ?s = "s\<lparr>tx_mem := h\<rparr>"
  have eq: "white FONT_DEFAULT (t\<lparr>tx_mem := h\<rparr>) = ?s" by (simp add: assms(4))
  then have inv: "text_inv ?s ts (\<lambda>_. [])" using h(2) by (metis white_simps(2))
  have fnt: "textrender_font ?s = FONT_DEFAULT" by (simp add: assms(4))
  obtain k ds' where k: "create_items e (reply_items w) ?s = Some (?s\<lparr>textrender_fontkey := length ts', tx_mem := k\<rparr>)"
    "text_inv (?s\<lparr>textrender_fontkey := length ts', tx_mem := k\<rparr>) ts' ds'"
    "\<forall>i<32. shown k ds' i = shown h (\<lambda>_. []) i @ concat (map (item_letters e ?s ts' i) (reply_items w))"
    using create_items_shows [OF assms(1) inv, of "reply_items w" ts'] assms(3,5,6) fnt by auto
  have "text_render e (?s\<lparr>textrender_fontkey := length ts', tx_mem := k\<rparr>) =
      Some (concat (map (\<lambda>i. list_draws e s (shown k ds' i)) [0..<32]))"
    using text_render_draws [OF k(2), of e] by simp
  also have "map (\<lambda>i. list_draws e s (shown k ds' i)) [0..<32] =
      map (\<lambda>i. list_draws e s (concat (map (item_letters e s ts' i) (reply_items w)))) [0..<32]"
    using k(3) by (intro map_cong) (auto simp: shown_def)
  finally show ?thesis using h(1) k(1) eq by (auto simp: reply_screen_items screen_draws_def)
qed

section \<open>Asking the server\<close>

text \<open>The static variables, with the text library's in \<open>t0\<close>.\<close>

definition hello_static :: "usb \<Rightarrow> textlib \<Rightarrow> hello" where
  "hello_static u t0 = \<lparr>global_timeouttime = 0, global_writecursize = 0, global_writebuffer = replicate 4096 0,
     global_clnumber = 0, global_lastpkt = 0, global_sendafterpoll = False, global_disconnected = False,
     global_funcptr_disconnect = None, global_funcptr_reconnect = None, global_funcptrs = replicate 64 None, n64_usb = u,
     hello_text = t0\<rparr>"

text \<open>The game registers two callbacks and none for the connection.\<close>

definition hello_registered :: "nat option list" where
  "hello_registered = (replicate 64 None)[0 := Some 0, 1 := Some 1]"

definition hello_ok :: "hello \<Rightarrow> bool" where
  "hello_ok g \<longleftrightarrow> lib_ok g \<and> usb_dataleft (n64_usb g) = 0 \<and> waiting g = [] \<and> global_funcptrs g = hello_registered \<and>
     global_funcptr_disconnect g = None \<and> global_funcptr_reconnect g = None \<and> \<not> global_sendafterpoll g"

lemma registered_hello:
  "length hello_registered = 64" "hello_registered ! 0 = Some 0" "hello_registered ! 1 = Some 1" "hello_registered ! Suc 0 = Some 1"
  by (simp_all add: hello_registered_def)

text \<open>Before the stage starts, and the state its first packet leaves.\<close>

lemma hello_connects:
  assumes "lib_ok g" "usb_dataleft (n64_usb g) = 0" "waiting g = []" "global_funcptrs g = hello_registered"
    and "global_funcptr_disconnect g = None" "global_funcptr_reconnect g = None"
    and "\<forall>d. usb_accepts (n64_usb g) DATATYPE_NETPACKET d"
  shows "\<exists>g'. netlib_sendtoserver n game t (netlib_start ty g) = Some (Inr g') \<and> hello_ok g' \<and> hello_text g' = hello_text g \<and>
    usb_written (n64_usb g') = usb_written (n64_usb g) @ [(DATATYPE_NETPACKET, NetLib_wire (console_pkt ty 0 []))]"
proof -
  have len: "length (global_writebuffer g) = 4096" using assms(1) by (simp add: lib_ok_def ready_def)
  let ?k = "netlib_setflags 0 (netlib_start ty g)"
  note k = start_ok [OF assms(1), of 0 ty]
  have r: "ready g" using assms(1) by (simp add: lib_ok_def)
  have fh: "fixed_header ?k" by (rule ready_start(2) [OF r])
  have b: "built_packet 0 ?k = console_pkt ty 0 []"
    using console_packet [OF r, of "[]" 0 ty ?k 0] by (simp add: console_pkt_def)
  note sg = same_gameD [OF k(3)]
  note ph = put_header_ok [OF k(2,1) fh, of 0]
  note pg = same_gameD [OF ph(2)]
  obtain d where d: "poll_connection game t (put_header 0 ?k) = Some (Inr ((put_header 0 ?k)\<lparr>global_disconnected := d\<rparr>))"
    using poll_connection_unset [of "put_header 0 ?k"] sg pg assms(5,6) by metis
  let ?g' = "sent_out (NetLib_wire (console_pkt ty 0 [])) ((put_header 0 ?k)\<lparr>global_disconnected := d\<rparr>)"
  have "netlib_poll n game t (put_header 0 ?k) = Some (Inr ?g')"
    using poll_delivers_after [OF k(1) fh _ _ _ _ d, of n] assms(1-3,7) by (simp add: k(4) b lib_ok_def)
  moreover have "hello_ok ?g'" using ph(1) sg pg assms(2-6) ph(3) k(4)
    by (simp add: hello_ok_def lib_ok_def ready_def fixed_header_def sent_out_def)
  moreover have "n64.more ?g' = n64.more g" using sg(6) pg(6) by (simp add: sent_out_def)
  then have "hello_text ?g' = hello_text g" by (cases ?g'; cases g) simp
  ultimately show ?thesis using start_is_setflags [OF len, of ty] ph(3) k(4)
    by (intro exI [of _ ?g']) (simp add: netlib_sendtoserver_def sent_out_def)
qed

lemma hello_registers:
  assumes "global_funcptrs g = replicate 64 None"
  shows "netcallback_initall_hello g = Inr (g\<lparr>global_funcptrs := hello_registered\<rparr>)"
  using assms by (simp add: netcallback_initall_hello_def netlib_register_def PACKETID_ACKBEAT_def PACKETID_CLIENTCONNECT_hello_def
      MAX_UNIQUEPACKETS_def hello_registered_def)

lemma hello_starts:
  assumes "textenv_ok e" "text_inv (text_initialize t0) [] (\<lambda>_. [])"
    and "list_all (\<lambda>it. plain e FONT_DEFAULT (fst it)) wait_title" "list_all (\<lambda>it. plain e FONT_SMALL (fst it)) wait_hints"
    and "length (wait_textures e (text_initialize t0)) \<le> MAXMIMUM_FONTTEXTURES"
    and "usb_cart u \<noteq> CART_NONE" "usb_dataleft u = 0" "usb_waiting u = []" "\<forall>d. usb_accepts u DATATYPE_NETPACKET d"
  shows "\<exists>g h ds. mainproc_start_hello id u e stk n t (hello_static u t0) = Some (Inr g) \<and> hello_ok g \<and>
    hello_text g = (white FONT_SMALL (text_initialize t0))
      \<lparr>textrender_fontkey := length (wait_textures e (text_initialize t0)), tx_mem := h\<rparr> \<and>
    text_inv (hello_text g) (wait_textures e (text_initialize t0)) ds \<and>
    usb_written (n64_usb g) = usb_written u @ [(DATATYPE_NETPACKET, NetLib_wire (console_pkt PACKETID_CLIENTCONNECT_hello 0 []))]"
proof -
  let ?i = "netlib_initialize id u (hello_static u t0)"
  let ?t = "text_initialize t0"
  obtain h ds where h: "wait_screen e ?t = Some ((white FONT_SMALL ?t)\<lparr>textrender_fontkey := length (wait_textures e ?t), tx_mem := h\<rparr>)"
    "text_inv ((white FONT_SMALL ?t)\<lparr>textrender_fontkey := length (wait_textures e ?t), tx_mem := h\<rparr>) (wait_textures e ?t) ds"
    using wait_screen_ok [OF assms(1-5)] by blast
  let ?x = "(white FONT_SMALL ?t)\<lparr>textrender_fontkey := length (wait_textures e ?t), tx_mem := h\<rparr>"
  have "(replicate 64 None)[0 := None] = replicate 64 (None :: nat option)" by (simp add: numeral_eq_Suc)
  then have f: "global_funcptrs ?i = replicate 64 None" by (simp add: netlib_initialize_def hello_static_def Let_def)
  have t: "hello_text ?i = t0" by (simp add: netlib_initialize_def hello_static_def Let_def)
  have "ready ?i" by (rule initialize_ready) (simp_all add: hello_static_def)
  let ?g = "?i\<lparr>global_funcptrs := hello_registered, hello_text := ?x\<rparr>"
  have "ready ?g" using \<open>ready ?i\<close> registered_hello(1) by (simp add: ready_def fixed_header_def)
  then have ok: "lib_ok ?g" using assms(6) by (simp add: lib_ok_def initialize_rest) (simp add: netlib_initialize_def Let_def)
  obtain g where "netlib_sendtoserver n (hello_game e stk n t) t (netlib_start PACKETID_CLIENTCONNECT_hello ?g) = Some (Inr g)"
    "hello_ok g" "hello_text g = hello_text ?g"
    "usb_written (n64_usb g) = usb_written (n64_usb ?g) @ [(DATATYPE_NETPACKET, NetLib_wire (console_pkt PACKETID_CLIENTCONNECT_hello 0 []))]"
    using hello_connects [OF ok, of n "hello_game e stk n t" t PACKETID_CLIENTCONNECT_hello] assms(7-9) by (auto simp: initialize_rest)
  then show ?thesis using h
    by (intro exI [of _ g] exI [of _ h] exI [of _ ds])
      (simp add: mainproc_start_hello_def hello_registers [OF f] stage_hello_init_def on_text_def deref_def t initialize_rest)
qed

section \<open>The reply\<close>

text \<open>
  A packet that waits is given to its callback with its data to read, and if the callback leaves
  the connection alone the poll ends after it, with nothing sent.
\<close>

lemma poll_hands_over:
  assumes "NetLib_wf pkt" "waiting g = [(DATATYPE_NETPACKET, NetLib_wire pkt)]" "usb_dataleft (n64_usb g) = 0"
    and "usb_cart (n64_usb g) \<noteq> CART_NONE" "global_funcptr_disconnect g = None" "global_funcptr_reconnect g = None"
    and "unat (NetLibPacket_GetType pkt) < length (global_funcptrs g)"
    and "global_funcptrs g ! unat (NetLibPacket_GetType pkt) = Some f" "\<not> global_sendafterpoll g"
  shows "\<exists>gd. usb_at (n64_usb gd) (m_Data pkt) \<and> waiting gd = [] \<and> n64.more gd = n64.more g \<and> \<not> global_sendafterpoll gd \<and>
    usb_written (n64_usb gd) = usb_written (n64_usb g) \<and>
    (\<forall>g'. game_on_packet game f (ucast (m_Size pkt)) gd = Some (Inr g') \<and> waiting g' = [] \<and> usb_cart (n64_usb g') \<noteq> CART_NONE \<and>
        \<not> global_sendafterpoll g' \<longrightarrow>
      (\<exists>g''. netlib_poll (Suc n) game t g = Some (Inr g'') \<and> n64.more g'' = n64.more g' \<and>
         usb_written (n64_usb g'') = usb_written (n64_usb g')))"
proof -
  obtain d where d: "poll_connection game t g = Some (Inr (g\<lparr>global_disconnected := d\<rparr>))"
    using poll_connection_unset [OF assms(5,6)] by blast
  let ?u = "(n64_usb g)\<lparr>usb_datatype := DATATYPE_NETPACKET, usb_datasize := length (NetLib_wire pkt),
    usb_dataleft := length (NetLib_wire pkt), usb_msg := NetLib_wire pkt, usb_waiting := []\<rparr>"
  have p: "usb_poll (n64_usb g) = (DATATYPE_NETPACKET, ?u)" using assms(2-4) by (simp add: usb_poll_def)
  let ?q = "g\<lparr>global_disconnected := d, n64_usb := ?u\<rparr>"
  have at: "usb_at (n64_usb ?q) (NetLib_wire pkt)" using assms(4) by (simp add: usb_at_def)
  have len: "unat (NetLibPacket_GetType pkt) < length (global_funcptrs ?q)" using assms(7) by simp
  let ?gd = "on_usb (\<lambda>u. u\<lparr>usb_dataleft := length (m_Data pkt)\<rparr>) ?q"
  note call = poll_packet_call [OF assms(1) at len]
  have e: "poll_loop m game t 0 k = Some (Inr (True, k))" for m k by (cases m) simp_all
  have nz: "DATATYPE_NETPACKET \<noteq> 0" by (simp add: DATATYPE_NETPACKET_def)
  have "\<exists>g''. netlib_poll (Suc n) game t g = Some (Inr g'') \<and> n64.more g'' = n64.more g' \<and>
      usb_written (n64_usb g'') = usb_written (n64_usb g')"
    if g': "game_on_packet game f (ucast (m_Size pkt)) ?gd = Some (Inr g')" "waiting g' = []" "usb_cart (n64_usb g') \<noteq> CART_NONE"
      "\<not> global_sendafterpoll g'" for g'
  proof -
    have c: "poll_packet game t ?q = Some (Inr (True, g'\<lparr>global_lastpkt := t\<rparr>))" using call(2) g'(1) assms(8) by simp
    let ?r = "on_usb usb_purge (g'\<lparr>global_lastpkt := t\<rparr>)"
    have "usb_poll (n64_usb ?r) = (0, (n64_usb ?r)\<lparr>usb_datatype := 0, usb_datasize := 0\<rparr>)"
      using g'(2,3) by (simp add: on_usb_def usb_purge_def usb_poll_def)
    then have "poll_loop (Suc n) game t DATATYPE_NETPACKET ?q =
        Some (Inr (True, ?r\<lparr>n64_usb := (n64_usb ?r)\<lparr>usb_datatype := 0, usb_datasize := 0\<rparr>\<rparr>))"
      by (simp add: c e nz Let_def)
    then show ?thesis using g'(4) d p
      by (simp add: netlib_poll_def send_queued_def on_usb_def usb_purge_def Let_def)
  qed
  then show ?thesis using call(1) assms(9)
    by (intro exI [of _ ?gd]) (simp add: on_usb_def)
qed

lemma reply_is_shown:
  assumes "hello_ok g" "NetLib_wf pkt" "NetLibPacket_GetType pkt = PACKETID_CLIENTCONNECT_hello" "m_Data pkt = be32 w @ rest"
    and "reply_screen e w (hello_text g) = Some t'" "text_render e t' = Some ds" "tasksleft < 1"
  shows "\<exists>g'. callback_vsync_hello e stk (Suc n) t tasksleft (messages_arrive [(DATATYPE_NETPACKET, NetLib_wire pkt)] g) =
      Some (Inr (g', ds)) \<and> hello_text g' = t' \<and> usb_written (n64_usb g') = usb_written (n64_usb g)"
proof -
  let ?m = "messages_arrive [(DATATYPE_NETPACKET, NetLib_wire pkt)] g"
  have g: "waiting ?m = [(DATATYPE_NETPACKET, NetLib_wire pkt)]" "usb_dataleft (n64_usb ?m) = 0" "usb_cart (n64_usb ?m) \<noteq> CART_NONE"
    "global_funcptr_disconnect ?m = None" "global_funcptr_reconnect ?m = None" "global_funcptrs ?m = hello_registered"
    "\<not> global_sendafterpoll ?m" "n64.more ?m = n64.more g" "usb_written (n64_usb ?m) = usb_written (n64_usb g)"
    using assms(1) by (simp_all add: hello_ok_def lib_ok_def messages_arrive_def)
  have ty: "unat (NetLibPacket_GetType pkt) = 1" by (simp add: assms(3) PACKETID_CLIENTCONNECT_hello_def)
  let ?game = "hello_game e stk (Suc n) t"
  obtain gd where gd: "usb_at (n64_usb gd) (m_Data pkt)" "waiting gd = []" "n64.more gd = n64.more ?m" "\<not> global_sendafterpoll gd"
    "usb_written (n64_usb gd) = usb_written (n64_usb ?m)"
    "\<And>g'. game_on_packet ?game 1 (ucast (m_Size pkt)) gd = Some (Inr g') \<Longrightarrow> waiting g' = [] \<Longrightarrow> usb_cart (n64_usb g') \<noteq> CART_NONE \<Longrightarrow>
        \<not> global_sendafterpoll g' \<Longrightarrow>
      \<exists>g''. netlib_poll (Suc n) ?game t ?m = Some (Inr g'') \<and> n64.more g'' = n64.more g' \<and> usb_written (n64_usb g'') = usb_written (n64_usb g')"
    using poll_hands_over [OF assms(2) g(1-5), of 1 ?game n t] g(6,7) ty registered_hello by auto
  have tx: "hello_text gd = hello_text g" using gd(3) g(8) by (cases gd; cases g; cases ?m) simp
  let ?k = "upto_rest rest gd"
  let ?g' = "?k\<lparr>hello_text := t'\<rparr>"
  have k: "hello_text ?k = hello_text g" "waiting ?k = []" "usb_cart (n64_usb ?k) \<noteq> CART_NONE" "\<not> global_sendafterpoll ?k"
    "usb_written (n64_usb ?k) = usb_written (n64_usb g)"
    using gd(1,2,4,5) tx g(9) by (simp_all add: upto_rest_def on_usb_def usb_at_def)
  have "game_on_packet ?game 1 (ucast (m_Size pkt)) gd = Some (Inr ?g')"
    using gd(1) assms(4,5) k(1)
    by (simp add: hello_packet_def stage_hello_connectpacket_def read32_at on_text_def deref_def)
  from gd(6) [OF this] k obtain g'' where g'': "netlib_poll (Suc n) ?game t ?m = Some (Inr g'')" "n64.more g'' = n64.more ?g'"
    "usb_written (n64_usb g'') = usb_written (n64_usb g)" by auto
  have "hello_text g'' = t'" using g''(2) by (cases g''; cases ?k) simp
  then show ?thesis using g''(1,3) assms(6,7)
    by (intro exI [of _ g'']) (simp add: callback_vsync_hello_def stage_hello_draw_def deref_def)
qed

text \<open>C5: the whole program: started with a cartridge and nothing to read it asks the server, and
  when the server's packet has arrived the next frame draws the number that the packet holds, as a
  signed decimal, and nothing else of what it drew before.\<close>

theorem hello_shows_reply:
  assumes "textenv_ok e" "text_inv (text_initialize t0) [] (\<lambda>_. [])"
    and "list_all (\<lambda>it. plain e FONT_DEFAULT (fst it)) wait_title" "list_all (\<lambda>it. plain e FONT_SMALL (fst it)) wait_hints"
    and "list_all (\<lambda>it. plain e FONT_DEFAULT (fst it)) (reply_items w)"
    and "usb_cart u \<noteq> CART_NONE" "usb_dataleft u = 0" "usb_waiting u = []" "\<forall>d. usb_accepts u DATATYPE_NETPACKET d"
    and "NetLib_wf pkt" "NetLibPacket_GetType pkt = PACKETID_CLIENTCONNECT_hello" "m_Data pkt = be32 w @ rest"
    and "s = white FONT_DEFAULT (text_initialize t0)"
    and "ts = items_textures e s (reply_items w) (wait_textures e (text_initialize t0))" "length ts \<le> MAXMIMUM_FONTTEXTURES"
  shows "\<exists>g g'. mainproc_start_hello id u e stk n t (hello_static u t0) = Some (Inr g) \<and>
    usb_written (n64_usb g) = usb_written u @ [(DATATYPE_NETPACKET, NetLib_wire (console_pkt PACKETID_CLIENTCONNECT_hello 0 []))] \<and>
    callback_vsync_hello e stk (Suc n') t' 0 (messages_arrive [(DATATYPE_NETPACKET, NetLib_wire pkt)] g) =
      Some (Inr (g', screen_draws e s ts (reply_items w))) \<and>
    usb_written (n64_usb g') = usb_written (n64_usb g)"
proof -
  let ?t = "text_initialize t0" and ?ts = "wait_textures e (text_initialize t0)"
  have "length ?ts \<le> 32" using items_textures_extends [of e s "reply_items w" ?ts] assms(14,15) by auto
  then obtain g h ds where g: "mainproc_start_hello id u e stk n t (hello_static u t0) = Some (Inr g)" "hello_ok g"
    "hello_text g = (white FONT_SMALL ?t)\<lparr>textrender_fontkey := length ?ts, tx_mem := h\<rparr>" "text_inv (hello_text g) ?ts ds"
    "usb_written (n64_usb g) = usb_written u @ [(DATATYPE_NETPACKET, NetLib_wire (console_pkt PACKETID_CLIENTCONNECT_hello 0 []))]"
    using hello_starts [OF assms(1-4) _ assms(6-9), where n = n and stk = stk and t = t] by blast
  let ?s = "white FONT_DEFAULT (hello_text g)"
  have s: "?s = s\<lparr>textrender_fontkey := length ?ts, tx_mem := h\<rparr>" by (simp add: g(3) assms(13))
  have "ts = items_textures e ?s (reply_items w) ?ts" unfolding s by (simp add: assms(14))
  from reply_screen_shows [OF assms(1) g(4) assms(5) refl this assms(15)]
  obtain t1 where t1: "reply_screen e w (hello_text g) = Some t1" "text_render e t1 = Some (screen_draws e ?s ts (reply_items w))" by blast
  have "screen_draws e ?s ts (reply_items w) = screen_draws e s ts (reply_items w)" unfolding s by (simp add: screen_draws_def)
  then show ?thesis using reply_is_shown [OF g(2) assms(10-12) t1, of 0 stk n' t'] g(1,5) by auto
qed

section \<open>A sample\<close>

definition sample_reply :: AbstractPacket where
  "sample_reply = (console_pkt PACKETID_CLIENTCONNECT_hello 0 (be32 5))"

lemma sample_plain:
  "list_all (\<lambda>it. plain sample_textenv FONT_DEFAULT (fst it)) wait_title"
  "list_all (\<lambda>it. plain sample_textenv FONT_SMALL (fst it)) wait_hints"
  "list_all (\<lambda>it. plain sample_textenv FONT_DEFAULT (fst it)) (reply_items 5)"
proof -
  have d: "dec_int 5 = ''5''"
    by code_simp
  show "list_all (\<lambda>it. plain sample_textenv FONT_DEFAULT (fst it)) wait_title"
    "list_all (\<lambda>it. plain sample_textenv FONT_SMALL (fst it)) wait_hints"
    "list_all (\<lambda>it. plain sample_textenv FONT_DEFAULT (fst it)) (reply_items 5)"
    unfolding sample_textenv_def
    by (simp_all add: plain_def wait_title_def wait_hints_def reply_items_def char_at_def d Let_def)
qed

text \<open>Its fonts have two textures, so that no screen can need more.\<close>

lemma layout_in_table: "(x', f', cd) \<in> set (fst (layout e str bold f x)) \<Longrightarrow> \<exists>f c. char_at e f c = Some cd"
  by (induction e str bold f x rule: layout.induct) (auto split: if_splits option.splits prod.splits simp: Let_def)

lemma sample_char_table: "char_at sample_textenv f c = Some cd \<Longrightarrow> \<exists>i. cd = sample_char i"
  by (auto simp: char_at_def sample_textenv_def Let_def split: if_splits)

lemma sample_glyphs: "set (textures (item_glyphs sample_textenv s it)) \<subseteq> {1, 2}"
proof
  fix tex
  assume "tex \<in> set (textures (item_glyphs sample_textenv s it))"
  then obtain x f cd where "(x, f, cd) \<in> set (item_glyphs sample_textenv s it)" "tex = the (ch_tex cd)" by (auto simp: textures_def)
  moreover obtain str x0 y0 where "it = (str, x0, y0)" by (cases it)
  ultimately obtain i where "tex = the (ch_tex (sample_char i))" using layout_in_table sample_char_table by (auto simp: item_glyphs_def) blast
  then show "tex \<in> {1, 2}" by (simp add: sample_tex)
qed

lemma add_tex_distinct: "distinct ts \<Longrightarrow> distinct (fold add_tex xs ts)"
  by (induction xs arbitrary: ts) (simp_all add: add_tex_def)

lemma sample_textures:
  "distinct ts \<and> set ts \<subseteq> {1, 2} \<Longrightarrow>
    distinct (items_textures sample_textenv s its ts) \<and> set (items_textures sample_textenv s its ts) \<subseteq> {1, 2}"
proof (induction its arbitrary: ts)
  case (Cons it its)
  obtain new where "set (fold add_tex (textures (item_glyphs sample_textenv s it)) ts) =
      set ts \<union> set (textures (item_glyphs sample_textenv s it))" using fold_add_tex by blast
  then show ?case using Cons.IH [of "fold add_tex (textures (item_glyphs sample_textenv s it)) ts"]
      Cons.prems sample_glyphs [of s it] add_tex_distinct by (auto simp: items_textures_def)
qed (simp add: items_textures_def)

lemma few_textures: "distinct ts \<and> set ts \<subseteq> {1, 2 :: nat} \<Longrightarrow> length ts \<le> 32"
  using card_mono [of "{1, 2 :: nat}" "set ts"] distinct_card [of ts] by simp

theorem hello_shows_reply_witness:
  "\<exists>g g' ds. mainproc_start_hello id sample_usb sample_textenv 0 1 0 (hello_static sample_usb sample_text) = Some (Inr g) \<and>
    usb_written (n64_usb g) = [(DATATYPE_NETPACKET, NetLib_wire (console_pkt PACKETID_CLIENTCONNECT_hello 0 []))] \<and>
    callback_vsync_hello sample_textenv 0 (Suc 0) 0 0 (messages_arrive [(DATATYPE_NETPACKET, NetLib_wire sample_reply)] g) =
      Some (Inr (g', ds))"
proof -
  have i: "text_inv (text_initialize sample_text) [] (\<lambda>_. [])"
    by (rule initialize_inv) (simp_all add: sample_text_def text_initialize_def text_reset_def text_setcolor_t_def text_setpos_def
      text_setalign_t_def text_setfont_t_def)
  have ts: "length (items_textures sample_textenv s (reply_items 5) (wait_textures sample_textenv t)) \<le> 32" for s t
    by (rule few_textures, unfold wait_textures_def, (rule sample_textures)+) simp
  have u: "usb_cart sample_usb \<noteq> CART_NONE" "usb_dataleft sample_usb = 0" "usb_waiting sample_usb = []"
    "\<forall>d. usb_accepts sample_usb DATATYPE_NETPACKET d" "usb_written sample_usb = []" by (simp_all add: sample_usb_def usb_accepts_def CART_NONE_def)
  have p: "NetLib_wf sample_reply" "NetLibPacket_GetType sample_reply = PACKETID_CLIENTCONNECT_hello" "m_Data sample_reply = be32 5 @ []"
    by (simp_all add: sample_reply_def console_pkt_def NetLib_wf_def NetLibPacket_GetType_def be32_def NETLIBPACKET_VERSION_def pkt_inv_def)
  show ?thesis
    using hello_shows_reply [OF sample_textenv_ok i sample_plain u(1-4) p refl refl ts, of 0 1 0 0 0] u(5) by auto
qed

end
