(* ===== verification/Spec2Isabelle.thy ===== *)
theory Spec2Isabelle
  imports NL_UDP NL_Sha256 NL_N64 NL_Rom NL_Finder NL_Client NL_Device NL_Relay NL_Browser NL_App
    NL_Session NL_System NL_Usb NL_Lists NL_TttRun NL_RtRun NL_Hello
begin

text \<open>
  N64-NetLib connects games on a Nintendo 64 to servers on the internet. A game links
  \<^verbatim>\<open>src/N64 Library/netlib.c\<close>, which builds and reads NetLib packets and exchanges them over
  USB through a flashcart. On the computer the client, \<^verbatim>\<open>src/Client App\<close>, lists the servers that a
  master server knows, downloads ROMs from it, uploads them to the cart, and relays packets
  between the USB port and a game server over UDP. The servers are Java programs.

  \<^bold>\<open>Theories and sources.\<close>
  \<^item> \<open>NL_Prelude\<close>: machine types, faults, the result type, little-endian memory, formatting, and the
    locales \<open>machine\<close> (a step function, the operations admitted, an invariant) and \<open>partial_machine\<close>
    (the same for operations that can fault or hang, of which the first is a sublocale).
  \<^item> \<open>NL_Helper\<close>: \<^verbatim>\<open>helper.cpp\<close> and the sequence-number helpers of \<^verbatim>\<open>packets.cpp\<close>; the locale
    \<open>serial_order\<close> of a circular order.
  \<^item> \<open>NL_Packets\<close>: \<open>AbstractPacket\<close>, \<open>S64Packet\<close> and \<open>NetLibPacket\<close> of \<^verbatim>\<open>packets.h\<close> and \<^verbatim>\<open>packets.cpp\<close>;
    the locale \<open>packet_codec\<close>, interpreted for both classes.
  \<^item> \<open>NL_UDP\<close>: \<open>ASIOSocket\<close> and \<open>UDPHandler\<close> of \<^verbatim>\<open>packets.cpp\<close>.
  \<^item> \<open>NL_Sha256\<close>: \<^verbatim>\<open>sha256.cpp\<close> against FIPS 180-4; the locale \<open>stream_hash\<close>.
  \<^item> \<open>NL_N64\<close>: \<^verbatim>\<open>netlib.c\<close>, every function, over the generic layer of \<^verbatim>\<open>usb.c\<close>.
  \<^item> \<open>NL_Rom\<close>: the helper functions and the download request of \<^verbatim>\<open>serverbrowser.cpp\<close>, and the
    progress window of \<^verbatim>\<open>romdownloader.cpp\<close>.
  \<^item> \<open>NL_Finder\<close>: \<open>ServerFinderThread\<close> of \<^verbatim>\<open>serverbrowser.cpp\<close>, the thread that talks to the master.
  \<^item> \<open>NL_Client\<close>: \<open>ClientWindow\<close> of \<^verbatim>\<open>clientwindow.cpp\<close> and the queues its threads share.
  \<^item> \<open>NL_Device\<close>: \<open>DeviceThread\<close> and \<open>UploadThread\<close> of \<^verbatim>\<open>clientwindow.cpp\<close>.
  \<^item> \<open>NL_Relay\<close>: \<open>ServerConnectionThread\<close> of \<^verbatim>\<open>clientwindow.cpp\<close>.
  \<^item> \<open>NL_Browser\<close>: \<open>ServerBrowser\<close> and \<open>ManualConnectWindow\<close> of \<^verbatim>\<open>serverbrowser.cpp\<close>, and the column
    of \<^verbatim>\<open>customview.cpp\<close>.
  \<^item> \<open>NL_App\<close>: \<open>App::OnInit\<close> of \<^verbatim>\<open>app.cpp\<close>.
  \<^item> \<open>NL_Flashcart\<close>, \<open>NL_Usb\<close>: \<^verbatim>\<open>usb.c\<close> of the example games, which \<^verbatim>\<open>netlib.c\<close> calls: the drivers of the
    64Drive, the EverDrive and the SummerCart, and the functions over them.
  \<^item> \<open>NL_Lists\<close>: \<^verbatim>\<open>datastructs.c\<close>, lists, dictionaries and hash tables as nodes on a heap.
  \<^item> \<open>NL_Game\<close>: what a game that uses \<^verbatim>\<open>netlib.c\<close> may rely on, the locale \<open>game_keeps\<close> of callbacks that
    keep an invariant.
  \<^item> \<open>NL_TicTacToe\<close>, \<open>NL_Board\<close>, \<open>NL_TttRun\<close>: the Tic Tac Toe client, \<^verbatim>\<open>main.c\<close>, \<^verbatim>\<open>packets.c\<close> and the files
    \<^verbatim>\<open>stage_*.c\<close>; its cursor and boards; its frames as a step relation.
  \<^item> \<open>NL_Owned\<close>: lists whose nodes own the data they point to, as the games use them.
  \<^item> \<open>NL_Text\<close>: \<^verbatim>\<open>text.c\<close> of the games: the letters of a text, kept in one list per texture.
  \<^item> \<open>NL_Hello\<close>: the Hello World game, \<^verbatim>\<open>main.c\<close>, \<^verbatim>\<open>packets.c\<close> and \<^verbatim>\<open>stage_hello.c\<close>, over \<open>NL_N64\<close> and \<open>NL_Text\<close>.
  \<^item> \<open>NL_Objects\<close>: \<^verbatim>\<open>objects.c\<close> and \<^verbatim>\<open>mathtypes.c\<close> of the Realtime game: the objects behind a list on the heap,
    their movement and their timelines.
  \<^item> \<open>NL_Realtime\<close>: its \<^verbatim>\<open>packets.c\<close>, \<^verbatim>\<open>stage_*.c\<close> and \<^verbatim>\<open>main.c\<close>; \<open>NL_RtPackets\<close>: lemmas on its packets;
    \<open>NL_RtRun\<close>: lemmas on its inputs and stages.
  \<^item> \<open>NL_Session\<close>: two \<open>UDPHandler\<close>s and the network between them, as a step relation.
  \<^item> \<open>NL_System\<close>: console, device thread and connection thread together.

  \<^bold>\<open>How the code is modelled.\<close> A class is a record and a method a function on it; C and C++ names
  are kept, with the class in front where two classes have a method of one name. Integers keep
  their width as words. A call that can fail returns a \<open>result\<close>: \<open>Inl\<close> of a \<open>fault\<close>, which is an
  exception of the code or an undefined behaviour the model makes visible (an access outside an
  object, a null pointer, a changed container), or \<open>Inr\<close>. What the code gets from outside is an
  argument: \<open>env\<close> holds the allocator, the machine's shift by an out-of-range count and whether the
  socket accepts a datagram. That shift is undefined in C++ and masks the count on x86 and 64-bit ARM;
  no theorem assumes what it gives: those that need it have the guard that no such shift can hit a
  number that matters (\<open>ack_safe\<close>, \<open>shl_safe\<close>, \<open>takes_safely\<close>), which the instances meet on x86.
  \<open>wx\<close> and \<open>wxlib\<close> hold the \<open>wxString\<close> members, with their documented behaviour as the hypothesis
  \<open>wx_documented\<close>; the conversion to bytes keeps ASCII text and nothing more is assumed of it, so that
  copies into buffers sized in characters can fail. The disk is \<open>fs\<close>; the clock is the argument \<open>now\<close>.
  The cartridge behind the console's bus is the argument \<open>pi\<close>; what the lemmas need of it are the
  hypotheses \<open>clock_law\<close>, \<open>memory_law\<close>, \<open>wire_law\<close> and \<open>input_law\<close> (bytes are handed over only after a
  read request was written and has been served), with \<open>answers_in_time\<close> for a cartridge that is
  prompt, and \<open>NL_Flashcart\<close> ends with a cartridge for which they hold. How a flashcart's write
  routine ends is an argument of the abstract layer in \<open>NL_N64\<close>. In the Realtime game a \<open>float\<close> is its 32 bits; the arithmetic on it is the
  argument \<open>fpu\<close>, which with \<open>qsort\<close>, \<open>powf\<close>, the allocator and the clock's conversions is in the argument
  \<open>console\<close>, and no theorem depends on what they compute. \<open>malloc\<close> is the argument \<open>alloc\<close>, which gives an unused address or
  \<open>None\<close>. Sockets, queues, posted events and calls of the flashcart library are lists of what was sent or is
  waiting. A thread is a function of one round of its loop and a run over a script that gives, for
  every round, what arrived since the last one, so every interleaving at the queues is one script.

  \<^bold>\<open>Loops.\<close> A loop that takes a datagram out of the socket in every turn has the number of waiting
  datagrams plus one as fuel, and \<open>connection_round_returns\<close> shows that this suffices. The upload
  loop and the download loop consume one entry of their script in each turn and give \<open>None\<close> when
  it is used up while they still run; \<open>upload_ends\<close> and \<open>download_saves_file\<close> show that they end. The
  upload's thread is joined after its loop, and \<open>None\<close> is also a join that does not come back.
  \<open>netlib_poll\<close> has fuel for the messages it polls; a callback may send, and sending polls, so the
  callbacks of the Tic Tac Toe client have the fuel that is left, and \<open>frame_returns\<close> shows that the
  number of waiting messages suffices. The loops of \<^verbatim>\<open>usb.c\<close> and \<^verbatim>\<open>datastructs.c\<close> and the cursor's
  movement may not end and are partial functions; \<open>timed_waits_end\<close> and \<open>movement_hangs_iff_blocked\<close>
  say when they do; \<open>objectupdate_returns\<close> shows that the parser of the Realtime game's updates
  returns although its counter wraps. Finally, \<open>sha256_update\<close> is \<open>None\<close> for the sizes
  whose 32-bit counter never reaches the length.

  \<^bold>\<open>What is shown.\<close>
  \<^item> End to end (\<open>NL_System\<close>, \<open>NL_App\<close>): what a game sends leaves the computer in one datagram with
    the same type, flags and bytes, and a server's datagram reaches the function the game registered;
    the start of the program asks the configured master server for the list.
  \<^item> Reliability (\<open>NL_UDP\<close>, \<open>NL_Session\<close>): the invariant of the handler, what sending, receiving and
    resending do on every path, no duplicates within the window; over a network that loses, repeats
    and reorders, a forgotten packet has number 0 or one that was delivered, and one exchange
    acknowledges; a given-up packet stays in the list; and two theorems on where this is too weak (an unreliable packet shares its number
    with the next reliable one, and number 0 is acknowledged by a peer that has heard nothing).
  \<^item> Codecs (\<open>NL_Packets\<close>, \<open>NL_N64\<close>): round trips for both classes whatever follows in the buffer, the
    order of the parsers' checks, well-formedness of what they return, bounds of the console's buffer.
  \<^item> Threads (\<open>NL_Relay\<close>, \<open>NL_Device\<close>, \<open>NL_Finder\<close>): one round exactly; the connection thread refines
    a queue (what it has sent is what was put in, in order); downloads save exactly the file; the
    threads end and leave the window in the right state; and that no thread resends anything.
  \<^item> Windows (\<open>NL_Client\<close>, \<open>NL_Browser\<close>): invariants over all histories of events, as far as the program
    gets, what activating a server does for every state of its ROM, and exactly when it overruns
    a buffer.
  \<^item> Hash (\<open>NL_Sha256\<close>, \<open>NL_Rom\<close>): the streaming hash is FIPS 180-4, and the comparison of a ROM is a
    comparison of digests.
  \<^item> USB on the console (\<open>NL_Flashcart\<close>, \<open>NL_Usb\<close>): what the EverDrive's driver puts on the wire and
    takes from it, where the other drivers place a message, the waits that end, and that \<open>usb_read\<close>
    refines the abstract layer under \<^verbatim>\<open>netlib.c\<close>.
  \<^item> Containers (\<open>NL_Lists\<close>): each operation on the sequence or map that a heap structure represents,
    with what it does to other structures, and the two calls that break a list.
  \<^item> Tic Tac Toe (\<open>NL_Board\<close>, \<open>NL_TttRun\<close>): the invariant of every reachable state, that every frame
    returns or which of two exceptions is met, what a move sends and when it is lost.
  \<^item> Realtime (\<open>NL_Objects\<close>, \<open>NL_RtPackets\<close>, \<open>NL_RtRun\<close>): packets about objects refine operations on the
    list of the level's objects, a synchronised timeline has no gaps, acknowledging and sending keep
    exactly the right inputs, the modes stay consistent, drawing interpolates between neighbours on
    the timeline, and the game stage cannot be left without going through a bad pointer.
  \<^item> Text (\<open>NL_Text\<close>, \<open>NL_Hello\<close>): what a screen draws after it was cleared and given texts, for every font,
    two texts that go through a bad pointer, and the Hello World game from its start to the number on
    the screen. The fonts and the allocator are the argument \<open>textenv\<close>, whose law is \<open>textenv_ok\<close>; the
    frame's fuel is one more than the number of waiting messages.

  \<^bold>\<open>Not modelled.\<close> The layout of windows and controls; asio, wxWidgets and the flashcart library
  \<^verbatim>\<open>device.h\<close>, whose code is not in the repository's own sources; the master server and the example
  servers (Java); the commands for the display processor that depend neither on a text nor on an
  object; and the debug library \<^verbatim>\<open>debug.c\<close>, which is compiled out. The progress in per cent of a download
  is a parameter, since it is computed in single precision. A thread is interrupted by others only
  between rounds of its loop; memory that the code leaks or frees twice is not tracked.
\<close>

end
